(* ===== verification/Prelude.thy ===== *)
theory Prelude
  imports "HOL-Library.AList" "HOL-Library.Char_ord" "HOL-Library.List_Lexorder" "HOL-Library.Word"
begin

text \<open>
  Shared vocabulary of the development. It holds the types every component uses (byte strings,
  JavaScript \<^verbatim>\<open>Map\<close>s with their insertion order as association lists, bounds that may be
  \<^verbatim>\<open>Infinity\<close>), the collections of rewrite rules, and the generic facts on lists and strings:
  removing one element of a list without repetitions, prefixes, and the order of fixed-width
  decimal strings, on which every position in the hub rests.
\<close>

named_theorems hub_simps \<open>observations of hub state after an operation\<close>
named_theorems hub_intros \<open>preservation of the invariants of the hub\<close>

section \<open>Types shared by the components\<close>

type_synonym bytes = "8 word list"
type_synonym did = string
type_synonym topic_id = string
type_synonym sequence_id = string

text \<open>
  A JavaScript \<^verbatim>\<open>Map\<close> whose iteration order is observable is an association list: \<open>AList.update\<close>
  keeps the place of a key that is present and appends a new one, as \<^verbatim>\<open>Map.set\<close> does.
\<close>

type_synonym ('k, 'v) js_map = "('k \<times> 'v) list"

text \<open>A numeric bound whose \<open>None\<close> is \<^verbatim>\<open>Number.POSITIVE_INFINITY\<close>.\<close>

definition exceeds :: "'a::linorder \<Rightarrow> 'a option \<Rightarrow> bool" where
  "exceeds x bound = (case bound of None \<Rightarrow> False | Some b \<Rightarrow> b < x)"

lemma exceeds_simps [simp]:
  "exceeds x None \<longleftrightarrow> False"
  "exceeds x (Some b) \<longleftrightarrow> b < x"
  by (simp_all add: exceeds_def)

text \<open>The value of \<^verbatim>\<open>map.get(key) ?? fallback\<close>.\<close>

definition or_else :: "'a option \<Rightarrow> 'a \<Rightarrow> 'a" where
  "or_else x d = (case x of None \<Rightarrow> d | Some v \<Rightarrow> v)"

lemma or_else_simps [simp]:
  "or_else None d = d"
  "or_else (Some v) d = v"
  by (simp_all add: or_else_def)

text \<open>A map slot that is deleted rather than left with an empty array.\<close>

definition nonempty_slot :: "'a list \<Rightarrow> 'a list option" where
  "nonempty_slot xs = (if xs = [] then None else Some xs)"

lemma nonempty_slot_simps [simp]:
  "nonempty_slot [] = None"
  "nonempty_slot (x # xs) = Some (x # xs)"
  "nonempty_slot xs = None \<longleftrightarrow> xs = []"
  "or_else (nonempty_slot xs) [] = xs"
  "nonempty_slot (xs @ [x]) = Some (xs @ [x])"
  by (auto simp: nonempty_slot_def)

lemma nonempty_slot_eq_Some [simp]: "nonempty_slot xs = Some ys \<longleftrightarrow> ys = xs \<and> xs \<noteq> []"
  by (auto simp: nonempty_slot_def)

section \<open>Lists\<close>

lemma remove1_filter_neq: "distinct xs \<Longrightarrow> remove1 x xs = filter (\<lambda>y. y \<noteq> x) xs"
  by (simp add: distinct_remove1_removeAll removeAll_filter_not_eq eq_commute)

lemma AList_delete_filter: "AList.delete k xs = filter (\<lambda>p. fst p \<noteq> k) xs"
  by (simp add: AList.delete_eq case_prod_unfold eq_commute)

lemma AList_update_new: "k \<notin> fst ` set xs \<Longrightarrow> AList.update k v xs = xs @ [(k, v)]"
  by (induction xs) auto

lemma AList_update_map:
  "distinct (map fst xs) \<Longrightarrow> k \<in> fst ` set xs \<Longrightarrow>
     AList.update k v xs = map (\<lambda>p. if fst p = k then (k, v) else p) xs"
proof (induction xs)
  case (Cons p xs)
  have "map (\<lambda>p. if fst p = k then (k, v) else p) xs = xs" if "k \<notin> fst ` set xs"
    using that by (induction xs) auto
  with Cons show ?case by (cases p) auto
qed simp

lemma map_fst_filter_delete:
  "map fst (filter P (filter (\<lambda>p. fst p \<noteq> k) xs)) =
     filter (\<lambda>i. i \<noteq> k) (map fst (filter P xs))"
  by (induction xs) auto

lemma AList_update_in_place:
  "map fst (AList.update k v xs) = (if k \<in> fst ` set xs then map fst xs else map fst xs @ [k])"
  by (induction xs) auto

lemma sorted_wrt_less_distinct: "sorted_wrt (<) (xs :: 'a::order list) \<Longrightarrow> distinct xs"
  by (induction xs) auto

lemma map_of_mem_iff: "distinct (map fst xs) \<Longrightarrow> map_of xs k = Some v \<longleftrightarrow> (k, v) \<in> set xs"
  by (rule map_of_eq_Some_iff)

lemma find_None_iff_filter: "find P xs = None \<longleftrightarrow> filter P xs = []"
  by (induction xs) auto

lemma find_Some_hd_filter: "find P xs = Some x \<longleftrightarrow> filter P xs \<noteq> [] \<and> x = hd (filter P xs)"
  by (induction xs) auto

lemma filter_neq_hd: "distinct (x # xs) \<Longrightarrow> filter (\<lambda>y. y \<noteq> x) (x # xs) = xs"
  by (auto simp: filter_id_conv)

lemma sorted_wrt_less_last:
  fixes xs :: "'a::linorder list"
  shows "sorted_wrt (<) xs \<Longrightarrow> x \<in> set xs \<Longrightarrow> x \<le> last xs"
  by (induction xs) (auto simp: less_imp_le split: if_splits)

lemma sorted_keys_min_hd:
  fixes xs :: "('k::linorder \<times> 'v) list"
  assumes "sorted_wrt (<) (map fst xs)" and "(k, v) \<in> set xs" and "\<forall>p \<in> set xs. k \<le> fst p"
  shows "\<exists>ys. xs = (k, v) # ys \<and> filter (\<lambda>p. fst p \<noteq> k) xs = ys"
proof (cases xs)
  case Nil
  with assms(2) show ?thesis by simp
next
  case (Cons p ys)
  have "p = (k, v)"
    using assms Cons by (cases p) (fastforce simp: image_iff)
  moreover have "\<forall>y \<in> set ys. fst y \<noteq> k"
    using assms(1) Cons \<open>p = (k, v)\<close> by auto
  ultimately show ?thesis using Cons by (auto simp: filter_id_conv)
qed

text \<open>In a strictly increasing list the elements above a bound are a suffix.\<close>

lemma sorted_filter_greater_drop:
  fixes xs :: "'a::linorder list"
  assumes "sorted_wrt (<) xs"
  shows "filter (\<lambda>x. b < x) xs = drop (length (filter (\<lambda>x. x \<le> b) xs)) xs"
  using assms
proof (induction xs)
  case Nil
  then show ?case by simp
next
  case (Cons x xs)
  show ?case
  proof (cases "x \<le> b")
    case True
    with Cons show ?thesis by (simp add: not_less)
  next
    case False
    with Cons.prems have "\<forall>y \<in> set xs. b < y" by auto
    then have "filter (\<lambda>y. b < y) xs = xs" and "filter (\<lambda>y. y \<le> b) xs = []"
      by (auto simp: filter_id_conv filter_empty_conv)
    with False show ?thesis by simp
  qed
qed

section \<open>Fixed-width decimal positions\<close>

text \<open>\<^verbatim>\<open>String(n)\<close> on a non-negative integer, and \<^verbatim>\<open>padStart\<close>.\<close>

definition digit :: "nat \<Rightarrow> char" where
  "digit n = char_of (48 + n)"

fun show_nat :: "nat \<Rightarrow> string" where
  "show_nat n = (if n < 10 then [digit n] else show_nat (n div 10) @ [digit (n mod 10)])"

declare show_nat.simps [simp del]

definition show_int :: "int \<Rightarrow> string" where
  "show_int i = (if i < 0 then CHR ''-'' # show_nat (nat (- i)) else show_nat (nat i))"

definition pad_start :: "nat \<Rightarrow> char \<Rightarrow> string \<Rightarrow> string" where
  "pad_start w c s = replicate (w - length s) c @ s"

text \<open>The same digits by recursion on the width: the form the order is proved on.\<close>

fun fixed_digits :: "nat \<Rightarrow> nat \<Rightarrow> string" where
  "fixed_digits 0 n = []"
| "fixed_digits (Suc w) n = fixed_digits w (n div 10) @ [digit (n mod 10)]"

lemma length_fixed_digits [simp]: "length (fixed_digits w n) = w"
  by (induction w arbitrary: n) auto

lemma of_char_digit: "n < 10 \<Longrightarrow> (of_char (digit n) :: nat) = 48 + n"
  by (simp add: digit_def)

lemma digit_less_iff: "m < 10 \<Longrightarrow> n < 10 \<Longrightarrow> digit m < digit n \<longleftrightarrow> m < n"
  by (simp add: less_char_def of_char_digit)

lemma append_snoc_less:
  fixes xs ys :: "'a::linorder list"
  assumes "length xs = length ys"
  shows "xs @ [a] < ys @ [b] \<longleftrightarrow> xs < ys \<or> xs = ys \<and> a < b"
  using assms by (induction xs ys rule: list_induct2) auto

lemma fixed_digits_less:
  "m < n \<Longrightarrow> n < 10 ^ w \<Longrightarrow> fixed_digits w m < fixed_digits w n"
proof (induction w arbitrary: m n)
  case 0
  then show ?case by simp
next
  case (Suc w)
  have bound: "n div 10 < 10 ^ w"
    using Suc.prems(2) by (simp add: less_mult_imp_div_less mult.commute)
  show ?case
  proof (cases "m div 10 = n div 10")
    case True
    with Suc.prems(1) have "m mod 10 < n mod 10"
      by (metis add_less_cancel_left mult_div_mod_eq)
    with True show ?thesis
      by (simp add: append_snoc_less digit_less_iff)
  next
    case False
    with Suc.prems(1) have "m div 10 < n div 10"
      by (meson div_le_mono le_less less_imp_le)
    with Suc.IH [OF _ bound] show ?thesis
      by (simp add: append_snoc_less)
  qed
qed

lemma show_nat_fixed:
  "n < 10 ^ w \<Longrightarrow> 0 < w \<Longrightarrow> pad_start w (digit 0) (show_nat n) = fixed_digits w n \<and> length (show_nat n) \<le> w"
proof (induction n arbitrary: w rule: show_nat.induct)
  case (1 n)
  obtain v where w: "w = Suc v" using "1.prems"(2) by (cases w) auto
  have zeros: "replicate u (digit 0) = fixed_digits u 0" for u
  proof (induction u)
    case (Suc u)
    then show ?case
      using replicate_append_same [of u "digit 0"] by simp
  qed simp
  show ?case
  proof (cases "n < 10")
    case True
    then show ?thesis
      by (subst (1 2) show_nat.simps) (simp add: w pad_start_def zeros)
  next
    case False
    with "1.prems" have v: "0 < v" "n div 10 < 10 ^ v"
      by (auto simp: w less_mult_imp_div_less mult.commute intro!: Nat.gr0I)
    have "pad_start v (digit 0) (show_nat (n div 10)) = fixed_digits v (n div 10)"
      and "length (show_nat (n div 10)) \<le> v"
      using "1.IH" [OF False v(2,1)] by simp_all
    with False show ?thesis
      by (subst (1 2) show_nat.simps) (auto simp: w pad_start_def)
  qed
qed

end
