(* ===== verification/Hub_Protocol.thy ===== *)
theory Hub_Protocol
  imports Prelude
begin

text \<open>
  The vocabulary of the hub, from \<^verbatim>\<open>packages/hub-protocol/src\<close>: the parameter and result types
  of the store interface (\<^verbatim>\<open>types.ts\<close>), the named errors and their wire codes (\<^verbatim>\<open>errors.ts\<close>),
  and the interface \<^verbatim>\<open>HubStore\<close> itself as a record of operations over an arbitrary store state.
  A JavaScript \<^verbatim>\<open>async\<close> method that throws is a function into a sum whose left side is the error,
  paired with the state it leaves behind.
\<close>

section \<open>Errors and their wire codes\<close>

datatype hub_error_class =
    HeadMismatchError
  | NotSubscribedError
  | RetentionExceededError
  | InvalidPayloadError
  | AuthorizationDeniedError
  | KeyPackageQuotaExceededError
  | SubscriptionQuotaExceededError
  | KeyPackageFetchLimitError
  | WakeNotSupportedError
  | RateLimitedError

text \<open>Any thrown value: a named hub error, or something the hub does not know.\<close>

datatype js_error = HubError hub_error_class string | OtherError string

definition HUB_ERROR_CODES :: "hub_error_class \<Rightarrow> string" where
  "HUB_ERROR_CODES c = (case c of
       HeadMismatchError \<Rightarrow> ''HUB_HEAD_MISMATCH''
     | NotSubscribedError \<Rightarrow> ''HUB_NOT_SUBSCRIBED''
     | RetentionExceededError \<Rightarrow> ''HUB_RETENTION_EXCEEDED''
     | InvalidPayloadError \<Rightarrow> ''HUB_INVALID_PAYLOAD''
     | AuthorizationDeniedError \<Rightarrow> ''HUB_AUTHORIZATION_DENIED''
     | KeyPackageQuotaExceededError \<Rightarrow> ''HUB_KEYPACKAGE_QUOTA''
     | SubscriptionQuotaExceededError \<Rightarrow> ''HUB_SUBSCRIPTION_QUOTA''
     | KeyPackageFetchLimitError \<Rightarrow> ''HUB_KEYPACKAGE_FETCH_LIMIT''
     | WakeNotSupportedError \<Rightarrow> ''HUB_WAKE_NOT_SUPPORTED''
     | RateLimitedError \<Rightarrow> ''HUB_RATE_LIMITED'')"

definition hubErrorCodeOf :: "js_error \<Rightarrow> string option" where
  "hubErrorCodeOf e = (case e of
       HubError c _ \<Rightarrow> Some (HUB_ERROR_CODES c)
     | OtherError _ \<Rightarrow> None)"

definition hubErrorFromCode :: "string \<Rightarrow> string \<Rightarrow> js_error option" where
  "hubErrorFromCode code message =
     (if code = HUB_ERROR_CODES HeadMismatchError then Some (HubError HeadMismatchError message)
      else if code = HUB_ERROR_CODES NotSubscribedError then Some (HubError NotSubscribedError message)
      else if code = HUB_ERROR_CODES RetentionExceededError then Some (HubError RetentionExceededError message)
      else if code = HUB_ERROR_CODES InvalidPayloadError then Some (HubError InvalidPayloadError message)
      else if code = HUB_ERROR_CODES AuthorizationDeniedError then Some (HubError AuthorizationDeniedError message)
      else if code = HUB_ERROR_CODES KeyPackageQuotaExceededError then Some (HubError KeyPackageQuotaExceededError message)
      else if code = HUB_ERROR_CODES SubscriptionQuotaExceededError then Some (HubError SubscriptionQuotaExceededError message)
      else if code = HUB_ERROR_CODES KeyPackageFetchLimitError then Some (HubError KeyPackageFetchLimitError message)
      else if code = HUB_ERROR_CODES WakeNotSupportedError then Some (HubError WakeNotSupportedError message)
      else if code = HUB_ERROR_CODES RateLimitedError then Some (HubError RateLimitedError message)
      else None)"

lemma all_hub_error_class:
  "(\<forall>c. P c) \<longleftrightarrow> P HeadMismatchError \<and> P NotSubscribedError \<and> P RetentionExceededError \<and>
     P InvalidPayloadError \<and> P AuthorizationDeniedError \<and> P KeyPackageQuotaExceededError \<and>
     P SubscriptionQuotaExceededError \<and> P KeyPackageFetchLimitError \<and> P WakeNotSupportedError \<and>
     P RateLimitedError"
  by (metis (full_types) hub_error_class.exhaust)

section \<open>Messages, parameters and results\<close>

datatype RetentionClass = RLog | RMailbox

text \<open>\<^verbatim>\<open>logPosition\<close> is an optional key: \<open>None\<close> is its absence.\<close>

record StoredMessage =
  sm_sequenceID :: sequence_id
  sm_senderDID :: did
  sm_topicID :: topic_id
  sm_payload :: bytes
  sm_logPosition :: "sequence_id option"

text \<open>
  \<^verbatim>\<open>expectedHead?: string | null\<close> has three cases, and the code keeps them apart: absent
  (\<open>None\<close>), \<^verbatim>\<open>null\<close> (\<open>Some None\<close>) and a position (\<open>Some (Some h)\<close>).
\<close>

record PublishParams =
  pp_senderDID :: did
  pp_topicID :: topic_id
  pp_payload :: bytes
  pp_expectedHead :: "sequence_id option option"
  pp_publishID :: "string option"
  pp_retain :: "RetentionClass option"

record PublishResult =
  pr_sequenceID :: sequence_id
  pr_deduped :: bool

record SubscribeParams =
  sp_subscriberDID :: did
  sp_topicID :: topic_id
  sp_retention :: "int option"

record FetchTopicParams =
  ft_subscriberDID :: did
  ft_topicID :: topic_id
  ft_after :: "sequence_id option"
  ft_limit :: "nat option"

record FetchTopicResult =
  fr_messages :: "StoredMessage list"
  fr_head :: "sequence_id option"
  fr_oldest :: "sequence_id option"
  fr_gap :: bool

record FetchParams =
  fp_recipientDID :: did
  fp_after :: "sequence_id option"
  fp_limit :: "nat option"
  fp_ack :: "sequence_id list option"

record FetchResult =
  fe_messages :: "StoredMessage list"
  fe_cursor :: "sequence_id option"
  fe_hasMore :: bool

text \<open>The class a publish is stored under: \<^verbatim>\<open>params.retain ?? 'mailbox'\<close>.\<close>

definition retain_of :: "PublishParams \<Rightarrow> RetentionClass" where
  "retain_of p = or_else (pp_retain p) RMailbox"

text \<open>A head in the message of a lost compare-and-set.\<close>

definition show_head :: "sequence_id option \<Rightarrow> string" where
  "show_head h = or_else h ''null''"

section \<open>The store interface\<close>

text \<open>
  \<^verbatim>\<open>HubStore\<close>: the operations over a store state \<open>'s\<close>. Operations that read the clock take the
  time in milliseconds first.
\<close>

record 's HubStore =
  hs_publish :: "int \<Rightarrow> PublishParams \<Rightarrow> 's \<Rightarrow> (js_error + PublishResult) \<times> 's"
  hs_fetch :: "FetchParams \<Rightarrow> 's \<Rightarrow> (js_error + FetchResult) \<times> 's"
  hs_fetchTopic :: "FetchTopicParams \<Rightarrow> 's \<Rightarrow> js_error + FetchTopicResult"
  hs_ack :: "did \<Rightarrow> sequence_id list \<Rightarrow> 's \<Rightarrow> (js_error + unit) \<times> 's"
  hs_purge :: "int \<Rightarrow> int \<Rightarrow> 's \<Rightarrow> (js_error + sequence_id list) \<times> 's"
  hs_trim :: "topic_id \<Rightarrow> sequence_id \<Rightarrow> 's \<Rightarrow> (js_error + unit) \<times> 's"
  hs_subscribe :: "int \<Rightarrow> SubscribeParams \<Rightarrow> 's \<Rightarrow> (js_error + unit) \<times> 's"
  hs_unsubscribe :: "did \<Rightarrow> topic_id \<Rightarrow> 's \<Rightarrow> (js_error + unit) \<times> 's"
  hs_getSubscribers :: "topic_id \<Rightarrow> 's \<Rightarrow> js_error + did list"
  hs_storeKeyPackage :: "int \<Rightarrow> did \<Rightarrow> string \<Rightarrow> int option \<Rightarrow> 's \<Rightarrow> (js_error + unit) \<times> 's"
  hs_fetchKeyPackages :: "int \<Rightarrow> did \<Rightarrow> nat option \<Rightarrow> 's \<Rightarrow> (js_error + string list) \<times> 's"
  hs_countKeyPackages :: "int \<Rightarrow> did \<Rightarrow> 's \<Rightarrow> js_error + nat"
  hs_storeLastResortKeyPackage :: "did \<Rightarrow> string \<Rightarrow> 's \<Rightarrow> (js_error + unit) \<times> 's"
  hs_fetchLastResortKeyPackage :: "did \<Rightarrow> 's \<Rightarrow> js_error + string option"

section \<open>Positions\<close>

text \<open>
  Both stores mint a position the same way, \<^verbatim>\<open>String(counter).padStart(12, '0')\<close>, so that the
  lexicographic order of positions is the order of the counter.
\<close>

definition formatSequenceID :: "nat \<Rightarrow> sequence_id" where
  "formatSequenceID counter = pad_start 12 (digit 0) (show_nat counter)"

text \<open>The counters for which twelve digits are enough.\<close>

definition seq_space :: nat where
  "seq_space = 10 ^ 12"

lemma formatSequenceID_fixed: "n < seq_space \<Longrightarrow> formatSequenceID n = fixed_digits 12 n"
  using show_nat_fixed [of n 12] by (simp add: formatSequenceID_def seq_space_def)

lemma formatSequenceID_less:
  "m < n \<Longrightarrow> n < seq_space \<Longrightarrow> formatSequenceID m < formatSequenceID n"
  using fixed_digits_less [of m n 12] formatSequenceID_fixed [of m] formatSequenceID_fixed [of n]
  by (simp add: seq_space_def)

lemma formatSequenceID_less_iff:
  assumes "m < seq_space" and "n < seq_space"
  shows "formatSequenceID m < formatSequenceID n \<longleftrightarrow> m < n"
  using formatSequenceID_less [of m n] formatSequenceID_less [of n m] assms
  by (metis less_asym' linorder_less_linear)

text \<open>Positions minted so far, for a counter value \<open>c\<close>.\<close>

definition minted :: "nat \<Rightarrow> sequence_id \<Rightarrow> bool" where
  "minted c q \<longleftrightarrow> (\<exists>n. 0 < n \<and> n \<le> c \<and> q = formatSequenceID n)"

lemma minted_mono: "minted c q \<Longrightarrow> c \<le> d \<Longrightarrow> minted d q"
  by (force simp: minted_def)

lemma minted_Suc_mono: "minted c q \<Longrightarrow> minted (Suc c) q"
  by (erule minted_mono) simp

lemma minted_Suc [intro]: "minted (Suc c) (formatSequenceID (Suc c))"
  by (auto simp: minted_def)

lemma minted_less_next: "minted c q \<Longrightarrow> Suc c < seq_space \<Longrightarrow> q < formatSequenceID (Suc c)"
  by (auto simp: minted_def intro!: formatSequenceID_less)

text \<open>
  The property of the text order of positions is the order in which they were minted. The bound is sharp:
  the first counter with thirteen digits sorts before the last one with twelve.
\<close>

theorem formatSequenceID_order:
  "m < seq_space \<Longrightarrow> n < seq_space \<Longrightarrow>
     (formatSequenceID m < formatSequenceID n \<longleftrightarrow> m < n) \<and> length (formatSequenceID n) = 12"
  using formatSequenceID_less_iff [of m n] formatSequenceID_fixed [of n] by simp

theorem formatSequenceID_order_witness:
  "(9::nat) < seq_space \<and> (10::nat) < seq_space \<and> formatSequenceID 9 < formatSequenceID 10
     \<and> length (formatSequenceID 10) = 12"
  using formatSequenceID_order [of 9 10] by (simp add: seq_space_def)

text \<open>
  The property of a named error crosses the wire unchanged, and nothing else becomes one. A code that
  names no hub error, as a transport failure does, is rebuilt as nothing.
\<close>

theorem hubErrorCode_roundtrip:
  "(case hubErrorCodeOf (HubError c m) of
      None \<Rightarrow> False
    | Some code \<Rightarrow> hubErrorFromCode code m = Some (HubError c m))
   \<and> (hubErrorFromCode code' m = None \<longleftrightarrow> code' \<notin> range HUB_ERROR_CODES)"
proof -
  have "hubErrorFromCode code' m = None \<longleftrightarrow> (\<forall>c. code' \<noteq> HUB_ERROR_CODES c)"
    by (simp add: hubErrorFromCode_def all_hub_error_class)
  moreover have "hubErrorFromCode (HUB_ERROR_CODES c) m = Some (HubError c m)"
    by (cases c) (simp_all add: hubErrorFromCode_def HUB_ERROR_CODES_def)
  ultimately show ?thesis
    by (auto simp: hubErrorCodeOf_def)
qed

end
