(* ===== verification/Memory_Store.thy ===== *)
theory Memory_Store
  imports Hub_Protocol
begin

text \<open>
  The reference store of \<^verbatim>\<open>packages/hub-server/src/memoryStore.ts\<close>: its state, every operation of
  the returned \<^verbatim>\<open>HubStore\<close> in the order of the source, and the lockstep invariant between the six
  indices it keeps. \<^verbatim>\<open>entries\<close> and the subscriber maps keep their insertion order, because \<^verbatim>\<open>purge\<close>
  and \<^verbatim>\<open>getSubscribers\<close> iterate over them; the other maps are only looked up.
\<close>

section \<open>State\<close>

record LogEntry =
  le_sequenceID :: sequence_id
  le_senderDID :: did
  le_topicID :: topic_id
  le_payload :: bytes
  le_storedAt :: int
  le_retain :: RetentionClass
  le_pendingFor :: "did list"

record StoredKeyPackage =
  kp_keyPackage :: string
  kp_notAfter :: "int option"

record MemoryStoreOptions =
  mo_maxDepth :: "nat option"
  mo_defaultRetention :: int
  mo_maxRetention :: "int option"
  mo_maxKeyPackagesPerDID :: nat
  mo_maxSubscriptionsPerDID :: nat

definition default_options :: MemoryStoreOptions where
  "default_options = \<lparr>mo_maxDepth = Some 1000, mo_defaultRetention = 0,
     mo_maxRetention = Some 2592000, mo_maxKeyPackagesPerDID = 100,
     mo_maxSubscriptionsPerDID = 1000\<rparr>"

record mem_store =
  ms_counter :: nat
  ms_entries :: "(sequence_id, LogEntry) js_map"
  ms_topicLogs :: "topic_id \<rightharpoonup> sequence_id list"
  ms_heads :: "topic_id \<rightharpoonup> sequence_id"
  ms_removedThrough :: "topic_id \<rightharpoonup> sequence_id"
  ms_deliveries :: "did \<rightharpoonup> sequence_id list"
  ms_publishRecords :: "string \<rightharpoonup> sequence_id"
  ms_subscriptions :: "topic_id \<rightharpoonup> (did, int) js_map"
  ms_subsByDID :: "did \<rightharpoonup> topic_id list"
  ms_keyPackages :: "did \<rightharpoonup> StoredKeyPackage list"
  ms_lastResortKeyPackages :: "did \<rightharpoonup> string"

definition createMemoryStore :: mem_store where
  "createMemoryStore = \<lparr>ms_counter = 0, ms_entries = [], ms_topicLogs = Map.empty,
     ms_heads = Map.empty, ms_removedThrough = Map.empty, ms_deliveries = Map.empty,
     ms_publishRecords = Map.empty, ms_subscriptions = Map.empty, ms_subsByDID = Map.empty,
     ms_keyPackages = Map.empty, ms_lastResortKeyPackages = Map.empty\<rparr>"

section \<open>Internal helpers\<close>

definition isLive :: "StoredKeyPackage \<Rightarrow> int \<Rightarrow> bool" where
  "isLive entry nowSeconds =
     (case kp_notAfter entry of None \<Rightarrow> True | Some n \<Rightarrow> nowSeconds < n)"

definition asStoredMessage :: "LogEntry \<Rightarrow> StoredMessage" where
  "asStoredMessage entry = \<lparr>sm_sequenceID = le_sequenceID entry,
     sm_senderDID = le_senderDID entry, sm_topicID = le_topicID entry,
     sm_payload = le_payload entry,
     sm_logPosition = (if le_retain entry = RLog then Some (le_sequenceID entry) else None)\<rparr>"

text \<open>\<^verbatim>\<open>entries.get(id)?.retain === 'log'\<close>.\<close>

definition isLogEntry :: "mem_store \<Rightarrow> sequence_id \<Rightarrow> bool" where
  "isLogEntry s q = (case map_of (ms_entries s) q of None \<Rightarrow> False | Some e \<Rightarrow> le_retain e = RLog)"

definition retentionOf :: "MemoryStoreOptions \<Rightarrow> mem_store \<Rightarrow> topic_id \<Rightarrow> int \<Rightarrow> int" where
  "retentionOf opts s t floor =
     fold (\<lambda>(_, requested) retention. if requested > retention then requested else retention)
       (or_else (ms_subscriptions s t) []) (max floor (mo_defaultRetention opts))"

text \<open>\<^verbatim>\<open>list.splice(list.indexOf(x), 1)\<close> on the list at one slot, when there is one.\<close>

definition splice_slot :: "'a \<Rightarrow> ('k \<rightharpoonup> 'a list) \<Rightarrow> 'k \<Rightarrow> ('k \<rightharpoonup> 'a list)" where
  "splice_slot x m k = (case m k of None \<Rightarrow> m | Some xs \<Rightarrow> m(k \<mapsto> remove1 x xs))"

definition removeEntry :: "sequence_id \<Rightarrow> mem_store \<Rightarrow> mem_store" where
  "removeEntry q s = (case map_of (ms_entries s) q of
       None \<Rightarrow> s
     | Some entry \<Rightarrow>
         let t = le_topicID entry;
             removed = ms_removedThrough s t;
             removed' = (if le_retain entry = RLog \<and> (removed = None \<or> the removed < q)
                         then (ms_removedThrough s)(t \<mapsto> q) else ms_removedThrough s);
             deliveries' = fold (\<lambda>r m. splice_slot q m r) (le_pendingFor entry) (ms_deliveries s);
             logs' = (case ms_topicLogs s t of
                 None \<Rightarrow> ms_topicLogs s
               | Some log \<Rightarrow> (ms_topicLogs s)(t := nonempty_slot (remove1 q log)))
         in s\<lparr>ms_removedThrough := removed', ms_deliveries := deliveries',
              ms_topicLogs := logs', ms_entries := AList.delete q (ms_entries s)\<rparr>)"

definition dropDelivery :: "did \<Rightarrow> sequence_id \<Rightarrow> mem_store \<Rightarrow> mem_store" where
  "dropDelivery r q s =
     (let s1 = s\<lparr>ms_deliveries := splice_slot q (ms_deliveries s) r\<rparr>
      in case map_of (ms_entries s1) q of
           None \<Rightarrow> s1
         | Some entry \<Rightarrow>
             let entry' = entry\<lparr>le_pendingFor := remove1 r (le_pendingFor entry)\<rparr>;
                 s2 = s1\<lparr>ms_entries := AList.update q entry' (ms_entries s1)\<rparr>
             in if le_retain entry' = RMailbox \<and> le_pendingFor entry' = []
                then removeEntry q s2 else s2)"

section \<open>Operations\<close>

fun depthEvict :: "nat option \<Rightarrow> topic_id \<Rightarrow> nat \<Rightarrow> mem_store \<Rightarrow> mem_store" where
  "depthEvict maxDepth t 0 s = s"
| "depthEvict maxDepth t (Suc d) s =
     (if exceeds (Suc d) maxDepth
      then (case find (isLogEntry s) (or_else (ms_topicLogs s t) []) of
              None \<Rightarrow> s
            | Some oldest \<Rightarrow> depthEvict maxDepth t d (removeEntry oldest s))
      else s)"

text \<open>Appending a publish that was accepted: entry, topic log and deliveries, then the depth bound.\<close>

definition pushEntry :: "LogEntry \<Rightarrow> mem_store \<Rightarrow> mem_store" where
  "pushEntry e s =
     (let q = le_sequenceID e; t = le_topicID e
      in s\<lparr>ms_entries := AList.update q e (ms_entries s),
            ms_topicLogs := (ms_topicLogs s)(t \<mapsto> or_else (ms_topicLogs s t) [] @ [q]),
            ms_deliveries := fold (\<lambda>r m. m(r \<mapsto> or_else (m r) [] @ [q]))
                               (le_pendingFor e) (ms_deliveries s)\<rparr>)"

definition appendEntry :: "MemoryStoreOptions \<Rightarrow> LogEntry \<Rightarrow> mem_store \<Rightarrow> mem_store" where
  "appendEntry opts e s =
     (let s1 = pushEntry e s
      in if le_retain e = RLog
         then depthEvict (mo_maxDepth opts) (le_topicID e)
                (length (filter (isLogEntry s1) (or_else (ms_topicLogs s1 (le_topicID e)) []))) s1
         else s1)"

definition mem_publish ::
    "MemoryStoreOptions \<Rightarrow> int \<Rightarrow> PublishParams \<Rightarrow> mem_store \<Rightarrow> (js_error + PublishResult) \<times> mem_store" where
  "mem_publish opts now p s =
     (let t = pp_topicID p; retain = retain_of p
      in case Option.bind (pp_publishID p) (ms_publishRecords s) of
           Some accepted \<Rightarrow> (Inr \<lparr>pr_sequenceID = accepted, pr_deduped = True\<rparr>, s)
         | None \<Rightarrow>
             if pp_expectedHead p \<noteq> None \<and> ms_heads s t \<noteq> the (pp_expectedHead p)
             then (Inl (HubError HeadMismatchError
                     (''Publish to '' @ t @ '' expected head '' @ show_head (the (pp_expectedHead p)) @
                      '', but the head is '' @ show_head (ms_heads s t))), s)
             else
               let counter' = Suc (ms_counter s); q = formatSequenceID counter';
                   s1 = s\<lparr>ms_counter := counter',
                     ms_publishRecords := (case pp_publishID p of None \<Rightarrow> ms_publishRecords s
                        | Some i \<Rightarrow> (ms_publishRecords s)(i \<mapsto> q)),
                     ms_heads := (if retain = RLog then (ms_heads s)(t \<mapsto> q) else ms_heads s)\<rparr>;
                   recipients = filter (\<lambda>d. d \<noteq> pp_senderDID p)
                     (map fst (or_else (ms_subscriptions s1 t) []))
               in if retain = RMailbox \<and> recipients = []
                  then (Inr \<lparr>pr_sequenceID = q, pr_deduped = False\<rparr>, s1)
                  else (Inr \<lparr>pr_sequenceID = q, pr_deduped = False\<rparr>,
                        appendEntry opts \<lparr>le_sequenceID = q, le_senderDID = pp_senderDID p,
                          le_topicID = t, le_payload = pp_payload p, le_storedAt = now,
                          le_retain = retain, le_pendingFor = recipients\<rparr> s1))"

definition mem_ack :: "did \<Rightarrow> sequence_id list \<Rightarrow> mem_store \<Rightarrow> mem_store" where
  "mem_ack r qs s = fold (dropDelivery r) qs s"

text \<open>The index of the first pending delivery past the exclusive cursor.\<close>

fun startIndex :: "sequence_id \<Rightarrow> sequence_id list \<Rightarrow> nat" where
  "startIndex after [] = 0"
| "startIndex after (q # qs) = (if after < q then 0 else Suc (startIndex after qs))"

definition mem_fetch :: "FetchParams \<Rightarrow> mem_store \<Rightarrow> FetchResult \<times> mem_store" where
  "mem_fetch p s =
     (let s1 = mem_ack (fp_recipientDID p) (or_else (fp_ack p) []) s;
          pending = or_else (ms_deliveries s1 (fp_recipientDID p)) []
      in if pending = [] then (\<lparr>fe_messages = [], fe_cursor = None, fe_hasMore = False\<rparr>, s1)
         else
           let start = (case fp_after p of None \<Rightarrow> 0 | Some a \<Rightarrow> startIndex a pending);
               available = drop start pending;
               limit = or_else (fp_limit p) (length available);
               selected = take limit available;
               messages = map asStoredMessage
                 (List.map_filter (map_of (ms_entries s1)) selected)
           in (\<lparr>fe_messages = messages,
                fe_cursor = (if messages = [] then None else Some (sm_sequenceID (last messages))),
                fe_hasMore = limit < length available\<rparr>, s1))"

definition mem_isSubscriber :: "mem_store \<Rightarrow> topic_id \<Rightarrow> did \<Rightarrow> bool" where
  "mem_isSubscriber s t d = (d \<in> fst ` set (or_else (ms_subscriptions s t) []))"

definition mem_fetchTopic :: "FetchTopicParams \<Rightarrow> mem_store \<Rightarrow> js_error + FetchTopicResult" where
  "mem_fetchTopic p s =
     (let t = ft_topicID p
      in if \<not> mem_isSubscriber s t (ft_subscriberDID p)
         then Inl (HubError NotSubscribedError
                (ft_subscriberDID p @ '' is not a subscriber of '' @ t))
         else
           let log = filter (isLogEntry s) (or_else (ms_topicLogs s t) []);
               selected = (case ft_after p of None \<Rightarrow> log | Some a \<Rightarrow> filter (\<lambda>q. a < q) log);
               limited = (case ft_limit p of None \<Rightarrow> selected | Some n \<Rightarrow> take n selected)
           in Inr \<lparr>fr_messages = map asStoredMessage (List.map_filter (map_of (ms_entries s)) limited),
                   fr_head = ms_heads s t,
                   fr_oldest = (case log of [] \<Rightarrow> None | q # _ \<Rightarrow> Some q),
                   fr_gap = (case ms_removedThrough s t of
                       None \<Rightarrow> False
                     | Some r \<Rightarrow> (case ft_after p of None \<Rightarrow> True | Some a \<Rightarrow> a < r))\<rparr>)"

definition mem_trim :: "topic_id \<Rightarrow> sequence_id \<Rightarrow> mem_store \<Rightarrow> mem_store" where
  "mem_trim t before s = (case ms_topicLogs s t of
       None \<Rightarrow> s
     | Some log \<Rightarrow>
         fold (\<lambda>q s'. if q < before \<and> isLogEntry s' q then removeEntry q s' else s') log s)"

fun purge_scan ::
    "(topic_id \<Rightarrow> int) \<Rightarrow> int \<Rightarrow> (sequence_id, LogEntry) js_map \<Rightarrow> topic_id list \<Rightarrow> sequence_id list" where
  "purge_scan ret now [] retainedTopics = []"
| "purge_scan ret now ((q, e) # es) retainedTopics =
     (if le_retain e = RLog \<and> le_topicID e \<in> set retainedTopics
      then purge_scan ret now es retainedTopics
      else if le_storedAt e \<le> now - ret (le_topicID e) * 1000
      then q # purge_scan ret now es retainedTopics
      else if le_retain e = RLog
      then purge_scan ret now es (le_topicID e # retainedTopics)
      else purge_scan ret now es retainedTopics)"

definition mem_purge ::
    "MemoryStoreOptions \<Rightarrow> int \<Rightarrow> int \<Rightarrow> mem_store \<Rightarrow> sequence_id list \<times> mem_store" where
  "mem_purge opts now olderThan s =
     (let purgedIDs = purge_scan (\<lambda>t. retentionOf opts s t olderThan) now (ms_entries s) []
      in (purgedIDs, fold removeEntry purgedIDs s))"

definition mem_subscribe ::
    "MemoryStoreOptions \<Rightarrow> SubscribeParams \<Rightarrow> mem_store \<Rightarrow> (js_error + unit) \<times> mem_store" where
  "mem_subscribe opts p s =
     (let requested = or_else (sp_retention p) (mo_defaultRetention opts);
          d = sp_subscriberDID p; t = sp_topicID p;
          held = or_else (ms_subsByDID s d) []
      in if exceeds requested (mo_maxRetention opts)
         then (Inl (HubError RetentionExceededError
                 (''Requested retention of '' @ show_int requested @ ''s exceeds the maximum of '' @
                  show_int (the (mo_maxRetention opts)) @ ''s'')), s)
         else if t \<notin> set held \<and> mo_maxSubscriptionsPerDID opts \<le> length held
         then (Inl (HubError SubscriptionQuotaExceededError
                 (''DID '' @ d @ '' exceeds the maximum of '' @
                  show_nat (mo_maxSubscriptionsPerDID opts) @ '' subscriptions'')), s)
         else (Inr (), s\<lparr>ms_subscriptions := (ms_subscriptions s)
                            (t \<mapsto> AList.update d requested (or_else (ms_subscriptions s t) [])),
                         ms_subsByDID := (ms_subsByDID s)(d \<mapsto> List.insert t held)\<rparr>))"

definition mem_unsubscribe :: "did \<Rightarrow> topic_id \<Rightarrow> mem_store \<Rightarrow> mem_store" where
  "mem_unsubscribe d t s =
     (let subs' = (case ms_subscriptions s t of
            None \<Rightarrow> ms_subscriptions s
          | Some m \<Rightarrow> (ms_subscriptions s)(t := nonempty_slot (AList.delete d m)));
          own' = (case ms_subsByDID s d of
            None \<Rightarrow> ms_subsByDID s
          | Some ts \<Rightarrow> (ms_subsByDID s)(d := nonempty_slot (remove1 t ts)));
          s1 = s\<lparr>ms_subscriptions := subs', ms_subsByDID := own'\<rparr>
      in fold (\<lambda>q s'. (case map_of (ms_entries s') q of
                 None \<Rightarrow> s'
               | Some e \<Rightarrow> if le_topicID e = t then dropDelivery d q s' else s'))
           (or_else (ms_deliveries s1 d) []) s1)"

definition mem_getSubscribers :: "topic_id \<Rightarrow> mem_store \<Rightarrow> did list" where
  "mem_getSubscribers t s = map fst (or_else (ms_subscriptions s t) [])"

section \<open>Key packages\<close>

text \<open>\<^verbatim>\<open>Math.floor(Date.now() / 1000)\<close>.\<close>

definition nowSeconds :: "int \<Rightarrow> int" where
  "nowSeconds now = now div 1000"

definition mem_storeKeyPackage ::
    "MemoryStoreOptions \<Rightarrow> int \<Rightarrow> did \<Rightarrow> string \<Rightarrow> int option \<Rightarrow> mem_store \<Rightarrow> (js_error + unit) \<times> mem_store" where
  "mem_storeKeyPackage opts now owner kp notAfter s =
     (let packages = or_else (ms_keyPackages s owner) [];
          live = filter (\<lambda>e. isLive e (nowSeconds now)) packages
      in if mo_maxKeyPackagesPerDID opts \<le> length live
         then (Inl (HubError KeyPackageQuotaExceededError
                 (''DID '' @ owner @ '' exceeds the maximum of '' @
                  show_nat (mo_maxKeyPackagesPerDID opts) @ '' stored key packages'')),
               s\<lparr>ms_keyPackages := (ms_keyPackages s)(owner \<mapsto> live)\<rparr>)
         else (Inr (), s\<lparr>ms_keyPackages := (ms_keyPackages s)
                 (owner \<mapsto> live @ [\<lparr>kp_keyPackage = kp, kp_notAfter = notAfter\<rparr>])\<rparr>))"

text \<open>The consuming pass: shift until enough live packages are served; the rest stay.\<close>

fun serve_packages ::
    "int \<Rightarrow> nat \<Rightarrow> StoredKeyPackage list \<Rightarrow> string list \<times> StoredKeyPackage list" where
  "serve_packages nowS n [] = ([], [])"
| "serve_packages nowS n (e # es) =
     (if n = 0 then ([], e # es)
      else if isLive e nowS
      then (let (served, rest) = serve_packages nowS (n - 1) es in (kp_keyPackage e # served, rest))
      else serve_packages nowS n es)"

definition mem_fetchKeyPackages :: "int \<Rightarrow> did \<Rightarrow> nat option \<Rightarrow> mem_store \<Rightarrow> string list \<times> mem_store" where
  "mem_fetchKeyPackages now owner count s = (case ms_keyPackages s owner of
       None \<Rightarrow> ([], s)
     | Some packages \<Rightarrow>
         let (served, rest) = serve_packages (nowSeconds now) (or_else count 1) packages
         in (served, s\<lparr>ms_keyPackages := (ms_keyPackages s)(owner \<mapsto> rest)\<rparr>))"

definition mem_countKeyPackages :: "int \<Rightarrow> did \<Rightarrow> mem_store \<Rightarrow> nat" where
  "mem_countKeyPackages now owner s =
     length (filter (\<lambda>e. isLive e (nowSeconds now)) (or_else (ms_keyPackages s owner) []))"

definition mem_storeLastResortKeyPackage :: "did \<Rightarrow> string \<Rightarrow> mem_store \<Rightarrow> mem_store" where
  "mem_storeLastResortKeyPackage owner kp s =
     s\<lparr>ms_lastResortKeyPackages := (ms_lastResortKeyPackages s)(owner \<mapsto> kp)\<rparr>"

definition mem_fetchLastResortKeyPackage :: "did \<Rightarrow> mem_store \<Rightarrow> string option" where
  "mem_fetchLastResortKeyPackage owner s = ms_lastResortKeyPackages s owner"

end
