(* ===== verification/Hub_Contract.thy ===== *)
theory Hub_Contract
  imports Hub_Protocol
begin

text \<open>
  What a topic log promises its readers and writers, whatever store keeps it: the contract that
  \<^verbatim>\<open>HubStore\<close> documents in \<^verbatim>\<open>types.ts\<close>, as a locale over an arbitrary state. The ghost history of a
  run is every log frame ever accepted, per topic; a store keeps a suffix of it, its head and the
  position of the last frame it removed. The lemmas of the locale are proved once and hold for
  the memory store and for the SQL store, which both interpret it.
\<close>

section \<open>Views of a topic log\<close>

definition log_frame :: "PublishParams \<Rightarrow> sequence_id \<Rightarrow> StoredMessage" where
  "log_frame p q = \<lparr>sm_sequenceID = q, sm_senderDID = pp_senderDID p, sm_topicID = pp_topicID p,
     sm_payload = pp_payload p, sm_logPosition = Some q\<rparr>"

text \<open>A prefix of the log is gone, and the watermark names its last frame.\<close>

definition pruned ::
    "StoredMessage list \<Rightarrow> sequence_id option \<Rightarrow> StoredMessage list \<Rightarrow> sequence_id option \<Rightarrow> bool" where
  "pruned l r l' r' \<longleftrightarrow>
     (\<exists>k \<le> length l. l' = drop k l \<and> r' = (if k = 0 then r else Some (sm_sequenceID (l ! (k - 1)))))"

lemma pruned_refl [simp, intro]: "pruned l r l r"
  by (auto simp: pruned_def)

lemma pruned_trans:
  assumes "pruned l r l' r'" and "pruned l' r' l'' r''"
  shows "pruned l r l'' r''"
proof -
  from assms obtain j k where
      j: "j \<le> length l" "l' = drop j l" "r' = (if j = 0 then r else Some (sm_sequenceID (l ! (j - 1))))"
    and k: "k \<le> length l'" "l'' = drop k l'"
      "r'' = (if k = 0 then r' else Some (sm_sequenceID (l' ! (k - 1))))"
    by (auto simp: pruned_def)
  have "l' ! (k - 1) = l ! (j + k - 1)" if "k \<noteq> 0"
    using that j(1,2) k(1) by (simp add: nth_drop)
  with j k show ?thesis
    unfolding pruned_def by (intro exI [of _ "j + k"]) (auto simp: add.commute)
qed

lemma pruned_append: "pruned l r l' r' \<Longrightarrow> pruned (l @ ms) r (l' @ ms) r'"
  unfolding pruned_def
proof (elim exE conjE)
  fix k
  assume "k \<le> length l" and "l' = drop k l"
    and "r' = (if k = 0 then r else Some (sm_sequenceID (l ! (k - 1))))"
  then show "\<exists>k\<le>length (l @ ms). l' @ ms = drop k (l @ ms) \<and>
      r' = (if k = 0 then r else Some (sm_sequenceID ((l @ ms) ! (k - 1))))"
    by (intro exI [of _ k]) (cases k; simp add: nth_append)
qed

lemma pruned_drop1: "pruned (m # l) r l (Some (sm_sequenceID m))"
  unfolding pruned_def by (rule exI [of _ 1]) simp

lemma pruned_set: "pruned l r l' r' \<Longrightarrow> set l' \<subseteq> set l"
  by (auto simp: pruned_def dest: in_set_dropD)

text \<open>The answer to a read of a topic, from the retained log, the head and the watermark.\<close>

definition topic_view ::
    "StoredMessage list \<Rightarrow> sequence_id option \<Rightarrow> sequence_id option \<Rightarrow> FetchTopicParams \<Rightarrow> FetchTopicResult" where
  "topic_view l head removed p =
     (let selected = (case ft_after p of None \<Rightarrow> l | Some a \<Rightarrow> filter (\<lambda>m. a < sm_sequenceID m) l)
      in \<lparr>fr_messages = (case ft_limit p of None \<Rightarrow> selected | Some n \<Rightarrow> take n selected),
          fr_head = head,
          fr_oldest = (case l of [] \<Rightarrow> None | m # _ \<Rightarrow> Some (sm_sequenceID m)),
          fr_gap = (case removed of None \<Rightarrow> False
             | Some r \<Rightarrow> (case ft_after p of None \<Rightarrow> True | Some a \<Rightarrow> a < r))\<rparr>)"

text \<open>The cursor of a read, as a predicate on positions.\<close>

definition past_cursor :: "sequence_id option \<Rightarrow> sequence_id \<Rightarrow> bool" where
  "past_cursor after q = (case after of None \<Rightarrow> True | Some a \<Rightarrow> a < q)"

section \<open>Histories\<close>

type_synonym history = "topic_id \<Rightarrow> StoredMessage list"

definition record_publish ::
    "PublishParams \<Rightarrow> js_error + PublishResult \<Rightarrow> history \<Rightarrow> history" where
  "record_publish p r H = (case r of
       Inl _ \<Rightarrow> H
     | Inr res \<Rightarrow> if \<not> pr_deduped res \<and> retain_of p = RLog
         then H(pp_topicID p := H (pp_topicID p) @ [log_frame p (pr_sequenceID res)]) else H)"

text \<open>
  A run of a store: any sequence of publishes and of the other operations, gathered in
  \<open>maintain\<close>, with the ghost history of what was accepted.
\<close>

inductive hub_run ::
    "(int \<Rightarrow> PublishParams \<Rightarrow> 's \<Rightarrow> (js_error + PublishResult) \<times> 's) \<Rightarrow> ('op \<Rightarrow> 's \<Rightarrow> 's) \<Rightarrow>
     's \<Rightarrow> history \<Rightarrow> 's \<Rightarrow> history \<Rightarrow> bool"
  for publish maintain s0 H0 where
  start: "hub_run publish maintain s0 H0 s0 H0"
| publish: "hub_run publish maintain s0 H0 s H \<Longrightarrow> publish now p s = (r, s') \<Longrightarrow>
     hub_run publish maintain s0 H0 s' (record_publish p r H)"
| maintain: "hub_run publish maintain s0 H0 s H \<Longrightarrow>
     hub_run publish maintain s0 H0 (maintain op s) H"

abbreviation no_history :: history where
  "no_history \<equiv> \<lambda>_. []"

text \<open>The state a store keeps for a topic whose accepted frames are \<open>h\<close>.\<close>

definition keeps :: "StoredMessage list \<Rightarrow> StoredMessage list \<Rightarrow> sequence_id option \<Rightarrow> sequence_id option \<Rightarrow> bool" where
  "keeps h l head removed \<longleftrightarrow>
     pruned h None l removed \<and> sorted_wrt (<) (map sm_sequenceID h) \<and>
     head = (if h = [] then None else Some (sm_sequenceID (last h)))"

lemma keeps_empty [simp]: "keeps [] [] None None"
  by (simp add: keeps_def)

lemma keeps_pruned: "keeps h l head r \<Longrightarrow> pruned l r l' r' \<Longrightarrow> keeps h l' head r'"
  unfolding keeps_def using pruned_trans by blast

lemma keeps_append:
  assumes "keeps h l head r" and "\<forall>x. head = Some x \<longrightarrow> x < sm_sequenceID m"
  shows "keeps (h @ [m]) (l @ [m]) (Some (sm_sequenceID m)) r"
proof -
  have sorted: "sorted_wrt (<) (map sm_sequenceID h)"
    using assms(1) by (simp add: keeps_def)
  have "sm_sequenceID x < sm_sequenceID m" if "x \<in> set h" for x
  proof -
    from that have "h \<noteq> []" by auto
    with assms have "sm_sequenceID (last h) < sm_sequenceID m" by (simp add: keeps_def)
    moreover have "sm_sequenceID x \<le> sm_sequenceID (last h)"
      using sorted_wrt_less_last [OF sorted, of "sm_sequenceID x"] that \<open>h \<noteq> []\<close>
      by (simp add: last_map)
    ultimately show ?thesis by order
  qed
  with assms(1) show ?thesis
    by (auto simp: keeps_def sorted_wrt_append pruned_append)
qed

text \<open>A gap is reported exactly when an accepted frame past the cursor is no longer kept.\<close>

lemma keeps_gap:
  assumes "keeps h l head r"
  shows "fr_gap (topic_view l head r p) \<longleftrightarrow>
    (\<exists>m \<in> set h. m \<notin> set l \<and> past_cursor (ft_after p) (sm_sequenceID m))"
proof -
  from assms obtain k where k: "k \<le> length h" "l = drop k h"
      "r = (if k = 0 then None else Some (sm_sequenceID (h ! (k - 1))))"
    and sorted: "sorted_wrt (<) (map sm_sequenceID h)"
    by (auto simp: keeps_def pruned_def)
  have dist: "distinct h"
    using sorted_wrt_less_distinct [OF sorted] by (simp add: distinct_map)
  have split: "set h = set (take k h) \<union> set l" "set (take k h) \<inter> set l = {}"
    using k(2) dist by (metis append_take_drop_id set_append)
      (metis k(2) dist append_take_drop_id distinct_append)
  show ?thesis
  proof (cases "k = 0")
    case True
    with k show ?thesis by (simp add: topic_view_def Let_def)
  next
    case False
    let ?m = "h ! (k - 1)"
    have last: "?m \<in> set (take k h)"
      using False k(1) by (auto simp: in_set_conv_nth intro!: exI [of _ "k - 1"])
    have le: "sm_sequenceID m \<le> sm_sequenceID ?m" if "m \<in> set (take k h)" for m
    proof -
      from that obtain i where i: "i < k" "m = h ! i"
        using k(1) by (auto simp: in_set_conv_nth)
      have "i < k - 1 \<Longrightarrow> sm_sequenceID (h ! i) < sm_sequenceID ?m"
        using sorted k(1) False by (simp add: sorted_wrt_iff_nth_less)
      moreover have "i = k - 1 \<or> i < k - 1" using i(1) by linarith
      ultimately show ?thesis using i(2) by fastforce
    qed
    from False k(3) have gap: "fr_gap (topic_view l head r p) \<longleftrightarrow>
        past_cursor (ft_after p) (sm_sequenceID ?m)"
      by (simp add: topic_view_def Let_def past_cursor_def)
    also have "\<dots> \<longleftrightarrow> (\<exists>m \<in> set (take k h). past_cursor (ft_after p) (sm_sequenceID m))"
      using last le by (force simp: past_cursor_def split: option.splits)
    also have "\<dots> \<longleftrightarrow> (\<exists>m \<in> set h. m \<notin> set l \<and> past_cursor (ft_after p) (sm_sequenceID m))"
      using split by blast
    finally show ?thesis .
  qed
qed

lemma filter_past_cursor:
  "(case a of None \<Rightarrow> l | Some a \<Rightarrow> filter (\<lambda>m. a < sm_sequenceID m) l) =
     filter (\<lambda>m. past_cursor a (sm_sequenceID m)) l"
  by (auto simp: past_cursor_def filter_id_conv split: option.splits)

lemma topic_view_messages:
  "fr_messages (topic_view l head r p) =
     (let selected = filter (\<lambda>m. past_cursor (ft_after p) (sm_sequenceID m)) l
      in case ft_limit p of None \<Rightarrow> selected | Some n \<Rightarrow> take n selected)"
  by (simp add: topic_view_def Let_def filter_past_cursor)

lemma topic_view_rest [simp]:
  "fr_head (topic_view l head r p) = head"
  "fr_oldest (topic_view l head r p) = (case l of [] \<Rightarrow> None | m # _ \<Rightarrow> Some (sm_sequenceID m))"
  by (simp_all add: topic_view_def Let_def)

text \<open>With no gap, an unlimited read is the accepted history past the cursor.\<close>

lemma keeps_no_gap:
  assumes "keeps h l head r" and "\<not> fr_gap (topic_view l head r p)"
  shows "filter (\<lambda>m. past_cursor (ft_after p) (sm_sequenceID m)) l =
    filter (\<lambda>m. past_cursor (ft_after p) (sm_sequenceID m)) h"
proof -
  from assms(1) obtain k where k: "l = drop k h" "sorted_wrt (<) (map sm_sequenceID h)"
    by (auto simp: keeps_def pruned_def)
  have dist: "distinct h"
    using sorted_wrt_less_distinct [OF k(2)] by (simp add: distinct_map)
  have "set (take k h) \<inter> set l = {}"
    using k(1) dist by (metis append_take_drop_id distinct_append)
  then have "filter (\<lambda>m. past_cursor (ft_after p) (sm_sequenceID m)) (take k h) = []"
    using assms(2) keeps_gap [OF assms(1), of p] set_take_subset [of k h]
    by (auto simp: filter_empty_conv)
  then show ?thesis
    using k(1) by (metis append_Nil append_take_drop_id filter_append)
qed

section \<open>The contract\<close>

locale hub_log_store =
  fixes init :: 's
    and inv :: "'s \<Rightarrow> bool"
    and room :: "'s \<Rightarrow> bool"
    and log_of :: "'s \<Rightarrow> topic_id \<Rightarrow> StoredMessage list"
    and head_of :: "'s \<Rightarrow> topic_id \<Rightarrow> sequence_id option"
    and removed_of :: "'s \<Rightarrow> topic_id \<Rightarrow> sequence_id option"
    and recorded :: "'s \<Rightarrow> topic_id \<Rightarrow> string \<Rightarrow> sequence_id option"
    and subscribed :: "'s \<Rightarrow> topic_id \<Rightarrow> did \<Rightarrow> bool"
    and publish :: "int \<Rightarrow> PublishParams \<Rightarrow> 's \<Rightarrow> (js_error + PublishResult) \<times> 's"
    and fetchTopic :: "FetchTopicParams \<Rightarrow> 's \<Rightarrow> js_error + FetchTopicResult"
    and maintain :: "'op \<Rightarrow> 's \<Rightarrow> 's"
  assumes inv_init: "inv init"
    and init_view: "log_of init t = []" "head_of init t = None" "removed_of init t = None"
    and publish_replay: "inv s \<Longrightarrow> pp_publishID p = Some i \<Longrightarrow> recorded s (pp_topicID p) i = Some q \<Longrightarrow>
      publish now p s = (Inr \<lparr>pr_sequenceID = q, pr_deduped = True\<rparr>, s)"
    and publish_mismatch: "inv s \<Longrightarrow> Option.bind (pp_publishID p) (recorded s (pp_topicID p)) = None \<Longrightarrow>
      pp_expectedHead p = Some h \<Longrightarrow> head_of s (pp_topicID p) \<noteq> h \<Longrightarrow>
      \<exists>msg. publish now p s = (Inl (HubError HeadMismatchError msg), s)"
    and publish_accept: "inv s \<Longrightarrow> Option.bind (pp_publishID p) (recorded s (pp_topicID p)) = None \<Longrightarrow>
      pp_expectedHead p = None \<or> pp_expectedHead p = Some (head_of s (pp_topicID p)) \<Longrightarrow>
      \<exists>q s'. publish now p s = (Inr \<lparr>pr_sequenceID = q, pr_deduped = False\<rparr>, s')"
    and publish_room: "room (snd (publish now p s)) \<Longrightarrow> room s"
    and publish_effect: "inv s \<Longrightarrow> publish now p s = (Inr \<lparr>pr_sequenceID = q, pr_deduped = False\<rparr>, s') \<Longrightarrow>
      room s' \<Longrightarrow> inv s' \<and> (\<forall>t h. head_of s t = Some h \<longrightarrow> h < q) \<and>
      (\<forall>t. head_of s' t = (if retain_of p = RLog \<and> t = pp_topicID p then Some q else head_of s t)) \<and>
      (\<forall>t. pruned (if retain_of p = RLog \<and> t = pp_topicID p then log_of s t @ [log_frame p q] else log_of s t)
             (removed_of s t) (log_of s' t) (removed_of s' t)) \<and>
      (\<forall>i. pp_publishID p = Some i \<longrightarrow> recorded s' (pp_topicID p) i = Some q)"
    and maintain_inv: "inv s \<Longrightarrow> inv (maintain op s)"
    and maintain_room: "room (maintain op s) \<longleftrightarrow> room s"
    and maintain_head: "inv s \<Longrightarrow> head_of (maintain op s) t = head_of s t"
    and maintain_log: "inv s \<Longrightarrow> pruned (log_of s t) (removed_of s t) (log_of (maintain op s) t) (removed_of (maintain op s) t)"
    and fetch_subscribed: "inv s \<Longrightarrow> subscribed s (ft_topicID f) (ft_subscriberDID f) \<Longrightarrow>
      fetchTopic f s = Inr (topic_view (log_of s (ft_topicID f)) (head_of s (ft_topicID f)) (removed_of s (ft_topicID f)) f)"
    and fetch_refused: "inv s \<Longrightarrow> \<not> subscribed s (ft_topicID f) (ft_subscriberDID f) \<Longrightarrow>
      \<exists>msg. fetchTopic f s = Inl (HubError NotSubscribedError msg)"
begin

text \<open>The three outcomes of a publish, from the laws.\<close>

lemma publish_cases [consumes 1, case_names replay mismatch accept]:
  assumes "inv s"
  obtains (replay) i q where "pp_publishID p = Some i" "recorded s (pp_topicID p) i = Some q"
      "publish now p s = (Inr \<lparr>pr_sequenceID = q, pr_deduped = True\<rparr>, s)"
    | (mismatch) msg where "publish now p s = (Inl (HubError HeadMismatchError msg), s)"
    | (accept) q s' where "publish now p s = (Inr \<lparr>pr_sequenceID = q, pr_deduped = False\<rparr>, s')"
      "pp_expectedHead p = None \<or> pp_expectedHead p = Some (head_of s (pp_topicID p))"
proof (cases "Option.bind (pp_publishID p) (recorded s (pp_topicID p))")
  case (Some q)
  then obtain i where "pp_publishID p = Some i" "recorded s (pp_topicID p) i = Some q"
    by (auto simp: bind_eq_Some_conv)
  with publish_replay [OF assms] that(1) show ?thesis by blast
next
  case None
  show ?thesis
  proof (cases "pp_expectedHead p = None \<or> pp_expectedHead p = Some (head_of s (pp_topicID p))")
    case True
    with publish_accept [OF assms None] that(3) show ?thesis by blast
  next
    case False
    then obtain h where "pp_expectedHead p = Some h" "head_of s (pp_topicID p) \<noteq> h" by auto
    with publish_mismatch [OF assms None] that(2) show ?thesis by blast
  qed
qed

lemma run_room: "hub_run publish maintain s0 H0 s H \<Longrightarrow> room s \<Longrightarrow> room s0"
proof (induction rule: hub_run.induct)
  case (publish s H now p r s')
  then show ?case using publish_room [of now p s] by simp
qed (simp_all add: maintain_room)

text \<open>Every state of a run keeps a suffix of the history, and the head names its end.\<close>

lemma run_keeps:
  assumes "hub_run publish maintain s0 H0 s H" and "room s" and "inv s0"
    and "\<And>t. keeps (H0 t) (log_of s0 t) (head_of s0 t) (removed_of s0 t)"
  shows "inv s \<and> (\<forall>t. keeps (H t) (log_of s t) (head_of s t) (removed_of s t))"
  using assms(1,2)
proof (induction rule: hub_run.induct)
  case start
  then show ?case using assms(3,4) by simp
next
  case (publish s H now p r s')
  from publish.prems publish.hyps(2) have "room s"
    using publish_room [of now p s] by simp
  then have inv: "inv s" and keeps: "\<And>t. keeps (H t) (log_of s t) (head_of s t) (removed_of s t)"
    using publish.IH by simp_all
  from inv show ?case
  proof (cases rule: publish_cases [where p = p and now = now])
    case (accept q s1)
    then have res: "r = Inr \<lparr>pr_sequenceID = q, pr_deduped = False\<rparr>" "s1 = s'"
      using publish.hyps(2) by auto
    note eff = publish_effect [OF inv accept(1) publish.prems [folded res(2)], unfolded res(2)]
    have "keeps (record_publish p r H t) (log_of s' t) (head_of s' t) (removed_of s' t)" for t
    proof (cases "retain_of p = RLog \<and> t = pp_topicID p")
      case True
      then have "keeps (H t @ [log_frame p q]) (log_of s t @ [log_frame p q]) (Some q) (removed_of s t)"
        using keeps_append [OF keeps [of t], of "log_frame p q"] eff by (simp add: log_frame_def)
      moreover have "pruned (log_of s t @ [log_frame p q]) (removed_of s t) (log_of s' t) (removed_of s' t)"
        using True eff by metis
      ultimately have "keeps (H t @ [log_frame p q]) (log_of s' t) (Some q) (removed_of s' t)"
        by (rule keeps_pruned)
      with True eff show ?thesis
        by (simp add: record_publish_def res)
    next
      case False
      then have "pruned (log_of s t) (removed_of s t) (log_of s' t) (removed_of s' t)"
        and "head_of s' t = head_of s t"
        using eff by metis+
      with False keeps_pruned [OF keeps [of t]] show ?thesis
        by (auto simp: record_publish_def res)
    qed
    with eff show ?thesis by simp
  qed (use publish.hyps(2) inv keeps in \<open>auto simp: record_publish_def\<close>)
next
  case (maintain s H op)
  then have IH: "inv s" "\<And>t. keeps (H t) (log_of s t) (head_of s t) (removed_of s t)"
    by (auto simp: maintain_room)
  then show ?case
    using maintain_inv maintain_head maintain_log keeps_pruned by metis
qed

text \<open>A read tells the truth about what is missing, and with no gap it misses nothing.\<close>

lemma run_from_init_keeps:
  assumes "hub_run publish maintain init no_history s H" and "room s"
  shows "inv s" and "keeps (H t) (log_of s t) (head_of s t) (removed_of s t)"
  using run_keeps [OF assms inv_init] by (simp_all add: init_view)

lemma fetch_Inr:
  assumes "inv s" and "fetchTopic f s = Inr r"
  shows "r = topic_view (log_of s (ft_topicID f)) (head_of s (ft_topicID f)) (removed_of s (ft_topicID f)) f"
proof (cases "subscribed s (ft_topicID f) (ft_subscriberDID f)")
  case True
  with fetch_subscribed [OF assms(1)] assms(2) show ?thesis by simp
next
  case False
  with fetch_refused [OF assms(1)] assms(2) show ?thesis by force
qed

lemma fetch_gap_exact:
  assumes "hub_run publish maintain init no_history s H" and "room s" and "fetchTopic f s = Inr r"
  shows "fr_gap r \<longleftrightarrow> (\<exists>m \<in> set (H (ft_topicID f)).
    m \<notin> set (log_of s (ft_topicID f)) \<and> past_cursor (ft_after f) (sm_sequenceID m))"
  using fetch_Inr [OF run_from_init_keeps(1) [OF assms(1,2)] assms(3)]
    keeps_gap [OF run_from_init_keeps(2) [OF assms(1,2)]] by simp

lemma fetch_no_gap_complete:
  assumes "hub_run publish maintain init no_history s H" and "room s" and "fetchTopic f s = Inr r"
    and "\<not> fr_gap r"
  shows "fr_messages r = (let l = filter (\<lambda>m. past_cursor (ft_after f) (sm_sequenceID m)) (H (ft_topicID f))
    in case ft_limit f of None \<Rightarrow> l | Some n \<Rightarrow> take n l)"
  using fetch_Inr [OF run_from_init_keeps(1) [OF assms(1,2)] assms(3)] assms(4)
    keeps_no_gap [OF run_from_init_keeps(2) [OF assms(1,2)]]
  by (simp add: topic_view_messages)

lemma fetch_head_stored:
  assumes "hub_run publish maintain init no_history s H" and "room s" and "fetchTopic f s = Inr r"
  shows "fr_head r = (if H (ft_topicID f) = [] then None
    else Some (sm_sequenceID (last (H (ft_topicID f)))))"
  using fetch_Inr [OF run_from_init_keeps(1) [OF assms(1,2)] assms(3)]
    run_from_init_keeps(2) [OF assms(1,2)] by (simp add: keeps_def)

text \<open>A history only grows, and every head of a run is the position of some frame of it.\<close>

lemma run_history_grows: "hub_run publish maintain s0 H0 s H \<Longrightarrow> \<exists>ms. H t = H0 t @ ms"
  by (induction rule: hub_run.induct) (auto simp: record_publish_def split: sum.splits)

text \<open>
  Compare-and-set: once a log publish that expected \<open>h\<close> is accepted, the head is past \<open>h\<close> for good,
  and whatever happens in between, a later publish on that topic that expects \<open>h\<close> is refused and
  changes nothing, unless it is the replay of a recorded one.
\<close>

lemma head_passed:
  assumes "hub_run publish maintain init no_history s H"
    and "publish now p s = (Inr \<lparr>pr_sequenceID = q, pr_deduped = False\<rparr>, s1)"
    and "retain_of p = RLog"
    and "hub_run publish maintain s1 (record_publish p (Inr \<lparr>pr_sequenceID = q, pr_deduped = False\<rparr>) H) s2 H2"
    and "room s2" and "pp_expectedHead p = Some h"
  shows "head_of s2 (pp_topicID p) \<noteq> h" and "inv s2"
proof -
  let ?t = "pp_topicID p" and ?H1 = "record_publish p (Inr \<lparr>pr_sequenceID = q, pr_deduped = False\<rparr>) H"
  have room: "room s1" by (rule run_room [OF assms(4,5)])
  have inv: "inv s" "\<And>t. keeps (H t) (log_of s t) (head_of s t) (removed_of s t)"
    using run_from_init_keeps [OF assms(1)] publish_room [of now p s] assms(2) room by simp_all
  have run1: "hub_run publish maintain init no_history s1 ?H1"
    using hub_run.publish [OF assms(1,2)] .
  have k1: "inv s1" "\<And>t. keeps (?H1 t) (log_of s1 t) (head_of s1 t) (removed_of s1 t)"
    using run_from_init_keeps [OF run1 room] by blast+
  have k2: "inv s2" "\<And>t. keeps (H2 t) (log_of s2 t) (head_of s2 t) (removed_of s2 t)"
    using run_keeps [OF assms(4,5) k1] by blast+
  show "inv s2" by (rule k2(1))
  from inv(1) assms(2,6) have h: "head_of s ?t = h"
    by (cases rule: publish_cases [where p = p and now = now]) auto
  have less: "\<And>x. head_of s ?t = Some x \<Longrightarrow> x < q"
    using publish_effect [OF inv(1) assms(2) room] by blast
  from run_history_grows [OF assms(4), of ?t] assms(3)
  obtain ms where ms: "H2 ?t = (H ?t @ [log_frame p q]) @ ms"
    by (auto simp: record_publish_def)
  have sorted: "sorted_wrt (<) (map sm_sequenceID (H2 ?t))"
    using k2(2) [of ?t] by (simp add: keeps_def)
  have "q \<le> last (map sm_sequenceID (H2 ?t))"
    by (rule sorted_wrt_less_last [OF sorted]) (simp add: ms log_frame_def)
  then have "\<exists>y. head_of s2 ?t = Some y \<and> q \<le> y"
    using k2(2) [of ?t] by (auto simp: keeps_def ms last_map split: if_splits)
  with h less show "head_of s2 ?t \<noteq> h" by force
qed

lemma cas_single_winner:
  assumes "hub_run publish maintain init no_history s H"
    and "publish now p s = (Inr \<lparr>pr_sequenceID = q, pr_deduped = False\<rparr>, s1)"
    and "retain_of p = RLog" and "pp_expectedHead p = Some h"
    and "hub_run publish maintain s1 (record_publish p (Inr \<lparr>pr_sequenceID = q, pr_deduped = False\<rparr>) H) s2 H2"
    and "room s2"
    and "pp_topicID p' = pp_topicID p" and "pp_expectedHead p' = Some h"
    and "Option.bind (pp_publishID p') (recorded s2 (pp_topicID p)) = None"
  shows "\<exists>msg. publish now' p' s2 = (Inl (HubError HeadMismatchError msg), s2)"
  using publish_mismatch [of s2 p' h] head_passed [OF assms(1,2,3,5,6,4)] assms(7-9) by simp

end

end
