(* ===== verification/Memory_Inv.thy ===== *)
theory Memory_Inv
  imports Memory_Store Hub_Contract
begin

text \<open>
  The invariant of the memory store and its preservation by every operation. Each index is a
  projection of \<^verbatim>\<open>entries\<close>: a topic's log lists the entries of the topic, a recipient's deliveries the
  entries pending for it, both in minting order; the head and the removal watermark bracket the
  log frames that are left.
\<close>

section \<open>The invariant\<close>

definition ids :: "(LogEntry \<Rightarrow> bool) \<Rightarrow> mem_store \<Rightarrow> sequence_id list" where
  "ids P s = map fst (filter (\<lambda>p. P (snd p)) (ms_entries s))"

definition mem_keys :: "mem_store \<Rightarrow> bool" where
  "mem_keys s \<longleftrightarrow> sorted_wrt (<) (map fst (ms_entries s)) \<and>
     (\<forall>(q, e) \<in> set (ms_entries s). le_sequenceID e = q \<and> minted (ms_counter s) q \<and>
        distinct (le_pendingFor e))"

definition mem_index :: "mem_store \<Rightarrow> bool" where
  "mem_index s \<longleftrightarrow>
     (\<forall>t. ms_topicLogs s t = nonempty_slot (ids (\<lambda>e. le_topicID e = t) s)) \<and>
     (\<forall>d. or_else (ms_deliveries s d) [] = ids (\<lambda>e. d \<in> set (le_pendingFor e)) s)"

definition is_log_of :: "topic_id \<Rightarrow> LogEntry \<Rightarrow> bool" where
  "is_log_of t e \<longleftrightarrow> le_topicID e = t \<and> le_retain e = RLog"

definition mem_positions :: "mem_store \<Rightarrow> bool" where
  "mem_positions s \<longleftrightarrow>
     (\<forall>t h. ms_heads s t = Some h \<longrightarrow> minted (ms_counter s) h) \<and>
     (\<forall>i q. ms_publishRecords s i = Some q \<longrightarrow> minted (ms_counter s) q) \<and>
     (\<forall>t r. ms_removedThrough s t = Some r \<longrightarrow> minted (ms_counter s) r \<and>
        (\<forall>q \<in> set (ids (is_log_of t) s). r < q))"

definition mem_mail :: "mem_store \<Rightarrow> bool" where
  "mem_mail s \<longleftrightarrow> (\<forall>(q, e) \<in> set (ms_entries s). le_retain e = RMailbox \<longrightarrow> le_pendingFor e \<noteq> [])"

definition mem_subs :: "mem_store \<Rightarrow> bool" where
  "mem_subs s \<longleftrightarrow>
     (\<forall>t m. ms_subscriptions s t = Some m \<longrightarrow> distinct (map fst m) \<and> m \<noteq> []) \<and>
     (\<forall>d ts. ms_subsByDID s d = Some ts \<longrightarrow> distinct ts \<and> ts \<noteq> []) \<and>
     (\<forall>d t. t \<in> set (or_else (ms_subsByDID s d) []) \<longleftrightarrow> mem_isSubscriber s t d)"

definition mem_inv :: "mem_store \<Rightarrow> bool" where
  "mem_inv s \<longleftrightarrow> mem_keys s \<and> mem_index s \<and> mem_positions s \<and> mem_mail s \<and> mem_subs s"

lemmas mem_inv_defs = mem_inv_def mem_keys_def mem_index_def mem_positions_def mem_mail_def mem_subs_def

definition mem_log :: "mem_store \<Rightarrow> topic_id \<Rightarrow> StoredMessage list" where
  "mem_log s t = map (\<lambda>p. asStoredMessage (snd p)) (filter (\<lambda>p. is_log_of t (snd p)) (ms_entries s))"

lemma createMemoryStore_inv: "mem_inv createMemoryStore"
  by (simp add: mem_inv_defs createMemoryStore_def ids_def mem_isSubscriber_def)

section \<open>Reading the indices\<close>

lemma mem_keys_distinct: "mem_keys s \<Longrightarrow> distinct (map fst (ms_entries s))"
  by (simp add: mem_keys_def sorted_wrt_less_distinct)

lemma mem_keys_entry:
  "mem_keys s \<Longrightarrow> map_of (ms_entries s) q = Some e \<longleftrightarrow> (q, e) \<in> set (ms_entries s)"
  using mem_keys_distinct by simp

lemma mem_keys_unique:
  "mem_keys s \<Longrightarrow> (q, e) \<in> set (ms_entries s) \<Longrightarrow> (q, e') \<in> set (ms_entries s) \<Longrightarrow> e = e'"
  using mem_keys_distinct [of s] by (metis eq_key_imp_eq_value)

lemma mem_keysD:
  assumes "mem_keys s" and "(q, e) \<in> set (ms_entries s)"
  shows "le_sequenceID e = q" and "minted (ms_counter s) q" and "distinct (le_pendingFor e)"
  using assms by (auto simp: mem_keys_def)

lemma ids_distinct: "mem_keys s \<Longrightarrow> distinct (ids P s)"
  using mem_keys_distinct [of s] by (simp add: ids_def distinct_map_filter)

lemma ids_sorted: "mem_keys s \<Longrightarrow> sorted_wrt (<) (ids P s)"
  by (simp add: ids_def mem_keys_def sorted_wrt_map sorted_wrt_filter)

lemma ids_mem: "q \<in> set (ids P s) \<longleftrightarrow> (\<exists>e. (q, e) \<in> set (ms_entries s) \<and> P e)"
  by (force simp: ids_def)

lemma isLogEntry_iff:
  "mem_keys s \<Longrightarrow> isLogEntry s q \<longleftrightarrow> (\<exists>e. (q, e) \<in> set (ms_entries s) \<and> le_retain e = RLog)"
  by (auto simp: isLogEntry_def mem_keys_entry [symmetric] split: option.splits)

lemma filter_isLog_ids:
  assumes "mem_keys s"
  shows "filter (isLogEntry s) (ids P s) = ids (\<lambda>e. P e \<and> le_retain e = RLog) s"
proof -
  have "filter (isLogEntry s) (map fst (filter (\<lambda>p. P (snd p)) xs)) =
      map fst (filter (\<lambda>p. P (snd p) \<and> le_retain (snd p) = RLog) xs)"
    if "set xs \<subseteq> set (ms_entries s)" for xs
    using that
  proof (induction xs)
    case (Cons p xs)
    then have "isLogEntry s (fst p) \<longleftrightarrow> le_retain (snd p) = RLog"
      using mem_keys_entry [OF assms, of "fst p" "snd p"] by (simp add: isLogEntry_def)
    with Cons show ?case by simp
  qed simp
  then show ?thesis by (simp add: ids_def)
qed

lemma mem_index_log:
  "mem_keys s \<Longrightarrow> mem_index s \<Longrightarrow>
     filter (isLogEntry s) (or_else (ms_topicLogs s t) []) = ids (is_log_of t) s"
  by (simp add: mem_index_def filter_isLog_ids is_log_of_def [abs_def])

lemma mem_log_ids: "mem_keys s \<Longrightarrow> map sm_sequenceID (mem_log s t) = ids (is_log_of t) s"
  by (auto simp: mem_log_def ids_def asStoredMessage_def dest: mem_keysD(1))

lemma map_filter_entries:
  assumes "mem_keys s" and "set xs \<subseteq> set (ms_entries s)"
  shows "List.map_filter (map_of (ms_entries s)) (map fst xs) = map snd xs"
  using assms(2)
proof (induction xs)
  case (Cons p xs)
  then have "map_of (ms_entries s) (fst p) = Some (snd p)"
    by (simp add: mem_keys_entry [OF assms(1)])
  with Cons show ?case by (simp add: List.map_filter_def)
qed (simp add: List.map_filter_def)

section \<open>Removing an entry\<close>

lemma fold_splice_slot:
  "distinct rs \<Longrightarrow> fold (\<lambda>r m. splice_slot q m r) rs m d =
     (if d \<in> set rs then map_option (remove1 q) (m d) else m d)"
  by (induction rs arbitrary: m) (auto simp: splice_slot_def split: option.splits)

lemma removeEntry_missing: "map_of (ms_entries s) q = None \<Longrightarrow> removeEntry q s = s"
  by (simp add: removeEntry_def)

lemma removeEntry_entries [hub_simps]:
  "ms_entries (removeEntry q s) = filter (\<lambda>p. fst p \<noteq> q) (ms_entries s)"
  by (auto simp: removeEntry_def Let_def AList_delete_filter map_of_eq_None_iff
      intro!: filter_id_conv [THEN iffD2, symmetric] split: option.splits)

lemma removeEntry_frame [hub_simps]:
  "ms_counter (removeEntry q s) = ms_counter s"
  "ms_heads (removeEntry q s) = ms_heads s"
  "ms_publishRecords (removeEntry q s) = ms_publishRecords s"
  "ms_subscriptions (removeEntry q s) = ms_subscriptions s"
  "ms_subsByDID (removeEntry q s) = ms_subsByDID s"
  "ms_keyPackages (removeEntry q s) = ms_keyPackages s"
  "ms_lastResortKeyPackages (removeEntry q s) = ms_lastResortKeyPackages s"
  by (simp_all add: removeEntry_def Let_def split: option.splits)

lemma ids_removeEntry [hub_simps]: "ids P (removeEntry q s) = filter (\<lambda>i. i \<noteq> q) (ids P s)"
  unfolding ids_def removeEntry_entries by (rule map_fst_filter_delete)

lemma removeEntry_keys [hub_intros]: "mem_keys s \<Longrightarrow> mem_keys (removeEntry q s)"
  by (auto simp: mem_keys_def hub_simps sorted_wrt_map sorted_wrt_filter)

lemma removeEntry_mail [hub_intros]: "mem_mail s \<Longrightarrow> mem_mail (removeEntry q s)"
  by (auto simp: mem_mail_def hub_simps)

lemma removeEntry_subs [hub_intros]: "mem_subs s \<Longrightarrow> mem_subs (removeEntry q s)"
  by (simp add: mem_subs_def mem_isSubscriber_def hub_simps)

lemma removeEntry_topicLogs:
  "ms_topicLogs (removeEntry q s) t = (case map_of (ms_entries s) q of
      None \<Rightarrow> ms_topicLogs s t
    | Some e \<Rightarrow> if le_topicID e = t then Option.bind (ms_topicLogs s t) (\<lambda>log. nonempty_slot (remove1 q log))
                else ms_topicLogs s t)"
  by (auto simp: removeEntry_def Let_def split: option.splits)

lemma removeEntry_index [hub_intros]:
  assumes keys: "mem_keys s" and index: "mem_index s"
  shows "mem_index (removeEntry q s)"
proof (cases "map_of (ms_entries s) q")
  case None
  with index show ?thesis by (simp add: removeEntry_missing)
next
  case (Some e)
  then have e: "(q, e) \<in> set (ms_entries s)" by (simp add: mem_keys_entry [OF keys])
  have uniq: "e' = e" if "(q, e') \<in> set (ms_entries s)" for e'
    using that e mem_keys_entry [OF keys] by (metis option.inject)
  have skip: "filter (\<lambda>i. i \<noteq> q) (ids P s) = ids P s" if "\<not> P e" for P
    using that uniq by (auto simp: filter_id_conv ids_mem)
  have logs: "ms_topicLogs (removeEntry q s) t = nonempty_slot (ids (\<lambda>x. le_topicID x = t) (removeEntry q s))" for t
  proof (cases "le_topicID e = t")
    case True
    then have "q \<in> set (ids (\<lambda>x. le_topicID x = t) s)" using e by (auto simp: ids_mem)
    then have "ms_topicLogs s t = Some (ids (\<lambda>x. le_topicID x = t) s)"
      using index by (auto simp: mem_index_def nonempty_slot_def)
    with True show ?thesis
      by (simp add: removeEntry_topicLogs Some ids_removeEntry remove1_filter_neq [OF ids_distinct [OF keys]])
  next
    case False
    with index show ?thesis
      by (simp add: removeEntry_topicLogs Some ids_removeEntry skip mem_index_def)
  qed
  have dels: "or_else (ms_deliveries (removeEntry q s) d) [] =
      ids (\<lambda>x. d \<in> set (le_pendingFor x)) (removeEntry q s)" for d
  proof -
    have "ms_deliveries (removeEntry q s) d =
        (if d \<in> set (le_pendingFor e) then map_option (remove1 q) (ms_deliveries s d) else ms_deliveries s d)"
      using mem_keysD(3) [OF keys e] by (simp add: removeEntry_def Some Let_def fold_splice_slot)
    then have "or_else (ms_deliveries (removeEntry q s) d) [] =
        (if d \<in> set (le_pendingFor e) then remove1 q (or_else (ms_deliveries s d) [])
         else or_else (ms_deliveries s d) [])"
      by (cases "ms_deliveries s d") simp_all
    with index show ?thesis
      by (simp add: mem_index_def ids_removeEntry skip remove1_filter_neq [OF ids_distinct [OF keys]])
  qed
  from logs dels show ?thesis by (simp add: mem_index_def)
qed

text \<open>An entry may go when no older frame of its topic's log is kept.\<close>

definition removable :: "mem_store \<Rightarrow> sequence_id \<Rightarrow> bool" where
  "removable s q \<longleftrightarrow> (\<forall>e. (q, e) \<in> set (ms_entries s) \<and> le_retain e = RLog \<longrightarrow>
     (\<forall>q' \<in> set (ids (is_log_of (le_topicID e)) s). q \<le> q'))"

lemma removeEntry_watermark:
  "ms_removedThrough (removeEntry q s) t = (case map_of (ms_entries s) q of
      None \<Rightarrow> ms_removedThrough s t
    | Some e \<Rightarrow> if is_log_of t e \<and> (ms_removedThrough s t = None \<or> the (ms_removedThrough s t) < q)
                then Some q else ms_removedThrough s t)"
  by (auto simp: removeEntry_def Let_def is_log_of_def split: option.splits)

lemma removeEntry_positions [hub_intros]:
  assumes keys: "mem_keys s" and pos: "mem_positions s" and ok: "removable s q"
  shows "mem_positions (removeEntry q s)"
proof -
  have "r < q'" if asm: "ms_removedThrough (removeEntry q s) t = Some r"
      "q' \<in> set (ids (is_log_of t) s)" "q' \<noteq> q" for t r q'
  proof (cases "ms_removedThrough (removeEntry q s) t = ms_removedThrough s t")
    case True
    with asm pos show ?thesis by (auto simp: mem_positions_def)
  next
    case False
    then obtain e where "map_of (ms_entries s) q = Some e" "is_log_of t e" "r = q"
      using asm(1) by (auto simp: removeEntry_watermark split: option.splits if_splits)
    with ok asm(2) have "q \<le> q'"
      by (auto simp: removable_def mem_keys_entry [OF keys] is_log_of_def)
    with asm(3) \<open>r = q\<close> show ?thesis by simp
  qed
  moreover have "minted (ms_counter s) r" if "ms_removedThrough (removeEntry q s) t = Some r" for t r
    using that pos mem_keysD(2) [OF keys]
    by (auto simp: removeEntry_watermark mem_positions_def mem_keys_entry [OF keys]
        split: option.splits if_splits)
  ultimately show ?thesis using pos by (auto simp: mem_positions_def hub_simps)
qed

lemma mem_log_removeEntry:
  "mem_log (removeEntry q s) t =
     map (\<lambda>p. asStoredMessage (snd p)) (filter (\<lambda>p. fst p \<noteq> q) (filter (\<lambda>p. is_log_of t (snd p)) (ms_entries s)))"
  by (simp add: mem_log_def hub_simps conj_commute)

lemma removeEntry_pruned:
  assumes inv: "mem_keys s" "mem_positions s" and ok: "removable s q"
  shows "pruned (mem_log s t) (ms_removedThrough s t)
    (mem_log (removeEntry q s) t) (ms_removedThrough (removeEntry q s) t)"
proof (cases "q \<in> set (ids (is_log_of t) s)")
  case True
  let ?L = "filter (\<lambda>p. is_log_of t (snd p)) (ms_entries s)"
  from True obtain e where e: "(q, e) \<in> set (ms_entries s)" "is_log_of t e" by (auto simp: ids_mem)
  have "sorted_wrt (<) (map fst ?L)"
    using ids_sorted [OF inv(1), of "is_log_of t"] by (simp add: ids_def)
  moreover have "\<forall>p \<in> set ?L. q \<le> fst p"
    using ok e by (auto simp: removable_def is_log_of_def ids_def)
  ultimately obtain L' where L': "?L = (q, e) # L'" "filter (\<lambda>p. fst p \<noteq> q) ?L = L'"
    using sorted_keys_min_hd [of ?L q e] e by auto
  have "ms_removedThrough (removeEntry q s) t = Some q"
    using inv(2) True e
    by (auto simp: removeEntry_watermark mem_keys_entry [OF inv(1), THEN iffD2] mem_positions_def)
  moreover have "sm_sequenceID (asStoredMessage e) = q"
    using mem_keysD(1) [OF inv(1) e(1)] by (simp add: asStoredMessage_def)
  ultimately show ?thesis
    using pruned_drop1 [of "asStoredMessage e" "map (\<lambda>p. asStoredMessage (snd p)) L'"]
    by (simp add: mem_log_removeEntry L'(2) del: filter_filter) (simp add: mem_log_def L'(1))
next
  case False
  then have "filter (\<lambda>p. fst p \<noteq> q) (filter (\<lambda>p. is_log_of t (snd p)) (ms_entries s)) =
      filter (\<lambda>p. is_log_of t (snd p)) (ms_entries s)"
    by (auto simp: ids_mem simp del: filter_filter intro!: filter_True)
  moreover have "ms_removedThrough (removeEntry q s) t = ms_removedThrough s t"
    using False by (auto simp: removeEntry_watermark mem_keys_entry [OF inv(1)] ids_mem split: option.splits)
  ultimately show ?thesis
    by (simp add: mem_log_removeEntry del: filter_filter) (simp add: mem_log_def)
qed

lemma removeEntry_inv [hub_intros]: "mem_inv s \<Longrightarrow> removable s q \<Longrightarrow> mem_inv (removeEntry q s)"
  by (simp add: mem_inv_def hub_intros)

text \<open>Removing a sorted batch that is closed under older frames of the same log.\<close>

definition prefix_closed :: "sequence_id set \<Rightarrow> mem_store \<Rightarrow> bool" where
  "prefix_closed Q s \<longleftrightarrow> (\<forall>q e q'. q \<in> Q \<and> (q, e) \<in> set (ms_entries s) \<and> le_retain e = RLog \<and>
     q' \<in> set (ids (is_log_of (le_topicID e)) s) \<and> q' < q \<longrightarrow> q' \<in> Q)"

lemma fold_removeEntry_inv:
  assumes "sorted_wrt (<) qs" and "prefix_closed (set qs) s" and "mem_inv s"
  shows "mem_inv (fold removeEntry qs s)"
    and "pruned (mem_log s t) (ms_removedThrough s t)
      (mem_log (fold removeEntry qs s) t) (ms_removedThrough (fold removeEntry qs s) t)"
  using assms
proof (induction qs arbitrary: s)
  case Nil
  { case 1 then show ?case by simp }
  { case 2 show ?case by simp }
next
  case (Cons q qs)
  have ok: "removable s q" if "sorted_wrt (<) (q # qs)" "prefix_closed (set (q # qs)) s" for s
    unfolding removable_def
  proof (intro allI impI ballI)
    fix e q' assume "(q, e) \<in> set (ms_entries s) \<and> le_retain e = RLog"
      and "q' \<in> set (ids (is_log_of (le_topicID e)) s)"
    with that show "q \<le> q'" by (force simp: prefix_closed_def not_less [symmetric])
  qed
  have closed: "prefix_closed (set qs) (removeEntry q s)" if "prefix_closed (set (q # qs)) s" for s
    using that by (auto simp: prefix_closed_def hub_simps)
  { case 1
    from ok [OF 1(1,2)] 1(3) have "mem_inv (removeEntry q s)" by (simp add: removeEntry_inv)
    with Cons.IH(1) [OF _ closed] 1 show ?case by simp }
  { case 2
    from ok [OF 2(1,2)] 2(3) have inv: "mem_inv (removeEntry q s)" by (simp add: removeEntry_inv)
    have "pruned (mem_log s t) (ms_removedThrough s t)
        (mem_log (removeEntry q s) t) (ms_removedThrough (removeEntry q s) t)"
      using removeEntry_pruned [OF _ _ ok [OF 2(1,2)]] 2(3) by (simp add: mem_inv_def)
    then show ?case
      using Cons.IH(2) [OF _ closed inv] 2 by (auto intro: pruned_trans) }
qed

section \<open>Dropping a delivery\<close>

definition unpend :: "did \<Rightarrow> LogEntry \<Rightarrow> LogEntry" where
  "unpend r e = e\<lparr>le_pendingFor := remove1 r (le_pendingFor e)\<rparr>"

lemma unpend_simps [simp]:
  "le_sequenceID (unpend r e) = le_sequenceID e" "le_topicID (unpend r e) = le_topicID e"
  "le_retain (unpend r e) = le_retain e" "asStoredMessage (unpend r e) = asStoredMessage e"
  "is_log_of t (unpend r e) = is_log_of t e"
  "le_pendingFor (unpend r e) = remove1 r (le_pendingFor e)"
  by (simp_all add: unpend_def asStoredMessage_def is_log_of_def)

text \<open>The state after the delivery is dropped, before the last one takes a mailbox frame with it.\<close>

definition undeliver :: "did \<Rightarrow> sequence_id \<Rightarrow> mem_store \<Rightarrow> mem_store" where
  "undeliver r q s = s\<lparr>ms_deliveries := splice_slot q (ms_deliveries s) r,
     ms_entries := map (\<lambda>p. if fst p = q then (q, unpend r (snd p)) else p) (ms_entries s)\<rparr>"

lemma undeliver_frame [hub_simps]:
  "ms_counter (undeliver r q s) = ms_counter s"
  "ms_heads (undeliver r q s) = ms_heads s"
  "ms_topicLogs (undeliver r q s) = ms_topicLogs s"
  "ms_removedThrough (undeliver r q s) = ms_removedThrough s"
  "ms_publishRecords (undeliver r q s) = ms_publishRecords s"
  "ms_subscriptions (undeliver r q s) = ms_subscriptions s"
  "ms_subsByDID (undeliver r q s) = ms_subsByDID s"
  "ms_keyPackages (undeliver r q s) = ms_keyPackages s"
  by (simp_all add: undeliver_def)

lemma dropDelivery_undeliver:
  assumes "mem_keys s"
  shows "dropDelivery r q s = (case map_of (ms_entries s) q of
      None \<Rightarrow> undeliver r q s
    | Some e \<Rightarrow> if le_retain e = RMailbox \<and> remove1 r (le_pendingFor e) = []
                then removeEntry q (undeliver r q s) else undeliver r q s)"
proof (cases "map_of (ms_entries s) q")
  case None
  then have "map (\<lambda>p. if fst p = q then (q, unpend r (snd p)) else p) (ms_entries s) = ms_entries s"
    by (intro map_idI) (auto simp: map_of_eq_None_iff)
  with None show ?thesis by (simp add: dropDelivery_def undeliver_def)
next
  case (Some e)
  have "AList.update q (unpend r e) (ms_entries s) =
      map (\<lambda>p. if fst p = q then (q, unpend r (snd p)) else p) (ms_entries s)"
    using Some AList_update_map [OF mem_keys_distinct [OF assms], of q "unpend r e"]
    by (auto dest: map_of_SomeD simp: rev_image_eqI mem_keys_entry [OF assms]
        intro!: map_cong arg_cong [where f = "unpend r"] mem_keys_unique [OF assms])
  with Some show ?thesis by (simp add: dropDelivery_def Let_def undeliver_def flip: unpend_def)
qed

lemma ids_undeliver:
  assumes "\<And>e. (q, e) \<in> set (ms_entries s) \<Longrightarrow> P (unpend r e) = P e"
  shows "ids P (undeliver r q s) = ids P s"
proof -
  have "map fst (filter (\<lambda>p. P (snd p)) (map (\<lambda>p. if fst p = q then (q, unpend r (snd p)) else p) xs)) =
      map fst (filter (\<lambda>p. P (snd p)) xs)" if "set xs \<subseteq> set (ms_entries s)" for xs
    using that assms by (induction xs) auto
  then show ?thesis by (simp add: ids_def undeliver_def)
qed

lemma undeliver_keys [hub_intros]: "mem_keys s \<Longrightarrow> mem_keys (undeliver r q s)"
proof -
  assume keys: "mem_keys s"
  have "map fst (ms_entries (undeliver r q s)) = map fst (ms_entries s)"
    by (simp add: undeliver_def)
  with keys show ?thesis
    by (auto simp: mem_keys_def hub_simps) (auto simp: undeliver_def split: if_splits)
qed

lemma undeliver_index [hub_intros]:
  assumes keys: "mem_keys s" and index: "mem_index s"
  shows "mem_index (undeliver r q s)"
proof -
  have "ids (\<lambda>e. le_topicID e = t) (undeliver r q s) = ids (\<lambda>e. le_topicID e = t) s" for t
    by (rule ids_undeliver) simp
  moreover have "or_else (ms_deliveries (undeliver r q s) d) [] =
      ids (\<lambda>e. d \<in> set (le_pendingFor e)) (undeliver r q s)" for d
  proof (cases "d = r")
    case False
    then have "ids (\<lambda>e. d \<in> set (le_pendingFor e)) (undeliver r q s) = ids (\<lambda>e. d \<in> set (le_pendingFor e)) s"
      by (intro ids_undeliver) simp
    with False index show ?thesis
      by (auto simp: mem_index_def undeliver_def splice_slot_def split: option.splits)
  next
    case True
    have "ids (\<lambda>e. r \<in> set (le_pendingFor e)) (undeliver r q s) =
        filter (\<lambda>i. i \<noteq> q) (ids (\<lambda>e. r \<in> set (le_pendingFor e)) s)"
    proof -
      have "map fst (filter (\<lambda>p. r \<in> set (le_pendingFor (snd p)))
            (map (\<lambda>p. if fst p = q then (q, unpend r (snd p)) else p) xs)) =
          filter (\<lambda>i. i \<noteq> q) (map fst (filter (\<lambda>p. r \<in> set (le_pendingFor (snd p))) xs))"
        if "set xs \<subseteq> set (ms_entries s)" for xs
        using that mem_keysD(3) [OF keys] by (induction xs) auto
      then show ?thesis by (simp add: ids_def undeliver_def)
    qed
    also have "\<dots> = remove1 q (or_else (ms_deliveries s r) [])"
      using index by (simp add: mem_index_def remove1_filter_neq [OF ids_distinct [OF keys]])
    also have "\<dots> = or_else (ms_deliveries (undeliver r q s) r) []"
      by (simp add: undeliver_def splice_slot_def split: option.splits)
    finally show ?thesis using True by simp
  qed
  ultimately show ?thesis using index by (simp add: mem_index_def hub_simps)
qed

lemma undeliver_positions [hub_intros]: "mem_positions s \<Longrightarrow> mem_positions (undeliver r q s)"
  by (simp add: mem_positions_def hub_simps ids_undeliver)

lemma undeliver_subs [hub_intros]: "mem_subs s \<Longrightarrow> mem_subs (undeliver r q s)"
  by (simp add: mem_subs_def mem_isSubscriber_def hub_simps)

lemma mem_log_undeliver [hub_simps]: "mem_log (undeliver r q s) t = mem_log s t"
proof -
  have "map (\<lambda>p. asStoredMessage (snd p)) (filter (\<lambda>p. is_log_of t (snd p))
        (map (\<lambda>p. if fst p = q then (q, unpend r (snd p)) else p) xs)) =
      map (\<lambda>p. asStoredMessage (snd p)) (filter (\<lambda>p. is_log_of t (snd p)) xs)" for xs
    by (induction xs) auto
  then show ?thesis by (simp add: mem_log_def undeliver_def)
qed

lemma dropDelivery_inv [hub_intros]:
  assumes "mem_inv s"
  shows "mem_inv (dropDelivery r q s)"
proof -
  have keys: "mem_keys s" using assms by (simp add: mem_inv_def)
  let ?s = "undeliver r q s"
  have base: "mem_keys ?s" "mem_index ?s" "mem_positions ?s" "mem_subs ?s"
    using assms by (simp_all add: mem_inv_def hub_intros)
  show ?thesis
  proof (cases "map_of (ms_entries s) q")
    case None
    then have "mem_mail ?s"
      using assms by (auto simp: mem_inv_def mem_mail_def undeliver_def map_of_eq_None_iff split: if_splits)
    with None base show ?thesis by (simp add: dropDelivery_undeliver [OF keys] mem_inv_def)
  next
    case (Some e)
    have e: "(q, e') \<in> set (ms_entries s) \<longleftrightarrow> e' = e" for e'
      using Some mem_keys_entry [OF keys, of q e'] by auto
    have mail: "(i, x) \<in> set (ms_entries ?s) \<Longrightarrow> le_retain x = RMailbox \<Longrightarrow> i \<noteq> q \<Longrightarrow> le_pendingFor x \<noteq> []" for i x
      using assms by (auto simp: mem_inv_def mem_mail_def undeliver_def split: if_splits)
    show ?thesis
    proof (cases "le_retain e = RMailbox \<and> remove1 r (le_pendingFor e) = []")
      case True
      have "removable ?s q"
        using True e by (auto simp: removable_def undeliver_def split: if_splits)
      moreover have "mem_mail (removeEntry q ?s)"
        using mail by (auto simp: mem_mail_def hub_simps)
      ultimately show ?thesis
        using Some True base by (simp add: dropDelivery_undeliver [OF keys] mem_inv_def hub_intros)
    next
      case False
      have "mem_mail ?s"
        using mail False e by (force simp: mem_mail_def undeliver_def split: if_splits)
      with Some False base show ?thesis by (auto simp: dropDelivery_undeliver [OF keys] mem_inv_def)
    qed
  qed
qed

lemma dropDelivery_frame [hub_simps]:
  "ms_counter (dropDelivery r q s) = ms_counter s"
  "ms_heads (dropDelivery r q s) = ms_heads s"
  "ms_publishRecords (dropDelivery r q s) = ms_publishRecords s"
  "ms_subscriptions (dropDelivery r q s) = ms_subscriptions s"
  "ms_subsByDID (dropDelivery r q s) = ms_subsByDID s"
  "ms_keyPackages (dropDelivery r q s) = ms_keyPackages s"
  by (simp_all add: dropDelivery_def Let_def hub_simps split: option.splits)

text \<open>Dropping deliveries never touches a log.\<close>

lemma dropDelivery_log [hub_simps]:
  assumes "mem_inv s"
  shows "mem_log (dropDelivery r q s) t = mem_log s t"
    and "ms_removedThrough (dropDelivery r q s) t = ms_removedThrough s t"
proof -
  have keys: "mem_keys s" using assms by (simp add: mem_inv_def)
  have "mem_log (removeEntry q (undeliver r q s)) t = mem_log s t \<and>
      ms_removedThrough (removeEntry q (undeliver r q s)) t = ms_removedThrough s t"
    if "map_of (ms_entries s) q = Some e" "le_retain e = RMailbox" for e
  proof -
    have keys': "mem_keys (undeliver r q s)" using keys by (rule undeliver_keys)
    have e: "(q, e') \<in> set (ms_entries (undeliver r q s)) \<Longrightarrow> le_retain e' = RMailbox" for e'
    proof -
      assume "(q, e') \<in> set (ms_entries (undeliver r q s))"
      then obtain b where "(q, b) \<in> set (ms_entries s)" "e' = unpend r b"
        by (auto simp: undeliver_def split: if_splits)
      moreover from this(1) that(1) have "b = e"
        unfolding mem_keys_entry [OF keys, symmetric] by simp
      ultimately show ?thesis using that(2) by simp
    qed
    have "filter (\<lambda>p. fst p \<noteq> q) (filter (\<lambda>p. is_log_of t (snd p)) (ms_entries (undeliver r q s))) =
        filter (\<lambda>p. is_log_of t (snd p)) (ms_entries (undeliver r q s))"
    proof (rule filter_True, rule ballI)
      fix p assume "p \<in> set (filter (\<lambda>p. is_log_of t (snd p)) (ms_entries (undeliver r q s)))"
      with e [of "snd p"] show "fst p \<noteq> q" by (cases p) (auto simp: is_log_of_def)
    qed
    then have "mem_log (removeEntry q (undeliver r q s)) t = mem_log (undeliver r q s) t"
      by (simp add: mem_log_removeEntry del: filter_filter) (simp add: mem_log_def)
    moreover have "ms_removedThrough (removeEntry q (undeliver r q s)) t = ms_removedThrough s t"
    proof (cases "map_of (ms_entries (undeliver r q s)) q")
      case None
      then show ?thesis by (simp add: removeEntry_watermark hub_simps)
    next
      case (Some e')
      then have "\<not> is_log_of t e'" using e by (simp add: mem_keys_entry [OF keys'] is_log_of_def)
      with Some show ?thesis by (simp add: removeEntry_watermark hub_simps)
    qed
    ultimately show ?thesis by (simp add: hub_simps)
  qed
  then show "mem_log (dropDelivery r q s) t = mem_log s t"
    and "ms_removedThrough (dropDelivery r q s) t = ms_removedThrough s t"
    by (auto simp: dropDelivery_undeliver [OF keys] hub_simps split: option.splits)
qed

end
