(* ===== verification/Memory_Ops.thy ===== *)
theory Memory_Ops
  imports Memory_Inv
begin

text \<open>
  Every operation of the memory store keeps the invariant and moves each topic's log only as the
  contract of the hub allows: an accepted log publish appends one frame, everything else removes a
  prefix or nothing. The theory ends with the interpretation of the contract.
\<close>

section \<open>Publishing\<close>

lemma fold_push_slot:
  "distinct rs \<Longrightarrow> fold (\<lambda>r m. m(r \<mapsto> or_else (m r) [] @ [q])) rs m d =
     (if d \<in> set rs then Some (or_else (m d) [] @ [q]) else m d)"
  by (induction rs arbitrary: m) auto

definition fresh_entry :: "LogEntry \<Rightarrow> mem_store \<Rightarrow> bool" where
  "fresh_entry e s \<longleftrightarrow> (\<forall>q \<in> fst ` set (ms_entries s). q < le_sequenceID e) \<and>
     minted (ms_counter s) (le_sequenceID e) \<and> distinct (le_pendingFor e) \<and>
     (le_retain e = RMailbox \<longrightarrow> le_pendingFor e \<noteq> []) \<and>
     (\<forall>r. ms_removedThrough s (le_topicID e) = Some r \<longrightarrow> r < le_sequenceID e)"

lemma pushEntry_entries [hub_simps]:
  "fresh_entry e s \<Longrightarrow> ms_entries (pushEntry e s) = ms_entries s @ [(le_sequenceID e, e)]"
  by (auto simp: pushEntry_def Let_def fresh_entry_def intro!: AList_update_new)

lemma pushEntry_frame [hub_simps]:
  "ms_counter (pushEntry e s) = ms_counter s"
  "ms_heads (pushEntry e s) = ms_heads s"
  "ms_publishRecords (pushEntry e s) = ms_publishRecords s"
  "ms_removedThrough (pushEntry e s) = ms_removedThrough s"
  "ms_subscriptions (pushEntry e s) = ms_subscriptions s"
  "ms_subsByDID (pushEntry e s) = ms_subsByDID s"
  by (simp_all add: pushEntry_def Let_def)

lemma ids_pushEntry [hub_simps]:
  "fresh_entry e s \<Longrightarrow> ids P (pushEntry e s) = ids P s @ (if P e then [le_sequenceID e] else [])"
  by (simp add: ids_def hub_simps)

lemma mem_log_pushEntry [hub_simps]:
  "fresh_entry e s \<Longrightarrow>
     mem_log (pushEntry e s) t = mem_log s t @ (if is_log_of t e then [asStoredMessage e] else [])"
  by (simp add: mem_log_def hub_simps)

lemma pushEntry_inv [hub_intros]:
  assumes inv: "mem_inv s" and fresh: "fresh_entry e s"
  shows "mem_inv (pushEntry e s)"
proof -
  have "mem_keys (pushEntry e s)"
    using inv fresh by (auto simp: mem_inv_def mem_keys_def hub_simps sorted_wrt_append fresh_entry_def)
  moreover have "mem_index (pushEntry e s)"
    using inv fresh
    by (auto simp: mem_inv_def mem_index_def ids_pushEntry)
      (auto simp: pushEntry_def Let_def fold_push_slot fresh_entry_def nonempty_slot_def)
  moreover have "mem_positions (pushEntry e s)"
    using inv fresh
    by (auto simp: mem_inv_def mem_positions_def hub_simps fresh_entry_def is_log_of_def)
  moreover have "mem_mail (pushEntry e s)"
    using inv fresh by (auto simp: mem_inv_def mem_mail_def hub_simps fresh_entry_def)
  moreover have "mem_subs (pushEntry e s)"
    using inv by (simp add: mem_inv_def mem_subs_def mem_isSubscriber_def hub_simps)
  ultimately show ?thesis by (simp add: mem_inv_def)
qed

lemma oldest_removable:
  assumes "mem_inv s" and "find (isLogEntry s) (or_else (ms_topicLogs s t) []) = Some q"
  shows "removable s q" and "q \<in> set (ids (is_log_of t) s)"
proof -
  have keys: "mem_keys s" and index: "mem_index s" using assms(1) by (simp_all add: mem_inv_def)
  have hd: "ids (is_log_of t) s \<noteq> []" "q = hd (ids (is_log_of t) s)"
    using assms(2) by (auto simp: find_Some_hd_filter mem_index_log [OF keys index])
  show mem: "q \<in> set (ids (is_log_of t) s)" using hd by simp
  have "q \<le> q'" if "q' \<in> set (ids (is_log_of t) s)" for q'
    using ids_sorted [OF keys, of "is_log_of t"] hd that by (cases "ids (is_log_of t) s") auto
  moreover have "t = le_topicID e" if "(q, e) \<in> set (ms_entries s)" for e
  proof -
    from mem obtain e' where "(q, e') \<in> set (ms_entries s)" "is_log_of t e'" by (auto simp: ids_mem)
    with mem_keys_unique [OF keys that] show ?thesis by (auto simp: is_log_of_def)
  qed
  ultimately show "removable s q" by (auto simp: removable_def)
qed

lemma depthEvict_effect:
  assumes "mem_inv s"
  shows "mem_inv (depthEvict m t d s)"
    and "pruned (mem_log s t') (ms_removedThrough s t')
      (mem_log (depthEvict m t d s) t') (ms_removedThrough (depthEvict m t d s) t')"
    and "ms_counter (depthEvict m t d s) = ms_counter s"
    and "ms_heads (depthEvict m t d s) = ms_heads s"
    and "ms_publishRecords (depthEvict m t d s) = ms_publishRecords s"
  using assms
proof (induction m t d s rule: depthEvict.induct)
  case (2 m t d s)
  { case 1 with 2 show ?case by (auto simp: oldest_removable hub_intros split: option.split) }
  { case 2
    show ?case
    proof (cases "exceeds (Suc d) m \<and> find (isLogEntry s) (or_else (ms_topicLogs s t) []) \<noteq> None")
      case False
      then show ?thesis by auto
    next
      case True
      then obtain q where q: "find (isLogEntry s) (or_else (ms_topicLogs s t) []) = Some q" by blast
      have "pruned (mem_log s t') (ms_removedThrough s t')
          (mem_log (removeEntry q s) t') (ms_removedThrough (removeEntry q s) t')"
        using removeEntry_pruned oldest_removable(1) [OF 2 q] 2 by (simp add: mem_inv_def)
      then show ?thesis
        using "2.IH"(2) [OF _ q] True q removeEntry_inv [OF 2 oldest_removable(1) [OF 2 q]]
        by (auto intro: pruned_trans)
    qed }
  { case 3 with "2.IH"(3) show ?case by (auto simp: oldest_removable hub_intros hub_simps split: option.split) }
  { case 4 with "2.IH"(4) show ?case by (auto simp: oldest_removable hub_intros hub_simps split: option.split) }
  { case 5 with "2.IH"(5) show ?case by (auto simp: oldest_removable hub_intros hub_simps split: option.split) }
qed simp_all

text \<open>The depth bound holds of the log after the eviction, and it removes no more than needed.\<close>

lemma depthEvict_length:
  assumes "mem_inv s" and "d = length (mem_log s t)"
  shows "length (mem_log (depthEvict (Some m) t d s) t) = min d m"
  using assms
proof (induction "Some m" t d s rule: depthEvict.induct)
  case (2 t d s)
  have keys: "mem_keys s" "mem_index s" using "2.prems"(1) by (simp_all add: mem_inv_def)
  have len: "length (ids (is_log_of t) s) = Suc d"
    using "2.prems"(2) mem_log_ids [OF keys(1), of t] by (metis length_map)
  then obtain q where q: "find (isLogEntry s) (or_else (ms_topicLogs s t) []) = Some q"
    using mem_index_log [OF keys, of t] find_None_iff_filter
    by (metis Zero_neq_Suc list.size(3) not_None_eq)
  note rem = oldest_removable [OF "2.prems"(1) q]
  have "length (ids (is_log_of t) (removeEntry q s)) = d"
    using rem(2) len distinct_card [OF ids_distinct [OF keys(1)], of "is_log_of t"]
    by (simp add: hub_simps flip: remove1_filter_neq [OF ids_distinct [OF keys(1)]])
      (simp add: length_remove1)
  then have "d = length (mem_log (removeEntry q s) t)"
    using mem_log_ids [OF removeEntry_keys [OF keys(1)], of q t] by (metis length_map)
  then show ?case
    using "2.hyps" [OF _ q removeEntry_inv [OF "2.prems"(1) rem(1)]] q "2.prems"(2) [symmetric]
    by (auto simp del: length_map)
qed simp

lemma appendEntry_effect:
  assumes inv: "mem_inv s" and fresh: "fresh_entry e s"
  shows "mem_inv (appendEntry opts e s)"
    and "pruned (mem_log s t @ (if is_log_of t e then [asStoredMessage e] else [])) (ms_removedThrough s t)
      (mem_log (appendEntry opts e s) t) (ms_removedThrough (appendEntry opts e s) t)"
    and "ms_counter (appendEntry opts e s) = ms_counter s"
    and "ms_heads (appendEntry opts e s) = ms_heads s"
    and "ms_publishRecords (appendEntry opts e s) = ms_publishRecords s"
proof -
  have push: "mem_inv (pushEntry e s)" using inv fresh by (rule pushEntry_inv)
  note evict = depthEvict_effect [OF push] and frame = mem_log_pushEntry [OF fresh] pushEntry_frame
  show "mem_inv (appendEntry opts e s)"
    using push evict(1) by (simp add: appendEntry_def Let_def)
  show "pruned (mem_log s t @ (if is_log_of t e then [asStoredMessage e] else [])) (ms_removedThrough s t)
      (mem_log (appendEntry opts e s) t) (ms_removedThrough (appendEntry opts e s) t)"
    using evict(2) [of t] by (simp add: appendEntry_def Let_def frame)
  show "ms_counter (appendEntry opts e s) = ms_counter s"
    and "ms_heads (appendEntry opts e s) = ms_heads s"
    and "ms_publishRecords (appendEntry opts e s) = ms_publishRecords s"
    by (simp_all add: appendEntry_def Let_def evict(3-5) frame)
qed

text \<open>The parts of \<^verbatim>\<open>publish\<close> after the two checks, named for the proofs.\<close>

definition mem_mint :: "PublishParams \<Rightarrow> mem_store \<Rightarrow> mem_store" where
  "mem_mint p s =
     (let q = formatSequenceID (Suc (ms_counter s))
      in s\<lparr>ms_counter := Suc (ms_counter s),
           ms_publishRecords := (case pp_publishID p of None \<Rightarrow> ms_publishRecords s
              | Some i \<Rightarrow> (ms_publishRecords s)(i \<mapsto> q)),
           ms_heads := (if retain_of p = RLog then (ms_heads s)(pp_topicID p \<mapsto> q) else ms_heads s)\<rparr>)"

definition mem_recipients :: "PublishParams \<Rightarrow> mem_store \<Rightarrow> did list" where
  "mem_recipients p s = filter (\<lambda>d. d \<noteq> pp_senderDID p)
     (map fst (or_else (ms_subscriptions s (pp_topicID p)) []))"

definition mem_entry :: "int \<Rightarrow> PublishParams \<Rightarrow> mem_store \<Rightarrow> LogEntry" where
  "mem_entry now p s = \<lparr>le_sequenceID = formatSequenceID (Suc (ms_counter s)),
     le_senderDID = pp_senderDID p, le_topicID = pp_topicID p, le_payload = pp_payload p,
     le_storedAt = now, le_retain = retain_of p, le_pendingFor = mem_recipients p s\<rparr>"

definition mem_accept :: "MemoryStoreOptions \<Rightarrow> int \<Rightarrow> PublishParams \<Rightarrow> mem_store \<Rightarrow> mem_store" where
  "mem_accept opts now p s =
     (if retain_of p = RMailbox \<and> mem_recipients p s = [] then mem_mint p s
      else appendEntry opts (mem_entry now p s) (mem_mint p s))"

lemma mem_publish_replay:
  "pp_publishID p = Some i \<Longrightarrow> ms_publishRecords s i = Some q \<Longrightarrow>
     mem_publish opts now p s = (Inr \<lparr>pr_sequenceID = q, pr_deduped = True\<rparr>, s)"
  by (simp add: mem_publish_def Let_def)

lemma mem_publish_mismatch:
  "Option.bind (pp_publishID p) (ms_publishRecords s) = None \<Longrightarrow> pp_expectedHead p = Some h \<Longrightarrow>
     ms_heads s (pp_topicID p) \<noteq> h \<Longrightarrow>
     \<exists>msg. mem_publish opts now p s = (Inl (HubError HeadMismatchError msg), s)"
  by (simp add: mem_publish_def Let_def)

lemma mem_publish_accept:
  "Option.bind (pp_publishID p) (ms_publishRecords s) = None \<Longrightarrow>
     pp_expectedHead p = None \<or> pp_expectedHead p = Some (ms_heads s (pp_topicID p)) \<Longrightarrow>
     mem_publish opts now p s =
       (Inr \<lparr>pr_sequenceID = formatSequenceID (Suc (ms_counter s)), pr_deduped = False\<rparr>,
        mem_accept opts now p s)"
  by (auto simp: mem_publish_def Let_def mem_accept_def mem_mint_def mem_recipients_def mem_entry_def
      cong: if_cong)

lemma mem_publish_cases:
  obtains (replay) i q where "pp_publishID p = Some i" "ms_publishRecords s i = Some q"
      "mem_publish opts now p s = (Inr \<lparr>pr_sequenceID = q, pr_deduped = True\<rparr>, s)"
    | (mismatch) msg where "mem_publish opts now p s = (Inl (HubError HeadMismatchError msg), s)"
    | (accept) "mem_publish opts now p s =
       (Inr \<lparr>pr_sequenceID = formatSequenceID (Suc (ms_counter s)), pr_deduped = False\<rparr>,
        mem_accept opts now p s)"
      "Option.bind (pp_publishID p) (ms_publishRecords s) = None"
proof (cases "Option.bind (pp_publishID p) (ms_publishRecords s)")
  case (Some q)
  with that(1) mem_publish_replay show ?thesis by (auto simp: bind_eq_Some_conv)
next
  case None
  show ?thesis
  proof (cases "pp_expectedHead p")
    case (Some h)
    with None that(2,3) mem_publish_mismatch [OF None Some] mem_publish_accept [OF None] show ?thesis
      by (cases "ms_heads s (pp_topicID p) = h") auto
  qed (use None that(3) mem_publish_accept in auto)
qed

lemma mem_mint_inv: "mem_inv s \<Longrightarrow> mem_inv (mem_mint p s)"
  by (auto simp: mem_inv_defs mem_mint_def Let_def ids_def mem_isSubscriber_def
      intro: minted_Suc_mono split: option.splits)

lemma mem_mint_log [hub_simps]: "mem_log (mem_mint p s) t = mem_log s t"
  by (simp add: mem_log_def mem_mint_def Let_def)

lemma mem_mint_frame [hub_simps]:
  "ms_entries (mem_mint p s) = ms_entries s"
  "ms_counter (mem_mint p s) = Suc (ms_counter s)"
  "ms_removedThrough (mem_mint p s) = ms_removedThrough s"
  "ms_subscriptions (mem_mint p s) = ms_subscriptions s"
  "ms_heads (mem_mint p s) t = (if retain_of p = RLog \<and> t = pp_topicID p
     then Some (formatSequenceID (Suc (ms_counter s))) else ms_heads s t)"
  by (simp_all add: mem_mint_def Let_def)

definition mem_room :: "mem_store \<Rightarrow> bool" where
  "mem_room s \<longleftrightarrow> ms_counter s < seq_space"

lemma mem_entry_fresh:
  assumes inv: "mem_inv s" and room: "Suc (ms_counter s) < seq_space"
    and kept: "\<not> (retain_of p = RMailbox \<and> mem_recipients p s = [])"
  shows "fresh_entry (mem_entry now p s) (mem_mint p s)"
proof -
  have "q < formatSequenceID (Suc (ms_counter s))" if "minted (ms_counter s) q" for q
    using that room by (rule minted_less_next)
  moreover have "distinct (mem_recipients p s)"
  proof (cases "ms_subscriptions s (pp_topicID p)")
    case (Some m)
    then have "distinct (map fst m)" using inv by (auto simp: mem_inv_def mem_subs_def)
    with Some show ?thesis by (simp add: mem_recipients_def)
  qed (simp add: mem_recipients_def)
  ultimately show ?thesis
    using inv kept
    by (auto simp: fresh_entry_def hub_simps mem_entry_def mem_inv_def mem_keys_def mem_positions_def)
qed

lemma mem_accept_counter [hub_simps]:
  assumes "mem_inv s" and "Suc (ms_counter s) < seq_space"
  shows "ms_counter (mem_accept opts now p s) = Suc (ms_counter s)"
  using appendEntry_effect(3) [OF mem_mint_inv [OF assms(1)] mem_entry_fresh [OF assms]]
  by (simp add: mem_accept_def hub_simps)

lemma mem_accept_effect:
  assumes inv: "mem_inv s" and room: "Suc (ms_counter s) < seq_space"
    and q: "q = formatSequenceID (Suc (ms_counter s))"
  shows "mem_inv (mem_accept opts now p s)"
    and "pruned (if retain_of p = RLog \<and> t = pp_topicID p then mem_log s t @ [log_frame p q] else mem_log s t)
      (ms_removedThrough s t) (mem_log (mem_accept opts now p s) t)
      (ms_removedThrough (mem_accept opts now p s) t)"
    and "ms_heads (mem_accept opts now p s) t =
      (if retain_of p = RLog \<and> t = pp_topicID p then Some q else ms_heads s t)"
    and "pp_publishID p = Some i \<Longrightarrow> ms_publishRecords (mem_accept opts now p s) i = Some q"
proof -
  let ?e = "mem_entry now p s"
  have frame: "(if is_log_of t ?e then [asStoredMessage ?e] else []) =
      (if retain_of p = RLog \<and> t = pp_topicID p then [log_frame p q] else [])"
    by (auto simp: is_log_of_def mem_entry_def asStoredMessage_def log_frame_def q)
  note effect = appendEntry_effect [OF mem_mint_inv [OF inv] mem_entry_fresh [OF inv room],
      where opts = opts and p1 = p and now1 = now]
  show "mem_inv (mem_accept opts now p s)"
    using effect(1) mem_mint_inv [OF inv] by (auto simp: mem_accept_def)
  show "pruned (if retain_of p = RLog \<and> t = pp_topicID p then mem_log s t @ [log_frame p q] else mem_log s t)
      (ms_removedThrough s t) (mem_log (mem_accept opts now p s) t)
      (ms_removedThrough (mem_accept opts now p s) t)"
    using effect(2) [of t] by (auto simp: mem_accept_def hub_simps frame split: if_splits)
  show "ms_heads (mem_accept opts now p s) t =
      (if retain_of p = RLog \<and> t = pp_topicID p then Some q else ms_heads s t)"
    using effect(4) by (simp add: mem_accept_def hub_simps q)
  show "pp_publishID p = Some i \<Longrightarrow> ms_publishRecords (mem_accept opts now p s) i = Some q"
    using effect(5) by (simp add: mem_accept_def mem_mint_def Let_def q)
qed

text \<open>The counter never moves back, whatever the state.\<close>

lemma depthEvict_counter: "ms_counter (depthEvict m t d s) = ms_counter s"
  by (induction m t d s rule: depthEvict.induct) (auto simp: hub_simps split: option.split)

lemma mem_publish_counter: "ms_counter s \<le> ms_counter (snd (mem_publish opts now p s))"
  by (cases rule: mem_publish_cases [of p s opts now])
    (simp_all add: mem_accept_def appendEntry_def Let_def depthEvict_counter hub_simps)

lemma mem_positions_head_less:
  "mem_inv s \<Longrightarrow> Suc (ms_counter s) < seq_space \<Longrightarrow> ms_heads s t = Some h \<Longrightarrow>
     h < formatSequenceID (Suc (ms_counter s))"
  by (auto simp: mem_inv_def mem_positions_def intro: minted_less_next)

section \<open>Deliveries\<close>

lemma fold_dropDelivery:
  assumes "mem_inv s"
  shows "mem_inv (fold (\<lambda>q s'. if c q s' then dropDelivery r q s' else s') qs s)"
    and "mem_log (fold (\<lambda>q s'. if c q s' then dropDelivery r q s' else s') qs s) t = mem_log s t"
    and "ms_removedThrough (fold (\<lambda>q s'. if c q s' then dropDelivery r q s' else s') qs s) t =
      ms_removedThrough s t"
    and "ms_heads (fold (\<lambda>q s'. if c q s' then dropDelivery r q s' else s') qs s) = ms_heads s"
    and "ms_counter (fold (\<lambda>q s'. if c q s' then dropDelivery r q s' else s') qs s) = ms_counter s"
    and "ms_subscriptions (fold (\<lambda>q s'. if c q s' then dropDelivery r q s' else s') qs s) = ms_subscriptions s"
  using assms by (induction qs arbitrary: s) (simp_all add: hub_intros hub_simps)

lemma mem_ack_effect:
  assumes "mem_inv s"
  shows "mem_inv (mem_ack r qs s)" and "mem_log (mem_ack r qs s) t = mem_log s t"
    and "ms_removedThrough (mem_ack r qs s) t = ms_removedThrough s t"
    and "ms_heads (mem_ack r qs s) = ms_heads s" and "ms_counter (mem_ack r qs s) = ms_counter s"
    and "ms_subscriptions (mem_ack r qs s) = ms_subscriptions s"
  using fold_dropDelivery [OF assms, of "\<lambda>_ _. True" r qs] by (simp_all add: mem_ack_def)

lemma mem_unsubscribe_effect:
  assumes inv: "mem_inv s"
  shows "mem_inv (mem_unsubscribe d t s)" and "mem_log (mem_unsubscribe d t s) t' = mem_log s t'"
    and "ms_removedThrough (mem_unsubscribe d t s) t' = ms_removedThrough s t'"
    and "ms_heads (mem_unsubscribe d t s) = ms_heads s"
    and "ms_counter (mem_unsubscribe d t s) = ms_counter s"
    and "mem_isSubscriber (mem_unsubscribe d t s) t' d' \<longleftrightarrow>
      mem_isSubscriber s t' d' \<and> \<not> (t' = t \<and> d' = d)"
proof -
  define s1 where "s1 = s\<lparr>
     ms_subscriptions := (case ms_subscriptions s t of None \<Rightarrow> ms_subscriptions s
        | Some m \<Rightarrow> (ms_subscriptions s)(t := nonempty_slot (AList.delete d m))),
     ms_subsByDID := (case ms_subsByDID s d of None \<Rightarrow> ms_subsByDID s
        | Some ts \<Rightarrow> (ms_subsByDID s)(d := nonempty_slot (remove1 t ts)))\<rparr>"
  let ?c = "\<lambda>q s'. \<exists>e. map_of (ms_entries s') q = Some e \<and> le_topicID e = t"
  have "(\<lambda>q s'. case map_of (ms_entries s') q of None \<Rightarrow> s'
      | Some e \<Rightarrow> if le_topicID e = t then dropDelivery d q s' else s') =
    (\<lambda>q s'. if ?c q s' then dropDelivery d q s' else s')"
    by (auto simp: fun_eq_iff split: option.splits)
  then have unsub: "mem_unsubscribe d t s =
      fold (\<lambda>q s'. if ?c q s' then dropDelivery d q s' else s') (or_else (ms_deliveries s1 d) []) s1"
    by (simp add: mem_unsubscribe_def s1_def Let_def)
  have mem1: "mem_isSubscriber s1 t' d' \<longleftrightarrow> mem_isSubscriber s t' d' \<and> \<not> (t' = t \<and> d' = d)" for t' d'
    by (auto simp: s1_def mem_isSubscriber_def AList_delete_filter split: option.splits)
  have "mem_subs s1"
  proof -
    have "distinct (map fst m) \<and> m \<noteq> []" if "ms_subscriptions s1 t' = Some m" for t' m
      using that inv
      by (auto simp: s1_def mem_inv_def mem_subs_def distinct_delete split: option.splits if_splits)
    moreover have "distinct ts \<and> ts \<noteq> []" if "ms_subsByDID s1 d' = Some ts" for d' ts
      using that inv
      by (auto simp: s1_def mem_inv_def mem_subs_def distinct_remove1 split: option.splits if_splits)
    moreover have "t' \<in> set (or_else (ms_subsByDID s1 d') []) \<longleftrightarrow> mem_isSubscriber s1 t' d'" for d' t'
    proof -
      have own: "t' \<in> set (or_else (ms_subsByDID s d') []) \<longleftrightarrow> mem_isSubscriber s t' d'" for d' t'
        using inv by (simp add: mem_inv_def mem_subs_def)
      have dist: "distinct ts" if "ms_subsByDID s d = Some ts" for ts
        using inv that by (auto simp: mem_inv_def mem_subs_def)
      have "t' \<in> set (or_else (ms_subsByDID s1 d') []) \<longleftrightarrow>
          t' \<in> set (or_else (ms_subsByDID s d') []) \<and> \<not> (t' = t \<and> d' = d)"
        using dist by (auto simp: s1_def split: option.splits)
      then show ?thesis by (simp add: own mem1)
    qed
    ultimately show ?thesis by (simp add: mem_subs_def)
  qed
  then have inv1: "mem_inv s1"
    using inv by (simp add: mem_inv_def mem_keys_def mem_index_def mem_positions_def mem_mail_def ids_def s1_def)
  note eff = fold_dropDelivery [OF inv1, of ?c d "or_else (ms_deliveries s1 d) []", folded unsub]
  show "mem_inv (mem_unsubscribe d t s)" by (rule eff(1))
  show "mem_log (mem_unsubscribe d t s) t' = mem_log s t'"
    and "ms_removedThrough (mem_unsubscribe d t s) t' = ms_removedThrough s t'"
    and "ms_heads (mem_unsubscribe d t s) = ms_heads s"
    and "ms_counter (mem_unsubscribe d t s) = ms_counter s"
    using eff(2-5) by (simp_all add: mem_log_def s1_def)
  show "mem_isSubscriber (mem_unsubscribe d t s) t' d' \<longleftrightarrow>
      mem_isSubscriber s t' d' \<and> \<not> (t' = t \<and> d' = d)"
    using eff(6) mem1 by (simp add: mem_isSubscriber_def)
qed

section \<open>Trim and purge\<close>

lemma fold_removeEntry_frame:
  "ms_heads (fold removeEntry qs s) = ms_heads s"
  "ms_counter (fold removeEntry qs s) = ms_counter s"
  "ms_subscriptions (fold removeEntry qs s) = ms_subscriptions s"
  "ms_publishRecords (fold removeEntry qs s) = ms_publishRecords s"
  "ms_entries (fold removeEntry qs s) = filter (\<lambda>p. fst p \<notin> set qs) (ms_entries s)"
  by (induction qs arbitrary: s) (auto simp: hub_simps intro: filter_cong)

text \<open>The class of a frame is read afresh in the loop, and removing other frames does not change it.\<close>

lemma isLogEntry_removeEntry: "q' \<noteq> q \<Longrightarrow> isLogEntry (removeEntry q s) q' = isLogEntry s q'"
proof -
  assume "q' \<noteq> q"
  then have "map_of (filter (\<lambda>p. fst p \<noteq> q) xs) q' = map_of xs q'" for xs :: "(string \<times> LogEntry) list"
    by (induction xs) auto
  then show ?thesis by (simp add: isLogEntry_def hub_simps)
qed

lemma trim_fold:
  "distinct log \<Longrightarrow>
     fold (\<lambda>q s'. if q < before \<and> isLogEntry s' q then removeEntry q s' else s') log s =
     fold removeEntry (filter (\<lambda>q. q < before \<and> isLogEntry s q) log) s"
proof (induction log arbitrary: s)
  case (Cons q log)
  have "filter (\<lambda>x. x < before \<and> isLogEntry (removeEntry q s) x) log =
      filter (\<lambda>x. x < before \<and> isLogEntry s x) log"
    using Cons.prems by (intro filter_cong refl) (metis distinct.simps(2) isLogEntry_removeEntry)
  with Cons show ?case by auto
qed simp

definition trimmed_ids :: "topic_id \<Rightarrow> sequence_id \<Rightarrow> mem_store \<Rightarrow> sequence_id list" where
  "trimmed_ids t before s = filter (\<lambda>q. q < before) (ids (is_log_of t) s)"

lemma mem_trim_fold:
  assumes "mem_inv s"
  shows "mem_trim t before s = fold removeEntry (trimmed_ids t before s) s"
proof (cases "ms_topicLogs s t")
  case None
  with assms have "ids (\<lambda>e. le_topicID e = t) s = []" by (simp add: mem_inv_def mem_index_def)
  then have "ids (is_log_of t) s = []" by (auto simp: ids_def is_log_of_def filter_empty_conv)
  with None show ?thesis by (simp add: mem_trim_def trimmed_ids_def)
next
  case (Some log)
  have keys: "mem_keys s" "mem_index s" using assms by (simp_all add: mem_inv_def)
  from Some keys(2) have log: "log = ids (\<lambda>e. le_topicID e = t) s" by (simp add: mem_index_def)
  have "filter (\<lambda>q. q < before \<and> isLogEntry s q) log = filter (\<lambda>q. q < before) (filter (isLogEntry s) log)"
    by (simp add: conj_commute)
  also have "\<dots> = trimmed_ids t before s"
    using mem_index_log [OF keys, of t] Some by (simp add: trimmed_ids_def)
  finally show ?thesis
    using Some ids_distinct [OF keys(1)] by (simp add: mem_trim_def trim_fold log)
qed

lemma trimmed_closed:
  assumes "mem_inv s"
  shows "sorted_wrt (<) (trimmed_ids t before s)" and "prefix_closed (set (trimmed_ids t before s)) s"
proof -
  have keys: "mem_keys s" using assms by (simp add: mem_inv_def)
  show "sorted_wrt (<) (trimmed_ids t before s)"
    by (simp add: trimmed_ids_def sorted_wrt_filter ids_sorted [OF keys])
  show "prefix_closed (set (trimmed_ids t before s)) s"
    unfolding prefix_closed_def
  proof (intro allI impI)
    fix q e q'
    assume asm: "q \<in> set (trimmed_ids t before s) \<and> (q, e) \<in> set (ms_entries s) \<and>
      le_retain e = RLog \<and> q' \<in> set (ids (is_log_of (le_topicID e)) s) \<and> q' < q"
    then obtain e' where "(q, e') \<in> set (ms_entries s)" "is_log_of t e'" "q < before"
      by (auto simp: trimmed_ids_def ids_mem)
    with asm mem_keys_unique [OF keys, of q e e'] show "q' \<in> set (trimmed_ids t before s)"
      by (auto simp: trimmed_ids_def is_log_of_def)
  qed
qed

lemma purge_scan_sub:
  "set (purge_scan ret now es rt) \<subseteq> fst ` set es"
  by (induction ret now es rt rule: purge_scan.induct) auto

lemma purge_scan_sorted:
  "sorted_wrt (<) (map fst es) \<Longrightarrow> sorted_wrt (<) (purge_scan ret now es rt)"
proof (induction ret now es rt rule: purge_scan.induct)
  case (2 ret now q e es rt)
  have "\<forall>x \<in> set (purge_scan ret now es rt'). q < x" for rt'
    using "2.prems" purge_scan_sub [of ret now es rt'] by auto
  with 2 show ?case by simp
qed simp

lemma purge_scan_aged:
  "q \<in> set (purge_scan ret now es rt) \<Longrightarrow>
     \<exists>e. (q, e) \<in> set es \<and> le_storedAt e \<le> now - ret (le_topicID e) * 1000 \<and>
       (le_retain e = RLog \<longrightarrow> le_topicID e \<notin> set rt)"
  by (induction ret now es rt rule: purge_scan.induct) (auto split: if_splits)

lemma purge_scan_closed:
  assumes "sorted_wrt (<) (map fst es)" and "q \<in> set (purge_scan ret now es rt)"
    and "(q, e) \<in> set es" "is_log_of t e" and "(q', e') \<in> set es" "is_log_of t e'" "q' < q"
  shows "q' \<in> set (purge_scan ret now es rt)"
  using assms
proof (induction ret now es rt rule: purge_scan.induct)
  case (2 ret now i x es rt)
  show ?case
  proof (cases "i = q'")
    case False
    have "i < q"
    proof (rule ccontr)
      assume "\<not> i < q"
      moreover have "q = i \<or> i < q" using "2.prems"(1,3) by auto
      ultimately have "q = i" by auto
      then have "i < q' \<or> q' = i" using "2.prems"(1,5) by auto
      with \<open>q = i\<close> "2.prems"(7) show False by auto
    qed
    then have "q \<noteq> i" by simp
    with False "2.prems" have rest: "(q, e) \<in> set es" "(q', e') \<in> set es" "sorted_wrt (<) (map fst es)"
      by auto
    with 2 \<open>q \<noteq> i\<close> show ?thesis by (auto split: if_splits)
  next
    case True
    then have x: "x = e'" and q: "q \<noteq> i" "(q, e) \<in> set es"
      using "2.prems"(1,3,5,7) by (auto simp: rev_image_eqI)
    show ?thesis
    proof (cases "le_topicID x \<in> set rt \<or> \<not> le_storedAt x \<le> now - ret (le_topicID x) * 1000")
      case True
      then obtain rt' where "t \<in> set rt'" "q \<in> set (purge_scan ret now es rt')"
        using "2.prems"(2,6) x q(1) that [of rt] that [of "le_topicID e' # rt"]
        by (auto simp: is_log_of_def split: if_splits)
      then obtain e2 where e2: "(q, e2) \<in> set es" "le_retain e2 = RLog \<longrightarrow> le_topicID e2 \<notin> set rt'"
        using purge_scan_aged by metis
      have "distinct (map fst es)" using "2.prems"(1) by (simp add: sorted_wrt_less_distinct)
      with e2(1) q(2) have "e2 = e" by (metis eq_key_imp_eq_value)
      with e2(2) \<open>t \<in> set rt'\<close> "2.prems"(4) show ?thesis by (auto simp: is_log_of_def)
    next
      case False
      with \<open>i = q'\<close> show ?thesis by auto
    qed
  qed
qed simp

definition purged_ids :: "MemoryStoreOptions \<Rightarrow> int \<Rightarrow> int \<Rightarrow> mem_store \<Rightarrow> sequence_id list" where
  "purged_ids opts now olderThan s =
     purge_scan (\<lambda>t. retentionOf opts s t olderThan) now (ms_entries s) []"

lemma mem_purge_fold:
  "mem_purge opts now olderThan s =
     (purged_ids opts now olderThan s, fold removeEntry (purged_ids opts now olderThan s) s)"
  by (simp add: mem_purge_def purged_ids_def Let_def)

lemma purged_closed:
  assumes "mem_inv s"
  shows "sorted_wrt (<) (purged_ids opts now olderThan s)"
    and "prefix_closed (set (purged_ids opts now olderThan s)) s"
proof -
  have sorted: "sorted_wrt (<) (map fst (ms_entries s))"
    using assms by (simp add: mem_inv_def mem_keys_def)
  then show "sorted_wrt (<) (purged_ids opts now olderThan s)"
    by (simp add: purged_ids_def purge_scan_sorted)
  show "prefix_closed (set (purged_ids opts now olderThan s)) s"
    unfolding prefix_closed_def purged_ids_def
    using purge_scan_closed [OF sorted] by (fastforce simp: ids_mem is_log_of_def)
qed

lemma mem_trim_effect:
  assumes "mem_inv s"
  shows "mem_inv (mem_trim t before s)"
    and "pruned (mem_log s t') (ms_removedThrough s t')
      (mem_log (mem_trim t before s) t') (ms_removedThrough (mem_trim t before s) t')"
  using fold_removeEntry_inv [OF trimmed_closed [OF assms] assms]
  by (simp_all add: mem_trim_fold [OF assms])

lemma mem_purge_effect:
  assumes "mem_inv s"
  shows "mem_inv (snd (mem_purge opts now olderThan s))"
    and "pruned (mem_log s t) (ms_removedThrough s t)
      (mem_log (snd (mem_purge opts now olderThan s)) t)
      (ms_removedThrough (snd (mem_purge opts now olderThan s)) t)"
  using fold_removeEntry_inv [OF purged_closed [OF assms] assms]
  by (simp_all add: mem_purge_fold)

section \<open>Subscriptions\<close>

lemma mem_subscribe_inv:
  assumes "mem_inv s"
  shows "mem_inv (snd (mem_subscribe opts p s))"
proof (cases "fst (mem_subscribe opts p s)")
  case (Inl e)
  then have "snd (mem_subscribe opts p s) = s"
    by (auto simp: mem_subscribe_def Let_def split: if_splits)
  with assms show ?thesis by simp
next
  case (Inr u)
  let ?d = "sp_subscriberDID p" and ?t = "sp_topicID p"
  let ?s = "snd (mem_subscribe opts p s)"
  let ?m = "AList.update ?d (or_else (sp_retention p) (mo_defaultRetention opts)) (or_else (ms_subscriptions s ?t) [])"
  let ?ts = "List.insert ?t (or_else (ms_subsByDID s ?d) [])"
  from Inr have s': "?s = s\<lparr>ms_subscriptions := (ms_subscriptions s)(?t \<mapsto> ?m),
      ms_subsByDID := (ms_subsByDID s)(?d \<mapsto> ?ts)\<rparr>"
    by (auto simp: mem_subscribe_def Let_def split: if_splits)
  have subs: "mem_subs s" using assms by (simp add: mem_inv_def)
  have dist: "distinct (map fst (or_else (ms_subscriptions s ?t) []))"
    "distinct (or_else (ms_subsByDID s ?d) [])"
    using subs by (auto simp: mem_subs_def or_else_def split: option.split)
  have keys: "fst ` set ?m = insert ?d (fst ` set (or_else (ms_subscriptions s ?t) []))"
    by (simp add: AList_update_in_place insert_absorb flip: set_map)
  have member: "mem_isSubscriber ?s t d \<longleftrightarrow> mem_isSubscriber s t d \<or> (t = ?t \<and> d = ?d)" for t d
    using keys by (auto simp: s' mem_isSubscriber_def)
  have own: "t \<in> set (or_else (ms_subsByDID ?s d) []) \<longleftrightarrow>
      t \<in> set (or_else (ms_subsByDID s d) []) \<or> (t = ?t \<and> d = ?d)" for t d
    by (auto simp: s')
  have m: "distinct (map fst ?m) \<and> ?m \<noteq> []" and ts: "distinct ?ts \<and> ?ts \<noteq> []"
    using keys dist by (auto simp: distinct_update List.insert_def)
  have "distinct (map fst m) \<and> m \<noteq> []" if "ms_subscriptions ?s t = Some m" for t m
    using that m subs by (cases "t = ?t") (auto simp: s' mem_subs_def)
  moreover have "distinct ts \<and> ts \<noteq> []" if "ms_subsByDID ?s d = Some ts" for d ts
  proof (cases "d = ?d")
    case True
    with that have "ts = ?ts" by (simp add: s')
    with ts show ?thesis by simp
  next
    case False
    with that subs show ?thesis by (simp add: s' mem_subs_def)
  qed
  moreover have "t \<in> set (or_else (ms_subsByDID ?s d) []) \<longleftrightarrow> mem_isSubscriber ?s t d" for t d
    using subs by (simp add: own member mem_subs_def)
  ultimately have "mem_subs ?s" unfolding mem_subs_def by blast
  with assms show ?thesis
    by (simp add: mem_inv_def mem_keys_def mem_index_def mem_positions_def mem_mail_def ids_def s')
qed

lemma mem_subscribe_frame:
  "ms_entries (snd (mem_subscribe opts p s)) = ms_entries s"
  "ms_heads (snd (mem_subscribe opts p s)) = ms_heads s"
  "ms_removedThrough (snd (mem_subscribe opts p s)) = ms_removedThrough s"
  "ms_counter (snd (mem_subscribe opts p s)) = ms_counter s"
  "ms_deliveries (snd (mem_subscribe opts p s)) = ms_deliveries s"
  by (simp_all add: mem_subscribe_def Let_def)

end
