(* ===== verification/Memory_Spec.thy ===== *)
theory Memory_Spec
  imports Memory_Ops
begin

text \<open>
  The memory store against its contract: the answer of \<^verbatim>\<open>fetchTopic\<close> is the view of the kept log,
  the whole store interprets \<open>hub_log_store\<close>, and the properties that rest on it. The second half is
  the store's own promises: idempotent replay, the depth bound, deliveries, the age bound and the
  key-package pool.
\<close>

section \<open>Reading a topic\<close>

lemma mem_fetchTopic_view:
  assumes inv: "mem_inv s" and sub: "mem_isSubscriber s (ft_topicID f) (ft_subscriberDID f)"
  shows "mem_fetchTopic f s = Inr (topic_view (mem_log s (ft_topicID f)) (ms_heads s (ft_topicID f))
    (ms_removedThrough s (ft_topicID f)) f)"
proof -
  let ?t = "ft_topicID f"
  let ?L = "filter (\<lambda>p. is_log_of ?t (snd p)) (ms_entries s)"
  have keys: "mem_keys s" "mem_index s" using inv by (simp_all add: mem_inv_def)
  have log: "filter (isLogEntry s) (or_else (ms_topicLogs s ?t) []) = map fst ?L"
    using mem_index_log [OF keys, of ?t] by (simp add: ids_def)
  have id: "sm_sequenceID (asStoredMessage (snd p)) = fst p" if "p \<in> set (ms_entries s)" for p
    using mem_keysD(1) [OF keys(1), of "fst p" "snd p"] that by (simp add: asStoredMessage_def)
  have sel: "filter (\<lambda>m. a < sm_sequenceID m) (map (\<lambda>p. asStoredMessage (snd p)) xs) =
      map (\<lambda>p. asStoredMessage (snd p)) (filter (\<lambda>p. a < fst p) xs)"
    if "set xs \<subseteq> set (ms_entries s)" for a xs
    using that id by (induction xs) auto
  have sel_ids: "filter (\<lambda>q. a < q) (map fst ?L) = map fst (filter (\<lambda>p. a < fst p) ?L)" for a
    by (simp add: filter_map o_def del: filter_filter)
  define sel where "sel = (case ft_after f of None \<Rightarrow> ?L | Some a \<Rightarrow> filter (\<lambda>p. a < fst p) ?L)"
  define lim where "lim = (case ft_limit f of None \<Rightarrow> sel | Some n \<Rightarrow> take n sel)"
  have sub_lim: "set lim \<subseteq> set (ms_entries s)"
    by (auto simp: lim_def sel_def dest: in_set_takeD split: option.splits)
  have sel_eq: "(case ft_after f of None \<Rightarrow> map fst ?L | Some a \<Rightarrow> filter (\<lambda>q. a < q) (map fst ?L)) = map fst sel"
    using sel_ids by (simp add: sel_def split: option.split del: filter_filter)
  have lim_eq: "(case ft_limit f of None \<Rightarrow> map fst sel | Some n \<Rightarrow> take n (map fst sel)) = map fst lim"
    by (simp add: lim_def take_map split: option.split)
  have served: "map asStoredMessage (List.map_filter (map_of (ms_entries s)) (map fst lim)) =
      map (\<lambda>p. asStoredMessage (snd p)) lim"
    by (simp add: map_filter_entries [OF keys(1) sub_lim] o_def)
  have view: "fr_messages (topic_view (mem_log s ?t) h r f) = map (\<lambda>p. asStoredMessage (snd p)) lim" for h r
    using sel [of ?L] by (auto simp: topic_view_def Let_def mem_log_def lim_def sel_def take_map split: option.split)
  have oldest: "(case map fst ?L of [] \<Rightarrow> None | q # _ \<Rightarrow> Some q) =
      (case mem_log s ?t of [] \<Rightarrow> None | m # _ \<Rightarrow> Some (sm_sequenceID m))"
  proof (cases ?L)
    case (Cons p L')
    then have "p \<in> set ?L" by simp
    then have "sm_sequenceID (asStoredMessage (snd p)) = fst p" by (intro id) auto
    with Cons show ?thesis by (simp add: mem_log_def)
  qed (simp add: mem_log_def)
  have "mem_fetchTopic f s = Inr \<lparr>fr_messages = map (\<lambda>p. asStoredMessage (snd p)) lim,
      fr_head = ms_heads s ?t, fr_oldest = (case mem_log s ?t of [] \<Rightarrow> None | m # _ \<Rightarrow> Some (sm_sequenceID m)),
      fr_gap = (case ms_removedThrough s ?t of None \<Rightarrow> False
        | Some r \<Rightarrow> (case ft_after f of None \<Rightarrow> True | Some a \<Rightarrow> a < r))\<rparr>"
    unfolding mem_fetchTopic_def Let_def log sel_eq lim_eq served oldest using sub by simp
  moreover have "topic_view (mem_log s ?t) (ms_heads s ?t) (ms_removedThrough s ?t) f =
      \<lparr>fr_messages = map (\<lambda>p. asStoredMessage (snd p)) lim,
      fr_head = ms_heads s ?t, fr_oldest = (case mem_log s ?t of [] \<Rightarrow> None | m # _ \<Rightarrow> Some (sm_sequenceID m)),
      fr_gap = (case ms_removedThrough s ?t of None \<Rightarrow> False
        | Some r \<Rightarrow> (case ft_after f of None \<Rightarrow> True | Some a \<Rightarrow> a < r))\<rparr>"
    unfolding view [of "ms_heads s ?t" "ms_removedThrough s ?t", symmetric] by (simp add: topic_view_def Let_def)
  ultimately show ?thesis by simp
qed

section \<open>The other operations\<close>

datatype mem_op =
    OpFetch FetchParams
  | OpAck did "sequence_id list"
  | OpPurge int int
  | OpTrim topic_id sequence_id
  | OpSubscribe SubscribeParams
  | OpUnsubscribe did topic_id
  | OpStoreKeyPackage int did string "int option"
  | OpFetchKeyPackages int did "nat option"
  | OpStoreLastResort did string

fun mem_maintain :: "MemoryStoreOptions \<Rightarrow> mem_op \<Rightarrow> mem_store \<Rightarrow> mem_store" where
  "mem_maintain opts (OpFetch p) s = snd (mem_fetch p s)"
| "mem_maintain opts (OpAck r qs) s = mem_ack r qs s"
| "mem_maintain opts (OpPurge now olderThan) s = snd (mem_purge opts now olderThan s)"
| "mem_maintain opts (OpTrim t before) s = mem_trim t before s"
| "mem_maintain opts (OpSubscribe p) s = snd (mem_subscribe opts p s)"
| "mem_maintain opts (OpUnsubscribe d t) s = mem_unsubscribe d t s"
| "mem_maintain opts (OpStoreKeyPackage now owner kp na) s = snd (mem_storeKeyPackage opts now owner kp na s)"
| "mem_maintain opts (OpFetchKeyPackages now owner n) s = snd (mem_fetchKeyPackages now owner n s)"
| "mem_maintain opts (OpStoreLastResort owner kp) s = mem_storeLastResortKeyPackage owner kp s"

lemma mem_fetch_state: "snd (mem_fetch p s) = mem_ack (fp_recipientDID p) (or_else (fp_ack p) []) s"
  by (simp add: mem_fetch_def Let_def)

lemma mem_inv_keyPackages: "mem_inv (s\<lparr>ms_keyPackages := k\<rparr>) \<longleftrightarrow> mem_inv s"
  "mem_inv (s\<lparr>ms_lastResortKeyPackages := l\<rparr>) \<longleftrightarrow> mem_inv s"
  by (simp_all add: mem_inv_defs ids_def mem_isSubscriber_def)

lemma keyPackage_frame:
  "\<exists>k. snd (mem_storeKeyPackage opts now owner kp na s) = s\<lparr>ms_keyPackages := k\<rparr>"
  "\<exists>k. snd (mem_fetchKeyPackages now owner n s) = s\<lparr>ms_keyPackages := k\<rparr>"
  by (auto simp: mem_storeKeyPackage_def mem_fetchKeyPackages_def Let_def split: option.split prod.split
      intro: exI [of _ "ms_keyPackages s"])

lemma mem_maintain_effect:
  assumes "mem_inv s"
  shows "mem_inv (mem_maintain opts op s)"
    and "pruned (mem_log s t) (ms_removedThrough s t)
      (mem_log (mem_maintain opts op s) t) (ms_removedThrough (mem_maintain opts op s) t)"
proof -
  have log: "mem_log (s\<lparr>ms_keyPackages := k\<rparr>) t = mem_log s t"
    "mem_log (s\<lparr>ms_lastResortKeyPackages := l\<rparr>) t = mem_log s t"
    "mem_log (snd (mem_subscribe opts p s)) t = mem_log s t" for k l p
    by (simp_all add: mem_log_def mem_subscribe_frame)
  show "mem_inv (mem_maintain opts op s)"
  proof (cases op)
    case (OpStoreKeyPackage now owner kp na)
    then show ?thesis
      using keyPackage_frame(1) [of opts now owner kp na s] assms by (auto simp: mem_inv_keyPackages)
  next
    case (OpFetchKeyPackages now owner n)
    then show ?thesis
      using keyPackage_frame(2) [of now owner n s] assms by (auto simp: mem_inv_keyPackages)
  qed (use assms in \<open>simp_all add: mem_fetch_state mem_ack_effect mem_purge_effect mem_trim_effect
        mem_subscribe_inv mem_unsubscribe_effect mem_inv_keyPackages mem_storeLastResortKeyPackage_def\<close>)
  show "pruned (mem_log s t) (ms_removedThrough s t)
      (mem_log (mem_maintain opts op s) t) (ms_removedThrough (mem_maintain opts op s) t)"
  proof (cases op)
    case (OpStoreKeyPackage now owner kp na)
    then show ?thesis using keyPackage_frame(1) [of opts now owner kp na s] by (auto simp: log)
  next
    case (OpFetchKeyPackages now owner n)
    then show ?thesis using keyPackage_frame(2) [of now owner n s] by (auto simp: log)
  qed (use assms in \<open>simp_all add: mem_fetch_state mem_ack_effect mem_purge_effect mem_trim_effect
        mem_subscribe_frame mem_unsubscribe_effect mem_storeLastResortKeyPackage_def log\<close>)
qed

lemma ack_frame_always:
  "ms_heads (mem_ack r qs s) = ms_heads s" "ms_counter (mem_ack r qs s) = ms_counter s"
  "ms_publishRecords (mem_ack r qs s) = ms_publishRecords s"
  by (induction qs arbitrary: s) (simp_all add: mem_ack_def hub_simps)

lemma fold_cond_frame:
  assumes "\<And>q s. f (g q s) = f s"
  shows "f (fold (\<lambda>q s'. if c q s' then g q s' else s') qs s) = f s"
  by (induction qs arbitrary: s) (simp_all add: assms)

lemma mem_maintain_frame:
  "ms_heads (mem_maintain opts op s) = ms_heads s"
  "ms_counter (mem_maintain opts op s) = ms_counter s"
  "ms_publishRecords (mem_maintain opts op s) = ms_publishRecords s"
proof -
  have unsub: "f (mem_unsubscribe d t s) = f s"
    if "\<And>q s. f (dropDelivery d q s) = f s"
      "\<And>s a b. f (s\<lparr>ms_subscriptions := a, ms_subsByDID := b\<rparr>) = f s" for f :: "mem_store \<Rightarrow> 'x" and d t
  proof -
    have "f (fold (\<lambda>q s'. case map_of (ms_entries s') q of None \<Rightarrow> s'
        | Some e \<Rightarrow> if le_topicID e = t then dropDelivery d q s' else s') qs s) = f s" for qs s
      by (induction qs arbitrary: s) (simp_all add: that split: option.split)
    then show ?thesis by (simp add: mem_unsubscribe_def Let_def that)
  qed
  have trim: "f (mem_trim t before s) = f s" if "\<And>q s. f (removeEntry q s) = f s"
    for f :: "mem_store \<Rightarrow> 'x" and t before
    using fold_cond_frame [of f removeEntry] that by (simp add: mem_trim_def split: option.split)
  show "ms_heads (mem_maintain opts op s) = ms_heads s"
    by (cases op) (simp_all add: mem_fetch_state ack_frame_always mem_purge_fold fold_removeEntry_frame
        unsub trim hub_simps mem_subscribe_def mem_storeKeyPackage_def mem_fetchKeyPackages_def
        mem_storeLastResortKeyPackage_def Let_def split: option.split prod.split)
  show "ms_counter (mem_maintain opts op s) = ms_counter s"
    by (cases op) (simp_all add: mem_fetch_state ack_frame_always mem_purge_fold fold_removeEntry_frame
        unsub trim hub_simps mem_subscribe_def mem_storeKeyPackage_def mem_fetchKeyPackages_def
        mem_storeLastResortKeyPackage_def Let_def split: option.split prod.split)
  show "ms_publishRecords (mem_maintain opts op s) = ms_publishRecords s"
    by (cases op) (simp_all add: mem_fetch_state ack_frame_always mem_purge_fold fold_removeEntry_frame
        unsub trim hub_simps mem_subscribe_def mem_storeKeyPackage_def mem_fetchKeyPackages_def
        mem_storeLastResortKeyPackage_def Let_def split: option.split prod.split)
qed

section \<open>The contract holds\<close>

lemma mem_publish_accepted:
  assumes "mem_publish opts now p s = (Inr \<lparr>pr_sequenceID = q, pr_deduped = False\<rparr>, s')"
  shows "q = formatSequenceID (Suc (ms_counter s))" and "s' = mem_accept opts now p s"
    and "ms_counter s' = Suc (ms_counter s)"
  using assms
  by (cases rule: mem_publish_cases [of p s opts now];
      auto simp: mem_accept_def appendEntry_def Let_def depthEvict_counter hub_simps)+

interpretation mem: hub_log_store createMemoryStore mem_inv mem_room mem_log ms_heads ms_removedThrough
    "\<lambda>s t i. ms_publishRecords s i" mem_isSubscriber "mem_publish opts" mem_fetchTopic "mem_maintain opts"
  for opts
proof (unfold_locales, goal_cases)
  case 1 show ?case by (rule createMemoryStore_inv)
next
  case (2 t) show ?case by (simp add: createMemoryStore_def mem_log_def)
next
  case (3 t) show ?case by (simp add: createMemoryStore_def)
next
  case (4 t) show ?case by (simp add: createMemoryStore_def)
next
  case (5 s p i q now) then show ?case by (simp add: mem_publish_replay)
next
  case (6 s p h now) then show ?case by (simp add: mem_publish_mismatch)
next
  case (7 s p now) then show ?case using mem_publish_accept by blast
next
  case (8 now p s) then show ?case
    using mem_publish_counter [of s opts now p] by (simp add: mem_room_def)
next
  case (9 s now p q s')
  note acc = mem_publish_accepted [OF 9(2)]
  have room: "Suc (ms_counter s) < seq_space" using 9(3) acc(3) by (simp add: mem_room_def)
  note eff = mem_accept_effect [OF 9(1) room acc(1), where opts = opts and now = now and p = p, folded acc(2)]
  have "h < q" if "ms_heads s t = Some h" for t h
    using mem_positions_head_less [OF 9(1) room that] acc(1) by simp
  then show ?case using eff by simp
next
  case (10 s op) then show ?case by (rule mem_maintain_effect(1))
next
  case (11 op s) show ?case by (simp add: mem_room_def mem_maintain_frame)
next
  case (12 s op t) show ?case by (simp add: mem_maintain_frame)
next
  case (13 s op t) then show ?case by (rule mem_maintain_effect(2))
next
  case (14 s f) then show ?case by (simp add: mem_fetchTopic_view)
next
  case (15 s f) then show ?case by (simp add: mem_fetchTopic_def Let_def)
qed

end
