(* ===== verification/Memory_Props.thy ===== *)
theory Memory_Props
  imports Memory_Spec
begin

text \<open>
  What the memory store promises, stated over runs of its own operations: the log laws inherited
  from the contract, and the laws of replay, depth, age, deliveries and key packages that are its own.
\<close>

section \<open>Runs of the memory store\<close>

abbreviation mem_run :: "MemoryStoreOptions \<Rightarrow> mem_store \<Rightarrow> history \<Rightarrow> mem_store \<Rightarrow> history \<Rightarrow> bool" where
  "mem_run opts \<equiv> hub_run (mem_publish opts) (mem_maintain opts)"

lemma mem_run_room: "mem_run opts s H s' H' \<Longrightarrow> ms_counter s \<le> ms_counter s'"
proof (induction rule: hub_run.induct)
  case (publish s H now p r s')
  then show ?case using mem_publish_counter [of s opts now p] by simp
qed (simp_all add: mem_maintain_frame)

text \<open>Induction over the states of a run that has room: one obligation per operation.\<close>

lemma mem_run_induct [consumes 2, case_names init publish maintain]:
  assumes run: "mem_run opts createMemoryStore no_history s H" and room: "mem_room s"
    and init: "P createMemoryStore"
    and pub: "\<And>s now p s'. mem_inv s \<Longrightarrow> Suc (ms_counter s) < seq_space \<Longrightarrow> P s \<Longrightarrow>
      s' = mem_accept opts now p s \<Longrightarrow> P s'"
    and main: "\<And>s op. mem_inv s \<Longrightarrow> P s \<Longrightarrow> P (mem_maintain opts op s)"
  shows "P s"
  using run room
proof (induction rule: hub_run.induct)
  case start
  show ?case by (rule init)
next
  case (publish s H now p r s')
  have "ms_counter s \<le> ms_counter s'" using mem_publish_counter [of s opts now p] publish.hyps(2) by simp
  with publish.prems have room: "mem_room s" by (simp add: mem_room_def)
  with publish.IH have P: "P s" by simp
  have inv: "mem_inv s" using mem.run_from_init_keeps(1) [OF publish.hyps(1) room] .
  show ?case
  proof (cases rule: mem_publish_cases [of p s opts now])
    case accept
    then have s': "s' = mem_accept opts now p s" using publish.hyps(2) by simp
    then have "ms_counter s' = Suc (ms_counter s)"
      by (auto simp: mem_accept_def appendEntry_def Let_def depthEvict_counter hub_simps)
    with publish.prems have "Suc (ms_counter s) < seq_space" by (simp add: mem_room_def)
    from pub [OF inv this P s'] show ?thesis .
  qed (use publish.hyps(2) P in auto)
next
  case (maintain s H op)
  then have room: "mem_room s" by (simp add: mem_room_def mem_maintain_frame)
  with maintain main mem.run_from_init_keeps(1) [OF maintain.hyps(1) room] show ?case by blast
qed

lemma pruned_length: "pruned l r l' r' \<Longrightarrow> length l' \<le> length l"
  by (auto simp: pruned_def)

lemma mem_accept_depth:
  assumes inv: "mem_inv s" and room: "Suc (ms_counter s) < seq_space"
    and depth: "\<not> exceeds (length (mem_log s t)) (mo_maxDepth opts)"
  shows "\<not> exceeds (length (mem_log (mem_accept opts now p s) t)) (mo_maxDepth opts)"
proof (cases "retain_of p = RLog \<and> t = pp_topicID p")
  case False
  then have "pruned (mem_log s t) (ms_removedThrough s t) (mem_log (mem_accept opts now p s) t)
      (ms_removedThrough (mem_accept opts now p s) t)"
    using mem_accept_effect(2) [OF inv room refl, of p t opts now] by auto
  with depth show ?thesis by (auto simp: exceeds_def dest: pruned_length split: option.splits)
next
  case True
  let ?e = "mem_entry now p s" and ?s = "mem_mint p s"
  let ?s1 = "pushEntry ?e ?s"
  have e: "le_retain ?e = RLog" "le_topicID ?e = t" using True by (simp_all add: mem_entry_def)
  have fresh: "fresh_entry ?e ?s" using True by (intro mem_entry_fresh [OF inv room]) simp
  have inv1: "mem_inv ?s1" by (rule pushEntry_inv [OF mem_mint_inv [OF inv] fresh])
  then have "mem_keys ?s1" "mem_index ?s1" by (simp_all add: mem_inv_def)
  then have len: "length (filter (isLogEntry ?s1) (or_else (ms_topicLogs ?s1 t) [])) = length (mem_log ?s1 t)"
    using mem_log_ids [of ?s1 t] by (metis length_map mem_index_log)
  show ?thesis
  proof (cases "mo_maxDepth opts")
    case (Some m)
    have "length (mem_log (depthEvict (Some m) t (length (mem_log ?s1 t)) ?s1) t) \<le> m"
      using depthEvict_length [OF inv1 refl] by simp
    moreover have "mem_accept opts now p s = depthEvict (Some m) t (length (mem_log ?s1 t)) ?s1"
      using True e len by (simp add: mem_accept_def appendEntry_def Let_def Some)
    ultimately show ?thesis by (simp add: Some)
  qed simp
qed

lemma mem_accept_records:
  "ms_publishRecords (mem_accept opts now p s) = (case pp_publishID p of None \<Rightarrow> ms_publishRecords s
     | Some i \<Rightarrow> (ms_publishRecords s)(i \<mapsto> formatSequenceID (Suc (ms_counter s))))"
proof -
  have "ms_publishRecords (depthEvict m t d s) = ms_publishRecords s" for m t d s
    by (induction m t d s rule: depthEvict.induct) (auto simp: hub_simps split: option.split)
  then show ?thesis
    by (auto simp: mem_accept_def appendEntry_def mem_mint_def Let_def hub_simps split: option.split)
qed

lemma mem_publish_recorded:
  "mem_publish opts now p s = (Inr res, s1) \<Longrightarrow> pp_publishID p = Some i \<Longrightarrow>
     ms_publishRecords s1 i = Some (pr_sequenceID res)"
  by (cases rule: mem_publish_cases [of p s opts now]) (auto simp: mem_accept_records)

lemma mem_run_records:
  "mem_run opts s H s' H' \<Longrightarrow> ms_publishRecords s i = Some q \<Longrightarrow> ms_publishRecords s' i = Some q"
proof (induction rule: hub_run.induct)
  case (publish s1 H now p r s')
  then show ?case
    by (cases rule: mem_publish_cases [of p s1 opts now]) (auto simp: mem_accept_records split: option.split)
qed (simp_all add: mem_maintain_frame)

text \<open>A publish and two stores for the examples.\<close>

definition frame_of :: "did \<Rightarrow> string \<Rightarrow> RetentionClass \<Rightarrow> sequence_id option option \<Rightarrow> PublishParams" where
  "frame_of d i c h = \<lparr>pp_senderDID = d, pp_topicID = ''t'', pp_payload = [1], pp_expectedHead = h,
     pp_publishID = Some i, pp_retain = Some c\<rparr>"

definition first_frame :: PublishParams where
  "first_frame = frame_of ''did:a'' ''p1'' RLog (Some None)"

abbreviation q1 :: sequence_id where "q1 \<equiv> formatSequenceID 1"

definition joined :: mem_store where
  "joined = mem_maintain default_options
     (OpSubscribe \<lparr>sp_subscriberDID = ''did:b'', sp_topicID = ''t'', sp_retention = None\<rparr>) createMemoryStore"

definition after_first :: mem_store where
  "after_first = mem_accept default_options 0 first_frame joined"

lemma joined_state:
  "joined = createMemoryStore\<lparr>ms_subscriptions := [''t'' \<mapsto> [(''did:b'', 0)]],
     ms_subsByDID := [''did:b'' \<mapsto> [''t'']]\<rparr>"
  by (simp add: joined_def mem_subscribe_def createMemoryStore_def default_options_def Let_def)

lemmas first_defs = first_frame_def frame_of_def joined_state createMemoryStore_def retain_of_def

lemma publish_first:
  "mem_publish default_options 0 first_frame joined =
     (Inr \<lparr>pr_sequenceID = q1, pr_deduped = False\<rparr>, after_first)"
  by (simp add: mem_publish_accept after_first_def first_defs)

definition first_history :: history where
  "first_history = record_publish first_frame (Inr \<lparr>pr_sequenceID = q1, pr_deduped = False\<rparr>) no_history"

lemma first_history_eq: "first_history = no_history(''t'' := [log_frame first_frame q1])"
  by (simp add: first_history_def record_publish_def first_defs)

lemma run_joined: "mem_run default_options createMemoryStore no_history joined no_history"
  unfolding joined_def by (rule hub_run.maintain [OF hub_run.start])

lemma run_first: "mem_run default_options createMemoryStore no_history after_first first_history"
  unfolding first_history_def
  by (rule hub_run.publish [where publish = "mem_publish default_options", OF run_joined publish_first])

lemma after_first_state:
  "after_first = joined\<lparr>ms_counter := 1,
     ms_entries := [(q1, \<lparr>le_sequenceID = q1, le_senderDID = ''did:a'', le_topicID = ''t'',
       le_payload = [1], le_storedAt = 0, le_retain = RLog, le_pendingFor = [''did:b'']\<rparr>)],
     ms_topicLogs := [''t'' \<mapsto> [q1]], ms_deliveries := [''did:b'' \<mapsto> [q1]],
     ms_heads := [''t'' \<mapsto> q1], ms_publishRecords := [''p1'' \<mapsto> q1]\<rparr>"
  by (simp add: after_first_def mem_accept_def mem_mint_def mem_entry_def mem_recipients_def appendEntry_def
      pushEntry_def Let_def first_defs default_options_def isLogEntry_def)

lemma after_first_room: "mem_room after_first"
  by (simp add: after_first_state mem_room_def seq_space_def)

section \<open>Properties\<close>

text \<open>
  Claim C30. In every state the memory store can reach, its indices agree with its entries, each
  topic's retained log is the accepted history less a prefix, the head names the last frame ever
  accepted, and the depth bound holds.
\<close>

theorem memory_run_invariant:
  assumes "mem_run opts createMemoryStore no_history s H" and "mem_room s"
  shows "mem_inv s \<and>
    (\<exists>k \<le> length (H t). mem_log s t = drop k (H t)) \<and>
    ms_heads s t = (if H t = [] then None else Some (sm_sequenceID (last (H t)))) \<and>
    \<not> exceeds (length (mem_log s t)) (mo_maxDepth opts)"
proof -
  have keeps: "keeps (H t) (mem_log s t) (ms_heads s t) (ms_removedThrough s t)"
    by (rule mem.run_from_init_keeps(2) [OF assms])
  have "\<not> exceeds (length (mem_log s t)) (mo_maxDepth opts)"
    using assms
  proof (induction rule: mem_run_induct)
    case init
    show ?case by (simp add: createMemoryStore_def mem_log_def exceeds_def split: option.split)
  next
    case (publish s now p s')
    then show ?case using mem_accept_depth [of s t opts now p] by simp
  next
    case (maintain s op)
    have "length (mem_log (mem_maintain opts op s) t) \<le> length (mem_log s t)"
      using pruned_length [OF mem_maintain_effect(2) [OF maintain(1)]] .
    with maintain(2) show ?case by (auto simp: exceeds_def split: option.splits)
  qed
  with keeps mem.run_from_init_keeps(1) [OF assms] show ?thesis by (auto simp: keeps_def pruned_def)
qed

theorem memory_run_invariant_witness:
  "mem_inv after_first \<and> (\<exists>k \<le> length (first_history ''t''). mem_log after_first ''t'' = drop k (first_history ''t'')) \<and>
    ms_heads after_first ''t'' = (if first_history ''t'' = [] then None
      else Some (sm_sequenceID (last (first_history ''t'')))) \<and>
    \<not> exceeds (length (mem_log after_first ''t'')) (mo_maxDepth default_options)"
  by (rule memory_run_invariant [OF run_first after_first_room])

text \<open>
  Claim C2. A read of a topic by a subscriber reports a gap exactly when a frame that was accepted past
  the cursor is no longer kept; with no gap the page is the accepted history past the cursor, cut at
  the limit. Anyone else is refused.
\<close>

theorem memory_fetchTopic_truthful:
  assumes "mem_run opts createMemoryStore no_history s H" and "mem_room s"
  shows "case mem_fetchTopic f s of
      Inl e \<Rightarrow> \<not> mem_isSubscriber s (ft_topicID f) (ft_subscriberDID f) \<and> (\<exists>msg. e = HubError NotSubscribedError msg)
    | Inr r \<Rightarrow> mem_isSubscriber s (ft_topicID f) (ft_subscriberDID f) \<and>
        (fr_gap r \<longleftrightarrow> (\<exists>m \<in> set (H (ft_topicID f)). m \<notin> set (mem_log s (ft_topicID f)) \<and>
            past_cursor (ft_after f) (sm_sequenceID m))) \<and>
        (fr_gap r \<or> fr_messages r = (let l = filter (\<lambda>m. past_cursor (ft_after f) (sm_sequenceID m)) (H (ft_topicID f))
            in case ft_limit f of None \<Rightarrow> l | Some n \<Rightarrow> take n l)) \<and>
        fr_head r = (if H (ft_topicID f) = [] then None else Some (sm_sequenceID (last (H (ft_topicID f)))))"
proof (cases "mem_fetchTopic f s")
  case (Inl e)
  then show ?thesis by (auto simp: mem_fetchTopic_def Let_def split: if_splits)
next
  case (Inr r)
  moreover from Inr have "mem_isSubscriber s (ft_topicID f) (ft_subscriberDID f)"
    by (auto simp: mem_fetchTopic_def Let_def split: if_splits)
  ultimately show ?thesis
    using mem.fetch_gap_exact [OF assms Inr] mem.fetch_no_gap_complete [OF assms Inr]
      mem.fetch_head_stored [OF assms Inr] by simp blast
qed


definition read_all :: FetchTopicParams where
  "read_all = \<lparr>ft_subscriberDID = ''did:b'', ft_topicID = ''t'', ft_after = None, ft_limit = None\<rparr>"

theorem memory_fetchTopic_truthful_witness:
  "mem_fetchTopic read_all after_first = Inr \<lparr>fr_messages = [log_frame first_frame q1], fr_head = Some q1,
      fr_oldest = Some q1, fr_gap = False\<rparr> \<and>
    fr_messages \<lparr>fr_messages = [log_frame first_frame q1], fr_head = Some q1,
      fr_oldest = Some q1, fr_gap = False\<rparr> = filter (\<lambda>m. past_cursor None (sm_sequenceID m)) (first_history ''t'')"
proof -
  have read: "mem_fetchTopic read_all after_first = Inr \<lparr>fr_messages = [log_frame first_frame q1], fr_head = Some q1,
      fr_oldest = Some q1, fr_gap = False\<rparr>"
    by (simp add: read_all_def mem_fetchTopic_def after_first_state joined_state createMemoryStore_def Let_def
        mem_isSubscriber_def isLogEntry_def asStoredMessage_def log_frame_def first_frame_def frame_of_def
        List.map_filter_def)
  show ?thesis
    using memory_fetchTopic_truthful [OF run_first after_first_room, of read_all] unfolding read
    by (simp add: read_all_def)
qed

text \<open>
  Claim C1. At most one publish takes a head: after a log publish that expected head \<open>h\<close> is accepted, and
  whatever happens then, every later publish to the topic that expects \<open>h\<close> is refused with a head
  mismatch and leaves the store as it was, unless its publish id was already recorded.
\<close>

theorem memory_cas_single_winner:
  assumes "mem_run opts createMemoryStore no_history s H"
    and "mem_publish opts now p s = (Inr \<lparr>pr_sequenceID = q, pr_deduped = False\<rparr>, s1)"
    and "retain_of p = RLog" and "pp_expectedHead p = Some h"
    and "mem_run opts s1 (record_publish p (Inr \<lparr>pr_sequenceID = q, pr_deduped = False\<rparr>) H) s2 H2"
    and "mem_room s2"
    and "pp_topicID p' = pp_topicID p" and "pp_expectedHead p' = Some h"
    and "Option.bind (pp_publishID p') (ms_publishRecords s2) = None"
  shows "\<exists>msg. mem_publish opts now' p' s2 = (Inl (HubError HeadMismatchError msg), s2)"
  using mem.cas_single_winner [OF assms(1-8)] assms(9) by simp

theorem memory_cas_single_winner_witness:
  "\<exists>msg. mem_publish default_options 5 (frame_of ''did:b'' ''p2'' RLog (Some None)) after_first =
       (Inl (HubError HeadMismatchError msg), after_first)"
  by (rule memory_cas_single_winner [OF run_joined publish_first _ _ hub_run.start after_first_room, where h = None])
    (simp_all add: first_defs after_first_state)

text \<open>
  Claim C29. A publish is idempotent for ever: once a publish with an id was answered, the same id is
  answered with the same position, marked as a duplicate, in every later state (after any trim, purge,
  ack or unsubscribe, and whatever head the replay expects), and the replay changes nothing.
\<close>

theorem memory_publish_idempotent:
  assumes "mem_publish opts now p s = (Inr res, s1)" and "pp_publishID p = Some i"
    and "mem_run opts s1 H1 s2 H2" and "pp_publishID p' = Some i"
  shows "mem_publish opts now' p' s2 = (Inr \<lparr>pr_sequenceID = pr_sequenceID res, pr_deduped = True\<rparr>, s2)"
proof -
  have "ms_publishRecords s1 i = Some (pr_sequenceID res)"
    using mem_publish_recorded [OF assms(1,2)] .
  with mem_run_records [OF assms(3)] assms(4) show ?thesis
    by (simp add: mem_publish_replay)
qed

theorem memory_publish_idempotent_witness:
  "mem_publish default_options 9 (frame_of ''did:z'' ''p1'' RLog (Some None))
       (mem_maintain default_options (OpTrim ''t'' (formatSequenceID 2)) after_first) =
     (Inr \<lparr>pr_sequenceID = q1, pr_deduped = True\<rparr>,
      mem_maintain default_options (OpTrim ''t'' (formatSequenceID 2)) after_first)"
proof -
  have run: "mem_run default_options after_first H
      (mem_maintain default_options (OpTrim ''t'' (formatSequenceID 2)) after_first) H" for H
    by (rule hub_run.maintain [OF hub_run.start])
  show ?thesis
    using memory_publish_idempotent [OF publish_first _ run, of "''p1''" "frame_of ''did:z'' ''p1'' RLog (Some None)" 9]
    by (simp add: first_frame_def frame_of_def del: mem_maintain.simps)
qed

text \<open>
  A mailbox publish leaves every log as it was: the retained frames, the head and the removal
  watermark of every topic; and each current subscriber of its topic, the sender apart, has
  it appended to what it still has to read.
\<close>

theorem memory_mailbox_leaves_logs:
  assumes run: "mem_run opts createMemoryStore no_history s H" and room: "mem_room s'"
    and pub: "mem_publish opts now p s = (Inr \<lparr>pr_sequenceID = q, pr_deduped = False\<rparr>, s')"
    and retain: "retain_of p = RMailbox"
  shows "mem_log s' t = mem_log s t \<and> ms_heads s' t = ms_heads s t \<and>
    ms_removedThrough s' t = ms_removedThrough s t \<and>
    or_else (ms_deliveries s' d) [] = or_else (ms_deliveries s d) [] @
      (if mem_isSubscriber s (pp_topicID p) d \<and> d \<noteq> pp_senderDID p then [q] else [])"
proof -
  note acc = mem_publish_accepted [OF pub]
  have room': "Suc (ms_counter s) < seq_space" using room acc(3) by (simp add: mem_room_def)
  then have inv: "mem_inv s" using mem.run_from_init_keeps(1) [OF run] by (simp add: mem_room_def)
  have heads: "ms_heads s' t = ms_heads s t"
    using mem_accept_effect(3) [OF inv room' refl] retain by (simp add: acc(2))
  have mem: "d \<in> set (mem_recipients p s) \<longleftrightarrow> mem_isSubscriber s (pp_topicID p) d \<and> d \<noteq> pp_senderDID p"
    by (auto simp: mem_recipients_def mem_isSubscriber_def)
  have deliv: "ms_deliveries (mem_mint p s) = ms_deliveries s" by (simp add: mem_mint_def Let_def)
  show ?thesis
  proof (cases "mem_recipients p s = []")
    case True
    then have "s' = mem_mint p s" using retain by (simp add: acc(2) mem_accept_def)
    with heads True mem show ?thesis by (simp add: hub_simps deliv)
  next
    case False
    have fresh: "fresh_entry (mem_entry now p s) (mem_mint p s)"
      by (rule mem_entry_fresh [OF inv room']) (use False in simp)
    have s': "s' = pushEntry (mem_entry now p s) (mem_mint p s)"
      using retain False by (simp add: acc(2) mem_accept_def appendEntry_def Let_def mem_entry_def)
    have "or_else (ms_deliveries s' d) [] = or_else (ms_deliveries s d) [] @
        (if d \<in> set (mem_recipients p s) then [q] else [])"
      using fresh by (simp add: s' pushEntry_def Let_def fold_push_slot fresh_entry_def deliv acc(1) mem_entry_def)
    moreover have "\<not> is_log_of t (mem_entry now p s)" by (simp add: is_log_of_def mem_entry_def retain)
    then have "mem_log s' t = mem_log s t"
      using mem_log_pushEntry [OF fresh] by (simp add: s' mem_mint_log)
    moreover have "ms_removedThrough s' t = ms_removedThrough s t" by (simp add: s' hub_simps)
    ultimately show ?thesis using heads mem by simp
  qed
qed

theorem memory_mailbox_leaves_logs_witness:
  "(case mem_publish default_options 3 (frame_of ''did:a'' ''m'' RMailbox None) after_first of (r, s') \<Rightarrow>
     r = Inr \<lparr>pr_sequenceID = formatSequenceID 2, pr_deduped = False\<rparr> \<and>
     mem_log s' ''t'' = mem_log after_first ''t'' \<and> or_else (ms_deliveries s' ''did:b'') [] = [q1, formatSequenceID 2])"
proof -
  let ?p = "frame_of ''did:a'' ''m'' RMailbox None"
  have pub: "mem_publish default_options 3 ?p after_first =
      (Inr \<lparr>pr_sequenceID = formatSequenceID 2, pr_deduped = False\<rparr>, mem_accept default_options 3 ?p after_first)"
    by (simp add: mem_publish_accept first_defs after_first_state numeral_2_eq_2)
  have room: "mem_room (mem_accept default_options 3 ?p after_first)"
    using mem_publish_accepted(3) [OF pub] by (simp add: mem_room_def seq_space_def after_first_state)
  show ?thesis
    using memory_mailbox_leaves_logs [OF run_first room pub, of "''t''" "''did:b''"]
    by (simp add: pub) (simp add: first_defs after_first_state mem_isSubscriber_def)
qed

end
