(* ===== verification/Memory_Delivery.thy ===== *)
theory Memory_Delivery
  imports Memory_Props
begin

text \<open>
  The other half of the memory store: what a recipient is served and what an ack frees, what the age
  bound removes and what it must keep, the one-time key packages, and the caps a host configures.
\<close>

section \<open>Pages of deliveries\<close>

lemma startIndex_drop:
  "sorted_wrt (<) qs \<Longrightarrow> drop (startIndex a qs) qs = filter (\<lambda>q. a < q) qs"
proof (induction a qs rule: startIndex.induct)
  case (2 after q qs)
  show ?case
  proof (cases "after < q")
    case True
    with "2.prems" have "\<forall>x \<in> set qs. after < x" by auto
    with True show ?thesis by (simp add: filter_id_conv)
  qed (use 2 in simp)
qed simp

text \<open>What a recipient has still to read, in minting order.\<close>

definition inbox :: "mem_store \<Rightarrow> did \<Rightarrow> StoredMessage list" where
  "inbox s d = map (\<lambda>p. asStoredMessage (snd p)) (filter (\<lambda>p. d \<in> set (le_pendingFor (snd p))) (ms_entries s))"

lemma inbox_ids:
  assumes "mem_inv s"
  shows "map sm_sequenceID (inbox s d) = or_else (ms_deliveries s d) []"
    and "sorted_wrt (<) (map sm_sequenceID (inbox s d))"
proof -
  have keys: "mem_keys s" and index: "mem_index s" using assms by (simp_all add: mem_inv_def)
  have eq: "map sm_sequenceID (inbox s d) = ids (\<lambda>e. d \<in> set (le_pendingFor e)) s"
    using mem_keysD(1) [OF keys] by (auto simp: inbox_def ids_def asStoredMessage_def)
  then show "map sm_sequenceID (inbox s d) = or_else (ms_deliveries s d) []"
    using index by (simp add: mem_index_def)
  show "sorted_wrt (<) (map sm_sequenceID (inbox s d))"
    by (simp add: eq ids_sorted [OF keys])
qed

lemma inbox_served:
  assumes "mem_inv s" and "set xs \<subseteq> set (inbox s d)"
  shows "map asStoredMessage (List.map_filter (map_of (ms_entries s)) (map sm_sequenceID xs)) = xs"
  using assms(2)
proof (induction xs)
  case (Cons m xs)
  have keys: "mem_keys s" using assms(1) by (simp add: mem_inv_def)
  from Cons.prems obtain q e where e: "(q, e) \<in> set (ms_entries s)" "m = asStoredMessage e"
    by (auto simp: inbox_def)
  then have "map_of (ms_entries s) (sm_sequenceID m) = Some e"
    using mem_keysD(1) [OF keys e(1)] mem_keys_entry [OF keys] by (simp add: asStoredMessage_def)
  with Cons e(2) show ?case by (simp add: List.map_filter_def)
qed (simp add: List.map_filter_def)

lemma filter_after_map:
  "filter (\<lambda>q. a < q) (map sm_sequenceID ms) = map sm_sequenceID (filter (\<lambda>m. a < sm_sequenceID m) ms)"
  by (induction ms) auto

lemma sorted_prefix_last:
  assumes "sorted_wrt (<) (map sm_sequenceID ms)" and "page = take k ms" and "page \<noteq> []"
  shows "filter (\<lambda>m. sm_sequenceID (last page) < sm_sequenceID m) ms = drop (length page) ms"
proof -
  define rest where "rest = drop k ms"
  have rest: "ms = page @ rest" by (simp add: rest_def assms(2))
  have "sorted_wrt (<) (map sm_sequenceID (page @ rest))" using assms(1) by (simp add: rest)
  then have sorted: "sorted_wrt (<) (map sm_sequenceID page)"
    and above: "\<forall>x \<in> set page. \<forall>y \<in> set rest. sm_sequenceID x < sm_sequenceID y"
    by (simp_all add: sorted_wrt_append)
  have "sm_sequenceID m \<le> sm_sequenceID (last page)" if "m \<in> set page" for m
    using sorted_wrt_less_last [OF sorted, of "sm_sequenceID m"] that assms(3) by (simp add: last_map)
  then have "filter (\<lambda>m. sm_sequenceID (last page) < sm_sequenceID m) page = []"
    by (auto simp: filter_empty_conv not_less)
  moreover have "filter (\<lambda>m. sm_sequenceID (last page) < sm_sequenceID m) rest = rest"
    using above assms(3) by (auto simp: filter_id_conv)
  ultimately show ?thesis by (simp add: rest)
qed

lemma mem_fetch_page:
  fixes s :: mem_store and p :: FetchParams
  assumes inv: "mem_inv s"
  defines "s1 \<equiv> mem_ack (fp_recipientDID p) (or_else (fp_ack p) []) s"
  defines "waiting \<equiv> filter (\<lambda>m. past_cursor (fp_after p) (sm_sequenceID m)) (inbox s1 (fp_recipientDID p))"
  defines "page \<equiv> (case fp_limit p of None \<Rightarrow> waiting | Some n \<Rightarrow> take n waiting)"
  shows "mem_fetch p s = (\<lparr>fe_messages = page,
      fe_cursor = (if page = [] then None else Some (sm_sequenceID (last page))),
      fe_hasMore = (page \<noteq> waiting)\<rparr>, s1)"
proof -
  let ?r = "fp_recipientDID p"
  have inv1: "mem_inv s1" unfolding s1_def by (rule mem_ack_effect [OF inv])
  note ids = inbox_ids [OF inv1, of ?r]
  let ?pending = "or_else (ms_deliveries s1 ?r) []"
  let ?start = "case fp_after p of None \<Rightarrow> 0 | Some a \<Rightarrow> startIndex a ?pending"
  have avail: "drop ?start ?pending = map sm_sequenceID waiting"
    using startIndex_drop [OF ids(2)]
    by (auto simp: waiting_def past_cursor_def filter_after_map ids(1) [symmetric] split: option.split)
  have sel: "take (or_else (fp_limit p) (length waiting)) (map sm_sequenceID waiting) = map sm_sequenceID page"
    by (auto simp: page_def take_map split: option.split)
  have "set page \<subseteq> set (inbox s1 ?r)"
    by (auto simp: page_def waiting_def dest: in_set_takeD split: option.splits)
  note served = inbox_served [OF inv1 this]
  have more: "or_else (fp_limit p) (length waiting) < length waiting \<longleftrightarrow> page \<noteq> waiting"
    by (auto simp: page_def take_all_iff split: option.split)
  show ?thesis
  proof (cases "?pending = []")
    case True
    with ids(1) have "inbox s1 ?r = []" by (metis map_is_Nil_conv)
    then have "waiting = []" "page = []"
      by (auto simp: waiting_def page_def split: option.split)
    with True show ?thesis by (simp add: mem_fetch_def Let_def flip: s1_def)
  next
    case False
    then show ?thesis
      unfolding mem_fetch_def Let_def s1_def [symmetric] avail length_map sel served more by simp
  qed
qed

text \<open>
  A fetch acknowledges what it was told, then serves the frames still pending for the recipient
  past the cursor, in minting order and cut at the limit; the cursor it returns is the last position
  served, so a further fetch from it serves exactly the frames this page left out, and
  \<^verbatim>\<open>hasMore\<close> says whether there are any.
\<close>

theorem memory_fetch_pages:
  assumes "mem_inv s"
  shows "let s1 = mem_ack (fp_recipientDID p) (or_else (fp_ack p) []) s;
      waiting = filter (\<lambda>m. past_cursor (fp_after p) (sm_sequenceID m)) (inbox s1 (fp_recipientDID p));
      page = (case fp_limit p of None \<Rightarrow> waiting | Some n \<Rightarrow> take n waiting);
      cursor = (if page = [] then None else Some (sm_sequenceID (last page)))
    in mem_fetch p s = (\<lparr>fe_messages = page, fe_cursor = cursor, fe_hasMore = (page \<noteq> waiting)\<rparr>, s1) \<and>
      (page = [] \<or> mem_fetch (p\<lparr>fp_after := cursor, fp_limit := None, fp_ack := None\<rparr>) s1 =
         (\<lparr>fe_messages = drop (length page) waiting,
           fe_cursor = (if page = waiting then None else Some (sm_sequenceID (last waiting))),
           fe_hasMore = False\<rparr>, s1))"
proof -
  let ?r = "fp_recipientDID p"
  define s1 where "s1 = mem_ack ?r (or_else (fp_ack p) []) s"
  define waiting where "waiting = filter (\<lambda>m. past_cursor (fp_after p) (sm_sequenceID m)) (inbox s1 ?r)"
  define page where "page = (case fp_limit p of None \<Rightarrow> waiting | Some n \<Rightarrow> take n waiting)"
  have inv1: "mem_inv s1" unfolding s1_def by (rule mem_ack_effect [OF assms])
  have rest: "filter (\<lambda>m. past_cursor (Some (sm_sequenceID (last page))) (sm_sequenceID m)) (inbox s1 ?r) =
      drop (length page) waiting" if "page \<noteq> []"
  proof -
    have "\<exists>k. page = take k waiting"
      by (cases "fp_limit p") (auto simp: page_def intro: exI [of _ "length waiting"])
    then obtain k where k: "page = take k waiting" ..
    have sorted: "sorted_wrt (<) (map sm_sequenceID waiting)"
      using inbox_ids(2) [OF inv1, of ?r] by (simp add: waiting_def sorted_wrt_map sorted_wrt_filter)
    have "filter (\<lambda>m. sm_sequenceID (last page) < sm_sequenceID m) waiting = drop (length page) waiting"
      by (rule sorted_prefix_last [OF sorted k that])
    moreover have "filter (\<lambda>m. sm_sequenceID (last page) < sm_sequenceID m) waiting =
        filter (\<lambda>m. sm_sequenceID (last page) < sm_sequenceID m) (inbox s1 ?r)"
    proof -
      have "last page \<in> set waiting" using that k by (metis last_in_set in_set_takeD)
      then have "past_cursor (fp_after p) (sm_sequenceID m)" if "sm_sequenceID (last page) < sm_sequenceID m" for m
        using that by (auto simp: waiting_def past_cursor_def split: option.splits)
      then show ?thesis by (auto simp: waiting_def intro: filter_cong)
    qed
    ultimately show ?thesis by (simp add: past_cursor_def)
  qed
  have len: "drop (length page) waiting = [] \<longleftrightarrow> page = waiting"
    by (auto simp: page_def split: option.split)
  have "last (drop (length page) waiting) = last waiting" if "page \<noteq> waiting"
    using that len by (simp add: last_drop)
  then have "mem_fetch (p\<lparr>fp_after := Some (sm_sequenceID (last page)), fp_limit := None, fp_ack := None\<rparr>) s1 =
      (\<lparr>fe_messages = drop (length page) waiting,
        fe_cursor = (if page = waiting then None else Some (sm_sequenceID (last waiting))),
        fe_hasMore = False\<rparr>, s1)" if "page \<noteq> []"
    using mem_fetch_page [OF inv1, of "p\<lparr>fp_after := Some (sm_sequenceID (last page)), fp_limit := None, fp_ack := None\<rparr>"]
      rest [OF that] len by (simp add: mem_ack_def)
  moreover have "mem_fetch p s = (\<lparr>fe_messages = page,
      fe_cursor = (if page = [] then None else Some (sm_sequenceID (last page))), fe_hasMore = (page \<noteq> waiting)\<rparr>, s1)"
    unfolding page_def waiting_def s1_def by (rule mem_fetch_page [OF assms])
  ultimately show ?thesis
    unfolding Let_def s1_def [symmetric] waiting_def [symmetric] page_def [symmetric]
    by (cases "page = []") (simp_all only: simp_thms if_True if_False)
qed

theorem memory_fetch_pages_witness:
  "mem_fetch \<lparr>fp_recipientDID = ''did:b'', fp_after = None, fp_limit = Some 1, fp_ack = None\<rparr> after_first =
     (\<lparr>fe_messages = [log_frame first_frame q1], fe_cursor = Some q1, fe_hasMore = False\<rparr>, after_first)"
proof -
  have inbox: "inbox after_first ''did:b'' = [log_frame first_frame q1]"
    by (simp add: inbox_def after_first_state asStoredMessage_def log_frame_def first_frame_def frame_of_def)
  show ?thesis
    using memory_fetch_pages [OF mem.run_from_init_keeps(1) [OF run_first after_first_room],
      of "\<lparr>fp_recipientDID = ''did:b'', fp_after = None, fp_limit = Some 1, fp_ack = None\<rparr>"]
    by (simp add: mem_ack_def inbox past_cursor_def Let_def) (simp add: log_frame_def)
qed

section \<open>Acks\<close>

lemma isLogEntry_ids: "mem_keys s \<Longrightarrow> isLogEntry s q \<longleftrightarrow> q \<in> set (ids (\<lambda>e. le_retain e = RLog) s)"
  by (simp add: isLogEntry_iff ids_mem)

lemma dropDelivery_isLog:
  assumes "mem_keys s"
  shows "isLogEntry (dropDelivery r q s) i = isLogEntry s i"
proof -
  let ?u = "undeliver r q s"
  have keys: "mem_keys ?u" "mem_keys (removeEntry q ?u)" using assms by (simp_all add: hub_intros)
  have same: "ids (\<lambda>e. le_retain e = RLog) ?u = ids (\<lambda>e. le_retain e = RLog) s"
    by (rule ids_undeliver) simp
  have "q \<notin> set (ids (\<lambda>e. le_retain e = RLog) s)"
    if "map_of (ms_entries s) q = Some e" "le_retain e = RMailbox" for e
    using that mem_keys_unique [OF assms] by (force simp: ids_mem mem_keys_entry [OF assms])
  then show ?thesis
    by (auto simp: dropDelivery_undeliver [OF assms] isLogEntry_ids [OF keys(1)] isLogEntry_ids [OF keys(2)]
        isLogEntry_ids [OF assms] same hub_simps split: option.split)
qed

lemma dropDelivery_deliveries:
  assumes inv: "mem_inv s"
  shows "or_else (ms_deliveries (dropDelivery r q s) d) [] =
    (if d = r then filter (\<lambda>i. i \<noteq> q) (or_else (ms_deliveries s d) []) else or_else (ms_deliveries s d) [])"
proof -
  let ?u = "undeliver r q s" and ?P = "\<lambda>e. d \<in> set (le_pendingFor e)"
  have keys: "mem_keys s" and index: "mem_index s" using inv by (simp_all add: mem_inv_def)
  have dist: "distinct (or_else (ms_deliveries s d) [])"
    using index ids_distinct [OF keys] by (simp add: mem_index_def)
  have u: "ids ?P ?u = (if d = r then filter (\<lambda>i. i \<noteq> q) (or_else (ms_deliveries s d) []) else or_else (ms_deliveries s d) [])"
  proof -
    have "ids ?P ?u = or_else (ms_deliveries ?u d) []"
      using undeliver_index [OF keys index] by (simp add: mem_index_def)
    then show ?thesis
      using remove1_filter_neq [OF dist] by (auto simp: undeliver_def splice_slot_def split: option.splits)
  qed
  have drop: "or_else (ms_deliveries (dropDelivery r q s) d) [] = ids ?P (dropDelivery r q s)"
    using dropDelivery_inv [OF inv] by (simp add: mem_inv_def mem_index_def)
  have "q \<notin> set (or_else (ms_deliveries s d) [])"
    if e: "map_of (ms_entries s) q = Some e" "remove1 r (le_pendingFor e) = []" and "d \<noteq> r" for e
  proof -
    have "d \<notin> set (le_pendingFor e)" using e(2) \<open>d \<noteq> r\<close> by (metis in_set_remove1 list.set(1) empty_iff)
    moreover have "e' = e" if "(q, e') \<in> set (ms_entries s)" for e'
      using that e(1) mem_keys_entry [OF keys, of q e'] by simp
    ultimately show ?thesis using index by (auto simp: mem_index_def ids_mem)
  qed
  then have "filter (\<lambda>i. i \<noteq> q) (ids ?P ?u) = ids ?P ?u"
    if "map_of (ms_entries s) q = Some e" "remove1 r (le_pendingFor e) = []" for e
    using that u by (cases "d = r") (auto simp: filter_id_conv)
  then show ?thesis
    unfolding drop using u by (auto simp: dropDelivery_undeliver [OF keys] ids_removeEntry split: option.split)
qed

lemma ack_deliveries:
  "mem_inv s \<Longrightarrow> or_else (ms_deliveries (mem_ack r qs s) d) [] =
     (if d = r then filter (\<lambda>i. i \<notin> set qs) (or_else (ms_deliveries s d) []) else or_else (ms_deliveries s d) [])"
proof (induction qs arbitrary: s)
  case (Cons q qs)
  have "filter (\<lambda>i. i \<noteq> q \<and> i \<notin> set qs) xs = filter (\<lambda>i. i \<notin> set (q # qs)) xs" for xs :: "string list"
    by (rule filter_cong) auto
  with Cons.IH [OF dropDelivery_inv [OF Cons.prems]] dropDelivery_deliveries [OF Cons.prems]
  show ?case by (simp add: mem_ack_def conj_commute)
qed (simp add: mem_ack_def)

lemma ack_isLog: "mem_inv s \<Longrightarrow> isLogEntry (mem_ack r qs s) i = isLogEntry s i"
  by (induction qs arbitrary: s)
    (simp_all add: mem_ack_def dropDelivery_inv dropDelivery_isLog mem_inv_def [THEN iffD1])

text \<open>What an invariant state stores: the log frames, and the mailbox frames somebody has still to read.\<close>

lemma stored_iff:
  assumes "mem_inv s"
  shows "q \<in> fst ` set (ms_entries s) \<longleftrightarrow>
    isLogEntry s q \<or> (\<exists>d. q \<in> set (or_else (ms_deliveries s d) []))"
proof -
  have keys: "mem_keys s" and index: "mem_index s" and mail: "mem_mail s"
    using assms by (simp_all add: mem_inv_def)
  have "\<exists>d. q \<in> set (or_else (ms_deliveries s d) [])" if e: "(q, e) \<in> set (ms_entries s)" "le_retain e = RMailbox" for e
  proof -
    obtain d where "d \<in> set (le_pendingFor e)" using mail e by (fastforce simp: mem_mail_def)
    with e index show ?thesis by (auto simp: mem_index_def ids_mem)
  qed
  then have "q \<in> fst ` set (ms_entries s)  \<Longrightarrow>
      isLogEntry s q \<or> (\<exists>d. q \<in> set (or_else (ms_deliveries s d) []))"
    by (auto simp: isLogEntry_iff [OF keys]) (metis RetentionClass.exhaust)
  moreover have "q \<in> set (or_else (ms_deliveries s d) []) \<Longrightarrow> q \<in> fst ` set (ms_entries s)" for d
    using index by (auto simp: mem_index_def ids_def)
  moreover have "isLogEntry s q \<Longrightarrow> q \<in> fst ` set (ms_entries s)"
    by (auto simp: isLogEntry_iff [OF keys] rev_image_eqI)
  ultimately show ?thesis by blast
qed

text \<open>
  An ack is the recipient's own: it takes exactly the named frames off that recipient's pending
  list and off no other's; a log frame is never freed by it, and a mailbox frame is freed exactly
  when no recipient has it pending any more.
\<close>

theorem memory_ack_isolated:
  assumes "mem_inv s"
  shows "or_else (ms_deliveries (mem_ack r qs s) d) [] =
      (if d = r then filter (\<lambda>q. q \<notin> set qs) (or_else (ms_deliveries s d) []) else or_else (ms_deliveries s d) []) \<and>
    mem_log (mem_ack r qs s) t = mem_log s t \<and>
    (q \<in> fst ` set (ms_entries (mem_ack r qs s)) \<longleftrightarrow>
       isLogEntry s q \<or> (\<exists>d. q \<in> set (or_else (ms_deliveries (mem_ack r qs s) d) [])))"
  using ack_deliveries [OF assms] mem_ack_effect [OF assms] ack_isLog [OF assms]
    stored_iff [OF mem_ack_effect(1) [OF assms]] by simp

theorem memory_ack_isolated_witness:
  "or_else (ms_deliveries (mem_ack ''did:b'' [q1] after_first) ''did:b'') [] = [] \<and>
    q1 \<in> fst ` set (ms_entries (mem_ack ''did:b'' [q1] after_first))"
  using memory_ack_isolated [OF mem.run_from_init_keeps(1) [OF run_first after_first_room],
      of "''did:b''" "[q1]" "''did:b''" "''t''" q1]
  by (simp add: after_first_state isLogEntry_def)

section \<open>The age bound\<close>

lemma fold_longest:
  fixes r :: int
  shows "r \<le> fold (\<lambda>(_, x) r. if x > r then x else r) xs r"
    and "(d, x) \<in> set xs \<Longrightarrow> x \<le> fold (\<lambda>(_, x) r. if x > r then x else r) xs r"
proof -
  have base: "r \<le> fold (\<lambda>(_, x) r. if x > r then x else r) xs r" for r :: int and xs :: "('a \<times> int) list"
  proof (induction xs arbitrary: r)
    case (Cons p xs)
    show ?case using Cons [of "if snd p > r then snd p else r"] by (auto split: prod.split if_splits)
  qed simp
  show "r \<le> fold (\<lambda>(_, x) r. if x > r then x else r) xs r" by (rule base)
  show "(d, x) \<in> set xs \<Longrightarrow> x \<le> fold (\<lambda>(_, x) r. if x > r then x else r) xs r"
  proof (induction xs arbitrary: r)
    case (Cons p xs)
    show ?case
    proof (cases "p = (d, x)")
      case True
      with base [of "if x > r then x else r" xs] show ?thesis by (auto split: if_splits)
    next
      case False
      with Cons show ?thesis by (cases p) auto
    qed
  qed simp
qed

lemma retentionOf_longest:
  "floor \<le> retentionOf opts s t floor" "mo_defaultRetention opts \<le> retentionOf opts s t floor"
  "(d, x) \<in> set (or_else (ms_subscriptions s t) []) \<Longrightarrow> x \<le> retentionOf opts s t floor"
  using fold_longest [where r = "max floor (mo_defaultRetention opts)" and xs = "or_else (ms_subscriptions s t) []"]
  by (auto simp: retentionOf_def)

lemma purge_scan_kept:
  assumes "(q, e) \<in> set es" and "distinct (map fst es)" and "q \<notin> set (purge_scan ret now es rt)"
  shows "now - ret (le_topicID e) * 1000 < le_storedAt e \<or>
    (le_retain e = RLog \<and> (le_topicID e \<in> set rt \<or>
      (\<exists>q0 e0. (q0, e0) \<in> set es \<and> is_log_of (le_topicID e) e0 \<and>
         q0 \<notin> set (purge_scan ret now es rt) \<and> now - ret (le_topicID e) * 1000 < le_storedAt e0)))"
  using assms
proof (induction ret now es rt rule: purge_scan.induct)
  case (2 ret now i x es rt)
  have sub: "i \<notin> set (purge_scan ret now es rt')" for rt'
    using "2.prems"(2) purge_scan_sub [of ret now es rt'] by auto
  show ?case
  proof (cases "(q, e) = (i, x)")
    case True
    with "2.prems" show ?thesis by (auto split: if_splits)
  next
    case False
    with "2.prems" have e: "(q, e) \<in> set es" "distinct (map fst es)" by auto
    consider (kept) "le_retain x = RLog \<and> le_topicID x \<in> set rt"
      | (gone) "\<not> (le_retain x = RLog \<and> le_topicID x \<in> set rt)" "le_storedAt x \<le> now - ret (le_topicID x) * 1000"
      | (young) "\<not> (le_retain x = RLog \<and> le_topicID x \<in> set rt)" "now - ret (le_topicID x) * 1000 < le_storedAt x"
      by linarith
    then show ?thesis
    proof cases
      case kept
      with "2.IH"(1) [OF kept e] "2.prems"(3) show ?thesis by auto
    next
      case gone
      have scan: "purge_scan ret now ((i, x) # es) rt = i # purge_scan ret now es rt"
        using gone by simp
      have "q0 \<noteq> i" if "(q0, e0) \<in> set es" for q0 e0 using that "2.prems"(2) by force
      moreover have "q \<notin> set (purge_scan ret now es rt)" using "2.prems"(3) unfolding scan by simp
      note "2.IH"(2) [OF gone e this]
      ultimately show ?thesis unfolding scan by auto
    next
      case young
      show ?thesis
      proof (cases "le_retain x = RLog")
        case True
        with young "2.IH"(3) [OF young(1) _ True e] "2.prems"(3) sub [of "le_topicID x # rt"]
        show ?thesis by (auto simp: is_log_of_def) blast
      next
        case False
        with young "2.IH"(4) [OF young(1) _ False e] "2.prems"(3) show ?thesis by auto
      qed
    qed
  qed
qed simp

text \<open>
  A purge keeps the retention it promised: every frame it removes is older than the sweep's own
  bound, than the hub's default and than what each subscriber of its topic asked for; every mailbox
  frame it leaves is younger than the topic's bound, and every log frame it leaves has a frame of its
  log at or before it that is, so that a log only loses a prefix. Nothing but the removed frames goes,
  and no head or publish record changes.
\<close>

theorem memory_purge_retention:
  assumes "mem_inv s" and "mem_purge opts now olderThan s = (gone, s')"
  shows "ms_entries s' = filter (\<lambda>(q, _). q \<notin> set gone) (ms_entries s) \<and>
    ms_heads s' = ms_heads s \<and> ms_publishRecords s' = ms_publishRecords s \<and>
    (\<forall>q \<in> set gone. \<exists>e. (q, e) \<in> set (ms_entries s) \<and> le_storedAt e + olderThan * 1000 \<le> now \<and>
       le_storedAt e + mo_defaultRetention opts * 1000 \<le> now \<and>
       (\<forall>(d, r) \<in> set (or_else (ms_subscriptions s (le_topicID e)) []). le_storedAt e + r * 1000 \<le> now)) \<and>
    (\<forall>(q, e) \<in> set (ms_entries s'). now < le_storedAt e + retentionOf opts s (le_topicID e) olderThan * 1000 \<or>
       (le_retain e = RLog \<and> (\<exists>(q0, e0) \<in> set (ms_entries s'). is_log_of (le_topicID e) e0 \<and>
          now < le_storedAt e0 + retentionOf opts s (le_topicID e) olderThan * 1000)))"
proof -
  have gone: "gone = purge_scan (\<lambda>t. retentionOf opts s t olderThan) now (ms_entries s) []"
    and s': "s' = fold removeEntry gone s"
    using assms(2) by (auto simp: mem_purge_fold purged_ids_def)
  have entries: "ms_entries s' = filter (\<lambda>p. fst p \<notin> set gone) (ms_entries s)"
    by (simp add: s' fold_removeEntry_frame)
  have dist: "distinct (map fst (ms_entries s))"
    using assms(1) by (simp add: mem_inv_def mem_keys_distinct)
  have "\<exists>e. (q, e) \<in> set (ms_entries s) \<and> le_storedAt e + olderThan * 1000 \<le> now \<and>
      le_storedAt e + mo_defaultRetention opts * 1000 \<le> now \<and>
      (\<forall>(d, r) \<in> set (or_else (ms_subscriptions s (le_topicID e)) []). le_storedAt e + r * 1000 \<le> now)"
    if q: "q \<in> set gone" for q
  proof -
    obtain e where e: "(q, e) \<in> set (ms_entries s)"
        "le_storedAt e \<le> now - retentionOf opts s (le_topicID e) olderThan * 1000"
      using purge_scan_aged [OF q [unfolded gone]] by blast
    have "le_storedAt e + r * 1000 \<le> now" if "r \<le> retentionOf opts s (le_topicID e) olderThan" for r
      using e(2) that by linarith
    then show ?thesis using e(1) retentionOf_longest by blast
  qed
  moreover have "now < le_storedAt e + retentionOf opts s (le_topicID e) olderThan * 1000 \<or>
      (le_retain e = RLog \<and> (\<exists>(q0, e0) \<in> set (ms_entries s'). is_log_of (le_topicID e) e0 \<and>
         now < le_storedAt e0 + retentionOf opts s (le_topicID e) olderThan * 1000))"
    if "(q, e) \<in> set (ms_entries s')" for q e
    using purge_scan_kept [OF _ dist, of q e "\<lambda>t. retentionOf opts s t olderThan" now "[]", folded gone] that
    by (force simp: entries)
  ultimately show ?thesis
    by (auto simp: entries s' fold_removeEntry_frame case_prod_unfold)
qed

theorem memory_purge_retention_witness:
  "fst (mem_purge default_options 5000 3 after_first) = [q1] \<and>
    ms_entries (snd (mem_purge default_options 5000 3 after_first)) = []"
proof -
  have gone: "fst (mem_purge default_options 5000 3 after_first) = [q1]"
    by (simp add: mem_purge_def Let_def after_first_state joined_state createMemoryStore_def retentionOf_def default_options_def)
  have "mem_purge default_options 5000 3 after_first = ([q1], snd (mem_purge default_options 5000 3 after_first))"
    using gone by (metis prod.collapse)
  from memory_purge_retention [OF mem.run_from_init_keeps(1) [OF run_first after_first_room] this] gone
  show ?thesis by (simp add: after_first_state)
qed

section \<open>One-time key packages\<close>

lemma serve_packages_spec:
  "serve_packages nowS n es = (served, rest) \<Longrightarrow>
     served = map kp_keyPackage (take n (filter (\<lambda>e. isLive e nowS) es)) \<and>
     filter (\<lambda>e. isLive e nowS) rest = drop n (filter (\<lambda>e. isLive e nowS) es)"
proof (induction nowS n es arbitrary: served rest rule: serve_packages.induct)
  case (2 nowS n e es)
  show ?case
  proof (cases "n = 0")
    case False
    show ?thesis
    proof (cases "isLive e nowS")
      case True
      obtain served' where rec: "serve_packages nowS (n - 1) es = (served', rest)" "served = kp_keyPackage e # served'"
        using 2(3) False True by (auto split: prod.splits)
      obtain m where "n = Suc m" using False by (cases n) auto
      with "2.IH"(1) [OF False True rec(1)] rec(2) True show ?thesis
        by simp
    next
      case False
      with 2(3) \<open>n \<noteq> 0\<close> have "serve_packages nowS n es = (served, rest)" by simp
      with "2.IH"(2) [OF \<open>n \<noteq> 0\<close> False] False show ?thesis by auto
    qed
  qed (use 2 in auto)
qed auto

text \<open>
  A one-time key package is handed out at most once, oldest first, and never after it expired:
  a fetch of \<open>n\<close> serves the first \<open>n\<close> live packages of the owner and leaves exactly the
  others to be served, so that the count of live packages drops by what was served. No other
  owner's pool changes.
\<close>

theorem memory_keyPackages_consumed:
  "let live = (\<lambda>s. filter (\<lambda>e. isLive e (nowSeconds now)) (or_else (ms_keyPackages s owner) []));
       (served, s') = mem_fetchKeyPackages now owner n s
   in served = map kp_keyPackage (take (or_else n 1) (live s)) \<and>
      live s' = drop (or_else n 1) (live s) \<and>
      mem_countKeyPackages now owner s' = mem_countKeyPackages now owner s - length served \<and>
      ms_keyPackages s' = (ms_keyPackages s)(owner := ms_keyPackages s' owner)"
proof (cases "ms_keyPackages s owner")
  case None
  then show ?thesis by (simp add: mem_fetchKeyPackages_def mem_countKeyPackages_def fun_upd_idem)
next
  case (Some packages)
  obtain served rest where serve: "serve_packages (nowSeconds now) (or_else n 1) packages = (served, rest)"
    by fastforce
  from serve_packages_spec [OF serve] Some serve show ?thesis
    by (simp add: mem_fetchKeyPackages_def mem_countKeyPackages_def Let_def)
qed

section \<open>Caps\<close>

text \<open>What the host's limits bound.\<close>

definition mem_caps :: "MemoryStoreOptions \<Rightarrow> mem_store \<Rightarrow> bool" where
  "mem_caps opts s \<longleftrightarrow>
     (\<forall>d. length (or_else (ms_keyPackages s d) []) \<le> mo_maxKeyPackagesPerDID opts) \<and>
     (\<forall>d. length (or_else (ms_subsByDID s d) []) \<le> mo_maxSubscriptionsPerDID opts) \<and>
     (\<forall>t. \<forall>(d, r) \<in> set (or_else (ms_subscriptions s t) []). \<not> exceeds r (mo_maxRetention opts))"

lemma mem_caps_frame:
  assumes "mem_caps opts s" and "ms_keyPackages s' = ms_keyPackages s"
    and "ms_subsByDID s' = ms_subsByDID s" and "ms_subscriptions s' = ms_subscriptions s"
  shows "mem_caps opts s'"
  using assms by (simp add: mem_caps_def)

lemma depthEvict_frame:
  assumes "\<And>q s. f (removeEntry q s) = f s"
  shows "f (depthEvict m t d s) = f s"
  by (induction m t d s rule: depthEvict.induct) (simp_all add: assms split: option.split)

lemma drop_frame:
  assumes "\<And>q s. f (dropDelivery r q s) = f s"
  shows "f (fold (dropDelivery r) qs s) = f s"
  by (induction qs arbitrary: s) (simp_all add: assms)

lemma remove_frame:
  assumes "\<And>q s. f (removeEntry q s) = f s"
  shows "f (fold removeEntry qs s) = f s"
  by (induction qs arbitrary: s) (simp_all add: assms)

lemma mem_accept_caps: "mem_caps opts s \<Longrightarrow> mem_caps opts (mem_accept opts now p s)"
proof (erule mem_caps_frame)
  have mint: "ms_keyPackages (mem_mint p s) = ms_keyPackages s" "ms_subsByDID (mem_mint p s) = ms_subsByDID s"
    by (simp_all add: mem_mint_def Let_def)
  have push: "ms_keyPackages (pushEntry e s) = ms_keyPackages s" for e s
    by (simp add: pushEntry_def Let_def)
  show "ms_keyPackages (mem_accept opts now p s) = ms_keyPackages s"
    using depthEvict_frame [of ms_keyPackages] by (simp add: mem_accept_def appendEntry_def Let_def hub_simps mint push)
  show "ms_subsByDID (mem_accept opts now p s) = ms_subsByDID s"
    using depthEvict_frame [of ms_subsByDID] by (simp add: mem_accept_def appendEntry_def Let_def hub_simps mint)
  show "ms_subscriptions (mem_accept opts now p s) = ms_subscriptions s"
    using depthEvict_frame [of ms_subscriptions] by (simp add: mem_accept_def appendEntry_def Let_def hub_simps mint)
qed

lemma subscribe_caps:
  assumes "mem_caps opts s"
  shows "mem_caps opts (snd (mem_subscribe opts p s))"
proof -
  let ?req = "or_else (sp_retention p) (mo_defaultRetention opts)"
  have "\<not> exceeds r (mo_maxRetention opts)"
    if r: "(d, r) \<in> set (AList.update (sp_subscriberDID p) ?req (or_else (ms_subscriptions s t) []))"
      and ok: "\<not> exceeds ?req (mo_maxRetention opts)" for d r t
  proof -
    have "set (AList.update k v xs) \<subseteq> insert (k, v) (set xs)" for k v and xs :: "(did \<times> int) list"
      by (induction xs) auto
    with r have "r = ?req \<or> (d, r) \<in> set (or_else (ms_subscriptions s t) [])" by fastforce
    with assms ok show ?thesis by (auto simp: mem_caps_def)
  qed
  with assms show ?thesis
    by (auto simp: mem_subscribe_def mem_caps_def Let_def List.insert_def)
qed

lemma unsubscribe_fold_frame:
  assumes "\<And>q s. f (dropDelivery d q s) = f s"
  shows "f (fold (\<lambda>q s'. case map_of (ms_entries s') q of None \<Rightarrow> s'
      | Some e \<Rightarrow> if le_topicID e = t then dropDelivery d q s' else s') qs s) = f s"
  by (induction qs arbitrary: s) (simp_all add: assms split: option.split)

lemma unsubscribe_state:
  "ms_keyPackages (mem_unsubscribe d t s) = ms_keyPackages s"
  "ms_subscriptions (mem_unsubscribe d t s) = (case ms_subscriptions s t of None \<Rightarrow> ms_subscriptions s
     | Some m \<Rightarrow> (ms_subscriptions s)(t := nonempty_slot (AList.delete d m)))"
  "ms_subsByDID (mem_unsubscribe d t s) = (case ms_subsByDID s d of None \<Rightarrow> ms_subsByDID s
     | Some ts \<Rightarrow> (ms_subsByDID s)(d := nonempty_slot (remove1 t ts)))"
  using unsubscribe_fold_frame [of ms_keyPackages d, OF dropDelivery_frame(6)]
    unsubscribe_fold_frame [of ms_subscriptions d, OF dropDelivery_frame(4)]
    unsubscribe_fold_frame [of ms_subsByDID d, OF dropDelivery_frame(5)]
  by (simp_all add: mem_unsubscribe_def Let_def)

lemma unsubscribe_caps:
  assumes "mem_caps opts s"
  shows "mem_caps opts (mem_unsubscribe d t s)"
proof -
  have "length (or_else (ms_subsByDID (mem_unsubscribe d t s) d') []) \<le> length (or_else (ms_subsByDID s d') [])" for d'
    by (auto simp: unsubscribe_state length_remove1 split: option.split)
  moreover have "set (or_else (ms_subscriptions (mem_unsubscribe d t s) t') []) \<subseteq> set (or_else (ms_subscriptions s t') [])" for t'
    by (auto simp: unsubscribe_state AList_delete_filter split: option.split)
  ultimately show ?thesis
    using assms unfolding mem_caps_def unsubscribe_state(1) by (meson le_trans subsetD)
qed

lemma mem_maintain_caps:
  assumes "mem_caps opts s"
  shows "mem_caps opts (mem_maintain opts op s)"
proof (cases op)
  case (OpSubscribe p)
  with subscribe_caps [OF assms] show ?thesis by simp
next
  case (OpUnsubscribe d t)
  with unsubscribe_caps [OF assms] show ?thesis by simp
next
  case (OpStoreKeyPackage now owner kp na)
  have "length (filter (\<lambda>e. isLive e (nowSeconds now)) (or_else (ms_keyPackages s owner) [])) \<le> mo_maxKeyPackagesPerDID opts"
    using assms length_filter_le le_trans unfolding mem_caps_def by blast
  with OpStoreKeyPackage assms show ?thesis
    by (auto simp: mem_storeKeyPackage_def mem_caps_def Let_def)
next
  case (OpFetchKeyPackages now owner n)
  have "length (snd (serve_packages nowS k es)) \<le> length es" for nowS k es
    by (induction nowS k es rule: serve_packages.induct) (auto split: prod.split)
  with OpFetchKeyPackages assms show ?thesis
    by (auto simp: mem_fetchKeyPackages_def mem_caps_def Let_def split: option.split prod.split)
      (metis le_trans or_else_simps(2) snd_conv)
next
  case (OpFetch p)
  with assms show ?thesis
    by (auto simp: mem_fetch_state mem_ack_def hub_simps intro!: mem_caps_frame [OF assms] drop_frame)
next
  case (OpAck r qs)
  with assms show ?thesis
    by (auto simp: mem_ack_def hub_simps intro!: mem_caps_frame [OF assms] drop_frame)
next
  case (OpPurge now olderThan)
  with assms show ?thesis
    by (auto simp: mem_purge_fold hub_simps intro!: mem_caps_frame [OF assms] remove_frame)
next
  case (OpTrim t before)
  with assms show ?thesis
    by (auto simp: mem_trim_def hub_simps split: option.split intro!: mem_caps_frame [OF assms] fold_cond_frame)
next
  case (OpStoreLastResort owner kp)
  with assms show ?thesis
    by (auto simp: mem_storeLastResortKeyPackage_def intro!: mem_caps_frame [OF assms])
qed

text \<open>
  A host's caps hold in every reachable state: no owner has more stored key packages and no
  subscriber more topics than allowed, and no topic has a subscription whose retention is over the ceiling,
  so that no member can pin a topic's frames longer than the host said.
\<close>

theorem memory_caps_hold:
  assumes "mem_run opts createMemoryStore no_history s H" and "mem_room s"
  shows "mem_caps opts s"
  using assms
proof (induction rule: mem_run_induct)
  case init
  show ?case by (simp add: mem_caps_def createMemoryStore_def)
qed (simp_all add: mem_accept_caps mem_maintain_caps)

theorem memory_caps_hold_witness: "mem_caps default_options after_first"
  by (rule memory_caps_hold [OF run_first after_first_room])

end
