(* ===== verification/SQL_Store.thy ===== *)
theory SQL_Store
  imports Hub_Protocol
begin

text \<open>
  The durable store of \<^verbatim>\<open>packages/hub-store/src/store.ts\<close> over the tables of \<^verbatim>\<open>tables.ts\<close>. A table is
  the list of its rows in insertion order and a statement is what SQL defines it to be on that list:
  \<^verbatim>\<open>where\<close> filters, \<^verbatim>\<open>order by\<close> sorts, \<^verbatim>\<open>limit\<close> takes, \<^verbatim>\<open>returning\<close> yields the rows touched. A transaction
  that throws gives back the tables it started from.
\<close>

section \<open>Tables\<close>

record hub_messages_row =
  hm_sequence_id :: sequence_id
  hm_sender_did :: did
  hm_topic_id :: topic_id
  hm_payload :: bytes
  hm_stored_at :: int
  hm_retain :: RetentionClass

record hub_deliveries_row =
  hd_sequence_id :: sequence_id
  hd_recipient_did :: did

record hub_key_packages_row =
  hk_id :: nat
  hk_owner_did :: did
  hk_key_package :: string
  hk_not_after :: "int option"

record hub_last_resort_row =
  hl_owner_did :: did
  hl_key_package :: string

record hub_subscriptions_row =
  hs_topic_id :: topic_id
  hs_subscriber_did :: did
  hs_last_active_at :: int
  hs_retention :: int

record hub_topics_row =
  ht_topic_id :: topic_id
  ht_head :: sequence_id
  ht_removed_through :: "sequence_id option"

record hub_publish_ids_row =
  hp_topic_id :: topic_id
  hp_publish_id :: string
  hp_sequence_id :: "sequence_id option"
  hp_recorded_at :: int

text \<open>\<^verbatim>\<open>hub_sequence\<close> is its one row's counter; the serial of \<^verbatim>\<open>hub_key_packages\<close> is the last id drawn.\<close>

record hub_db =
  hub_messages :: "hub_messages_row list"
  hub_deliveries :: "hub_deliveries_row list"
  hub_key_packages :: "hub_key_packages_row list"
  hub_key_packages_serial :: nat
  hub_last_resort_key_packages :: "hub_last_resort_row list"
  hub_subscriptions :: "hub_subscriptions_row list"
  hub_topics :: "hub_topics_row list"
  hub_sequence :: nat
  hub_publish_ids :: "hub_publish_ids_row list"

text \<open>The tables the migration \<^verbatim>\<open>0-init\<close> leaves.\<close>

definition hubStoreMigrations :: hub_db where
  "hubStoreMigrations = \<lparr>hub_messages = [], hub_deliveries = [], hub_key_packages = [],
     hub_key_packages_serial = 0, hub_last_resort_key_packages = [], hub_subscriptions = [],
     hub_topics = [], hub_sequence = 0, hub_publish_ids = []\<rparr>"

record HubStoreOptions =
  so_defaultRetention :: int
  so_maxRetention :: "int option"
  so_maxDepth :: "nat option"
  so_maxKeyPackagesPerDID :: nat
  so_maxSubscriptionsPerDID :: nat

definition default_store_options :: HubStoreOptions where
  "default_store_options = \<lparr>so_defaultRetention = 0, so_maxRetention = Some (30 * 24 * 60 * 60),
     so_maxDepth = Some 1000, so_maxKeyPackagesPerDID = 100, so_maxSubscriptionsPerDID = 1000\<rparr>"

definition PUBLISH_ID_RETENTION_SECONDS :: int where
  "PUBLISH_ID_RETENTION_SECONDS = 365 * 24 * 60 * 60"

definition DELETE_CHUNK_SIZE :: nat where
  "DELETE_CHUNK_SIZE = 500"

text \<open>\<^verbatim>\<open>fn.min\<close> over a column: null on no rows.\<close>

fun sql_min :: "'a::linorder list \<Rightarrow> 'a option" where
  "sql_min [] = None"
| "sql_min (x # xs) = Some (fold min xs x)"

text \<open>
  The store runs its bodies through \<^verbatim>\<open>withStoreTransaction\<close> of \<^verbatim>\<open>@hozon/db\<close>, which is not in this repository. What
  the store relies on is the contract of a database transaction: the body's tables when it returns, the old
  ones when it throws. That the old tables stay is this contract and no result about the code.
\<close>

definition withStoreTransaction ::
    "(hub_db \<Rightarrow> (js_error + 'r) \<times> hub_db) \<Rightarrow> hub_db \<Rightarrow> (js_error + 'r) \<times> hub_db" where
  "withStoreTransaction body db = (case body db of
       (Inl e, _) \<Rightarrow> (Inl e, db)
     | (Inr r, db') \<Rightarrow> (Inr r, db'))"

section \<open>Statements shared by the operations\<close>

definition delete_chunk :: "sequence_id list \<Rightarrow> hub_db \<Rightarrow> hub_db" where
  "delete_chunk chunk db =
     db\<lparr>hub_deliveries := filter (\<lambda>d. hd_sequence_id d \<notin> set chunk) (hub_deliveries db),
        hub_messages := filter (\<lambda>m. hm_sequence_id m \<notin> set chunk) (hub_messages db)\<rparr>"

function deleteFrames :: "sequence_id list \<Rightarrow> hub_db \<Rightarrow> hub_db" where
  "deleteFrames sequenceIDs db =
     (if sequenceIDs = [] then db
      else deleteFrames (drop DELETE_CHUNK_SIZE sequenceIDs)
             (delete_chunk (take DELETE_CHUNK_SIZE sequenceIDs) db))"
  by pat_completeness auto
termination
  by (relation "measure (length \<circ> fst)") (auto simp: DELETE_CHUNK_SIZE_def)

declare deleteFrames.simps [simp del]

definition advanceRemovedThrough :: "topic_id \<Rightarrow> sequence_id \<Rightarrow> hub_db \<Rightarrow> hub_db" where
  "advanceRemovedThrough topicID q db = db\<lparr>hub_topics := map (\<lambda>row.
       if ht_topic_id row = topicID \<and>
          (case ht_removed_through row of None \<Rightarrow> True | Some r \<Rightarrow> r < q)
       then row\<lparr>ht_removed_through := Some q\<rparr> else row) (hub_topics db)\<rparr>"

definition topic_row :: "topic_id \<Rightarrow> hub_db \<Rightarrow> hub_topics_row option" where
  "topic_row topicID db = find (\<lambda>row. ht_topic_id row = topicID) (hub_topics db)"

definition lockTopic :: "topic_id \<Rightarrow> hub_db \<Rightarrow> sequence_id option" where
  "lockTopic topicID db = map_option ht_head (topic_row topicID db)"

definition nextSequenceID :: "hub_db \<Rightarrow> sequence_id \<times> hub_db" where
  "nextSequenceID db =
     (formatSequenceID (Suc (hub_sequence db)), db\<lparr>hub_sequence := Suc (hub_sequence db)\<rparr>)"

text \<open>The topic's log-class rows that meet a condition, in position order.\<close>

definition log_rows :: "topic_id \<Rightarrow> (hub_messages_row \<Rightarrow> bool) \<Rightarrow> hub_db \<Rightarrow> hub_messages_row list" where
  "log_rows topicID P db = sort_key hm_sequence_id
     (filter (\<lambda>m. hm_topic_id m = topicID \<and> hm_retain m = RLog \<and> P m) (hub_messages db))"

definition evictDepth :: "HubStoreOptions \<Rightarrow> topic_id \<Rightarrow> hub_db \<Rightarrow> hub_db" where
  "evictDepth opts topicID db = (case so_maxDepth opts of
       None \<Rightarrow> db
     | Some maxDepth \<Rightarrow>
         let logRows = log_rows topicID (\<lambda>_. True) db
         in if length logRows \<le> maxDepth then db
            else let evict = map hm_sequence_id (take (length logRows - maxDepth) logRows)
                 in advanceRemovedThrough topicID (last evict) (deleteFrames evict db))"

section \<open>Publish\<close>

text \<open>Claiming the publish id: the row inserted, or the one that was there.\<close>

definition claim_row :: "topic_id \<Rightarrow> string \<Rightarrow> hub_db \<Rightarrow> hub_publish_ids_row option" where
  "claim_row topicID publishID db =
     find (\<lambda>r. hp_topic_id r = topicID \<and> hp_publish_id r = publishID) (hub_publish_ids db)"

definition claim_publish_id :: "int \<Rightarrow> topic_id \<Rightarrow> string \<Rightarrow> hub_db \<Rightarrow> hub_publish_ids_row option \<times> hub_db" where
  "claim_publish_id now topicID publishID db = (case claim_row topicID publishID db of
       Some existing \<Rightarrow> (Some existing, db)
     | None \<Rightarrow> (None, db\<lparr>hub_publish_ids := hub_publish_ids db @
         [\<lparr>hp_topic_id = topicID, hp_publish_id = publishID, hp_sequence_id = None, hp_recorded_at = now\<rparr>]\<rparr>))"

text \<open>The append of an accepted publish, with a delivery row per recipient.\<close>

definition append_message :: "int \<Rightarrow> PublishParams \<Rightarrow> sequence_id \<Rightarrow> hub_db \<Rightarrow> hub_db" where
  "append_message now p q db =
     (let recipients = filter (\<lambda>d. d \<noteq> pp_senderDID p) (map hs_subscriber_did
            (filter (\<lambda>r. hs_topic_id r = pp_topicID p) (hub_subscriptions db)))
      in if retain_of p = RLog \<or> recipients \<noteq> []
         then db\<lparr>hub_messages := hub_messages db @
                   [\<lparr>hm_sequence_id = q, hm_sender_did = pp_senderDID p, hm_topic_id = pp_topicID p,
                     hm_payload = pp_payload p, hm_stored_at = now, hm_retain = retain_of p\<rparr>],
                 hub_deliveries := hub_deliveries db @
                   map (\<lambda>d. \<lparr>hd_sequence_id = q, hd_recipient_did = d\<rparr>) recipients\<rparr>
         else db)"

text \<open>
  The head write of a log publish. It is conditional on the expected head, and matching no row is a lost
  race.
\<close>

definition insert_topic :: "topic_id \<Rightarrow> sequence_id \<Rightarrow> hub_db \<Rightarrow> hub_db" where
  "insert_topic topicID q db = db\<lparr>hub_topics := hub_topics db @
     [\<lparr>ht_topic_id = topicID, ht_head = q, ht_removed_through = None\<rparr>]\<rparr>"

definition set_head :: "topic_id \<Rightarrow> sequence_id \<Rightarrow> hub_db \<Rightarrow> hub_db" where
  "set_head topicID q db = db\<lparr>hub_topics := map (\<lambda>row.
     if ht_topic_id row = topicID then row\<lparr>ht_head := q\<rparr> else row) (hub_topics db)\<rparr>"

definition advance_head :: "PublishParams \<Rightarrow> sequence_id \<Rightarrow> hub_db \<Rightarrow> (js_error + unit) \<times> hub_db" where
  "advance_head p q db =
     (let t = pp_topicID p
      in case pp_expectedHead p of
           None \<Rightarrow> (Inr (), if topic_row t db = None then insert_topic t q db else set_head t q db)
         | Some None \<Rightarrow>
             if topic_row t db = None then (Inr (), insert_topic t q db)
             else (Inl (HubError HeadMismatchError
                     ''head mismatch: expected null, a concurrent publish set the head first''), db)
         | Some (Some h) \<Rightarrow>
             if lockTopic t db = Some h then (Inr (), set_head t q db)
             else (Inl (HubError HeadMismatchError
                     (''head mismatch: expected '' @ h @ '', a concurrent publish advanced it'')), db))"

definition complete_claim :: "topic_id \<Rightarrow> string \<Rightarrow> sequence_id \<Rightarrow> hub_db \<Rightarrow> hub_db" where
  "complete_claim topicID publishID q db = db\<lparr>hub_publish_ids := map (\<lambda>r.
     if hp_topic_id r = topicID \<and> hp_publish_id r = publishID then r\<lparr>hp_sequence_id := Some q\<rparr> else r)
     (hub_publish_ids db)\<rparr>"

text \<open>
  The steps after the claim. \<open>currentHead\<close> is what the transaction's first read of the head returned,
  which under a concurrent writer may not be the head the write meets.
\<close>

definition publish_claimed ::
    "HubStoreOptions \<Rightarrow> int \<Rightarrow> PublishParams \<Rightarrow> sequence_id option \<Rightarrow> hub_db \<Rightarrow> (js_error + PublishResult) \<times> hub_db" where
  "publish_claimed opts now p currentHead db =
     (if pp_expectedHead p \<noteq> None \<and> currentHead \<noteq> the (pp_expectedHead p)
      then (Inl (HubError HeadMismatchError (''head mismatch: expected '' @ show_head (the (pp_expectedHead p)) @
              '', current '' @ show_head currentHead)), db)
      else
        let (q, db1) = nextSequenceID db;
            db2 = append_message now p q db1;
            (moved, db3) = (if retain_of p = RLog then advance_head p q db2 else (Inr (), db2))
        in case moved of
             Inl e \<Rightarrow> (Inl e, db3)
           | Inr _ \<Rightarrow>
               let db4 = (if retain_of p = RLog then evictDepth opts (pp_topicID p) db3 else db3);
                   db5 = (case pp_publishID p of
                       None \<Rightarrow> db4
                     | Some i \<Rightarrow> complete_claim (pp_topicID p) i q db4)
               in (Inr \<lparr>pr_sequenceID = q, pr_deduped = False\<rparr>, db5))"

definition publish_body ::
    "HubStoreOptions \<Rightarrow> int \<Rightarrow> PublishParams \<Rightarrow> sequence_id option \<Rightarrow> hub_db \<Rightarrow> (js_error + PublishResult) \<times> hub_db" where
  "publish_body opts now p currentHead db = (case pp_publishID p of
       None \<Rightarrow> publish_claimed opts now p currentHead db
     | Some i \<Rightarrow> (case claim_publish_id now (pp_topicID p) i db of
           (Some existing, db1) \<Rightarrow> (case hp_sequence_id existing of
               None \<Rightarrow> (Inl (OtherError ''Incomplete publish-id record''), db1)
             | Some q \<Rightarrow> (Inr \<lparr>pr_sequenceID = q, pr_deduped = True\<rparr>, db1))
         | (None, db1) \<Rightarrow> publish_claimed opts now p currentHead db1))"

definition sql_publish ::
    "HubStoreOptions \<Rightarrow> int \<Rightarrow> PublishParams \<Rightarrow> hub_db \<Rightarrow> (js_error + PublishResult) \<times> hub_db" where
  "sql_publish opts now p db =
     withStoreTransaction (publish_body opts now p (lockTopic (pp_topicID p) db)) db"

section \<open>Reading\<close>

definition as_message :: "hub_messages_row \<Rightarrow> StoredMessage" where
  "as_message row = \<lparr>sm_sequenceID = hm_sequence_id row, sm_senderDID = hm_sender_did row,
     sm_topicID = hm_topic_id row, sm_payload = hm_payload row,
     sm_logPosition = (if hm_retain row = RLog then Some (hm_sequence_id row) else None)\<rparr>"

text \<open>GC of fully acked mailbox frames, shared by \<^verbatim>\<open>ack\<close> and \<^verbatim>\<open>unsubscribe\<close>.\<close>

definition drop_deliveries :: "did \<Rightarrow> sequence_id list \<Rightarrow> hub_db \<Rightarrow> hub_db" where
  "drop_deliveries recipientDID sequenceIDs db =
     (let db1 = db\<lparr>hub_deliveries := filter (\<lambda>d. \<not> (hd_recipient_did d = recipientDID \<and>
              hd_sequence_id d \<in> set sequenceIDs)) (hub_deliveries db)\<rparr>;
          stillDelivered = map hd_sequence_id
            (filter (\<lambda>d. hd_sequence_id d \<in> set sequenceIDs) (hub_deliveries db1));
          fullyAcked = filter (\<lambda>q. q \<notin> set stillDelivered) sequenceIDs
      in if fullyAcked = [] then db1
         else db1\<lparr>hub_messages := filter (\<lambda>m. \<not> (hm_sequence_id m \<in> set fullyAcked \<and>
                hm_retain m = RMailbox)) (hub_messages db1)\<rparr>)"

definition sql_ack :: "did \<Rightarrow> sequence_id list \<Rightarrow> hub_db \<Rightarrow> hub_db" where
  "sql_ack recipientDID sequenceIDs db =
     (if sequenceIDs = [] then db else drop_deliveries recipientDID sequenceIDs db)"

text \<open>The rows of \<^verbatim>\<open>hub_deliveries\<close> joined with their messages, for one recipient.\<close>

definition delivered_rows :: "did \<Rightarrow> hub_db \<Rightarrow> hub_messages_row list" where
  "delivered_rows recipientDID db = concat (map (\<lambda>d.
     filter (\<lambda>m. hm_sequence_id m = hd_sequence_id d) (hub_messages db))
     (filter (\<lambda>d. hd_recipient_did d = recipientDID) (hub_deliveries db)))"

definition sql_fetch :: "FetchParams \<Rightarrow> hub_db \<Rightarrow> FetchResult \<times> hub_db" where
  "sql_fetch p db =
     (let db1 = (case fp_ack p of None \<Rightarrow> db | Some qs \<Rightarrow> if qs \<noteq> [] then sql_ack (fp_recipientDID p) qs db else db);
          all = sort_key hm_sequence_id (delivered_rows (fp_recipientDID p) db1);
          past = (case fp_after p of None \<Rightarrow> all | Some a \<Rightarrow> filter (\<lambda>m. a < hm_sequence_id m) all);
          rows = (case fp_limit p of None \<Rightarrow> past | Some n \<Rightarrow> take (n + 1) past);
          hasMore = (case fp_limit p of None \<Rightarrow> False | Some n \<Rightarrow> n < length rows);
          resultRows = (case fp_limit p of None \<Rightarrow> rows | Some n \<Rightarrow> if n < length rows then take n rows else rows);
          messages = map as_message resultRows
      in (\<lparr>fe_messages = messages,
           fe_cursor = (if messages = [] then None else Some (sm_sequenceID (last messages))),
           fe_hasMore = hasMore\<rparr>, db1))"

definition sql_isSubscriber :: "hub_db \<Rightarrow> topic_id \<Rightarrow> did \<Rightarrow> bool" where
  "sql_isSubscriber db topicID d =
     (\<exists>r \<in> set (hub_subscriptions db). hs_topic_id r = topicID \<and> hs_subscriber_did r = d)"

definition sql_fetchTopic :: "FetchTopicParams \<Rightarrow> hub_db \<Rightarrow> js_error + FetchTopicResult" where
  "sql_fetchTopic p db =
     (let t = ft_topicID p
      in if \<not> sql_isSubscriber db t (ft_subscriberDID p)
         then Inl (HubError NotSubscribedError (ft_subscriberDID p @ '' is not subscribed to '' @ t))
         else
           let head = map_option ht_head (topic_row t db);
               removedThrough = Option.bind (topic_row t db) ht_removed_through;
               oldest = sql_min (map hm_sequence_id
                 (filter (\<lambda>m. hm_topic_id m = t \<and> hm_retain m = RLog) (hub_messages db)));
               past = log_rows t (\<lambda>m. case ft_after p of None \<Rightarrow> True | Some a \<Rightarrow> a < hm_sequence_id m) db;
               rows = (case ft_limit p of None \<Rightarrow> past | Some n \<Rightarrow> take n past)
           in Inr \<lparr>fr_messages = map as_message rows, fr_head = head, fr_oldest = oldest,
                fr_gap = (case removedThrough of None \<Rightarrow> False
                  | Some r \<Rightarrow> (case ft_after p of None \<Rightarrow> True | Some a \<Rightarrow> a < r))\<rparr>)"

section \<open>Removal\<close>

definition trim_body :: "topic_id \<Rightarrow> sequence_id \<Rightarrow> hub_db \<Rightarrow> (js_error + unit) \<times> hub_db" where
  "trim_body topicID before db =
     (let sequenceIDs = map hm_sequence_id (log_rows topicID (\<lambda>m. hm_sequence_id m < before) db)
      in if sequenceIDs = [] then (Inr (), db)
         else (Inr (), advanceRemovedThrough topicID (last sequenceIDs) (deleteFrames sequenceIDs db)))"

definition sql_trim :: "topic_id \<Rightarrow> sequence_id \<Rightarrow> hub_db \<Rightarrow> (js_error + unit) \<times> hub_db" where
  "sql_trim topicID before db = withStoreTransaction (trim_body topicID before) db"

text \<open>The frames one topic's sweep removes, in position order.\<close>

definition purge_frames :: "topic_id \<Rightarrow> int \<Rightarrow> hub_db \<Rightarrow> hub_messages_row list" where
  "purge_frames topicID threshold db =
     (let head = lockTopic topicID db;
          firstKept = sql_min (map hm_sequence_id (filter (\<lambda>m. hm_topic_id m = topicID \<and>
            hm_retain m = RLog \<and> threshold < hm_stored_at m) (hub_messages db)))
      in sort_key hm_sequence_id (filter (\<lambda>m. hm_topic_id m = topicID \<and>
           (hm_retain m = RMailbox \<and> hm_stored_at m \<le> threshold \<or>
            (case head of
               None \<Rightarrow> False
             | Some h \<Rightarrow> hm_retain m = RLog \<and> hm_sequence_id m \<le> h \<and>
                 (case firstKept of None \<Rightarrow> True | Some k \<Rightarrow> hm_sequence_id m < k))))
           (hub_messages db)))"

definition purge_topic :: "topic_id \<Rightarrow> int \<Rightarrow> hub_db \<Rightarrow> (js_error + sequence_id list) \<times> hub_db" where
  "purge_topic topicID threshold db =
     (let frames = purge_frames topicID threshold db; frameIDs = map hm_sequence_id frames
      in if frames = [] then (Inr [], db)
         else
           let db1 = deleteFrames frameIDs db
           in (Inr frameIDs, case filter (\<lambda>m. hm_retain m = RLog) frames of
                   [] \<Rightarrow> db1
                 | logs \<Rightarrow> advanceRemovedThrough topicID (hm_sequence_id (last logs)) db1))"

text \<open>\<^verbatim>\<open>max(retention)\<close> over the topic's current subscribers, 0 when there are none.\<close>

definition subscriber_retention :: "topic_id \<Rightarrow> hub_db \<Rightarrow> int" where
  "subscriber_retention topicID db =
     (case map hs_retention (filter (\<lambda>r. hs_topic_id r = topicID) (hub_subscriptions db)) of
        [] \<Rightarrow> 0
      | r # rs \<Rightarrow> fold max rs r)"

definition purge_threshold :: "HubStoreOptions \<Rightarrow> int \<Rightarrow> int \<Rightarrow> hub_db \<Rightarrow> topic_id \<Rightarrow> int" where
  "purge_threshold opts now olderThan db topicID =
     now - max (max olderThan (subscriber_retention topicID db)) (so_defaultRetention opts) * 1000"

fun purge_topics ::
    "(topic_id \<Rightarrow> int) \<Rightarrow> topic_id list \<Rightarrow> hub_db \<Rightarrow> (js_error + sequence_id list) \<times> hub_db" where
  "purge_topics threshold [] db = (Inr [], db)"
| "purge_topics threshold (t # ts) db =
     (case withStoreTransaction (purge_topic t (threshold t)) db of
        (Inl e, db1) \<Rightarrow> (Inl e, db1)
      | (Inr ids, db1) \<Rightarrow>
          (case purge_topics threshold ts db1 of
             (Inl e, db2) \<Rightarrow> (Inl e, db2)
           | (Inr removed, db2) \<Rightarrow> (Inr (ids @ removed), db2)))"

definition sql_purge :: "HubStoreOptions \<Rightarrow> int \<Rightarrow> int \<Rightarrow> hub_db \<Rightarrow> (js_error + sequence_id list) \<times> hub_db" where
  "sql_purge opts now olderThan db =
     (let db1 = db\<lparr>hub_publish_ids := filter (\<lambda>r. \<not> hp_recorded_at r \<le> now - PUBLISH_ID_RETENTION_SECONDS * 1000)
            (hub_publish_ids db)\<rparr>;
          topics = sort (remdups (map hm_topic_id (hub_messages db1)))
      in case purge_topics (purge_threshold opts now olderThan db1) topics db1 of
           (Inl e, db2) \<Rightarrow> (Inl e, db2)
         | (Inr removed, db2) \<Rightarrow> (Inr (sort removed), db2))"

definition purgeSubscriptions :: "int \<Rightarrow> int \<Rightarrow> hub_db \<Rightarrow> (topic_id \<times> did) list \<times> hub_db" where
  "purgeSubscriptions now olderThan db =
     (let stale = (\<lambda>r. hs_last_active_at r < now - olderThan * 1000)
      in (map (\<lambda>r. (hs_topic_id r, hs_subscriber_did r)) (filter stale (hub_subscriptions db)),
          db\<lparr>hub_subscriptions := filter (\<lambda>r. \<not> stale r) (hub_subscriptions db)\<rparr>))"

section \<open>Subscriptions\<close>

definition sql_subscribe :: "HubStoreOptions \<Rightarrow> int \<Rightarrow> SubscribeParams \<Rightarrow> hub_db \<Rightarrow> (js_error + unit) \<times> hub_db" where
  "sql_subscribe opts now p db =
     (let d = sp_subscriberDID p; t = sp_topicID p;
          retention = or_else (sp_retention p) (so_defaultRetention opts);
          held = filter (\<lambda>r. hs_subscriber_did r = d) (hub_subscriptions db);
          row = \<lparr>hs_topic_id = t, hs_subscriber_did = d, hs_last_active_at = now, hs_retention = retention\<rparr>
      in if sp_retention p \<noteq> None \<and> exceeds (the (sp_retention p)) (so_maxRetention opts)
         then (Inl (HubError RetentionExceededError (''requested retention '' @ show_int (the (sp_retention p)) @
                '' exceeds the hub maximum '' @ show_int (the (so_maxRetention opts)))), db)
         else if \<not> (\<exists>r \<in> set held. hs_topic_id r = t) \<and> so_maxSubscriptionsPerDID opts \<le> length held
         then (Inl (HubError SubscriptionQuotaExceededError (''DID '' @ d @ '' exceeds the maximum of '' @
                show_nat (so_maxSubscriptionsPerDID opts) @ '' subscriptions'')), db)
         else (Inr (), db\<lparr>hub_subscriptions :=
                if \<exists>r \<in> set held. hs_topic_id r = t
                then map (\<lambda>r. if hs_topic_id r = t \<and> hs_subscriber_did r = d then row else r) (hub_subscriptions db)
                else hub_subscriptions db @ [row]\<rparr>))"

definition sql_unsubscribe :: "did \<Rightarrow> topic_id \<Rightarrow> hub_db \<Rightarrow> hub_db" where
  "sql_unsubscribe d topicID db =
     (let db1 = db\<lparr>hub_subscriptions := filter (\<lambda>r. \<not> (hs_topic_id r = topicID \<and> hs_subscriber_did r = d))
            (hub_subscriptions db)\<rparr>;
          sequenceIDs = map hm_sequence_id (filter (\<lambda>m. hm_topic_id m = topicID) (delivered_rows d db1))
      in if sequenceIDs = [] then db1 else drop_deliveries d sequenceIDs db1)"

definition sql_getSubscribers :: "topic_id \<Rightarrow> hub_db \<Rightarrow> did list" where
  "sql_getSubscribers topicID db =
     map hs_subscriber_did (filter (\<lambda>r. hs_topic_id r = topicID) (hub_subscriptions db))"

section \<open>Key packages\<close>

definition seconds_of :: "int \<Rightarrow> int" where
  "seconds_of now = now div 1000"

definition deleteExpiredKeyPackages :: "int \<Rightarrow> did \<Rightarrow> hub_db \<Rightarrow> hub_db" where
  "deleteExpiredKeyPackages now owner db = db\<lparr>hub_key_packages := filter (\<lambda>r. \<not> (hk_owner_did r = owner \<and>
     (case hk_not_after r of None \<Rightarrow> False | Some n \<Rightarrow> n \<le> seconds_of now))) (hub_key_packages db)\<rparr>"

definition sql_storeKeyPackage ::
    "HubStoreOptions \<Rightarrow> int \<Rightarrow> did \<Rightarrow> string \<Rightarrow> int option \<Rightarrow> hub_db \<Rightarrow> (js_error + unit) \<times> hub_db" where
  "sql_storeKeyPackage opts now owner kp notAfter db =
     (let db1 = deleteExpiredKeyPackages now owner db
      in if so_maxKeyPackagesPerDID opts \<le> length (filter (\<lambda>r. hk_owner_did r = owner) (hub_key_packages db1))
         then (Inl (HubError KeyPackageQuotaExceededError (''DID '' @ owner @ '' exceeds the maximum of '' @
                show_nat (so_maxKeyPackagesPerDID opts) @ '' stored key packages'')), db1)
         else (Inr (), db1\<lparr>hub_key_packages_serial := Suc (hub_key_packages_serial db1),
                hub_key_packages := hub_key_packages db1 @
                  [\<lparr>hk_id = Suc (hub_key_packages_serial db1), hk_owner_did = owner, hk_key_package = kp,
                    hk_not_after = notAfter\<rparr>]\<rparr>))"

definition sql_fetchKeyPackages :: "int \<Rightarrow> did \<Rightarrow> nat option \<Rightarrow> hub_db \<Rightarrow> string list \<times> hub_db" where
  "sql_fetchKeyPackages now owner count db =
     (let db1 = deleteExpiredKeyPackages now owner db;
          served = map hk_id (take (or_else count 1)
            (sort_key hk_id (filter (\<lambda>r. hk_owner_did r = owner) (hub_key_packages db1))))
      in (map hk_key_package (filter (\<lambda>r. hk_id r \<in> set served) (hub_key_packages db1)),
          db1\<lparr>hub_key_packages := filter (\<lambda>r. hk_id r \<notin> set served) (hub_key_packages db1)\<rparr>))"

definition sql_countKeyPackages :: "int \<Rightarrow> did \<Rightarrow> hub_db \<Rightarrow> nat" where
  "sql_countKeyPackages now owner db = length (filter (\<lambda>r. hk_owner_did r = owner \<and>
     (case hk_not_after r of None \<Rightarrow> True | Some n \<Rightarrow> seconds_of now < n)) (hub_key_packages db))"

definition sql_storeLastResortKeyPackage :: "did \<Rightarrow> string \<Rightarrow> hub_db \<Rightarrow> hub_db" where
  "sql_storeLastResortKeyPackage owner kp db = db\<lparr>hub_last_resort_key_packages :=
     if \<exists>r \<in> set (hub_last_resort_key_packages db). hl_owner_did r = owner
     then map (\<lambda>r. if hl_owner_did r = owner then r\<lparr>hl_key_package := kp\<rparr> else r) (hub_last_resort_key_packages db)
     else hub_last_resort_key_packages db @ [\<lparr>hl_owner_did = owner, hl_key_package = kp\<rparr>]\<rparr>"

definition sql_fetchLastResortKeyPackage :: "did \<Rightarrow> hub_db \<Rightarrow> string option" where
  "sql_fetchLastResortKeyPackage owner db =
     map_option hl_key_package (find (\<lambda>r. hl_owner_did r = owner) (hub_last_resort_key_packages db))"

end
