(* ===== verification/SQL_Inv.thy ===== *)
theory SQL_Inv
  imports SQL_Store Hub_Contract
begin

text \<open>
  The invariant of the SQL store's tables and its preservation by every statement group. One lemma,
  \<open>sweep_effect\<close>, carries the three removals of log frames (depth, trim, age): each deletes a set of
  frames of one topic that is closed downwards in its log, and moves the topic's watermark to the
  last one.
\<close>

section \<open>The invariant\<close>

definition is_log_row :: "topic_id \<Rightarrow> hub_messages_row \<Rightarrow> bool" where
  "is_log_row t m \<longleftrightarrow> hm_topic_id m = t \<and> hm_retain m = RLog"

definition sql_rows :: "hub_db \<Rightarrow> bool" where
  "sql_rows db \<longleftrightarrow> sorted_wrt (<) (map hm_sequence_id (hub_messages db)) \<and>
     (\<forall>m \<in> set (hub_messages db). minted (hub_sequence db) (hm_sequence_id m))"

definition sql_topics :: "hub_db \<Rightarrow> bool" where
  "sql_topics db \<longleftrightarrow> distinct (map ht_topic_id (hub_topics db)) \<and>
     (\<forall>row \<in> set (hub_topics db). minted (hub_sequence db) (ht_head row) \<and>
        (\<forall>r. ht_removed_through row = Some r \<longrightarrow> minted (hub_sequence db) r \<and>
           (\<forall>m \<in> set (hub_messages db). is_log_row (ht_topic_id row) m \<longrightarrow> r < hm_sequence_id m))) \<and>
     (\<forall>m \<in> set (hub_messages db). hm_retain m = RLog \<longrightarrow>
        (\<exists>row \<in> set (hub_topics db). ht_topic_id row = hm_topic_id m \<and> hm_sequence_id m \<le> ht_head row))"

definition sql_claims :: "hub_db \<Rightarrow> bool" where
  "sql_claims db \<longleftrightarrow> distinct (map (\<lambda>r. (hp_topic_id r, hp_publish_id r)) (hub_publish_ids db)) \<and>
     (\<forall>r \<in> set (hub_publish_ids db). hp_sequence_id r \<noteq> None)"

definition sql_deliveries :: "hub_db \<Rightarrow> bool" where
  "sql_deliveries db \<longleftrightarrow> distinct (hub_deliveries db) \<and>
     hd_sequence_id ` set (hub_deliveries db) \<subseteq> hm_sequence_id ` set (hub_messages db) \<and>
     (\<forall>m \<in> set (hub_messages db). hm_retain m = RMailbox \<longrightarrow>
        hm_sequence_id m \<in> hd_sequence_id ` set (hub_deliveries db))"

definition sql_members :: "hub_db \<Rightarrow> bool" where
  "sql_members db \<longleftrightarrow> distinct (map (\<lambda>r. (hs_topic_id r, hs_subscriber_did r)) (hub_subscriptions db))"

text \<open>The claims of publish ids are incomplete inside a publish; the rest holds at every statement.\<close>

definition sql_core :: "hub_db \<Rightarrow> bool" where
  "sql_core db \<longleftrightarrow> sql_rows db \<and> sql_topics db \<and> sql_deliveries db \<and> sql_members db"

definition sql_inv :: "hub_db \<Rightarrow> bool" where
  "sql_inv db \<longleftrightarrow> sql_core db \<and> sql_claims db"

lemmas sql_inv_defs = sql_inv_def sql_core_def sql_rows_def sql_topics_def sql_claims_def sql_deliveries_def sql_members_def

definition sql_log :: "hub_db \<Rightarrow> topic_id \<Rightarrow> StoredMessage list" where
  "sql_log db t = map as_message (filter (is_log_row t) (hub_messages db))"

definition sql_head :: "hub_db \<Rightarrow> topic_id \<Rightarrow> sequence_id option" where
  "sql_head db t = map_option ht_head (topic_row t db)"

definition sql_removed :: "hub_db \<Rightarrow> topic_id \<Rightarrow> sequence_id option" where
  "sql_removed db t = Option.bind (topic_row t db) ht_removed_through"

definition sql_recorded :: "hub_db \<Rightarrow> topic_id \<Rightarrow> string \<Rightarrow> sequence_id option" where
  "sql_recorded db t i = Option.bind (claim_row t i db) hp_sequence_id"

lemma migrated_inv: "sql_inv hubStoreMigrations"
  by (simp add: sql_inv_defs hubStoreMigrations_def)

section \<open>Rows and queries\<close>

lemma find_unique_key:
  assumes "distinct (map f xs)" and "x \<in> set xs" and "\<And>y. P y \<longleftrightarrow> f y = f x"
  shows "find P xs = Some x"
  using assms
proof (induction xs)
  case (Cons y xs)
  show ?case
  proof (cases "y = x")
    case False
    with Cons.prems have "f y \<noteq> f x" by auto
    with False Cons show ?thesis by simp
  qed (simp add: Cons.prems(3))
qed simp

lemma find_Some_mem: "find P xs = Some x \<Longrightarrow> x \<in> set xs \<and> P x"
  by (auto simp: find_Some_iff)

lemma topic_row_iff:
  assumes "sql_topics db"
  shows "topic_row t db = Some row \<longleftrightarrow> row \<in> set (hub_topics db) \<and> ht_topic_id row = t"
proof
  assume "row \<in> set (hub_topics db) \<and> ht_topic_id row = t"
  then show "topic_row t db = Some row"
    unfolding topic_row_def using assms
    by (intro find_unique_key [where f = ht_topic_id]) (auto simp: sql_topics_def)
qed (auto simp: topic_row_def dest: find_Some_mem)

lemma topic_row_None: "topic_row t db = None \<longleftrightarrow> t \<notin> ht_topic_id ` set (hub_topics db)"
  by (auto simp: topic_row_def find_None_iff)

lemma find_map_key:
  assumes "\<And>x. P (f x) = P x"
  shows "find P (map f xs) = map_option f (find P xs)"
  using assms by (induction xs) auto

lemma sorted_log_rows:
  assumes "sql_rows db"
  shows "sorted_wrt (<) (map hm_sequence_id (filter P (hub_messages db)))"
  using assms by (simp add: sql_rows_def sorted_wrt_map sorted_wrt_filter)

lemma strict_sorted_sort_key:
  "sorted_wrt (<) (map f xs) \<Longrightarrow> sort_key f xs = (xs :: 'a list)" for f :: "'a \<Rightarrow> 'b::linorder"
  by (rule sort_key_id_if_sorted) (simp add: strict_sorted_imp_sorted)

lemma log_rows_eq:
  "sql_rows db \<Longrightarrow> log_rows t P db = filter P (filter (is_log_row t) (hub_messages db))"
  by (simp add: log_rows_def strict_sorted_sort_key sorted_log_rows is_log_row_def conj_assoc)

lemma sql_min_hd:
  assumes "sorted_wrt (<) xs"
  shows "sql_min xs = (case xs of [] \<Rightarrow> None | x # _ \<Rightarrow> Some x)"
proof (cases xs)
  case (Cons x ys)
  have "fold min ys x = x" if "\<forall>y \<in> set ys. x < y" for ys and x :: 'a
    using that by (induction ys) (simp_all add: min.absorb2 less_imp_le)
  with Cons assms show ?thesis by simp
qed simp

lemma delete_chunk_append: "delete_chunk ys (delete_chunk xs db) = delete_chunk (xs @ ys) db"
  by (simp add: delete_chunk_def conj_commute cong: filter_cong)

text \<open>Chunking is only about parameter limits: the effect is one delete of the whole list.\<close>

lemma deleteFrames_all: "deleteFrames qs db = delete_chunk qs db"
proof (induction qs db rule: deleteFrames.induct)
  case (1 qs db)
  show ?case
  proof (cases "qs = []")
    case True
    then show ?thesis by (subst deleteFrames.simps) (simp add: delete_chunk_def)
  next
    case False
    with 1 show ?thesis by (subst deleteFrames.simps) (simp add: delete_chunk_append)
  qed
qed

section \<open>Removing a prefix of a log\<close>

lemma closed_split:
  assumes "sorted_wrt (<) (map f ms)"
    and "\<And>m m'. m \<in> set ms \<Longrightarrow> m' \<in> set ms \<Longrightarrow> f m \<in> D \<Longrightarrow> f m' < f m \<Longrightarrow> f m' \<in> D"
  shows "\<exists>k \<le> length ms. filter (\<lambda>m. f m \<in> D) ms = take k ms \<and> filter (\<lambda>m. f m \<notin> D) ms = drop k ms"
  using assms
proof (induction ms)
  case (Cons m ms)
  show ?case
  proof (cases "f m \<in> D")
    case True
    have "sorted_wrt (<) (map f ms)" using Cons.prems(1) by simp
    moreover have "f m'' \<in> D" if "m' \<in> set ms" "m'' \<in> set ms" "f m' \<in> D" "f m'' < f m'" for m' m''
      using Cons.prems(2) [of m' m''] that by simp
    ultimately obtain k where "k \<le> length ms" "filter (\<lambda>m. f m \<in> D) ms = take k ms" "filter (\<lambda>m. f m \<notin> D) ms = drop k ms"
      using Cons.IH by blast
    with True show ?thesis by (intro exI [of _ "Suc k"]) simp
  next
    case False
    have "f m' \<notin> D" if "m' \<in> set ms" for m'
    proof
      assume "f m' \<in> D"
      moreover have "f m < f m'" using Cons.prems(1) that by simp
      ultimately have "f m \<in> D" using Cons.prems(2) [of m' m] that by simp
      with False show False by contradiction
    qed
    with False show ?thesis by (intro exI [of _ 0]) (auto simp: filter_empty_conv filter_id_conv)
  qed
qed simp

definition sweepable :: "topic_id \<Rightarrow> sequence_id set \<Rightarrow> hub_db \<Rightarrow> bool" where
  "sweepable t D db \<longleftrightarrow>
     (\<forall>m \<in> set (hub_messages db). hm_sequence_id m \<in> D \<longrightarrow> hm_topic_id m = t) \<and>
     (\<forall>m \<in> set (hub_messages db). \<forall>m' \<in> set (hub_messages db). is_log_row t m \<and> is_log_row t m' \<and>
        hm_sequence_id m \<in> D \<and> hm_sequence_id m' < hm_sequence_id m \<longrightarrow> hm_sequence_id m' \<in> D)"

lemma sweepable_topic:
  "sweepable t D db \<Longrightarrow> m \<in> set (hub_messages db) \<Longrightarrow> hm_sequence_id m \<in> D \<Longrightarrow> hm_topic_id m = t"
  unfolding sweepable_def by blast

definition swept_logs :: "topic_id \<Rightarrow> sequence_id list \<Rightarrow> hub_db \<Rightarrow> hub_messages_row list" where
  "swept_logs t D db = filter (\<lambda>m. hm_sequence_id m \<in> set D) (filter (is_log_row t) (hub_messages db))"

definition sweep :: "topic_id \<Rightarrow> sequence_id list \<Rightarrow> hub_db \<Rightarrow> hub_db" where
  "sweep t D db = (if swept_logs t D db = [] then delete_chunk D db
     else advanceRemovedThrough t (hm_sequence_id (last (swept_logs t D db))) (delete_chunk D db))"

lemma sweep_frame [hub_simps]:
  "hub_messages (sweep t D db) = filter (\<lambda>m. hm_sequence_id m \<notin> set D) (hub_messages db)"
  "hub_deliveries (sweep t D db) = filter (\<lambda>d. hd_sequence_id d \<notin> set D) (hub_deliveries db)"
  "hub_sequence (sweep t D db) = hub_sequence db"
  "hub_publish_ids (sweep t D db) = hub_publish_ids db"
  "hub_subscriptions (sweep t D db) = hub_subscriptions db"
  "hub_key_packages (sweep t D db) = hub_key_packages db"
  by (simp_all add: sweep_def delete_chunk_def advanceRemovedThrough_def)

text \<open>What the watermark update does to one row.\<close>

definition watermark :: "topic_id \<Rightarrow> sequence_id \<Rightarrow> hub_topics_row \<Rightarrow> hub_topics_row" where
  "watermark t q row = (if ht_topic_id row = t \<and> (case ht_removed_through row of None \<Rightarrow> True | Some r \<Rightarrow> r < q)
     then row\<lparr>ht_removed_through := Some q\<rparr> else row)"

lemma watermark_simps [simp]:
  "ht_topic_id (watermark t q row) = ht_topic_id row" "ht_head (watermark t q row) = ht_head row"
  by (simp_all add: watermark_def)

lemma watermark_removed:
  "ht_removed_through (watermark t q row) = Some r \<Longrightarrow>
     ht_topic_id row = t \<and> r = q \<or> ht_removed_through row = Some r"
  by (auto simp: watermark_def split: if_splits)

lemma sweep_topics: "hub_topics (sweep t D db) = (if swept_logs t D db = [] then hub_topics db
    else map (watermark t (hm_sequence_id (last (swept_logs t D db)))) (hub_topics db))"
  by (simp add: sweep_def delete_chunk_def advanceRemovedThrough_def watermark_def [abs_def])

lemma sweep_topic_row: "topic_row t' (sweep t D db) = (if swept_logs t D db = [] then topic_row t' db
    else map_option (watermark t (hm_sequence_id (last (swept_logs t D db)))) (topic_row t' db))"
  by (simp add: topic_row_def sweep_topics find_map_key)

lemma sweep_head [hub_simps]: "sql_head (sweep t D db) = sql_head db"
  by (rule ext) (simp add: sql_head_def sweep_topic_row option.map_comp o_def)

lemma sweep_pruned:
  assumes inv: "sql_rows db" "sql_topics db" and sw: "sweepable t (set D) db"
  shows "pruned (sql_log db t') (sql_removed db t') (sql_log (sweep t D db) t') (sql_removed (sweep t D db) t')"
proof (cases "t' = t")
  case False
  have "filter (is_log_row t') (filter (\<lambda>m. hm_sequence_id m \<notin> set D) (hub_messages db)) =
      filter (is_log_row t') (hub_messages db)"
    unfolding filter_filter
    by (rule filter_cong [OF refl]) (use sweepable_topic [OF sw] False in \<open>auto simp: is_log_row_def\<close>)
  moreover have "sql_removed (sweep t D db) t' = sql_removed db t'"
  proof (cases "topic_row t' db")
    case (Some row)
    then have "ht_topic_id row = t'" by (simp add: topic_row_iff [OF inv(2)])
    with Some False show ?thesis by (simp add: sql_removed_def sweep_topic_row watermark_def)
  qed (simp add: sql_removed_def sweep_topic_row)
  ultimately show ?thesis by (simp add: sql_log_def hub_simps del: filter_filter)
next
  case True
  let ?L = "filter (is_log_row t) (hub_messages db)"
  have closed: "hm_sequence_id m' \<in> set D"
    if "m \<in> set ?L" "m' \<in> set ?L" "hm_sequence_id m \<in> set D" "hm_sequence_id m' < hm_sequence_id m" for m m'
  proof -
    have "m \<in> set (hub_messages db)" "is_log_row t m" "m' \<in> set (hub_messages db)" "is_log_row t m'"
      using that(1,2) by simp_all
    with sw that(3,4) show ?thesis unfolding sweepable_def by blast
  qed
  have "\<exists>k \<le> length ?L. filter (\<lambda>m. hm_sequence_id m \<in> set D) ?L = take k ?L \<and>
      filter (\<lambda>m. hm_sequence_id m \<notin> set D) ?L = drop k ?L"
    by (rule closed_split [where D = "set D", OF sorted_log_rows [OF inv(1)]]) (rule closed)
  then obtain k where k: "k \<le> length ?L" "swept_logs t D db = take k ?L"
      "filter (\<lambda>m. hm_sequence_id m \<notin> set D) ?L = drop k ?L"
    unfolding swept_logs_def by blast
  have log: "sql_log (sweep t D db) t = drop k (sql_log db t)"
  proof -
    have "sql_log (sweep t D db) t = map as_message (filter (\<lambda>m. hm_sequence_id m \<notin> set D) ?L)"
      by (simp add: sql_log_def hub_simps conj_commute)
    then show ?thesis using k(3) by (simp add: sql_log_def drop_map)
  qed
  have len: "k \<le> length (sql_log db t)" using k(1) by (simp add: sql_log_def)
  show ?thesis
  proof (cases "k = 0")
    case True
    then show ?thesis using log k(2) \<open>t' = t\<close> by (simp add: sql_removed_def sweep_topic_row)
  next
    case False
    let ?m = "last (take k ?L)"
    have "take k ?L \<noteq> []" using False k(1) by auto
    then have m: "?m = ?L ! (k - 1)" using k(1) False by (simp add: last_conv_nth)
    have "?m \<in> set ?L" using last_in_set [OF \<open>take k ?L \<noteq> []\<close>] by (rule in_set_takeD)
    note m = m this
    then obtain row where row: "row \<in> set (hub_topics db)" "ht_topic_id row = t"
      using inv(2) by (auto simp: sql_topics_def is_log_row_def)
    then have "r < hm_sequence_id ?m" if "ht_removed_through row = Some r" for r
      using inv(2) m(2) that unfolding sql_topics_def by fastforce
    moreover have "topic_row t db = Some row" using row by (simp add: topic_row_iff [OF inv(2)])
    ultimately have "sql_removed (sweep t D db) t = Some (hm_sequence_id ?m)"
      using k(2) \<open>take k ?L \<noteq> []\<close> row(2)
      by (auto simp: sql_removed_def sweep_topic_row watermark_def split: option.split)
    moreover have "sm_sequenceID (sql_log db t ! (k - 1)) = hm_sequence_id ?m"
      using m(1) k(1) False by (simp add: sql_log_def as_message_def)
    ultimately show ?thesis
      using log len False \<open>t' = t\<close> unfolding pruned_def by (intro exI [of _ k]) simp
  qed
qed

lemma sweep_topics_inv:
  assumes inv: "sql_rows db" "sql_topics db" and sw: "sweepable t (set D) db"
  shows "sql_topics (sweep t D db)"
proof -
  have sorted: "sorted_wrt (<) (map hm_sequence_id (swept_logs t D db))"
    unfolding swept_logs_def filter_filter by (rule sorted_log_rows [OF inv(1)])
  let ?q = "hm_sequence_id (last (swept_logs t D db))"
  have above: "?q < hm_sequence_id m"
    if ne: "swept_logs t D db \<noteq> []" and m: "m \<in> set (hub_messages db)" "is_log_row t m" "hm_sequence_id m \<notin> set D" for m
  proof -
    have last: "last (swept_logs t D db) \<in> set (hub_messages db)" "is_log_row t (last (swept_logs t D db))"
      "hm_sequence_id (last (swept_logs t D db)) \<in> set D"
      using last_in_set [OF ne] by (auto simp: swept_logs_def)
    with sw m have "\<not> hm_sequence_id m < ?q" unfolding sweepable_def by blast
    moreover have "hm_sequence_id m \<noteq> ?q" using m(3) last(3) by metis
    ultimately show ?thesis by order
  qed
  have "minted (hub_sequence db) ?q" if "swept_logs t D db \<noteq> []"
    using last_in_set [OF that] inv(1) by (auto simp: swept_logs_def sql_rows_def)
  note minted = this
  show ?thesis
  proof (cases "swept_logs t D db = []")
    case True
    with inv(2) show ?thesis by (auto simp: sql_topics_def sweep_topics sweep_frame)
  next
    case False
    have "minted (hub_sequence db) r \<and> (\<forall>m \<in> set (hub_messages db). hm_sequence_id m \<notin> set D \<longrightarrow>
        is_log_row (ht_topic_id row) m \<longrightarrow> r < hm_sequence_id m)"
      if row: "row \<in> set (hub_topics db)" and r: "ht_removed_through (watermark t ?q row) = Some r" for row r
      using watermark_removed [OF r]
    proof
      assume "ht_removed_through row = Some r"
      with inv(2) row show ?thesis by (auto simp: sql_topics_def)
    qed (use above [OF False] minted [OF False] in auto)
    then show ?thesis
      using inv(2) False unfolding sql_topics_def sweep_topics sweep_frame by (simp add: o_def) 
  qed
qed

lemma sweep_core [hub_intros]:
  assumes inv: "sql_core db" and sw: "sweepable t (set D) db"
  shows "sql_core (sweep t D db)"
proof -
  have "sql_topics (sweep t D db)" using sweep_topics_inv inv sw by (simp add: sql_core_def)
  moreover have "sql_rows (sweep t D db)"
    using inv by (simp add: sql_core_def sql_rows_def hub_simps sorted_wrt_map sorted_wrt_filter)
  moreover have "sql_deliveries (sweep t D db)"
    using inv unfolding sql_core_def sql_deliveries_def sweep_frame by (fastforce simp: image_iff subset_iff)
  ultimately show ?thesis
    using inv by (simp add: sql_core_def sql_members_def hub_simps)
qed

section \<open>Depth, trim and age as sweeps\<close>

lemma sorted_append_keys:
  fixes f :: "'a \<Rightarrow> 'b::linorder"
  assumes "sorted_wrt (<) (map f (L @ R))"
  shows "filter (\<lambda>x. f x \<in> f ` set L) (L @ R) = L" and "filter (\<lambda>x. f x \<notin> f ` set L) (L @ R) = R"
    and "m \<in> set L \<Longrightarrow> m' \<in> set (L @ R) \<Longrightarrow> f m' < f m \<Longrightarrow> m' \<in> set L"
proof -
  have less: "f x < f y" if "x \<in> set L" "y \<in> set R" for x y
    using assms that by (auto simp: sorted_wrt_append)
  then have "f y \<notin> f ` set L" if "y \<in> set R" for y using that by force
  then show "filter (\<lambda>x. f x \<in> f ` set L) (L @ R) = L" and "filter (\<lambda>x. f x \<notin> f ` set L) (L @ R) = R"
    by (auto simp: filter_id_conv filter_empty_conv)
  show "m' \<in> set L" if "m \<in> set L" "m' \<in> set (L @ R)" "f m' < f m"
    using that less [of m m'] by auto
qed

lemma log_rows_distinct: "sql_rows db \<Longrightarrow> distinct (map hm_sequence_id (filter P (hub_messages db)))"
  by (rule sorted_wrt_less_distinct [OF sorted_log_rows])

lemma swept_prefix:
  assumes "sql_rows db" and X: "filter (is_log_row t) (hub_messages db) = L @ R"
  shows "swept_logs t (map hm_sequence_id L) db = L" and "sweepable t (set (map hm_sequence_id L)) db"
    and "sql_log (sweep t (map hm_sequence_id L) db) t = map as_message R"
proof -
  have sorted: "sorted_wrt (<) (map hm_sequence_id (L @ R))"
    using sorted_log_rows [OF assms(1), of "is_log_row t"] unfolding X .
  note keys = sorted_append_keys [OF sorted]
  show "swept_logs t (map hm_sequence_id L) db = L"
    unfolding swept_logs_def X using keys(1) by simp
  have "sql_log (sweep t (map hm_sequence_id L) db) t =
      map as_message (filter (\<lambda>m. hm_sequence_id m \<notin> set (map hm_sequence_id L)) (L @ R))"
    unfolding sql_log_def sweep_frame X [symmetric] filter_filter by (simp add: conj_commute)
  then show "sql_log (sweep t (map hm_sequence_id L) db) t = map as_message R"
    using keys(2) by simp
  have inj: "inj_on hm_sequence_id (set (hub_messages db))"
    using log_rows_distinct [OF assms(1), of "\<lambda>_. True"] by (simp add: distinct_map)
  have sub: "set L \<subseteq> set (filter (is_log_row t) (hub_messages db))" by (simp add: X)
  have mem: "m \<in> set L" if "m \<in> set (hub_messages db)" "hm_sequence_id m \<in> set (map hm_sequence_id L)" for m
  proof -
    from that(2) obtain m0 where m0: "m0 \<in> set L" "hm_sequence_id m = hm_sequence_id m0" by auto
    with sub have "m0 \<in> set (hub_messages db)" by auto
    with inj_onD [OF inj m0(2) that(1)] m0(1) show ?thesis by simp
  qed
  show "sweepable t (set (map hm_sequence_id L)) db"
    unfolding sweepable_def
  proof (intro conjI ballI impI)
    fix m assume "m \<in> set (hub_messages db)" "hm_sequence_id m \<in> set (map hm_sequence_id L)"
    with mem sub show "hm_topic_id m = t" by (auto simp: is_log_row_def)
  next
    fix m m'
    assume m: "m \<in> set (hub_messages db)" "m' \<in> set (hub_messages db)"
      and asm: "is_log_row t m \<and> is_log_row t m' \<and> hm_sequence_id m \<in> set (map hm_sequence_id L) \<and>
        hm_sequence_id m' < hm_sequence_id m"
    have "m' \<in> set (L @ R)" using m(2) asm by (simp flip: X)
    with keys(3) [OF mem [OF m(1)]] asm show "hm_sequence_id m' \<in> set (map hm_sequence_id L)" by auto
  qed
qed

lemma swept_sweep:
  "swept_logs t (map hm_sequence_id L) db = L \<Longrightarrow> L \<noteq> [] \<Longrightarrow>
     advanceRemovedThrough t (last (map hm_sequence_id L)) (deleteFrames (map hm_sequence_id L) db) =
     sweep t (map hm_sequence_id L) db"
  by (simp add: sweep_def deleteFrames_all last_map)

lemma sweep_nothing: "sweep t [] db = db" "sweepable t (set []) db"
  by (simp_all add: sweep_def swept_logs_def delete_chunk_def sweepable_def)

text \<open>The three outcomes of the depth bound: no bound, room left, or the excess swept.\<close>

lemma evictDepth_sweep:
  assumes "sql_rows db"
  shows "\<exists>D. evictDepth opts t db = sweep t D db \<and> sweepable t (set D) db"
    and "\<not> exceeds (length (sql_log (evictDepth opts t db) t)) (so_maxDepth opts)"
proof -
  let ?X = "filter (is_log_row t) (hub_messages db)"
  have rows: "log_rows t (\<lambda>_. True) db = ?X" using assms by (simp add: log_rows_eq)
  have "(\<exists>D. evictDepth opts t db = sweep t D db \<and> sweepable t (set D) db) \<and>
    \<not> exceeds (length (sql_log (evictDepth opts t db) t)) (so_maxDepth opts)"
  proof (cases "exceeds (length ?X) (so_maxDepth opts)")
    case False
    then have "evictDepth opts t db = db"
      by (auto simp: evictDepth_def rows exceeds_def Let_def split: option.splits)
    moreover have "length (sql_log db t) = length ?X" by (simp add: sql_log_def)
    ultimately show ?thesis using False sweep_nothing [of t db] by metis
  next
    case True
    then obtain m where m: "so_maxDepth opts = Some m" "m < length ?X"
      by (auto simp: exceeds_def split: option.splits)
    define L where "L = take (length ?X - m) ?X"
    define R where "R = drop (length ?X - m) ?X"
    have X: "?X = L @ R" by (simp add: L_def R_def)
    have "L \<noteq> []" using m(2) by (auto simp: L_def)
    note prefix = swept_prefix [OF assms X]
    have "evictDepth opts t db = sweep t (map hm_sequence_id L) db"
      using swept_sweep [OF prefix(1) \<open>L \<noteq> []\<close>] m by (simp add: evictDepth_def rows Let_def L_def)
    moreover have "length R = m" using m(2) by (simp add: R_def)
    ultimately show ?thesis using prefix(2,3) m(1) by (auto simp del: set_map)
  qed
  then show "\<exists>D. evictDepth opts t db = sweep t D db \<and> sweepable t (set D) db"
    and "\<not> exceeds (length (sql_log (evictDepth opts t db) t)) (so_maxDepth opts)" by simp_all
qed

lemma sorted_filter_less_split:
  fixes b :: string
  assumes "sorted_wrt (<) (map hm_sequence_id ms)"
  shows "ms = filter (\<lambda>m. hm_sequence_id m < b) ms @ filter (\<lambda>m. \<not> hm_sequence_id m < b) ms"
  using assms
proof (induction ms)
  case (Cons m ms)
  show ?case
  proof (cases "hm_sequence_id m < b")
    case False
    then have "filter (\<lambda>x. hm_sequence_id x < b) ms = []" "filter (\<lambda>x. \<not> hm_sequence_id x < b) ms = ms"
      using Cons.prems by (auto simp: filter_empty_conv filter_id_conv)
    with False show ?thesis by simp
  qed (use Cons in simp)
qed simp

lemma sql_trim_sweep:
  assumes "sql_rows db"
  shows "\<exists>D. sql_trim t before db = (Inr (), sweep t D db) \<and> sweepable t (set D) db"
proof -
  let ?X = "filter (is_log_row t) (hub_messages db)"
  define L where "L = filter (\<lambda>m. hm_sequence_id m < before) ?X"
  have rows: "log_rows t (\<lambda>m. hm_sequence_id m < before) db = L"
    using assms by (simp add: log_rows_eq L_def del: filter_filter)
  have X: "?X = L @ filter (\<lambda>m. \<not> hm_sequence_id m < before) ?X"
    unfolding L_def by (rule sorted_filter_less_split [OF sorted_log_rows [OF assms]])
  note prefix = swept_prefix [OF assms X]
  show ?thesis
  proof (cases "L = []")
    case True
    then show ?thesis
      using sweep_nothing [of t db]
      by (intro exI [of _ "[]"]) (simp add: sql_trim_def withStoreTransaction_def trim_body_def rows)
  next
    case False
    with swept_sweep [OF prefix(1) False] prefix(2) show ?thesis
      by (intro exI [of _ "map hm_sequence_id L"])
        (simp add: sql_trim_def withStoreTransaction_def trim_body_def rows Let_def)
  qed
qed

end
