(* ===== verification/SQL_Spec.thy ===== *)
theory SQL_Spec
  imports SQL_Inv
begin

text \<open>
  The SQL store against the contract of the hub: purge, deliveries, publish and subscriptions keep the
  invariant and move each log only as allowed, and the store interprets \<open>hub_log_store\<close> as the memory
  store does.
\<close>

section \<open>Purge\<close>

lemma key_mem_filter:
  assumes "sql_rows db" and "m \<in> set (hub_messages db)"
  shows "hm_sequence_id m \<in> set (map hm_sequence_id (filter P (hub_messages db))) \<longleftrightarrow> P m"
proof -
  have "inj_on hm_sequence_id (set (hub_messages db))"
    using log_rows_distinct [OF assms(1), of "\<lambda>_. True"] by (simp add: distinct_map)
  with assms(2) show ?thesis by (auto dest: inj_onD)
qed

definition due :: "topic_id \<Rightarrow> int \<Rightarrow> hub_db \<Rightarrow> hub_messages_row \<Rightarrow> bool" where
  "due t threshold db m \<longleftrightarrow> hm_topic_id m = t \<and>
     (hm_retain m = RMailbox \<and> hm_stored_at m \<le> threshold \<or>
      (case lockTopic t db of None \<Rightarrow> False
       | Some h \<Rightarrow> hm_retain m = RLog \<and> hm_sequence_id m \<le> h \<and>
           (case sql_min (map hm_sequence_id (filter (\<lambda>m. hm_topic_id m = t \<and>
              hm_retain m = RLog \<and> threshold < hm_stored_at m) (hub_messages db))) of
              None \<Rightarrow> True | Some k \<Rightarrow> hm_sequence_id m < k)))"

lemma purge_frames_eq:
  "sql_rows db \<Longrightarrow> purge_frames t threshold db = filter (due t threshold db) (hub_messages db)"
  unfolding purge_frames_def Let_def due_def
  by (rule strict_sorted_sort_key) (rule sorted_log_rows)

lemma due_sweepable:
  assumes "sql_rows db"
  shows "sweepable t (set (map hm_sequence_id (filter (due t threshold db) (hub_messages db)))) db"
  unfolding sweepable_def
proof (intro conjI ballI impI)
  fix m assume m: "m \<in> set (hub_messages db)"
    and "hm_sequence_id m \<in> set (map hm_sequence_id (filter (due t threshold db) (hub_messages db)))"
  then show "hm_topic_id m = t" unfolding key_mem_filter [OF assms m] by (simp add: due_def)
next
  fix m m' assume m: "m \<in> set (hub_messages db)" "m' \<in> set (hub_messages db)"
  assume "is_log_row t m \<and> is_log_row t m' \<and> hm_sequence_id m \<in> set (map hm_sequence_id
      (filter (due t threshold db) (hub_messages db))) \<and> hm_sequence_id m' < hm_sequence_id m"
  then have asm: "is_log_row t m" "is_log_row t m'" "due t threshold db m" "hm_sequence_id m' < hm_sequence_id m"
    unfolding key_mem_filter [OF assms m(1)] by blast+
  then have "due t threshold db m'"
    by (auto simp: due_def is_log_row_def split: option.splits)
  then show "hm_sequence_id m' \<in> set (map hm_sequence_id (filter (due t threshold db) (hub_messages db)))"
    unfolding key_mem_filter [OF assms m(2)] .
qed

lemma purge_topic_sweep:
  fixes db :: hub_db and t :: topic_id and threshold :: int
  assumes "sql_rows db"
  defines "D \<equiv> map hm_sequence_id (filter (due t threshold db) (hub_messages db))"
  shows "purge_topic t threshold db = (Inr D, sweep t D db)" and "sweepable t (set D) db"
proof -
  let ?F = "filter (due t threshold db) (hub_messages db)"
  show "sweepable t (set D) db" unfolding D_def by (rule due_sweepable [OF assms(1)])
  have logs: "swept_logs t D db = filter (\<lambda>m. hm_retain m = RLog) ?F"
  proof -
    have "swept_logs t D db = filter (\<lambda>m. is_log_row t m \<and> hm_sequence_id m \<in> set D) (hub_messages db)"
      by (simp add: swept_logs_def)
    also have "\<dots> = filter (\<lambda>m. due t threshold db m \<and> hm_retain m = RLog) (hub_messages db)"
      unfolding D_def
      by (rule filter_cong [OF refl]) (use key_mem_filter [OF assms(1)] in \<open>auto simp: is_log_row_def due_def simp del: set_map\<close>)
    finally show ?thesis by simp
  qed
  show "purge_topic t threshold db = (Inr D, sweep t D db)"
  proof (cases "?F = []")
    case True
    then have "D = []" by (simp add: D_def)
    with True show ?thesis by (simp add: purge_topic_def purge_frames_eq [OF assms(1)] sweep_nothing)
  next
    case False
    then show ?thesis
      unfolding purge_topic_def purge_frames_eq [OF assms(1)] Let_def deleteFrames_all D_def [symmetric]
      using logs by (cases "filter (\<lambda>m. hm_retain m = RLog) ?F") (simp_all add: sweep_def)
  qed
qed

text \<open>A whole sweep: topic by topic, each prefix-closed where it is deleted.\<close>

lemma purge_topics_effect:
  assumes "sql_core db"
  shows "\<exists>ids db'. purge_topics threshold ts db = (Inr ids, db') \<and> sql_core db' \<and>
    pruned (sql_log db t) (sql_removed db t) (sql_log db' t) (sql_removed db' t) \<and>
    sql_head db' = sql_head db \<and> hub_sequence db' = hub_sequence db \<and>
    hub_publish_ids db' = hub_publish_ids db \<and> hub_subscriptions db' = hub_subscriptions db \<and>
    hub_messages db' = filter (\<lambda>m. hm_sequence_id m \<notin> set ids) (hub_messages db)"
  using assms
proof (induction ts arbitrary: db)
  case (Cons u ts)
  have rows: "sql_rows db" "sql_topics db" using Cons.prems by (simp_all add: sql_core_def)
  obtain D where D: "purge_topic u (threshold u) db = (Inr D, sweep u D db)" "sweepable u (set D) db"
    using purge_topic_sweep [OF rows(1)] by blast
  have core: "sql_core (sweep u D db)" by (rule sweep_core [OF Cons.prems D(2)])
  from Cons.IH [OF core] obtain ids db' where rest: "purge_topics threshold ts (sweep u D db) = (Inr ids, db')"
    "sql_core db'" "pruned (sql_log (sweep u D db) t) (sql_removed (sweep u D db) t) (sql_log db' t) (sql_removed db' t)"
    "sql_head db' = sql_head (sweep u D db)" "hub_sequence db' = hub_sequence (sweep u D db)"
    "hub_publish_ids db' = hub_publish_ids (sweep u D db)" "hub_subscriptions db' = hub_subscriptions (sweep u D db)"
    "hub_messages db' = filter (\<lambda>m. hm_sequence_id m \<notin> set ids) (hub_messages (sweep u D db))"
    by blast
  note pr = pruned_trans [OF sweep_pruned [OF rows D(2)] rest(3)]
  have run: "purge_topics threshold (u # ts) db = (Inr (D @ ids), db')"
    using D(1) rest(1) by (simp add: withStoreTransaction_def)
  show ?case
    using run rest(2) pr rest(4-8) by (simp add: hub_simps conj_commute)
qed simp

section \<open>Deliveries\<close>

lemma drop_deliveries_tables:
  "hub_deliveries (drop_deliveries r qs db) = filter (\<lambda>d. \<not> (hd_recipient_did d = r \<and> hd_sequence_id d \<in> set qs)) (hub_deliveries db)"
  "hub_messages (drop_deliveries r qs db) = filter (\<lambda>m. \<not> (hm_retain m = RMailbox \<and> hm_sequence_id m \<in> set qs \<and>
     hm_sequence_id m \<notin> hd_sequence_id ` set (hub_deliveries (drop_deliveries r qs db)))) (hub_messages db)"
  "hub_topics (drop_deliveries r qs db) = hub_topics db"
  "hub_sequence (drop_deliveries r qs db) = hub_sequence db"
  "hub_publish_ids (drop_deliveries r qs db) = hub_publish_ids db"
  "hub_subscriptions (drop_deliveries r qs db) = hub_subscriptions db"
  "hub_key_packages (drop_deliveries r qs db) = hub_key_packages db"
proof -
  show deliv: "hub_deliveries (drop_deliveries r qs db) = filter (\<lambda>d. \<not> (hd_recipient_did d = r \<and> hd_sequence_id d \<in> set qs)) (hub_deliveries db)"
    by (simp add: drop_deliveries_def Let_def)
  let ?D = "filter (\<lambda>d. \<not> (hd_recipient_did d = r \<and> hd_sequence_id d \<in> set qs)) (hub_deliveries db)"
  let ?acked = "filter (\<lambda>q. q \<notin> set (map hd_sequence_id (filter (\<lambda>d. hd_sequence_id d \<in> set qs) ?D))) qs"
  have acked: "q \<in> set ?acked \<longleftrightarrow> q \<in> set qs \<and> q \<notin> hd_sequence_id ` set ?D" for q by auto
  have "hub_messages (drop_deliveries r qs db) =
      filter (\<lambda>m. \<not> (hm_sequence_id m \<in> set ?acked \<and> hm_retain m = RMailbox)) (hub_messages db)"
    by (cases "?acked = []") (simp_all add: drop_deliveries_def Let_def)
  then show "hub_messages (drop_deliveries r qs db) = filter (\<lambda>m. \<not> (hm_retain m = RMailbox \<and> hm_sequence_id m \<in> set qs \<and>
     hm_sequence_id m \<notin> hd_sequence_id ` set (hub_deliveries (drop_deliveries r qs db)))) (hub_messages db)"
    unfolding acked deliv by (simp only: conj_ac)
qed (simp_all add: drop_deliveries_def Let_def)

lemma drop_deliveries_log:
  "sql_log (drop_deliveries r qs db) t = sql_log db t"
  "sql_head (drop_deliveries r qs db) = sql_head db"
  "sql_removed (drop_deliveries r qs db) = sql_removed db"
proof -
  have "filter (is_log_row t) (hub_messages (drop_deliveries r qs db)) = filter (is_log_row t) (hub_messages db)"
    unfolding drop_deliveries_tables(2) filter_filter by (rule filter_cong) (auto simp: is_log_row_def)
  then show "sql_log (drop_deliveries r qs db) t = sql_log db t" by (simp add: sql_log_def)
  show "sql_head (drop_deliveries r qs db) = sql_head db" "sql_removed (drop_deliveries r qs db) = sql_removed db"
    by (rule ext, simp add: sql_head_def sql_removed_def topic_row_def drop_deliveries_tables)+
qed

lemma drop_deliveries_mem:
  "m \<in> set (hub_messages (drop_deliveries r qs db)) \<longleftrightarrow> m \<in> set (hub_messages db) \<and>
     \<not> (hm_retain m = RMailbox \<and> hm_sequence_id m \<in> set qs \<and>
        hm_sequence_id m \<notin> hd_sequence_id ` set (hub_deliveries (drop_deliveries r qs db)))"
  by (simp only: drop_deliveries_tables(2) set_filter mem_Collect_eq)

lemma drop_deliveries_core [hub_intros]:
  assumes "sql_core db"
  shows "sql_core (drop_deliveries r qs db)"
proof -
  let ?db = "drop_deliveries r qs db"
  have sub: "set (hub_messages ?db) \<subseteq> set (hub_messages db)" using drop_deliveries_mem by blast
  have "sql_rows ?db"
    using assms by (simp add: sql_core_def sql_rows_def drop_deliveries_tables(2,4) sorted_wrt_map sorted_wrt_filter)
  moreover have "sql_topics ?db"
    using assms sub unfolding sql_core_def sql_topics_def drop_deliveries_tables(3,4) by (meson subsetD)
  moreover have "sql_deliveries ?db"
    unfolding sql_deliveries_def
  proof (intro conjI ballI impI)
    have old: "distinct (hub_deliveries db)"
      "hd_sequence_id ` set (hub_deliveries db) \<subseteq> hm_sequence_id ` set (hub_messages db)"
      "\<And>m. m \<in> set (hub_messages db) \<Longrightarrow> hm_retain m = RMailbox \<Longrightarrow> hm_sequence_id m \<in> hd_sequence_id ` set (hub_deliveries db)"
      using assms by (simp_all add: sql_core_def sql_deliveries_def)
    show "distinct (hub_deliveries ?db)" using old(1) by (simp add: drop_deliveries_tables(1))
    show "hd_sequence_id ` set (hub_deliveries ?db) \<subseteq> hm_sequence_id ` set (hub_messages ?db)"
    proof (rule image_subsetI)
      fix d assume d: "d \<in> set (hub_deliveries ?db)"
      then have "d \<in> set (hub_deliveries db)" by (simp add: drop_deliveries_tables(1))
      then have "hd_sequence_id d \<in> hm_sequence_id ` set (hub_messages db)" using old(2) by blast
      then obtain m where m: "m \<in> set (hub_messages db)" "hd_sequence_id d = hm_sequence_id m" by (elim imageE) simp
      have "hm_sequence_id m \<in> hd_sequence_id ` set (hub_deliveries ?db)" using imageI [OF d, of hd_sequence_id] m(2) by simp
      then have "m \<in> set (hub_messages ?db)" using m(1) drop_deliveries_mem by blast
      with m(2) show "hd_sequence_id d \<in> hm_sequence_id ` set (hub_messages ?db)" by simp
    qed
    fix m assume m: "m \<in> set (hub_messages ?db)" "hm_retain m = RMailbox"
    show "hm_sequence_id m \<in> hd_sequence_id ` set (hub_deliveries ?db)"
    proof (cases "hm_sequence_id m \<in> set qs")
      case True
      with m drop_deliveries_mem show ?thesis by blast
    next
      case False
      from old(3) [of m] m sub obtain d where "d \<in> set (hub_deliveries db)" "hd_sequence_id d = hm_sequence_id m"
        by (metis imageE subsetD)
      with False have "d \<in> set (hub_deliveries ?db)" by (simp add: drop_deliveries_tables(1))
      with \<open>hd_sequence_id d = hm_sequence_id m\<close> show ?thesis by (metis imageI)
    qed
  qed
  ultimately show ?thesis
    using assms by (simp add: sql_core_def sql_members_def drop_deliveries_tables(6))
qed

section \<open>Operations that leave the frames alone\<close>

text \<open>Two states with the same messages, deliveries, topics and counter.\<close>

definition same_frames :: "hub_db \<Rightarrow> hub_db \<Rightarrow> bool" where
  "same_frames db db' \<longleftrightarrow> hub_messages db' = hub_messages db \<and> hub_deliveries db' = hub_deliveries db \<and>
     hub_topics db' = hub_topics db \<and> hub_sequence db' = hub_sequence db"

lemma same_frames_views:
  assumes "same_frames db db'"
  shows "sql_log db' = sql_log db" "sql_head db' = sql_head db" "sql_removed db' = sql_removed db"
    "hub_sequence db' = hub_sequence db"
  using assms by (auto simp: same_frames_def sql_log_def sql_head_def sql_removed_def topic_row_def)

lemma same_frames_core: "same_frames db db' \<Longrightarrow> sql_core db \<Longrightarrow> sql_members db' \<Longrightarrow> sql_core db'"
  by (simp add: sql_core_def same_frames_def sql_rows_def sql_topics_def sql_deliveries_def)

lemma subscribe_frames:
  "same_frames db (snd (sql_subscribe opts now p db))"
  "hub_publish_ids (snd (sql_subscribe opts now p db)) = hub_publish_ids db"
  by (simp_all add: same_frames_def sql_subscribe_def Let_def)

lemma subscribe_members:
  assumes "sql_members db"
  shows "sql_members (snd (sql_subscribe opts now p db))"
proof -
  let ?row = "\<lparr>hs_topic_id = sp_topicID p, hs_subscriber_did = sp_subscriberDID p, hs_last_active_at = now,
    hs_retention = or_else (sp_retention p) (so_defaultRetention opts)\<rparr>"
  let ?k = "\<lambda>r. (hs_topic_id r, hs_subscriber_did r)"
  have "map ?k (map (\<lambda>r. if hs_topic_id r = sp_topicID p \<and> hs_subscriber_did r = sp_subscriberDID p then ?row else r) rs) =
      map ?k rs" for rs
    by (induction rs) auto
  then have "sql_members (db\<lparr>hub_subscriptions := map (\<lambda>r. if hs_topic_id r = sp_topicID p \<and>
      hs_subscriber_did r = sp_subscriberDID p then ?row else r) (hub_subscriptions db)\<rparr>)"
    using assms by (simp add: sql_members_def del: map_map)
  moreover have "sql_members (db\<lparr>hub_subscriptions := hub_subscriptions db @ [?row]\<rparr>)"
    if "\<not> (\<exists>r \<in> set (hub_subscriptions db). hs_topic_id r = sp_topicID p \<and> hs_subscriber_did r = sp_subscriberDID p)"
    using assms that by (auto simp: sql_members_def)
  moreover have "(\<exists>r \<in> set (filter (\<lambda>r. hs_subscriber_did r = sp_subscriberDID p) (hub_subscriptions db)).
      hs_topic_id r = sp_topicID p) \<longleftrightarrow>
      (\<exists>r \<in> set (hub_subscriptions db). hs_topic_id r = sp_topicID p \<and> hs_subscriber_did r = sp_subscriberDID p)"
    by auto
  ultimately show ?thesis
    using assms unfolding sql_subscribe_def Let_def by (simp only: if_distrib [of snd] snd_conv split: if_split) blast
qed

lemma unsubscribe_tables:
  fixes db :: hub_db and d :: did and t :: topic_id
  defines "db1 \<equiv> db\<lparr>hub_subscriptions := filter (\<lambda>r. \<not> (hs_topic_id r = t \<and> hs_subscriber_did r = d)) (hub_subscriptions db)\<rparr>"
  shows "\<exists>qs. sql_unsubscribe d t db = (if qs = [] then db1 else drop_deliveries d qs db1)"
    and "same_frames db db1" and "sql_members db \<Longrightarrow> sql_members db1"
  unfolding db1_def
  by (auto simp: sql_unsubscribe_def Let_def same_frames_def sql_members_def distinct_map_filter)

section \<open>Publish\<close>

definition write_head :: "topic_id \<Rightarrow> sequence_id \<Rightarrow> hub_db \<Rightarrow> hub_db" where
  "write_head t q db = (if topic_row t db = None then insert_topic t q db else set_head t q db)"

lemma advance_head_cases:
  "advance_head p q db = (if pp_expectedHead p = None \<or> pp_expectedHead p = Some (lockTopic (pp_topicID p) db)
     then (Inr (), write_head (pp_topicID p) q db) else (fst (advance_head p q db), db))"
  "\<not> (pp_expectedHead p = None \<or> pp_expectedHead p = Some (lockTopic (pp_topicID p) db)) \<Longrightarrow>
     \<exists>msg. fst (advance_head p q db) = Inl (HubError HeadMismatchError msg)"
  by (auto simp: advance_head_def write_head_def lockTopic_def Let_def split: option.splits)

lemma write_head_frame [hub_simps]:
  "hub_messages (write_head t q db) = hub_messages db" "hub_deliveries (write_head t q db) = hub_deliveries db"
  "hub_sequence (write_head t q db) = hub_sequence db" "hub_publish_ids (write_head t q db) = hub_publish_ids db"
  "hub_subscriptions (write_head t q db) = hub_subscriptions db"
  by (simp_all add: write_head_def insert_topic_def set_head_def)

lemma find_append: "find P (xs @ ys) = (case find P xs of None \<Rightarrow> find P ys | Some x \<Rightarrow> Some x)"
  by (induction xs) auto

lemma write_head_row:
  "topic_row t' (write_head t q db) = (if t' = t
     then Some (case topic_row t db of None \<Rightarrow> \<lparr>ht_topic_id = t, ht_head = q, ht_removed_through = None\<rparr>
       | Some row \<Rightarrow> row\<lparr>ht_head := q\<rparr>)
     else topic_row t' db)"
proof -
  let ?f = "\<lambda>row. if ht_topic_id row = t then row\<lparr>ht_head := q\<rparr> else row"
  have map: "find (\<lambda>row. ht_topic_id row = t') (map ?f xs) = map_option ?f (find (\<lambda>row. ht_topic_id row = t') xs)" for xs
    by (rule find_map_key) simp
  show ?thesis
  proof (cases "topic_row t db")
    case None
    then have "write_head t q db = insert_topic t q db" by (simp add: write_head_def)
    then have "topic_row t' (write_head t q db) = (case topic_row t' db of
        None \<Rightarrow> if t = t' then Some \<lparr>ht_topic_id = t, ht_head = q, ht_removed_through = None\<rparr> else None
      | Some r \<Rightarrow> Some r)"
      by (simp add: topic_row_def insert_topic_def find_append split: option.split)
    with None show ?thesis by (cases "t' = t"; cases "topic_row t' db") simp_all
  next
    case (Some row)
    have row: "ht_topic_id r = t'" if "topic_row t' db = Some r" for r
      using find_Some_mem [OF that [unfolded topic_row_def]] by simp
    have "topic_row t' (write_head t q db) = map_option ?f (topic_row t' db)"
      using Some by (simp add: write_head_def set_head_def topic_row_def map)
    with Some row show ?thesis
      by (cases "t' = t"; cases "topic_row t' db") auto
  qed
qed

lemma write_head_views:
  "sql_head (write_head t q db) t' = (if t' = t then Some q else sql_head db t')"
  "sql_removed (write_head t q db) t' = sql_removed db t'"
  "sql_log (write_head t q db) t' = sql_log db t'"
  by (simp_all add: sql_head_def sql_removed_def sql_log_def write_head_row hub_simps split: option.split)

definition sql_recipients :: "PublishParams \<Rightarrow> hub_db \<Rightarrow> did list" where
  "sql_recipients p db = filter (\<lambda>d. d \<noteq> pp_senderDID p)
     (map hs_subscriber_did (filter (\<lambda>r. hs_topic_id r = pp_topicID p) (hub_subscriptions db)))"

text \<open>Mint and append, as one step.\<close>

definition mint_append :: "int \<Rightarrow> PublishParams \<Rightarrow> hub_db \<Rightarrow> hub_db" where
  "mint_append now p db = append_message now p (formatSequenceID (Suc (hub_sequence db)))
     (db\<lparr>hub_sequence := Suc (hub_sequence db)\<rparr>)"

definition message_of :: "int \<Rightarrow> PublishParams \<Rightarrow> sequence_id \<Rightarrow> hub_messages_row" where
  "message_of now p q = \<lparr>hm_sequence_id = q, hm_sender_did = pp_senderDID p, hm_topic_id = pp_topicID p,
     hm_payload = pp_payload p, hm_stored_at = now, hm_retain = retain_of p\<rparr>"

lemma mint_append_tables:
  fixes db :: hub_db and p :: PublishParams and now :: int
  defines "q \<equiv> formatSequenceID (Suc (hub_sequence db))"
  shows "hub_messages (mint_append now p db) = hub_messages db @
      (if retain_of p = RLog \<or> sql_recipients p db \<noteq> [] then [message_of now p q] else [])"
    and "hub_deliveries (mint_append now p db) = hub_deliveries db @
      map (\<lambda>d. \<lparr>hd_sequence_id = q, hd_recipient_did = d\<rparr>) (sql_recipients p db)"
    and "hub_topics (mint_append now p db) = hub_topics db"
    and "hub_sequence (mint_append now p db) = Suc (hub_sequence db)"
    and "hub_publish_ids (mint_append now p db) = hub_publish_ids db"
    and "hub_subscriptions (mint_append now p db) = hub_subscriptions db"
  unfolding q_def mint_append_def append_message_def Let_def sql_recipients_def message_of_def
  by (auto simp del: filter_map)

lemma mint_append_row: "topic_row t (mint_append now p db) = topic_row t db"
  by (simp add: topic_row_def mint_append_tables(3))

text \<open>The state after the head write, before the depth bound.\<close>

definition accept_message :: "int \<Rightarrow> PublishParams \<Rightarrow> hub_db \<Rightarrow> hub_db" where
  "accept_message now p db = (if retain_of p = RLog
     then write_head (pp_topicID p) (formatSequenceID (Suc (hub_sequence db))) (mint_append now p db)
     else mint_append now p db)"

lemma accept_message_tables:
  "hub_messages (accept_message now p db) = hub_messages (mint_append now p db)"
  "hub_deliveries (accept_message now p db) = hub_deliveries (mint_append now p db)"
  "hub_sequence (accept_message now p db) = Suc (hub_sequence db)"
  "hub_publish_ids (accept_message now p db) = hub_publish_ids db"
  "hub_subscriptions (accept_message now p db) = hub_subscriptions db"
  by (simp_all add: accept_message_def hub_simps mint_append_tables)

lemma accept_message_row:
  "topic_row t (accept_message now p db) = (if retain_of p = RLog \<and> t = pp_topicID p
     then Some (case topic_row t db of
         None \<Rightarrow> \<lparr>ht_topic_id = t, ht_head = formatSequenceID (Suc (hub_sequence db)), ht_removed_through = None\<rparr>
       | Some row \<Rightarrow> row\<lparr>ht_head := formatSequenceID (Suc (hub_sequence db))\<rparr>)
     else topic_row t db)"
  by (cases "t = pp_topicID p"; cases "topic_row t db") (simp_all add: accept_message_def write_head_row mint_append_row)

lemma accept_message_views:
  fixes db :: hub_db and p :: PublishParams and now :: int
  defines "q \<equiv> formatSequenceID (Suc (hub_sequence db))"
  shows "sql_log (accept_message now p db) t =
      (if retain_of p = RLog \<and> t = pp_topicID p then sql_log db t @ [log_frame p q] else sql_log db t)"
    and "sql_head (accept_message now p db) t = (if retain_of p = RLog \<and> t = pp_topicID p then Some q else sql_head db t)"
    and "sql_removed (accept_message now p db) t = sql_removed db t"
proof -
  have row: "is_log_row t (message_of now p q) \<longleftrightarrow> retain_of p = RLog \<and> t = pp_topicID p"
    by (auto simp: is_log_row_def message_of_def)
  have "as_message (message_of now p q) = log_frame p q" if "retain_of p = RLog"
    using that by (simp add: as_message_def message_of_def log_frame_def)
  with row show "sql_log (accept_message now p db) t =
      (if retain_of p = RLog \<and> t = pp_topicID p then sql_log db t @ [log_frame p q] else sql_log db t)"
    by (auto simp add: sql_log_def accept_message_tables mint_append_tables simp flip: q_def)
  show "sql_head (accept_message now p db) t = (if retain_of p = RLog \<and> t = pp_topicID p then Some q else sql_head db t)"
    by (simp add: sql_head_def accept_message_row q_def split: option.split)
  show "sql_removed (accept_message now p db) t = sql_removed db t"
    by (simp add: sql_removed_def accept_message_row split: option.split)
qed

text \<open>The topic table after the head write, read row by row.\<close>

lemma write_head_ids: "map ht_topic_id (hub_topics (write_head t q db)) =
    (if topic_row t db = None then map ht_topic_id (hub_topics db) @ [t] else map ht_topic_id (hub_topics db))"
proof -
  have "map ht_topic_id (map (\<lambda>row. if ht_topic_id row = t then row\<lparr>ht_head := q\<rparr> else row) xs) = map ht_topic_id xs"
    for xs :: "hub_topics_row list"
    by (induction xs) auto
  then show ?thesis by (simp add: write_head_def insert_topic_def set_head_def del: map_map)
qed

lemma topics_by_row:
  "sql_topics db \<longleftrightarrow> distinct (map ht_topic_id (hub_topics db)) \<and>
     (\<forall>t row. row \<in> set (hub_topics db) \<and> ht_topic_id row = t \<longrightarrow> minted (hub_sequence db) (ht_head row) \<and>
        (\<forall>r. ht_removed_through row = Some r \<longrightarrow> minted (hub_sequence db) r \<and>
           (\<forall>m \<in> set (hub_messages db). is_log_row t m \<longrightarrow> r < hm_sequence_id m)) \<and>
        (\<forall>m \<in> set (hub_messages db). is_log_row t m \<longrightarrow> hm_sequence_id m \<le> ht_head row)) \<and>
     (\<forall>m \<in> set (hub_messages db). hm_retain m = RLog \<longrightarrow> hm_topic_id m \<in> ht_topic_id ` set (hub_topics db))"
  (is "_ \<longleftrightarrow> ?D \<and> ?R \<and> ?C")
proof
  assume topics: "sql_topics db"
  then have D: ?D by (simp add: sql_topics_def)
  have "hm_sequence_id m \<le> ht_head row"
    if "row \<in> set (hub_topics db)" "m \<in> set (hub_messages db)" "is_log_row (ht_topic_id row) m" for row m
  proof -
    from topics that(2,3) obtain row' where row': "row' \<in> set (hub_topics db)" "ht_topic_id row' = hm_topic_id m"
        "hm_sequence_id m \<le> ht_head row'"
      unfolding sql_topics_def is_log_row_def by blast
    have "row' = row"
      using inj_onD [OF D [unfolded distinct_map, THEN conjunct2] _ row'(1) that(1)] row'(2) that(3)
      by (simp add: is_log_row_def)
    with row'(3) show ?thesis by simp
  qed
  with topics have ?R unfolding sql_topics_def by blast
  moreover from topics have ?C unfolding sql_topics_def by force
  ultimately show "?D \<and> ?R \<and> ?C" using D by blast
next
  assume asm: "?D \<and> ?R \<and> ?C"
  have "\<exists>row \<in> set (hub_topics db). ht_topic_id row = hm_topic_id m \<and> hm_sequence_id m \<le> ht_head row"
    if "m \<in> set (hub_messages db)" "hm_retain m = RLog" for m
  proof -
    from asm that obtain row where "row \<in> set (hub_topics db)" "ht_topic_id row = hm_topic_id m" by force
    moreover have "is_log_row (hm_topic_id m) m" using that(2) by (simp add: is_log_row_def)
    ultimately show ?thesis using asm that(1) by blast
  qed
  with asm show "sql_topics db" unfolding sql_topics_def by blast
qed

lemma accept_message_topics:
  assumes topics: "sql_topics db" and rows: "sql_rows db" and room: "Suc (hub_sequence db) < seq_space"
  shows "sql_topics (accept_message now p db)"
proof (cases "retain_of p = RLog")
  case False
  have "set (hub_messages (accept_message now p db)) \<subseteq> insert (message_of now p (formatSequenceID (Suc (hub_sequence db)))) (set (hub_messages db))"
    by (auto simp: accept_message_tables mint_append_tables)
  moreover have "hub_topics (accept_message now p db) = hub_topics db"
    using False by (simp add: accept_message_def mint_append_tables)
  moreover have "\<not> is_log_row t (message_of now p q)" "hm_retain (message_of now p q) \<noteq> RLog" for t q
    using False by (simp_all add: is_log_row_def message_of_def)
  ultimately show ?thesis
    using topics unfolding sql_topics_def accept_message_tables(3)
    by (auto simp: minted_Suc_mono)
next
  case True
  define q where "q = formatSequenceID (Suc (hub_sequence db))"
  let ?t = "pp_topicID p" and ?db = "accept_message now p db"
  have less: "x < q" if "minted (hub_sequence db) x" for x
    using minted_less_next [OF that room] by (simp add: q_def)
  have msgs: "hub_messages ?db = hub_messages db @ [message_of now p q]"
    using True by (simp add: accept_message_tables(1) mint_append_tables q_def)
  have old: "hm_sequence_id m < q" if "m \<in> set (hub_messages db)" for m
    using rows that less by (simp add: sql_rows_def)
  have new: "is_log_row u (message_of now p q) \<longleftrightarrow> u = ?t" "hm_sequence_id (message_of now p q) = q" for u
    using True by (auto simp: is_log_row_def message_of_def)
  have D: "distinct (map ht_topic_id (hub_topics db))" using topics by (simp add: sql_topics_def)
  have topics': "hub_topics ?db = hub_topics (write_head ?t q (mint_append now p db))"
    using True by (simp add: accept_message_def q_def)
  have ids: "map ht_topic_id (hub_topics ?db) =
      (if topic_row ?t db = None then map ht_topic_id (hub_topics db) @ [?t] else map ht_topic_id (hub_topics db))"
    by (simp add: topics' write_head_ids mint_append_row mint_append_tables)
  then have D': "distinct (map ht_topic_id (hub_topics ?db))"
    using D by (auto simp: topic_row_None)
  have t: "?t \<in> ht_topic_id ` set (hub_topics ?db)" and sub: "ht_topic_id ` set (hub_topics db) \<subseteq> ht_topic_id ` set (hub_topics ?db)"
  proof -
    have "set (map ht_topic_id (hub_topics ?db)) = insert ?t (set (map ht_topic_id (hub_topics db)))"
      using topic_row_None [of ?t db] by (auto simp: ids)
    then show "?t \<in> ht_topic_id ` set (hub_topics ?db)"
      and "ht_topic_id ` set (hub_topics db) \<subseteq> ht_topic_id ` set (hub_topics ?db)" by auto
  qed
  have row: "ht_topic_id r = u \<and> topic_row u ?db = Some r" if "r \<in> set (hub_topics ?db)" "ht_topic_id r = u" for r u
    using find_unique_key [OF D' that(1), of "\<lambda>r. ht_topic_id r = u"] that(2) by (simp add: topic_row_def)
  show ?thesis
    unfolding topics_by_row accept_message_tables(3)
  proof (rule conjI [OF D' conjI], intro allI impI)
    fix u r assume asm: "r \<in> set (hub_topics ?db) \<and> ht_topic_id r = u"
    then have r: "topic_row u ?db = Some r" using row by blast
    show "minted (Suc (hub_sequence db)) (ht_head r) \<and>
        (\<forall>x. ht_removed_through r = Some x \<longrightarrow> minted (Suc (hub_sequence db)) x \<and>
           (\<forall>m \<in> set (hub_messages ?db). is_log_row u m \<longrightarrow> x < hm_sequence_id m)) \<and>
        (\<forall>m \<in> set (hub_messages ?db). is_log_row u m \<longrightarrow> hm_sequence_id m \<le> ht_head r)"
    proof (cases "u = ?t")
      case False
      then have "topic_row u db = Some r" using r by (simp add: accept_message_row)
      then have "r \<in> set (hub_topics db)" "ht_topic_id r = u" by (simp_all add: topic_row_iff [OF topics])
      then show ?thesis
        using topics False new unfolding topics_by_row msgs by (auto simp: minted_Suc_mono)
    next
      case u: True
      show ?thesis
      proof (cases "topic_row ?t db")
        case None
        then have "r = \<lparr>ht_topic_id = ?t, ht_head = q, ht_removed_through = None\<rparr>"
          using r u True by (simp add: accept_message_row q_def)
        then show ?thesis using old new(2) by (auto simp: msgs q_def minted_Suc less_imp_le)
      next
        case (Some row)
        then have "row \<in> set (hub_topics db)" "ht_topic_id row = ?t" by (simp_all add: topic_row_iff [OF topics])
        then have "\<forall>x. ht_removed_through row = Some x \<longrightarrow> minted (hub_sequence db) x \<and>
            (\<forall>m \<in> set (hub_messages db). is_log_row ?t m \<longrightarrow> x < hm_sequence_id m)"
          using topics unfolding topics_by_row by blast
        moreover have "r = row\<lparr>ht_head := q\<rparr>" using r u True Some by (simp add: accept_message_row q_def)
        ultimately show ?thesis
          using old new(2) less u by (auto simp: msgs minted_Suc minted_Suc_mono less_imp_le) (simp_all add: q_def minted_Suc)
      qed
    qed
  next
    show "\<forall>m \<in> set (hub_messages ?db). hm_retain m = RLog \<longrightarrow> hm_topic_id m \<in> ht_topic_id ` set (hub_topics ?db)"
      using topics t sub unfolding topics_by_row msgs by (auto simp: message_of_def)
  qed
qed

lemma accept_message_core:
  assumes core: "sql_core db" and room: "Suc (hub_sequence db) < seq_space"
  shows "sql_core (accept_message now p db)"
proof -
  define q where "q = formatSequenceID (Suc (hub_sequence db))"
  let ?db = "accept_message now p db" and ?m = "message_of now p q"
  let ?new = "if retain_of p = RLog \<or> sql_recipients p db \<noteq> [] then [?m] else []"
  have rows: "sql_rows db" and topics: "sql_topics db" and deliv: "sql_deliveries db" and members: "sql_members db"
    using core by (simp_all add: sql_core_def)
  have msgs: "hub_messages ?db = hub_messages db @ ?new"
    by (simp add: accept_message_tables mint_append_tables q_def)
  have less: "x < q" if "minted (hub_sequence db) x" for x
    using minted_less_next [OF that room] by (simp add: q_def)
  have old: "hm_sequence_id m < q" if "m \<in> set (hub_messages db)" for m
    using rows that less by (simp add: sql_rows_def)
  have q: "minted (Suc (hub_sequence db)) q" by (simp add: q_def minted_Suc)
  have m: "hm_sequence_id ?m = q" "hm_topic_id ?m = pp_topicID p" "hm_retain ?m = retain_of p"
    by (simp_all add: message_of_def)
  have rows': "sql_rows ?db"
    using rows old q m(1)
    by (auto simp: sql_rows_def msgs accept_message_tables(3) sorted_wrt_append minted_Suc_mono)
  have "sql_deliveries ?db"
  proof -
    have deliveries: "hub_deliveries ?db = hub_deliveries db @
        map (\<lambda>d. \<lparr>hd_sequence_id = q, hd_recipient_did = d\<rparr>) (sql_recipients p db)"
      by (simp add: accept_message_tables mint_append_tables q_def)
    have "distinct (map hs_subscriber_did (filter (\<lambda>r. hs_topic_id r = pp_topicID p) (hub_subscriptions db)))"
      using members by (auto simp: sql_members_def distinct_map inj_on_def)
    then have dist: "distinct (sql_recipients p db)" by (simp add: sql_recipients_def del: filter_map)
    have fresh: "hd_sequence_id d < q" if "d \<in> set (hub_deliveries db)" for d
    proof -
      have "hd_sequence_id d \<in> hm_sequence_id ` set (hub_messages db)"
        using deliv that unfolding sql_deliveries_def by blast
      with old show ?thesis by auto
    qed
    have "distinct (hub_deliveries ?db)"
      using deliv dist fresh by (fastforce simp: deliveries sql_deliveries_def distinct_map inj_on_def)
    moreover have "hd_sequence_id ` set (hub_deliveries ?db) \<subseteq> hm_sequence_id ` set (hub_messages ?db)"
    proof (rule image_subsetI)
      fix d assume "d \<in> set (hub_deliveries ?db)"
      then consider (old) "d \<in> set (hub_deliveries db)" | (new) r where "hd_sequence_id d = q" "r \<in> set (sql_recipients p db)"
        by (auto simp: deliveries)
      then show "hd_sequence_id d \<in> hm_sequence_id ` set (hub_messages ?db)"
      proof cases
        case old
        then have "hd_sequence_id d \<in> hm_sequence_id ` set (hub_messages db)"
          using deliv unfolding sql_deliveries_def by blast
        then show ?thesis by (simp add: msgs image_Un)
      next
        case new
        then have "sql_recipients p db \<noteq> []" by auto
        then have "?m \<in> set (hub_messages ?db)" by (simp add: msgs)
        with new(1) m(1) show ?thesis by (metis imageI)
      qed
    qed
    moreover have "hm_sequence_id x \<in> hd_sequence_id ` set (hub_deliveries ?db)"
      if x: "x \<in> set (hub_messages ?db)" "hm_retain x = RMailbox" for x
    proof (cases "x \<in> set (hub_messages db)")
      case True
      with x deliv have "hm_sequence_id x \<in> hd_sequence_id ` set (hub_deliveries db)"
        by (simp add: sql_deliveries_def)
      then show ?thesis by (simp add: deliveries image_Un)
    next
      case False
      with x have "x = ?m" "sql_recipients p db \<noteq> []" using m(3) by (auto simp: msgs split: if_splits)
      then obtain d where "d \<in> set (sql_recipients p db)" by (meson last_in_set)
      with \<open>x = ?m\<close> m(1) show ?thesis by (force simp: deliveries)
    qed
    ultimately show ?thesis by (simp add: sql_deliveries_def)
  qed
  moreover have "sql_members ?db" using members by (simp add: sql_members_def accept_message_tables)
  moreover have "sql_topics ?db"
    by (rule accept_message_topics [OF topics rows room])
  ultimately show ?thesis using rows' by (simp add: sql_core_def)
qed

text \<open>The rest of an accepted publish: the depth bound, then the claim completed.\<close>

definition finish_publish :: "HubStoreOptions \<Rightarrow> PublishParams \<Rightarrow> sequence_id \<Rightarrow> hub_db \<Rightarrow> hub_db" where
  "finish_publish opts p q db =
     (let db4 = (if retain_of p = RLog then evictDepth opts (pp_topicID p) db else db)
      in case pp_publishID p of None \<Rightarrow> db4 | Some i \<Rightarrow> complete_claim (pp_topicID p) i q db4)"

lemma lockTopic_head: "lockTopic t db = sql_head db t"
  by (simp add: lockTopic_def sql_head_def)

lemma lockTopic_mint: "lockTopic t (mint_append now p db) = lockTopic t db"
  by (simp add: lockTopic_def mint_append_row)

definition head_free :: "PublishParams \<Rightarrow> sequence_id option \<Rightarrow> bool" where
  "head_free p head \<longleftrightarrow> pp_expectedHead p = None \<or> pp_expectedHead p = Some head"

lemma publish_claimed_cases:
  fixes db :: hub_db
  defines "q \<equiv> formatSequenceID (Suc (hub_sequence db))"
  obtains (mismatch) msg db' where "publish_claimed opts now p cur db = (Inl (HubError HeadMismatchError msg), db')"
      "\<not> head_free p cur \<or> retain_of p = RLog \<and> \<not> head_free p (lockTopic (pp_topicID p) db)"
    | (accept) "publish_claimed opts now p cur db =
        (Inr \<lparr>pr_sequenceID = q, pr_deduped = False\<rparr>, finish_publish opts p q (accept_message now p db))"
      "head_free p cur" "retain_of p = RLog \<Longrightarrow> head_free p (lockTopic (pp_topicID p) db)"
proof (cases "head_free p cur")
  case False
  then have "pp_expectedHead p \<noteq> None \<and> cur \<noteq> the (pp_expectedHead p)" by (auto simp: head_free_def)
  then show ?thesis using that(1) False by (simp add: publish_claimed_def)
next
  case True
  then have pass: "\<not> (pp_expectedHead p \<noteq> None \<and> cur \<noteq> the (pp_expectedHead p))" by (auto simp: head_free_def)
  have mint: "append_message now p q (db\<lparr>hub_sequence := Suc (hub_sequence db)\<rparr>) = mint_append now p db"
    by (simp add: mint_append_def q_def)
  note run = publish_claimed_def nextSequenceID_def q_def [symmetric] Let_def prod.case mint if_not_P [OF pass]
  show ?thesis
  proof (cases "retain_of p = RLog")
    case False
    have "publish_claimed opts now p cur db =
        (Inr \<lparr>pr_sequenceID = q, pr_deduped = False\<rparr>, finish_publish opts p q (accept_message now p db))"
      unfolding run using False by (simp add: finish_publish_def accept_message_def Let_def)
    with that(2) True False show ?thesis by simp
  next
    case log: True
    show ?thesis
    proof (cases "head_free p (lockTopic (pp_topicID p) db)")
      case False
      then obtain msg where "fst (advance_head p q (mint_append now p db)) = Inl (HubError HeadMismatchError msg)"
        using advance_head_cases(2) [of p "mint_append now p db" q] by (auto simp: head_free_def lockTopic_mint)
      then have "advance_head p q (mint_append now p db) =
          (Inl (HubError HeadMismatchError msg), snd (advance_head p q (mint_append now p db)))"
        by (metis prod.collapse)
      then have "\<exists>db'. publish_claimed opts now p cur db = (Inl (HubError HeadMismatchError msg), db')"
        unfolding run using log by (auto split: prod.split)
      with that(1) log False show ?thesis by blast
    next
      case free: True
      then have "advance_head p q (mint_append now p db) = (Inr (), write_head (pp_topicID p) q (mint_append now p db))"
        using advance_head_cases(1) [of p q "mint_append now p db"] by (simp add: head_free_def lockTopic_mint)
      then have "publish_claimed opts now p cur db =
          (Inr \<lparr>pr_sequenceID = q, pr_deduped = False\<rparr>, finish_publish opts p q (accept_message now p db))"
        unfolding run using log by (simp add: finish_publish_def accept_message_def Let_def flip: q_def)
      with that(2) True free show ?thesis by simp
    qed
  qed
qed

text \<open>The state the steps after the claim start from.\<close>

definition claimed :: "int \<Rightarrow> PublishParams \<Rightarrow> hub_db \<Rightarrow> hub_db" where
  "claimed now p db = (case pp_publishID p of None \<Rightarrow> db | Some i \<Rightarrow> db\<lparr>hub_publish_ids := hub_publish_ids db @
     [\<lparr>hp_topic_id = pp_topicID p, hp_publish_id = i, hp_sequence_id = None, hp_recorded_at = now\<rparr>]\<rparr>)"

lemma claimed_frames: "same_frames db (claimed now p db)" "hub_subscriptions (claimed now p db) = hub_subscriptions db"
  by (simp_all add: claimed_def same_frames_def split: option.split)

lemma claimed_core: "sql_core db \<Longrightarrow> sql_core (claimed now p db)"
  using same_frames_core [OF claimed_frames(1)] by (simp add: sql_members_def claimed_frames(2) sql_core_def)

lemma recorded_claim:
  assumes "sql_claims db"
  shows "sql_recorded db t i = None \<longleftrightarrow> claim_row t i db = None"
proof -
  have "hp_sequence_id r \<noteq> None" if "claim_row t i db = Some r" for r
    using assms find_Some_mem [OF that [unfolded claim_row_def]] by (simp add: sql_claims_def)
  then show ?thesis by (cases "claim_row t i db") (auto simp: sql_recorded_def)
qed

lemma sql_publish_new:
  assumes "sql_claims db" and "Option.bind (pp_publishID p) (sql_recorded db (pp_topicID p)) = None"
  shows "publish_body opts now p cur db = publish_claimed opts now p cur (claimed now p db)"
  using assms recorded_claim [OF assms(1), of "pp_topicID p"]
  by (auto simp: publish_body_def claim_publish_id_def claimed_def split: option.split)

lemma sql_publish_replay:
  "pp_publishID p = Some i \<Longrightarrow> sql_recorded db (pp_topicID p) i = Some q \<Longrightarrow>
     publish_body opts now p cur db = (Inr \<lparr>pr_sequenceID = q, pr_deduped = True\<rparr>, db)"
  by (auto simp: publish_body_def claim_publish_id_def sql_recorded_def split: option.splits bind_splits)

lemma complete_claim_frame:
  "same_frames db (complete_claim t i q db)" "hub_subscriptions (complete_claim t i q db) = hub_subscriptions db"
  by (simp_all add: complete_claim_def same_frames_def)

lemma finish_publish_effect:
  assumes "sql_core db"
  shows "sql_core (finish_publish opts p q db)"
    and "pruned (sql_log db t) (sql_removed db t) (sql_log (finish_publish opts p q db) t) (sql_removed (finish_publish opts p q db) t)"
    and "sql_head (finish_publish opts p q db) = sql_head db"
    and "hub_sequence (finish_publish opts p q db) = hub_sequence db"
    and "hub_publish_ids (finish_publish opts p q db) = (case pp_publishID p of None \<Rightarrow> hub_publish_ids db
      | Some i \<Rightarrow> hub_publish_ids (complete_claim (pp_topicID p) i q db))"
    and "\<not> exceeds (length (sql_log (finish_publish opts p q db) (pp_topicID p))) (so_maxDepth opts) \<or> retain_of p \<noteq> RLog"
proof -
  have rows: "sql_rows db" "sql_topics db" using assms by (simp_all add: sql_core_def)
  define db4 where "db4 = (if retain_of p = RLog then evictDepth opts (pp_topicID p) db else db)"
  obtain D where D: "evictDepth opts (pp_topicID p) db = sweep (pp_topicID p) D db" "sweepable (pp_topicID p) (set D) db"
    using evictDepth_sweep(1) [OF rows(1)] by blast
  have db4: "sql_core db4" "pruned (sql_log db t) (sql_removed db t) (sql_log db4 t) (sql_removed db4 t)"
    "sql_head db4 = sql_head db" "hub_sequence db4 = hub_sequence db" "hub_publish_ids db4 = hub_publish_ids db"
    using assms sweep_core [OF assms D(2)] sweep_pruned [OF rows D(2), of t]
    by (simp_all add: db4_def D(1) hub_simps)
  have fin: "finish_publish opts p q db = (case pp_publishID p of None \<Rightarrow> db4
      | Some i \<Rightarrow> complete_claim (pp_topicID p) i q db4)"
    unfolding finish_publish_def db4_def Let_def ..
  have same: "same_frames db4 (finish_publish opts p q db)"
    using complete_claim_frame(1) by (auto simp: fin same_frames_def split: option.split)
  have "hub_subscriptions (finish_publish opts p q db) = hub_subscriptions db4"
    by (simp add: fin complete_claim_frame(2) split: option.split)
  then have "sql_members (finish_publish opts p q db)" using db4(1) by (simp add: sql_core_def sql_members_def)
  then show "sql_core (finish_publish opts p q db)" by (rule same_frames_core [OF same db4(1)])
  note views = same_frames_views [OF same]
  show "pruned (sql_log db t) (sql_removed db t) (sql_log (finish_publish opts p q db) t) (sql_removed (finish_publish opts p q db) t)"
    using db4(2) by (simp add: views)
  show "sql_head (finish_publish opts p q db) = sql_head db" using db4(3) views by simp
  show "hub_sequence (finish_publish opts p q db) = hub_sequence db" using db4(4) views by simp
  show "hub_publish_ids (finish_publish opts p q db) = (case pp_publishID p of None \<Rightarrow> hub_publish_ids db
      | Some i \<Rightarrow> hub_publish_ids (complete_claim (pp_topicID p) i q db))"
    using db4(5) by (simp add: fin complete_claim_def split: option.split)
  show "\<not> exceeds (length (sql_log (finish_publish opts p q db) (pp_topicID p))) (so_maxDepth opts) \<or> retain_of p \<noteq> RLog"
    using evictDepth_sweep(2) [OF rows(1), of opts "pp_topicID p"] by (simp add: views db4_def)
qed

text \<open>The claims after an accepted publish: the new one is there and complete.\<close>

lemma claims_after:
  assumes claims: "sql_claims db" and new: "Option.bind (pp_publishID p) (sql_recorded db (pp_topicID p)) = None"
    and ids: "hub_publish_ids db' = (case pp_publishID p of None \<Rightarrow> hub_publish_ids db1
      | Some i \<Rightarrow> hub_publish_ids (complete_claim (pp_topicID p) i q db1))"
    and db1: "hub_publish_ids db1 = hub_publish_ids (claimed now p db)"
  shows "sql_claims db'" and "pp_publishID p = Some i \<Longrightarrow> sql_recorded db' (pp_topicID p) i = Some q"
proof -
  have "sql_claims db' \<and> (\<forall>i. pp_publishID p = Some i \<longrightarrow> sql_recorded db' (pp_topicID p) i = Some q)"
  proof (cases "pp_publishID p")
    case None
    with claims ids db1 show ?thesis by (simp add: sql_claims_def claimed_def)
  next
    case (Some i)
    let ?key = "\<lambda>r. hp_topic_id r = pp_topicID p \<and> hp_publish_id r = i"
    let ?new = "\<lparr>hp_topic_id = pp_topicID p, hp_publish_id = i, hp_sequence_id = Some q, hp_recorded_at = now\<rparr>"
    have fresh: "claim_row (pp_topicID p) i db = None"
      using new Some recorded_claim [OF claims] by simp
    then have none: "\<not> ?key r" if "r \<in> set (hub_publish_ids db)" for r
      using that by (auto simp: claim_row_def find_None_iff)
    have old: "map (\<lambda>r. if ?key r then r\<lparr>hp_sequence_id := Some q\<rparr> else r) (hub_publish_ids db) = hub_publish_ids db"
      by (rule map_idI) (use none in auto)
    have db': "hub_publish_ids db' = hub_publish_ids db @ [?new]"
      using old by (simp add: ids Some complete_claim_def db1 claimed_def)
    have "sql_claims db'"
      using claims none by (fastforce simp: sql_claims_def db' image_iff)
    moreover have "claim_row (pp_topicID p) i db' = Some ?new"
      using fresh by (simp add: claim_row_def db' find_append)
    ultimately show ?thesis by (simp add: Some sql_recorded_def)
  qed
  then show "sql_claims db'" and "pp_publishID p = Some i \<Longrightarrow> sql_recorded db' (pp_topicID p) i = Some q" by simp_all
qed

definition sql_room :: "hub_db \<Rightarrow> bool" where
  "sql_room db \<longleftrightarrow> hub_sequence db < seq_space"

text \<open>What an accepted publish does, whatever head its first read returned.\<close>

lemma publish_accepted_effect:
  assumes inv: "sql_inv db" and room: "Suc (hub_sequence db) < seq_space"
    and new: "Option.bind (pp_publishID p) (sql_recorded db (pp_topicID p)) = None"
    and db': "db' = finish_publish opts p q (accept_message now p (claimed now p db))"
    and q: "q = formatSequenceID (Suc (hub_sequence db))"
  shows "sql_inv db'" and "hub_sequence db' = Suc (hub_sequence db)"
    and "sql_head db' t = (if retain_of p = RLog \<and> t = pp_topicID p then Some q else sql_head db t)"
    and "pruned (if retain_of p = RLog \<and> t = pp_topicID p then sql_log db t @ [log_frame p q] else sql_log db t)
      (sql_removed db t) (sql_log db' t) (sql_removed db' t)"
    and "pp_publishID p = Some i \<Longrightarrow> sql_recorded db' (pp_topicID p) i = Some q"
proof -
  let ?c = "claimed now p db"
  note frames = same_frames_views [OF claimed_frames(1) [of db now p]]
  have core: "sql_core ?c" using claimed_core inv by (simp add: sql_inv_def)
  have acc: "sql_core (accept_message now p ?c)"
    using accept_message_core [OF core] room frames(4) by simp
  note fin = finish_publish_effect [OF acc, where opts = opts and p = p and q = q, folded db']
  note views = accept_message_views [of now p ?c, unfolded frames, folded q]
  have ids: "hub_publish_ids db' = (case pp_publishID p of None \<Rightarrow> hub_publish_ids (accept_message now p ?c)
      | Some i \<Rightarrow> hub_publish_ids (complete_claim (pp_topicID p) i q (accept_message now p ?c)))" by (rule fin(5))
  have claims: "sql_claims db" using inv by (simp add: sql_inv_def)
  note after = claims_after [OF claims new ids accept_message_tables(4)]
  show "sql_inv db'" using fin(1) after(1) by (simp add: sql_inv_def)
  show "hub_sequence db' = Suc (hub_sequence db)" by (simp add: fin(4) accept_message_tables(3) frames(4))
  show "sql_head db' t = (if retain_of p = RLog \<and> t = pp_topicID p then Some q else sql_head db t)"
    by (simp add: fin(3) views(2))
  show "pruned (if retain_of p = RLog \<and> t = pp_topicID p then sql_log db t @ [log_frame p q] else sql_log db t)
      (sql_removed db t) (sql_log db' t) (sql_removed db' t)"
    using fin(2) [of t] by (simp add: views(1,3))
  show "pp_publishID p = Some i \<Longrightarrow> sql_recorded db' (pp_topicID p) i = Some q" by (rule after(2))
qed

section \<open>The contract holds\<close>

datatype sql_op =
    SqlFetch FetchParams
  | SqlAck did "sequence_id list"
  | SqlPurge int int
  | SqlPurgeSubscriptions int int
  | SqlTrim topic_id sequence_id
  | SqlSubscribe int SubscribeParams
  | SqlUnsubscribe did topic_id
  | SqlStoreKeyPackage int did string "int option"
  | SqlFetchKeyPackages int did "nat option"
  | SqlStoreLastResort did string

fun sql_maintain :: "HubStoreOptions \<Rightarrow> sql_op \<Rightarrow> hub_db \<Rightarrow> hub_db" where
  "sql_maintain opts (SqlFetch p) db = snd (sql_fetch p db)"
| "sql_maintain opts (SqlAck r qs) db = sql_ack r qs db"
| "sql_maintain opts (SqlPurge now olderThan) db = snd (sql_purge opts now olderThan db)"
| "sql_maintain opts (SqlPurgeSubscriptions now olderThan) db = snd (purgeSubscriptions now olderThan db)"
| "sql_maintain opts (SqlTrim t before) db = snd (sql_trim t before db)"
| "sql_maintain opts (SqlSubscribe now p) db = snd (sql_subscribe opts now p db)"
| "sql_maintain opts (SqlUnsubscribe d t) db = sql_unsubscribe d t db"
| "sql_maintain opts (SqlStoreKeyPackage now owner kp na) db = snd (sql_storeKeyPackage opts now owner kp na db)"
| "sql_maintain opts (SqlFetchKeyPackages now owner n) db = snd (sql_fetchKeyPackages now owner n db)"
| "sql_maintain opts (SqlStoreLastResort owner kp) db = sql_storeLastResortKeyPackage owner kp db"

text \<open>What every operation other than publish may do to the frames.\<close>

definition log_kept :: "hub_db \<Rightarrow> hub_db \<Rightarrow> bool" where
  "log_kept db db' \<longleftrightarrow> sql_inv db' \<and> sql_head db' = sql_head db \<and> hub_sequence db' = hub_sequence db \<and>
     (\<forall>t. pruned (sql_log db t) (sql_removed db t) (sql_log db' t) (sql_removed db' t))"

lemma log_kept_frames:
  assumes "sql_inv db" and "same_frames db db'" and "sql_members db'" and "hub_publish_ids db' = hub_publish_ids db"
  shows "log_kept db db'"
  using same_frames_views [OF assms(2)] same_frames_core [OF assms(2) _ assms(3)] assms(1,4)
  by (simp add: log_kept_def sql_inv_def sql_claims_def)

lemma log_kept_trans: "log_kept a b \<Longrightarrow> log_kept b c \<Longrightarrow> log_kept a c"
  unfolding log_kept_def using pruned_trans by metis

lemma log_kept_refl: "sql_inv db \<Longrightarrow> log_kept db db"
  by (simp add: log_kept_def)

lemma log_kept_drop: "sql_inv db \<Longrightarrow> log_kept db (drop_deliveries r qs db)"
  using drop_deliveries_core drop_deliveries_log drop_deliveries_tables
  by (simp add: log_kept_def sql_inv_def sql_claims_def)

lemma log_kept_ack: "sql_inv db \<Longrightarrow> log_kept db (sql_ack r qs db)"
  using log_kept_drop log_kept_refl by (simp add: sql_ack_def)

lemma log_kept_trim:
  assumes "sql_inv db"
  shows "log_kept db (snd (sql_trim t before db))"
proof -
  have rows: "sql_rows db" "sql_topics db" "sql_core db" using assms by (simp_all add: sql_inv_def sql_core_def)
  obtain D where D: "sql_trim t before db = (Inr (), sweep t D db)" "sweepable t (set D) db"
    using sql_trim_sweep [OF rows(1)] by blast
  show ?thesis
    using sweep_core [OF rows(3) D(2)] sweep_pruned [OF rows(1,2) D(2)] assms
    by (simp add: D(1) log_kept_def hub_simps sql_inv_def sql_claims_def)
qed

lemma log_kept_purge:
  assumes "sql_inv db"
  shows "log_kept db (snd (sql_purge opts now olderThan db))"
proof -
  let ?db1 = "db\<lparr>hub_publish_ids := filter (\<lambda>r. \<not> hp_recorded_at r \<le> now - PUBLISH_ID_RETENTION_SECONDS * 1000)
    (hub_publish_ids db)\<rparr>"
  have same: "same_frames db ?db1" by (simp add: same_frames_def)
  have members: "sql_members ?db1" using assms by (simp add: sql_inv_def sql_core_def sql_members_def)
  have core: "sql_core ?db1"
    by (rule same_frames_core [OF same _ members]) (use assms in \<open>simp add: sql_inv_def\<close>)
  have claims: "sql_claims ?db1"
    using assms by (auto simp: sql_inv_def sql_claims_def intro: distinct_map_filter)
  let ?thr = "purge_threshold opts now olderThan ?db1" and ?ts = "sort (remdups (map hm_topic_id (hub_messages ?db1)))"
  obtain ids db' where run: "purge_topics ?thr ?ts ?db1 = (Inr ids, db')"
    using purge_topics_effect [OF core, of ?thr ?ts] by blast
  have eff: "sql_core db'" "sql_head db' = sql_head ?db1" "hub_sequence db' = hub_sequence ?db1"
    "hub_publish_ids db' = hub_publish_ids ?db1"
    "pruned (sql_log ?db1 t) (sql_removed ?db1 t) (sql_log db' t) (sql_removed db' t)" for t
    using purge_topics_effect [OF core, of ?thr ?ts t] run by auto
  have "snd (sql_purge opts now olderThan db) = db'"
    unfolding sql_purge_def Let_def run by simp
  then show ?thesis
    using eff claims same_frames_views [OF same] by (simp add: log_kept_def sql_inv_def sql_claims_def)
qed

lemma sql_maintain_kept:
  assumes "sql_inv db"
  shows "log_kept db (sql_maintain opts op db)"
proof (cases op)
  case (SqlFetch p)
  then show ?thesis
    using log_kept_ack [OF assms] log_kept_refl [OF assms] by (simp add: sql_fetch_def Let_def split: option.split)
next
  case (SqlUnsubscribe d t)
  let ?db1 = "db\<lparr>hub_subscriptions := filter (\<lambda>r. \<not> (hs_topic_id r = t \<and> hs_subscriber_did r = d)) (hub_subscriptions db)\<rparr>"
  note un = unsubscribe_tables [where d = d and t = t and db = db]
  have "log_kept db ?db1"
    by (rule log_kept_frames [OF assms un(2) un(3)]) (use assms in \<open>simp_all add: sql_inv_def sql_core_def\<close>)
  moreover from this have "log_kept ?db1 (drop_deliveries d qs ?db1)" for qs
    using log_kept_drop by (simp add: log_kept_def)
  ultimately show ?thesis using un(1) SqlUnsubscribe log_kept_trans by (auto split: if_splits)
next
  case (SqlSubscribe now p)
  have "log_kept db (snd (sql_subscribe opts now p db))"
    by (rule log_kept_frames [OF assms subscribe_frames(1) subscribe_members subscribe_frames(2)])
      (use assms in \<open>simp add: sql_inv_def sql_core_def\<close>)
  then show ?thesis by (simp add: SqlSubscribe)
next
  case (SqlPurgeSubscriptions now olderThan)
  have "log_kept db (snd (purgeSubscriptions now olderThan db))"
    by (rule log_kept_frames [OF assms])
      (use assms in \<open>auto simp: purgeSubscriptions_def Let_def same_frames_def sql_inv_def sql_core_def sql_members_def
        intro: distinct_map_filter\<close>)
  then show ?thesis by (simp add: SqlPurgeSubscriptions)
next
  case (SqlStoreKeyPackage now owner kp na)
  have "log_kept db (snd (sql_storeKeyPackage opts now owner kp na db))"
    by (rule log_kept_frames [OF assms])
      (use assms in \<open>auto simp: sql_storeKeyPackage_def deleteExpiredKeyPackages_def Let_def same_frames_def
        sql_inv_def sql_core_def sql_members_def\<close>)
  then show ?thesis by (simp add: SqlStoreKeyPackage)
next
  case (SqlFetchKeyPackages now owner n)
  have "log_kept db (snd (sql_fetchKeyPackages now owner n db))"
    by (rule log_kept_frames [OF assms])
      (use assms in \<open>auto simp: sql_fetchKeyPackages_def deleteExpiredKeyPackages_def Let_def same_frames_def
        sql_inv_def sql_core_def sql_members_def\<close>)
  then show ?thesis by (simp add: SqlFetchKeyPackages)
next
  case (SqlStoreLastResort owner kp)
  have "log_kept db (sql_storeLastResortKeyPackage owner kp db)"
    by (rule log_kept_frames [OF assms])
      (use assms in \<open>auto simp: sql_storeLastResortKeyPackage_def same_frames_def sql_inv_def sql_core_def sql_members_def\<close>)
  then show ?thesis by (simp add: SqlStoreLastResort)
qed (use assms in \<open>simp_all add: log_kept_ack log_kept_trim log_kept_purge\<close>)

lemma sql_publish_cases:
  assumes inv: "sql_inv db"
  obtains (replay) i q where "pp_publishID p = Some i" "sql_recorded db (pp_topicID p) i = Some q"
      "sql_publish opts now p db = (Inr \<lparr>pr_sequenceID = q, pr_deduped = True\<rparr>, db)"
    | (mismatch) msg where "Option.bind (pp_publishID p) (sql_recorded db (pp_topicID p)) = None"
      "sql_publish opts now p db = (Inl (HubError HeadMismatchError msg), db)" "\<not> head_free p (sql_head db (pp_topicID p))"
    | (accept) "Option.bind (pp_publishID p) (sql_recorded db (pp_topicID p)) = None"
      "head_free p (sql_head db (pp_topicID p))"
      "sql_publish opts now p db = (Inr \<lparr>pr_sequenceID = formatSequenceID (Suc (hub_sequence db)), pr_deduped = False\<rparr>,
        finish_publish opts p (formatSequenceID (Suc (hub_sequence db))) (accept_message now p (claimed now p db)))"
proof (cases "Option.bind (pp_publishID p) (sql_recorded db (pp_topicID p))")
  case (Some q)
  then obtain i where "pp_publishID p = Some i" "sql_recorded db (pp_topicID p) i = Some q"
    by (auto simp: bind_eq_Some_conv)
  with that(1) sql_publish_replay show ?thesis by (simp add: sql_publish_def withStoreTransaction_def)
next
  case None
  let ?cur = "lockTopic (pp_topicID p) db"
  have seq: "hub_sequence (claimed now p db) = hub_sequence db"
    and lock: "lockTopic (pp_topicID p) (claimed now p db) = sql_head db (pp_topicID p)"
    using same_frames_views [OF claimed_frames(1) [of db now p]] by (simp_all add: lockTopic_head)
  have body: "publish_body opts now p ?cur db = publish_claimed opts now p ?cur (claimed now p db)"
    by (rule sql_publish_new [OF _ None]) (use inv in \<open>simp add: sql_inv_def\<close>)
  show ?thesis
  proof (cases rule: publish_claimed_cases [of opts now p ?cur "claimed now p db"])
    case (mismatch msg db')
    then have "sql_publish opts now p db = (Inl (HubError HeadMismatchError msg), db)"
      by (simp add: sql_publish_def withStoreTransaction_def body)
    moreover have "\<not> head_free p (sql_head db (pp_topicID p))"
      using mismatch(2) lock by (auto simp: lockTopic_head)
    ultimately show ?thesis using that(2) None by blast
  next
    case accept
    then show ?thesis
      using that(3) None seq body by (simp add: sql_publish_def withStoreTransaction_def lockTopic_head)
  qed
qed

text \<open>The counter never moves back, and only a publish moves it.\<close>

lemma sequence_frames:
  "hub_sequence (deleteFrames qs db) = hub_sequence db"
  "hub_sequence (advanceRemovedThrough t q db) = hub_sequence db"
  "hub_sequence (evictDepth opts t db) = hub_sequence db"
  by (simp_all add: deleteFrames_all delete_chunk_def advanceRemovedThrough_def evictDepth_def Let_def split: option.split)

lemma finish_sequence: "hub_sequence (finish_publish opts p q db) = hub_sequence db"
  by (simp add: finish_publish_def Let_def complete_claim_def sequence_frames split: option.split)

lemma sql_publish_sequence: "hub_sequence db \<le> hub_sequence (snd (sql_publish opts now p db))"
proof -
  have claimed: "hub_sequence db \<le> hub_sequence db'"
    if "publish_claimed opts now p cur db0 = (Inr r, db')" "hub_sequence db0 = hub_sequence db" for db0 cur r db'
    using that by (cases rule: publish_claimed_cases [of opts now p cur db0])
      (auto simp: finish_sequence accept_message_tables(3))
  have "hub_sequence db \<le> hub_sequence db'"
    if "publish_body opts now p cur db = (Inr r, db')" for cur r db'
    using that claimed
    by (auto simp: publish_body_def claim_publish_id_def split: option.splits)
  then show ?thesis
    by (auto simp: sql_publish_def withStoreTransaction_def split: prod.split sum.split)
qed

lemma purge_topics_sequence: "hub_sequence (snd (purge_topics threshold ts db)) = hub_sequence db"
proof (induction ts arbitrary: db)
  case (Cons t ts)
  have "hub_sequence (snd (withStoreTransaction (purge_topic t (threshold t)) db)) = hub_sequence db"
    by (simp add: withStoreTransaction_def purge_topic_def Let_def sequence_frames split: list.split)
  with Cons.IH show ?case
    by (auto split: prod.split sum.split) (metis snd_conv)+
qed simp

lemma sql_maintain_sequence: "hub_sequence (sql_maintain opts op db) = hub_sequence db"
proof (cases op)
  case (SqlPurge now olderThan)
  let ?db1 = "db\<lparr>hub_publish_ids := filter (\<lambda>r. \<not> hp_recorded_at r \<le> now - PUBLISH_ID_RETENTION_SECONDS * 1000)
    (hub_publish_ids db)\<rparr>"
  have "hub_sequence (snd (purge_topics thr ts ?db1)) = hub_sequence db" for thr ts
    by (simp add: purge_topics_sequence)
  then show ?thesis
    unfolding SqlPurge sql_maintain.simps sql_purge_def Let_def
    by (simp split: prod.split sum.split) (metis snd_conv)
qed (simp_all add: sql_fetch_def sql_ack_def drop_deliveries_tables(4) sql_trim_def withStoreTransaction_def trim_body_def
    sequence_frames purgeSubscriptions_def sql_subscribe_def sql_unsubscribe_def sql_storeKeyPackage_def
    sql_fetchKeyPackages_def deleteExpiredKeyPackages_def sql_storeLastResortKeyPackage_def Let_def split: option.split)

lemma sql_fetchTopic_view:
  assumes inv: "sql_inv db" and sub: "sql_isSubscriber db (ft_topicID f) (ft_subscriberDID f)"
  shows "sql_fetchTopic f db = Inr (topic_view (sql_log db (ft_topicID f)) (sql_head db (ft_topicID f))
    (sql_removed db (ft_topicID f)) f)"
proof -
  let ?t = "ft_topicID f"
  have rows: "sql_rows db" using inv by (simp add: sql_inv_def sql_core_def)
  let ?X = "filter (is_log_row ?t) (hub_messages db)"
  have X: "filter (\<lambda>m. hm_topic_id m = ?t \<and> hm_retain m = RLog) (hub_messages db) = ?X"
    by (rule filter_cong) (simp_all add: is_log_row_def)
  have oldest: "sql_min (map hm_sequence_id ?X) = (case sql_log db ?t of [] \<Rightarrow> None | m # _ \<Rightarrow> Some (sm_sequenceID m))"
    unfolding sql_min_hd [OF sorted_log_rows [OF rows]]
    by (cases ?X) (simp_all add: sql_log_def as_message_def)
  have past: "map as_message (log_rows ?t (\<lambda>m. case ft_after f of None \<Rightarrow> True | Some a \<Rightarrow> a < hm_sequence_id m) db) =
      (case ft_after f of None \<Rightarrow> sql_log db ?t | Some a \<Rightarrow> filter (\<lambda>m. a < sm_sequenceID m) (sql_log db ?t))"
    unfolding log_rows_eq [OF rows] sql_log_def
    by (cases "ft_after f") (simp_all add: filter_map o_def as_message_def del: filter_filter)
  show ?thesis
    unfolding sql_fetchTopic_def topic_view_def Let_def X oldest past [symmetric] sql_head_def sql_removed_def
    using sub by (cases "ft_limit f") (simp_all add: take_map)
qed

interpretation sql: hub_log_store hubStoreMigrations sql_inv sql_room sql_log sql_head sql_removed sql_recorded
    sql_isSubscriber "sql_publish opts" sql_fetchTopic "sql_maintain opts"
  for opts
proof (unfold_locales, goal_cases)
  case 1 show ?case by (rule migrated_inv)
next
  case (2 t) show ?case by (simp add: hubStoreMigrations_def sql_log_def)
next
  case (3 t) show ?case by (simp add: hubStoreMigrations_def sql_head_def topic_row_def)
next
  case (4 t) show ?case by (simp add: hubStoreMigrations_def sql_removed_def topic_row_def)
next
  case (5 s p i q now) then show ?case
    by (simp add: sql_publish_def withStoreTransaction_def sql_publish_replay)
next
  case (6 s p h now)
  from 6(1) show ?case
    by (cases rule: sql_publish_cases [of s p opts now]) (use 6 in \<open>auto simp: head_free_def\<close>)
next
  case (7 s p now)
  from 7(1) show ?case
    by (cases rule: sql_publish_cases [of s p opts now]) (use 7 in \<open>auto simp: head_free_def\<close>)
next
  case (8 now p s) then show ?case
    using sql_publish_sequence [of s opts now p] by (simp add: sql_room_def)
next
  case (9 s now p q s')
  from 9(1) show ?case
  proof (cases rule: sql_publish_cases [of s p opts now])
    case accept
    then have q: "q = formatSequenceID (Suc (hub_sequence s))"
      and s': "s' = finish_publish opts p q (accept_message now p (claimed now p s))" using 9(2) by auto
    have "hub_sequence s' = Suc (hub_sequence s)"
      using finish_sequence accept_message_tables(3) same_frames_views(4) [OF claimed_frames(1)] by (simp add: s')
    then have room: "Suc (hub_sequence s) < seq_space" using 9(3) by (simp add: sql_room_def)
    note eff = publish_accepted_effect [OF 9(1) room accept(1) s' q]
    have "h < q" if "sql_head s t = Some h" for t h
    proof -
      have topics: "sql_topics s" using 9(1) by (simp add: sql_inv_def sql_core_def)
      from that obtain row where "topic_row t s = Some row" "h = ht_head row" by (auto simp: sql_head_def)
      then have "minted (hub_sequence s) h"
        using topics unfolding topic_row_iff [OF topics] by (simp add: sql_topics_def)
      then show ?thesis using minted_less_next room q by simp
    qed
    then show ?thesis using eff by blast
  qed (use 9(2) in auto)
next
  case (10 s op) then show ?case using sql_maintain_kept by (simp add: log_kept_def)
next
  case (11 op s) show ?case by (simp add: sql_room_def sql_maintain_sequence)
next
  case (12 s op t) then show ?case using sql_maintain_kept by (simp add: log_kept_def)
next
  case (13 s op t) then show ?case using sql_maintain_kept by (simp add: log_kept_def)
next
  case (14 s f) then show ?case by (simp add: sql_fetchTopic_view)
next
  case (15 s f) then show ?case by (simp add: sql_fetchTopic_def Let_def)
qed

end
