(* ===== verification/SQL_Props.thy ===== *)
theory SQL_Props
  imports SQL_Spec
begin

text \<open>
  What the SQL store promises: the laws of the log inherited from the contract, the compare-and-set
  under a racing writer, chunked deletes, the age bound, and how long an idempotency record lasts.
\<close>

section \<open>Runs of the SQL store\<close>

abbreviation sql_run :: "HubStoreOptions \<Rightarrow> hub_db \<Rightarrow> history \<Rightarrow> hub_db \<Rightarrow> history \<Rightarrow> bool" where
  "sql_run opts \<equiv> hub_run (sql_publish opts) (sql_maintain opts)"

lemma pruned_shorter: "pruned l r l' r' \<Longrightarrow> length l' \<le> length l"
  by (auto simp: pruned_def)

lemma sql_run_depth:
  assumes "sql_run opts hubStoreMigrations no_history db H" and "sql_room db"
  shows "\<not> exceeds (length (sql_log db t)) (so_maxDepth opts)"
  using assms
proof (induction rule: hub_run.induct)
  case start
  show ?case by (simp add: hubStoreMigrations_def sql_log_def exceeds_def split: option.split)
next
  case (publish db H now p r db')
  have room: "sql_room db"
    using sql_publish_sequence [of db opts now p] publish.prems publish.hyps(2) by (simp add: sql_room_def)
  then have inv: "sql_inv db" using sql.run_from_init_keeps(1) [OF publish.hyps(1)] by blast
  from inv show ?case
  proof (cases rule: sql_publish_cases [of db p opts now])
    case accept
    let ?q = "formatSequenceID (Suc (hub_sequence db))"
    let ?a = "accept_message now p (claimed now p db)"
    have db': "db' = finish_publish opts p ?q ?a" using accept(3) publish.hyps(2) by simp
    have seq: "hub_sequence (claimed now p db) = hub_sequence db"
      using same_frames_views(4) [OF claimed_frames(1)] .
    have "hub_sequence db' = Suc (hub_sequence db)"
      by (simp add: db' finish_sequence accept_message_tables(3) seq)
    then have room': "Suc (hub_sequence db) < seq_space" using publish.prems by (simp add: sql_room_def)
    have core: "sql_core ?a"
      using accept_message_core [OF claimed_core] inv room' seq by (simp add: sql_inv_def)
    show ?thesis
    proof (cases "retain_of p = RLog \<and> t = pp_topicID p")
      case True
      with finish_publish_effect(6) [OF core, of opts p ?q] show ?thesis by (simp add: db')
    next
      case False
      then have "pruned (sql_log db t) (sql_removed db t) (sql_log db' t) (sql_removed db' t)"
        using publish_accepted_effect(4) [OF inv room' accept(1) db' refl, of t] by auto
      with publish.IH [OF room] show ?thesis
        by (auto simp: exceeds_def dest: pruned_shorter split: option.splits)
    qed
  qed (use publish.hyps(2) publish.IH [OF room] in auto)
next
  case (maintain db H op)
  have room: "sql_room db" using maintain.prems by (simp add: sql_room_def sql_maintain_sequence)
  have "log_kept db (sql_maintain opts op db)"
    by (rule sql_maintain_kept) (use sql.run_from_init_keeps(1) [OF maintain.hyps room] in simp)
  then have "length (sql_log (sql_maintain opts op db) t) \<le> length (sql_log db t)"
    unfolding log_kept_def using pruned_shorter by blast
  with maintain.IH [OF room] show ?case by (auto simp: exceeds_def split: option.splits)
qed

text \<open>A run for the examples: one subscriber, one log publish.\<close>

definition sql_first :: PublishParams where
  "sql_first = \<lparr>pp_senderDID = ''did:a'', pp_topicID = ''t'', pp_payload = [1], pp_expectedHead = Some None,
     pp_publishID = Some ''p1'', pp_retain = Some RLog\<rparr>"

definition sql_joined :: hub_db where
  "sql_joined = sql_maintain default_store_options
     (SqlSubscribe 0 \<lparr>sp_subscriberDID = ''did:b'', sp_topicID = ''t'', sp_retention = None\<rparr>) hubStoreMigrations"

definition sql_after :: hub_db where
  "sql_after = snd (sql_publish default_store_options 0 sql_first sql_joined)"

abbreviation sq1 :: sequence_id where "sq1 \<equiv> formatSequenceID 1"

lemma sql_joined_state: "sql_joined = hubStoreMigrations\<lparr>hub_subscriptions :=
    [\<lparr>hs_topic_id = ''t'', hs_subscriber_did = ''did:b'', hs_last_active_at = 0, hs_retention = 0\<rparr>]\<rparr>"
  by (simp add: sql_joined_def sql_subscribe_def hubStoreMigrations_def default_store_options_def Let_def)

lemma sql_publish_first:
  "sql_publish default_store_options 0 sql_first sql_joined = (Inr \<lparr>pr_sequenceID = sq1, pr_deduped = False\<rparr>, sql_after)"
  and sql_after_state: "sql_after = sql_joined\<lparr>hub_sequence := 1,
    hub_messages := [\<lparr>hm_sequence_id = sq1, hm_sender_did = ''did:a'', hm_topic_id = ''t'', hm_payload = [1],
      hm_stored_at = 0, hm_retain = RLog\<rparr>],
    hub_deliveries := [\<lparr>hd_sequence_id = sq1, hd_recipient_did = ''did:b''\<rparr>],
    hub_topics := [\<lparr>ht_topic_id = ''t'', ht_head = sq1, ht_removed_through = None\<rparr>],
    hub_publish_ids := [\<lparr>hp_topic_id = ''t'', hp_publish_id = ''p1'', hp_sequence_id = Some sq1, hp_recorded_at = 0\<rparr>]\<rparr>"
  by (simp_all add: sql_after_def sql_publish_def withStoreTransaction_def publish_body_def claim_publish_id_def
      claim_row_def publish_claimed_def nextSequenceID_def append_message_def advance_head_def topic_row_def
      insert_topic_def evictDepth_def log_rows_def complete_claim_def lockTopic_def sql_first_def sql_joined_state
      hubStoreMigrations_def default_store_options_def retain_of_def Let_def)

definition sql_first_history :: history where
  "sql_first_history = record_publish sql_first (Inr \<lparr>pr_sequenceID = sq1, pr_deduped = False\<rparr>) no_history"

lemma sql_run_joined: "sql_run default_store_options hubStoreMigrations no_history sql_joined no_history"
  unfolding sql_joined_def by (rule hub_run.maintain [OF hub_run.start])

lemma sql_run_after: "sql_run default_store_options hubStoreMigrations no_history sql_after sql_first_history"
  unfolding sql_first_history_def
  by (rule hub_run.publish [where publish = "sql_publish default_store_options", OF sql_run_joined sql_publish_first])

lemma sql_after_room: "sql_room sql_after"
  by (simp add: sql_after_state sql_room_def seq_space_def)

section \<open>Properties of the log\<close>

text \<open>
  Claim C31. In every state the SQL store can reach, the tables agree with each other (positions strictly
  increase, each log frame has a topic row whose head is at or past it, no removal watermark covers a
  kept frame, every claimed publish id is complete, every delivery names a stored frame and every
  mailbox frame has a delivery), a topic's log is the accepted history less a prefix, its head row
  names the last frame accepted, and no log is deeper than the bound.
\<close>

theorem sql_run_invariant:
  assumes "sql_run opts hubStoreMigrations no_history db H" and "sql_room db"
  shows "sql_inv db \<and> (\<exists>k \<le> length (H t). sql_log db t = drop k (H t)) \<and>
    sql_head db t = (if H t = [] then None else Some (sm_sequenceID (last (H t)))) \<and>
    \<not> exceeds (length (sql_log db t)) (so_maxDepth opts)"
  using sql.run_from_init_keeps [OF assms] sql_run_depth [OF assms] by (auto simp: keeps_def pruned_def)

theorem sql_run_invariant_witness:
  "sql_inv sql_after \<and> (\<exists>k \<le> length (sql_first_history ''t''). sql_log sql_after ''t'' = drop k (sql_first_history ''t'')) \<and>
    sql_head sql_after ''t'' = (if sql_first_history ''t'' = [] then None
      else Some (sm_sequenceID (last (sql_first_history ''t'')))) \<and>
    \<not> exceeds (length (sql_log sql_after ''t'')) (so_maxDepth default_store_options)"
  by (rule sql_run_invariant [OF sql_run_after sql_after_room])

text \<open>
  Claim C3. A read of the SQL store's log tells a subscriber exactly when an accepted frame past its cursor
  is gone, and otherwise hands over the accepted history past the cursor, cut at the limit, with the
  head of the history; anyone else is refused.
\<close>

theorem sql_fetchTopic_truthful:
  assumes "sql_run opts hubStoreMigrations no_history db H" and "sql_room db"
  shows "case sql_fetchTopic f db of
      Inl e \<Rightarrow> \<not> sql_isSubscriber db (ft_topicID f) (ft_subscriberDID f) \<and> (\<exists>msg. e = HubError NotSubscribedError msg)
    | Inr r \<Rightarrow> sql_isSubscriber db (ft_topicID f) (ft_subscriberDID f) \<and>
        (fr_gap r \<longleftrightarrow> (\<exists>m \<in> set (H (ft_topicID f)). m \<notin> set (sql_log db (ft_topicID f)) \<and>
            past_cursor (ft_after f) (sm_sequenceID m))) \<and>
        (fr_gap r \<or> fr_messages r = (let l = filter (\<lambda>m. past_cursor (ft_after f) (sm_sequenceID m)) (H (ft_topicID f))
            in case ft_limit f of None \<Rightarrow> l | Some n \<Rightarrow> take n l)) \<and>
        fr_head r = (if H (ft_topicID f) = [] then None else Some (sm_sequenceID (last (H (ft_topicID f)))))"
proof (cases "sql_fetchTopic f db")
  case (Inl e)
  then show ?thesis by (auto simp: sql_fetchTopic_def Let_def split: if_splits)
next
  case (Inr r)
  moreover from Inr have "sql_isSubscriber db (ft_topicID f) (ft_subscriberDID f)"
    by (auto simp: sql_fetchTopic_def Let_def split: if_splits)
  ultimately show ?thesis
    using sql.fetch_gap_exact [OF assms Inr] sql.fetch_no_gap_complete [OF assms Inr]
      sql.fetch_head_stored [OF assms Inr] by simp blast
qed

theorem sql_fetchTopic_truthful_witness:
  "case sql_fetchTopic \<lparr>ft_subscriberDID = ''did:b'', ft_topicID = ''t'', ft_after = None, ft_limit = None\<rparr> sql_after of
     Inl e \<Rightarrow> False | Inr r \<Rightarrow> fr_head r = Some sq1 \<and> \<not> fr_gap r \<and> fr_messages r = sql_first_history ''t''"
proof -
  have sub: "sql_isSubscriber sql_after ''t'' ''did:b''"
    by (simp add: sql_isSubscriber_def sql_after_state sql_joined_state)
  have log: "sql_log sql_after ''t'' = sql_first_history ''t''"
    by (simp add: sql_log_def sql_after_state is_log_row_def as_message_def sql_first_history_def record_publish_def
        sql_first_def retain_of_def log_frame_def)
  have hist: "sql_first_history ''t'' = [log_frame sql_first sq1]"
    by (simp add: sql_first_history_def record_publish_def sql_first_def retain_of_def)
  show ?thesis
    using sql_fetchTopic_truthful [OF sql_run_after sql_after_room,
        of "\<lparr>ft_subscriberDID = ''did:b'', ft_topicID = ''t'', ft_after = None, ft_limit = None\<rparr>"] sub
    by (auto simp: log past_cursor_def hist log_frame_def split: sum.splits)
qed

text \<open>
  Claim C11. The compare-and-set is decided by the head write, not by the first read: whatever head a
  transaction's first read returned, a log publish that names an expected head is accepted as new only
  when that is the head stored at its write, and it then becomes the head. A transaction that throws leaves
  every table as it was by the contract of the transaction wrapper, which is outside the repository.
\<close>

theorem sql_publish_race:
  assumes "sql_inv db" and "Suc (hub_sequence db) < seq_space" and "pp_expectedHead p = Some h" and "retain_of p = RLog"
  shows "case withStoreTransaction (publish_body opts now p seen) db of
      (Inl e, db') \<Rightarrow> db' = db
    | (Inr res, db') \<Rightarrow> if pr_deduped res then db' = db
        else sql_head db (pp_topicID p) = h \<and> sql_head db' (pp_topicID p) = Some (pr_sequenceID res) \<and>
          (\<forall>t. t = pp_topicID p \<or> sql_head db' t = sql_head db t) \<and> sql_inv db'"
proof (cases "Option.bind (pp_publishID p) (sql_recorded db (pp_topicID p))")
  case (Some q)
  then obtain i where "pp_publishID p = Some i" "sql_recorded db (pp_topicID p) i = Some q"
    by (auto simp: bind_eq_Some_conv)
  then show ?thesis by (simp add: withStoreTransaction_def sql_publish_replay)
next
  case None
  have body: "publish_body opts now p seen db = publish_claimed opts now p seen (claimed now p db)"
    by (rule sql_publish_new [OF _ None]) (use assms(1) in \<open>simp add: sql_inv_def\<close>)
  note frames = same_frames_views [OF claimed_frames(1) [of db now p]]
  show ?thesis
  proof (cases rule: publish_claimed_cases [of opts now p seen "claimed now p db"])
    case (mismatch msg db')
    then show ?thesis by (simp add: withStoreTransaction_def body)
  next
    case accept
    then have "sql_head db (pp_topicID p) = h"
      using assms(3,4) frames(2) by (auto simp: head_free_def lockTopic_head)
    with accept(1) frames(4) assms(4) show ?thesis
      using publish_accepted_effect [OF assms(1,2) None refl refl, where opts = opts and now = now]
      by (simp add: withStoreTransaction_def body)
  qed
qed

theorem sql_publish_race_witness:
  "withStoreTransaction (publish_body default_store_options 7 (sql_first\<lparr>pp_publishID := Some ''p2''\<rparr>) None) sql_after =
     (Inl (HubError HeadMismatchError ''head mismatch: expected null, a concurrent publish set the head first''), sql_after)"
proof -
  let ?p = "sql_first\<lparr>pp_publishID := Some ''p2''\<rparr>"
  have inv: "sql_inv sql_after" by (rule sql.run_from_init_keeps(1) [OF sql_run_after sql_after_room])
  have "fst (withStoreTransaction (publish_body default_store_options 7 ?p None) sql_after) =
      Inl (HubError HeadMismatchError ''head mismatch: expected null, a concurrent publish set the head first'')"
    by (simp add: withStoreTransaction_def publish_body_def claim_publish_id_def claim_row_def sql_after_state
        publish_claimed_def nextSequenceID_def append_message_def advance_head_def topic_row_def sql_first_def
        sql_joined_state hubStoreMigrations_def retain_of_def Let_def)
  then show ?thesis
    using sql_publish_race [OF inv, of ?p None default_store_options 7 None]
    by (cases "withStoreTransaction (publish_body default_store_options 7 ?p None) sql_after")
      (simp add: sql_after_state sql_first_def retain_of_def seq_space_def)
qed

section \<open>Idempotency records\<close>

text \<open>A run in which every purge reads a clock before the deadline.\<close>

definition before_deadline :: "int \<Rightarrow> sql_op \<Rightarrow> bool" where
  "before_deadline deadline op = (case op of SqlPurge now _ \<Rightarrow> now < deadline | _ \<Rightarrow> True)"

abbreviation sql_run_until :: "HubStoreOptions \<Rightarrow> int \<Rightarrow> hub_db \<Rightarrow> history \<Rightarrow> hub_db \<Rightarrow> history \<Rightarrow> bool" where
  "sql_run_until opts deadline \<equiv> hub_run (sql_publish opts)
     (\<lambda>op db. if before_deadline deadline op then sql_maintain opts op db else db)"

text \<open>The record of one publish id, with the time it was claimed.\<close>

definition recorded_since :: "int \<Rightarrow> topic_id \<Rightarrow> string \<Rightarrow> sequence_id \<Rightarrow> hub_db \<Rightarrow> bool" where
  "recorded_since since t i q db \<longleftrightarrow> (\<exists>r. claim_row t i db = Some r \<and> hp_sequence_id r = Some q \<and> since \<le> hp_recorded_at r)"

lemma find_filter_kept: "find P xs = Some x \<Longrightarrow> Q x \<Longrightarrow> (\<And>y. y \<in> set xs \<Longrightarrow> P y \<Longrightarrow> y = x) \<Longrightarrow> find P (filter Q xs) = Some x"
  by (induction xs) (auto split: if_splits)

lemma claim_unique:
  assumes "sql_claims db" and "r \<in> set (hub_publish_ids db)" "r' \<in> set (hub_publish_ids db)"
    and "hp_topic_id r = hp_topic_id r'" "hp_publish_id r = hp_publish_id r'"
  shows "r = r'"
  using assms by (auto simp: sql_claims_def distinct_map inj_on_def)

lemma recorded_since_ids: "hub_publish_ids db' = hub_publish_ids db \<Longrightarrow> recorded_since since t i q db' = recorded_since since t i q db"
  by (simp add: recorded_since_def claim_row_def)

lemma maintain_publish_ids:
  assumes "sql_inv db" and "\<forall>now olderThan. op \<noteq> SqlPurge now olderThan"
  shows "hub_publish_ids (sql_maintain opts op db) = hub_publish_ids db"
proof (cases op)
  case (SqlTrim t before)
  have "sql_rows db" using assms(1) by (simp add: sql_inv_def sql_core_def)
  then obtain D where "sql_trim t before db = (Inr (), sweep t D db)" using sql_trim_sweep by blast
  with SqlTrim show ?thesis by (simp add: hub_simps)
qed (use assms(2) in \<open>simp_all add: sql_fetch_def sql_ack_def drop_deliveries_tables(5) purgeSubscriptions_def sql_subscribe_def
    sql_unsubscribe_def sql_storeKeyPackage_def sql_fetchKeyPackages_def deleteExpiredKeyPackages_def
    sql_storeLastResortKeyPackage_def Let_def split: option.split\<close>)

lemma recorded_since_maintain:
  assumes inv: "sql_inv db" and rec: "recorded_since since t i q db"
    and op: "before_deadline (since + PUBLISH_ID_RETENTION_SECONDS * 1000) op"
  shows "recorded_since since t i q (sql_maintain opts op db)"
proof (cases "\<exists>now olderThan. op = SqlPurge now olderThan")
  case False
  then have "hub_publish_ids (sql_maintain opts op db) = hub_publish_ids db"
    by (intro maintain_publish_ids [OF inv]) simp
  with rec show ?thesis by (simp add: recorded_since_def claim_row_def)
next
  case True
  then obtain now olderThan where purge: "op = SqlPurge now olderThan" by blast
  let ?keep = "\<lambda>r. \<not> hp_recorded_at r \<le> now - PUBLISH_ID_RETENTION_SECONDS * 1000"
  let ?db1 = "db\<lparr>hub_publish_ids := filter ?keep (hub_publish_ids db)\<rparr>"
  have core: "sql_core ?db1"
    by (rule same_frames_core [of db]) (use inv in \<open>simp_all add: same_frames_def sql_inv_def sql_core_def sql_members_def\<close>)
  obtain gone db' where run: "purge_topics (purge_threshold opts now olderThan ?db1)
      (sort (remdups (map hm_topic_id (hub_messages ?db1)))) ?db1 = (Inr gone, db')"
    and "hub_publish_ids db' = hub_publish_ids ?db1"
    using purge_topics_effect [OF core, of "purge_threshold opts now olderThan ?db1"
        "sort (remdups (map hm_topic_id (hub_messages ?db1)))"] by blast
  then have ids: "hub_publish_ids (sql_maintain opts op db) = filter ?keep (hub_publish_ids db)"
    unfolding purge sql_maintain.simps sql_purge_def Let_def run by simp
  from rec obtain r where r: "claim_row t i db = Some r" "hp_sequence_id r = Some q" "since \<le> hp_recorded_at r"
    by (auto simp: recorded_since_def)
  have keep: "?keep r" using r(3) op by (simp add: purge before_deadline_def)
  have claims: "sql_claims db" using inv by (simp add: sql_inv_def)
  note mem = find_Some_mem [OF r(1) [unfolded claim_row_def]]
  have "y = r" if "y \<in> set (hub_publish_ids db)" "hp_topic_id y = t \<and> hp_publish_id y = i" for y
    by (rule claim_unique [OF claims that(1)]) (use mem that(2) in simp_all)
  then have "claim_row t i (sql_maintain opts op db) = Some r"
    unfolding claim_row_def ids
    using find_filter_kept [where P = "\<lambda>r. hp_topic_id r = t \<and> hp_publish_id r = i" and Q = ?keep]
      r(1) [unfolded claim_row_def] keep by blast
  with r show ?thesis by (simp add: recorded_since_def)
qed

lemma recorded_since_publish:
  assumes inv: "sql_inv db" and room: "sql_room (snd (sql_publish opts now p db))" and rec: "recorded_since since t i q db"
  shows "recorded_since since t i q (snd (sql_publish opts now p db))"
  using inv
proof (cases rule: sql_publish_cases [of db p opts now])
  case accept
  let ?db' = "snd (sql_publish opts now p db)" and ?q = "formatSequenceID (Suc (hub_sequence db))"
  let ?a = "accept_message now p (claimed now p db)"
  have seq: "hub_sequence (claimed now p db) = hub_sequence db" using same_frames_views(4) [OF claimed_frames(1)] .
  have db': "?db' = finish_publish opts p ?q ?a" using accept(3) by simp
  have "hub_sequence ?db' = Suc (hub_sequence db)" by (simp add: db' finish_sequence accept_message_tables(3) seq)
  then have "Suc (hub_sequence db) < seq_space" using room by (simp add: sql_room_def)
  then have core: "sql_core ?a" using accept_message_core [OF claimed_core] inv seq by (simp add: sql_inv_def)
  have ids: "hub_publish_ids ?db' = (case pp_publishID p of None \<Rightarrow> hub_publish_ids db
      | Some j \<Rightarrow> hub_publish_ids (complete_claim (pp_topicID p) j ?q (claimed now p db)))"
    using finish_publish_effect(5) [OF core, of opts p ?q]
    by (simp add: db' accept_message_tables(4) complete_claim_def claimed_def split: option.splits)
  from rec obtain r where r: "claim_row t i db = Some r" "hp_sequence_id r = Some q" "since \<le> hp_recorded_at r"
    by (auto simp: recorded_since_def)
  show ?thesis
  proof (cases "pp_publishID p")
    case None
    with ids rec show ?thesis by (simp add: recorded_since_def claim_row_def)
  next
    case (Some j)
    have other: "\<not> (t = pp_topicID p \<and> i = j)"
      using accept(1) Some r by (auto simp: sql_recorded_def)
    let ?f = "\<lambda>r. if hp_topic_id r = pp_topicID p \<and> hp_publish_id r = j then r\<lparr>hp_sequence_id := Some ?q\<rparr> else r"
    have "claim_row t i ?db' = map_option ?f (find (\<lambda>r. hp_topic_id r = t \<and> hp_publish_id r = i)
        (hub_publish_ids (claimed now p db)))"
      unfolding claim_row_def ids Some complete_claim_def option.case hub_db.select_convs
      by (simp add: find_map_key)
    also have "\<dots> = Some r"
      using r(1) other find_Some_mem [OF r(1) [unfolded claim_row_def]]
      by (auto simp: claimed_def Some find_append claim_row_def)
    finally show ?thesis using r by (simp add: recorded_since_def)
  qed
qed (use rec in simp_all)

lemma publish_recorded_at:
  assumes inv: "sql_inv db" and pub: "sql_publish opts now p db = (Inr \<lparr>pr_sequenceID = q, pr_deduped = False\<rparr>, db1)"
    and i: "pp_publishID p = Some i" and r: "claim_row (pp_topicID p) i db1 = Some r" and room: "sql_room db1"
  shows "hp_recorded_at r = now"
  using inv
proof (cases rule: sql_publish_cases [of db p opts now])
  case accept
  let ?q = "formatSequenceID (Suc (hub_sequence db))" and ?a = "accept_message now p (claimed now p db)"
  have seq: "hub_sequence (claimed now p db) = hub_sequence db" using same_frames_views(4) [OF claimed_frames(1)] .
  have db1: "db1 = finish_publish opts p ?q ?a" using accept(3) pub by simp
  have "hub_sequence db1 = Suc (hub_sequence db)" by (simp add: db1 finish_sequence accept_message_tables(3) seq)
  then have "Suc (hub_sequence db) < seq_space" using room by (simp add: sql_room_def)
  then have core: "sql_core ?a" using accept_message_core [OF claimed_core] inv seq by (simp add: sql_inv_def)
  have ids: "hub_publish_ids db1 = hub_publish_ids (complete_claim (pp_topicID p) i ?q (claimed now p db))"
    using finish_publish_effect(5) [OF core, of opts p ?q] i
    by (simp add: db1 accept_message_tables(4) complete_claim_def)
  have "claim_row (pp_topicID p) i db = None"
    using accept(1) i recorded_claim inv by (simp add: sql_inv_def)
  then have "claim_row (pp_topicID p) i db1 = Some \<lparr>hp_topic_id = pp_topicID p, hp_publish_id = i,
      hp_sequence_id = Some ?q, hp_recorded_at = now\<rparr>"
    by (simp add: claim_row_def ids complete_claim_def find_map_key claimed_def i find_append)
  with r show ?thesis by auto
qed (use pub in auto)

text \<open>
  For a year a publish id is answered as it was first: after a publish with an id is accepted at
  \<open>now\<close>, any run in which every purge reads a clock less than 365 days past \<open>now\<close> ends in a store that
  answers the same topic and id with the same position, as a duplicate, and changes nothing.
\<close>

theorem sql_publish_idempotent:
  assumes "sql_inv db" and "sql_publish opts now p db = (Inr \<lparr>pr_sequenceID = q, pr_deduped = False\<rparr>, db1)"
    and "pp_publishID p = Some i"
    and "sql_run_until opts (now + 365 * 24 * 60 * 60 * 1000) db1 H1 db2 H2" and "sql_room db2"
    and "pp_publishID p' = Some i" and "pp_topicID p' = pp_topicID p"
  shows "sql_publish opts now' p' db2 = (Inr \<lparr>pr_sequenceID = q, pr_deduped = True\<rparr>, db2)"
proof -
  let ?deadline = "now + 365 * 24 * 60 * 60 * 1000" and ?t = "pp_topicID p"
  have room: "sql_room db1 \<and> (sql_inv db1 \<and> recorded_since now ?t i q db1 \<longrightarrow> sql_inv db2 \<and> recorded_since now ?t i q db2)"
    using assms(4,5)
  proof (induction rule: hub_run.induct)
    case start
    then show ?case by simp
  next
    case (publish db H now' p' r db')
    have db': "db' = snd (sql_publish opts now' p' db)" using publish.hyps(2) by simp
    have "sql_room db" using publish.prems sql_publish_sequence [of db opts now' p'] by (simp add: db' sql_room_def)
    note IH = publish.IH [OF this]
    moreover have "sql_inv db' \<and> recorded_since now ?t i q db'" if "sql_inv db" "recorded_since now ?t i q db"
    proof
      show "recorded_since now ?t i q db'"
        unfolding db' by (rule recorded_since_publish [OF that(1) _ that(2)]) (use publish.prems db' in simp)
      from that(1) show "sql_inv db'"
      proof (cases rule: sql_publish_cases [of db p' opts now'])
        case accept
        then show ?thesis using sql.publish_effect [OF that(1) accept(3)] publish.prems db' by simp
      qed (use db' that(1) in simp_all)
    qed
    ultimately show ?case by blast
  next
    case (maintain db H op)
    have "sql_room db" using maintain.prems by (simp add: sql_room_def sql_maintain_sequence split: if_splits)
    note IH = maintain.IH [OF this]
    have "sql_inv (sql_maintain opts op db) \<and> recorded_since now ?t i q (sql_maintain opts op db)"
      if "sql_inv db" "recorded_since now ?t i q db" "before_deadline ?deadline op"
      using recorded_since_maintain [OF that(1,2)] that(3) sql.maintain_inv [OF that(1)]
      by (simp add: PUBLISH_ID_RETENTION_SECONDS_def)
    with IH show ?case by auto
  qed
  have rec1: "recorded_since now ?t i q db1 \<and> sql_inv db1"
    using assms(1)
  proof (cases rule: sql_publish_cases [of db p opts now])
    case accept
    note acc = sql.publish_effect [OF assms(1,2)]
    have inv1: "sql_inv db1" "sql_recorded db1 ?t i = Some q" using acc room assms(3) by blast+
    then obtain r where r: "claim_row ?t i db1 = Some r" "hp_sequence_id r = Some q"
      by (auto simp: sql_recorded_def bind_eq_Some_conv)
    have "hp_recorded_at r = now"
      using publish_recorded_at [OF assms(1,2,3) r(1)] room by blast
    with r inv1 show ?thesis by (simp add: recorded_since_def)
  qed (use assms(2) in auto)
  with room obtain r where "claim_row ?t i db2 = Some r" "hp_sequence_id r = Some q"
    by (auto simp: recorded_since_def)
  then have "sql_recorded db2 ?t i = Some q" by (simp add: sql_recorded_def)
  with assms(6,7) show ?thesis
    by (simp add: sql_publish_def withStoreTransaction_def sql_publish_replay)
qed

theorem sql_publish_idempotent_witness:
  "sql_publish default_store_options 9 (sql_first\<lparr>pp_senderDID := ''did:z''\<rparr>)
       (snd (sql_purge default_store_options 1000 0 sql_after)) =
     (Inr \<lparr>pr_sequenceID = sq1, pr_deduped = True\<rparr>, snd (sql_purge default_store_options 1000 0 sql_after))"
proof -
  have inv: "sql_inv sql_joined"
    by (rule sql.run_from_init_keeps(1) [OF sql_run_joined])
      (simp add: sql_joined_state sql_room_def hubStoreMigrations_def seq_space_def)
  let ?deadline = "0 + 365 * 24 * 60 * 60 * 1000 :: int"
  have run: "sql_run_until default_store_options ?deadline sql_after H (if before_deadline ?deadline (SqlPurge 1000 0)
      then sql_maintain default_store_options (SqlPurge 1000 0) sql_after else sql_after) H" for H
    using hub_run.maintain [where op = "SqlPurge 1000 0" and publish = "sql_publish default_store_options",
        OF hub_run.start] by blast
  then have run: "sql_run_until default_store_options ?deadline sql_after H
      (snd (sql_purge default_store_options 1000 0 sql_after)) H" for H
    by (simp add: before_deadline_def)
  have room: "sql_room (snd (sql_purge default_store_options 1000 0 sql_after))"
    using sql_maintain_sequence [of default_store_options "SqlPurge 1000 0" sql_after] sql_after_room
    by (simp add: sql_room_def)
  show ?thesis
    using sql_publish_idempotent [OF inv sql_publish_first _ run room, of "''p1''" "sql_first\<lparr>pp_senderDID := ''did:z''\<rparr>" 9]
    by (simp add: sql_first_def)
qed

section \<open>Deletes, acks and the age bound\<close>

text \<open>
  Deleting frames in chunks of 500 is deleting them: however long the list, exactly the named
  frames and the deliveries of them go, the others keep their order, and no other table changes.
\<close>

theorem sql_deleteFrames_chunked:
  "deleteFrames qs db = db\<lparr>hub_messages := filter (\<lambda>m. hm_sequence_id m \<notin> set qs) (hub_messages db),
     hub_deliveries := filter (\<lambda>d. hd_sequence_id d \<notin> set qs) (hub_deliveries db)\<rparr>"
  by (simp add: deleteFrames_all delete_chunk_def)

text \<open>
  An ack in the SQL store takes the named deliveries of that recipient and no others, frees exactly
  the mailbox frames it left without a delivery, and never a log frame, a head or a watermark.
\<close>

theorem sql_ack_isolated:
  "hub_deliveries (sql_ack r qs db) =
     filter (\<lambda>d. \<not> (hd_recipient_did d = r \<and> hd_sequence_id d \<in> set qs)) (hub_deliveries db) \<and>
   hub_messages (sql_ack r qs db) = filter (\<lambda>m. \<not> (hm_retain m = RMailbox \<and> hm_sequence_id m \<in> set qs \<and>
     hm_sequence_id m \<notin> hd_sequence_id ` set (hub_deliveries (sql_ack r qs db)))) (hub_messages db) \<and>
   sql_log (sql_ack r qs db) t = sql_log db t \<and> hub_topics (sql_ack r qs db) = hub_topics db"
proof (cases "qs = []")
  case False
  then show ?thesis
    using drop_deliveries_tables(1,3) drop_deliveries_tables(2) [of r qs db] drop_deliveries_log(1)
    by (simp add: sql_ack_def)
qed (simp add: sql_ack_def)

lemma sql_min_le:
  assumes "x \<in> set xs"
  shows "\<exists>k. sql_min xs = Some k \<and> k \<le> x \<and> k \<in> set xs"
proof -
  have "fold min ys y \<in> set (y # ys) \<and> (\<forall>z \<in> set (y # ys). fold min ys y \<le> z)" for y :: 'a and ys
  proof (induction ys arbitrary: y)
    case (Cons a ys)
    from Cons [of "min a y"] show ?case by (auto simp: min_def split: if_splits)
  qed simp
  with assms show ?thesis by (cases xs) (auto simp del: fold_simps)
qed

text \<open>Due frames are old; frames that are not due are young, or stand behind a young one of their log.\<close>

lemma due_old:
  assumes "due t threshold db m" and "m \<in> set (hub_messages db)"
  shows "hm_topic_id m = t" and "hm_stored_at m \<le> threshold"
proof -
  show "hm_topic_id m = t" using assms(1) by (simp add: due_def)
  show "hm_stored_at m \<le> threshold"
  proof (rule ccontr)
    assume young: "\<not> hm_stored_at m \<le> threshold"
    let ?keys = "map hm_sequence_id (filter (\<lambda>m. hm_topic_id m = t \<and> hm_retain m = RLog \<and> threshold < hm_stored_at m)
      (hub_messages db))"
    from assms(1) young have log: "hm_retain m = RLog" "hm_topic_id m = t"
      and kept: "case sql_min ?keys of None \<Rightarrow> True | Some k \<Rightarrow> hm_sequence_id m < k"
      by (auto simp: due_def split: option.splits)
    have "hm_sequence_id m \<in> set ?keys" using log young assms(2) by simp
    from sql_min_le [OF this] kept show False by auto
  qed
qed

lemma not_due_young:
  assumes "sql_topics db" and "m \<in> set (hub_messages db)" and "hm_topic_id m = t" and "\<not> due t threshold db m"
  shows "threshold < hm_stored_at m \<or> hm_retain m = RLog \<and>
    (\<exists>m0 \<in> set (hub_messages db). is_log_row t m0 \<and> threshold < hm_stored_at m0 \<and> \<not> due t threshold db m0)"
proof (cases "hm_retain m")
  case RMailbox
  with assms(3,4) show ?thesis by (auto simp: due_def)
next
  case RLog
  let ?young = "filter (\<lambda>m. hm_topic_id m = t \<and> hm_retain m = RLog \<and> threshold < hm_stored_at m) (hub_messages db)"
  from assms(1-3) RLog obtain row where row: "row \<in> set (hub_topics db)" "ht_topic_id row = t" "hm_sequence_id m \<le> ht_head row"
    unfolding sql_topics_def by blast
  then have "lockTopic t db = Some (ht_head row)"
    using topic_row_iff [OF assms(1), of t row] by (simp add: lockTopic_def)
  then obtain k where "sql_min (map hm_sequence_id ?young) = Some k" using RLog assms(3,4) row(3)
    by (auto simp: due_def split: option.splits)
  then have "?young \<noteq> []" by auto
  then obtain m0 where "m0 \<in> set ?young" by (meson last_in_set)
  then show ?thesis using RLog due_old(2) [of t threshold db m0] by (auto simp: is_log_row_def)
qed

definition young_log :: "int \<Rightarrow> hub_db \<Rightarrow> hub_messages_row \<Rightarrow> bool" where
  "young_log threshold db m \<longleftrightarrow> hm_retain m = RLog \<and>
     (\<exists>m0 \<in> set (hub_messages db). is_log_row (hm_topic_id m) m0 \<and> threshold < hm_stored_at m0)"

lemma purge_topics_retained:
  assumes "sql_core db" and "distinct ts" and "purge_topics threshold ts db = (Inr ids, db')"
  shows "(\<forall>m \<in> set (hub_messages db). hm_sequence_id m \<in> set ids \<longrightarrow>
      hm_topic_id m \<in> set ts \<and> hm_stored_at m \<le> threshold (hm_topic_id m)) \<and>
    (\<forall>m \<in> set (hub_messages db'). hm_topic_id m \<in> set ts \<longrightarrow>
      threshold (hm_topic_id m) < hm_stored_at m \<or> young_log (threshold (hm_topic_id m)) db' m)"
  using assms
proof (induction ts arbitrary: db ids)
  case (Cons u ts)
  have rows: "sql_rows db" "sql_topics db" using Cons.prems(1) by (simp_all add: sql_core_def)
  let ?D = "map hm_sequence_id (filter (due u (threshold u) db) (hub_messages db))"
  note run = purge_topic_sweep [OF rows(1), of u "threshold u"]
  have core: "sql_core (sweep u ?D db)" by (rule sweep_core [OF Cons.prems(1) run(2)])
  obtain rest where rest: "purge_topics threshold ts (sweep u ?D db) = (Inr rest, db')" "ids = ?D @ rest"
    using Cons.prems(3) run(1) by (auto simp: withStoreTransaction_def split: prod.splits sum.splits)
  have msgs: "hub_messages (sweep u ?D db) = filter (\<lambda>m. hm_sequence_id m \<notin> set ?D) (hub_messages db)"
    by (simp only: sweep_frame)
  have msgs': "hub_messages db' = filter (\<lambda>m. hm_sequence_id m \<notin> set rest) (hub_messages (sweep u ?D db))"
    using purge_topics_effect [OF core, of threshold ts] rest(1) by auto
  have IH1: "hm_topic_id m \<in> set ts \<and> hm_stored_at m \<le> threshold (hm_topic_id m)"
    if "m \<in> set (hub_messages (sweep u ?D db))" "hm_sequence_id m \<in> set rest" for m
    using Cons.IH [OF core _ rest(1)] Cons.prems(2) that by auto
  have IH2: "threshold (hm_topic_id m) < hm_stored_at m \<or> young_log (threshold (hm_topic_id m)) db' m"
    if "m \<in> set (hub_messages db')" "hm_topic_id m \<in> set ts" for m
    using Cons.IH [OF core _ rest(1)] Cons.prems(2) that by auto
  have due: "hm_sequence_id m \<in> set ?D \<longleftrightarrow> due u (threshold u) db m" if "m \<in> set (hub_messages db)" for m
    by (rule key_mem_filter [OF rows(1) that])
  show ?case
  proof (intro conjI ballI impI)
    fix m assume m: "m \<in> set (hub_messages db)" "hm_sequence_id m \<in> set ids"
    have "hm_topic_id m = u \<and> hm_stored_at m \<le> threshold u \<or>
        hm_topic_id m \<in> set ts \<and> hm_stored_at m \<le> threshold (hm_topic_id m)"
    proof (cases "hm_sequence_id m \<in> set ?D")
      case True
      then have "due u (threshold u) db m" using due [OF m(1)] by simp
      from due_old [OF this m(1)] show ?thesis by simp
    next
      case False
      have "m \<in> set (hub_messages (sweep u ?D db))" unfolding msgs using m(1) False by simp
      with IH1 False m(2) rest(2) show ?thesis by auto
    qed
    then show "hm_topic_id m \<in> set (u # ts)" and "hm_stored_at m \<le> threshold (hm_topic_id m)" by auto
  next
    fix m assume m: "m \<in> set (hub_messages db')" "hm_topic_id m \<in> set (u # ts)"
    show "threshold (hm_topic_id m) < hm_stored_at m \<or> young_log (threshold (hm_topic_id m)) db' m"
    proof (cases "hm_topic_id m \<in> set ts")
      case False
      then have u: "hm_topic_id m = u" using m(2) by simp
      have mem: "m \<in> set (hub_messages db)" "hm_sequence_id m \<notin> set ?D" using m(1) unfolding msgs' msgs by auto
      then have "\<not> due u (threshold u) db m" using due by simp
      from not_due_young [OF rows(2) mem(1) u this] show ?thesis
      proof
        assume "hm_retain m = RLog \<and> (\<exists>m0 \<in> set (hub_messages db). is_log_row u m0 \<and>
          threshold u < hm_stored_at m0 \<and> \<not> due u (threshold u) db m0)"
        then obtain m0 where m0: "m0 \<in> set (hub_messages db)" "is_log_row u m0" "threshold u < hm_stored_at m0"
            "\<not> due u (threshold u) db m0" and "hm_retain m = RLog" by blast
        have "hm_sequence_id m0 \<notin> set ?D" using due [OF m0(1)] m0(4) by simp
        then have mid: "m0 \<in> set (hub_messages (sweep u ?D db))" unfolding msgs using m0(1) by simp
        have "hm_sequence_id m0 \<notin> set rest"
          using IH1 [OF mid] Cons.prems(2) m0(2) by (auto simp: is_log_row_def)
        with mid have "m0 \<in> set (hub_messages db')" unfolding msgs' by simp
        with m0 \<open>hm_retain m = RLog\<close> u show ?thesis by (auto simp: young_log_def)
      qed (simp add: u)
    qed (use IH2 m(1) in simp)
  qed
qed simp

lemma fold_max_ge:
  fixes x :: "'a::linorder"
  shows "x \<le> fold max xs x" and "y \<in> set xs \<Longrightarrow> y \<le> fold max xs x"
proof -
  have base: "x \<le> fold max xs x" for x :: 'a and xs
    by (induction xs arbitrary: x) (auto intro: le_trans max.cobounded2 dest: meta_spec [of _ "max _ _"])
  show "x \<le> fold max xs x" by (rule base)
  show "y \<in> set xs \<Longrightarrow> y \<le> fold max xs x"
  proof (induction xs arbitrary: x)
    case (Cons a xs)
    then show ?case using base [of "max a x" xs] by auto
  qed simp
qed

lemma subscriber_retention_ge:
  assumes "r \<in> set (hub_subscriptions db)" and "hs_topic_id r = t"
  shows "hs_retention r \<le> subscriber_retention t db"
proof -
  have "hs_retention r \<in> set (map hs_retention (filter (\<lambda>r. hs_topic_id r = t) (hub_subscriptions db)))"
    using assms by simp
  then show ?thesis
    unfolding subscriber_retention_def
    by (cases "map hs_retention (filter (\<lambda>r. hs_topic_id r = t) (hub_subscriptions db))") (auto simp: fold_max_ge)
qed

text \<open>
  The SQL purge keeps the retention it promised and keeps logs gapless: a frame it removes is
  older than the sweep's bound, the hub's default and every current subscriber's request; a frame it
  leaves is younger than its topic's threshold, or is a log frame of a log that still holds a
  younger one; the list it returns names, in order, exactly the frames that are gone.
\<close>

theorem sql_purge_retention:
  assumes "sql_inv db"
  shows "case sql_purge opts now olderThan db of (Inl e, db') \<Rightarrow> False | (Inr gone, db') \<Rightarrow>
    sorted gone \<and> hub_messages db' = filter (\<lambda>m. hm_sequence_id m \<notin> set gone) (hub_messages db) \<and>
    (\<forall>m \<in> set (hub_messages db). hm_sequence_id m \<notin> set gone \<or>
       hm_stored_at m + olderThan * 1000 \<le> now \<and> hm_stored_at m + so_defaultRetention opts * 1000 \<le> now \<and>
       (\<forall>r \<in> set (hub_subscriptions db). hs_topic_id r \<noteq> hm_topic_id m \<or> hm_stored_at m + hs_retention r * 1000 \<le> now)) \<and>
    (\<forall>m \<in> set (hub_messages db'). purge_threshold opts now olderThan db (hm_topic_id m) < hm_stored_at m \<or>
       young_log (purge_threshold opts now olderThan db (hm_topic_id m)) db' m)"
proof -
  let ?db1 = "db\<lparr>hub_publish_ids := filter (\<lambda>r. \<not> hp_recorded_at r \<le> now - PUBLISH_ID_RETENTION_SECONDS * 1000)
    (hub_publish_ids db)\<rparr>"
  let ?thr = "purge_threshold opts now olderThan ?db1" and ?ts = "sort (remdups (map hm_topic_id (hub_messages ?db1)))"
  have core: "sql_core ?db1"
    by (rule same_frames_core [of db]) (use assms in \<open>simp_all add: same_frames_def sql_inv_def sql_core_def sql_members_def\<close>)
  obtain ids db' where run: "purge_topics ?thr ?ts ?db1 = (Inr ids, db')"
    and msgs: "hub_messages db' = filter (\<lambda>m. hm_sequence_id m \<notin> set ids) (hub_messages ?db1)"
    using purge_topics_effect [OF core, of ?thr ?ts] by blast
  have thr: "?thr = purge_threshold opts now olderThan db"
    by (rule ext) (simp add: purge_threshold_def subscriber_retention_def)
  have "distinct ?ts" by simp
  note kept = purge_topics_retained [OF core this run, unfolded thr]
  have purge: "sql_purge opts now olderThan db = (Inr (sort ids), db')"
    unfolding sql_purge_def Let_def run by simp
  have old: "hm_stored_at m + olderThan * 1000 \<le> now \<and> hm_stored_at m + so_defaultRetention opts * 1000 \<le> now \<and>
       (\<forall>r \<in> set (hub_subscriptions db). hs_topic_id r \<noteq> hm_topic_id m \<or> hm_stored_at m + hs_retention r * 1000 \<le> now)"
    if "hm_stored_at m \<le> purge_threshold opts now olderThan db (hm_topic_id m)" for m
    using that subscriber_retention_ge [of _ db "hm_topic_id m"] unfolding purge_threshold_def
    by (force simp: max_def split: if_splits)
  have "hm_topic_id m \<in> set ?ts" if "m \<in> set (hub_messages db')" for m
    using that by (simp add: msgs)
  with kept have left: "\<forall>m \<in> set (hub_messages db'). purge_threshold opts now olderThan db (hm_topic_id m) < hm_stored_at m \<or>
       young_log (purge_threshold opts now olderThan db (hm_topic_id m)) db' m"
    by blast
  have gone: "\<forall>m \<in> set (hub_messages db). hm_sequence_id m \<notin> set ids \<or>
       hm_stored_at m + olderThan * 1000 \<le> now \<and> hm_stored_at m + so_defaultRetention opts * 1000 \<le> now \<and>
       (\<forall>r \<in> set (hub_subscriptions db). hs_topic_id r \<noteq> hm_topic_id m \<or> hm_stored_at m + hs_retention r * 1000 \<le> now)"
    using kept old by simp blast
  show ?thesis
    unfolding purge prod.case sum.case set_sort
    using left gone msgs by simp
qed

theorem sql_purge_retention_witness:
  "case sql_purge default_store_options 5000 3 sql_after of (Inl e, db') \<Rightarrow> False | (Inr gone, db') \<Rightarrow>
     hub_messages db' = filter (\<lambda>m. hm_sequence_id m \<notin> set gone) (hub_messages sql_after)"
  using sql_purge_retention [OF sql.run_from_init_keeps(1) [OF sql_run_after sql_after_room],
      where opts = default_store_options and now = 5000 and olderThan = 3]
  by (auto split: prod.splits sum.splits)

end
