(* ===== verification/Rate_Limit.thy ===== *)
theory Rate_Limit
  imports Complex_Main Hub_Protocol
begin

text \<open>
  The token bucket of \<^verbatim>\<open>packages/hub-server/src/rateLimit.ts\<close>. A JavaScript number that holds a
  fractional count of tokens is a rational here, so the model has no rounding; the clock is an
  integer in milliseconds. The buckets are an association list because the sweep depends on how
  many there are. A limiter without the sweep is the reference: both give the same answers.
\<close>

section \<open>The limiter\<close>

record RateLimitConfig =
  rl_rate :: rat
  rl_burst :: rat
  rl_ttlMs :: "int option"

record Bucket =
  bk_tokens :: rat
  bk_lastRefill :: int

type_synonym rate_limiter = "(string, Bucket) js_map"

definition PRUNE_AT :: nat where
  "PRUNE_AT = 1024"

definition refilledTokens :: "Bucket \<Rightarrow> int \<Rightarrow> rat \<Rightarrow> rat \<Rightarrow> rat" where
  "refilledTokens bucket now rate burst =
     min burst (bk_tokens bucket + of_int (now - bk_lastRefill bucket) / 1000 * rate)"

definition prune :: "RateLimitConfig \<Rightarrow> int \<Rightarrow> rate_limiter \<Rightarrow> rate_limiter" where
  "prune cfg now buckets = filter (\<lambda>(key, bucket).
     \<not> (rl_burst cfg \<le> refilledTokens bucket now (rl_rate cfg) (rl_burst cfg) \<and>
        or_else (rl_ttlMs cfg) 300000 \<le> now - bk_lastRefill bucket)) buckets"

text \<open>The bucket a request finds, refilled or fresh, and what it leaves of it.\<close>

definition spend :: "Bucket \<Rightarrow> bool \<times> Bucket" where
  "spend bucket = (if bk_tokens bucket < 1 then (False, bucket)
     else (True, bucket\<lparr>bk_tokens := bk_tokens bucket - 1\<rparr>))"

definition tryConsume :: "RateLimitConfig \<Rightarrow> int \<Rightarrow> string \<Rightarrow> rate_limiter \<Rightarrow> bool \<times> rate_limiter" where
  "tryConsume cfg now key buckets = (case map_of buckets key of
       None \<Rightarrow>
         let swept = (if PRUNE_AT \<le> length buckets then prune cfg now buckets else buckets);
             (granted, bucket) = spend \<lparr>bk_tokens = rl_burst cfg, bk_lastRefill = now\<rparr>
         in (granted, AList.update key bucket swept)
     | Some held \<Rightarrow>
         let (granted, bucket) = spend \<lparr>bk_tokens = refilledTokens held now (rl_rate cfg) (rl_burst cfg),
               bk_lastRefill = now\<rparr>
         in (granted, AList.update key bucket buckets))"

text \<open>The answers to a sequence of requests, each with its time and key.\<close>

fun consume_all :: "RateLimitConfig \<Rightarrow> (int \<times> string) list \<Rightarrow> rate_limiter \<Rightarrow> bool list" where
  "consume_all cfg [] buckets = []"
| "consume_all cfg ((now, key) # reqs) buckets =
     (let (granted, buckets') = tryConsume cfg now key buckets
      in granted # consume_all cfg reqs buckets')"

section \<open>The reference without a sweep\<close>

text \<open>One bucket per key, for ever; a key never seen has a full one.\<close>

definition level :: "RateLimitConfig \<Rightarrow> int \<Rightarrow> Bucket option \<Rightarrow> rat" where
  "level cfg now held = (case held of None \<Rightarrow> rl_burst cfg
     | Some b \<Rightarrow> refilledTokens b now (rl_rate cfg) (rl_burst cfg))"

definition bucket_step :: "RateLimitConfig \<Rightarrow> int \<Rightarrow> Bucket option \<Rightarrow> bool \<times> Bucket" where
  "bucket_step cfg now held = spend \<lparr>bk_tokens = level cfg now held, bk_lastRefill = now\<rparr>"

fun bucket_answers :: "RateLimitConfig \<Rightarrow> int list \<Rightarrow> Bucket option \<Rightarrow> bool list" where
  "bucket_answers cfg [] held = []"
| "bucket_answers cfg (now # ts) held =
     (let (granted, bucket) = bucket_step cfg now held
      in granted # bucket_answers cfg ts (Some bucket))"

text \<open>The limiter after a sequence of requests.\<close>

definition consume_state :: "RateLimitConfig \<Rightarrow> (int \<times> string) list \<Rightarrow> rate_limiter \<Rightarrow> rate_limiter" where
  "consume_state cfg = fold (\<lambda>(now, key) buckets. snd (tryConsume cfg now key buckets))"

text \<open>The answers one key got, and the times it asked at.\<close>

definition answers_for :: "string \<Rightarrow> (int \<times> string) list \<Rightarrow> bool list \<Rightarrow> bool list" where
  "answers_for key reqs answers = map snd (filter (\<lambda>(r, _). snd r = key) (zip reqs answers))"

definition times_for :: "string \<Rightarrow> (int \<times> string) list \<Rightarrow> int list" where
  "times_for key reqs = map fst (filter (\<lambda>r. snd r = key) reqs)"

section \<open>The sweep is not observable\<close>

text \<open>A swept bucket is one that would be full again at any later request.\<close>

definition config_ok :: "RateLimitConfig \<Rightarrow> bool" where
  "config_ok cfg \<longleftrightarrow> 0 \<le> rl_rate cfg"

lemma refilled_mono:
  assumes "config_ok cfg" and "now \<le> later"
  shows "refilledTokens b now (rl_rate cfg) (rl_burst cfg) \<le> refilledTokens b later (rl_rate cfg) (rl_burst cfg)"
proof -
  have "(of_int (now - bk_lastRefill b) :: rat) \<le> of_int (later - bk_lastRefill b)"
    using assms(2) by simp
  then have "of_int (now - bk_lastRefill b) / 1000 * rl_rate cfg \<le> of_int (later - bk_lastRefill b) / 1000 * rl_rate cfg"
    using assms(1) by (intro mult_right_mono divide_right_mono) (simp_all add: config_ok_def)
  then show ?thesis by (auto simp: refilledTokens_def min_le_iff_disj)
qed

lemma refilled_full:
  assumes "config_ok cfg" and "now \<le> later"
    and "rl_burst cfg \<le> refilledTokens b now (rl_rate cfg) (rl_burst cfg)"
  shows "refilledTokens b later (rl_rate cfg) (rl_burst cfg) = rl_burst cfg"
  using refilled_mono [OF assms(1,2), of b] assms(3) by (auto simp: refilledTokens_def)

text \<open>A limiter agrees with a reference bucket from some time on.\<close>

definition agrees :: "RateLimitConfig \<Rightarrow> int \<Rightarrow> Bucket option \<Rightarrow> Bucket option \<Rightarrow> bool" where
  "agrees cfg now held kept \<longleftrightarrow> held = kept \<or>
     (held = None \<and> level cfg now kept = rl_burst cfg \<and> (\<forall>later \<ge> now. level cfg later kept = rl_burst cfg))"

lemma agrees_later: "agrees cfg now held kept \<Longrightarrow> now \<le> later \<Longrightarrow> agrees cfg later held kept"
  by (auto simp: agrees_def)

lemma agrees_step:
  assumes "agrees cfg now held kept"
  shows "bucket_step cfg now held = bucket_step cfg now kept"
  using assms by (auto simp: agrees_def bucket_step_def level_def)

lemma tryConsume_step:
  "tryConsume cfg now key buckets =
     (fst (bucket_step cfg now (map_of buckets key)),
      AList.update key (snd (bucket_step cfg now (map_of buckets key)))
        (if map_of buckets key = None \<and> PRUNE_AT \<le> length buckets then prune cfg now buckets else buckets))"
  by (simp add: tryConsume_def bucket_step_def level_def case_prod_unfold Let_def split: option.split)

lemma prune_lookup:
  assumes "config_ok cfg" and "distinct (map fst buckets)"
  shows "agrees cfg now (map_of (prune cfg now buckets) k) (map_of buckets k)"
proof (cases "map_of buckets k")
  case None
  then have "map_of (prune cfg now buckets) k = None"
    by (auto simp: prune_def map_of_eq_None_iff)
  with None show ?thesis by (simp add: agrees_def)
next
  case (Some b)
  let ?due = "\<lambda>b. rl_burst cfg \<le> refilledTokens b now (rl_rate cfg) (rl_burst cfg) \<and>
        or_else (rl_ttlMs cfg) 300000 \<le> now - bk_lastRefill b"
  have dist: "distinct (map fst (prune cfg now buckets))"
    using assms(2) by (simp add: prune_def distinct_map_filter)
  show ?thesis
  proof (cases "?due b")
    case True
    have "map_of (prune cfg now buckets) k = None"
    proof (rule ccontr)
      assume "map_of (prune cfg now buckets) k \<noteq> None"
      then obtain b' where b': "(k, b') \<in> set (prune cfg now buckets)"
        by (auto dest: map_of_SomeD)
      then have "(k, b') \<in> set buckets" and "\<not> ?due b'" by (auto simp: prune_def)
      with Some assms(2) True show False by (auto dest: map_of_is_SomeI)
    qed
    moreover have "level cfg later (Some b) = rl_burst cfg" if "now \<le> later" for later
      using refilled_full [OF assms(1) that] True by (simp add: level_def)
    ultimately show ?thesis using Some by (simp add: agrees_def)
  next
    case False
    have "(k, b) \<in> set buckets" using Some by (rule map_of_SomeD)
    with False have "(k, b) \<in> set (prune cfg now buckets)" by (auto simp: prune_def)
    with dist Some show ?thesis by (simp add: agrees_def)
  qed
qed

lemma agrees_trans: "agrees cfg now a b \<Longrightarrow> agrees cfg now b c \<Longrightarrow> agrees cfg now a c"
  unfolding agrees_def by metis

lemma tryConsume_distinct:
  "distinct (map fst buckets) \<Longrightarrow> distinct (map fst (snd (tryConsume cfg now key buckets)))"
  by (simp add: tryConsume_step prune_def distinct_map_filter distinct_update)

lemma tryConsume_lookup:
  assumes "config_ok cfg" and "distinct (map fst buckets)" and "agrees cfg now (map_of buckets k) kept"
  shows "agrees cfg now (map_of (snd (tryConsume cfg now key buckets)) k)
    (if k = key then Some (snd (bucket_step cfg now kept)) else kept)"
  using assms agrees_step [OF assms(3)] agrees_trans [OF prune_lookup [OF assms(1,2)] assms(3)]
  by (auto simp: tryConsume_step update_conv' agrees_def)

lemma answers_for_Cons:
  "answers_for key (r # reqs) (a # answers) =
     (if snd r = key then a # answers_for key reqs answers else answers_for key reqs answers)"
  by (simp add: answers_for_def)

lemma times_for_Cons:
  "times_for key (r # reqs) = (if snd r = key then fst r # times_for key reqs else times_for key reqs)"
  by (simp add: times_for_def)

lemma bucket_answers_Cons:
  "bucket_answers cfg (t # ts) held =
     fst (bucket_step cfg t held) # bucket_answers cfg ts (Some (snd (bucket_step cfg t held)))"
  by (simp add: case_prod_unfold Let_def)

declare bucket_answers.simps(2) [simp del]

lemma consume_all_reference:
  assumes "config_ok cfg"
  shows "distinct (map fst buckets) \<Longrightarrow> sorted (now # map fst reqs) \<Longrightarrow> agrees cfg now (map_of buckets key) kept \<Longrightarrow>
    answers_for key reqs (consume_all cfg reqs buckets) = bucket_answers cfg (times_for key reqs) kept"
proof (induction reqs arbitrary: buckets now kept)
  case Nil
  show ?case by (simp add: answers_for_def times_for_def)
next
  case (Cons r reqs)
  obtain later k where r: "r = (later, k)" by (cases r)
  let ?next = "snd (tryConsume cfg later k buckets)"
  let ?kept = "if key = k then Some (snd (bucket_step cfg later kept)) else kept"
  from Cons.prems(2) r have le: "now \<le> later" and sorted: "sorted (later # map fst reqs)" by simp_all
  note now = agrees_later [OF Cons.prems(3) le]
  have "answers_for key reqs (consume_all cfg reqs ?next) = bucket_answers cfg (times_for key reqs) ?kept"
    using Cons.IH [OF tryConsume_distinct [OF Cons.prems(1)] sorted
        tryConsume_lookup [OF assms Cons.prems(1) now]] by simp
  moreover have "consume_all cfg (r # reqs) buckets = fst (tryConsume cfg later k buckets) # consume_all cfg reqs ?next"
    by (simp add: r case_prod_unfold Let_def)
  moreover have "fst (tryConsume cfg later k buckets) = fst (bucket_step cfg later kept)" if "key = k"
    using agrees_step [OF now] that by (simp add: tryConsume_step)
  ultimately show ?case
    by (cases "key = k") (simp_all add: answers_for_Cons times_for_Cons r bucket_answers_Cons case_prod_unfold)
qed

section \<open>What a bucket grants\<close>

lemma level_le_burst: "level cfg now held \<le> rl_burst cfg"
  by (simp add: level_def refilledTokens_def split: option.split)

text \<open>A grant takes one token and the elapsed time returns at most its refill; a debt is not carried.\<close>

lemma level_after_step:
  assumes "config_ok cfg" and "now \<le> later"
  shows "max 0 (level cfg later (Some (snd (bucket_step cfg now held)))) \<le>
     max 0 (level cfg now held) - (if fst (bucket_step cfg now held) then 1 else 0) + of_int (later - now) / 1000 * rl_rate cfg"
proof -
  define refill where "refill = of_int (later - now) / 1000 * rl_rate cfg"
  have "0 \<le> refill"
    using assms unfolding refill_def
    by (intro mult_nonneg_nonneg divide_nonneg_nonneg) (simp_all add: config_ok_def)
  moreover have "level cfg later (Some (snd (bucket_step cfg now held))) \<le>
      level cfg now held - (if fst (bucket_step cfg now held) then 1 else 0) + refill"
    by (simp add: level_def bucket_step_def spend_def refilledTokens_def refill_def)
  moreover have "fst (bucket_step cfg now held) \<Longrightarrow> 1 \<le> level cfg now held"
    by (simp add: bucket_step_def spend_def split: if_splits)
  ultimately show ?thesis unfolding refill_def [symmetric] by (auto split: if_splits)
qed

lemma bucket_answers_bound:
  assumes "config_ok cfg"
  shows "sorted (t # ts) \<Longrightarrow> \<forall>x \<in> set (t # ts). x \<le> end \<Longrightarrow>
    of_nat (length (filter id (bucket_answers cfg (t # ts) held))) \<le>
      max 0 (level cfg t held) + of_int (end - t) / 1000 * rl_rate cfg"
proof (induction ts arbitrary: t held)
  case Nil
  then have "0 \<le> of_int (end - t) / 1000 * rl_rate cfg"
    using assms by (intro mult_nonneg_nonneg divide_nonneg_nonneg) (simp_all add: config_ok_def)
  moreover have "fst (bucket_step cfg t held) \<Longrightarrow> 1 \<le> level cfg t held"
    by (simp add: bucket_step_def spend_def split: if_splits)
  ultimately show ?case by (auto simp: bucket_answers_Cons)
next
  case (Cons u us)
  let ?b = "snd (bucket_step cfg t held)" and ?g = "fst (bucket_step cfg t held)"
  from Cons.prems have tu: "t \<le> u" and rest: "sorted (u # us)" "\<forall>x \<in> set (u # us). x \<le> end" by simp_all
  have "of_nat (length (filter id (bucket_answers cfg (u # us) (Some ?b)))) \<le>
      max 0 (level cfg u (Some ?b)) + of_int (end - u) / 1000 * rl_rate cfg"
    by (rule Cons.IH [OF rest])
  moreover have "of_int (u - t) / 1000 * rl_rate cfg + of_int (end - u) / 1000 * rl_rate cfg
      = of_int (end - t) / 1000 * rl_rate cfg"
    by (simp add: field_simps)
  moreover have "(of_nat (length (filter id (bucket_answers cfg (t # u # us) held))) :: rat) =
      (if ?g then 1 else 0) + of_nat (length (filter id (bucket_answers cfg (u # us) (Some ?b))))"
    by (subst bucket_answers_Cons) simp
  ultimately show ?case
    using level_after_step [OF assms tu, of held] by linarith
qed

lemma consume_all_append:
  "consume_all cfg (xs @ ys) buckets = consume_all cfg xs buckets @ consume_all cfg ys (consume_state cfg xs buckets)"
  by (induction xs arbitrary: buckets) (auto simp: consume_state_def case_prod_unfold Let_def)

lemma length_consume_all: "length (consume_all cfg xs buckets) = length xs"
  by (induction xs arbitrary: buckets) (auto simp: case_prod_unfold Let_def)

lemma consume_state_distinct:
  "distinct (map fst buckets) \<Longrightarrow> distinct (map fst (consume_state cfg xs buckets))"
  by (induction xs arbitrary: buckets) (auto simp: consume_state_def tryConsume_distinct)

text \<open>Two requests a second with a burst of two.\<close>

definition demo_limit :: RateLimitConfig where
  "demo_limit = \<lparr>rl_rate = 2, rl_burst = 2, rl_ttlMs = None\<rparr>"

section \<open>Properties\<close>

text \<open>
  The sweep of idle buckets cannot be observed: whatever requests arrive in time order, the answers
  one key gets are those of a bucket of its own that is never dropped, so no spent token is ever refunded
  by a sweep, and one key's requests never change another's answers.
\<close>

theorem rateLimit_sweep_unobservable:
  assumes "0 \<le> rl_rate cfg" and "sorted (map fst reqs)"
  shows "answers_for key reqs (consume_all cfg reqs []) = bucket_answers cfg (times_for key reqs) None"
proof (cases reqs)
  case Nil
  then show ?thesis by (simp add: answers_for_def times_for_def)
next
  case (Cons r rs)
  with assms show ?thesis
    using consume_all_reference [of cfg "[]" "fst r" reqs key None] by (auto simp: config_ok_def agrees_def)
qed

theorem rateLimit_sweep_unobservable_witness:
  "consume_all demo_limit [(0, ''a''), (0, ''b''), (1, ''a''), (2, ''a''), (600, ''a'')] [] = [True, True, True, False, True]
   \<and> bucket_answers demo_limit [0, 1, 2, 600] None = [True, True, False, True]"
  using rateLimit_sweep_unobservable [of demo_limit "[(0, ''a''), (0, ''b''), (1, ''a''), (2, ''a''), (600, ''a'')]" "''a''"]
  by (simp add: demo_limit_def tryConsume_def spend_def refilledTokens_def bucket_answers_Cons bucket_step_def level_def
      answers_for_def times_for_def PRUNE_AT_def)

text \<open>
  Claim C38. Over any stretch of requests between two times, after any history, the limiter grants one key at
  most its burst plus the refill of the elapsed time.
\<close>

theorem rateLimit_bound:
  assumes "0 \<le> rl_rate cfg" and "0 \<le> rl_burst cfg" and "sorted (map fst (before @ window))"
    and "\<forall>r \<in> set window. start \<le> fst r \<and> fst r \<le> end" and "start \<le> end"
  shows "of_nat (length (filter id (answers_for key window (drop (length before) (consume_all cfg (before @ window) [])))))
    \<le> rl_burst cfg + of_int (end - start) / 1000 * rl_rate cfg"
proof -
  let ?b = "consume_state cfg before []"
  have cfg: "config_ok cfg" using assms(1) by (simp add: config_ok_def)
  have refill: "0 \<le> of_int n / 1000 * rl_rate cfg" if "0 \<le> n" for n
    using assms(1) that by (intro mult_nonneg_nonneg divide_nonneg_nonneg) simp_all
  have "drop (length before) (consume_all cfg (before @ window) []) = consume_all cfg window ?b"
    by (simp add: consume_all_append length_consume_all)
  moreover have "answers_for key window (consume_all cfg window ?b) = bucket_answers cfg (times_for key window) (map_of ?b key)"
  proof (cases window)
    case Nil
    then show ?thesis by (simp add: answers_for_def times_for_def)
  next
    case (Cons r rs)
    with assms(3) show ?thesis
      using consume_all_reference [OF cfg, of ?b "fst r" window key "map_of ?b key"]
      by (auto simp: consume_state_distinct sorted_append agrees_def)
  qed
  moreover have "of_nat (length (filter id (bucket_answers cfg (times_for key window) (map_of ?b key))))
      \<le> rl_burst cfg + of_int (end - start) / 1000 * rl_rate cfg"
  proof (cases "times_for key window")
    case Nil
    then show ?thesis using assms(2,5) refill [of "end - start"] by simp
  next
    case (Cons t ts)
    have times: "set (times_for key window) \<subseteq> fst ` set window" by (auto simp: times_for_def)
    have "sorted (times_for key window)"
      using assms(3) by (auto simp: times_for_def sorted_append sorted_map intro: sorted_wrt_filter)
    moreover have "\<forall>x \<in> set (t # ts). x \<le> end" and start: "start \<le> t" using times assms(4) Cons by auto
    ultimately have "of_nat (length (filter id (bucket_answers cfg (t # ts) (map_of ?b key))))
        \<le> max 0 (level cfg t (map_of ?b key)) + of_int (end - t) / 1000 * rl_rate cfg"
      using Cons by (intro bucket_answers_bound [OF cfg]) simp_all
    moreover have "max 0 (level cfg t (map_of ?b key)) \<le> rl_burst cfg"
      using level_le_burst assms(2) by simp
    moreover have "of_int (end - t) / 1000 * rl_rate cfg \<le> of_int (end - start) / 1000 * rl_rate cfg"
      using start assms(1) by (intro mult_right_mono divide_right_mono) simp_all
    ultimately show ?thesis unfolding Cons by linarith
  qed
  ultimately show ?thesis by simp
qed

theorem rateLimit_bound_witness:
  "of_nat (length (filter id (answers_for ''a'' [(0, ''a''), (1, ''a''), (2, ''a'')]
     (consume_all demo_limit [(0, ''a''), (1, ''a''), (2, ''a'')] [])))) \<le> (2 + 1 / 250 :: rat)"
  using rateLimit_bound [of demo_limit "[]" "[(0, ''a''), (1, ''a''), (2, ''a'')]" 0 2 "''a''"]
  by (simp add: demo_limit_def del: consume_all.simps)

end
