(* ===== verification/Client_Registry.thy ===== *)
theory Client_Registry
  imports Hub_Protocol
begin

text \<open>
  The registry of live receive channels, \<^verbatim>\<open>packages/hub-server/src/registry.ts\<close>. The writer and the
  \<^verbatim>\<open>endReceive\<close> callback of a binding are closures of one channel, so a binding names the channel;
  a \<^verbatim>\<open>Symbol\<close> is a number never handed out before.
\<close>

section \<open>State and operations\<close>

type_synonym channel = nat
type_synonym symbol = nat

record ClientEntry =
  ce_did :: did
  ce_sendMessage :: "channel option"
  ce_endReceive :: "channel option"
  ce_token :: "symbol option"

record client_registry =
  cr_clients :: "did \<rightharpoonup> ClientEntry"
  cr_symbols :: nat

definition empty_registry :: client_registry where
  "empty_registry = \<lparr>cr_clients = Map.empty, cr_symbols = 0\<rparr>"

definition register :: "did \<Rightarrow> client_registry \<Rightarrow> client_registry" where
  "register d r = (case cr_clients r d of
       Some existing \<Rightarrow> r
     | None \<Rightarrow> r\<lparr>cr_clients := (cr_clients r)(d \<mapsto>
         \<lparr>ce_did = d, ce_sendMessage = None, ce_endReceive = None, ce_token = None\<rparr>)\<rparr>)"

definition unregister :: "did \<Rightarrow> client_registry \<Rightarrow> client_registry" where
  "unregister d r = r\<lparr>cr_clients := (cr_clients r)(d := None)\<rparr>"

definition unregisterIfIdle :: "did \<Rightarrow> client_registry \<Rightarrow> client_registry" where
  "unregisterIfIdle d r = (case cr_clients r d of
       None \<Rightarrow> r
     | Some entry \<Rightarrow> if ce_sendMessage entry = None then r\<lparr>cr_clients := (cr_clients r)(d := None)\<rparr> else r)"

text \<open>The answer is the token of the new binding and the channel it evicted.\<close>

definition bindReceiveWriter ::
    "did \<Rightarrow> channel \<Rightarrow> client_registry \<Rightarrow> (symbol \<times> channel option) \<times> client_registry" where
  "bindReceiveWriter d c r =
     (let token = cr_symbols r; r' = r\<lparr>cr_symbols := Suc token\<rparr>
      in case cr_clients r d of
           None \<Rightarrow> ((token, None), r')
         | Some entry \<Rightarrow> ((token, ce_endReceive entry), r'\<lparr>cr_clients := (cr_clients r)(d \<mapsto>
             entry\<lparr>ce_sendMessage := Some c, ce_endReceive := Some c, ce_token := Some token\<rparr>)\<rparr>))"

definition releaseReceiveWriter :: "did \<Rightarrow> symbol \<Rightarrow> client_registry \<Rightarrow> client_registry" where
  "releaseReceiveWriter d token r = (case cr_clients r d of
       None \<Rightarrow> r
     | Some entry \<Rightarrow> if ce_token entry \<noteq> Some token then r
         else r\<lparr>cr_clients := (cr_clients r)(d \<mapsto>
           entry\<lparr>ce_sendMessage := None, ce_endReceive := None, ce_token := None\<rparr>)\<rparr>)"

definition getClient :: "did \<Rightarrow> client_registry \<Rightarrow> ClientEntry option" where
  "getClient d r = cr_clients r d"

definition isOnline :: "did \<Rightarrow> client_registry \<Rightarrow> bool" where
  "isOnline d r = (Option.bind (cr_clients r d) ce_sendMessage \<noteq> None)"

text \<open>The channel a push to a DID reaches.\<close>

definition writer_of :: "did \<Rightarrow> client_registry \<Rightarrow> channel option" where
  "writer_of d r = Option.bind (getClient d r) ce_sendMessage"

section \<open>Runs\<close>

datatype registry_op =
    Register did
  | Unregister did
  | UnregisterIfIdle did
  | Bind did channel
  | Release did symbol

fun registry_step :: "registry_op \<Rightarrow> client_registry \<Rightarrow> client_registry" where
  "registry_step (Register d) r = register d r"
| "registry_step (Unregister d) r = unregister d r"
| "registry_step (UnregisterIfIdle d) r = unregisterIfIdle d r"
| "registry_step (Bind d c) r = snd (bindReceiveWriter d c r)"
| "registry_step (Release d token) r = releaseReceiveWriter d token r"

text \<open>A binding is whole or absent, and no token in use is still to be handed out.\<close>

definition registry_inv :: "client_registry \<Rightarrow> bool" where
  "registry_inv r \<longleftrightarrow> (\<forall>d entry. cr_clients r d = Some entry \<longrightarrow>
     ce_endReceive entry = ce_sendMessage entry \<and> (ce_token entry = None \<longleftrightarrow> ce_sendMessage entry = None) \<and>
     (\<forall>token. ce_token entry = Some token \<longrightarrow> token < cr_symbols r))"

lemmas registry_defs = register_def unregister_def unregisterIfIdle_def bindReceiveWriter_def
  releaseReceiveWriter_def

lemma registry_inv_empty [hub_intros]: "registry_inv empty_registry"
  by (simp add: registry_inv_def empty_registry_def)

lemma registry_inv_step [hub_intros]:
  assumes "registry_inv r"
  shows "registry_inv (registry_step op r)"
  using assms
  by (cases op) (auto simp: registry_inv_def registry_defs Let_def intro!: less_SucI split: option.splits)

lemma registry_inv_run [hub_intros]: "registry_inv r \<Longrightarrow> registry_inv (fold registry_step ops r)"
  by (induction ops arbitrary: r) (auto intro: registry_inv_step)

text \<open>The operations that may take a binding away: a newer bind, its own release, an unregister.\<close>

fun disturbs :: "did \<Rightarrow> symbol \<Rightarrow> registry_op \<Rightarrow> bool" where
  "disturbs d token (Bind d' c) = (d' = d)"
| "disturbs d token (Release d' token') = (d' = d \<and> token' = token)"
| "disturbs d token (Unregister d') = (d' = d)"
| "disturbs d token _ = False"

text \<open>The binding of a DID.\<close>

definition bound :: "did \<Rightarrow> symbol \<Rightarrow> channel \<Rightarrow> client_registry \<Rightarrow> bool" where
  "bound d token c r = (case cr_clients r d of None \<Rightarrow> False
     | Some entry \<Rightarrow> ce_token entry = Some token \<and> ce_sendMessage entry = Some c \<and> ce_endReceive entry = Some c)"

lemma bound_step: "bound d token c r \<Longrightarrow> \<not> disturbs d token op \<Longrightarrow> bound d token c (registry_step op r)"
  by (cases op) (auto simp: bound_def registry_defs Let_def split: option.splits)

lemma bound_run:
  "bound d token c r \<Longrightarrow> \<not> list_ex (disturbs d token) ops \<Longrightarrow> bound d token c (fold registry_step ops r)"
  by (induction ops arbitrary: r) (auto intro: bound_step)

lemma bind_bound:
  "cr_clients r d \<noteq> None \<Longrightarrow> bound d (cr_symbols r) c (snd (bindReceiveWriter d c r))"
  by (auto simp: bound_def bindReceiveWriter_def Let_def)

text \<open>
  Claim C37. An evicted channel cannot unbind its successor. After any history, a registered DID that binds a
  channel evicts exactly the channel that was bound, and from then on pushes reach the new channel until a
  newer bind, an unregister, or the release that names this very binding; no release that names an older
  token touches it.
\<close>

theorem registry_eviction_safe:
  assumes "cr_clients (fold registry_step before empty_registry) d \<noteq> None"
    and "bindReceiveWriter d c (fold registry_step before empty_registry) = ((token, evicted), r)"
    and "\<not> list_ex (disturbs d token) after"
  shows "evicted = writer_of d (fold registry_step before empty_registry) \<and>
    writer_of d (fold registry_step after r) = Some c \<and> isOnline d (fold registry_step after r) \<and>
    (\<forall>old. old < token \<longrightarrow> releaseReceiveWriter d old (fold registry_step after r) = fold registry_step after r)"
proof -
  let ?r = "fold registry_step before empty_registry"
  have inv: "registry_inv ?r" by (intro registry_inv_run registry_inv_empty)
  from assms(2) have r: "r = snd (bindReceiveWriter d c ?r)" and token: "token = cr_symbols ?r"
    by (auto simp: bindReceiveWriter_def Let_def split: option.splits)
  have "bound d token c (fold registry_step after r)"
    using bound_run [OF _ assms(3)] bind_bound [OF assms(1)] by (simp add: r token)
  moreover have "evicted = writer_of d ?r"
    using assms(1,2) inv by (auto simp: bindReceiveWriter_def writer_of_def getClient_def registry_inv_def Let_def)
  ultimately show ?thesis
    by (auto simp: bound_def writer_of_def getClient_def isOnline_def releaseReceiveWriter_def split: option.splits)
qed

theorem registry_eviction_safe_witness:
  "let r1 = fold registry_step [Register ''d'', Bind ''d'' 7] empty_registry;
       ((token, evicted), r2) = bindReceiveWriter ''d'' 8 r1
   in evicted = Some 7 \<and> writer_of ''d'' (fold registry_step [Release ''d'' 0, UnregisterIfIdle ''d''] r2) = Some 8"
  using registry_eviction_safe [of "[Register ''d'', Bind ''d'' 7]" "''d''" 8 1 "Some 7"
      "snd (bindReceiveWriter ''d'' 8 (fold registry_step [Register ''d'', Bind ''d'' 7] empty_registry))"
      "[Release ''d'' 0, UnregisterIfIdle ''d'']"]
  by (simp add: registry_defs empty_registry_def Let_def)

end
