(* ===== verification/Wake_Dispatcher.thy ===== *)
theory Wake_Dispatcher
  imports Hub_Protocol
begin

text \<open>
  Wake notifications: the vocabulary of \<^verbatim>\<open>packages/hub-protocol/src/wake.ts\<close>, the in-memory registry of
  \<^verbatim>\<open>packages/hub-wake/src/memoryRegistry.ts\<close> and the dispatcher of \<^verbatim>\<open>packages/hub-server/src/wake.ts\<close>.
  A send is a task that first reads the registry and later settles with the sender's verdict, so that
  other events may come between. Sealing rests on elliptic-curve code outside the repository and the
  push provider is a service: both are what an event brings with it, a sealed body or its failure, and
  a verdict or a throw.
\<close>

section \<open>The registry of endpoints\<close>

record WakeRegistration =
  wr_did :: did
  wr_kind :: string
  wr_endpoint :: string
  wr_publicKey :: string
  wr_authSecret :: string
  wr_expiresAt :: "int option"

datatype WakeVerdict = Delivered | Gone | Retry

type_synonym wake_registry = "did \<rightharpoonup> WakeRegistration"

definition wake_put :: "WakeRegistration \<Rightarrow> wake_registry \<Rightarrow> wake_registry" where
  "wake_put registration registrations = registrations(wr_did registration \<mapsto> registration)"

definition wake_get :: "int \<Rightarrow> did \<Rightarrow> wake_registry \<Rightarrow> WakeRegistration option \<times> wake_registry" where
  "wake_get now d registrations = (case registrations d of
       None \<Rightarrow> (None, registrations)
     | Some stored \<Rightarrow>
         if (case wr_expiresAt stored of None \<Rightarrow> False | Some e \<Rightarrow> e \<le> now div 1000)
         then (None, registrations(d := None))
         else (Some stored, registrations))"

definition wake_delete :: "did \<Rightarrow> wake_registry \<Rightarrow> wake_registry" where
  "wake_delete d registrations = registrations(d := None)"

section \<open>The dispatcher\<close>

record WakeNotifyParams =
  wn_did :: did
  wn_topicID :: topic_id
  wn_sequenceID :: sequence_id

record Pending =
  pd_latest :: "(topic_id \<times> sequence_id) option"
  pd_count :: nat

text \<open>A send in flight: what it announces, and the registration once it has read it.\<close>

record wake_task =
  wt_did :: did
  wt_topicID :: topic_id
  wt_sequenceID :: sequence_id
  wt_count :: nat
  wt_registration :: "WakeRegistration option"

datatype wake_report = SendFailedTransiently | SendThrew string

record dispatcher =
  wd_pending :: "did \<rightharpoonup> Pending"
  wd_inFlight :: "wake_task list"
  wd_disposed :: bool
  wd_registry :: wake_registry
  wd_reports :: "(did \<times> wake_report) list"

definition createWakeDispatcher :: "wake_registry \<Rightarrow> dispatcher" where
  "createWakeDispatcher registrations = \<lparr>wd_pending = Map.empty, wd_inFlight = [], wd_disposed = False,
     wd_registry = registrations, wd_reports = []\<rparr>"

definition report :: "did \<Rightarrow> wake_report \<Rightarrow> dispatcher \<Rightarrow> dispatcher" where
  "report d e s = s\<lparr>wd_reports := wd_reports s @ [(d, e)]\<rparr>"

definition wake_send :: "did \<Rightarrow> topic_id \<Rightarrow> sequence_id \<Rightarrow> nat \<Rightarrow> dispatcher \<Rightarrow> dispatcher" where
  "wake_send d t q n s = s\<lparr>wd_inFlight := wd_inFlight s @
     [\<lparr>wt_did = d, wt_topicID = t, wt_sequenceID = q, wt_count = n, wt_registration = None\<rparr>]\<rparr>"

definition openWindow :: "did \<Rightarrow> dispatcher \<Rightarrow> dispatcher" where
  "openWindow d s = s\<lparr>wd_pending := (wd_pending s)(d \<mapsto> \<lparr>pd_latest = None, pd_count = 0\<rparr>)\<rparr>"

definition notify :: "WakeNotifyParams \<Rightarrow> dispatcher \<Rightarrow> dispatcher" where
  "notify p s =
     (if wd_disposed s then s
      else case wd_pending s (wn_did p) of
          None \<Rightarrow> wake_send (wn_did p) (wn_topicID p) (wn_sequenceID p) 1 (openWindow (wn_did p) s)
        | Some entry \<Rightarrow> s\<lparr>wd_pending := (wd_pending s)(wn_did p \<mapsto>
            entry\<lparr>pd_latest := Some (wn_topicID p, wn_sequenceID p), pd_count := Suc (pd_count entry)\<rparr>)\<rparr>)"

text \<open>The timer of a window. A timer exists exactly while its window does.\<close>

definition fire :: "did \<Rightarrow> dispatcher \<Rightarrow> dispatcher" where
  "fire d s = (case wd_pending s d of
       None \<Rightarrow> s
     | Some current \<Rightarrow>
         let s' = s\<lparr>wd_pending := (wd_pending s)(d := None)\<rparr>
         in case pd_latest current of
              None \<Rightarrow> s'
            | Some (t, q) \<Rightarrow> openWindow d (wake_send d t q (pd_count current) s'))"

definition online :: "did \<Rightarrow> dispatcher \<Rightarrow> dispatcher" where
  "online d s = s\<lparr>wd_pending := (wd_pending s)(d := None)\<rparr>"

definition dispose :: "dispatcher \<Rightarrow> dispatcher" where
  "dispose s = s\<lparr>wd_disposed := True, wd_pending := Map.empty\<rparr>"

text \<open>Taking the \<open>i\<close>-th task out of flight.\<close>

definition finish_task :: "nat \<Rightarrow> dispatcher \<Rightarrow> dispatcher" where
  "finish_task i s = s\<lparr>wd_inFlight := take i (wd_inFlight s) @ drop (Suc i) (wd_inFlight s)\<rparr>"

text \<open>
  The first half of a task: the registry answers (or throws), and the hint is sealed (or not). The
  second: the sender's verdict, or its throw.
\<close>

datatype read_outcome = ReadThrows string | SealThrows string | Sealed

definition task_read :: "int \<Rightarrow> nat \<Rightarrow> read_outcome \<Rightarrow> dispatcher \<Rightarrow> dispatcher" where
  "task_read now i out s =
     (if length (wd_inFlight s) \<le> i \<or> wt_registration (wd_inFlight s ! i) \<noteq> None then s
      else
        let task = wd_inFlight s ! i; d = wt_did task
        in case out of
             ReadThrows e \<Rightarrow> finish_task i (report d (SendThrew e) s)
           | _ \<Rightarrow>
             let (found, registrations) = wake_get now d (wd_registry s);
                 s' = s\<lparr>wd_registry := registrations\<rparr>
             in case found of
                  None \<Rightarrow> finish_task i s'
                | Some registration \<Rightarrow>
                    (case out of
                       SealThrows e \<Rightarrow> finish_task i (report d (SendThrew e) s')
                     | _ \<Rightarrow> s'\<lparr>wd_inFlight := (wd_inFlight s')[i := task\<lparr>wt_registration := Some registration\<rparr>]\<rparr>))"

definition task_settle :: "nat \<Rightarrow> string + WakeVerdict \<Rightarrow> dispatcher \<Rightarrow> dispatcher" where
  "task_settle i verdict s =
     (if length (wd_inFlight s) \<le> i \<or> wt_registration (wd_inFlight s ! i) = None then s
      else
        let d = wt_did (wd_inFlight s ! i)
        in finish_task i (case verdict of
             Inl e \<Rightarrow> report d (SendThrew e) s
           | Inr Delivered \<Rightarrow> s
           | Inr Gone \<Rightarrow> if wd_disposed s then s else s\<lparr>wd_registry := wake_delete d (wd_registry s)\<rparr>
           | Inr Retry \<Rightarrow> report d SendFailedTransiently s))"

section \<open>Runs\<close>

datatype wake_event =
    Notify WakeNotifyParams
  | Fire did
  | Online did
  | Dispose
  | TaskRead int nat read_outcome
  | TaskSettle nat "string + WakeVerdict"
  | Put WakeRegistration
  | Delete did

fun wake_step :: "wake_event \<Rightarrow> dispatcher \<Rightarrow> dispatcher" where
  "wake_step (Notify p) s = notify p s"
| "wake_step (Fire d) s = fire d s"
| "wake_step (Online d) s = online d s"
| "wake_step Dispose s = dispose s"
| "wake_step (TaskRead now i out) s = task_read now i out s"
| "wake_step (TaskSettle i v) s = task_settle i v s"
| "wake_step (Put r) s = s\<lparr>wd_registry := wake_put r (wd_registry s)\<rparr>"
| "wake_step (Delete d) s = s\<lparr>wd_registry := wake_delete d (wd_registry s)\<rparr>"

text \<open>What one event announces to a DID, accepts for it, and drops.\<close>

definition pings :: "did \<Rightarrow> wake_event \<Rightarrow> dispatcher \<Rightarrow> wake_task list" where
  "pings d e s = (case e of
       Notify p \<Rightarrow> filter (\<lambda>t. wt_did t = d) (drop (length (wd_inFlight s)) (wd_inFlight (wake_step e s)))
     | Fire d' \<Rightarrow> filter (\<lambda>t. wt_did t = d) (drop (length (wd_inFlight s)) (wd_inFlight (wake_step e s)))
     | _ \<Rightarrow> [])"

definition waiting :: "did \<Rightarrow> dispatcher \<Rightarrow> nat" where
  "waiting d s = (case wd_pending s d of None \<Rightarrow> 0 | Some entry \<Rightarrow> pd_count entry)"

definition accepted :: "did \<Rightarrow> wake_event \<Rightarrow> dispatcher \<Rightarrow> nat" where
  "accepted d e s = (case e of Notify p \<Rightarrow> if wn_did p = d \<and> \<not> wd_disposed s then 1 else 0 | _ \<Rightarrow> 0)"

definition dropped :: "did \<Rightarrow> wake_event \<Rightarrow> dispatcher \<Rightarrow> nat" where
  "dropped d e s = (case e of
       Online d' \<Rightarrow> if d' = d then waiting d s else 0
     | Dispose \<Rightarrow> waiting d s
     | _ \<Rightarrow> 0)"

text \<open>Adding up a measure of events along a run.\<close>

fun along :: "(wake_event \<Rightarrow> dispatcher \<Rightarrow> nat) \<Rightarrow> wake_event list \<Rightarrow> dispatcher \<Rightarrow> nat" where
  "along f [] s = 0"
| "along f (e # es) s = f e s + along f es (wake_step e s)"

definition announced :: "did \<Rightarrow> wake_event \<Rightarrow> dispatcher \<Rightarrow> nat" where
  "announced d e s = sum_list (map wt_count (pings d e s))"

text \<open>An event that lets the next frame of a DID ping at once.\<close>

definition reopens :: "did \<Rightarrow> wake_event \<Rightarrow> dispatcher \<Rightarrow> nat" where
  "reopens d e s = (case e of Fire d' \<Rightarrow> if d' = d then 1 else 0
     | Online d' \<Rightarrow> if d' = d then 1 else 0 | _ \<Rightarrow> 0)"

lemmas wake_defs = notify_def fire_def online_def dispose_def openWindow_def wake_send_def
lemmas measure_defs = pings_def waiting_def accepted_def dropped_def announced_def reopens_def

text \<open>A window that waits for something names it.\<close>

definition window_inv :: "dispatcher \<Rightarrow> bool" where
  "window_inv s \<longleftrightarrow> (\<forall>d entry. wd_pending s d = Some entry \<longrightarrow> (pd_latest entry = None \<longleftrightarrow> pd_count entry = 0))"

lemma task_frame:
  "wd_pending (task_read now i out s) = wd_pending s" "wd_disposed (task_read now i out s) = wd_disposed s"
  "wd_pending (task_settle i v s) = wd_pending s" "wd_disposed (task_settle i v s) = wd_disposed s"
  by (auto simp: task_read_def task_settle_def finish_task_def report_def Let_def case_prod_unfold
      split: read_outcome.split option.split sum.split WakeVerdict.split)

lemma window_inv_step [hub_intros]: "window_inv s \<Longrightarrow> window_inv (wake_step e s)"
  by (cases e) (auto simp: window_inv_def wake_defs task_frame Let_def split: option.splits)

lemma accounting_step:
  assumes "window_inv s"
  shows "waiting d s + accepted d e s = announced d e s + dropped d e s + waiting d (wake_step e s)"
  using assms
  by (cases e) (auto simp: window_inv_def measure_defs wake_defs task_frame Let_def split: option.splits)

lemma accounting_run:
  "window_inv s \<Longrightarrow>
     waiting d s + along (accepted d) es s = along (announced d) es s + along (dropped d) es s + waiting d (fold wake_step es s)"
proof (induction es arbitrary: s)
  case (Cons e es)
  from Cons.IH [OF window_inv_step [OF Cons.prems, of e]] accounting_step [OF Cons.prems, of d e] show ?case by simp
qed simp

text \<open>
  No frame is lost track of: along any run of the dispatcher, the frames notified for a DID are the
  frames announced to it, those its open window still counts, and those dropped because the device came
  online or the dispatcher was disposed.
\<close>

theorem wake_accounting:
  "along (accepted d) es (createWakeDispatcher registrations) =
     along (announced d) es (createWakeDispatcher registrations) +
     along (dropped d) es (createWakeDispatcher registrations) +
     waiting d (fold wake_step es (createWakeDispatcher registrations))"
proof -
  have "window_inv (createWakeDispatcher registrations)"
    by (simp add: window_inv_def createWakeDispatcher_def)
  from accounting_run [OF this, of d es] show ?thesis
    by (simp add: waiting_def createWakeDispatcher_def)
qed

text \<open>Whether the next frame of a DID pings at once.\<close>

definition credit :: "did \<Rightarrow> dispatcher \<Rightarrow> nat" where
  "credit d s = (if \<not> wd_disposed s \<and> wd_pending s d = None then 1 else 0)"

lemma coalesce_step:
  "length (pings d e s) + credit d (wake_step e s) \<le> reopens d e s + credit d s"
  by (cases e) (auto simp: credit_def measure_defs wake_defs task_frame Let_def split: option.splits)

lemma coalesce_run:
  "along (\<lambda>e s. length (pings d e s)) es s + credit d (fold wake_step es s) \<le> along (reopens d) es s + credit d s"
proof (induction es arbitrary: s)
  case (Cons e es)
  from Cons.IH [of "wake_step e s"] coalesce_step [of d e s] show ?case by simp
qed simp

text \<open>
  Bursts are coalesced: along any run, a DID is pinged at most once more than the number of times
  its window's timer fired or the device came online, however many frames are queued for it.
\<close>

theorem wake_coalesced:
  "along (\<lambda>e s. length (pings d e s)) es (createWakeDispatcher registrations) \<le>
     1 + along (reopens d) es (createWakeDispatcher registrations)"
  using coalesce_run [of d es "createWakeDispatcher registrations"]
  by (simp add: credit_def createWakeDispatcher_def)

section \<open>A verdict is about an endpoint, its effect about a DID\<close>

text \<open>
  A \<^verbatim>\<open>gone\<close> verdict on a send that read the old endpoint deletes whatever the DID has registered by then:
  a device that registers a new endpoint while the send is in flight loses it.
\<close>

lemma wake_gone_deletes_replacement:
  assumes "i < length (wd_inFlight s)" and "wt_registration (wd_inFlight s ! i) = Some old"
    and "wt_did (wd_inFlight s ! i) = wr_did new" and "\<not> wd_disposed s"
  shows "wd_registry (wake_step (Put new) s) (wr_did new) = Some new \<and>
    wd_registry (fold wake_step [Put new, TaskSettle i (Inr Gone)] s) (wr_did new) = None"
  using assms by (simp add: task_settle_def wake_put_def wake_delete_def finish_task_def Let_def)

end
