(* ===== verification/Hub_Handlers.thy ===== *)
theory Hub_Handlers
  imports Rate_Limit Client_Registry Wake_Dispatcher
begin

text \<open>
  The request handlers of \<^verbatim>\<open>packages/hub-server/src/handlers.ts\<close>, every procedure except the receive
  channel: publish, subscribe, topic fetch, unsubscribe, the key package procedures and the wake
  procedures. A handler takes the configuration, the time, the verified issuer of the message and the
  parameters to a result and the next state of the hub; a rejection is a \<^verbatim>\<open>HandlerError\<close> with its wire
  code or the thrown value. The store is any \<open>HubStore\<close>. Host code (the authorization hook, failures of
  a durable wake registry), the base64 codec and the hash are fields of the configuration.
\<close>

section \<open>Requests, decisions and errors\<close>

datatype AuthorizeRequest =
    AuthPublish did topic_id RetentionClass nat
  | AuthSubscribe did topic_id "int option"
  | AuthUnsubscribe did topic_id
  | AuthTopicFetch did topic_id
  | AuthKeyPackageUpload did nat "bool option"
  | AuthKeyPackageFetch did did nat
  | AuthKeyPackageStatus did
  | AuthWakeRegister did string "int option"
  | AuthWakeUnregister did
  | AuthReceive did
  | AuthReceiveDeliver did topic_id

datatype AuthorizeDecision =
    PlainDecision bool
  | FullDecision bool "string option"

definition normalizeAuthorizeDecision :: "AuthorizeDecision \<Rightarrow> bool \<times> string option" where
  "normalizeAuthorizeDecision decision = (case decision of
       PlainDecision b \<Rightarrow> (b, None)
     | FullDecision allow reason \<Rightarrow> (allow, reason))"

datatype handler_error = HandlerError string string | Thrown js_error

fun js_message :: "js_error \<Rightarrow> string" where
  "js_message (HubError c m) = m"
| "js_message (OtherError m) = m"

definition rethrowAsHandlerError :: "js_error \<Rightarrow> handler_error" where
  "rethrowAsHandlerError e = (case hubErrorCodeOf e of
       Some code \<Rightarrow> HandlerError code (js_message e)
     | None \<Rightarrow> Thrown e)"

text \<open>The store failures the hub swallows, each with its subject.\<close>

datatype HubStoreErrorEvent =
    PurgeFailed js_error
  | PurgeSubscriptionsFailed js_error
  | AckFailed did js_error
  | FetchLastResortFailed did js_error
  | GetSubscribersFailed topic_id js_error
  | WakeFailed did js_error

section \<open>Configuration and state\<close>

record KeyPackageFetchLimits =
  kl_maxCount :: nat
  kl_maxRequests :: nat
  kl_maxPerTargetConsumed :: nat
  kl_windowMs :: int

definition DEFAULT_KEYPACKAGE_FETCH_LIMITS :: KeyPackageFetchLimits where
  "DEFAULT_KEYPACKAGE_FETCH_LIMITS = \<lparr>kl_maxCount = 10, kl_maxRequests = 30,
     kl_maxPerTargetConsumed = 60, kl_windowMs = 60000\<rparr>"

definition DEFAULT_RATE_LIMITS :: "RateLimitConfig \<times> RateLimitConfig" where
  "DEFAULT_RATE_LIMITS = (\<lparr>rl_rate = 20, rl_burst = 50, rl_ttlMs = None\<rparr>,
     \<lparr>rl_rate = 100, rl_burst = 200, rl_ttlMs = None\<rparr>)"

record fetch_window =
  fw_count :: nat
  fw_resetAt :: int

record 's hub_config =
  hc_store :: "'s HubStore"
  hc_authorize :: "int \<Rightarrow> AuthorizeRequest \<Rightarrow> js_error + AuthorizeDecision"
  hc_perDID :: RateLimitConfig
  hc_perTopic :: RateLimitConfig
  hc_fetchLimits :: KeyPackageFetchLimits
  hc_registryError :: "int \<Rightarrow> js_error option"
  hc_fromB64 :: "string \<Rightarrow> string + bytes"
  hc_toB64 :: "bytes \<Rightarrow> string"
  hc_fromB64U :: "string \<Rightarrow> bytes option"
  hc_onCurve :: "bytes \<Rightarrow> bool"
  hc_sha256 :: "string \<Rightarrow> bytes"

text \<open>What a push writes: the channel it goes to and the frame.\<close>

datatype hub_event =
    Pushed did channel StoredMessage
  | StoreErrorReported HubStoreErrorEvent

record 's hub =
  hb_store :: 's
  hb_registry :: client_registry
  hb_didLimiter :: rate_limiter
  hb_topicLimiter :: rate_limiter
  hb_fetchWindows :: "(did, fetch_window) js_map"
  hb_targetWindows :: "(did, fetch_window) js_map"
  hb_wake :: "dispatcher option"
  hb_events :: "hub_event list"

definition createHandlers :: "'s \<Rightarrow> dispatcher option \<Rightarrow> 's hub" where
  "createHandlers store wake = \<lparr>hb_store = store, hb_registry = empty_registry, hb_didLimiter = [],
     hb_topicLimiter = [], hb_fetchWindows = [], hb_targetWindows = [], hb_wake = wake, hb_events = []\<rparr>"

text \<open>A handler that may reject: the next step runs only on a result.\<close>

definition and_then ::
    "(handler_error + 'a) \<times> 'h \<Rightarrow> ('a \<Rightarrow> 'h \<Rightarrow> (handler_error + 'b) \<times> 'h) \<Rightarrow> (handler_error + 'b) \<times> 'h" where
  "and_then x f = (case x of (Inl e, h) \<Rightarrow> (Inl e, h) | (Inr a, h) \<Rightarrow> f a h)"

lemma and_then_simps [simp]:
  "and_then (Inl e, h) f = (Inl e, h)"
  "and_then (Inr a, h) f = f a h"
  by (simp_all add: and_then_def)

lemma and_then_Inr:
  "and_then x f = (Inr b, h') \<longleftrightarrow> (\<exists>a h. x = (Inr a, h) \<and> f a h = (Inr b, h'))"
  by (cases x; cases "fst x") (auto simp: and_then_def)

text \<open>A store failure becomes the client's error, with its wire code when it has one.\<close>

definition or_rethrow :: "(js_error + 'a) \<times> 'h \<Rightarrow> (handler_error + 'a) \<times> 'h" where
  "or_rethrow x = (case x of (Inl e, h) \<Rightarrow> (Inl (rethrowAsHandlerError e), h) | (Inr a, h) \<Rightarrow> (Inr a, h))"

lemma or_rethrow_simps [simp]:
  "or_rethrow (Inl e, h) = (Inl (rethrowAsHandlerError e), h)"
  "or_rethrow (Inr a, h) = (Inr a, h)"
  by (simp_all add: or_rethrow_def)

section \<open>Guards\<close>

definition getClientDID :: "string option \<Rightarrow> 's hub \<Rightarrow> (handler_error + did) \<times> 's hub" where
  "getClientDID iss h = (case iss of
       Some d \<Rightarrow> if d = [] then (Inl (Thrown (OtherError ''Unauthenticated message: missing verified issuer DID'')), h)
                 else (Inr d, h)
     | None \<Rightarrow> (Inl (Thrown (OtherError ''Unauthenticated message: missing verified issuer DID'')), h))"

text \<open>The hook is asked; a refusal carries the given code and the hook's reason.\<close>

definition authorized ::
    "'s hub_config \<Rightarrow> int \<Rightarrow> AuthorizeRequest \<Rightarrow> string \<Rightarrow> string \<Rightarrow> 's hub \<Rightarrow> (handler_error + unit) \<times> 's hub" where
  "authorized cfg now req code message h = (case hc_authorize cfg now req of
       Inl e \<Rightarrow> (Inl (Thrown e), h)
     | Inr decision \<Rightarrow> (case normalizeAuthorizeDecision decision of
           (True, _) \<Rightarrow> (Inr (), h)
         | (False, reason) \<Rightarrow> (Inl (HandlerError code (or_else reason message)), h)))"

definition denied_code :: string where
  "denied_code = HUB_ERROR_CODES AuthorizationDeniedError"

definition limitDID :: "'s hub_config \<Rightarrow> int \<Rightarrow> did \<Rightarrow> string \<Rightarrow> 's hub \<Rightarrow> (handler_error + unit) \<times> 's hub" where
  "limitDID cfg now d message h =
     (let (granted, limiter) = tryConsume (hc_perDID cfg) now d (hb_didLimiter h);
          h' = h\<lparr>hb_didLimiter := limiter\<rparr>
      in if granted then (Inr (), h') else (Inl (HandlerError (HUB_ERROR_CODES RateLimitedError) message), h'))"

definition limitTopic :: "'s hub_config \<Rightarrow> int \<Rightarrow> topic_id \<Rightarrow> string \<Rightarrow> 's hub \<Rightarrow> (handler_error + unit) \<times> 's hub" where
  "limitTopic cfg now t message h =
     (let (granted, limiter) = tryConsume (hc_perTopic cfg) now t (hb_topicLimiter h);
          h' = h\<lparr>hb_topicLimiter := limiter\<rparr>
      in if granted then (Inr (), h') else (Inl (HandlerError (HUB_ERROR_CODES RateLimitedError) message), h'))"

text \<open>Running a store operation on the store of the hub.\<close>

definition on_store :: "('s \<Rightarrow> 'r \<times> 's) \<Rightarrow> 's hub \<Rightarrow> 'r \<times> 's hub" where
  "on_store f h = (let (r, s) = f (hb_store h) in (r, h\<lparr>hb_store := s\<rparr>))"

definition storeErrorReporter :: "HubStoreErrorEvent \<Rightarrow> 's hub \<Rightarrow> 's hub" where
  "storeErrorReporter e h = h\<lparr>hb_events := hb_events h @ [StoreErrorReported e]\<rparr>"

section \<open>Publish\<close>

record PublishRequest =
  pq_topicID :: topic_id
  pq_payload :: string
  pq_retain :: "RetentionClass option"
  pq_expectedHead :: "sequence_id option option"
  pq_publishID :: "string option"

text \<open>One recipient of the fan-out: a live channel gets the frame, a sleeping device a wake.\<close>

definition deliver :: "StoredMessage \<Rightarrow> did \<Rightarrow> 's hub \<Rightarrow> 's hub" where
  "deliver message recipient h =
     (if recipient = sm_senderDID message then h
      else case writer_of recipient (hb_registry h) of
          Some c \<Rightarrow> h\<lparr>hb_events := hb_events h @ [Pushed recipient c message]\<rparr>
        | None \<Rightarrow> h\<lparr>hb_wake := map_option (notify \<lparr>wn_did = recipient, wn_topicID = sm_topicID message,
            wn_sequenceID = sm_sequenceID message\<rparr>) (hb_wake h)\<rparr>)"

definition fan_out :: "'s hub_config \<Rightarrow> StoredMessage \<Rightarrow> 's hub \<Rightarrow> 's hub" where
  "fan_out cfg message h = (case hs_getSubscribers (hc_store cfg) (sm_topicID message) (hb_store h) of
       Inl e \<Rightarrow> storeErrorReporter (GetSubscribersFailed (sm_topicID message) e) h
     | Inr subscribers \<Rightarrow> fold (deliver message) subscribers h)"

definition publish_params :: "did \<Rightarrow> bytes \<Rightarrow> PublishRequest \<Rightarrow> PublishParams" where
  "publish_params sender payload q = \<lparr>pp_senderDID = sender, pp_topicID = pq_topicID q, pp_payload = payload,
     pp_expectedHead = pq_expectedHead q, pp_publishID = pq_publishID q, pp_retain = pq_retain q\<rparr>"

definition handle_publish ::
    "'s hub_config \<Rightarrow> int \<Rightarrow> string option \<Rightarrow> PublishRequest \<Rightarrow> 's hub \<Rightarrow> (handler_error + sequence_id) \<times> 's hub" where
  "handle_publish cfg now iss q h =
     and_then (getClientDID iss h) (\<lambda>sender h.
     and_then (case hc_fromB64 cfg (pq_payload q) of
         Inl m \<Rightarrow> (Inl (rethrowAsHandlerError (HubError InvalidPayloadError m)), h)
       | Inr payload \<Rightarrow> (Inr payload, h)) (\<lambda>payload h.
     and_then (authorized cfg now (AuthPublish sender (pq_topicID q) (or_else (pq_retain q) RMailbox) (length payload))
         ''EK02'' ''Not authorized to publish to topic'' h) (\<lambda>_ h.
     and_then (limitDID cfg now sender ''Publish rate limit exceeded for DID'' h) (\<lambda>_ h.
     and_then (limitTopic cfg now (pq_topicID q) ''Publish rate limit exceeded for topic'' h) (\<lambda>_ h.
     and_then (or_rethrow (on_store (hs_publish (hc_store cfg) now (publish_params sender payload q)) h)) (\<lambda>result h.
       (Inr (pr_sequenceID result),
        if pr_deduped result then h
        else fan_out cfg \<lparr>sm_sequenceID = pr_sequenceID result, sm_senderDID = sender, sm_topicID = pq_topicID q,
               sm_payload = payload,
               sm_logPosition = (if pq_retain q = Some RLog then Some (pr_sequenceID result) else None)\<rparr> h)))))))"

section \<open>Subscriptions and topic reads\<close>

definition handle_subscribe ::
    "'s hub_config \<Rightarrow> int \<Rightarrow> string option \<Rightarrow> topic_id \<Rightarrow> int option \<Rightarrow> 's hub \<Rightarrow> (handler_error + bool) \<times> 's hub" where
  "handle_subscribe cfg now iss t retention h =
     and_then (getClientDID iss h) (\<lambda>d h.
     and_then (authorized cfg now (AuthSubscribe d t retention) denied_code ''Not authorized to subscribe to topic'' h) (\<lambda>_ h.
     and_then (limitDID cfg now d ''Subscribe rate limit exceeded for DID'' h) (\<lambda>_ h.
     and_then (or_rethrow (on_store (hs_subscribe (hc_store cfg) now
         \<lparr>sp_subscriberDID = d, sp_topicID = t, sp_retention = retention\<rparr>) h)) (\<lambda>_ h. (Inr True, h)))))"

record wire_message =
  wm_sequenceID :: sequence_id
  wm_senderDID :: did
  wm_topicID :: topic_id
  wm_payload :: string

record TopicFetchReply =
  tr_messages :: "wire_message list"
  tr_head :: "sequence_id option"
  tr_oldest :: "sequence_id option"
  tr_gap :: bool

definition topic_reply :: "(bytes \<Rightarrow> string) \<Rightarrow> FetchTopicResult \<Rightarrow> TopicFetchReply" where
  "topic_reply toB64 result = \<lparr>tr_messages = map (\<lambda>m. \<lparr>wm_sequenceID = sm_sequenceID m, wm_senderDID = sm_senderDID m,
       wm_topicID = sm_topicID m, wm_payload = toB64 (sm_payload m)\<rparr>) (fr_messages result),
     tr_head = fr_head result, tr_oldest = fr_oldest result, tr_gap = fr_gap result\<rparr>"

definition handle_topic_fetch ::
    "'s hub_config \<Rightarrow> int \<Rightarrow> string option \<Rightarrow> topic_id \<Rightarrow> sequence_id option \<Rightarrow> nat option \<Rightarrow> 's hub
       \<Rightarrow> (handler_error + TopicFetchReply) \<times> 's hub" where
  "handle_topic_fetch cfg now iss t after limit h =
     and_then (getClientDID iss h) (\<lambda>d h.
     and_then (authorized cfg now (AuthTopicFetch d t) denied_code ''Not authorized to fetch topic'' h) (\<lambda>_ h.
     and_then (or_rethrow (hs_fetchTopic (hc_store cfg)
         \<lparr>ft_subscriberDID = d, ft_topicID = t, ft_after = after, ft_limit = limit\<rparr> (hb_store h), h)) (\<lambda>result h.
       (Inr (topic_reply (hc_toB64 cfg) result), h))))"

definition handle_unsubscribe ::
    "'s hub_config \<Rightarrow> int \<Rightarrow> string option \<Rightarrow> topic_id \<Rightarrow> 's hub \<Rightarrow> (handler_error + bool) \<times> 's hub" where
  "handle_unsubscribe cfg now iss t h =
     and_then (getClientDID iss h) (\<lambda>d h.
     and_then (limitDID cfg now d ''Unsubscribe rate limit exceeded for DID'' h) (\<lambda>_ h.
     and_then (or_rethrow (on_store (hs_unsubscribe (hc_store cfg) d t) h)) (\<lambda>_ h. (Inr True, h))))"

section \<open>Key packages\<close>

text \<open>\<^verbatim>\<open>Promise.all\<close> over the uploads: every package is offered in order, and the first failure is the answer.\<close>

definition store_all ::
    "'s hub_config \<Rightarrow> int \<Rightarrow> did \<Rightarrow> int option \<Rightarrow> string list \<Rightarrow> 's \<Rightarrow> (js_error + unit) \<times> 's" where
  "store_all cfg now owner notAfter kps s =
     fold (\<lambda>kp (r, s). let (r', s') = hs_storeKeyPackage (hc_store cfg) now owner kp notAfter s
             in (case r of Inl e \<Rightarrow> Inl e | Inr _ \<Rightarrow> r', s')) kps (Inr (), s)"

definition handle_keypackage_upload ::
    "'s hub_config \<Rightarrow> int \<Rightarrow> string option \<Rightarrow> string list \<Rightarrow> bool option \<Rightarrow> int option \<Rightarrow> 's hub
       \<Rightarrow> (handler_error + nat) \<times> 's hub" where
  "handle_keypackage_upload cfg now iss keyPackages lastResort notAfter h =
     and_then (getClientDID iss h) (\<lambda>d h.
       if lastResort = Some True \<and> length keyPackages \<noteq> 1
       then (Inl (HandlerError (HUB_ERROR_CODES InvalidPayloadError) ''A last-resort upload must carry exactly one key package''), h)
       else if lastResort = Some True \<and> notAfter \<noteq> None
       then (Inl (HandlerError (HUB_ERROR_CODES InvalidPayloadError)
               ''A last-resort upload carries no expiry: the slot is kept fresh by rotation''), h)
       else
     and_then (authorized cfg now (AuthKeyPackageUpload d (length keyPackages) (if lastResort = Some True then Some True else None))
         denied_code ''Not authorized to upload key packages'' h) (\<lambda>_ h.
     and_then (limitDID cfg now d ''Key package upload rate limit exceeded for DID'' h) (\<lambda>_ h.
     and_then (or_rethrow (if lastResort = Some True
         then on_store (hs_storeLastResortKeyPackage (hc_store cfg) d (hd keyPackages)) h
         else on_store (store_all cfg now d notAfter keyPackages) h)) (\<lambda>_ h. (Inr (length keyPackages), h)))))"

definition SWEEP_AT :: nat where
  "SWEEP_AT = 1024"

text \<open>The expired windows go when there are too many.\<close>

definition sweep_windows :: "int \<Rightarrow> (did, fetch_window) js_map \<Rightarrow> (did, fetch_window) js_map" where
  "sweep_windows now windows =
     (if SWEEP_AT < length windows then filter (\<lambda>(_, w). \<not> fw_resetAt w \<le> now) windows else windows)"

text \<open>The window of a key that is still open.\<close>

definition open_window :: "int \<Rightarrow> did \<Rightarrow> (did, fetch_window) js_map \<Rightarrow> fetch_window option" where
  "open_window now d windows = (case map_of windows d of
       None \<Rightarrow> None
     | Some w \<Rightarrow> if fw_resetAt w \<le> now then None else Some w)"

definition assertKeyPackageFetchAllowed ::
    "KeyPackageFetchLimits \<Rightarrow> int \<Rightarrow> did \<Rightarrow> (did, fetch_window) js_map
       \<Rightarrow> (js_error + unit) \<times> (did, fetch_window) js_map" where
  "assertKeyPackageFetchAllowed lims now requester windows =
     (let ws = sweep_windows now windows
      in case open_window now requester ws of
           None \<Rightarrow> (Inr (), AList.update requester \<lparr>fw_count = 1, fw_resetAt = now + kl_windowMs lims\<rparr> ws)
         | Some w \<Rightarrow> if kl_maxRequests lims \<le> fw_count w
             then (Inl (HubError KeyPackageFetchLimitError ''Key package fetch rate limit exceeded''), ws)
             else (Inr (), AList.update requester (w\<lparr>fw_count := Suc (fw_count w)\<rparr>) ws))"

definition assertTargetConsumptionAllowed ::
    "KeyPackageFetchLimits \<Rightarrow> int \<Rightarrow> did \<Rightarrow> nat \<Rightarrow> (did, fetch_window) js_map
       \<Rightarrow> (js_error + unit) \<times> (did, fetch_window) js_map" where
  "assertTargetConsumptionAllowed lims now target amount windows =
     (let ws = sweep_windows now windows;
          refused = Inl (HubError KeyPackageFetchLimitError (''Key package consumption limit exceeded for target '' @ target))
      in case open_window now target ws of
           None \<Rightarrow> if kl_maxPerTargetConsumed lims < amount then (refused, ws)
             else (Inr (), AList.update target \<lparr>fw_count = amount, fw_resetAt = now + kl_windowMs lims\<rparr> ws)
         | Some w \<Rightarrow> if kl_maxPerTargetConsumed lims < fw_count w + amount then (refused, ws)
             else (Inr (), AList.update target (w\<lparr>fw_count := fw_count w + amount\<rparr>) ws))"

definition charge_requester :: "'s hub_config \<Rightarrow> int \<Rightarrow> did \<Rightarrow> 's hub \<Rightarrow> (js_error + unit) \<times> 's hub" where
  "charge_requester cfg now d h =
     (let (r, ws) = assertKeyPackageFetchAllowed (hc_fetchLimits cfg) now d (hb_fetchWindows h)
      in (r, h\<lparr>hb_fetchWindows := ws\<rparr>))"

definition charge_target :: "'s hub_config \<Rightarrow> int \<Rightarrow> did \<Rightarrow> nat \<Rightarrow> 's hub \<Rightarrow> (js_error + unit) \<times> 's hub" where
  "charge_target cfg now d n h =
     (let (r, ws) = assertTargetConsumptionAllowed (hc_fetchLimits cfg) now d n (hb_targetWindows h)
      in (r, h\<lparr>hb_targetWindows := ws\<rparr>))"

text \<open>The count a request may ask for: at least one, at most the cap.\<close>

definition capped_count :: "KeyPackageFetchLimits \<Rightarrow> int option \<Rightarrow> nat" where
  "capped_count lims count = min (nat (max (or_else count 1) 1)) (kl_maxCount lims)"

text \<open>The target's budget is spent: only its last-resort slot can still answer.\<close>

definition serve_floor :: "'s hub_config \<Rightarrow> did \<Rightarrow> 's hub \<Rightarrow> (handler_error + string list) \<times> 's hub" where
  "serve_floor cfg target h = (case hs_fetchLastResortKeyPackage (hc_store cfg) target (hb_store h) of
       Inr (Some lastResort) \<Rightarrow> (Inr [lastResort], h)
     | _ \<Rightarrow> (Inl (HandlerError (HUB_ERROR_CODES KeyPackageFetchLimitError)
              (''Key package consumption limit exceeded for target '' @ target)), h))"

text \<open>The destructive read, then the top-up, whose failure may only fail a request that consumed nothing.\<close>

definition serve_pool ::
    "'s hub_config \<Rightarrow> int \<Rightarrow> did \<Rightarrow> nat \<Rightarrow> 's hub \<Rightarrow> (handler_error + string list) \<times> 's hub" where
  "serve_pool cfg now target n h =
     and_then (or_rethrow (on_store (hs_fetchKeyPackages (hc_store cfg) now target (Some n)) h)) (\<lambda>consumed h.
       if n \<le> length consumed then (Inr consumed, h)
       else case hs_fetchLastResortKeyPackage (hc_store cfg) target (hb_store h) of
           Inl e \<Rightarrow> if consumed = [] then (Inl (rethrowAsHandlerError e), h)
                    else (Inr consumed, storeErrorReporter (FetchLastResortFailed target e) h)
         | Inr None \<Rightarrow> (Inr consumed, h)
         | Inr (Some lastResort) \<Rightarrow> (Inr (consumed @ [lastResort]), h))"

definition handle_keypackage_fetch ::
    "'s hub_config \<Rightarrow> int \<Rightarrow> string option \<Rightarrow> did \<Rightarrow> int option \<Rightarrow> 's hub \<Rightarrow> (handler_error + string list) \<times> 's hub" where
  "handle_keypackage_fetch cfg now iss target count h =
     and_then (getClientDID iss h) (\<lambda>requester h.
     let n = capped_count (hc_fetchLimits cfg) count in
     and_then (authorized cfg now (AuthKeyPackageFetch requester target n) denied_code
         ''Not authorized to fetch key packages'' h) (\<lambda>_ h.
     and_then (or_rethrow (charge_requester cfg now requester h)) (\<lambda>_ h.
     case charge_target cfg now target n h of
       (Inr _, h) \<Rightarrow> serve_pool cfg now target n h
     | (Inl (HubError KeyPackageFetchLimitError m), h) \<Rightarrow> serve_floor cfg target h
     | (Inl e, h) \<Rightarrow> (Inl (rethrowAsHandlerError e), h))))"

text \<open>Two hexadecimal digits per byte.\<close>

definition hex_digit :: "nat \<Rightarrow> char" where
  "hex_digit n = ''0123456789abcdef'' ! n"

definition keyPackageDigest :: "(string \<Rightarrow> bytes) \<Rightarrow> string \<Rightarrow> string" where
  "keyPackageDigest sha stored = concat (map (\<lambda>b. [hex_digit (unat b div 16), hex_digit (unat b mod 16)]) (sha stored))"

definition handle_keypackage_status ::
    "'s hub_config \<Rightarrow> int \<Rightarrow> string option \<Rightarrow> 's hub \<Rightarrow> (handler_error + nat \<times> string option) \<times> 's hub" where
  "handle_keypackage_status cfg now iss h =
     and_then (getClientDID iss h) (\<lambda>d h.
     and_then (authorized cfg now (AuthKeyPackageStatus d) denied_code ''Not authorized to read key package status'' h) (\<lambda>_ h.
     and_then (limitDID cfg now d ''Key package status rate limit exceeded for DID'' h) (\<lambda>_ h.
     and_then (or_rethrow (hs_countKeyPackages (hc_store cfg) now d (hb_store h), h)) (\<lambda>count h.
     and_then (or_rethrow (hs_fetchLastResortKeyPackage (hc_store cfg) d (hb_store h), h)) (\<lambda>stored h.
       (Inr (count, map_option (keyPackageDigest (hc_sha256 cfg)) stored), h))))))"

section \<open>Wake endpoints\<close>

definition wakeRecipientKeyProblem ::
    "(string \<Rightarrow> bytes option) \<Rightarrow> (bytes \<Rightarrow> bool) \<Rightarrow> string \<Rightarrow> string \<Rightarrow> string option" where
  "wakeRecipientKeyProblem fromB64U onCurve publicKey authSecret =
     (case (fromB64U publicKey, fromB64U authSecret) of
        (Some pk, Some secret) \<Rightarrow>
          if length pk \<noteq> 65 then Some ''publicKey must be a 65-byte uncompressed P-256 point''
          else if \<not> onCurve pk then Some ''publicKey is not a point on P-256''
          else if length secret \<noteq> 16 then Some ''authSecret must be 16 bytes''
          else None
      | _ \<Rightarrow> Some ''publicKey and authSecret must be base64url'')"

record WakeRegisterRequest =
  wq_kind :: string
  wq_endpoint :: string
  wq_publicKey :: string
  wq_authSecret :: string
  wq_expiresAt :: "int option"

definition wake_supported :: "'s hub \<Rightarrow> (handler_error + dispatcher) \<times> 's hub" where
  "wake_supported h = (case hb_wake h of
       None \<Rightarrow> (Inl (HandlerError (HUB_ERROR_CODES WakeNotSupportedError) ''This hub does not support wake notifications''), h)
     | Some w \<Rightarrow> (Inr w, h))"

definition handle_wake_register ::
    "'s hub_config \<Rightarrow> int \<Rightarrow> string option \<Rightarrow> WakeRegisterRequest \<Rightarrow> 's hub \<Rightarrow> (handler_error + bool) \<times> 's hub" where
  "handle_wake_register cfg now iss q h =
     and_then (getClientDID iss h) (\<lambda>d h.
     and_then (wake_supported h) (\<lambda>w h.
     and_then (authorized cfg now (AuthWakeRegister d (wq_kind q) (wq_expiresAt q)) denied_code
         ''Not authorized to register a wake endpoint'' h) (\<lambda>_ h.
     and_then (limitDID cfg now d ''Wake rate limit exceeded for DID'' h) (\<lambda>_ h.
       case wakeRecipientKeyProblem (hc_fromB64U cfg) (hc_onCurve cfg) (wq_publicKey q) (wq_authSecret q) of
         Some problem \<Rightarrow> (Inl (HandlerError (HUB_ERROR_CODES InvalidPayloadError) (''Wake '' @ problem)), h)
       | None \<Rightarrow> (case hc_registryError cfg now of
             Some e \<Rightarrow> (Inl (rethrowAsHandlerError e), h)
           | None \<Rightarrow> (Inr True, h\<lparr>hb_wake := Some (w\<lparr>wd_registry := wake_put \<lparr>wr_did = d, wr_kind = wq_kind q,
               wr_endpoint = wq_endpoint q, wr_publicKey = wq_publicKey q, wr_authSecret = wq_authSecret q,
               wr_expiresAt = wq_expiresAt q\<rparr> (wd_registry w)\<rparr>)\<rparr>))))))"

definition handle_wake_unregister ::
    "'s hub_config \<Rightarrow> int \<Rightarrow> string option \<Rightarrow> 's hub \<Rightarrow> (handler_error + bool) \<times> 's hub" where
  "handle_wake_unregister cfg now iss h =
     and_then (getClientDID iss h) (\<lambda>d h.
     and_then (wake_supported h) (\<lambda>w h.
     and_then (authorized cfg now (AuthWakeUnregister d) denied_code ''Not authorized to unregister a wake endpoint'' h) (\<lambda>_ h.
     and_then (limitDID cfg now d ''Wake rate limit exceeded for DID'' h) (\<lambda>_ h.
       case hc_registryError cfg now of
         Some e \<Rightarrow> (Inl (rethrowAsHandlerError e), h)
       | None \<Rightarrow>
           let (existed, registrations) = wake_get now d (wd_registry w)
           in (Inr (existed \<noteq> None), h\<lparr>hb_wake := Some (w\<lparr>wd_registry := wake_delete d registrations\<rparr>)\<rparr>)))))"

end
