(* ===== verification/Hub_Props.thy ===== *)
theory Hub_Props
  imports Hub_Handlers Memory_Delivery
begin

text \<open>
  Properties of the request handlers, and the hub over the memory store. The contract between the key
  package handlers and a store is the locale \<open>key_package_pool\<close>; the memory store interprets it.
\<close>

section \<open>The memory store as a hub store\<close>

definition always :: "'a \<times> 's \<Rightarrow> (js_error + 'a) \<times> 's" where
  "always x = (Inr (fst x), snd x)"

definition memory_hub_store :: "MemoryStoreOptions \<Rightarrow> mem_store HubStore" where
  "memory_hub_store opts = \<lparr>
     hs_publish = mem_publish opts,
     hs_fetch = (\<lambda>p s. always (mem_fetch p s)),
     hs_fetchTopic = mem_fetchTopic,
     hs_ack = (\<lambda>d qs s. always ((), mem_ack d qs s)),
     hs_purge = (\<lambda>now older s. always (mem_purge opts now older s)),
     hs_trim = (\<lambda>t before s. always ((), mem_trim t before s)),
     hs_subscribe = (\<lambda>now. mem_subscribe opts),
     hs_unsubscribe = (\<lambda>d t s. always ((), mem_unsubscribe d t s)),
     hs_getSubscribers = (\<lambda>t s. Inr (mem_getSubscribers t s)),
     hs_storeKeyPackage = mem_storeKeyPackage opts,
     hs_fetchKeyPackages = (\<lambda>now d n s. always (mem_fetchKeyPackages now d n s)),
     hs_countKeyPackages = (\<lambda>now d s. Inr (mem_countKeyPackages now d s)),
     hs_storeLastResortKeyPackage = (\<lambda>d kp s. always ((), mem_storeLastResortKeyPackage d kp s)),
     hs_fetchLastResortKeyPackage = (\<lambda>d s. Inr (mem_fetchLastResortKeyPackage d s))\<rparr>"

text \<open>The packages a store would serve at a time.\<close>

definition mem_pool :: "int \<Rightarrow> did \<Rightarrow> mem_store \<Rightarrow> string list" where
  "mem_pool now owner s = map kp_keyPackage
     (filter (\<lambda>e. isLive e (nowSeconds now)) (or_else (ms_keyPackages s owner) []))"

text \<open>A host that bans one DID, and a hub where \<^verbatim>\<open>b\<close> is online and subscribed to a topic.\<close>

definition demo_hub_config :: "mem_store hub_config" where
  "demo_hub_config = \<lparr>hc_store = memory_hub_store default_options,
     hc_authorize = (\<lambda>now req. Inr (case req of AuthSubscribe d t r \<Rightarrow> PlainDecision (d \<noteq> ''banned'') | _ \<Rightarrow> PlainDecision True)),
     hc_perDID = fst DEFAULT_RATE_LIMITS, hc_perTopic = snd DEFAULT_RATE_LIMITS,
     hc_fetchLimits = DEFAULT_KEYPACKAGE_FETCH_LIMITS, hc_registryError = (\<lambda>_. None),
     hc_fromB64 = (\<lambda>_. Inr [1, 2]), hc_toB64 = (\<lambda>_. ''AQI=''), hc_fromB64U = (\<lambda>_. Some []),
     hc_onCurve = (\<lambda>_. False), hc_sha256 = (\<lambda>_. [])\<rparr>"

definition demo_store :: mem_store where
  "demo_store = snd (mem_storeKeyPackage default_options 0 ''b'' ''kp1'' None
     (snd (mem_subscribe default_options \<lparr>sp_subscriberDID = ''b'', sp_topicID = ''t'', sp_retention = None\<rparr> createMemoryStore)))"

definition demo_hub :: "mem_store hub" where
  "demo_hub = (createHandlers demo_store None)\<lparr>hb_registry := snd (bindReceiveWriter ''b'' 7 (register ''b'' empty_registry))\<rparr>"

definition demo_publish :: PublishRequest where
  "demo_publish = \<lparr>pq_topicID = ''t'', pq_payload = ''AQI='', pq_retain = Some RLog, pq_expectedHead = None, pq_publishID = None\<rparr>"

definition demo_published :: "mem_store hub" where
  "demo_published = snd (handle_publish demo_hub_config 0 (Some ''a'') demo_publish demo_hub)"

lemma demo_publish_ok:
  "handle_publish demo_hub_config 0 (Some ''a'') demo_publish demo_hub = (Inr ''000000000001'', demo_published)"
proof -
  have "fst (handle_publish demo_hub_config 0 (Some ''a'') demo_publish demo_hub) = Inr ''000000000001''"
    by code_simp
  then show ?thesis by (simp add: demo_published_def prod_eq_iff)
qed

section \<open>The guards change nothing but the limiters\<close>

lemma getClientDID_cases:
  "getClientDID iss h = (Inr d, h') \<longleftrightarrow> iss = Some d \<and> d \<noteq> [] \<and> h' = h"
  by (auto simp: getClientDID_def split: option.splits)

lemma limits_Inr:
  "limitDID cfg now d m h = (Inr u, h') \<Longrightarrow> h' = h\<lparr>hb_didLimiter := snd (tryConsume (hc_perDID cfg) now d (hb_didLimiter h))\<rparr>"
  "limitTopic cfg now t m h = (Inr u, h') \<Longrightarrow> h' = h\<lparr>hb_topicLimiter := snd (tryConsume (hc_perTopic cfg) now t (hb_topicLimiter h))\<rparr>"
  by (auto simp: limitDID_def limitTopic_def Let_def case_prod_unfold split: if_splits)

lemma or_rethrow_Inr: "or_rethrow x = (Inr a, h) \<longleftrightarrow> x = (Inr a, h)"
  by (auto simp: or_rethrow_def split: prod.splits sum.splits)

lemma on_store_eq: "on_store f h = (r, h') \<longleftrightarrow> (\<exists>s'. f (hb_store h) = (r, s') \<and> h' = h\<lparr>hb_store := s'\<rparr>)"
  by (cases "f (hb_store h)") (auto simp: on_store_def)

lemma and_thenE:
  assumes "and_then x f = (Inr b, h')"
  obtains a h where "x = (Inr a, h)" and "f a h = (Inr b, h')"
  using assms by (auto simp: and_then_Inr)

section \<open>Refusals\<close>

datatype hub_request =
    PublishR PublishRequest
  | SubscribeR topic_id "int option"
  | TopicFetchR topic_id "sequence_id option" "nat option"
  | UnsubscribeR topic_id
  | UploadR "string list" "bool option" "int option"
  | KeyPackageFetchR did "int option"
  | StatusR
  | WakeRegisterR WakeRegisterRequest
  | WakeUnregisterR

definition answered :: "(handler_error + 'a) \<times> 's hub \<Rightarrow> handler_error option \<times> 's hub" where
  "answered x = (case x of (Inl e, h) \<Rightarrow> (Some e, h) | (Inr _, h) \<Rightarrow> (None, h))"

text \<open>One request: the error it was answered with, if any, and the next hub.\<close>

fun hub_handle :: "'s hub_config \<Rightarrow> int \<Rightarrow> string option \<Rightarrow> hub_request \<Rightarrow> 's hub \<Rightarrow> handler_error option \<times> 's hub" where
  "hub_handle cfg now iss (PublishR q) h = answered (handle_publish cfg now iss q h)"
| "hub_handle cfg now iss (SubscribeR t r) h = answered (handle_subscribe cfg now iss t r h)"
| "hub_handle cfg now iss (TopicFetchR t a n) h = answered (handle_topic_fetch cfg now iss t a n h)"
| "hub_handle cfg now iss (UnsubscribeR t) h = answered (handle_unsubscribe cfg now iss t h)"
| "hub_handle cfg now iss (UploadR kps lr na) h = answered (handle_keypackage_upload cfg now iss kps lr na h)"
| "hub_handle cfg now iss (KeyPackageFetchR target n) h = answered (handle_keypackage_fetch cfg now iss target n h)"
| "hub_handle cfg now iss StatusR h = answered (handle_keypackage_status cfg now iss h)"
| "hub_handle cfg now iss (WakeRegisterR q) h = answered (handle_wake_register cfg now iss q h)"
| "hub_handle cfg now iss WakeUnregisterR h = answered (handle_wake_unregister cfg now iss h)"

text \<open>The question a request puts to the host's hook.\<close>

fun question :: "'s hub_config \<Rightarrow> did \<Rightarrow> hub_request \<Rightarrow> AuthorizeRequest option" where
  "question cfg d (PublishR q) = (case hc_fromB64 cfg (pq_payload q) of
       Inl _ \<Rightarrow> None
     | Inr payload \<Rightarrow> Some (AuthPublish d (pq_topicID q) (or_else (pq_retain q) RMailbox) (length payload)))"
| "question cfg d (SubscribeR t r) = Some (AuthSubscribe d t r)"
| "question cfg d (TopicFetchR t a n) = Some (AuthTopicFetch d t)"
| "question cfg d (UnsubscribeR t) = None"
| "question cfg d (UploadR kps lr na) = Some (AuthKeyPackageUpload d (length kps) (if lr = Some True then Some True else None))"
| "question cfg d (KeyPackageFetchR target n) = Some (AuthKeyPackageFetch d target (capped_count (hc_fetchLimits cfg) n))"
| "question cfg d StatusR = Some (AuthKeyPackageStatus d)"
| "question cfg d (WakeRegisterR q) = Some (AuthWakeRegister d (wq_kind q) (wq_expiresAt q))"
| "question cfg d WakeUnregisterR = Some (AuthWakeUnregister d)"

definition hook_allows :: "'s hub_config \<Rightarrow> int \<Rightarrow> AuthorizeRequest \<Rightarrow> bool" where
  "hook_allows cfg now req = (case hc_authorize cfg now req of
       Inl _ \<Rightarrow> False
     | Inr decision \<Rightarrow> fst (normalizeAuthorizeDecision decision))"

definition refusal :: "'s hub_config \<Rightarrow> int \<Rightarrow> AuthorizeRequest \<Rightarrow> string \<Rightarrow> string \<Rightarrow> handler_error" where
  "refusal cfg now req code message = (case hc_authorize cfg now req of
       Inl e \<Rightarrow> Thrown e
     | Inr decision \<Rightarrow> HandlerError code (or_else (snd (normalizeAuthorizeDecision decision)) message))"

lemma authorized_eq:
  "authorized cfg now req code message h =
     (if hook_allows cfg now req then (Inr (), h) else (Inl (refusal cfg now req code message), h))"
  by (simp add: authorized_def hook_allows_def refusal_def case_prod_unfold split: sum.split bool.split)

lemma answered_Inl [simp]: "answered (Inl e, h) = (Some e, h)"
  and answered_Inr [simp]: "answered (Inr a, h) = (None, h)"
  by (simp_all add: answered_def)

lemmas handler_defs = handle_publish_def handle_subscribe_def handle_topic_fetch_def handle_unsubscribe_def
  handle_keypackage_upload_def handle_keypackage_fetch_def handle_keypackage_status_def
  handle_wake_register_def handle_wake_unregister_def

text \<open>
  A request without a verified issuer, or one the host's hook refuses (or throws on), is answered
  with an error and leaves the whole hub as it was: the store, the limiters, the windows, the wake endpoints
  and what was pushed.
\<close>

theorem hub_refusal_changes_nothing:
  assumes "iss = None \<or> iss = Some [] \<or>
    (\<exists>d req. iss = Some d \<and> question cfg d request = Some req \<and> \<not> hook_allows cfg now req)"
  shows "\<exists>e. hub_handle cfg now iss request h = (Some e, h)"
proof (cases "iss = None \<or> iss = Some []")
  case True
  then show ?thesis by (cases request) (auto simp: handler_defs getClientDID_def)
next
  case False
  with assms obtain d req where iss: "iss = Some d" "d \<noteq> []"
    and q: "question cfg d request = Some req" and no: "\<not> hook_allows cfg now req" by auto
  have id: "getClientDID iss h = (Inr d, h)" using iss by (simp add: getClientDID_def)
  note facts = handler_defs id authorized_eq no
  show ?thesis
  proof (cases request)
    case (PublishR p)
    with q obtain payload where dec: "hc_fromB64 cfg (pq_payload p) = Inr payload"
      and req: "req = AuthPublish d (pq_topicID p) (or_else (pq_retain p) RMailbox) (length payload)"
      by (auto split: sum.splits)
    from no show ?thesis by (simp add: PublishR req facts dec)
  next
    case (WakeRegisterR w)
    with q show ?thesis by (cases "hb_wake h") (auto simp: facts wake_supported_def)
  next
    case WakeUnregisterR
    with q show ?thesis by (cases "hb_wake h") (auto simp: facts wake_supported_def)
  qed (use q in \<open>auto simp: facts Let_def\<close>)
qed

theorem hub_refusal_changes_nothing_witness:
  "\<exists>e. hub_handle demo_hub_config 5 (Some ''banned'') (SubscribeR ''t'' None) demo_hub = (Some e, demo_hub)"
  using hub_refusal_changes_nothing [of "Some ''banned''" demo_hub_config "SubscribeR ''t'' None" 5 demo_hub]
  by (simp add: hook_allows_def demo_hub_config_def normalizeAuthorizeDecision_def)

section \<open>Publish reaches every subscriber\<close>

text \<open>Who gets a frame at once, and who is woken for it.\<close>

definition live_pushes :: "StoredMessage \<Rightarrow> client_registry \<Rightarrow> did list \<Rightarrow> hub_event list" where
  "live_pushes m r subscribers = List.map_filter (\<lambda>d. if d = sm_senderDID m then None
     else map_option (\<lambda>c. Pushed d c m) (writer_of d r)) subscribers"

definition sleeping :: "StoredMessage \<Rightarrow> client_registry \<Rightarrow> did list \<Rightarrow> did list" where
  "sleeping m r subscribers = filter (\<lambda>d. d \<noteq> sm_senderDID m \<and> writer_of d r = None) subscribers"

definition wake_of :: "StoredMessage \<Rightarrow> did \<Rightarrow> WakeNotifyParams" where
  "wake_of m d = \<lparr>wn_did = d, wn_topicID = sm_topicID m, wn_sequenceID = sm_sequenceID m\<rparr>"

lemma deliver_frame [simp]:
  "hb_store (deliver m d h) = hb_store h" "hb_registry (deliver m d h) = hb_registry h"
  "hb_didLimiter (deliver m d h) = hb_didLimiter h" "hb_topicLimiter (deliver m d h) = hb_topicLimiter h"
  "hb_fetchWindows (deliver m d h) = hb_fetchWindows h" "hb_targetWindows (deliver m d h) = hb_targetWindows h"
  by (simp_all add: deliver_def split: option.split)

lemma fold_deliver_frame [simp]:
  "hb_store (fold (deliver m) ds h) = hb_store h" "hb_registry (fold (deliver m) ds h) = hb_registry h"
  "hb_didLimiter (fold (deliver m) ds h) = hb_didLimiter h" "hb_topicLimiter (fold (deliver m) ds h) = hb_topicLimiter h"
  "hb_fetchWindows (fold (deliver m) ds h) = hb_fetchWindows h" "hb_targetWindows (fold (deliver m) ds h) = hb_targetWindows h"
  by (induction ds arbitrary: h) simp_all

lemma live_pushes_Cons: "live_pushes m r (d # ds) = live_pushes m r [d] @ live_pushes m r ds"
  by (simp add: live_pushes_def map_filter_simps split: option.split)

lemma sleeping_Cons: "sleeping m r (d # ds) = sleeping m r [d] @ sleeping m r ds"
  by (simp add: sleeping_def)

lemma deliver_effect:
  "hb_events (deliver m d h) = hb_events h @ live_pushes m (hb_registry h) [d]"
  "hb_wake (deliver m d h) = map_option (fold notify (map (wake_of m) (sleeping m (hb_registry h) [d]))) (hb_wake h)"
  by (auto simp: deliver_def live_pushes_def sleeping_def wake_of_def map_filter_simps option.map_id option.map_ident
      split: option.split)

lemma fold_deliver:
  "hb_events (fold (deliver m) ds h) = hb_events h @ live_pushes m (hb_registry h) ds"
  "hb_wake (fold (deliver m) ds h) = map_option (fold notify (map (wake_of m) (sleeping m (hb_registry h) ds))) (hb_wake h)"
proof (induction ds arbitrary: h)
  case Nil
  case 1 show ?case by (simp add: live_pushes_def map_filter_simps)
  case 2 show ?case by (simp add: sleeping_def option.map_id option.map_ident)
next
  case (Cons d ds)
  case 1 show ?case
    by (simp add: Cons(1) deliver_effect(1) live_pushes_Cons [of m _ d ds])
  case 2 show ?case
    by (simp add: Cons(2) deliver_effect(2) sleeping_Cons [of m _ d ds] option.map_comp comp_def)
qed

text \<open>A publish that got an answer, step by step.\<close>

definition published :: "did \<Rightarrow> bytes \<Rightarrow> PublishRequest \<Rightarrow> sequence_id \<Rightarrow> StoredMessage" where
  "published sender payload q pos = \<lparr>sm_sequenceID = pos, sm_senderDID = sender, sm_topicID = pq_topicID q,
     sm_payload = payload, sm_logPosition = (if pq_retain q = Some RLog then Some pos else None)\<rparr>"

lemma handle_publish_Inr:
  assumes "handle_publish cfg now iss q h = (Inr pos, h')"
  obtains sender payload h1 result s' where
    "iss = Some sender" "hc_fromB64 cfg (pq_payload q) = Inr payload"
    "hook_allows cfg now (AuthPublish sender (pq_topicID q) (or_else (pq_retain q) RMailbox) (length payload))"
    "hs_publish (hc_store cfg) now (publish_params sender payload q) (hb_store h) = (Inr result, s')"
    "pos = pr_sequenceID result"
    "h1 = h\<lparr>hb_didLimiter := hb_didLimiter h1, hb_topicLimiter := hb_topicLimiter h1, hb_store := s'\<rparr>"
    "h' = (if pr_deduped result then h1 else fan_out cfg (published sender payload q pos) h1)"
  using assms unfolding handle_publish_def
proof (elim and_thenE)
  fix sender h0 payload h2 u h3 v h4 w h5 result h6
  assume steps: "getClientDID iss h = (Inr sender, h0)"
    "(case hc_fromB64 cfg (pq_payload q) of
         Inl m \<Rightarrow> (Inl (rethrowAsHandlerError (HubError InvalidPayloadError m)), h0)
       | Inr payload \<Rightarrow> (Inr payload, h0)) = (Inr payload, h2)"
    "authorized cfg now (AuthPublish sender (pq_topicID q) (or_else (pq_retain q) RMailbox) (length payload))
         ''EK02'' ''Not authorized to publish to topic'' h2 = (Inr u, h3)"
    and limits: "limitDID cfg now sender ''Publish rate limit exceeded for DID'' h3 = (Inr v, h4)"
      "limitTopic cfg now (pq_topicID q) ''Publish rate limit exceeded for topic'' h4 = (Inr w, h5)"
    and store: "or_rethrow (on_store (hs_publish (hc_store cfg) now (publish_params sender payload q)) h5) = (Inr result, h6)"
    and final: "(Inr (pr_sequenceID result), if pr_deduped result then h6
        else fan_out cfg \<lparr>sm_sequenceID = pr_sequenceID result, sm_senderDID = sender, sm_topicID = pq_topicID q,
               sm_payload = payload,
               sm_logPosition = (if pq_retain q = Some RLog then Some (pr_sequenceID result) else None)\<rparr> h6) = (Inr pos, h')"
  from steps have iss: "iss = Some sender" and payload: "hc_fromB64 cfg (pq_payload q) = Inr payload"
    and allow: "hook_allows cfg now (AuthPublish sender (pq_topicID q) (or_else (pq_retain q) RMailbox) (length payload))"
    and h3: "h3 = h"
    by (auto simp: getClientDID_cases authorized_eq split: sum.splits if_splits)
  from store obtain s' where store': "hs_publish (hc_store cfg) now (publish_params sender payload q) (hb_store h5) = (Inr result, s')"
    "h6 = h5\<lparr>hb_store := s'\<rparr>" by (auto simp: or_rethrow_Inr on_store_eq)
  from limits_Inr(1) [OF limits(1)] limits_Inr(2) [OF limits(2)] h3
  have h5: "h5 = h\<lparr>hb_didLimiter := hb_didLimiter h5, hb_topicLimiter := hb_topicLimiter h5\<rparr>" by simp
  show thesis
  proof (rule that [OF iss payload allow, of result s' h6])
    show "hs_publish (hc_store cfg) now (publish_params sender payload q) (hb_store h) = (Inr result, s')"
      using store'(1) h5 by (metis hub.select_convs(1) hub.update_convs(3,4) hub.surjective)
    show "pos = pr_sequenceID result" using final by simp
    show "h6 = h\<lparr>hb_didLimiter := hb_didLimiter h6, hb_topicLimiter := hb_topicLimiter h6, hb_store := s'\<rparr>"
      using store'(2) h5 by (cases h5, cases h) simp
    show "h' = (if pr_deduped result then h6 else fan_out cfg (published sender payload q pos) h6)"
      using final by (auto simp: published_def split: if_splits)
  qed
qed

text \<open>
  Claim C33. An answered publish was allowed by the hook and is exactly one accepted store publish under the verified
  issuer's name. A new frame goes once to every subscriber of the topic except the sender: to its live channel
  if it has one, otherwise to its waker; a replayed one goes to nobody. A store that cannot name the subscribers
  costs the pushes and is reported, not the publish.
\<close>

theorem hub_publish_fanout:
  assumes "handle_publish cfg now iss q h = (Inr pos, h')"
  shows "\<exists>sender payload result. iss = Some sender \<and> hc_fromB64 cfg (pq_payload q) = Inr payload \<and>
    hook_allows cfg now (AuthPublish sender (pq_topicID q) (or_else (pq_retain q) RMailbox) (length payload)) \<and>
    hs_publish (hc_store cfg) now (publish_params sender payload q) (hb_store h) = (Inr result, hb_store h') \<and>
    pos = pr_sequenceID result \<and> hb_registry h' = hb_registry h \<and>
    (case hs_getSubscribers (hc_store cfg) (pq_topicID q) (hb_store h') of
       Inl e \<Rightarrow> hb_wake h' = hb_wake h \<and> hb_events h' = hb_events h @
         (if pr_deduped result then [] else [StoreErrorReported (GetSubscribersFailed (pq_topicID q) e)])
     | Inr subscribers \<Rightarrow>
         (let m = published sender payload q pos; ds = (if pr_deduped result then [] else subscribers)
          in hb_events h' = hb_events h @ live_pushes m (hb_registry h) ds \<and>
             hb_wake h' = map_option (fold notify (map (wake_of m) (sleeping m (hb_registry h) ds))) (hb_wake h)))"
  using assms
proof (rule handle_publish_Inr, goal_cases)
  case (1 sender payload h1 result s')
  let ?m = "published sender payload q pos"
  from 1(6) have h1: "hb_store h1 = s'" "hb_registry h1 = hb_registry h" "hb_events h1 = hb_events h" "hb_wake h1 = hb_wake h"
    by (cases h1, cases h; simp)+
  have m: "sm_topicID ?m = pq_topicID q" by (simp add: published_def)
  have h': "hb_store h' = s'" "hb_registry h' = hb_registry h"
    using 1(7) h1 by (auto simp: fan_out_def storeErrorReporter_def split: sum.splits)
  have none: "live_pushes ?m (hb_registry h) [] = []" "sleeping ?m (hb_registry h) [] = []"
    by (simp_all add: live_pushes_def sleeping_def map_filter_simps)
  have "case hs_getSubscribers (hc_store cfg) (pq_topicID q) s' of
       Inl e \<Rightarrow> hb_wake h' = hb_wake h \<and> hb_events h' = hb_events h @
         (if pr_deduped result then [] else [StoreErrorReported (GetSubscribersFailed (pq_topicID q) e)])
     | Inr subscribers \<Rightarrow>
         (let ds = (if pr_deduped result then [] else subscribers)
          in hb_events h' = hb_events h @ live_pushes ?m (hb_registry h) ds \<and>
             hb_wake h' = map_option (fold notify (map (wake_of ?m) (sleeping ?m (hb_registry h) ds))) (hb_wake h))"
    using 1(7) h1 m none
    by (auto simp: fan_out_def storeErrorReporter_def fold_deliver option.map_id option.map_ident split: sum.splits)
  with 1 h' show ?case by (intro exI [of _ sender] exI [of _ payload] exI [of _ result]) (auto simp: Let_def split: sum.splits if_splits)
qed

theorem hub_publish_fanout_witness:
  "hb_registry demo_published = hb_registry demo_hub \<and>
   fst (handle_publish demo_hub_config 0 (Some ''a'') demo_publish demo_hub) = Inr ''000000000001''"
  using hub_publish_fanout [OF demo_publish_ok] demo_publish_ok by auto

section \<open>The budget of a target\<close>

text \<open>How much more may be charged to a target until a later time within one window length.\<close>

definition allowance :: "KeyPackageFetchLimits \<Rightarrow> int \<Rightarrow> int \<Rightarrow> did \<Rightarrow> (did, fetch_window) js_map \<Rightarrow> nat" where
  "allowance lims until now d windows = (case open_window now d windows of
       None \<Rightarrow> kl_maxPerTargetConsumed lims
     | Some w \<Rightarrow> (kl_maxPerTargetConsumed lims - fw_count w) + (if fw_resetAt w \<le> until then kl_maxPerTargetConsumed lims else 0))"

lemma allowance_bound: "allowance lims until now d windows \<le> 2 * kl_maxPerTargetConsumed lims"
  by (auto simp: allowance_def split: option.split)

lemma allowance_later:
  "now \<le> later \<Longrightarrow> later \<le> until \<Longrightarrow> allowance lims until later d windows \<le> allowance lims until now d windows"
  by (auto simp: allowance_def open_window_def split: option.splits)

lemma sweep_distinct: "distinct (map fst windows) \<Longrightarrow> distinct (map fst (sweep_windows now windows))"
  by (simp add: sweep_windows_def distinct_map_filter)

lemma lookup_swept:
  assumes "distinct (map fst ws)"
  shows "map_of [e \<leftarrow> ws. keep e] d = Option.bind (map_of ws d) (\<lambda>w. if keep (d, w) then Some w else None)"
  using assms by (induction ws) (auto simp: map_of_eq_None_iff rev_image_eqI)

lemma sweep_open: "distinct (map fst windows) \<Longrightarrow> open_window now d (sweep_windows now windows) = open_window now d windows"
  by (auto simp: open_window_def sweep_windows_def lookup_swept split: option.split bind_split)

lemma open_update:
  "open_window now d (AList.update target w ws) =
     (if d = target then (if fw_resetAt w \<le> now then None else Some w) else open_window now d ws)"
  by (simp add: open_window_def update_conv')

lemma charge_cases:
  assumes "distinct (map fst windows)"
    and "assertTargetConsumptionAllowed lims now target n windows = (r, windows')"
  obtains (refused) m where "r = Inl (HubError KeyPackageFetchLimitError m)" "windows' = sweep_windows now windows"
    | (fresh) "open_window now target windows = None" "n \<le> kl_maxPerTargetConsumed lims" "r = Inr ()"
      "windows' = AList.update target \<lparr>fw_count = n, fw_resetAt = now + kl_windowMs lims\<rparr> (sweep_windows now windows)"
    | (added) w where "open_window now target windows = Some w" "fw_count w + n \<le> kl_maxPerTargetConsumed lims" "r = Inr ()"
      "windows' = AList.update target (w\<lparr>fw_count := fw_count w + n\<rparr>) (sweep_windows now windows)"
  using assms(2) that sweep_open [OF assms(1), of now target]
  by (auto simp: assertTargetConsumptionAllowed_def Let_def split: option.splits if_splits)

lemma charge_allowance:
  assumes "distinct (map fst windows)" and "now \<le> until" and "until < now + kl_windowMs lims"
    and "assertTargetConsumptionAllowed lims now target n windows = (r, windows')"
  shows "distinct (map fst windows') \<and>
    (if target = d \<and> r = Inr () then n else 0) + allowance lims until now d windows' \<le> allowance lims until now d windows"
  using assms(1,4)
proof (cases rule: charge_cases)
  case (refused m)
  then show ?thesis by (simp add: sweep_distinct assms(1) allowance_def sweep_open [OF assms(1)])
next
  case fresh
  then show ?thesis
    using assms(2,3)
    by (cases "target = d") (simp_all add: distinct_update sweep_distinct assms(1) allowance_def open_update sweep_open [OF assms(1)])
next
  case (added w)
  have "\<not> fw_resetAt w \<le> now" using added(1) by (auto simp: open_window_def split: option.splits if_splits)
  with added assms(2,3) show ?thesis
    by (cases "target = d") (simp_all add: distinct_update sweep_distinct assms(1) allowance_def open_update sweep_open [OF assms(1)])
qed

text \<open>The three ways a key package fetch goes.\<close>

lemma fetch_request_cases:
  assumes "handle_keypackage_fetch cfg now iss target count h = (r, h')"
  obtains (stopped) e where "r = Inl e" "hb_store h' = hb_store h" "hb_targetWindows h' = hb_targetWindows h"
    | (spent) e where "assertTargetConsumptionAllowed (hc_fetchLimits cfg) now target
          (capped_count (hc_fetchLimits cfg) count) (hb_targetWindows h) = (Inl e, hb_targetWindows h')"
        "hb_store h' = hb_store h" "(\<exists>e. r = Inl e) \<or> (\<exists>kp. r = Inr [kp])"
    | (charged) h2 where "assertTargetConsumptionAllowed (hc_fetchLimits cfg) now target
          (capped_count (hc_fetchLimits cfg) count) (hb_targetWindows h) = (Inr (), hb_targetWindows h2)"
        "hb_store h2 = hb_store h" "serve_pool cfg now target (capped_count (hc_fetchLimits cfg) count) h2 = (r, h')"
proof (cases "iss = None \<or> iss = Some []")
  case True
  with assms that(1) show thesis by (auto simp: handle_keypackage_fetch_def getClientDID_def)
next
  case False
  then obtain d where id: "getClientDID iss h = (Inr d, h)" by (cases iss) (auto simp: getClientDID_def)
  let ?n = "capped_count (hc_fetchLimits cfg) count"
  obtain r1 ws where req: "assertKeyPackageFetchAllowed (hc_fetchLimits cfg) now d (hb_fetchWindows h) = (r1, ws)" by fastforce
  obtain c wt where tgt: "assertTargetConsumptionAllowed (hc_fetchLimits cfg) now target ?n (hb_targetWindows h) = (c, wt)"
    by fastforce
  show thesis
  proof (cases "hook_allows cfg now (AuthKeyPackageFetch d target ?n)")
    case False
    with assms id that(1) show thesis by (auto simp: handle_keypackage_fetch_def authorized_eq Let_def)
  next
    case True
    show thesis
    proof (cases r1)
      case (Inl e)
      with assms id True req that(1) show thesis
        by (auto simp: handle_keypackage_fetch_def authorized_eq charge_requester_def Let_def)
    next
      case (Inr u)
      let ?h2 = "h\<lparr>hb_fetchWindows := ws, hb_targetWindows := wt\<rparr>"
      show thesis
      proof (cases c)
        case (Inr u')
        with assms id True req tgt \<open>r1 = Inr u\<close> have "serve_pool cfg now target ?n ?h2 = (r, h')"
          by (simp add: handle_keypackage_fetch_def authorized_eq charge_requester_def charge_target_def Let_def)
        with tgt Inr that(3) [of ?h2] show thesis by simp
      next
        case (Inl e)
        with assms id True req tgt \<open>r1 = Inr u\<close> have "hb_targetWindows h' = wt" "hb_store h' = hb_store h"
          "(\<exists>e. r = Inl e) \<or> (\<exists>kp. r = Inr [kp])"
          by (auto simp: handle_keypackage_fetch_def authorized_eq charge_requester_def charge_target_def serve_floor_def Let_def
              split: js_error.splits hub_error_class.splits sum.splits option.splits)
        with tgt Inl that(2) [of e] show thesis by simp
      qed
    qed
  qed
qed

lemma serve_pool_windows: "serve_pool cfg now d n h = (r, h') \<Longrightarrow> hb_targetWindows h' = hb_targetWindows h"
  by (auto simp: serve_pool_def and_then_def or_rethrow_def on_store_def storeErrorReporter_def Let_def case_prod_unfold
      split: sum.splits option.splits if_splits prod.splits)

text \<open>What a sequence of fetches, each with its time, issuer, target and count, takes from the pool of a DID.\<close>

fun drain :: "(int \<Rightarrow> did \<Rightarrow> 's \<Rightarrow> string list) \<Rightarrow> 's hub_config \<Rightarrow> did
    \<Rightarrow> (int \<times> string option \<times> did \<times> int option) list \<Rightarrow> 's hub \<Rightarrow> nat" where
  "drain pool cfg d [] h = 0"
| "drain pool cfg d ((now, iss, target, count) # reqs) h =
     (let h' = snd (handle_keypackage_fetch cfg now iss target count h)
      in (length (pool now d (hb_store h)) - length (pool now d (hb_store h'))) + drain pool cfg d reqs h')"

section \<open>Key packages are never lost\<close>

text \<open>What the fetch handler needs of a store: a fetch serves the head of the pool and leaves the rest.\<close>

locale key_package_pool =
  fixes store :: "'s HubStore"
    and pool :: "int \<Rightarrow> did \<Rightarrow> 's \<Rightarrow> string list"
  assumes fetch_ok: "hs_fetchKeyPackages store now d (Some n) s = (Inr served, s') \<Longrightarrow>
      served = take n (pool now d s) \<and> pool now d s' = drop n (pool now d s)"
    and fetch_other: "hs_fetchKeyPackages store now d (Some n) s = (r, s') \<Longrightarrow> d' \<noteq> d \<Longrightarrow> pool now d' s' = pool now d' s"
    and fetch_failed: "hs_fetchKeyPackages store now d (Some n) s = (Inl e, s') \<Longrightarrow> pool now d s' = pool now d s"
begin

text \<open>Packages leave the pool only into the answer, and an error means none did.\<close>

definition handed_over :: "int \<Rightarrow> did \<Rightarrow> nat \<Rightarrow> handler_error + string list \<Rightarrow> 's hub \<Rightarrow> 's hub \<Rightarrow> bool" where
  "handed_over now d n r h h' \<longleftrightarrow> (\<exists>k extra. k \<le> n \<and> length extra \<le> (1::nat) \<and>
     pool now d (hb_store h') = drop k (pool now d (hb_store h)) \<and>
     (\<forall>e. r = Inl e \<longrightarrow> k = 0) \<and>
     (\<forall>ps. r = Inr ps \<longrightarrow> ps = take k (pool now d (hb_store h)) @ extra))"

lemma handed_over_nothing:
  "pool now d (hb_store h') = pool now d (hb_store h) \<Longrightarrow> handed_over now d n (Inl e) h h'"
  unfolding handed_over_def by (rule exI [of _ 0], rule exI [of _ "[]"]) simp

lemma serve_pool_handed_over:
  assumes "hc_store cfg = store" and "serve_pool cfg now d n h = (r, h')"
  shows "handed_over now d n r h h'" and "d' \<noteq> d \<Longrightarrow> pool now d' (hb_store h') = pool now d' (hb_store h)"
proof -
  obtain r1 s1 where fetch: "hs_fetchKeyPackages store now d (Some n) (hb_store h) = (r1, s1)" by fastforce
  have "handed_over now d n r h h' \<and> hb_store h' = s1"
  proof (cases r1)
    case (Inl e)
    with assms fetch fetch_failed [of now d n "hb_store h" e s1] show ?thesis
      by (auto simp: serve_pool_def on_store_def intro!: handed_over_nothing)
  next
    case (Inr consumed)
    with fetch have served: "consumed = take n (pool now d (hb_store h))" "pool now d s1 = drop n (pool now d (hb_store h))"
      using fetch_ok by blast+
    let ?top = "hs_fetchLastResortKeyPackage store d s1"
    have over: "handed_over now d n (Inr (consumed @ extra)) h h'" if "length extra \<le> 1" "hb_store h' = s1" for extra
      unfolding handed_over_def using that served by (intro exI [of _ n] exI [of _ extra]) simp
    have all: "pool now d s1 = pool now d (hb_store h)" if "consumed = []"
      using that served by (cases "pool now d (hb_store h)"; cases n) simp_all
    show ?thesis
    proof (cases "n \<le> length consumed")
      case True
      with assms Inr fetch have "r = Inr consumed" "hb_store h' = s1" by (auto simp: serve_pool_def on_store_def)
      with over [of "[]"] show ?thesis by simp
    next
      case False
      show ?thesis
      proof (cases ?top)
        case (Inl e)
        show ?thesis
        proof (cases "consumed = []")
          case True
          with assms fetch Inr Inl False have "r = Inl (rethrowAsHandlerError e)" "hb_store h' = s1"
            by (auto simp: serve_pool_def on_store_def)
          with all [OF True] show ?thesis by (auto intro: handed_over_nothing)
        next
          case nonempty: False
          with assms fetch Inr Inl False have "r = Inr consumed" "hb_store h' = s1"
            by (auto simp: serve_pool_def on_store_def storeErrorReporter_def)
          with over [of "[]"] show ?thesis by simp
        qed
      next
        case top: (Inr slot)
        with assms fetch Inr False have "r = Inr (consumed @ (case slot of None \<Rightarrow> [] | Some kp \<Rightarrow> [kp]))" "hb_store h' = s1"
          by (auto simp: serve_pool_def on_store_def split: option.splits)
        with over [of "case slot of None \<Rightarrow> [] | Some kp \<Rightarrow> [kp]"] show ?thesis by (cases slot) auto
      qed
    qed
  qed
  then show "handed_over now d n r h h'" and "d' \<noteq> d \<Longrightarrow> pool now d' (hb_store h') = pool now d' (hb_store h)"
    using fetch_other [OF fetch] by auto
qed

text \<open>The whole handler.\<close>

lemma fetch_handed_over:
  assumes "hc_store cfg = store" and "handle_keypackage_fetch cfg now iss target count h = (r, h')"
  shows "handed_over now target (capped_count (hc_fetchLimits cfg) count) r h h' \<and>
    (d' \<noteq> target \<longrightarrow> pool now d' (hb_store h') = pool now d' (hb_store h))"
  using assms(2)
proof (cases rule: fetch_request_cases)
  case (stopped e)
  then show ?thesis by (simp add: handed_over_nothing)
next
  case (spent e)
  then show ?thesis
  proof (cases r)
    case (Inr ps)
    with spent show ?thesis
      unfolding handed_over_def by (intro conjI exI [of _ 0] exI [of _ ps]) auto
  qed (simp add: handed_over_nothing)
next
  case (charged h2)
  with serve_pool_handed_over(1) [OF assms(1) charged(3)] serve_pool_handed_over(2) [OF assms(1) charged(3), of d'] show ?thesis
    by (simp add: handed_over_def)
qed

lemma drain_step:
  assumes "hc_store cfg = store" and "handle_keypackage_fetch cfg now iss target count h = (r, h')"
    and "distinct (map fst (hb_targetWindows h))" and "now \<le> until" and "until < now + kl_windowMs (hc_fetchLimits cfg)"
  shows "distinct (map fst (hb_targetWindows h')) \<and>
    (length (pool now d (hb_store h)) - length (pool now d (hb_store h'))) +
      allowance (hc_fetchLimits cfg) until now d (hb_targetWindows h')
      \<le> allowance (hc_fetchLimits cfg) until now d (hb_targetWindows h)"
  using assms(2)
proof (cases rule: fetch_request_cases)
  case (stopped e)
  with assms(3) show ?thesis by simp
next
  case (spent e)
  with charge_allowance [OF assms(3-5) spent(1), of d] show ?thesis by simp
next
  case (charged h2)
  let ?n = "capped_count (hc_fetchLimits cfg) count"
  have "length (pool now d (hb_store h)) - length (pool now d (hb_store h')) \<le> (if target = d then ?n else 0)"
    using fetch_handed_over [OF assms(1,2), of d] by (auto simp: handed_over_def)
  moreover have "hb_targetWindows h' = hb_targetWindows h2" by (rule serve_pool_windows [OF charged(3)])
  ultimately show ?thesis
    using charge_allowance [OF assms(3-5) charged(1), of d] by (auto split: if_splits)
qed

lemma drain_le_allowance:
  assumes "hc_store cfg = store"
  shows "distinct (map fst (hb_targetWindows h)) \<Longrightarrow> sorted (start # map fst reqs) \<Longrightarrow> \<forall>t \<in> set (start # map fst reqs). t \<le> until \<Longrightarrow>
    until < start + kl_windowMs (hc_fetchLimits cfg) \<Longrightarrow>
    drain pool cfg d reqs h \<le> allowance (hc_fetchLimits cfg) until start d (hb_targetWindows h)"
proof (induction reqs arbitrary: h start)
  case (Cons q reqs)
  obtain now iss target count where q: "q = (now, iss, target, count)" by (cases q)
  obtain r h' where step: "handle_keypackage_fetch cfg now iss target count h = (r, h')" by fastforce
  from Cons.prems q have t: "start \<le> now" "now \<le> until" "until < now + kl_windowMs (hc_fetchLimits cfg)" by simp_all
  note one = drain_step [OF assms step Cons.prems(1) t(2,3), of d]
  from one have dist: "distinct (map fst (hb_targetWindows h'))" by simp
  have "drain pool cfg d reqs h' \<le> allowance (hc_fetchLimits cfg) until now d (hb_targetWindows h')"
    using Cons.IH [OF dist, of now] Cons.prems q t(3) by simp
  with one allowance_later [OF t(1,2), of "hc_fetchLimits cfg" d "hb_targetWindows h"] show ?case
    by (simp add: q step Let_def)
qed simp

end

lemma mem_fetch_pool:
  assumes "mem_fetchKeyPackages now d (Some n) s = (served, s')"
  shows "served = take n (mem_pool now d s)" and "mem_pool now d s' = drop n (mem_pool now d s)"
    and "d' \<noteq> d \<Longrightarrow> mem_pool now d' s' = mem_pool now d' s"
proof -
  have "served = take n (mem_pool now d s) \<and> mem_pool now d s' = drop n (mem_pool now d s) \<and>
      (d' \<noteq> d \<longrightarrow> mem_pool now d' s' = mem_pool now d' s)"
  proof (cases "ms_keyPackages s d")
    case None
    with assms show ?thesis by (simp add: mem_fetchKeyPackages_def mem_pool_def)
  next
    case (Some packages)
    obtain sv rest where sp: "serve_packages (nowSeconds now) n packages = (sv, rest)" by fastforce
    with assms Some serve_packages_spec [OF sp] show ?thesis
      by (auto simp: mem_fetchKeyPackages_def mem_pool_def take_map drop_map)
  qed
  then show "served = take n (mem_pool now d s)" and "mem_pool now d s' = drop n (mem_pool now d s)"
    and "d' \<noteq> d \<Longrightarrow> mem_pool now d' s' = mem_pool now d' s" by blast+
qed

interpretation mem_packages: key_package_pool "memory_hub_store opts" mem_pool for opts
proof (unfold_locales, goal_cases)
  case (1 now d n s served s')
  then have "mem_fetchKeyPackages now d (Some n) s = (served, s')"
    by (cases "mem_fetchKeyPackages now d (Some n) s") (simp add: memory_hub_store_def always_def)
  from mem_fetch_pool(1,2) [OF this] show ?case by blast
next
  case (2 now d n s r s' d')
  then have "mem_fetchKeyPackages now d (Some n) s = (fst (mem_fetchKeyPackages now d (Some n) s), s')"
    by (cases "mem_fetchKeyPackages now d (Some n) s") (simp add: memory_hub_store_def always_def)
  from mem_fetch_pool(3) [OF this 2(2)] show ?case .
next
  case (3 now d n s e s')
  then show ?case by (simp add: memory_hub_store_def always_def)
qed

text \<open>
  Claim C32. Over the memory store a key package fetch never destroys a package: what leaves the target's pool is
  in the answer, oldest first and at most as many as asked for (topped up by at most the last-resort package),
  an error leaves every live package where it was, and no other DID's pool changes.
\<close>

theorem hub_keyPackages_handed_over:
  assumes "hc_store cfg = memory_hub_store opts" and "handle_keypackage_fetch cfg now iss target count h = (r, h')"
  shows "\<exists>k extra. k \<le> capped_count (hc_fetchLimits cfg) count \<and> length extra \<le> 1 \<and>
    mem_pool now target (hb_store h') = drop k (mem_pool now target (hb_store h)) \<and>
    (case r of Inl e \<Rightarrow> k = 0 | Inr ps \<Rightarrow> ps = take k (mem_pool now target (hb_store h)) @ extra) \<and>
    (\<forall>d. d \<noteq> target \<longrightarrow> mem_pool now d (hb_store h') = mem_pool now d (hb_store h))"
proof -
  note spec = mem_packages.fetch_handed_over [OF assms]
  from conjunct1 [OF spec] obtain k extra where
    "k \<le> capped_count (hc_fetchLimits cfg) count" "length extra \<le> 1"
    "mem_pool now target (hb_store h') = drop k (mem_pool now target (hb_store h))"
    "\<forall>e. r = Inl e \<longrightarrow> k = 0" "\<forall>ps. r = Inr ps \<longrightarrow> ps = take k (mem_pool now target (hb_store h)) @ extra"
    unfolding mem_packages.handed_over_def by blast
  with conjunct2 [OF spec] show ?thesis
    by (intro exI [of _ k] exI [of _ extra]) (auto split: sum.split)
qed

definition demo_fetched :: "mem_store hub" where
  "demo_fetched = snd (handle_keypackage_fetch demo_hub_config 0 (Some ''a'') ''b'' None demo_hub)"

lemma demo_fetch_ok:
  "handle_keypackage_fetch demo_hub_config 0 (Some ''a'') ''b'' None demo_hub = (Inr [''kp1''], demo_fetched)"
proof -
  have "fst (handle_keypackage_fetch demo_hub_config 0 (Some ''a'') ''b'' None demo_hub) = Inr [''kp1'']"
    by code_simp
  then show ?thesis by (simp add: demo_fetched_def prod_eq_iff)
qed

lemma demo_hub_config_store: "hc_store demo_hub_config = memory_hub_store default_options"
  by (simp add: demo_hub_config_def)

theorem hub_keyPackages_handed_over_witness:
  "mem_pool 0 ''c'' (hb_store demo_fetched) = mem_pool 0 ''c'' (hb_store demo_hub)"
  using hub_keyPackages_handed_over [OF demo_hub_config_store demo_fetch_ok] by auto

text \<open>
  However many requesters take part, over any stretch of time shorter than the window the fetches of
  a target take at most twice its budget of key packages from the memory store, and at most the budget itself
  if no window was open before.
\<close>

theorem hub_drain_bounded:
  assumes "hc_store cfg = memory_hub_store opts" and "distinct (map fst (hb_targetWindows h))"
    and "sorted (start # map fst reqs)" and "\<forall>t \<in> set (start # map fst reqs). t \<le> until"
    and "until < start + kl_windowMs (hc_fetchLimits cfg)"
  shows "drain mem_pool cfg d reqs h \<le> 2 * kl_maxPerTargetConsumed (hc_fetchLimits cfg) \<and>
    (hb_targetWindows h = [] \<longrightarrow> drain mem_pool cfg d reqs h \<le> kl_maxPerTargetConsumed (hc_fetchLimits cfg))"
proof -
  have "drain mem_pool cfg d reqs h \<le> allowance (hc_fetchLimits cfg) until start d (hb_targetWindows h)"
    by (rule mem_packages.drain_le_allowance [OF assms])
  moreover have "allowance (hc_fetchLimits cfg) until start d [] = kl_maxPerTargetConsumed (hc_fetchLimits cfg)"
    by (simp add: allowance_def open_window_def)
  ultimately show ?thesis using allowance_bound [of "hc_fetchLimits cfg" until start d "hb_targetWindows h"] by auto
qed

theorem hub_drain_bounded_witness:
  "drain mem_pool demo_hub_config ''b'' [(0, Some ''a'', ''b'', None), (10, Some ''c'', ''b'', Some 5)] demo_hub \<le> 60"
  using hub_drain_bounded [OF demo_hub_config_store, of demo_hub 0
      "[(0, Some ''a'', ''b'', None), (10, Some ''c'', ''b'', Some 5)]" 10 "''b''"]
  by (simp add: demo_hub_def createHandlers_def demo_hub_config_def DEFAULT_KEYPACKAGE_FETCH_LIMITS_def del: drain.simps)

section \<open>An issuer acts for itself only\<close>

text \<open>What belongs to a DID: its subscriptions with their retention, its last-resort slot, its endpoint.\<close>

definition subscription_of :: "mem_store \<Rightarrow> topic_id \<Rightarrow> did \<Rightarrow> int option" where
  "subscription_of s t d = Option.bind (ms_subscriptions s t) (\<lambda>m. map_of m d)"

definition endpoint_of :: "'s hub \<Rightarrow> did \<Rightarrow> WakeRegistration option" where
  "endpoint_of h d = Option.bind (hb_wake h) (\<lambda>w. wd_registry w d)"

lemma mem_publish_frame:
  "ms_subscriptions (snd (mem_publish opts now p s)) = ms_subscriptions s"
  "ms_keyPackages (snd (mem_publish opts now p s)) = ms_keyPackages s"
  "ms_lastResortKeyPackages (snd (mem_publish opts now p s)) = ms_lastResortKeyPackages s"
  by (cases rule: mem_publish_cases [of p s opts now];
      simp add: mem_accept_def appendEntry_def mem_mint_def pushEntry_def Let_def hub_simps
        depthEvict_frame [of ms_subscriptions] depthEvict_frame [of ms_keyPackages]
        depthEvict_frame [of ms_lastResortKeyPackages])+

lemma notify_registry: "wd_registry (notify p w) = wd_registry w"
  by (simp add: wake_defs split: option.split)

lemma fold_notify_registry: "wd_registry (fold notify ps w) = wd_registry w"
  by (induction ps arbitrary: w) (simp_all add: notify_registry)

text \<open>What belongs to a DID is as it was.\<close>

definition kept_for :: "did \<Rightarrow> mem_store hub \<Rightarrow> mem_store hub \<Rightarrow> bool" where
  "kept_for d h h' \<longleftrightarrow> (\<forall>t. subscription_of (hb_store h') t d = subscription_of (hb_store h) t d) \<and>
     ms_lastResortKeyPackages (hb_store h') d = ms_lastResortKeyPackages (hb_store h) d \<and>
     endpoint_of h' d = endpoint_of h d"

lemma kept_for_refl: "kept_for d h h"
  by (simp add: kept_for_def)

lemma kept_for_and_then:
  assumes "kept_for d h (snd x)" and "\<And>a h'. x = (Inr a, h') \<Longrightarrow> kept_for d h h' \<Longrightarrow> kept_for d h (snd (f a h'))"
  shows "kept_for d h (snd (and_then x f))"
  using assms by (cases x; cases "fst x") auto

lemma kept_for_guards:
  "kept_for d h h' \<Longrightarrow> kept_for d h (snd (authorized cfg now req code m h'))"
  "kept_for d h h' \<Longrightarrow> kept_for d h (snd (limitDID cfg now e m h'))"
  "kept_for d h h' \<Longrightarrow> kept_for d h (snd (limitTopic cfg now t m h'))"
  by (simp_all add: authorized_eq limitDID_def limitTopic_def case_prod_unfold Let_def kept_for_def endpoint_of_def)

lemma kept_for_rethrow: "kept_for d h (snd x) \<Longrightarrow> kept_for d h (snd (or_rethrow x))"
  by (cases x; cases "fst x") auto

lemma kept_for_store:
  assumes "kept_for d h h'" and "\<And>t. subscription_of (snd (f (hb_store h'))) t d = subscription_of (hb_store h') t d"
    and "ms_lastResortKeyPackages (snd (f (hb_store h'))) d = ms_lastResortKeyPackages (hb_store h') d"
  shows "kept_for d h (snd (on_store f h'))"
  using assms by (simp add: on_store_def case_prod_unfold Let_def kept_for_def endpoint_of_def)

lemma kept_for_fan_out:
  assumes "kept_for d h h'" shows "kept_for d h (fan_out cfg m h')"
  using assms by (cases "hb_wake h'")
    (auto simp: fan_out_def storeErrorReporter_def kept_for_def endpoint_of_def fold_deliver fold_notify_registry
      split: sum.split)

lemma mem_unsubscribe_frame:
  "ms_lastResortKeyPackages (mem_unsubscribe d t s) = ms_lastResortKeyPackages s"
  "d' \<noteq> d \<Longrightarrow> subscription_of (mem_unsubscribe d t s) t' d' = subscription_of s t' d'"
proof -
  have drop: "ms_lastResortKeyPackages (dropDelivery d q s) = ms_lastResortKeyPackages s" for q s
    by (simp add: dropDelivery_def Let_def hub_simps split: option.split)
  show "ms_lastResortKeyPackages (mem_unsubscribe d t s) = ms_lastResortKeyPackages s"
    using unsubscribe_fold_frame [of ms_lastResortKeyPackages d, OF drop] by (simp add: mem_unsubscribe_def Let_def)
  show "subscription_of (mem_unsubscribe d t s) t' d' = subscription_of s t' d'" if other: "d' \<noteq> d"
  proof -
    have "map_of m d' = None" if "AList.delete d m = []" for m :: "(did, int) js_map"
      using delete_conv' [of d m] that other by (metis fun_upd_other map_of.simps(1))
    with other show ?thesis
      by (auto simp: subscription_of_def unsubscribe_state(2) nonempty_slot_def delete_conv' split: option.split)
  qed
qed

lemma mem_subscribe_others:
  "d \<noteq> sp_subscriberDID p \<Longrightarrow> subscription_of (snd (mem_subscribe opts p s)) t d = subscription_of s t d"
  "ms_lastResortKeyPackages (snd (mem_subscribe opts p s)) = ms_lastResortKeyPackages s"
  by (auto simp: mem_subscribe_def Let_def subscription_of_def update_conv' or_else_def split: option.split)

lemma store_all_frame:
  assumes "hc_store cfg = memory_hub_store opts"
  shows "ms_subscriptions (snd (store_all cfg now owner na kps s)) = ms_subscriptions s \<and>
    ms_lastResortKeyPackages (snd (store_all cfg now owner na kps s)) = ms_lastResortKeyPackages s"
proof -
  have step: "ms_subscriptions (snd (mem_storeKeyPackage opts now owner kp na s)) = ms_subscriptions s"
    "ms_lastResortKeyPackages (snd (mem_storeKeyPackage opts now owner kp na s)) = ms_lastResortKeyPackages s" for kp s
    by (simp_all add: mem_storeKeyPackage_def Let_def)
  have "ms_subscriptions (snd (fold (\<lambda>kp (r, s). let (r', s') = hs_storeKeyPackage (hc_store cfg) now owner kp na s
             in (case r of Inl e \<Rightarrow> Inl e | Inr _ \<Rightarrow> r', s')) kps (r, s))) = ms_subscriptions s \<and>
    ms_lastResortKeyPackages (snd (fold (\<lambda>kp (r, s). let (r', s') = hs_storeKeyPackage (hc_store cfg) now owner kp na s
             in (case r of Inl e \<Rightarrow> Inl e | Inr _ \<Rightarrow> r', s')) kps (r, s))) = ms_lastResortKeyPackages s" for r
    by (induction kps arbitrary: r s) (simp_all add: assms memory_hub_store_def case_prod_unfold Let_def step)
  from this [of "Inr ()"] show ?thesis by (simp add: store_all_def)
qed

lemma kept_for_issuer:
  assumes "iss \<noteq> Some d" and "\<And>e. e \<noteq> d \<Longrightarrow> kept_for d h (snd (f e h))"
  shows "kept_for d h (snd (and_then (getClientDID iss h) f))"
  using assms by (cases iss) (auto simp: getClientDID_def kept_for_refl)

lemma kept_for_fetch_parts:
  assumes "kept_for d h h'"
  shows "kept_for d h (snd (charge_requester cfg now e h'))" "kept_for d h (snd (charge_target cfg now t n h'))"
    and "kept_for d h (snd (serve_floor cfg t h'))"
    and "hc_store cfg = memory_hub_store opts \<Longrightarrow> kept_for d h (snd (serve_pool cfg now t n h'))"
proof -
  show "kept_for d h (snd (charge_requester cfg now e h'))" "kept_for d h (snd (charge_target cfg now t n h'))"
    using assms by (simp_all add: charge_requester_def charge_target_def case_prod_unfold Let_def kept_for_def endpoint_of_def)
  show "kept_for d h (snd (serve_floor cfg t h'))"
    using assms by (simp add: serve_floor_def split: sum.split option.split)
  have frame: "ms_subscriptions (snd (mem_fetchKeyPackages now t (Some n) s)) = ms_subscriptions s"
    "ms_lastResortKeyPackages (snd (mem_fetchKeyPackages now t (Some n) s)) = ms_lastResortKeyPackages s" for s
    by (simp_all add: mem_fetchKeyPackages_def case_prod_unfold Let_def split: option.split)
  assume mem: "hc_store cfg = memory_hub_store opts"
  have report: "kept_for d h (storeErrorReporter ev g) = kept_for d h g" for ev g
    by (simp add: kept_for_def storeErrorReporter_def endpoint_of_def)
  show "kept_for d h (snd (serve_pool cfg now t n h'))"
    unfolding serve_pool_def
  proof (rule kept_for_and_then)
    show "kept_for d h (snd (or_rethrow (on_store (hs_fetchKeyPackages (hc_store cfg) now t (Some n)) h')))"
      using assms frame by (intro kept_for_rethrow kept_for_store)
        (simp_all add: mem memory_hub_store_def always_def subscription_of_def)
  qed (simp add: report split: sum.split option.split)
qed

lemma kept_for_fetch:
  assumes "hc_store cfg = memory_hub_store opts" and "iss \<noteq> Some d"
  shows "kept_for d h (snd (handle_keypackage_fetch cfg now iss target count h))"
  unfolding handle_keypackage_fetch_def Let_def
proof (rule kept_for_issuer [OF assms(2)], rule kept_for_and_then, goal_cases)
  case (1 e)
  show ?case by (intro kept_for_guards kept_for_refl)
next
  case (2 e u h1)
  show ?case
  proof (rule kept_for_and_then, goal_cases)
    case 1
    from 2(3) show ?case by (intro kept_for_rethrow kept_for_fetch_parts)
  next
    case (2 v h2)
    let ?n = "capped_count (hc_fetchLimits cfg) count"
    obtain c h3 where c: "charge_target cfg now target ?n h2 = (c, h3)" by fastforce
    with kept_for_fetch_parts(2) [OF 2(2), of cfg now target ?n] have h3: "kept_for d h h3" by simp
    note floor = kept_for_fetch_parts(3) [OF h3, of cfg target]
    note pool = kept_for_fetch_parts(4) [OF h3 assms(1), of now target ?n]
    from c h3 floor pool show ?case
      by (auto split: sum.split js_error.split hub_error_class.split)
  qed
qed

lemma snd_answered: "snd (answered x) = snd x"
  by (cases x; cases "fst x") auto

lemma kept_for_wake:
  assumes "kept_for d h h'" and "e \<noteq> d" and "hb_wake h' = Some w"
  shows "kept_for d h (h'\<lparr>hb_wake := Some (w\<lparr>wd_registry := (wd_registry w)(e := x)\<rparr>)\<rparr>)"
  using assms by (simp add: kept_for_def endpoint_of_def)

text \<open>
  Over the memory store, no request of one issuer changes what belongs to another DID: its
  subscriptions and their retention, its last-resort package, its wake endpoint.
\<close>

theorem hub_issuer_isolation:
  assumes mem: "hc_store cfg = memory_hub_store opts" and other: "iss \<noteq> Some d"
  shows "kept_for d h (snd (hub_handle cfg now iss request h))"
proof (cases request)
  case (PublishR q)
  show ?thesis
    unfolding PublishR hub_handle.simps snd_answered handle_publish_def
    by (rule kept_for_issuer [OF other])
      (intro kept_for_and_then kept_for_guards kept_for_rethrow kept_for_store kept_for_fan_out;
        auto simp: kept_for_refl mem memory_hub_store_def mem_publish_frame subscription_of_def kept_for_fan_out
          split: sum.splits)
next
  case (SubscribeR t r)
  show ?thesis
    unfolding SubscribeR hub_handle.simps snd_answered handle_subscribe_def
    by (rule kept_for_issuer [OF other])
      (intro kept_for_and_then kept_for_guards kept_for_rethrow kept_for_store;
        auto simp: kept_for_refl mem memory_hub_store_def mem_subscribe_others)
next
  case (TopicFetchR t a n)
  show ?thesis
    unfolding TopicFetchR hub_handle.simps snd_answered handle_topic_fetch_def
    by (rule kept_for_issuer [OF other])
      (intro kept_for_and_then kept_for_guards kept_for_rethrow; auto simp: kept_for_refl)
next
  case (UnsubscribeR t)
  show ?thesis
    unfolding UnsubscribeR hub_handle.simps snd_answered handle_unsubscribe_def
    by (rule kept_for_issuer [OF other])
      (intro kept_for_and_then kept_for_guards kept_for_rethrow kept_for_store;
        auto simp: kept_for_refl mem memory_hub_store_def always_def mem_unsubscribe_frame)
next
  case (KeyPackageFetchR target n)
  show ?thesis using kept_for_fetch [OF assms] by (simp add: KeyPackageFetchR snd_answered)
next
  case StatusR
  show ?thesis
    unfolding StatusR hub_handle.simps snd_answered handle_keypackage_status_def
    by (rule kept_for_issuer [OF other])
      (intro kept_for_and_then kept_for_guards kept_for_rethrow; auto simp: kept_for_refl)
next
  case (UploadR kps lr na)
  have batch: "kept_for d h (snd (on_store (store_all cfg now e na kps) h'))" if "kept_for d h h'" for e h'
    using that store_all_frame [OF mem, of now e na kps] by (intro kept_for_store) (simp_all add: subscription_of_def)
  have slot: "kept_for d h (snd (on_store (hs_storeLastResortKeyPackage (hc_store cfg) e (hd kps)) h'))"
    if "kept_for d h h'" "e \<noteq> d" for e h'
    using that by (intro kept_for_store)
      (simp_all add: mem memory_hub_store_def always_def mem_storeLastResortKeyPackage_def subscription_of_def)
  show ?thesis
    unfolding UploadR hub_handle.simps snd_answered handle_keypackage_upload_def
  proof (rule kept_for_issuer [OF other], goal_cases)
    case (1 e)
    have "kept_for d h (snd (
     and_then (authorized cfg now (AuthKeyPackageUpload e (length kps) (if lr = Some True then Some True else None))
         denied_code ''Not authorized to upload key packages'' h) (\<lambda>_ h.
     and_then (limitDID cfg now e ''Key package upload rate limit exceeded for DID'' h) (\<lambda>_ h.
     and_then (or_rethrow (if lr = Some True
         then on_store (hs_storeLastResortKeyPackage (hc_store cfg) e (hd kps)) h
         else on_store (store_all cfg now e na kps) h)) (\<lambda>_ h. (Inr (length kps), h))))))"
      using 1 by (intro kept_for_and_then kept_for_guards kept_for_rethrow) (auto simp: kept_for_refl batch slot)
    then show ?case by (simp add: kept_for_refl)
  qed
next
  case (WakeRegisterR q)
  show ?thesis
    unfolding WakeRegisterR hub_handle.simps snd_answered handle_wake_register_def
  proof (rule kept_for_issuer [OF other], goal_cases)
    case (1 e)
    show ?case
    proof (cases "hb_wake h")
      case (Some w)
      obtain r h1 where lim: "limitDID cfg now e ''Wake rate limit exceeded for DID'' h = (r, h1)" by fastforce
      then have "hb_wake h1 = Some w" "kept_for d h h1"
        using Some kept_for_guards(2) [OF kept_for_refl, of d h cfg now e "''Wake rate limit exceeded for DID''"]
        by (auto simp: limitDID_def case_prod_unfold Let_def split: if_splits)
      then show ?thesis using lim kept_for_wake [OF _ 1, of h h1 w]
        by (cases r) (auto simp: wake_supported_def Some authorized_eq kept_for_refl wake_put_def split: option.split)
    qed (simp add: wake_supported_def kept_for_refl)
  qed
next
  case WakeUnregisterR
  show ?thesis
    unfolding WakeUnregisterR hub_handle.simps snd_answered handle_wake_unregister_def
  proof (rule kept_for_issuer [OF other], goal_cases)
    case (1 e)
    show ?case
    proof (cases "hb_wake h")
      case (Some w)
      obtain r h1 where lim: "limitDID cfg now e ''Wake rate limit exceeded for DID'' h = (r, h1)" by fastforce
      then have "hb_wake h1 = Some w" "kept_for d h h1"
        using Some kept_for_guards(2) [OF kept_for_refl, of d h cfg now e "''Wake rate limit exceeded for DID''"]
        by (auto simp: limitDID_def case_prod_unfold Let_def split: if_splits)
      moreover have "wake_delete e (snd (wake_get now e (wd_registry w))) = (wd_registry w)(e := None)"
        by (auto simp: wake_delete_def wake_get_def split: option.split)
      ultimately show ?thesis using lim kept_for_wake [OF _ 1, of h h1 w None]
        by (cases r) (auto simp: wake_supported_def Some authorized_eq kept_for_refl case_prod_unfold Let_def split: option.split)
    qed (simp add: wake_supported_def kept_for_refl)
  qed
qed

theorem hub_issuer_isolation_witness:
  "kept_for ''b'' demo_hub (snd (hub_handle demo_hub_config 0 (Some ''a'') (UnsubscribeR ''t'') demo_hub))"
  using hub_issuer_isolation [OF demo_hub_config_store, of "Some ''a''" "''b''" demo_hub 0 "UnsubscribeR ''t''"] by simp

end
