(* ===== verification/Receive_Channel.thy ===== *)
theory Receive_Channel
  imports Hub_Handlers "HOL-Library.Multiset"
begin

text \<open>
  The receive channel of \<^verbatim>\<open>packages/hub-server/src/handlers.ts\<close> (\<^verbatim>\<open>hub/v1/receive\<close>) as a state machine. Every
  synchronous stretch of the handler is one event: a page of backlog arriving, a live push, the gate's decision
  for the frame at the head of the write queue, room in the ack window, a write settling, an ack, the ack
  timeout, an abort. The store, the hook and the transport are what an event brings with it. Binding and
  releasing the writer are in \<open>Client_Registry\<close>.
\<close>

section \<open>State\<close>

record ReceiveFrame =
  rf_sequenceID :: sequence_id
  rf_senderDID :: did
  rf_topicID :: topic_id
  rf_payload :: string
  rf_logPosition :: "sequence_id option"

definition toReceiveFrame :: "(bytes \<Rightarrow> string) \<Rightarrow> StoredMessage \<Rightarrow> ReceiveFrame" where
  "toReceiveFrame toB64 m = \<lparr>rf_sequenceID = sm_sequenceID m, rf_senderDID = sm_senderDID m,
     rf_topicID = sm_topicID m, rf_payload = toB64 (sm_payload m), rf_logPosition = sm_logPosition m\<rparr>"

record receive_config =
  rc_bufferLimit :: nat
  rc_authCacheTTL :: int
  rc_window :: nat
  rc_windowBytes :: int

definition DEFAULT_RECEIVE_AUTH_CACHE_TTL :: int where
  "DEFAULT_RECEIVE_AUTH_CACHE_TTL = 5000"

text \<open>A missing, non-finite (\<open>None\<close>) or negative value falls back to the default.\<close>

definition resolveReceiveAuthCacheTTL :: "int option \<Rightarrow> int" where
  "resolveReceiveAuthCacheTTL value = (case value of
       None \<Rightarrow> DEFAULT_RECEIVE_AUTH_CACHE_TTL
     | Some v \<Rightarrow> if v < 0 then DEFAULT_RECEIVE_AUTH_CACHE_TTL else v)"

definition receive_settings :: "nat option \<Rightarrow> int option \<Rightarrow> nat option \<Rightarrow> int option \<Rightarrow> receive_config" where
  "receive_settings limit ttl window windowBytes = \<lparr>rc_bufferLimit = or_else limit 256,
     rc_authCacheTTL = resolveReceiveAuthCacheTTL ttl, rc_window = max 1 (or_else window 256),
     rc_windowBytes = or_else windowBytes (512 * 1024)\<rparr>"

text \<open>
  Where the frame at the head of the queue stands: before the gate, through it and waiting for room, or
  being written. And where the drain stands: awaiting a page, awaiting the queue after a page (with whether
  there is more), about to look at the live buffer, awaiting the queue after a flush, or done.
\<close>

datatype head_stage = Queued | Gated | BeingWritten

datatype drain_stage = AwaitPage | AwaitWrites bool | AtFlush | AwaitFlush | Drained

record receive_channel =
  ch_live :: bool
  ch_liveBuffer :: "ReceiveFrame list"
  ch_lastServed :: sequence_id
  ch_pending :: nat
  ch_tornDown :: bool
  ch_queue :: "ReceiveFrame list"
  ch_stage :: head_stage
  ch_drain :: drain_stage
  ch_inFlight :: "(sequence_id, int) js_map"
  ch_inFlightBytes :: int
  ch_authCache :: "topic_id \<rightharpoonup> bool \<times> int"
  ch_written :: "ReceiveFrame list"
  ch_granted :: "(topic_id \<times> int) list"

definition open_channel :: receive_channel where
  "open_channel = \<lparr>ch_live = False, ch_liveBuffer = [], ch_lastServed = '''', ch_pending = 0, ch_tornDown = False,
     ch_queue = [], ch_stage = Queued, ch_drain = AwaitPage, ch_inFlight = [], ch_inFlightBytes = 0,
     ch_authCache = Map.empty, ch_written = [], ch_granted = []\<rparr>"

section \<open>Operations\<close>

definition hasRoom :: "receive_config \<Rightarrow> int \<Rightarrow> receive_channel \<Rightarrow> bool" where
  "hasRoom cfg bytes c \<longleftrightarrow> ch_inFlight c = [] \<or>
     (length (ch_inFlight c) < rc_window cfg \<and> ch_inFlightBytes c + bytes \<le> rc_windowBytes cfg)"

definition releaseAll :: "receive_channel \<Rightarrow> receive_channel" where
  "releaseAll c = c\<lparr>ch_inFlight := [], ch_inFlightBytes := 0\<rparr>"

text \<open>
  The acked frame written last, and what an ack leaves in flight: everything after it. The entries up to it
  go one by one, each giving its bytes back.
\<close>

definition last_acked :: "sequence_id list \<Rightarrow> (sequence_id, int) js_map \<Rightarrow> sequence_id option" where
  "last_acked acked inFlight = fold (\<lambda>(q, _) found. if q \<in> set acked then Some q else found) inFlight None"

fun release_through :: "sequence_id \<Rightarrow> (sequence_id, int) js_map \<Rightarrow> int \<Rightarrow> (sequence_id, int) js_map \<times> int" where
  "release_through final [] size_left = ([], size_left)"
| "release_through final ((q, bytes) # rest) size_left =
     (if q = final then (rest, size_left - bytes) else release_through final rest (size_left - bytes))"

definition release :: "sequence_id list \<Rightarrow> receive_channel \<Rightarrow> receive_channel" where
  "release acked c = (case last_acked acked (ch_inFlight c) of
       None \<Rightarrow> c
     | Some final \<Rightarrow>
         let (rest, size_left) = release_through final (ch_inFlight c) (ch_inFlightBytes c)
         in c\<lparr>ch_inFlight := rest, ch_inFlightBytes := size_left\<rparr>)"

definition finish :: "receive_channel \<Rightarrow> receive_channel" where
  "finish c = c\<lparr>ch_tornDown := True\<rparr>"

definition pushWrite :: "receive_config \<Rightarrow> ReceiveFrame \<Rightarrow> receive_channel \<Rightarrow> receive_channel" where
  "pushWrite cfg f c =
     (if ch_tornDown c then c
      else
        let c' = c\<lparr>ch_pending := Suc (ch_pending c)\<rparr>
        in if rc_bufferLimit cfg < ch_pending c' then finish c'
           else c'\<lparr>ch_queue := ch_queue c' @ [f]\<rparr>)"

definition onLive :: "receive_config \<Rightarrow> ReceiveFrame \<Rightarrow> receive_channel \<Rightarrow> receive_channel" where
  "onLive cfg f c =
     (if \<not> ch_live c
      then if rc_bufferLimit cfg \<le> length (ch_liveBuffer c) then finish c
           else c\<lparr>ch_liveBuffer := ch_liveBuffer c @ [f]\<rparr>
      else pushWrite cfg f c)"

text \<open>The estimate of a frame's size in the transport's buffer.\<close>

definition frame_bytes :: "ReceiveFrame \<Rightarrow> int" where
  "frame_bytes f = int (length (rf_payload f)) + int (length (rf_senderDID f)) + int (length (rf_topicID f)) + 256"

text \<open>The next write in the queue; the finished one gives up its place.\<close>

definition next_write :: "receive_channel \<Rightarrow> receive_channel" where
  "next_write c = c\<lparr>ch_queue := tl (ch_queue c), ch_stage := Queued, ch_pending := ch_pending c - 1\<rparr>"

text \<open>
  The gate for the frame at the head: a live cache entry decides, otherwise the hook's answer, which is
  kept for the TTL from the time it was stored. \<open>None\<close> is a hook that throws.
\<close>

definition cached :: "int \<Rightarrow> topic_id \<Rightarrow> receive_channel \<Rightarrow> bool option" where
  "cached now t c = (case ch_authCache c t of
       None \<Rightarrow> None
     | Some (allow, expiresAt) \<Rightarrow> if now < expiresAt then Some allow else None)"

definition store_decision :: "receive_config \<Rightarrow> topic_id \<Rightarrow> bool \<Rightarrow> int \<Rightarrow> receive_channel \<Rightarrow> receive_channel" where
  "store_decision cfg t allow storedAt c =
     c\<lparr>ch_authCache := (if 0 < rc_authCacheTTL cfg
         then (ch_authCache c)(t \<mapsto> (allow, storedAt + rc_authCacheTTL cfg)) else ch_authCache c),
       ch_granted := (if allow then ch_granted c @ [(t, storedAt)] else ch_granted c)\<rparr>"

definition pass :: "bool \<Rightarrow> receive_channel \<Rightarrow> receive_channel" where
  "pass allow c = (if allow then c\<lparr>ch_stage := Gated\<rparr> else next_write c)"

definition gate_write :: "receive_config \<Rightarrow> int \<Rightarrow> bool option \<Rightarrow> int \<Rightarrow> receive_channel \<Rightarrow> receive_channel" where
  "gate_write cfg now answer storedAt c = (case ch_queue c of
       [] \<Rightarrow> c
     | f # _ \<Rightarrow>
         if ch_stage c \<noteq> Queued \<or> ch_tornDown c then c
         else (case cached now (rf_topicID f) c of
             Some allow \<Rightarrow> pass allow c
           | None \<Rightarrow> (case answer of
                 None \<Rightarrow> next_write (finish c)
               | Some allow \<Rightarrow> pass allow (store_decision cfg (rf_topicID f) allow storedAt c))))"

text \<open>Room for the frame at the head: it is counted and its write starts.\<close>

definition start_write :: "receive_config \<Rightarrow> receive_channel \<Rightarrow> receive_channel" where
  "start_write cfg c = (case ch_queue c of
       [] \<Rightarrow> c
     | f # _ \<Rightarrow>
         if ch_stage c \<noteq> Gated \<or> ch_tornDown c \<or> \<not> hasRoom cfg (frame_bytes f) c then c
         else c\<lparr>ch_stage := BeingWritten,
                ch_inFlight := AList.update (rf_sequenceID f) (frame_bytes f) (ch_inFlight c),
                ch_inFlightBytes := ch_inFlightBytes c + frame_bytes f\<rparr>)"

definition settle_write :: "bool \<Rightarrow> receive_channel \<Rightarrow> receive_channel" where
  "settle_write ok c = (case ch_queue c of
       [] \<Rightarrow> c
     | f # _ \<Rightarrow>
         if ch_stage c \<noteq> BeingWritten then c
         else if ok
         then next_write (c\<lparr>ch_lastServed := (if ch_lastServed c < rf_sequenceID f then rf_sequenceID f else ch_lastServed c),
                ch_written := ch_written c @ [f]\<rparr>)
         else next_write (finish c))"

text \<open>No ack for the whole timeout while the head waits for room: the window is released whole.\<close>

definition ack_timeout :: "receive_config \<Rightarrow> receive_channel \<Rightarrow> receive_channel" where
  "ack_timeout cfg c = (case ch_queue c of
       [] \<Rightarrow> c
     | f # _ \<Rightarrow> if ch_stage c = Gated \<and> \<not> ch_tornDown c \<and> \<not> hasRoom cfg (frame_bytes f) c then releaseAll c else c)"

text \<open>A page of backlog: its frames are queued, and the drain awaits the queue.\<close>

definition page_fetched :: "receive_config \<Rightarrow> ReceiveFrame list \<Rightarrow> bool \<Rightarrow> receive_channel \<Rightarrow> receive_channel" where
  "page_fetched cfg page hasMore c =
     (if ch_tornDown c \<or> ch_drain c \<noteq> AwaitPage then c
      else (fold (pushWrite cfg) page c)\<lparr>ch_drain := AwaitWrites hasMore\<rparr>)"

text \<open>The drain goes on once the queue has settled; the flip to live happens on an empty buffer only.\<close>

definition proceed :: "receive_config \<Rightarrow> receive_channel \<Rightarrow> receive_channel" where
  "proceed cfg c =
     (if ch_tornDown c then c
      else case ch_drain c of
          AwaitWrites hasMore \<Rightarrow> if ch_queue c = [] then c\<lparr>ch_drain := (if hasMore then AwaitPage else AtFlush)\<rparr> else c
        | AwaitFlush \<Rightarrow> if ch_queue c = [] then c\<lparr>ch_drain := AtFlush\<rparr> else c
        | AtFlush \<Rightarrow>
            if ch_liveBuffer c = [] then c\<lparr>ch_live := True, ch_drain := Drained\<rparr>
            else (fold (pushWrite cfg) (filter (\<lambda>f. ch_lastServed c < rf_sequenceID f) (ch_liveBuffer c))
                   (c\<lparr>ch_liveBuffer := []\<rparr>))\<lparr>ch_drain := AwaitFlush\<rparr>
        | _ \<Rightarrow> c)"

section \<open>Events\<close>

datatype receive_event =
    LivePush ReceiveFrame
  | PageFetched "ReceiveFrame list" bool
  | FetchThrew
  | Proceed
  | GateAnswer int "bool option" int
  | StartWrite
  | SettleWrite bool
  | AckRead "sequence_id list"
  | AckTimeout
  | Abort

fun receive_step :: "receive_config \<Rightarrow> receive_event \<Rightarrow> receive_channel \<Rightarrow> receive_channel" where
  "receive_step cfg (LivePush f) c = onLive cfg f c"
| "receive_step cfg (PageFetched page hasMore) c = page_fetched cfg page hasMore c"
| "receive_step cfg FetchThrew c = (if ch_drain c = AwaitPage then finish c else c)"
| "receive_step cfg Proceed c = proceed cfg c"
| "receive_step cfg (GateAnswer now answer storedAt) c = gate_write cfg now answer storedAt c"
| "receive_step cfg StartWrite c = start_write cfg c"
| "receive_step cfg (SettleWrite ok) c = settle_write ok c"
| "receive_step cfg (AckRead acked) c = release acked c"
| "receive_step cfg AckTimeout c = ack_timeout cfg c"
| "receive_step cfg Abort c = finish c"

section \<open>Runs\<close>

text \<open>Any events in any order: late and repeated pushes, pages of any kind, whatever the hook and the client do.\<close>

inductive receive_run :: "receive_config \<Rightarrow> receive_channel \<Rightarrow> bool" for cfg where
  opened: "receive_run cfg open_channel"
| stepped: "receive_run cfg c \<Longrightarrow> receive_run cfg (receive_step cfg e c)"

lemma receive_run_fold: "receive_run cfg c \<Longrightarrow> receive_run cfg (fold (receive_step cfg) es c)"
  by (induction es arbitrary: c) (auto intro: stepped)

text \<open>An event that keeps the order: a page past what was served, a push past everything before it.\<close>

fun in_order :: "receive_channel \<Rightarrow> receive_event \<Rightarrow> bool" where
  "in_order c (PageFetched page hasMore) \<longleftrightarrow> (ch_drain c = AwaitPage \<longrightarrow>
     sorted_wrt (<) (map rf_sequenceID page) \<and> list_all (\<lambda>f. ch_lastServed c < rf_sequenceID f) page)"
| "in_order c (LivePush f) \<longleftrightarrow> list_all (\<lambda>g. rf_sequenceID g < rf_sequenceID f) (ch_liveBuffer c) \<and>
     (ch_live c \<longrightarrow> ch_lastServed c < rf_sequenceID f \<and> list_all (\<lambda>g. rf_sequenceID g < rf_sequenceID f) (ch_queue c))"
| "in_order c _ \<longleftrightarrow> True"

text \<open>Frames are queued in order, past what was served; the buffer and the queue respect the limit.\<close>

definition order_inv :: "receive_config \<Rightarrow> receive_channel \<Rightarrow> bool" where
  "order_inv cfg c \<longleftrightarrow>
     sorted_wrt (<) (map rf_sequenceID (ch_queue c)) \<and> (\<forall>f \<in> set (ch_queue c). ch_lastServed c < rf_sequenceID f) \<and>
     sorted_wrt (<) (map rf_sequenceID (ch_written c)) \<and> (\<forall>f \<in> set (ch_written c). rf_sequenceID f \<le> ch_lastServed c) \<and>
     sorted_wrt (<) (map rf_sequenceID (ch_liveBuffer c)) \<and>
     (ch_drain c = AwaitPage \<or> ch_drain c = AtFlush \<longrightarrow> ch_queue c = [])"

definition bound_inv :: "receive_config \<Rightarrow> receive_channel \<Rightarrow> bool" where
  "bound_inv cfg c \<longleftrightarrow> length (ch_queue c) \<le> ch_pending c \<and> length (ch_queue c) \<le> rc_bufferLimit cfg \<and>
     (\<not> ch_tornDown c \<longrightarrow> ch_pending c \<le> rc_bufferLimit cfg) \<and> length (ch_liveBuffer c) \<le> rc_bufferLimit cfg"

text \<open>What is in flight was written, and its bytes are counted once.\<close>

definition ack_window :: "receive_config \<Rightarrow> receive_channel \<Rightarrow> bool" where
  "ack_window cfg c \<longleftrightarrow>
     distinct (map fst (ch_inFlight c)) \<and> ch_inFlightBytes c = sum_list (map snd (ch_inFlight c)) \<and>
     (\<forall>b \<in> snd ` set (ch_inFlight c). 0 \<le> b) \<and>
     (\<not> ch_tornDown c \<longrightarrow> (\<forall>q \<in> fst ` set (ch_inFlight c). q \<le> ch_lastServed c \<or>
        (ch_stage c = BeingWritten \<and> ch_queue c \<noteq> [] \<and> q = rf_sequenceID (hd (ch_queue c))))) \<and>
     length (ch_inFlight c) \<le> rc_window cfg \<and>
     (ch_inFlightBytes c \<le> rc_windowBytes cfg \<or> length (ch_inFlight c) \<le> 1)"

lemma pushWrite_fold:
  "\<exists>k p b. fold (pushWrite cfg) fs c = c\<lparr>ch_pending := p, ch_tornDown := b, ch_queue := ch_queue c @ take k fs\<rparr> \<and>
     (bound_inv cfg c \<longrightarrow> bound_inv cfg (c\<lparr>ch_pending := p, ch_tornDown := b, ch_queue := ch_queue c @ take k fs\<rparr>))"
proof (induction fs arbitrary: c)
  case Nil
  show ?case by (rule exI [of _ 0], rule exI [of _ "ch_pending c"], rule exI [of _ "ch_tornDown c"]) simp
next
  case (Cons f fs)
  show ?case
  proof (cases "ch_tornDown c")
    case True
    have "fold (pushWrite cfg) gs c = c" for gs
      using True by (induction gs) (simp_all add: pushWrite_def)
    moreover have "pushWrite cfg f c = c" using True by (simp add: pushWrite_def)
    ultimately show ?thesis
      by - (rule exI [of _ 0], rule exI [of _ "ch_pending c"], rule exI [of _ "ch_tornDown c"], simp)
  next
    case False
    show ?thesis
    proof (cases "rc_bufferLimit cfg < Suc (ch_pending c)")
      case True
      let ?c = "c\<lparr>ch_pending := Suc (ch_pending c), ch_tornDown := True\<rparr>"
      have "fold (pushWrite cfg) gs ?c = ?c" for gs by (induction gs) (simp_all add: pushWrite_def)
      moreover have "pushWrite cfg f c = ?c" using True False by (simp add: pushWrite_def finish_def)
      ultimately show ?thesis using False
        by - (rule exI [of _ 0], rule exI [of _ "Suc (ch_pending c)"], rule exI [of _ True], auto simp: bound_inv_def)
    next
      case room: False
      let ?c = "c\<lparr>ch_pending := Suc (ch_pending c), ch_queue := ch_queue c @ [f]\<rparr>"
      have step: "pushWrite cfg f c = ?c" using room False by (simp add: pushWrite_def)
      have "bound_inv cfg c \<Longrightarrow> bound_inv cfg ?c" using room False by (simp add: bound_inv_def)
      with Cons [of ?c] obtain k p b where
        "fold (pushWrite cfg) fs ?c = ?c\<lparr>ch_pending := p, ch_tornDown := b, ch_queue := ch_queue ?c @ take k fs\<rparr>"
        "bound_inv cfg c \<longrightarrow> bound_inv cfg (?c\<lparr>ch_pending := p, ch_tornDown := b, ch_queue := ch_queue ?c @ take k fs\<rparr>)"
        by blast
      then show ?thesis
        by - (rule exI [of _ "Suc k"], rule exI [of _ p], rule exI [of _ b], simp add: step)
    qed
  qed
qed

lemmas receive_defs = onLive_def page_fetched_def proceed_def gate_write_def start_write_def settle_write_def
  ack_timeout_def release_def releaseAll_def finish_def pass_def store_decision_def next_write_def

lemma pushWrite_cases:
  obtains (dropped) "pushWrite cfg f c = c"
    | (overflow) "pushWrite cfg f c = c\<lparr>ch_pending := Suc (ch_pending c), ch_tornDown := True\<rparr>"
        "rc_bufferLimit cfg < Suc (ch_pending c)" "\<not> ch_tornDown c"
    | (queued) "pushWrite cfg f c = c\<lparr>ch_pending := Suc (ch_pending c), ch_queue := ch_queue c @ [f]\<rparr>"
        "Suc (ch_pending c) \<le> rc_bufferLimit cfg" "\<not> ch_tornDown c"
  by (cases "ch_tornDown c"; cases "rc_bufferLimit cfg < Suc (ch_pending c)")
    (rule that; simp add: pushWrite_def finish_def Let_def)+

lemma bound_next [hub_intros]:
  "bound_inv cfg c \<Longrightarrow> ch_queue c \<noteq> [] \<Longrightarrow> bound_inv cfg (next_write c)"
  by (cases "ch_queue c") (auto simp: bound_inv_def next_write_def)

lemma bound_frame:
  "bound_inv cfg (c\<lparr>ch_stage := st\<rparr>) = bound_inv cfg c" "bound_inv cfg (c\<lparr>ch_drain := dr\<rparr>) = bound_inv cfg c"
  "bound_inv cfg (c\<lparr>ch_live := b\<rparr>) = bound_inv cfg c" "bound_inv cfg (c\<lparr>ch_inFlight := w, ch_inFlightBytes := n\<rparr>) = bound_inv cfg c"
  "bound_inv cfg (store_decision cfg t allow tm c) = bound_inv cfg c"
  "bound_inv cfg (c\<lparr>ch_lastServed := q\<rparr>) = bound_inv cfg c"
  "bound_inv cfg (c\<lparr>ch_written := fs\<rparr>) = bound_inv cfg c"
  by (simp_all add: bound_inv_def store_decision_def)

lemma bound_finish [hub_intros]: "bound_inv cfg c \<Longrightarrow> bound_inv cfg (finish c)"
  by (simp add: bound_inv_def finish_def)

lemma channel_bound_step:
  assumes "bound_inv cfg c"
  shows "bound_inv cfg (receive_step cfg e c)"
proof (cases e)
  case (LivePush f)
  show ?thesis
    using assms by (cases rule: pushWrite_cases [of cfg f c])
      (auto simp: LivePush onLive_def bound_inv_def finish_def not_le)
next
  case (PageFetched page hasMore)
  obtain k p b where push: "fold (pushWrite cfg) page c = c\<lparr>ch_pending := p, ch_tornDown := b, ch_queue := ch_queue c @ take k page\<rparr>"
    "bound_inv cfg (c\<lparr>ch_pending := p, ch_tornDown := b, ch_queue := ch_queue c @ take k page\<rparr>)"
    using pushWrite_fold [of cfg page c] assms by blast
  with assms show ?thesis by (simp add: PageFetched page_fetched_def bound_frame)
next
  case Proceed
  let ?fs = "filter (\<lambda>f. ch_lastServed c < rf_sequenceID f) (ch_liveBuffer c)" and ?c = "c\<lparr>ch_liveBuffer := []\<rparr>"
  have "bound_inv cfg ?c" using assms by (simp add: bound_inv_def)
  then obtain k p b where push: "fold (pushWrite cfg) ?fs ?c = ?c\<lparr>ch_pending := p, ch_tornDown := b, ch_queue := ch_queue ?c @ take k ?fs\<rparr>"
    "bound_inv cfg (?c\<lparr>ch_pending := p, ch_tornDown := b, ch_queue := ch_queue ?c @ take k ?fs\<rparr>)"
    using pushWrite_fold [of cfg ?fs ?c] by blast
  have "bound_inv cfg (c\<lparr>ch_live := True, ch_drain := Drained\<rparr>)" using assms by (simp add: bound_inv_def)
  with assms push show ?thesis by (auto simp: Proceed proceed_def bound_frame split: drain_stage.split)
next
  case (GateAnswer now answer storedAt)
  have "bound_inv cfg (pass allow c')" if "bound_inv cfg c'" "ch_queue c' \<noteq> []" for allow c'
    using that by (simp add: pass_def bound_frame bound_next)
  moreover have "ch_queue (store_decision cfg t allow tm c) = ch_queue c" "ch_queue (finish c) = ch_queue c" for t allow tm
    by (simp_all add: store_decision_def finish_def)
  ultimately show ?thesis
    using assms by (cases "ch_queue c") (auto simp: GateAnswer gate_write_def bound_frame intro!: hub_intros split: option.split)
next
  case StartWrite
  have "bound_inv cfg (c\<lparr>ch_stage := BeingWritten, ch_inFlight := w, ch_inFlightBytes := n\<rparr>)" for w n
    using assms by (simp add: bound_inv_def)
  with assms show ?thesis by (simp add: StartWrite start_write_def split: list.split)
next
  case (SettleWrite ok)
  have "ch_queue (finish c) = ch_queue c" by (simp add: finish_def)
  with assms show ?thesis
    by (cases "ch_queue c") (auto simp: SettleWrite settle_write_def bound_frame intro!: hub_intros)
qed (use assms in \<open>auto simp: bound_frame release_def ack_timeout_def releaseAll_def Let_def case_prod_unfold
      intro: hub_intros split: option.split list.split\<close>)

section \<open>Order\<close>

lemma order_next:
  assumes "order_inv cfg c" shows "order_inv cfg (next_write c)"
  using assms by (cases "ch_queue c") (auto simp: order_inv_def next_write_def)

lemma order_frame:
  "order_inv cfg (c\<lparr>ch_stage := st\<rparr>) = order_inv cfg c"
  "order_inv cfg (c\<lparr>ch_inFlight := w, ch_inFlightBytes := n\<rparr>) = order_inv cfg c"
  "order_inv cfg (c\<lparr>ch_stage := st, ch_inFlight := w, ch_inFlightBytes := n\<rparr>) = order_inv cfg c"
  "order_inv cfg (store_decision cfg' t allow tm c) = order_inv cfg c" "order_inv cfg (finish c) = order_inv cfg c"
  by (simp_all add: order_inv_def store_decision_def finish_def)

text \<open>Queueing frames that are in order and past what was served, behind an empty queue.\<close>

lemma order_push:
  assumes "order_inv cfg c" and "ch_queue c = []" and "sorted_wrt (<) (map rf_sequenceID fs)"
    and "\<forall>f \<in> set fs. ch_lastServed c < rf_sequenceID f" and "dr \<noteq> AwaitPage" and "dr \<noteq> AtFlush"
  shows "order_inv cfg ((fold (pushWrite cfg) fs c)\<lparr>ch_drain := dr\<rparr>)"
proof -
  obtain k p b where "fold (pushWrite cfg) fs c = c\<lparr>ch_pending := p, ch_tornDown := b, ch_queue := ch_queue c @ take k fs\<rparr>"
    using pushWrite_fold [of cfg fs c] by blast
  then show ?thesis
    using assms by (auto simp: order_inv_def take_map [symmetric] sorted_wrt_take dest: in_set_takeD)
qed

lemma order_step:
  assumes inv: "order_inv cfg c" and env: "in_order c e" and live: "ch_live c \<longrightarrow> ch_drain c = Drained"
  shows "order_inv cfg (receive_step cfg e c)"
proof (cases e)
  case (LivePush f)
  show ?thesis
    using inv env live by (cases rule: pushWrite_cases [of cfg f c])
      (auto simp: LivePush onLive_def order_inv_def finish_def sorted_wrt_append list_all_iff)
next
  case (PageFetched page hasMore)
  show ?thesis
  proof (cases "ch_tornDown c \<or> ch_drain c \<noteq> AwaitPage")
    case False
    then have "ch_queue c = []" using inv by (simp add: order_inv_def)
    with False inv env show ?thesis
      by (simp add: PageFetched page_fetched_def order_push list_all_iff)
  qed (use inv in \<open>simp add: PageFetched page_fetched_def\<close>)
next
  case Proceed
  show ?thesis
  proof (cases "ch_drain c = AtFlush \<and> ch_liveBuffer c \<noteq> [] \<and> \<not> ch_tornDown c")
    case True
    let ?c = "c\<lparr>ch_liveBuffer := []\<rparr>"
    have "order_inv cfg ?c" "ch_queue ?c = []" "sorted_wrt (<) (map rf_sequenceID (ch_liveBuffer c))"
      using True inv by (simp_all add: order_inv_def)
    then show ?thesis
      using True by (simp add: Proceed proceed_def order_push sorted_wrt_map sorted_wrt_filter)
  qed (use inv in \<open>auto simp: Proceed proceed_def order_inv_def split: drain_stage.split\<close>)
next
  case (GateAnswer now answer storedAt)
  with inv show ?thesis
    by (auto simp: gate_write_def pass_def order_frame order_next split: list.split option.split)
next
  case (SettleWrite ok)
  show ?thesis
  proof (cases "ch_queue c")
    case (Cons f fs)
    with inv show ?thesis
      by (auto simp: SettleWrite settle_write_def order_frame order_next)
        (auto simp: order_inv_def next_write_def sorted_wrt_append)
  qed (use inv in \<open>simp add: SettleWrite settle_write_def\<close>)
qed (use inv in \<open>auto simp: order_frame start_write_def release_def ack_timeout_def releaseAll_def Let_def case_prod_unfold
      split: option.split list.split\<close>)

section \<open>The ack window\<close>

lemma release_through_suffix:
  "release_through final xs n = (rest, n') \<Longrightarrow> \<exists>pre. xs = pre @ rest \<and> n' = n - sum_list (map snd pre)"
proof (induction final xs n rule: release_through.induct)
  case (2 final q bytes xs n)
  show ?case
  proof (cases "q = final")
    case True
    with 2(2) show ?thesis by (intro exI [of _ "[(q, bytes)]"]) auto
  next
    case False
    with 2 obtain pre where "xs = pre @ rest" "n' = n - bytes - sum_list (map snd pre)" by auto
    then show ?thesis by (intro exI [of _ "(q, bytes) # pre"]) simp
  qed
qed auto

lemma window_suffix:
  assumes "ack_window cfg c" and "ch_inFlight c = pre @ rest"
  shows "ack_window cfg (c\<lparr>ch_inFlight := rest, ch_inFlightBytes := ch_inFlightBytes c - sum_list (map snd pre)\<rparr>)"
proof -
  have "0 \<le> sum_list (map snd pre)"
    using assms by (intro sum_list_nonneg) (auto simp: ack_window_def)
  with assms show ?thesis by (auto simp: ack_window_def)
qed

lemma window_release:
  assumes "ack_window cfg c" shows "ack_window cfg (release acked c)"
proof (cases "last_acked acked (ch_inFlight c)")
  case (Some final)
  obtain rest n where through: "release_through final (ch_inFlight c) (ch_inFlightBytes c) = (rest, n)" by fastforce
  from release_through_suffix [OF this] obtain pre where
    "ch_inFlight c = pre @ rest" "n = ch_inFlightBytes c - sum_list (map snd pre)" by blast
  with window_suffix [OF assms, of pre rest] through Some show ?thesis by (simp add: release_def)
qed (use assms in \<open>simp add: release_def\<close>)

lemma window_start:
  assumes inv: "ack_window cfg c" and "ch_queue c = f # fs" and "ch_stage c = Gated" and "\<not> ch_tornDown c"
    and "hasRoom cfg (frame_bytes f) c" and "ch_lastServed c < rf_sequenceID f" and "1 \<le> rc_window cfg"
  shows "ack_window cfg (c\<lparr>ch_stage := BeingWritten,
    ch_inFlight := AList.update (rf_sequenceID f) (frame_bytes f) (ch_inFlight c),
    ch_inFlightBytes := ch_inFlightBytes c + frame_bytes f\<rparr>)"
proof -
  have "rf_sequenceID f \<notin> fst ` set (ch_inFlight c)"
    using assms by (fastforce simp: ack_window_def)
  then have "AList.update (rf_sequenceID f) (frame_bytes f) (ch_inFlight c) = ch_inFlight c @ [(rf_sequenceID f, frame_bytes f)]"
    by (rule AList_update_new)
  moreover have "0 \<le> frame_bytes f" by (simp add: frame_bytes_def)
  ultimately show ?thesis
    using assms \<open>rf_sequenceID f \<notin> fst ` set (ch_inFlight c)\<close>
    by (auto simp: ack_window_def hasRoom_def)
qed

text \<open>Events that leave the window and the place of the head alone.\<close>

lemma window_frame:
  assumes "ack_window cfg c" and "ch_inFlight c' = ch_inFlight c" and "ch_inFlightBytes c' = ch_inFlightBytes c"
    and "ch_lastServed c \<le> ch_lastServed c'" and "\<not> ch_tornDown c' \<Longrightarrow> \<not> ch_tornDown c"
    and "\<not> ch_tornDown c' \<Longrightarrow> ch_stage c = BeingWritten \<Longrightarrow> ch_queue c \<noteq> [] \<Longrightarrow>
      (ch_stage c' = BeingWritten \<and> ch_queue c' \<noteq> [] \<and> hd (ch_queue c') = hd (ch_queue c)) \<or>
      rf_sequenceID (hd (ch_queue c)) \<le> ch_lastServed c'"
  shows "ack_window cfg c'"
proof -
  have "q \<le> ch_lastServed c' \<or> (ch_stage c' = BeingWritten \<and> ch_queue c' \<noteq> [] \<and> q = rf_sequenceID (hd (ch_queue c')))"
    if "\<not> ch_tornDown c'" and "q \<in> fst ` set (ch_inFlight c)" for q
  proof -
    from that assms(1,5) have "q \<le> ch_lastServed c \<or>
        (ch_stage c = BeingWritten \<and> ch_queue c \<noteq> [] \<and> q = rf_sequenceID (hd (ch_queue c)))"
      unfolding ack_window_def by blast
    with assms(4) assms(6) [OF that(1)] show ?thesis by auto
  qed
  with assms(1-3) show ?thesis unfolding ack_window_def by auto
qed

lemma window_push:
  assumes "ack_window cfg c"
  shows "ack_window cfg (fold (pushWrite cfg) fs c)" and "ack_window cfg ((fold (pushWrite cfg) fs c)\<lparr>ch_drain := dr\<rparr>)"
proof -
  obtain k p b where push: "fold (pushWrite cfg) fs c = c\<lparr>ch_pending := p, ch_tornDown := b, ch_queue := ch_queue c @ take k fs\<rparr>"
    using pushWrite_fold [of cfg fs c] by blast
  have torn: "ch_tornDown c \<Longrightarrow> ch_tornDown (fold (pushWrite cfg) fs c)"
    by (induction fs) (simp_all add: pushWrite_def)
  then have kept: "\<not> b \<Longrightarrow> \<not> ch_tornDown c" by (auto simp: push)
  show "ack_window cfg (fold (pushWrite cfg) fs c)"
    unfolding push by (rule window_frame [OF assms]) (use kept in auto)
  show "ack_window cfg ((fold (pushWrite cfg) fs c)\<lparr>ch_drain := dr\<rparr>)"
    unfolding push by (rule window_frame [OF assms]) (use kept in auto)
qed

lemma window_step:
  assumes inv: "ack_window cfg c" and order: "order_inv cfg c" and window: "1 \<le> rc_window cfg"
  shows "ack_window cfg (receive_step cfg e c)"
proof (cases e)
  case (LivePush f)
  have "ack_window cfg (pushWrite cfg f c)" using window_push(1) [OF inv, of "[f]"] by simp
  moreover have "ack_window cfg (finish c)" by (rule window_frame [OF inv]) (simp_all add: finish_def)
  moreover have "ack_window cfg (c\<lparr>ch_liveBuffer := ch_liveBuffer c @ [f]\<rparr>)" by (rule window_frame [OF inv]) simp_all
  ultimately show ?thesis by (simp add: LivePush onLive_def)
next
  case (PageFetched page hasMore)
  with inv show ?thesis by (simp add: page_fetched_def window_push)
next
  case Proceed
  have "ack_window cfg (c\<lparr>ch_liveBuffer := []\<rparr>)" by (rule window_frame [OF inv]) simp_all
  moreover have "ack_window cfg (c\<lparr>ch_drain := dr\<rparr>)" for dr by (rule window_frame [OF inv]) simp_all
  moreover have "ack_window cfg (c\<lparr>ch_live := True, ch_drain := dr\<rparr>)" for dr by (rule window_frame [OF inv]) simp_all
  ultimately show ?thesis using inv by (auto simp: Proceed proceed_def window_push split: drain_stage.split)
next
  case (GateAnswer now answer storedAt)
  have decided: "ack_window cfg (store_decision cfg t allow tm c)" for t allow tm
    by (rule window_frame [OF inv]) (simp_all add: store_decision_def)
  have passed: "ack_window cfg (pass allow c')" if "ack_window cfg c'" "ch_stage c' = Queued" for allow c'
    by (rule window_frame [OF that(1)]; cases allow) (simp_all add: pass_def next_write_def that(2))
  have failed: "ack_window cfg (next_write (finish c))"
    by (rule window_frame [OF inv]) (simp_all add: finish_def next_write_def)
  have "ch_stage (store_decision cfg t allow tm c) = ch_stage c" for t allow tm by (simp add: store_decision_def)
  with inv decided passed failed show ?thesis
    by (auto simp: GateAnswer gate_write_def split: list.split option.split)
next
  case StartWrite
  have "ch_lastServed c < rf_sequenceID f" if "ch_queue c = f # fs" for f fs
    using order that by (simp add: order_inv_def)
  with inv window show ?thesis
    by (auto simp: StartWrite start_write_def window_start split: list.split)
next
  case (SettleWrite ok)
  show ?thesis
  proof (cases "ch_queue c = [] \<or> ch_stage c \<noteq> BeingWritten")
    case False
    then obtain f fs where q: "ch_queue c = f # fs" and stage: "ch_stage c = BeingWritten" by (cases "ch_queue c") auto
    show ?thesis
      by (cases ok; rule window_frame [OF inv])
        (simp_all add: SettleWrite settle_write_def q stage next_write_def finish_def less_imp_le not_less)
  qed (use inv in \<open>auto simp: SettleWrite settle_write_def split: list.split\<close>)
next
  case AckTimeout
  have "ack_window cfg (releaseAll c)" using inv window_suffix [OF inv, of "ch_inFlight c" "[]"]
    by (auto simp: releaseAll_def ack_window_def)
  with inv show ?thesis by (simp add: AckTimeout ack_timeout_def split: list.split)
next
  case (AckRead acked)
  with inv show ?thesis by (simp add: window_release)
next
  case Abort
  show ?thesis by (rule window_frame [OF inv]) (simp_all add: Abort finish_def)
next
  case FetchThrew
  have "ack_window cfg (finish c)" by (rule window_frame [OF inv]) (simp_all add: finish_def)
  with inv show ?thesis by (simp add: FetchThrew)
qed

section \<open>Reachable channels\<close>

definition channel_inv :: "receive_config \<Rightarrow> receive_channel \<Rightarrow> bool" where
  "channel_inv cfg c \<longleftrightarrow> order_inv cfg c \<and> bound_inv cfg c \<and> (ch_live c \<longrightarrow> ch_drain c = Drained)"

lemma channel_inv_step:
  assumes "channel_inv cfg c" and "in_order c e" shows "channel_inv cfg (receive_step cfg e c)"
proof -
  have push: "ch_live (fold (pushWrite cfg) fs c) = ch_live c" for fs c
    by (induction fs arbitrary: c) (simp_all add: pushWrite_def finish_def Let_def)
  have one: "ch_live (pushWrite cfg f c) = ch_live c" "ch_drain (pushWrite cfg f c) = ch_drain c" for f
    by (simp_all add: pushWrite_def finish_def Let_def)
  have "ch_live (receive_step cfg e c) \<longrightarrow> ch_drain (receive_step cfg e c) = Drained"
    using assms(1) by (cases e)
      (auto simp: channel_inv_def receive_defs one push Let_def case_prod_unfold
        split: list.split option.split drain_stage.splits)
  with assms order_step channel_bound_step show ?thesis by (simp add: channel_inv_def)
qed

lemma receive_run_bound: "receive_run cfg c \<Longrightarrow> bound_inv cfg c"
  by (induction rule: receive_run.induct) (simp add: bound_inv_def open_channel_def, rule channel_bound_step)

text \<open>A sequence of events that keep the order, checked one by one.\<close>

fun orderly :: "receive_config \<Rightarrow> receive_event list \<Rightarrow> receive_channel \<Rightarrow> bool" where
  "orderly cfg [] c \<longleftrightarrow> True"
| "orderly cfg (e # es) c \<longleftrightarrow> in_order c e \<and> orderly cfg es (receive_step cfg e c)"

lemma orderly_inv:
  "channel_inv cfg c \<Longrightarrow> ack_window cfg c \<Longrightarrow> 1 \<le> rc_window cfg \<Longrightarrow> orderly cfg es c \<Longrightarrow>
     channel_inv cfg (fold (receive_step cfg) es c) \<and> ack_window cfg (fold (receive_step cfg) es c)"
proof (induction es arbitrary: c)
  case (Cons e es)
  have "channel_inv cfg (receive_step cfg e c)" using Cons.prems by (simp add: channel_inv_step)
  moreover have "ack_window cfg (receive_step cfg e c)"
    using Cons.prems by (intro window_step) (simp_all add: channel_inv_def)
  ultimately show ?case using Cons.IH Cons.prems by simp
qed simp

lemma open_channel_inv: "channel_inv cfg open_channel" "ack_window cfg open_channel"
  by (simp_all add: channel_inv_def order_inv_def bound_inv_def ack_window_def open_channel_def)

text \<open>Two backlog frames, one pushed live during the drain, with a window of one frame.\<close>

definition demo_frame :: "string \<Rightarrow> ReceiveFrame" where
  "demo_frame q = \<lparr>rf_sequenceID = q, rf_senderDID = ''a'', rf_topicID = ''t'', rf_payload = ''AQI='', rf_logPosition = None\<rparr>"

definition demo_channel_config :: receive_config where
  "demo_channel_config = receive_settings None None (Some 1) None"

definition demo_events :: "receive_event list" where
  "demo_events = [PageFetched [demo_frame ''1'', demo_frame ''2''] False, LivePush (demo_frame ''2''),
     LivePush (demo_frame ''3''), GateAnswer 0 (Some True) 0, StartWrite, SettleWrite True,
     GateAnswer 1 None 1, StartWrite, AckRead [''1''], StartWrite, SettleWrite True, Proceed, Proceed,
     GateAnswer 2 None 2, AckTimeout, StartWrite, SettleWrite True, Proceed, Proceed]"

definition demo_channel :: receive_channel where
  "demo_channel = fold (receive_step demo_channel_config) demo_events open_channel"

lemma demo_channel_run: "receive_run demo_channel_config demo_channel"
  unfolding demo_channel_def by (rule receive_run_fold [OF opened])

section \<open>What a channel was brought\<close>

fun brought :: "receive_event \<Rightarrow> ReceiveFrame list" where
  "brought (PageFetched page hasMore) = page"
| "brought (LivePush f) = [f]"
| "brought _ = []"

text \<open>Every frame a channel has or had stands for one it was brought.\<close>

definition held :: "receive_channel \<Rightarrow> ReceiveFrame multiset" where
  "held c = mset (ch_written c) + mset (ch_queue c) + mset (ch_liveBuffer c)"

lemma held_next: "held (next_write c) \<subseteq># held c"
  by (cases "ch_queue c") (simp_all add: held_def next_write_def)

lemma held_push: "held (fold (pushWrite cfg) fs c) \<subseteq># held c + mset fs"
proof -
  obtain k p b where "fold (pushWrite cfg) fs c = c\<lparr>ch_pending := p, ch_tornDown := b, ch_queue := ch_queue c @ take k fs\<rparr>"
    using pushWrite_fold by blast
  moreover have "mset (take k fs) \<subseteq># mset fs"
    by (metis append_take_drop_id mset_append mset_subset_eq_add_left)
  ultimately show ?thesis by (simp add: held_def)
qed

lemma held_same:
  "ch_written c' = ch_written c \<Longrightarrow> ch_queue c' = ch_queue c \<Longrightarrow> ch_liveBuffer c' = ch_liveBuffer c \<Longrightarrow> held c' = held c"
  by (simp add: held_def)

lemma held_step: "held (receive_step cfg e c) \<subseteq># held c + mset (brought e)"
proof (cases e)
  case (LivePush f)
  have "held (pushWrite cfg f c) \<subseteq># held c + {#f#}" using held_push [of cfg "[f]" c] by simp
  then show ?thesis by (simp add: LivePush onLive_def held_def finish_def)
next
  case (PageFetched page hasMore)
  have "held ((fold (pushWrite cfg) page c)\<lparr>ch_drain := d\<rparr>) = held (fold (pushWrite cfg) page c)" for d
    by (rule held_same) simp_all
  then show ?thesis using held_push [of cfg page c] by (simp add: PageFetched page_fetched_def)
next
  case Proceed
  let ?fs = "filter (\<lambda>f. ch_lastServed c < rf_sequenceID f) (ch_liveBuffer c)" and ?c = "c\<lparr>ch_liveBuffer := []\<rparr>"
  have "held ?c + mset ?fs \<subseteq># held c" by (simp add: held_def)
  then have flushed: "held (fold (pushWrite cfg) ?fs ?c) \<subseteq># held c"
    using held_push [of cfg ?fs ?c] by (rule subset_mset.order_trans [rotated])
  have "held ((fold (pushWrite cfg) ?fs ?c)\<lparr>ch_drain := d\<rparr>) = held (fold (pushWrite cfg) ?fs ?c)" for d
    by (rule held_same) simp_all
  with flushed have "held ((fold (pushWrite cfg) ?fs ?c)\<lparr>ch_drain := AwaitFlush\<rparr>) \<subseteq># held c" by simp
  moreover have "held (c\<lparr>ch_drain := d\<rparr>) = held c" "held (c\<lparr>ch_live := b, ch_drain := d\<rparr>) = held c" for d b
    by (rule held_same; simp)+
  ultimately show ?thesis
    by (simp add: Proceed proceed_def split: drain_stage.split)
next
  case (SettleWrite ok)
  show ?thesis
  proof (cases "ch_queue c")
    case (Cons f fs)
    then show ?thesis by (auto simp: SettleWrite settle_write_def held_def next_write_def finish_def)
  qed (simp add: SettleWrite settle_write_def)
next
  case (GateAnswer now answer storedAt)
  have same: "held (store_decision cfg t allow tm c) = held c" "held (finish c) = held c" for t allow tm
    by (simp_all add: held_def store_decision_def finish_def)
  have passed: "held (pass allow c') \<subseteq># held c'" for allow c'
    using held_next [of c'] by (simp add: pass_def held_def)
  show ?thesis
    using held_next [of "finish c"] passed [of _ c] passed [of _ "store_decision cfg _ _ _ c"]
    by (simp add: GateAnswer gate_write_def same split: list.split option.split)
qed (auto simp: held_def start_write_def release_def ack_timeout_def releaseAll_def finish_def Let_def case_prod_unfold
    split: option.split list.split)

lemma held_fold: "held (fold (receive_step cfg) es c) \<subseteq># held c + mset (concat (map brought es))"
proof (induction es arbitrary: c)
  case (Cons e es)
  have "held (fold (receive_step cfg) es (receive_step cfg e c)) \<subseteq># held (receive_step cfg e c) + mset (concat (map brought es))"
    by (rule Cons.IH)
  also have "\<dots> \<subseteq># held c + mset (brought e) + mset (concat (map brought es))"
    by (rule subset_mset.add_right_mono) (rule held_step)
  finally show ?case by (simp add: add.assoc)
qed simp

section \<open>What the hub promises\<close>

text \<open>
  The backlog is read in the order of positions, page after page; the pushes come in the order of positions, as
  the comment at \<^verbatim>\<open>onLive\<close> demands of the publish path; and a push that finds the channel live is newer than the
  backlog the drain has read. The last is what a publish that commits before it pushes can break.
\<close>

fun promise :: "receive_channel \<Rightarrow> ReceiveFrame list \<Rightarrow> ReceiveFrame list \<Rightarrow> receive_event \<Rightarrow> bool" where
  "promise c backlog pushes (PageFetched page hasMore) \<longleftrightarrow> sorted_wrt (<) (map rf_sequenceID page) \<and>
     list_all (\<lambda>f. [] < rf_sequenceID f \<and> list_all (\<lambda>g. rf_sequenceID g < rf_sequenceID f) backlog) page"
| "promise c backlog pushes (LivePush f) \<longleftrightarrow> [] < rf_sequenceID f \<and> list_all (\<lambda>g. rf_sequenceID g < rf_sequenceID f) pushes \<and>
     (ch_live c \<longrightarrow> list_all (\<lambda>g. rf_sequenceID g < rf_sequenceID f) backlog)"
| "promise c backlog pushes _ \<longleftrightarrow> True"

fun paged :: "receive_event \<Rightarrow> ReceiveFrame list" where
  "paged (PageFetched page hasMore) = page"
| "paged _ = []"

fun pushed :: "receive_event \<Rightarrow> ReceiveFrame list" where
  "pushed (LivePush f) = [f]"
| "pushed _ = []"

fun promised ::
  "receive_config \<Rightarrow> ReceiveFrame list \<Rightarrow> ReceiveFrame list \<Rightarrow> receive_event list \<Rightarrow> receive_channel \<Rightarrow> bool" where
  "promised cfg backlog pushes [] c \<longleftrightarrow> True"
| "promised cfg backlog pushes (e # es) c \<longleftrightarrow> promise c backlog pushes e \<and>
     promised cfg (backlog @ paged e) (pushes @ pushed e) es (receive_step cfg e c)"

text \<open>Where the frames of a channel come from, by the stage of its drain.\<close>

definition sourced :: "ReceiveFrame list \<Rightarrow> ReceiveFrame list \<Rightarrow> receive_channel \<Rightarrow> bool" where
  "sourced backlog pushes c \<longleftrightarrow> set (ch_queue c) \<union> set (ch_written c) \<subseteq> set backlog \<union> set pushes \<and>
     (ch_drain c = AwaitPage \<or> (\<exists>more. ch_drain c = AwaitWrites more) \<longrightarrow> set (ch_queue c) \<union> set (ch_written c) \<subseteq> set backlog) \<and>
     set (ch_liveBuffer c) \<subseteq> set pushes \<and>
     (ch_lastServed c = [] \<or> ch_lastServed c \<in> rf_sequenceID ` set (ch_written c))"

lemma sourced_more: "sourced backlog pushes c \<Longrightarrow> sourced (backlog @ xs) (pushes @ ys) c"
  by (auto simp: sourced_def)

lemma sourced_next: "sourced backlog pushes c \<Longrightarrow> sourced backlog pushes (next_write c)"
  by (cases "ch_queue c") (auto simp: sourced_def next_write_def)

lemma sourced_same:
  assumes "sourced backlog pushes c" "ch_queue c' = ch_queue c" "ch_written c' = ch_written c" "ch_drain c' = ch_drain c"
    "ch_liveBuffer c' = ch_liveBuffer c" "ch_lastServed c' = ch_lastServed c"
  shows "sourced backlog pushes c'"
  using assms by (simp add: sourced_def)

lemma promise_in_order:
  assumes "sourced backlog pushes c" "promise c backlog pushes e"
  shows "in_order c e"
proof (cases e)
  case (PageFetched page hasMore)
  with assms show ?thesis by (auto simp: sourced_def list_all_iff)
next
  case (LivePush f)
  with assms show ?thesis by (fastforce simp: sourced_def list_all_iff)
qed simp_all

text \<open>\<^verbatim>\<open>lastServed\<close> is never behind what was written.\<close>

lemma served_step:
  assumes "\<forall>f \<in> set (ch_written c). rf_sequenceID f \<le> ch_lastServed c"
  shows "\<forall>f \<in> set (ch_written (receive_step cfg e c)). rf_sequenceID f \<le> ch_lastServed (receive_step cfg e c)"
proof -
  have push: "ch_written (fold (pushWrite cfg) fs c) = ch_written c" "ch_lastServed (fold (pushWrite cfg) fs c) = ch_lastServed c" for fs c
    by (induction fs arbitrary: c) (simp_all add: pushWrite_def finish_def Let_def)
  have one: "ch_written (pushWrite cfg f c) = ch_written c" "ch_lastServed (pushWrite cfg f c) = ch_lastServed c" for f c
    by (simp_all add: pushWrite_def finish_def Let_def)
  show ?thesis
  proof (cases "\<exists>ok. e = SettleWrite ok")
    case True
    then obtain ok where e: "e = SettleWrite ok" by blast
    show ?thesis
    proof (cases "ch_queue c = [] \<or> ch_stage c \<noteq> BeingWritten")
      case False
      then obtain f fs where q: "ch_queue c = f # fs" and stage: "ch_stage c = BeingWritten" by (cases "ch_queue c") auto
      have "rf_sequenceID g \<le> rf_sequenceID f" if "g \<in> set (ch_written c)" "ch_lastServed c < rf_sequenceID f" for g
        using that assms by (meson less_imp_le order_trans)
      with assms show ?thesis
        by (cases ok) (auto simp: e settle_write_def q stage next_write_def finish_def max_def not_less)
    qed (use assms in \<open>auto simp: e settle_write_def split: list.split\<close>)
  next
    case False
    have "ch_written (receive_step cfg e c) = ch_written c \<and> ch_lastServed (receive_step cfg e c) = ch_lastServed c"
      using False by (cases e) (auto simp: receive_defs one push Let_def case_prod_unfold
          split: list.split option.split drain_stage.split)
    with assms show ?thesis by simp
  qed
qed

lemma served_fold:
  "\<forall>f \<in> set (ch_written c). rf_sequenceID f \<le> ch_lastServed c \<Longrightarrow>
     \<forall>f \<in> set (ch_written (fold (receive_step cfg) es c)). rf_sequenceID f \<le> ch_lastServed (fold (receive_step cfg) es c)"
proof (induction es arbitrary: c)
  case (Cons e es)
  from Cons.IH [OF served_step [OF Cons.prems]] show ?case by simp
qed simp

lemma sourced_push:
  assumes "sourced backlog pushes c" "set fs \<subseteq> set backlog \<union> set pushes"
    and "(\<exists>more. dr = AwaitWrites more) \<longrightarrow> set fs \<subseteq> set backlog \<and> ch_drain c = AwaitPage" "dr \<noteq> AwaitPage"
  shows "sourced backlog pushes ((fold (pushWrite cfg) fs c)\<lparr>ch_drain := dr\<rparr>)"
proof -
  obtain k p b where push: "fold (pushWrite cfg) fs c = c\<lparr>ch_pending := p, ch_tornDown := b, ch_queue := ch_queue c @ take k fs\<rparr>"
    using pushWrite_fold by blast
  have "set (take k fs) \<subseteq> set fs" by (rule set_take_subset)
  with assms show ?thesis unfolding push by (auto simp: sourced_def)
qed

lemma sourced_step:
  assumes inv: "sourced backlog pushes c" and live: "ch_live c \<longrightarrow> ch_drain c = Drained"
  shows "sourced (backlog @ paged e) (pushes @ pushed e) (receive_step cfg e c)"
proof (cases e)
  case (LivePush f)
  obtain k p b where push: "pushWrite cfg f c = c\<lparr>ch_pending := p, ch_tornDown := b, ch_queue := ch_queue c @ take k [f]\<rparr>"
    using pushWrite_fold [of cfg "[f]" c] by auto
  have "set (take k [f]) \<subseteq> {f}" using set_take_subset [of k "[f]"] by simp
  with inv live show ?thesis unfolding LivePush receive_step.simps onLive_def push by (auto simp: sourced_def finish_def)
next
  case (PageFetched page hasMore)
  show ?thesis
    using sourced_more [OF inv, of page "[]"]
    by (auto simp: PageFetched page_fetched_def intro!: sourced_push)
next
  case Proceed
  have "sourced backlog pushes (c\<lparr>ch_liveBuffer := []\<rparr>)" using inv by (simp add: sourced_def)
  moreover have "set (filter (\<lambda>f. ch_lastServed c < rf_sequenceID f) (ch_liveBuffer c)) \<subseteq> set backlog \<union> set pushes"
    using inv by (auto simp: sourced_def)
  ultimately have "sourced backlog pushes ((fold (pushWrite cfg) (filter (\<lambda>f. ch_lastServed c < rf_sequenceID f) (ch_liveBuffer c))
      (c\<lparr>ch_liveBuffer := []\<rparr>))\<lparr>ch_drain := AwaitFlush\<rparr>)"
    by (rule sourced_push) simp_all
  with inv show ?thesis
    by (simp add: Proceed proceed_def split: drain_stage.split) (auto simp: sourced_def)
next
  case (SettleWrite ok)
  have "sourced backlog pushes (next_write (finish c))"
    by (rule sourced_next, rule sourced_same [OF inv]) (simp_all add: finish_def)
  with inv show ?thesis
    by (cases "ch_queue c") (auto simp: SettleWrite settle_write_def sourced_def next_write_def)
next
  case (GateAnswer now answer storedAt)
  have passed: "sourced backlog pushes (pass allow c')" if "sourced backlog pushes c'" for allow c'
    using sourced_next [OF that] sourced_same [OF that] by (simp add: pass_def)
  have stored: "sourced backlog pushes (store_decision cfg t allow tm c)" "sourced backlog pushes (finish c)" for t allow tm
    by (rule sourced_same [OF inv]; simp add: store_decision_def finish_def)+
  show ?thesis
    using inv by (auto simp: GateAnswer gate_write_def intro!: passed stored sourced_next split: list.split option.split)
qed (use inv in \<open>auto simp: sourced_def start_write_def release_def ack_timeout_def releaseAll_def finish_def Let_def
      case_prod_unfold split: option.split list.split\<close>)

lemma channel_live_drained: "channel_inv cfg c \<Longrightarrow> ch_live c \<longrightarrow> ch_drain c = Drained"
  by (simp add: channel_inv_def)

lemma promised_orderly:
  "sourced backlog pushes c \<Longrightarrow> channel_inv cfg c \<Longrightarrow> promised cfg backlog pushes es c \<Longrightarrow> orderly cfg es c"
proof (induction es arbitrary: backlog pushes c)
  case (Cons e es)
  have order: "in_order c e" using Cons.prems by (auto intro: promise_in_order)
  have "sourced (backlog @ paged e) (pushes @ pushed e) (receive_step cfg e c)"
    using Cons.prems by (intro sourced_step channel_live_drained)
  moreover have "channel_inv cfg (receive_step cfg e c)"
    using Cons.prems(2) order by (rule channel_inv_step)
  ultimately show ?case using Cons.IH Cons.prems(3) order by simp
qed simp

lemma promised_run:
  assumes "promised cfg [] [] es open_channel" "1 \<le> rc_window cfg"
  shows "channel_inv cfg (fold (receive_step cfg) es open_channel)" "ack_window cfg (fold (receive_step cfg) es open_channel)"
proof -
  have "sourced [] [] open_channel" by (simp add: sourced_def open_channel_def)
  from promised_orderly [OF this open_channel_inv(1) assms(1)]
  show "channel_inv cfg (fold (receive_step cfg) es open_channel)" "ack_window cfg (fold (receive_step cfg) es open_channel)"
    using orderly_inv [OF open_channel_inv assms(2)] by blast+
qed

section \<open>The ack window, whatever comes\<close>

text \<open>
  The bytes counted cover the frames in flight. They are more when a frame is written a second time while its
  first copy is in flight: the count grows and the entry is replaced.
\<close>

definition window_bounds :: "receive_config \<Rightarrow> receive_channel \<Rightarrow> bool" where
  "window_bounds cfg c \<longleftrightarrow>
     distinct (map fst (ch_inFlight c)) \<and> (\<forall>b \<in> snd ` set (ch_inFlight c). 0 \<le> b) \<and>
     sum_list (map snd (ch_inFlight c)) \<le> ch_inFlightBytes c \<and> length (ch_inFlight c) \<le> rc_window cfg \<and>
     (ch_inFlightBytes c \<le> rc_windowBytes cfg \<or> length (ch_inFlight c) \<le> 1)"

lemma bounds_same:
  "ch_inFlight c' = ch_inFlight c \<Longrightarrow> ch_inFlightBytes c' = ch_inFlightBytes c \<Longrightarrow> window_bounds cfg c' = window_bounds cfg c"
  by (simp add: window_bounds_def)

lemma sum_list_update:
  fixes xs :: "('a, int) js_map"
  assumes "distinct (map fst xs)" "\<forall>b \<in> snd ` set xs. 0 \<le> b"
  shows "sum_list (map snd (AList.update k v xs)) \<le> sum_list (map snd xs) + v"
  using assms by (induction xs) (fastforce+)

lemma update_values: "b \<in> snd ` set (AList.update k v xs) \<Longrightarrow> b = v \<or> b \<in> snd ` set xs"
  by (induction xs) (auto split: if_splits)

lemma length_update: "length (AList.update k v xs) = (if k \<in> fst ` set xs then length xs else Suc (length xs))"
  by (induction xs) auto

lemma bounds_start:
  assumes inv: "window_bounds cfg c" and room: "hasRoom cfg (frame_bytes f) c" and window: "1 \<le> rc_window cfg"
  shows "window_bounds cfg (c\<lparr>ch_stage := BeingWritten,
    ch_inFlight := AList.update (rf_sequenceID f) (frame_bytes f) (ch_inFlight c),
    ch_inFlightBytes := ch_inFlightBytes c + frame_bytes f\<rparr>)"
proof -
  have pos: "0 \<le> frame_bytes f" by (simp add: frame_bytes_def)
  have keys: "distinct (map fst (AList.update k (frame_bytes f) (ch_inFlight c)))" for k
    using inv by (simp add: window_bounds_def distinct_update)
  have total: "sum_list (map snd (AList.update k (frame_bytes f) (ch_inFlight c))) \<le> ch_inFlightBytes c + frame_bytes f" for k
    using sum_list_update [of "ch_inFlight c" k "frame_bytes f"] inv by (auto simp: window_bounds_def)
  have sizes: "\<forall>b \<in> snd ` set (AList.update k (frame_bytes f) (ch_inFlight c)). 0 \<le> b" for k
    using inv pos update_values by (fastforce simp: window_bounds_def)
  show ?thesis
    using inv room window keys total sizes unfolding window_bounds_def hasRoom_def
    by (auto simp: length_update)
qed

lemma bounds_release:
  assumes "window_bounds cfg c" shows "window_bounds cfg (release acked c)"
proof (cases "last_acked acked (ch_inFlight c)")
  case (Some final)
  obtain rest n where through: "release_through final (ch_inFlight c) (ch_inFlightBytes c) = (rest, n)" by fastforce
  from release_through_suffix [OF this] obtain pre where
    pre: "ch_inFlight c = pre @ rest" "n = ch_inFlightBytes c - sum_list (map snd pre)" by blast
  have "0 \<le> sum_list (map snd pre)"
    using assms by (intro sum_list_nonneg) (auto simp: window_bounds_def pre)
  with assms through Some pre show ?thesis by (auto simp: release_def window_bounds_def)
qed (use assms in \<open>simp add: release_def\<close>)

lemma bounds_push: "window_bounds cfg (fold (pushWrite cfg) fs c) = window_bounds cfg c"
proof -
  obtain k p b where "fold (pushWrite cfg) fs c = c\<lparr>ch_pending := p, ch_tornDown := b, ch_queue := ch_queue c @ take k fs\<rparr>"
    using pushWrite_fold by blast
  then show ?thesis by (simp add: window_bounds_def)
qed

lemma bounds_step:
  assumes inv: "window_bounds cfg c" and window: "1 \<le> rc_window cfg"
  shows "window_bounds cfg (receive_step cfg e c)"
proof (cases e)
  case (LivePush f)
  have "window_bounds cfg (pushWrite cfg f c) = window_bounds cfg c" using bounds_push [of cfg "[f]" c] by simp
  with inv show ?thesis by (simp add: LivePush onLive_def) (simp add: window_bounds_def finish_def)
next
  case (PageFetched page hasMore)
  have "window_bounds cfg ((fold (pushWrite cfg) page c)\<lparr>ch_drain := d\<rparr>) = window_bounds cfg (fold (pushWrite cfg) page c)" for d
    by (rule bounds_same) simp_all
  with inv show ?thesis by (simp add: PageFetched page_fetched_def bounds_push)
next
  case Proceed
  have "window_bounds cfg ((fold (pushWrite cfg) fs (c\<lparr>ch_liveBuffer := []\<rparr>))\<lparr>ch_drain := d\<rparr>)" for fs d
    using inv bounds_same [of "(fold (pushWrite cfg) fs (c\<lparr>ch_liveBuffer := []\<rparr>))\<lparr>ch_drain := d\<rparr>" "fold (pushWrite cfg) fs (c\<lparr>ch_liveBuffer := []\<rparr>)" cfg]
      bounds_push [of cfg fs "c\<lparr>ch_liveBuffer := []\<rparr>"] bounds_same [of "c\<lparr>ch_liveBuffer := []\<rparr>" c cfg] by simp
  moreover have "window_bounds cfg (c\<lparr>ch_drain := d\<rparr>)" "window_bounds cfg (c\<lparr>ch_live := b, ch_drain := d\<rparr>)" for b d
    using inv by (simp_all add: window_bounds_def)
  ultimately show ?thesis using inv by (simp add: Proceed proceed_def split: drain_stage.split)
next
  case (GateAnswer now answer storedAt)
  have "ch_inFlight (gate_write cfg now answer storedAt c) = ch_inFlight c"
    "ch_inFlightBytes (gate_write cfg now answer storedAt c) = ch_inFlightBytes c"
    by (auto simp: gate_write_def pass_def next_write_def store_decision_def finish_def split: list.split option.split)
  from bounds_same [OF this] show ?thesis using inv by (simp add: GateAnswer)
next
  case StartWrite
  with inv window show ?thesis by (auto simp: start_write_def intro: bounds_start split: list.split)
next
  case (SettleWrite ok)
  have "ch_inFlight (settle_write ok c) = ch_inFlight c" "ch_inFlightBytes (settle_write ok c) = ch_inFlightBytes c"
    by (auto simp: settle_write_def next_write_def finish_def split: list.split)
  from bounds_same [OF this] show ?thesis using inv by (simp add: SettleWrite)
next
  case (AckRead acked)
  with inv show ?thesis by (simp add: bounds_release)
next
  case AckTimeout
  have "window_bounds cfg (releaseAll c)" using window by (simp add: releaseAll_def window_bounds_def)
  with inv show ?thesis by (simp add: AckTimeout ack_timeout_def split: list.split)
next
  case Abort
  with inv show ?thesis by (simp add: finish_def window_bounds_def)
next
  case FetchThrew
  with inv show ?thesis by (simp add: finish_def window_bounds_def)
qed

lemma receive_run_bounds: "receive_run cfg c \<Longrightarrow> 1 \<le> rc_window cfg \<Longrightarrow> window_bounds cfg c"
  by (induction rule: receive_run.induct) (simp add: window_bounds_def open_channel_def, simp add: bounds_step)

section \<open>Properties\<close>

text \<open>
  Claim C34. What a receive channel writes, for any interleaving of backlog pages, live pushes, gate answers, acks and
  timeouts: each frame at most as often as the channel was brought it, and \<^verbatim>\<open>lastServed\<close> is the newest position
  written. When moreover the hub keeps its promises, that the backlog is read in order, that pushes come in
  order, and that a push which finds the channel live is newer than the backlog it read, each frame is written
  at most once and in the order of positions, also where the backlog and the buffered pushes overlap.
\<close>

theorem receive_in_order:
  fixes cfg es
  defines "c \<equiv> fold (receive_step cfg) es open_channel"
  assumes "1 \<le> rc_window cfg"
  shows "mset (ch_written c) \<subseteq># mset (concat (map brought es)) \<and>
    (\<forall>f \<in> set (ch_written c). rf_sequenceID f \<le> ch_lastServed c) \<and>
    (promised cfg [] [] es open_channel \<longrightarrow>
       sorted_wrt (<) (map rf_sequenceID (ch_written c)) \<and> distinct (map rf_sequenceID (ch_written c)))"
proof (intro conjI impI)
  have "held c \<subseteq># held open_channel + mset (concat (map brought es))" unfolding c_def by (rule held_fold)
  then have "held c \<subseteq># mset (concat (map brought es))" by (simp add: held_def open_channel_def)
  moreover have "mset (ch_written c) \<subseteq># held c" by (simp add: held_def add.assoc)
  ultimately show "mset (ch_written c) \<subseteq># mset (concat (map brought es))"
    by (rule subset_mset.order_trans [rotated])
  show "\<forall>f \<in> set (ch_written c). rf_sequenceID f \<le> ch_lastServed c"
    unfolding c_def by (rule served_fold) (simp add: open_channel_def)
  assume "promised cfg [] [] es open_channel"
  from promised_run(1) [OF this assms(2)] show "sorted_wrt (<) (map rf_sequenceID (ch_written c))"
    unfolding c_def by (simp add: channel_inv_def order_inv_def)
  then show "distinct (map rf_sequenceID (ch_written c))" by (rule sorted_wrt_less_distinct)
qed

theorem receive_in_order_witness:
  "map rf_sequenceID (ch_written demo_channel) = [''1'', ''2'', ''3''] \<and>
   sorted_wrt (<) (map rf_sequenceID (ch_written demo_channel))"
proof -
  have "map rf_sequenceID (ch_written demo_channel) = [''1'', ''2'', ''3'']" by code_simp
  moreover have "promised demo_channel_config [] [] demo_events open_channel" by code_simp
  moreover have "1 \<le> rc_window demo_channel_config" by (simp add: demo_channel_config_def receive_settings_def)
  ultimately show ?thesis using receive_in_order [of demo_channel_config demo_events] by (simp add: demo_channel_def)
qed

text \<open>
  Claim C35. What a channel holds is bounded, whatever comes: never more frames in flight than the window, the frames in
  flight have no more bytes than are counted, the count stays within the byte window unless a single frame is in
  flight, and neither the write queue nor the live buffer outgrows the buffer limit. The count is exact, and so
  nothing of the byte window is lost, when the hub keeps its promises on backlog and pushes.
\<close>

theorem receive_bounded:
  fixes limit ttl window windowBytes es
  defines "cfg \<equiv> receive_settings limit ttl window windowBytes"
  defines "c \<equiv> fold (receive_step cfg) es open_channel"
  shows "length (ch_inFlight c) \<le> max 1 (or_else window 256) \<and>
    sum_list (map snd (ch_inFlight c)) \<le> ch_inFlightBytes c \<and>
    (ch_inFlightBytes c \<le> or_else windowBytes (512 * 1024) \<or> length (ch_inFlight c) \<le> 1) \<and>
    length (ch_queue c) \<le> or_else limit 256 \<and> length (ch_liveBuffer c) \<le> or_else limit 256 \<and>
    (promised cfg [] [] es open_channel \<longrightarrow> ch_inFlightBytes c = sum_list (map snd (ch_inFlight c)))"
proof -
  have run: "receive_run cfg c" unfolding c_def by (rule receive_run_fold [OF opened])
  have window: "1 \<le> rc_window cfg" by (simp add: cfg_def receive_settings_def)
  have settings: "rc_window cfg = max 1 (or_else window 256)" "rc_windowBytes cfg = or_else windowBytes (512 * 1024)"
    "rc_bufferLimit cfg = or_else limit 256" by (simp_all add: cfg_def receive_settings_def)
  have exact: "ch_inFlightBytes c = sum_list (map snd (ch_inFlight c))" if "promised cfg [] [] es open_channel"
    using promised_run(2) [OF that window] unfolding c_def [symmetric] by (simp add: ack_window_def)
  show ?thesis
    using receive_run_bounds [OF run window] receive_run_bound [OF run] exact
    unfolding window_bounds_def bound_inv_def settings by blast
qed

theorem receive_bounded_witness:
  "length (ch_inFlight demo_channel) \<le> 1 \<and> ch_inFlightBytes demo_channel = sum_list (map snd (ch_inFlight demo_channel))"
proof -
  have "promised demo_channel_config [] [] demo_events open_channel" by code_simp
  then show ?thesis
    using receive_bounded [of None None "Some 1" None demo_events]
    by (simp add: demo_channel_def demo_channel_config_def)
qed

text \<open>
  A full window never blocks a channel for good: a frame that passed the gate and waits for room is written
  after one ack timeout, whatever the client has failed to ack.
\<close>

theorem receive_timeout_unblocks:
  assumes "ch_queue c = f # fs" and "ch_stage c = Gated" and "\<not> ch_tornDown c"
  shows "ch_written (fold (receive_step cfg) [AckTimeout, StartWrite, SettleWrite True] c) = ch_written c @ [f] \<and>
    ch_queue (fold (receive_step cfg) [AckTimeout, StartWrite, SettleWrite True] c) = fs"
  using assms by (simp add: ack_timeout_def start_write_def settle_write_def releaseAll_def hasRoom_def next_write_def)

definition demo_blocked :: receive_channel where
  "demo_blocked = fold (receive_step demo_channel_config) (take 7 demo_events) open_channel"

theorem receive_timeout_unblocks_witness:
  "\<not> hasRoom demo_channel_config (frame_bytes (demo_frame ''2'')) demo_blocked \<and>
   map rf_sequenceID (ch_written (fold (receive_step demo_channel_config) [AckTimeout, StartWrite, SettleWrite True] demo_blocked))
     = [''1'', ''2'']"
proof -
  have "ch_queue demo_blocked = [demo_frame ''2'']" "ch_stage demo_blocked = Gated" "\<not> ch_tornDown demo_blocked"
    "map rf_sequenceID (ch_written demo_blocked) = [''1'']"
    "\<not> hasRoom demo_channel_config (frame_bytes (demo_frame ''2'')) demo_blocked" by code_simp+
  then show ?thesis
    using receive_timeout_unblocks [of demo_blocked "demo_frame ''2''" "[]" demo_channel_config]
    by (simp add: demo_frame_def)
qed

section \<open>Delivery is authorized\<close>

text \<open>Every cached allow was granted by the hook, one TTL before it expires.\<close>

definition grants_inv :: "receive_config \<Rightarrow> receive_channel \<Rightarrow> bool" where
  "grants_inv cfg c \<longleftrightarrow> (\<forall>t expiresAt. ch_authCache c t = Some (True, expiresAt) \<longrightarrow>
     (t, expiresAt - rc_authCacheTTL cfg) \<in> set (ch_granted c))"

lemma grants_frame:
  "ch_authCache c' = ch_authCache c \<Longrightarrow> ch_granted c' = ch_granted c \<Longrightarrow> grants_inv cfg c' = grants_inv cfg c"
  by (simp add: grants_inv_def)

lemma grants_step: "grants_inv cfg c \<Longrightarrow> grants_inv cfg (receive_step cfg e c)"
proof -
  assume inv: "grants_inv cfg c"
  have push: "ch_authCache (fold (pushWrite cfg) fs c) = ch_authCache c" "ch_granted (fold (pushWrite cfg) fs c) = ch_granted c"
    for fs c by (induction fs arbitrary: c) (simp_all add: pushWrite_def finish_def Let_def)
  have one: "ch_authCache (pushWrite cfg f c) = ch_authCache c" "ch_granted (pushWrite cfg f c) = ch_granted c" for f c
    by (simp_all add: pushWrite_def finish_def Let_def)
  show ?thesis
  proof (cases "\<exists>now answer storedAt. e = GateAnswer now answer storedAt")
    case True
    with inv show ?thesis
      by (auto simp: grants_inv_def gate_write_def pass_def next_write_def store_decision_def finish_def
          split: list.split option.split if_splits)
  next
    case False
    then show ?thesis
      using inv by (cases e) (subst grants_frame [of _ c]; auto simp: receive_defs one push Let_def case_prod_unfold
          split: list.split option.split drain_stage.split)+
  qed
qed

lemma receive_run_grants: "receive_run cfg c \<Longrightarrow> grants_inv cfg c"
  by (induction rule: receive_run.induct) (simp add: grants_inv_def open_channel_def, rule grants_step)

text \<open>
  Claim C36. A frame passes the gate only on the hook's word for its topic: the hook allows it now, or it allowed that
  topic on this channel less than the cache's lifetime ago.
\<close>

theorem receive_authorized:
  assumes "receive_run cfg c" and "ch_queue c = f # fs" and "ch_stage c = Queued"
    and "ch_stage (receive_step cfg (GateAnswer now answer storedAt) c) = Gated"
  shows "answer = Some True \<or>
    (\<exists>grantedAt. (rf_topicID f, grantedAt) \<in> set (ch_granted c) \<and> now < grantedAt + rc_authCacheTTL cfg)"
proof (cases "cached now (rf_topicID f) c")
  case None
  with assms(2-4) show ?thesis
    by (auto simp: gate_write_def pass_def next_write_def finish_def split: if_splits option.splits)
next
  case (Some allow)
  with assms(2-4) have allow by (auto simp: gate_write_def pass_def next_write_def split: if_splits)
  with Some obtain expiresAt where "ch_authCache c (rf_topicID f) = Some (True, expiresAt)" "now < expiresAt"
    by (auto simp: cached_def split: option.splits if_splits)
  with receive_run_grants [OF assms(1)] show ?thesis
    unfolding grants_inv_def by (intro disjI2 exI [of _ "expiresAt - rc_authCacheTTL cfg"]) simp
qed

definition demo_gate :: receive_channel where
  "demo_gate = fold (receive_step demo_channel_config) (take 6 demo_events) open_channel"

lemma demo_gate_run: "receive_run demo_channel_config demo_gate"
  unfolding demo_gate_def by (rule receive_run_fold [OF opened])

theorem receive_authorized_witness:
  "\<exists>grantedAt. (''t'', grantedAt) \<in> set (ch_granted demo_gate) \<and> 1 < grantedAt + rc_authCacheTTL demo_channel_config"
proof -
  have "ch_queue demo_gate = [demo_frame ''2'']" "ch_stage demo_gate = Queued"
    "ch_stage (receive_step demo_channel_config (GateAnswer 1 None 1) demo_gate) = Gated" by code_simp+
  from receive_authorized [OF demo_gate_run this] show ?thesis by (simp add: demo_frame_def)
qed

section \<open>A push that arrives late\<close>

text \<open>
  Without the promise on live pushes: a publish commits its frame before it pushes it, so the drain may serve the
  frame and go live in between. The push then writes it a second time, and its bytes are counted twice for one
  entry of the window: acking it leaves an empty window with bytes still counted.
\<close>

definition late_push :: receive_channel where
  "late_push = fold (receive_step demo_channel_config)
     [PageFetched [demo_frame ''1''] False, GateAnswer 0 (Some True) 0, StartWrite, SettleWrite True, Proceed, Proceed,
      LivePush (demo_frame ''1''), AckTimeout, GateAnswer 0 None 0, AckRead [], AckTimeout, StartWrite, SettleWrite True] open_channel"

lemma late_push_written_twice: "map rf_sequenceID (ch_written late_push) = [''1'', ''1'']"
  by code_simp

definition late_push_wide :: receive_channel where
  "late_push_wide = fold (receive_step (receive_settings None None None None))
     [PageFetched [demo_frame ''1''] False, GateAnswer 0 (Some True) 0, StartWrite, SettleWrite True, Proceed, Proceed,
      LivePush (demo_frame ''1''), GateAnswer 0 None 0, StartWrite, SettleWrite True, AckRead [''1'']] open_channel"

lemma late_push_leaks_bytes: "ch_inFlight late_push_wide = [] \<and> 0 < ch_inFlightBytes late_push_wide"
  by code_simp

end
