(* ===== verification/Ledger_Types.thy ===== *)
theory Ledger_Types
  imports Complex_Main Prelude
begin

text \<open>
  The data of the control ledger in \<^verbatim>\<open>packages/mls/src\<close>: a value of type \<^verbatim>\<open>unknown\<close> as the JSON the
  code reads it from, a ledger entry and its verified form (\<^verbatim>\<open>ledger.ts\<close>), the input and the drop notice
  of a fold (\<^verbatim>\<open>fold.ts\<close>), the genesis anchor with its tolerant decoder (\<^verbatim>\<open>anchor.ts\<close>), the identity of a
  leaf with its parser (\<^verbatim>\<open>credential.ts\<close>), and the bounded digest cache (\<^verbatim>\<open>ledger.ts\<close>).
  \<^verbatim>\<open>normalizeDID\<close> of \<^verbatim>\<open>@kokuin/token\<close> is the argument \<open>nd\<close> everywhere.
\<close>

section \<open>Values of type unknown\<close>

text \<open>
  \<^verbatim>\<open>JSON.parse\<close> yields no \<^verbatim>\<open>NaN\<close> and no \<^verbatim>\<open>undefined\<close>; a literal such as \<^verbatim>\<open>1e999\<close> is an infinity. An object
  lists its keys in order and once. The index keys of an array are no field name the code reads.
\<close>

datatype js_number = Fin rat | Infinite bool

datatype json =
    JNull
  | JBool bool
  | JNum js_number
  | JStr string
  | JArr "json list"
  | JObj "(string \<times> json) list"

fun obj_fields :: "json \<Rightarrow> (string \<times> json) list" where
  "obj_fields (JObj fs) = fs"
| "obj_fields _ = []"

definition field :: "string \<Rightarrow> json \<Rightarrow> json option" where
  "field k v = map_of (obj_fields v) k"

fun is_object :: "json \<Rightarrow> bool" where
  "is_object (JObj _) = True"
| "is_object (JArr _) = True"
| "is_object _ = False"

definition present :: "string \<Rightarrow> json \<Rightarrow> bool" where
  "present k v = (field k v \<noteq> None)"

definition str_field :: "string \<Rightarrow> json \<Rightarrow> string option" where
  "str_field k v = (case field k v of Some (JStr s) \<Rightarrow> Some s | _ \<Rightarrow> None)"

definition num_field :: "string \<Rightarrow> json \<Rightarrow> js_number option" where
  "num_field k v = (case field k v of Some (JNum x) \<Rightarrow> Some x | _ \<Rightarrow> None)"

definition arr_field :: "string \<Rightarrow> json \<Rightarrow> json list option" where
  "arr_field k v = (case field k v of Some (JArr xs) \<Rightarrow> Some xs | _ \<Rightarrow> None)"

definition finite_of :: "js_number \<Rightarrow> rat option" where
  "finite_of x = (case x of Fin r \<Rightarrow> Some r | Infinite _ \<Rightarrow> None)"

text \<open>\<^verbatim>\<open>Number.isInteger\<close>, with the integer it found.\<close>

definition integer_of :: "js_number \<Rightarrow> int option" where
  "integer_of x = (case x of Fin r \<Rightarrow> (if snd (quotient_of r) = 1 then Some (fst (quotient_of r)) else None)
     | Infinite _ \<Rightarrow> None)"

definition safe_integer_of :: "js_number \<Rightarrow> int option" where
  "safe_integer_of x = (case integer_of x of Some i \<Rightarrow> (if \<bar>i\<bar> \<le> 2 ^ 53 - 1 then Some i else None) | None \<Rightarrow> None)"

text \<open>\<^verbatim>\<open>x > maximum\<close> for a JavaScript number against an integer.\<close>

definition num_le :: "js_number \<Rightarrow> rat \<Rightarrow> bool" where
  "num_le x b = (case x of Fin r \<Rightarrow> r \<le> b | Infinite positive \<Rightarrow> \<not> positive)"

lemma str_field_Some: "str_field k v = Some s \<longleftrightarrow> field k v = Some (JStr s)"
  by (auto simp: str_field_def split: option.splits json.splits)

lemma num_field_Some: "num_field k v = Some x \<longleftrightarrow> field k v = Some (JNum x)"
  by (auto simp: num_field_def split: option.splits json.splits)

lemma arr_field_Some: "arr_field k v = Some xs \<longleftrightarrow> field k v = Some (JArr xs)"
  by (auto simp: arr_field_def split: option.splits json.splits)

lemma integer_of_int [simp]: "integer_of (Fin (of_int i)) = Some i"
  by (simp add: integer_of_def quotient_of_int)

lemma integer_of_Some: "integer_of x = Some i \<longleftrightarrow> x = Fin (of_int i)"
proof
  assume "integer_of x = Some i"
  then obtain r where r: "x = Fin r" "quotient_of r = (i, 1)"
    by (cases x; cases "quotient_of (case x of Fin r \<Rightarrow> r)") (auto simp: integer_of_def split: if_splits)
  then show "x = Fin (of_int i)" using quotient_of_div [OF r(2)] by simp
qed simp

section \<open>Ledger entries\<close>

record 'v LedgerEntry =
  le_type :: string
  le_groupID :: string
  le_subject :: did
  le_value :: 'v
  le_ord :: "string option"

record 'v VerifiedLedgerEntry =
  ve_issuer :: did
  ve_entry :: "'v LedgerEntry"

record 'v FoldInput =
  fi_verified :: "'v VerifiedLedgerEntry"
  fi_entryID :: string

record FoldDrop =
  fd_entryID :: string
  fd_type :: string
  fd_reason :: string

text \<open>
  The outcome of \<^verbatim>\<open>verifyToken\<close> on a token: the crypto provider failed, the token is bad or unsigned, or
  it verified with this issuer and payload.
\<close>

datatype token_outcome = ProviderFailure string | Unverified | Verified did json

text \<open>A claim whose \<^verbatim>\<open>value\<close> is absent is read as one whose value is null: no fold tells them apart.\<close>

definition verifyLedgerEntry :: "(did \<Rightarrow> did) \<Rightarrow> token_outcome \<Rightarrow> string + json VerifiedLedgerEntry option" where
  "verifyLedgerEntry nd outcome = (case outcome of
       ProviderFailure cause \<Rightarrow> Inl cause
     | Unverified \<Rightarrow> Inr None
     | Verified iss payload \<Rightarrow>
         (case (str_field ''type'' payload, str_field ''groupID'' payload, str_field ''subject'' payload) of
            (Some ty, Some groupID, Some subject) \<Rightarrow>
              if present ''ord'' payload \<and> str_field ''ord'' payload = None then Inr None
              else Inr (Some \<lparr> ve_issuer = nd iss,
                                ve_entry = \<lparr> le_type = ty, le_groupID = groupID, le_subject = subject,
                                             le_value = or_else (field ''value'' payload) JNull,
                                             le_ord = str_field ''ord'' payload \<rparr> \<rparr>)
          | _ \<Rightarrow> Inr None))"

section \<open>The digest cache\<close>

text \<open>
  \<^verbatim>\<open>ledgerEntryDigest\<close> memoises the digest of a token in a \<^verbatim>\<open>Map\<close> in which a hit moves to the end and
  an insertion beyond the limit evicts the first key. The hash is the argument \<open>hash\<close>.
\<close>

definition LEDGER_ENTRY_DIGEST_CACHE_SIZE :: nat where
  "LEDGER_ENTRY_DIGEST_CACHE_SIZE = 4096"

definition ledgerEntryDigest ::
  "(string \<Rightarrow> string) \<Rightarrow> string \<Rightarrow> (string, string) js_map \<Rightarrow> string \<times> (string, string) js_map" where
  "ledgerEntryDigest hash token cache = (case map_of cache token of
       Some cached \<Rightarrow> (cached, AList.update token cached (AList.delete token cache))
     | None \<Rightarrow>
         (let digest = hash token; cache = AList.update token digest cache
          in if LEDGER_ENTRY_DIGEST_CACHE_SIZE < length cache
             then (digest, AList.delete (fst (hd cache)) cache)
             else (digest, cache)))"

text \<open>A cache holds true digests, at most the limit of them, each token once.\<close>

definition digest_cache_inv :: "(string \<Rightarrow> string) \<Rightarrow> (string, string) js_map \<Rightarrow> bool" where
  "digest_cache_inv hash cache \<longleftrightarrow>
     distinct (map fst cache) \<and> length cache \<le> LEDGER_ENTRY_DIGEST_CACHE_SIZE \<and> (\<forall>(t, d) \<in> set cache. d = hash t)"

lemma delete_other: "k \<notin> fst ` set xs \<Longrightarrow> AList.delete k xs = xs"
  by (auto simp: AList_delete_filter filter_id_conv)

lemma digest_cache_hit:
  assumes inv: "digest_cache_inv hash cache" and hit: "map_of cache token = Some d"
  shows "ledgerEntryDigest hash token cache = (hash token, AList.delete token cache @ [(token, hash token)])"
    and "Suc (length (AList.delete token cache)) = length cache"
proof -
  have mem: "(token, d) \<in> set cache" using hit by (rule map_of_SomeD)
  then have d: "d = hash token" using inv by (auto simp: digest_cache_inv_def)
  have fresh: "token \<notin> fst ` set (AList.delete token cache)" by (auto simp: AList_delete_filter)
  then show "ledgerEntryDigest hash token cache = (hash token, AList.delete token cache @ [(token, hash token)])"
    by (simp add: ledgerEntryDigest_def hit d AList_update_new)
  have "distinct (map fst cache)" using inv by (simp add: digest_cache_inv_def)
  then show "Suc (length (AList.delete token cache)) = length cache"
    using mem
  proof (induction cache)
    case (Cons p cache)
    show ?case
    proof (cases "fst p = token")
      case True
      with Cons.prems have "token \<notin> fst ` set cache" by auto
      with True show ?thesis by (cases p) (simp add: delete_other)
    next
      case False
      with Cons show ?thesis by (cases p) auto
    qed
  qed simp
qed

lemma digest_cache_correct:
  assumes inv: "digest_cache_inv hash cache"
  shows "fst (ledgerEntryDigest hash token cache) = hash token \<and> digest_cache_inv hash (snd (ledgerEntryDigest hash token cache))"
proof (cases "map_of cache token")
  case None
  then have fresh: "token \<notin> fst ` set cache" by (simp add: map_of_eq_None_iff)
  let ?grown = "cache @ [(token, hash token)]"
  have grown: "AList.update token (hash token) cache = ?grown"
    using fresh by (rule AList_update_new)
  have base: "distinct (map fst ?grown)" "\<forall>(t, d) \<in> set ?grown. d = hash t"
    using inv fresh by (auto simp: digest_cache_inv_def)
  show ?thesis
  proof (cases "LEDGER_ENTRY_DIGEST_CACHE_SIZE < length ?grown")
    case True
    obtain k v rest where split: "?grown = (k, v) # rest" by (cases ?grown) auto
    have "AList.delete k ?grown = rest"
      using base(1) by (auto simp: split delete_other)
    moreover have "length rest \<le> LEDGER_ENTRY_DIGEST_CACHE_SIZE"
      using arg_cong [OF split, of length] inv by (simp add: digest_cache_inv_def)
    moreover have "distinct (map fst rest)" "\<forall>(t, d) \<in> set rest. d = hash t"
      using base unfolding split by simp_all
    moreover have "snd (ledgerEntryDigest hash token cache) = AList.delete k ?grown"
      using True by (simp add: ledgerEntryDigest_def None Let_def grown del: append.simps) (simp add: split)
    ultimately show ?thesis
      using None by (simp add: digest_cache_inv_def) (simp add: ledgerEntryDigest_def None Let_def)
  next
    case False
    then have "ledgerEntryDigest hash token cache = (hash token, ?grown)"
      by (simp add: ledgerEntryDigest_def None Let_def grown)
    with base False show ?thesis by (auto simp: digest_cache_inv_def)
  qed
next
  case (Some d)
  note hit = digest_cache_hit [OF inv Some]
  have "distinct (map fst (AList.delete token cache))"
    using inv by (simp add: digest_cache_inv_def distinct_delete)
  moreover have "set (AList.delete token cache) \<subseteq> set cache" "token \<notin> fst ` set (AList.delete token cache)"
    by (auto simp: AList_delete_filter)
  ultimately show ?thesis
    using inv hit by (auto simp: digest_cache_inv_def)
qed

end
