(* ===== verification/Group_Anchor.thy ===== *)
theory Group_Anchor
  imports Ledger_Types "HOL-Library.Sublist"
begin

text \<open>
  What a leaf and a group context say about themselves: the genesis anchor (\<^verbatim>\<open>mls/src/anchor.ts\<close>) and the
  identity of an MLS credential (\<^verbatim>\<open>mls/src/credential.ts\<close>). Both decoders take the outcome of
  \<^verbatim>\<open>JSON.parse\<close> on the bytes, \<open>None\<close> where it throws.
\<close>

section \<open>The genesis anchor\<close>

definition GROUP_ANCHOR_EXTENSION_TYPE :: nat where "GROUP_ANCHOR_EXTENSION_TYPE = 0xf100"
definition LEDGER_HEAD_EXTENSION_TYPE :: nat where "LEDGER_HEAD_EXTENSION_TYPE = 0xf101"
definition RESERVED_EXTENSION_TYPE :: nat where "RESERVED_EXTENSION_TYPE = 0xf102"
definition CURRENT_VERSION :: rat where "CURRENT_VERSION = 1"

definition MAX_LEAF_LIFETIME :: int where "MAX_LEAF_LIFETIME = 604800"
definition MAX_TRUSTED_GRANT_LIFETIME :: int where "MAX_TRUSTED_GRANT_LIFETIME = 31536000"

record GroupAnchor =
  ga_creatorDID :: did
  ga_version :: js_number
  ga_controller :: "did option"
  ga_leafLifetime :: "int option"
  ga_trustedGrantLifetime :: "int option"
  ga_app :: "json option"

text \<open>The object \<^verbatim>\<open>JSON.stringify\<close> writes: a key per defined property, in the declared order.\<close>

definition optional :: "string \<Rightarrow> ('a \<Rightarrow> json) \<Rightarrow> 'a option \<Rightarrow> (string \<times> json) list" where
  "optional k f x = (case x of None \<Rightarrow> [] | Some v \<Rightarrow> [(k, f v)])"

definition encodeGroupAnchor :: "GroupAnchor \<Rightarrow> json" where
  "encodeGroupAnchor a = JObj
     ([(''creatorDID'', JStr (ga_creatorDID a)), (''version'', JNum (ga_version a))]
      @ optional ''controller'' JStr (ga_controller a)
      @ optional ''leafLifetime'' (\<lambda>i. JNum (Fin (of_int i))) (ga_leafLifetime a)
      @ optional ''trustedGrantLifetime'' (\<lambda>i. JNum (Fin (of_int i))) (ga_trustedGrantLifetime a)
      @ optional ''app'' (\<lambda>v. v) (ga_app a))"

definition valid_lifetime :: "string \<Rightarrow> int \<Rightarrow> json \<Rightarrow> bool" where
  "valid_lifetime k maximum v \<longleftrightarrow>
     (if present k v
      then (case Option.bind (num_field k v) integer_of of None \<Rightarrow> False | Some i \<Rightarrow> 1 \<le> i \<and> i \<le> maximum)
      else True)"

definition decodeGroupAnchor :: "json option \<Rightarrow> GroupAnchor option" where
  "decodeGroupAnchor parsed = (case parsed of
       None \<Rightarrow> None
     | Some v \<Rightarrow>
         if \<not> is_object v then None
         else (case (str_field ''creatorDID'' v, num_field ''version'' v) of
            (Some creator, Some version) \<Rightarrow>
              if present ''controller'' v
                 \<and> (case str_field ''controller'' v of None \<Rightarrow> True | Some c \<Rightarrow> \<not> prefix ''did:kokuin:'' c)
              then None
              else if \<not> valid_lifetime ''leafLifetime'' MAX_LEAF_LIFETIME v
                \<or> \<not> valid_lifetime ''trustedGrantLifetime'' MAX_TRUSTED_GRANT_LIFETIME v
              then None
              else Some \<lparr> ga_creatorDID = creator, ga_version = version,
                          ga_controller = str_field ''controller'' v,
                          ga_leafLifetime = Option.bind (num_field ''leafLifetime'' v) integer_of,
                          ga_trustedGrantLifetime = Option.bind (num_field ''trustedGrantLifetime'' v) integer_of,
                          ga_app = (if num_le version CURRENT_VERSION then field ''app'' v else None) \<rparr>
          | _ \<Rightarrow> None))"

text \<open>An anchor this build may write: the lifecycle fields within their limits, a known version.\<close>

definition writable_anchor :: "GroupAnchor \<Rightarrow> bool" where
  "writable_anchor a \<longleftrightarrow>
     num_le (ga_version a) CURRENT_VERSION
     \<and> (case ga_controller a of None \<Rightarrow> True | Some c \<Rightarrow> prefix ''did:kokuin:'' c)
     \<and> (case ga_leafLifetime a of None \<Rightarrow> True | Some i \<Rightarrow> 1 \<le> i \<and> i \<le> MAX_LEAF_LIFETIME)
     \<and> (case ga_trustedGrantLifetime a of None \<Rightarrow> True | Some i \<Rightarrow> 1 \<le> i \<and> i \<le> MAX_TRUSTED_GRANT_LIFETIME)"

lemma map_of_optional:
  "map_of (optional k f x) j = (if j = k then map_option f x else None)"
  by (auto simp: optional_def split: option.split)

lemma field_encoded:
  "field ''creatorDID'' (encodeGroupAnchor a) = Some (JStr (ga_creatorDID a))"
  "field ''version'' (encodeGroupAnchor a) = Some (JNum (ga_version a))"
  "field ''controller'' (encodeGroupAnchor a) = map_option JStr (ga_controller a)"
  "field ''leafLifetime'' (encodeGroupAnchor a) = map_option (\<lambda>i. JNum (Fin (of_int i))) (ga_leafLifetime a)"
  "field ''trustedGrantLifetime'' (encodeGroupAnchor a) =
     map_option (\<lambda>i. JNum (Fin (of_int i))) (ga_trustedGrantLifetime a)"
  "field ''app'' (encodeGroupAnchor a) = ga_app a"
  by (simp_all add: field_def encodeGroupAnchor_def map_add_def map_of_optional option.map_ident
      split: option.split)

section \<open>The identity of a leaf\<close>

text \<open>An event of a controller's chain is opaque here; \<open>'e\<close> stands for it.\<close>

record 'e ControllerBinding =
  cb_id :: did
  cb_prefix :: "'e list"
  cb_capability :: "string option"
  cb_holderGrant :: "string option"
  cb_member :: "(string \<times> int) option"
  cb_iat :: "rat option"

record 'e MLSCredentialIdentity =
  ci_id :: did
  ci_longForm :: "string option"
  ci_controller :: "'e ControllerBinding option"

definition member_claim :: "json \<Rightarrow> (string \<times> int) option" where
  "member_claim v = (case v of
       JObj fs \<Rightarrow>
         if length fs = 2
         then (case (str_field ''add'' v, Option.bind (num_field ''g'' v) safe_integer_of) of
                 (Some add, Some g) \<Rightarrow> if add = '''' \<or> g < 0 then None else Some (add, g)
               | _ \<Rightarrow> None)
         else None
     | _ \<Rightarrow> None)"

definition parse_binding :: "json \<Rightarrow> string + json ControllerBinding" where
  "parse_binding c =
     (if \<not> is_object c then Inl ''controller must be an object when present''
      else case str_field ''id'' c of
        None \<Rightarrow> Inl ''controller.id must be a string''
      | Some cid \<Rightarrow>
          if present ''capability'' c = present ''member'' c
          then Inl ''controller requires exactly one binding form''
          else if present ''capability'' c \<and> str_field ''capability'' c = None
          then Inl ''controller.capability must be a string''
          else if present ''member'' c \<and> Option.bind (field ''member'' c) member_claim = None
          then Inl ''controller.member must be a member claim''
          else if present ''member'' c \<and> (\<not> present ''iat'' c \<or> present ''holderGrant'' c)
          then Inl ''membership requires iat and no holderGrant''
          else if present ''iat'' c \<and> Option.bind (num_field ''iat'' c) finite_of = None
          then Inl ''controller.iat must be a finite number''
          else case arr_field ''prefix'' c of
            None \<Rightarrow> Inl ''controller.prefix must be an array''
          | Some events \<Rightarrow>
              if present ''holderGrant'' c \<and> str_field ''holderGrant'' c = None
              then Inl ''controller.holderGrant must be a string''
              else Inr \<lparr> cb_id = cid, cb_prefix = events,
                         cb_capability = str_field ''capability'' c,
                         cb_holderGrant = str_field ''holderGrant'' c,
                         cb_member = Option.bind (field ''member'' c) member_claim,
                         cb_iat = Option.bind (num_field ''iat'' c) finite_of \<rparr>)"

definition parseMLSCredentialIdentity :: "json option \<Rightarrow> string + json MLSCredentialIdentity" where
  "parseMLSCredentialIdentity parsed = (case parsed of
       None \<Rightarrow> Inl ''identity bytes are not valid JSON''
     | Some v \<Rightarrow>
         if \<not> is_object v then Inl ''identity must be a JSON object''
         else if present ''v'' v \<and> field ''v'' v \<noteq> Some (JNum (Fin 1)) then Inl ''unsupported identity version''
         else case str_field ''id'' v of
           None \<Rightarrow> Inl ''id must be a string''
         | Some cid \<Rightarrow>
             if present ''longForm'' v \<and> str_field ''longForm'' v = None
             then Inl ''longForm must be a string when present''
             else (case field ''controller'' v of
                     None \<Rightarrow> Inr \<lparr> ci_id = cid, ci_longForm = str_field ''longForm'' v, ci_controller = None \<rparr>
                   | Some c \<Rightarrow> map_sum (\<lambda>e. e) (\<lambda>b. \<lparr> ci_id = cid, ci_longForm = str_field ''longForm'' v,
                                                   ci_controller = Some b \<rparr>) (parse_binding c)))"

text \<open>A credential is \<^verbatim>\<open>basic\<close> with identity bytes, or of another type.\<close>

datatype credential = BasicCredential "json option" | OtherCredential

definition didFromCredential :: "(did \<Rightarrow> did) \<Rightarrow> credential \<Rightarrow> did option" where
  "didFromCredential nd c = (case c of
       OtherCredential \<Rightarrow> None
     | BasicCredential parsed \<Rightarrow>
         (case parseMLSCredentialIdentity parsed of
            Inl _ \<Rightarrow> None
          | Inr identity \<Rightarrow> if ci_id identity = '''' then None else Some (nd (ci_id identity))))"

end
