(* ===== verification/Ledger_Fold.thy ===== *)
theory Ledger_Fold
  imports Group_Anchor
begin

text \<open>
  The replay of a ledger into one projection (\<^verbatim>\<open>mls/src/fold.ts\<close>) and the roster, its first reducer
  (\<^verbatim>\<open>mls/src/roster.ts\<close>). \<^verbatim>\<open>onDrop\<close> is the list of notices a fold returns beside its state.
\<close>

section \<open>The fold\<close>

record ('v, 's) LedgerReducer =
  lr_type :: string
  lr_seed :: "GroupAnchor \<Rightarrow> 's"
  lr_verifyAuthority :: "'v VerifiedLedgerEntry \<Rightarrow> 's \<Rightarrow> bool"
  lr_apply :: "'v VerifiedLedgerEntry \<Rightarrow> 's \<Rightarrow> 's"

fun foldLedger_from ::
  "('v, 's) LedgerReducer \<Rightarrow> 'v FoldInput list \<Rightarrow> 's \<Rightarrow> 's \<times> FoldDrop list" where
  "foldLedger_from reducer [] state = (state, [])"
| "foldLedger_from reducer (input # entries) state =
     (let verified = fi_verified input; entry = ve_entry verified;
          drop = (\<lambda>reason. \<lparr> fd_entryID = fi_entryID input, fd_type = le_type entry, fd_reason = reason \<rparr>)
      in if le_type entry \<noteq> lr_type reducer
         then apsnd (Cons (drop (''unrelated type '' @ le_type entry @ '' for reducer '' @ lr_type reducer)))
                (foldLedger_from reducer entries state)
         else if \<not> lr_verifyAuthority reducer verified state
         then apsnd (Cons (drop (''issuer '' @ ve_issuer verified @ '' not authorized'')))
                (foldLedger_from reducer entries state)
         else foldLedger_from reducer entries (lr_apply reducer verified state))"

definition foldLedger ::
  "'v FoldInput list \<Rightarrow> GroupAnchor \<Rightarrow> ('v, 's) LedgerReducer \<Rightarrow> 's \<times> FoldDrop list" where
  "foldLedger entries anchor reducer = foldLedger_from reducer entries (lr_seed reducer anchor)"

text \<open>Folding is replaying: a longer ledger continues from the state of the shorter.\<close>

lemma foldLedger_from_append:
  "fst (foldLedger_from r (xs @ ys) s) = fst (foldLedger_from r ys (fst (foldLedger_from r xs s)))"
  by (induction xs arbitrary: s) (simp_all add: Let_def)

lemma foldLedger_append:
  "fst (foldLedger (xs @ ys) anchor r) = fst (foldLedger_from r ys (fst (foldLedger xs anchor r)))"
  by (simp add: foldLedger_def foldLedger_from_append)

lemma foldLedger_from_invariant:
  assumes "P s"
    and "\<And>v s. P s \<Longrightarrow> lr_verifyAuthority r v s \<Longrightarrow> P (lr_apply r v s)"
  shows "P (fst (foldLedger_from r xs s))"
  using assms(1) by (induction xs arbitrary: s) (simp_all add: Let_def assms(2))

section \<open>The roster\<close>

datatype GroupPermission = Admin | Member

record RosterState =
  roles :: "(did, GroupPermission) js_map"

definition ROLE_ENTRY_TYPE :: string where "ROLE_ENTRY_TYPE = ''kumiai.role''"

definition adminCount :: "RosterState \<Rightarrow> nat" where
  "adminCount state = length (filter (\<lambda>p. snd p = Admin) (roles state))"

definition role_of :: "RosterState \<Rightarrow> did \<Rightarrow> GroupPermission option" where
  "role_of state d = map_of (roles state) d"

definition roleReducer :: "(did \<Rightarrow> did) \<Rightarrow> (GroupPermission, RosterState) LedgerReducer" where
  "roleReducer nd = \<lparr>
     lr_type = ROLE_ENTRY_TYPE,
     lr_seed = (\<lambda>anchor. \<lparr> roles = [(nd (or_else (ga_controller anchor) (ga_creatorDID anchor)), Admin)] \<rparr>),
     lr_verifyAuthority = (\<lambda>verified state. role_of state (nd (ve_issuer verified)) = Some Admin),
     lr_apply = (\<lambda>verified state.
       state \<lparr> roles := AList.update (nd (le_subject (ve_entry verified))) (le_value (ve_entry verified)) (roles state) \<rparr>) \<rparr>"

definition scopedReducer :: "(did \<Rightarrow> did) \<Rightarrow> string \<Rightarrow> (GroupPermission, RosterState) LedgerReducer" where
  "scopedReducer nd groupID = \<lparr>
     lr_type = lr_type (roleReducer nd),
     lr_seed = lr_seed (roleReducer nd),
     lr_verifyAuthority = (\<lambda>verified state.
       if le_groupID (ve_entry verified) \<noteq> groupID then False
       else if \<not> lr_verifyAuthority (roleReducer nd) verified state then False
       else 0 < adminCount (lr_apply (roleReducer nd) verified state)),
     lr_apply = lr_apply (roleReducer nd) \<rparr>"

definition foldRoster ::
  "(did \<Rightarrow> did) \<Rightarrow> GroupPermission FoldInput list \<Rightarrow> GroupAnchor \<Rightarrow> string \<Rightarrow> RosterState \<times> FoldDrop list" where
  "foldRoster nd entries anchor groupID = foldLedger entries anchor (scopedReducer nd groupID)"

lemma adminCount_pos: "0 < adminCount state \<longleftrightarrow> (\<exists>d. (d, Admin) \<in> set (roles state))"
  by (force simp: adminCount_def filter_empty_conv)

lemma roleReducer_simps [simp]:
  "lr_type (roleReducer nd) = ROLE_ENTRY_TYPE"
  "lr_seed (roleReducer nd) anchor = \<lparr> roles = [(nd (or_else (ga_controller anchor) (ga_creatorDID anchor)), Admin)] \<rparr>"
  "lr_verifyAuthority (roleReducer nd) v s \<longleftrightarrow> role_of s (nd (ve_issuer v)) = Some Admin"
  by (simp_all add: roleReducer_def)

lemma role_of_apply [simp]:
  "role_of (lr_apply (roleReducer nd) v s) d =
     (if d = nd (le_subject (ve_entry v)) then Some (le_value (ve_entry v)) else role_of s d)"
  by (simp add: roleReducer_def role_of_def update_conv')

lemma scopedReducer_simps [simp]:
  "lr_type (scopedReducer nd g) = ROLE_ENTRY_TYPE"
  "lr_seed (scopedReducer nd g) = lr_seed (roleReducer nd)"
  "lr_apply (scopedReducer nd g) = lr_apply (roleReducer nd)"
  "lr_verifyAuthority (scopedReducer nd g) v s \<longleftrightarrow>
     le_groupID (ve_entry v) = g \<and> role_of s (nd (ve_issuer v)) = Some Admin
     \<and> 0 < adminCount (lr_apply (roleReducer nd) v s)"
  by (simp_all add: scopedReducer_def)

text \<open>A roster maps a DID once, so that counting its entries counts DIDs.\<close>

definition roster_inv :: "RosterState \<Rightarrow> bool" where
  "roster_inv state \<longleftrightarrow> distinct (map fst (roles state)) \<and> 0 < adminCount state"

lemma roster_seed_inv: "roster_inv (lr_seed (roleReducer nd) anchor)"
  by (simp add: roster_inv_def adminCount_def)

lemma adminCount_seed [simp]: "adminCount \<lparr> roles = [(d, Admin)] \<rparr> = 1"
  by (simp add: adminCount_def)

lemma roster_apply_distinct:
  "distinct (map fst (roles s)) \<Longrightarrow> distinct (map fst (roles (lr_apply (roleReducer nd) v s)))"
  by (simp add: roleReducer_def distinct_update)

lemma foldRoster_inv: "roster_inv (fst (foldRoster nd entries anchor g))"
  unfolding foldRoster_def foldLedger_def
  by (rule foldLedger_from_invariant)
    (auto simp: roster_inv_def roster_apply_distinct roster_seed_inv [unfolded roster_inv_def])

end
