(* ===== verification/Controller_Log.thy ===== *)
theory Controller_Log
  imports Group_Anchor
begin

text \<open>
  The controller log a lifecycle group records: \<^verbatim>\<open>mls/src/controller-log.ts\<close> and
  \<^verbatim>\<open>mls/src/controller-ingest.ts\<close>, with the proof vocabulary of \<^verbatim>\<open>member-root.ts\<close> and
  \<^verbatim>\<open>registry.ts\<close>. The package \<^verbatim>\<open>@kokuin/controller\<close>, which folds and merges logs, is a record of
  functions: its types have the fields this code reads, and \<open>rest\<close> for what it does not. The two memos
  of authenticated folds return what a fold returns and are left out.
\<close>

section \<open>Types of @kokuin/controller\<close>

record ChainEvent =
  ce_t :: string
  ce_g :: int
  ce_p :: "string option"
  ce_cap :: bool
  ce_rest :: json

record EpochEvent =
  ee_t :: string
  ee_g :: int
  ee_e :: string
  ee_x :: did
  ee_add :: string
  ee_by :: "string option"
  ee_p :: "string list"
  ee_rest :: json

record ControllerLog =
  cl_chain :: "ChainEvent list"
  cl_events :: "EpochEvent list"

record MemberState =
  ms_did :: did
  ms_key :: string
  ms_effective :: bool
  ms_removed :: bool
  ms_lease :: rat

record KeyState =
  ks_digest :: string
  ks_gen :: int
  ks_epoch :: string
  ks_deny :: "did list"
  ks_members :: "(string, MemberState) js_map"
  ks_tombstones :: "(string, did) js_map option"
  ks_saturated :: bool

record FoldOk =
  fo_states :: "KeyState list"
  fo_head :: KeyState
  fo_applied :: "string list"

datatype FoldResult = FoldFailed string nat | FoldDone FoldOk

text \<open>What the code calls of \<^verbatim>\<open>@kokuin/controller\<close>, \<^verbatim>\<open>@kokuin/token\<close> and the collation of the host.\<close>

record kokuin =
  normalizeDID :: "did \<Rightarrow> did"
  isControllerLog :: "json \<Rightarrow> ControllerLog option"
  foldLog :: "did \<Rightarrow> ControllerLog \<Rightarrow> FoldResult"
  mergeLogs :: "did \<Rightarrow> ControllerLog \<Rightarrow> ControllerLog \<Rightarrow> string + ControllerLog"
  authoritativeLog :: "did \<Rightarrow> ControllerLog \<Rightarrow> ControllerLog option \<Rightarrow> string + ControllerLog \<times> FoldOk"
  deviceRevokeIndices :: "did \<Rightarrow> ChainEvent list \<Rightarrow> did \<Rightarrow> nat list"
  resolveBranches :: "did \<Rightarrow> ChainEvent list list \<Rightarrow> ChainEvent list option"
  pruneLog :: "did \<Rightarrow> ControllerLog \<Rightarrow> ControllerLog"
  digestOfChain :: "ChainEvent \<Rightarrow> string"
  digestOfEvent :: "EpochEvent \<Rightarrow> string"
  isEpochEventShape :: "EpochEvent \<Rightarrow> bool"
  LOG_FORKED :: string
  LOG_NOT_AUTHORITATIVE :: string
  LOG_TOO_LARGE :: string
  localeCompare :: "string \<Rightarrow> string \<Rightarrow> int"
  b64uToJSON :: "string \<Rightarrow> json option"
  isSignedToken :: "json \<Rightarrow> json \<Rightarrow> string \<Rightarrow> bool"
  tryDecodeKey :: "string \<Rightarrow> (string \<times> bytes) option"
  decodeKey :: "string \<Rightarrow> bytes"

section \<open>Proofs and projections\<close>

datatype RevokeProofReason =
    no_rev | wrong_controller | not_authority_signed | not_endorsed | generation_floor | too_large
  | detached | needs_reset | time_regression | effects_mismatch | removes_mismatch

datatype ProofRef = ChainIndex nat | Snapshot nat | EventRef string "string option"

datatype EffectClaim = DenyClaim did ProofRef | RemoveClaim did string ProofRef

fun claim_ref :: "EffectClaim \<Rightarrow> ProofRef" where
  "claim_ref (DenyClaim _ r) = r"
| "claim_ref (RemoveClaim _ _ r) = r"

fun is_event_ref :: "ProofRef \<Rightarrow> bool" where
  "is_event_ref (EventRef _ _) = True"
| "is_event_ref _ = False"

record RemovedMember =
  rm_did :: did
  rm_gen :: int
  rm_proofRef :: ProofRef

record ControllerBeacon =
  cbn_logLength :: js_number
  cbn_headDigest :: string

record ControllerProjection =
  cp_recordedLog :: "ControllerLog option"
  cp_genFloor :: int
  cp_timeFloor :: rat
  cp_attestations :: "(string, rat) js_map"
  cp_removedMembers :: "(string, RemovedMember) js_map"
  cp_survivorGrants :: "(did, string) js_map"
  cp_beacon :: "ControllerBeacon option"

definition controllerProjection :: ControllerProjection where
  "controllerProjection = \<lparr> cp_recordedLog = None, cp_genFloor = 0, cp_timeFloor = 0, cp_attestations = [],
     cp_removedMembers = [], cp_survivorGrants = [], cp_beacon = None \<rparr>"

text \<open>The folded device registry; \<^verbatim>\<open>reason\<close> has one value, \<^verbatim>\<open>reset\<close>.\<close>

datatype DeviceStatus = Active | Revoked

record DeviceRecord =
  dr_controller :: did
  dr_status :: DeviceStatus
  dr_label :: "string option"
  dr_proofRef :: "ProofRef option"
  dr_reset :: bool
  dr_cascadedFrom :: "did option"

record DeviceRegistry =
  rg_devices :: "(did, DeviceRecord) js_map"
  rg_controllers :: "(did, ControllerProjection) js_map"

section \<open>Errors\<close>

datatype LeafBindingReason =
    missing_holder_evidence | holder_evidence_mismatch | issuer_mismatch | audience_mismatch
  | permission_denied | signature_invalid | confirmation_invalid | subject_mismatch | chain_depth
  | self_issued | child_outlives_parent | denied_issuer | denied_id | renewal_order | lifetime_cap
  | leaf_generation_floor | identity_change | controller_mismatch | floating_refused | history_horizon
  | member_removed | member_unavailable | epoch_cap

datatype mls_error =
    RevokeProofError RevokeProofReason
  | LeafBindingError LeafBindingReason
  | PlainError string

section \<open>JavaScript list operations\<close>

text \<open>\<^verbatim>\<open>xs.at(-1)\<close>, \<^verbatim>\<open>xs[i]\<close> and \<^verbatim>\<open>xs.sort(compare)\<close>, which is stable.\<close>

fun last_of :: "'a list \<Rightarrow> 'a option" where
  "last_of [] = None"
| "last_of [x] = Some x"
| "last_of (_ # xs) = last_of xs"

definition nth_of :: "'a list \<Rightarrow> nat \<Rightarrow> 'a option" where
  "nth_of xs i = (if i < length xs then Some (xs ! i) else None)"

fun insert_by :: "('a \<Rightarrow> 'a \<Rightarrow> int) \<Rightarrow> 'a \<Rightarrow> 'a list \<Rightarrow> 'a list" where
  "insert_by cmp x [] = [x]"
| "insert_by cmp x (y # ys) = (if cmp x y \<le> 0 then x # y # ys else y # insert_by cmp x ys)"

definition sort_by :: "('a \<Rightarrow> 'a \<Rightarrow> int) \<Rightarrow> 'a list \<Rightarrow> 'a list" where
  "sort_by cmp xs = foldr (insert_by cmp) xs []"

lemma set_insert_by [simp]: "set (insert_by cmp x xs) = insert x (set xs)"
  by (induction xs) auto

lemma set_sort_by [simp]: "set (sort_by cmp xs) = set xs"
  by (induction xs) (auto simp: sort_by_def)

section \<open>Folding a log: controller-log.ts\<close>

definition CHAIN_REVOKE_REFUSED :: string where "CHAIN_REVOKE_REFUSED = ''chain revoke refused''"

definition asControllerLog :: "ChainEvent list \<Rightarrow> ControllerLog" where
  "asControllerLog chain = \<lparr> cl_chain = chain, cl_events = [] \<rparr>"

definition hasChainRevoke :: "ChainEvent list \<Rightarrow> bool" where
  "hasChainRevoke chain = (\<exists>e \<in> set chain. ce_t e = ''rev'')"

definition foldControllerLog :: "kokuin \<Rightarrow> did \<Rightarrow> ControllerLog \<Rightarrow> FoldResult" where
  "foldControllerLog K d lg =
     (if hasChainRevoke (cl_chain lg)
      then FoldFailed CHAIN_REVOKE_REFUSED (length (takeWhile (\<lambda>e. \<not> hasChainRevoke [e]) (cl_chain lg)))
      else foldLog K d lg)"

definition foldChain :: "kokuin \<Rightarrow> did \<Rightarrow> ChainEvent list \<Rightarrow> FoldResult" where
  "foldChain K d chain = foldControllerLog K d (asControllerLog chain)"

definition revokeIndices :: "kokuin \<Rightarrow> did \<Rightarrow> ChainEvent list \<Rightarrow> did \<Rightarrow> nat list" where
  "revokeIndices K d chain subject = deviceRevokeIndices K d chain subject"

text \<open>The steps a fold takes along its chain, with the states before and after each.\<close>

definition rot_step :: "ChainEvent list \<Rightarrow> KeyState list \<Rightarrow> nat \<Rightarrow> (KeyState \<times> KeyState) option" where
  "rot_step chain states i =
     (case (nth_of states (i - 1), nth_of states i) of
        (Some prior, Some state) \<Rightarrow>
          (if 0 < i \<and> map_option ce_t (nth_of chain i) = Some ''rot'' then Some (prior, state) else None)
      | _ \<Rightarrow> None)"

definition live_member :: "KeyState \<Rightarrow> string \<Rightarrow> bool" where
  "live_member state add = (case map_of (ks_members state) add of None \<Rightarrow> False | Some m \<Rightarrow> \<not> ms_removed m)"

definition has_tombstone :: "KeyState \<Rightarrow> string \<Rightarrow> bool" where
  "has_tombstone state add = (Option.bind (ks_tombstones state) (\<lambda>m. map_of m add) \<noteq> None)"

definition memberDropIndices :: "kokuin \<Rightarrow> did \<Rightarrow> ChainEvent list \<Rightarrow> string \<Rightarrow> nat list" where
  "memberDropIndices K d chain add = (case foldChain K d chain of
       FoldFailed _ _ \<Rightarrow> []
     | FoldDone folded \<Rightarrow>
         filter (\<lambda>i. case rot_step chain (fo_states folded) i of
             None \<Rightarrow> False
           | Some (prior, state) \<Rightarrow>
               ks_gen state = ks_gen prior \<and> live_member prior add \<and> map_of (ks_members state) add = None)
           [1..<length chain])"

definition memberTombstoneIndices :: "kokuin \<Rightarrow> did \<Rightarrow> ChainEvent list \<Rightarrow> string \<Rightarrow> did \<Rightarrow> nat list" where
  "memberTombstoneIndices K d chain add member = (case foldChain K d chain of
       FoldFailed _ _ \<Rightarrow> []
     | FoldDone folded \<Rightarrow>
         filter (\<lambda>i. case rot_step chain (fo_states folded) i of
             None \<Rightarrow> False
           | Some (prior, state) \<Rightarrow>
               ks_gen state = ks_gen prior \<and> \<not> has_tombstone prior add
               \<and> normalizeDID K (or_else (Option.bind (ks_tombstones state) (\<lambda>m. map_of m add)) '''')
                 = normalizeDID K member)
           [1..<length chain])"

text \<open>
  \<^verbatim>\<open>closureOf\<close> walks the applied events from the last to the first and keeps those a target needs.
\<close>

fun closure_walk :: "kokuin \<Rightarrow> string list \<Rightarrow> EpochEvent list \<Rightarrow> EpochEvent list" where
  "closure_walk K needed [] = []"
| "closure_walk K needed (e # events) =
     (if digestOfEvent K e \<in> set needed then e # closure_walk K (ee_p e @ needed) events
      else closure_walk K needed events)"

definition closureOf :: "kokuin \<Rightarrow> did \<Rightarrow> ControllerLog \<Rightarrow> string list \<Rightarrow> ControllerLog option" where
  "closureOf K d lg targets = (case foldControllerLog K d lg of
       FoldFailed _ _ \<Rightarrow> None
     | FoldDone folded \<Rightarrow>
         if ks_saturated (fo_head folded) then None
         else if \<not> set targets \<subseteq> set (fo_applied folded) then None
         else Some \<lparr> cl_chain = cl_chain lg,
                     cl_events = rev (closure_walk K targets (rev (cl_events (pruneLog K d lg)))) \<rparr>)"

definition isDetachedFoldReason :: "string \<Rightarrow> bool" where
  "isDetachedFoldReason reason \<longleftrightarrow> sublist ''sequence'' reason \<or> sublist ''digest'' reason"

section \<open>Ingesting a log: controller-ingest.ts\<close>

record IngestedControllerLog =
  ig_log :: ControllerLog
  ig_before :: "FoldOk option"
  ig_after :: FoldOk
  ig_introduced :: "string list"

definition recorded_fold :: "kokuin \<Rightarrow> did \<Rightarrow> ControllerLog option \<Rightarrow> RevokeProofReason + FoldOk option" where
  "recorded_fold K d recorded = (case recorded of
       None \<Rightarrow> Inr None
     | Some lg \<Rightarrow> (case foldControllerLog K d lg of
           FoldFailed _ _ \<Rightarrow> Inl not_authority_signed
         | FoldDone folded \<Rightarrow> Inr (Some folded)))"

text \<open>The chain a proof claims: its own from inception, or an extension of the recorded one.\<close>

definition joined_chain ::
  "ControllerLog option \<Rightarrow> FoldOk option \<Rightarrow> ControllerLog \<Rightarrow> RevokeProofReason + ChainEvent list" where
  "joined_chain recorded before proof = (case cl_chain proof of
       [] \<Rightarrow> (case recorded of None \<Rightarrow> Inl detached | Some lg \<Rightarrow> Inr (cl_chain lg))
     | first # _ \<Rightarrow>
         if ce_t first = ''icp'' then Inr (cl_chain proof)
         else (case recorded of
             None \<Rightarrow> Inl detached
           | Some lg \<Rightarrow>
               if ce_p first \<noteq> Option.bind before (\<lambda>b. map_option ks_digest (last_of (fo_states b)))
               then Inl detached
               else if \<exists>e \<in> set (cl_chain proof). (case before of None \<Rightarrow> 0 | Some b \<Rightarrow> ks_gen (fo_head b)) < ce_g e
               then Inl needs_reset
               else Inr (cl_chain lg @ cl_chain proof)))"

definition root_signed :: "ChainEvent list \<Rightarrow> bool" where
  "root_signed chain = (\<forall>e \<in> set chain. (ce_t e = ''icp'' \<or> ce_t e = ''rot'') \<and> \<not> ce_cap e)"

fun repeats_digest :: "KeyState list \<Rightarrow> bool" where
  "repeats_digest (a # b # states) \<longleftrightarrow> ks_digest b = ks_digest a \<or> repeats_digest (b # states)"
| "repeats_digest _ \<longleftrightarrow> False"

definition merge_authoritative ::
  "kokuin \<Rightarrow> did \<Rightarrow> ControllerLog option \<Rightarrow> ControllerLog \<Rightarrow> RevokeProofReason + ControllerLog \<times> FoldOk" where
  "merge_authoritative K d recorded joined =
     (case (case (case recorded of None \<Rightarrow> Inr joined | Some lg \<Rightarrow> mergeLogs K d lg joined) of
              Inl message \<Rightarrow> Inl message
            | Inr loaded \<Rightarrow> authoritativeLog K d loaded recorded) of
        Inr result \<Rightarrow> Inr result
      | Inl message \<Rightarrow>
          Inl (if sublist (LOG_FORKED K) message \<or> sublist (LOG_NOT_AUTHORITATIVE K) message
                  \<or> isDetachedFoldReason message
               then detached else not_authority_signed))"

text \<open>An author of a newly applied event was effective before, and is not a removed member.\<close>

definition unendorsed :: "kokuin \<Rightarrow> FoldOk option \<Rightarrow> ControllerProjection option \<Rightarrow> string list \<Rightarrow> EpochEvent \<Rightarrow> bool" where
  "unendorsed K before previous introduced e \<longleftrightarrow>
     isEpochEventShape K e \<and> digestOfEvent K e \<in> set introduced
     \<and> (case ee_by e of
          None \<Rightarrow> False
        | Some by \<Rightarrow>
            let author = Option.bind before (\<lambda>b. map_of (ks_members (fo_head b)) by);
                tombstone = Option.bind previous (\<lambda>p. map_of (cp_removedMembers p) by)
            in (case tombstone of
                  None \<Rightarrow> False
                | Some t \<Rightarrow> (case author of None \<Rightarrow> True
                     | Some a \<Rightarrow> normalizeDID K (rm_did t) = normalizeDID K (ms_did a)))
               \<or> (case author of None \<Rightarrow> False | Some a \<Rightarrow> ms_removed a \<or> \<not> ms_effective a))"

definition ingestControllerLog ::
  "kokuin \<Rightarrow> did \<Rightarrow> ControllerLog option \<Rightarrow> ControllerLog \<Rightarrow> ControllerProjection option
     \<Rightarrow> RevokeProofReason + IngestedControllerLog" where
  "ingestControllerLog K controller recorded proof previous =
     (let d = normalizeDID K controller in
      case recorded_fold K d recorded of
        Inl e \<Rightarrow> Inl e
      | Inr before \<Rightarrow>
     (case joined_chain recorded before proof of
        Inl e \<Rightarrow> Inl e
      | Inr chain \<Rightarrow>
      if \<not> root_signed chain then Inl not_authority_signed
      else (case foldControllerLog K d \<lparr> cl_chain = chain, cl_events = [] \<rparr> of
        FoldFailed reason _ \<Rightarrow> Inl (if isDetachedFoldReason reason then detached else not_authority_signed)
      | FoldDone folded \<Rightarrow>
      if repeats_digest (fo_states folded) then Inl not_authority_signed
      else if (case cl_chain proof of [] \<Rightarrow> False | first # _ \<Rightarrow> ce_t first = ''icp'')
        \<and> (case before of None \<Rightarrow> False | Some b \<Rightarrow> ks_gen (fo_head folded) \<le> ks_gen (fo_head b))
      then Inl detached
      else (case merge_authoritative K d recorded \<lparr> cl_chain = chain, cl_events = cl_events proof \<rparr> of
        Inl e \<Rightarrow> Inl e
      | Inr (lg, after) \<Rightarrow>
        (let applied = (case before of None \<Rightarrow> [] | Some b \<Rightarrow> fo_applied b);
             introduced = filter (\<lambda>digest. digest \<notin> set applied) (fo_applied after)
         in if \<exists>e \<in> set (cl_events proof). unendorsed K before previous introduced e then Inl not_endorsed
            else Inr \<lparr> ig_log = lg, ig_before = before, ig_after = after, ig_introduced = introduced \<rparr>)))))"

record EffectDelta =
  ed_denied :: "did list"
  ed_removed :: "(did \<times> string) list"
  ed_generation :: bool

definition denials_of :: "kokuin \<Rightarrow> KeyState option \<Rightarrow> did list" where
  "denials_of K state =
     remdups (map (normalizeDID K)
       (filter (prefix ''did:'') (case state of None \<Rightarrow> [] | Some s \<Rightarrow> ks_deny s)))"

definition effectDelta :: "kokuin \<Rightarrow> KeyState option \<Rightarrow> KeyState \<Rightarrow> EffectDelta" where
  "effectDelta K before after =
     (let prior = denials_of K before;
          lost = List.map_filter (\<lambda>(add, member).
            if \<not> ms_effective member then None
            else if (case map_of (ks_members after) add of None \<Rightarrow> False
                     | Some held \<Rightarrow> ms_effective held \<and> normalizeDID K (ms_did held) = normalizeDID K (ms_did member))
            then None
            else Some (normalizeDID K (ms_did member), add))
            (case before of None \<Rightarrow> [] | Some b \<Rightarrow> ks_members b)
      in \<lparr> ed_denied = sort (filter (\<lambda>d. d \<notin> set prior) (denials_of K (Some after))),
           ed_removed = sort_by (\<lambda>a b. let c = localeCompare K (fst a) (fst b)
                                       in if c \<noteq> 0 then c else localeCompare K (snd a) (snd b)) lost,
           ed_generation = (ks_gen after \<noteq> (case before of None \<Rightarrow> 0 | Some b \<Rightarrow> ks_gen b)) \<rparr>)"

end
