(* ===== verification/Member_Root.thy ===== *)
theory Member_Root
  imports Controller_Log
begin

text \<open>
  Who speaks for a controller, and what a log proves about it: \<^verbatim>\<open>mls/src/member-root.ts\<close>, with the
  reading of capability tokens from \<^verbatim>\<open>capability.ts\<close>. A token's payload is the JSON it decodes to, so that
  the checks the code makes on it are checks on a value of type \<^verbatim>\<open>unknown\<close>.
\<close>

section \<open>Capabilities\<close>

fun split_on :: "char \<Rightarrow> string \<Rightarrow> string list" where
  "split_on sep [] = [[]]"
| "split_on sep (c # cs) =
     (if c = sep then [] # split_on sep cs
      else (case split_on sep cs of p # ps \<Rightarrow> (c # p) # ps | [] \<Rightarrow> [[c]]))"

definition permission_part :: "json option \<Rightarrow> bool" where
  "permission_part v = (case v of
       Some (JStr _) \<Rightarrow> True
     | Some (JArr xs) \<Rightarrow> (\<forall>x \<in> set xs. case x of JStr _ \<Rightarrow> True | _ \<Rightarrow> False)
     | _ \<Rightarrow> False)"

definition readCapability :: "kokuin \<Rightarrow> string \<Rightarrow> mls_error + json" where
  "readCapability K raw = (case split_on CHR ''.'' raw of
       [header, payload, signature] \<Rightarrow>
         if header = '''' \<or> payload = '''' \<or> signature = '''' then Inl (PlainError ''Invalid capability encoding'')
         else (case (b64uToJSON K header, b64uToJSON K payload) of
           (Some h, Some claims) \<Rightarrow>
             if \<not> isSignedToken K h claims signature then Inl (PlainError ''Invalid signed capability'')
             else if str_field ''sub'' claims = None \<or> str_field ''aud'' claims = None
             then Inl (PlainError ''Invalid capability subject or audience'')
             else if \<not> permission_part (field ''act'' claims) \<or> \<not> permission_part (field ''res'' claims)
             then Inl (PlainError ''Invalid capability permission'')
             else Inr claims
         | _ \<Rightarrow> Inl (PlainError ''Invalid base64url JSON''))
     | _ \<Rightarrow> Inl (PlainError ''Invalid capability encoding''))"

definition claim_str :: "string \<Rightarrow> json \<Rightarrow> string" where
  "claim_str k claims = or_else (str_field k claims) ''''"

definition nullish :: "json option \<Rightarrow> bool" where
  "nullish v \<longleftrightarrow> v = None \<or> v = Some JNull"

definition assertCapabilityLifetime :: "json \<Rightarrow> rat \<Rightarrow> mls_error + unit" where
  "assertCapabilityLifetime payload maximum =
     (case (Option.bind (num_field ''iat'' payload) finite_of, Option.bind (num_field ''exp'' payload) finite_of) of
        (Some iat, Some expiry) \<Rightarrow>
          if expiry \<le> iat \<or> maximum < expiry - iat \<or> maximum \<le> 0 then Inl (LeafBindingError lifetime_cap)
          else if present ''nbf'' payload \<and> Option.bind (num_field ''nbf'' payload) finite_of = None
          then Inl (PlainError ''Invalid capability not-before claim'')
          else Inr ()
      | _ \<Rightarrow> Inl (LeafBindingError lifetime_cap))"

definition capabilityKey :: "kokuin \<Rightarrow> json \<Rightarrow> mls_error + bytes" where
  "capabilityKey K payload = (case field ''cnf'' payload of
       Some (JObj [(k, JStr kid)]) \<Rightarrow>
         if k \<noteq> ''kid'' then Inl (LeafBindingError confirmation_invalid)
         else (case tryDecodeKey K kid of
             Some (alg, key) \<Rightarrow> if alg = ''EdDSA'' then Inr key else Inl (PlainError ''Invalid capability confirmation key'')
           | None \<Rightarrow> Inl (PlainError ''Invalid capability confirmation key''))
     | _ \<Rightarrow> Inl (LeafBindingError confirmation_invalid))"

definition assertControllerGrant :: "kokuin \<Rightarrow> json \<Rightarrow> did \<Rightarrow> mls_error + unit" where
  "assertControllerGrant K payload controllerID =
     (if present ''mbr'' payload \<and> Option.bind (field ''mbr'' payload) member_claim = None
      then Inl (LeafBindingError issuer_mismatch)
      else if \<not> present ''mbr'' payload
        \<and> normalizeDID K (claim_str ''iss'' payload) \<noteq> normalizeDID K controllerID
      then Inl (LeafBindingError issuer_mismatch)
      else if normalizeDID K (claim_str ''sub'' payload) \<noteq> normalizeDID K controllerID
      then Inl (LeafBindingError subject_mismatch)
      else Inr ())"

section \<open>The roots of a leaf's authority\<close>

text \<open>
  A membership claim that is not a string with a number matches no incarnation and no generation, which
  \<open>None\<close> stands for.
\<close>

datatype MemberRoot = RootAuthority did | MemberAuthority did "string option" "int option"

datatype EvidenceSlot = CapabilitySlot | ParentSlot | HolderSlot | MembershipSlot | SurvivorSlot

definition tokenRoot :: "kokuin \<Rightarrow> did \<Rightarrow> json \<Rightarrow> MemberRoot" where
  "tokenRoot K controller claims =
     (if nullish (field ''mbr'' claims) then RootAuthority controller
      else MemberAuthority (claim_str ''iss'' claims)
        (Option.bind (field ''mbr'' claims) (str_field ''add''))
        (Option.bind (Option.bind (field ''mbr'' claims) (num_field ''g'')) integer_of))"

text \<open>\<^verbatim>\<open>cap\<close> is one parent token or a list of them, of which the first counts.\<close>

definition parent_token :: "json \<Rightarrow> json option" where
  "parent_token claims = (case field ''cap'' claims of
       Some (JArr []) \<Rightarrow> None
     | Some (JArr (x # _)) \<Rightarrow> (if x = JNull then None else Some x)
     | Some JNull \<Rightarrow> None
     | v \<Rightarrow> v)"

definition read_token :: "kokuin \<Rightarrow> did \<Rightarrow> json \<Rightarrow> mls_error + MemberRoot" where
  "read_token K controller token = (case token of
       JStr raw \<Rightarrow> map_sum (\<lambda>e. e) (tokenRoot K controller) (readCapability K raw)
     | _ \<Rightarrow> Inl (PlainError ''raw.split is not a function''))"

definition memberRootsOf ::
  "kokuin \<Rightarrow> ChainEvent ControllerBinding \<Rightarrow> did \<Rightarrow> mls_error + (EvidenceSlot \<times> MemberRoot) list" where
  "memberRootsOf K binding leafDID = (case cb_member binding of
       Some (add, g) \<Rightarrow> Inr [(MembershipSlot, MemberAuthority leafDID (Some add) (Some g))]
     | None \<Rightarrow>
        (case cb_capability binding of
           None \<Rightarrow> Inl (LeafBindingError controller_mismatch)
         | Some capability \<Rightarrow>
        (case readCapability K capability of
           Inl e \<Rightarrow> Inl e
         | Inr claims \<Rightarrow>
        (case (case parent_token claims of
                 None \<Rightarrow> Inr (CapabilitySlot, tokenRoot K (cb_id binding) claims)
               | Some parent \<Rightarrow> map_sum (\<lambda>e. e) (Pair ParentSlot) (read_token K (cb_id binding) parent)) of
           Inl e \<Rightarrow> Inl e
         | Inr first \<Rightarrow>
        (case cb_holderGrant binding of
           None \<Rightarrow> Inr [first]
         | Some grant \<Rightarrow>
            map_sum (\<lambda>e. e) (\<lambda>root. [first, (HolderSlot, root)]) (read_token K (cb_id binding) (JStr grant)))))))"

section \<open>What a log proves\<close>

text \<open>
  \<^verbatim>\<open>effectProofs\<close> indexes a log by the rotation that denied a DID, dropped a member or settled its removal.
  Each index is a function of the folded log; a key absent from the code's map has the empty list.
\<close>

definition denied_at :: "kokuin \<Rightarrow> KeyState \<Rightarrow> did \<Rightarrow> bool" where
  "denied_at K state target \<longleftrightarrow> target \<in> normalizeDID K ` set (ks_deny state)"

definition rootOnly :: "ChainEvent list \<Rightarrow> bool" where
  "rootOnly chain = (case chain of [] \<Rightarrow> True | first # rest \<Rightarrow> ce_t first = ''icp'' \<and> (\<forall>e \<in> set rest. ce_t e = ''rot''))"

definition rot_indices :: "ControllerLog \<Rightarrow> FoldOk \<Rightarrow> (KeyState \<Rightarrow> KeyState \<Rightarrow> bool) \<Rightarrow> nat list" where
  "rot_indices lg folded P =
     filter (\<lambda>i. case rot_step (cl_chain lg) (fo_states folded) i of None \<Rightarrow> False | Some (prior, state) \<Rightarrow> P prior state)
       [1..<length (fo_states folded)]"

definition snapshots_of :: "kokuin \<Rightarrow> ControllerLog \<Rightarrow> FoldOk \<Rightarrow> did \<Rightarrow> nat list" where
  "snapshots_of K lg folded target =
     rot_indices lg folded (\<lambda>prior state. denied_at K state target \<and> ks_gen prior < ks_gen state)"

definition revokes_of :: "kokuin \<Rightarrow> ControllerLog \<Rightarrow> FoldOk \<Rightarrow> did \<Rightarrow> nat list" where
  "revokes_of K lg folded target =
     (if \<not> rootOnly (cl_chain lg) then []
      else rot_indices lg folded (\<lambda>prior state. denied_at K state target \<and> ks_gen state = ks_gen prior
             \<and> \<not> denied_at K prior target))"

definition drops_of :: "ControllerLog \<Rightarrow> FoldOk \<Rightarrow> string \<Rightarrow> nat list" where
  "drops_of lg folded add =
     rot_indices lg folded (\<lambda>prior state. ks_gen state = ks_gen prior \<and> live_member prior add
       \<and> map_of (ks_members state) add = None)"

definition tombstones_of :: "ControllerLog \<Rightarrow> FoldOk \<Rightarrow> string \<Rightarrow> nat list" where
  "tombstones_of lg folded add =
     rot_indices lg folded (\<lambda>prior state. ks_gen state = ks_gen prior \<and> has_tombstone state add
       \<and> \<not> has_tombstone prior add)"

text \<open>A JavaScript \<^verbatim>\<open>Map\<close> built from pairs: the last value of a key counts, at the first one's place.\<close>

definition js_map_of :: "('k \<times> 'v) list \<Rightarrow> ('k, 'v) js_map" where
  "js_map_of ps = fold (\<lambda>(k, v). AList.update k v) ps []"

definition events_by_digest :: "kokuin \<Rightarrow> ControllerLog \<Rightarrow> (string, EpochEvent) js_map" where
  "events_by_digest K lg = js_map_of (map (\<lambda>e. (digestOfEvent K e, e)) (cl_events lg))"

text \<open>The fold of the log up to the state an epoch is anchored at; \<open>None\<close> where no state anchors it.\<close>

definition viewAt :: "kokuin \<Rightarrow> did \<Rightarrow> ControllerLog \<Rightarrow> FoldOk \<Rightarrow> string option \<Rightarrow> FoldResult option" where
  "viewAt K d lg folded epoch = (case epoch of
       None \<Rightarrow> Some (FoldDone folded)
     | Some e \<Rightarrow>
         if e = ks_epoch (fo_head folded) then Some (FoldDone folded)
         else (case map_of (js_map_of (zip (map ks_digest (fo_states folded)) [0..<length (fo_states folded)])) e of
             None \<Rightarrow> None
           | Some anchor \<Rightarrow>
               Some (foldControllerLog K d \<lparr> cl_chain = take (anchor + 1) (cl_chain lg), cl_events = cl_events lg \<rparr>)))"

definition check_event_effect ::
  "kokuin \<Rightarrow> did \<Rightarrow> ControllerLog \<Rightarrow> FoldOk \<Rightarrow> EffectClaim \<Rightarrow> int \<Rightarrow> string \<Rightarrow> string option
     \<Rightarrow> RevokeProofReason + unit" where
  "check_event_effect K d lg current claim genFloor digest epoch =
     (case viewAt K d lg current epoch of
        None \<Rightarrow> Inl no_rev
      | Some (FoldFailed _ _) \<Rightarrow> Inl effects_mismatch
      | Some (FoldDone folded) \<Rightarrow>
     (case map_of (events_by_digest K lg) digest of
        None \<Rightarrow> Inl no_rev
      | Some event \<Rightarrow>
        if digest \<notin> set (fo_applied folded) then Inl effects_mismatch
        else if ee_g event < genFloor then Inl generation_floor
        else (case claim of
            DenyClaim target _ \<Rightarrow>
              if ee_t event \<noteq> ''rev'' \<or> normalizeDID K (ee_x event) \<noteq> normalizeDID K target then Inl effects_mismatch
              else Inr ()
          | RemoveClaim target add _ \<Rightarrow>
              (case map_of (ks_members (fo_head folded)) add of
                 None \<Rightarrow> Inl effects_mismatch
               | Some member \<Rightarrow>
                   if ee_t event \<noteq> ''rmv'' \<or> ee_add event \<noteq> add
                     \<or> normalizeDID K (ms_did member) \<noteq> normalizeDID K target
                   then Inl effects_mismatch else Inr ()))))"

definition check_chain_effect ::
  "kokuin \<Rightarrow> ControllerLog \<Rightarrow> FoldOk \<Rightarrow> EffectClaim \<Rightarrow> int \<Rightarrow> nat \<Rightarrow> RevokeProofReason + unit" where
  "check_chain_effect K lg folded claim genFloor index =
     (case rot_step (cl_chain lg) (fo_states folded) index of
        None \<Rightarrow> Inl no_rev
      | Some (prior, state) \<Rightarrow>
        (case (case (claim_ref claim, claim) of
             (Snapshot _, DenyClaim target _) \<Rightarrow>
               if ks_gen state \<le> ks_gen prior \<or> \<not> denied_at K state (normalizeDID K target)
               then Inl effects_mismatch else Inr ()
           | (Snapshot _, _) \<Rightarrow> Inl effects_mismatch
           | (_, DenyClaim target _) \<Rightarrow>
               if index \<notin> set (revokes_of K lg folded (normalizeDID K target)) then Inl no_rev else Inr ()
           | (_, RemoveClaim target add _) \<Rightarrow>
               if (case map_of (ks_members prior) add of None \<Rightarrow> False
                   | Some m \<Rightarrow> normalizeDID K (ms_did m) \<noteq> normalizeDID K target) then Inl effects_mismatch
               else if index \<in> set (drops_of lg folded add) then Inr ()
               else (case Option.bind (ks_tombstones state) (\<lambda>m. map_of m add) of
                   None \<Rightarrow> Inl no_rev
                 | Some tombstone \<Rightarrow>
                     if index \<notin> set (tombstones_of lg folded add) then Inl no_rev
                     else if normalizeDID K tombstone \<noteq> normalizeDID K target then Inl effects_mismatch
                     else Inr ())) of
           Inl e \<Rightarrow> Inl e
         | Inr _ \<Rightarrow> if ks_gen state < genFloor then Inl generation_floor else Inr ()))"

definition checkEffect ::
  "kokuin \<Rightarrow> did \<Rightarrow> ControllerLog \<Rightarrow> FoldOk \<Rightarrow> EffectClaim \<Rightarrow> int \<Rightarrow> RevokeProofReason + unit" where
  "checkEffect K d lg folded claim genFloor = (case claim_ref claim of
       EventRef digest epoch \<Rightarrow> check_event_effect K d lg folded claim genFloor digest epoch
     | Snapshot i \<Rightarrow> check_chain_effect K lg folded claim genFloor i
     | ChainIndex i \<Rightarrow> check_chain_effect K lg folded claim genFloor i)"

text \<open>
  \<^verbatim>\<open>claimsFor\<close> derives the effects a log has over the recorded one, each with a reference that proves it.
  A target is an effect without its reference.
\<close>

datatype EffectTarget = DenyTarget did | RemoveTarget did string

fun with_ref :: "EffectTarget \<Rightarrow> ProofRef \<Rightarrow> EffectClaim" where
  "with_ref (DenyTarget d) r = DenyClaim d r"
| "with_ref (RemoveTarget d add) r = RemoveClaim d add r"

definition event_claim ::
  "kokuin \<Rightarrow> did \<Rightarrow> ControllerLog \<Rightarrow> FoldOk \<Rightarrow> string \<times> EpochEvent \<Rightarrow> (string \<times> EffectClaim \<times> int) option" where
  "event_claim K d lg after de =
     (let (digest, event) = de in
      if ee_t event \<noteq> ''rev'' \<and> ee_t event \<noteq> ''rmv'' then None
      else (case viewAt K d lg after (Some (ee_e event)) of
         Some (FoldDone view) \<Rightarrow>
           if digest \<notin> set (fo_applied view) then None
           else (let ref = EventRef digest (if ee_e event = ks_epoch (fo_head after) then None else Some (ee_e event))
                 in if ee_t event = ''rev''
                    then Some (''deny:'' @ normalizeDID K (ee_x event), DenyClaim (normalizeDID K (ee_x event)) ref, ee_g event)
                    else (case map_of (ks_members (fo_head view)) (ee_add event) of
                        None \<Rightarrow> None
                      | Some member \<Rightarrow>
                          Some (''remove:'' @ ee_add event,
                                RemoveClaim (normalizeDID K (ms_did member)) (ee_add event) ref, ee_g event)))
       | _ \<Rightarrow> None))"

definition eventClaims ::
  "kokuin \<Rightarrow> did \<Rightarrow> ControllerLog \<Rightarrow> FoldOk \<Rightarrow> string \<Rightarrow> (EffectClaim \<times> int) list" where
  "eventClaims K d lg after target =
     map snd (filter (\<lambda>(t, _). t = target)
       (List.map_filter (event_claim K d lg after) (events_by_digest K lg)))"

definition removed_targets ::
  "kokuin \<Rightarrow> ControllerLog \<Rightarrow> FoldOk option \<Rightarrow> FoldOk \<Rightarrow> (did \<times> string) list \<Rightarrow> (string, did) js_map" where
  "removed_targets K lg before after delta =
     (let base = js_map_of (map (\<lambda>(d, add). (add, d)) delta)
      in if before \<noteq> None then base
         else fold (\<lambda>state held. fold (\<lambda>(add, member) held.
                if (case map_of (ks_members (fo_head after)) add of None \<Rightarrow> False | Some m \<Rightarrow> ms_effective m) then held
                else if ms_removed member \<or> drops_of lg after add \<noteq> []
                then AList.update add (normalizeDID K (ms_did member)) held
                else held) (ks_members state) held) (fo_states after @ [fo_head after]) base)"

definition at_floor :: "FoldOk \<Rightarrow> int \<Rightarrow> nat \<Rightarrow> bool" where
  "at_floor folded low i \<longleftrightarrow> low \<le> (case nth_of (fo_states folded) i of None \<Rightarrow> -1 | Some s \<Rightarrow> ks_gen s)"

definition chain_ref ::
  "kokuin \<Rightarrow> ControllerLog \<Rightarrow> FoldOk \<Rightarrow> int \<Rightarrow> EffectTarget \<Rightarrow> ProofRef option" where
  "chain_ref K lg after low target = (case target of
       DenyTarget d \<Rightarrow>
         (case find (at_floor after low) (revokes_of K lg after d) of
            Some i \<Rightarrow> Some (ChainIndex i)
          | None \<Rightarrow> map_option Snapshot (find (at_floor after low) (snapshots_of K lg after d)))
     | RemoveTarget _ add \<Rightarrow>
         (case find (at_floor after low) (drops_of lg after add) of
            Some i \<Rightarrow> Some (ChainIndex i)
          | None \<Rightarrow> map_option ChainIndex (find (at_floor after low) (tombstones_of lg after add))))"

text \<open>A generation change or a denial ends a membership without a proof of its own.\<close>

definition needs_no_proof ::
  "kokuin \<Rightarrow> ControllerLog \<Rightarrow> FoldOk option \<Rightarrow> FoldOk \<Rightarrow> (EffectClaim \<times> int) list \<Rightarrow> EffectTarget \<Rightarrow> bool" where
  "needs_no_proof K lg before after events target = (case (target, before) of
       (RemoveTarget d add, Some b) \<Rightarrow>
         \<not> (case map_of (ks_members (fo_head after)) add of None \<Rightarrow> False | Some m \<Rightarrow> ms_removed m)
         \<and> drops_of lg after add = [] \<and> events = []
         \<and> (ks_gen (fo_head b) \<noteq> ks_gen (fo_head after) \<or> denied_at K (fo_head after) (normalizeDID K d))
     | _ \<Rightarrow> False)"

fun target_key :: "EffectTarget \<Rightarrow> string" where
  "target_key (DenyTarget d) = ''deny:'' @ d"
| "target_key (RemoveTarget _ add) = ''remove:'' @ add"

fun claim_did :: "EffectClaim \<Rightarrow> did" where
  "claim_did (DenyClaim d _) = d"
| "claim_did (RemoveClaim d _ _) = d"

definition prove_target ::
  "kokuin \<Rightarrow> did \<Rightarrow> ControllerLog \<Rightarrow> FoldOk option \<Rightarrow> FoldOk \<Rightarrow> int \<Rightarrow> EffectTarget
     \<Rightarrow> RevokeProofReason + EffectClaim option" where
  "prove_target K d lg before after genFloor target =
     (let low = (case target of DenyTarget _ \<Rightarrow> max genFloor (ks_gen (fo_head after)) | _ \<Rightarrow> genFloor);
          events = eventClaims K d lg after (target_key target);
          proved = (\<lambda>claim. case checkEffect K d lg after claim low of Inl e \<Rightarrow> Inl e | Inr _ \<Rightarrow> Inr (Some claim))
      in case find (\<lambda>(candidate, gen). low \<le> gen \<and> (case target of DenyTarget _ \<Rightarrow> True
                     | RemoveTarget t _ \<Rightarrow> claim_did candidate = t)) events of
           Some (candidate, _) \<Rightarrow> proved candidate
         | None \<Rightarrow>
             (case chain_ref K lg after low target of
                Some ref \<Rightarrow> proved (with_ref target ref)
              | None \<Rightarrow> if needs_no_proof K lg before after events target then Inr None else Inl no_rev))"

fun prove_targets ::
  "(EffectTarget \<Rightarrow> RevokeProofReason + EffectClaim option) \<Rightarrow> EffectTarget list \<Rightarrow> RevokeProofReason + EffectClaim list" where
  "prove_targets prove [] = Inr []"
| "prove_targets prove (t # ts) = (case prove t of
       Inl e \<Rightarrow> Inl e
     | Inr claim \<Rightarrow> (case prove_targets prove ts of
           Inl e \<Rightarrow> Inl e
         | Inr claims \<Rightarrow> Inr ((case claim of None \<Rightarrow> [] | Some c \<Rightarrow> [c]) @ claims)))"

definition foldedLog :: "kokuin \<Rightarrow> did \<Rightarrow> ControllerLog \<Rightarrow> RevokeProofReason + FoldOk" where
  "foldedLog K d lg = (case foldControllerLog K d lg of FoldFailed _ _ \<Rightarrow> Inl effects_mismatch | FoldDone f \<Rightarrow> Inr f)"

definition claimsWithProofs ::
  "kokuin \<Rightarrow> did \<Rightarrow> ControllerLog option \<Rightarrow> ControllerLog \<Rightarrow> int \<Rightarrow> FoldOk \<Rightarrow> RevokeProofReason + EffectClaim list" where
  "claimsWithProofs K d recorded merged genFloor after =
     (case (case recorded of None \<Rightarrow> Inr None | Some r \<Rightarrow> map_sum (\<lambda>e. e) Some (foldedLog K d r)) of
        Inl e \<Rightarrow> Inl e
      | Inr before \<Rightarrow>
        (let delta = effectDelta K (map_option fo_head before) (fo_head after);
             removed = sort_key fst (removed_targets K merged before after (ed_removed delta))
         in prove_targets (prove_target K d merged before after genFloor)
              (map DenyTarget (ed_denied delta) @ map (\<lambda>(add, t). RemoveTarget t add) removed)))"

definition claimsFor ::
  "kokuin \<Rightarrow> did \<Rightarrow> ControllerLog option \<Rightarrow> ControllerLog \<Rightarrow> int \<Rightarrow> RevokeProofReason + EffectClaim list" where
  "claimsFor K controller recorded merged genFloor =
     (let d = normalizeDID K controller in
      case foldedLog K d merged of
        Inl e \<Rightarrow> Inl e
      | Inr after \<Rightarrow> claimsWithProofs K d recorded merged genFloor after)"

text \<open>Every effect \<^verbatim>\<open>claimsFor\<close> derives is one \<^verbatim>\<open>checkEffect\<close> accepts at the floor.\<close>

lemma prove_targets_all:
  "prove_targets prove ts = Inr claims \<Longrightarrow> c \<in> set claims \<Longrightarrow> \<exists>t \<in> set ts. prove t = Inr (Some c)"
  by (induction ts arbitrary: claims) (force split: sum.splits option.splits)+

end
