(* ===== verification/Member_Authority.thy ===== *)
theory Member_Authority
  imports Member_Root
begin

text \<open>
  The standing of a root of authority under a registry, the authority a leaf still has, and the leaves an
  effect takes with it: the second half of \<^verbatim>\<open>mls/src/member-root.ts\<close>. \<^verbatim>\<open>projectionFold\<close> keeps a memo per
  projection and returns what the fold returns; the memo is left out.
\<close>

datatype unavailable_why = no_log | saturated | unknown_incarnation | prefix_unfolded

datatype MemberRootStatus = RootStatus | Effective bytes rat | RemovedStatus | Unavailable unavailable_why

definition projection_of :: "kokuin \<Rightarrow> DeviceRegistry \<Rightarrow> did \<Rightarrow> ControllerProjection option" where
  "projection_of K registry controller = map_of (rg_controllers registry) (normalizeDID K controller)"

definition gen_floor :: "ControllerProjection option \<Rightarrow> int" where
  "gen_floor p = (case p of None \<Rightarrow> 0 | Some c \<Rightarrow> cp_genFloor c)"

definition projectionFold :: "kokuin \<Rightarrow> did \<Rightarrow> ControllerProjection option \<Rightarrow> FoldResult option" where
  "projectionFold K d projection =
     map_option (foldControllerLog K d) (Option.bind projection cp_recordedLog)"

definition is_removed_member :: "ControllerProjection option \<Rightarrow> string \<Rightarrow> bool" where
  "is_removed_member p add = (Option.bind p (\<lambda>c. map_of (cp_removedMembers c) add) \<noteq> None)"

definition effectiveAttestingMembers ::
  "KeyState option \<Rightarrow> ControllerProjection option \<Rightarrow> rat option \<Rightarrow> (string \<times> MemberState) list" where
  "effectiveAttestingMembers head projection time = (case head of
       None \<Rightarrow> []
     | Some h \<Rightarrow>
         if ks_saturated h \<or> ks_gen h < gen_floor projection then []
         else filter (\<lambda>(add, member). ms_effective member \<and> \<not> ms_removed member
                \<and> \<not> is_removed_member projection add
                \<and> (case time of None \<Rightarrow> True | Some t \<Rightarrow> t \<le> ms_lease member)) (ks_members h))"

definition memberRootStatus :: "kokuin \<Rightarrow> DeviceRegistry \<Rightarrow> did \<Rightarrow> MemberRoot \<Rightarrow> MemberRootStatus" where
  "memberRootStatus K registry controller rt = (case rt of
       RootAuthority _ \<Rightarrow> RootStatus
     | MemberAuthority d add g \<Rightarrow>
        (let controller = normalizeDID K controller;
             projection = map_of (rg_controllers registry) controller
         in if (case add of None \<Rightarrow> False | Some a \<Rightarrow> is_removed_member projection a) then RemovedStatus
            else (case projectionFold K controller projection of
                None \<Rightarrow> Unavailable no_log
              | Some (FoldFailed _ _) \<Rightarrow> Unavailable prefix_unfolded
              | Some (FoldDone folded) \<Rightarrow>
                  if g \<noteq> Some (ks_gen (fo_head folded)) \<or> ks_gen (fo_head folded) < gen_floor projection then RemovedStatus
                  else if ks_saturated (fo_head folded) then Unavailable saturated
                  else (case Option.bind add (map_of (ks_members (fo_head folded))) of
                      None \<Rightarrow> Unavailable unknown_incarnation
                    | Some member \<Rightarrow>
                        if ms_removed member \<or> \<not> ms_effective member
                          \<or> normalizeDID K (ms_did member) \<noteq> normalizeDID K d
                        then RemovedStatus
                        else Effective (decodeKey K (ms_key member)) (ms_lease member)))))"

fun is_effective :: "MemberRootStatus \<Rightarrow> bool" where
  "is_effective RootStatus = True"
| "is_effective (Effective _ _) = True"
| "is_effective _ = False"

record LeafRef =
  lf_did :: did
  lf_binding :: "ChainEvent ControllerBinding"
  lf_leafKey :: bytes
  lf_leafIndex :: nat

definition substituteRoot :: "kokuin \<Rightarrow> string \<Rightarrow> LeafRef \<Rightarrow> MemberRoot option" where
  "substituteRoot K raw leaf = (case readCapability K raw of
       Inl _ \<Rightarrow> None
     | Inr claims \<Rightarrow> (case capabilityKey K claims of
           Inl _ \<Rightarrow> None
         | Inr key \<Rightarrow>
             if normalizeDID K (claim_str ''aud'' claims) \<noteq> normalizeDID K (lf_did leaf) \<or> key \<noteq> lf_leafKey leaf
             then None else Some (tokenRoot K (cb_id (lf_binding leaf)) claims)))"

datatype EffectiveAuthority =
    Authority MemberRoot EvidenceSlot "json option"
  | AuthorityRemoved
  | AuthorityUnavailable

text \<open>The first substitute grant that still names a standing root, in the order they are tried.\<close>

fun try_substitutes ::
  "kokuin \<Rightarrow> DeviceRegistry \<Rightarrow> did \<Rightarrow> LeafRef \<Rightarrow> (EvidenceSlot \<times> string option) list \<Rightarrow> EffectiveAuthority" where
  "try_substitutes K registry controller leaf [] = AuthorityRemoved"
| "try_substitutes K registry controller leaf ((slot, raw) # rest) =
     (case Option.bind raw (\<lambda>r. substituteRoot K r leaf) of
        None \<Rightarrow> try_substitutes K registry controller leaf rest
      | Some rt \<Rightarrow>
          if is_effective (memberRootStatus K registry controller rt)
          then Authority rt slot (case raw of None \<Rightarrow> None
                 | Some r \<Rightarrow> (case readCapability K r of Inl _ \<Rightarrow> None | Inr claims \<Rightarrow> field ''exp'' claims))
          else try_substitutes K registry controller leaf rest)"

text \<open>A leaf's embedded prefix must be a prefix of the recorded chain, event by event.\<close>

definition off_chain :: "kokuin \<Rightarrow> ChainEvent list \<Rightarrow> ChainEvent list \<Rightarrow> bool" where
  "off_chain K chain embedded \<longleftrightarrow>
     \<not> prefix (map (digestOfChain K) embedded) (map (digestOfChain K) chain)"

definition effectiveAuthorityOf ::
  "kokuin \<Rightarrow> LeafRef \<Rightarrow> DeviceRegistry \<Rightarrow> did \<Rightarrow> mls_error + EffectiveAuthority" where
  "effectiveAuthorityOf K leaf registry controller =
     (let d = normalizeDID K controller; binding = lf_binding leaf in
      if normalizeDID K (cb_id binding) \<noteq> d then Inr AuthorityUnavailable
      else (case memberRootsOf K binding (lf_did leaf) of
        Inl e \<Rightarrow> Inl e
      | Inr [] \<Rightarrow> Inr AuthorityUnavailable
      | Inr ((slot, rt) # more_roots) \<Rightarrow>
        (let status = memberRootStatus K registry d rt;
             projection = map_of (rg_controllers registry) d
         in if (case Option.bind projection cp_recordedLog of None \<Rightarrow> False
                | Some lg \<Rightarrow> off_chain K (cl_chain lg) (cb_prefix binding))
            then Inr (if status = RemovedStatus then AuthorityRemoved else AuthorityUnavailable)
            else if is_effective status
            then Inr (case find (\<lambda>(s, _). s = HolderSlot) ((slot, rt) # more_roots) of
                None \<Rightarrow> Authority rt slot None
              | Some (_, holder) \<Rightarrow>
                  (case memberRootStatus K registry d holder of
                     RemovedStatus \<Rightarrow> AuthorityRemoved
                   | Unavailable _ \<Rightarrow> AuthorityUnavailable
                   | _ \<Rightarrow> Authority rt slot None))
            else if status \<noteq> RemovedStatus then Inr AuthorityUnavailable
            else Inr (try_substitutes K registry d leaf
                [(HolderSlot, cb_holderGrant binding),
                 (SurvivorSlot, Option.bind projection (\<lambda>p. map_of (cp_survivorGrants p) (normalizeDID K (lf_did leaf))))]))))"

section \<open>The cascade\<close>

record RevokedEffect =
  re_did :: did
  re_cascadedFrom :: "did option"

record RemovedEffect =
  rme_did :: did
  rme_cascadedFrom :: did

record Cascade =
  cs_revoked :: "RevokedEffect list"
  cs_removed :: "RemovedEffect list"
  cs_removeLeafIndices :: "nat list"

definition direct_denials :: "kokuin \<Rightarrow> EffectClaim list \<Rightarrow> did list" where
  "direct_denials K claims = List.map_filter (\<lambda>c. case c of DenyClaim d _ \<Rightarrow> Some (normalizeDID K d) | _ \<Rightarrow> None) claims"

text \<open>The DID that issued a chained capability: a capability with a \<^verbatim>\<open>cap\<close> of its own.\<close>

definition chain_issuer :: "kokuin \<Rightarrow> ChainEvent ControllerBinding \<Rightarrow> mls_error + did option" where
  "chain_issuer K binding = (case cb_capability binding of
       None \<Rightarrow> Inr None
     | Some raw \<Rightarrow> (case readCapability K raw of
           Inl e \<Rightarrow> Inl e
         | Inr claims \<Rightarrow> Inr (if nullish (field ''cap'' claims) then None
                              else Some (normalizeDID K (claim_str ''iss'' claims)))))"

definition removed_root :: "kokuin \<Rightarrow> DeviceRegistry \<Rightarrow> did \<Rightarrow> MemberRoot list \<Rightarrow> did option" where
  "removed_root K after controller roots =
     (case find (\<lambda>r. case r of MemberAuthority _ _ _ \<Rightarrow> memberRootStatus K after controller r = RemovedStatus
                     | RootAuthority _ \<Rightarrow> False) roots of
        Some (MemberAuthority d _ _) \<Rightarrow> Some d
      | _ \<Rightarrow> None)"

definition evidenced ::
  "kokuin \<Rightarrow> did list \<Rightarrow> DeviceRegistry \<Rightarrow> did \<Rightarrow> LeafRef \<Rightarrow> EffectiveAuthority \<Rightarrow> bool" where
  "evidenced K direct after controller leaf authority \<longleftrightarrow>
     normalizeDID K (lf_did leaf) \<notin> set direct
     \<and> map_option dr_status (map_of (rg_devices after) (normalizeDID K (lf_did leaf))) \<noteq> Some Revoked
     \<and> ((case Option.bind (cb_holderGrant (lf_binding leaf)) (\<lambda>raw. substituteRoot K raw leaf) of
           None \<Rightarrow> False
         | Some rt \<Rightarrow> is_effective (memberRootStatus K after controller rt))
        \<or> (case authority of Authority _ slot _ \<Rightarrow> slot = SurvivorSlot | _ \<Rightarrow> False))"

text \<open>One leaf of the loop, with the DIDs affected so far and the effects found so far.\<close>

definition cascade_leaf ::
  "kokuin \<Rightarrow> did list \<Rightarrow> DeviceRegistry \<Rightarrow> DeviceRegistry \<Rightarrow> did \<Rightarrow> LeafRef \<Rightarrow> did list \<times> Cascade
     \<Rightarrow> mls_error + did list \<times> Cascade" where
  "cascade_leaf K direct before after controller leaf st =
     (let (affected, c) = st; d = normalizeDID K (lf_did leaf); binding = lf_binding leaf in
      if normalizeDID K (cb_id binding) \<noteq> normalizeDID K controller then Inr (affected, c)
      else (case chain_issuer K binding of
        Inl e \<Rightarrow> Inl e
      | Inr issuer \<Rightarrow>
      (case effectiveAuthorityOf K leaf after controller of
        Inl e \<Rightarrow> Inl e
      | Inr authority \<Rightarrow>
        (let cascades = (case issuer of None \<Rightarrow> False
               | Some i \<Rightarrow> i \<in> set direct \<and> d \<notin> set direct \<and> \<not> evidenced K direct after controller leaf authority);
             c = (if cascades \<and> d \<notin> set affected
                  then c \<lparr> cs_revoked := cs_revoked c @ [\<lparr> re_did = d, re_cascadedFrom = issuer \<rparr>] \<rparr> else c);
             affected = (if cascades then d # affected else affected)
         in if d \<in> set affected
            then Inr (affected, c \<lparr> cs_removeLeafIndices := cs_removeLeafIndices c @ [lf_leafIndex leaf] \<rparr>)
            else if authority \<noteq> AuthorityRemoved then Inr (affected, c)
            else (case (effectiveAuthorityOf K leaf before controller, memberRootsOf K binding (lf_did leaf)) of
                (Inl e, _) \<Rightarrow> Inl e
              | (_, Inl e) \<Rightarrow> Inl e
              | (Inr prior, Inr roots) \<Rightarrow>
                  (let candidates = (case prior of Authority r _ _ \<Rightarrow> [r] | _ \<Rightarrow> []) @ map snd roots
                   in Inr (case removed_root K after controller candidates of
                       None \<Rightarrow> (affected, c)
                     | Some from_did \<Rightarrow>
                         (affected, c \<lparr> cs_removed := cs_removed c @
                                          [\<lparr> rme_did = d, rme_cascadedFrom = normalizeDID K from_did \<rparr>],
                                        cs_removeLeafIndices := cs_removeLeafIndices c @ [lf_leafIndex leaf] \<rparr>))))))))"

fun cascade_leaves ::
  "(LeafRef \<Rightarrow> did list \<times> Cascade \<Rightarrow> mls_error + did list \<times> Cascade) \<Rightarrow> LeafRef list \<Rightarrow> did list \<times> Cascade
     \<Rightarrow> mls_error + did list \<times> Cascade" where
  "cascade_leaves step [] st = Inr st"
| "cascade_leaves step (leaf # leaves) st = (case step leaf st of Inl e \<Rightarrow> Inl e | Inr st \<Rightarrow> cascade_leaves step leaves st)"

definition cascadeOf ::
  "kokuin \<Rightarrow> LeafRef list \<Rightarrow> EffectClaim list \<Rightarrow> DeviceRegistry \<Rightarrow> DeviceRegistry \<Rightarrow> did \<Rightarrow> mls_error + Cascade" where
  "cascadeOf K leaves claims before after controller =
     (let direct = direct_denials K claims
      in map_sum (\<lambda>e. e) snd (cascade_leaves (cascade_leaf K direct before after controller) leaves
           (direct, \<lparr> cs_revoked = map (\<lambda>d. \<lparr> re_did = d, re_cascadedFrom = None \<rparr>) direct,
                      cs_removed = [], cs_removeLeafIndices = [] \<rparr>)))"

end
