(* ===== verification/Device_Value.thy ===== *)
theory Device_Value
  imports Member_Authority
begin

text \<open>
  The value of a \<^verbatim>\<open>kumiai.device\<close> entry and the guard that admits it: \<^verbatim>\<open>isDeviceValue\<close> of
  \<^verbatim>\<open>mls/src/registry.ts\<close> as a test on JSON, and \<open>DeviceValue\<close> as the typed reading of a value that passed.
  The code casts after the guard; here the reading is a function, and \<open>device_value_typed\<close> shows that the
  casts are right.
\<close>

definition DEVICE_ENTRY_TYPE :: string where "DEVICE_ENTRY_TYPE = ''kumiai.device''"

datatype DeviceOp = Register | Add | Revoke | Label | Beacon | Reset | Clock | Log | Seed

definition parse_op :: "string \<Rightarrow> DeviceOp option" where
  "parse_op s = map_of [(''register'', Register), (''add'', Add), (''revoke'', Revoke), (''label'', Label),
     (''beacon'', Beacon), (''reset'', Reset), (''clock'', Clock), (''log'', Log), (''seed'', Seed)] s"

record DeviceValue =
  dv_op :: DeviceOp
  dv_controller :: "did option"
  dv_label :: "string option"
  dv_capability :: "string option"
  dv_proof :: "ControllerLog option"
  dv_effects :: "EffectClaim list option"
  dv_removed :: "RemovedEffect list option"
  dv_survivors :: "string list option"
  dv_revoked :: "RevokedEffect list option"
  dv_time :: "rat option"
  dv_attest :: bool
  dv_logLength :: "js_number option"
  dv_headDigest :: "string option"

section \<open>The parts of a value\<close>

definition optional_str :: "string \<Rightarrow> json \<Rightarrow> bool" where
  "optional_str k v \<longleftrightarrow> (if present k v then str_field k v \<noteq> None else True)"

definition revoked_effect :: "json \<Rightarrow> RevokedEffect option" where
  "revoked_effect v =
     (if \<not> optional_str ''cascadedFrom'' v then None
      else map_option (\<lambda>d. \<lparr> re_did = d, re_cascadedFrom = str_field ''cascadedFrom'' v \<rparr>) (str_field ''did'' v))"

definition removed_effect :: "json \<Rightarrow> RemovedEffect option" where
  "removed_effect v = (case (str_field ''did'' v, str_field ''cascadedFrom'' v) of
       (Some d, Some c) \<Rightarrow> Some \<lparr> rme_did = d, rme_cascadedFrom = c \<rparr>
     | _ \<Rightarrow> None)"

definition natural :: "string \<Rightarrow> json \<Rightarrow> nat option" where
  "natural k v = (case Option.bind (num_field k v) integer_of of
       Some i \<Rightarrow> (if 0 \<le> i then Some (nat i) else None)
     | None \<Rightarrow> None)"

definition proof_ref :: "json \<Rightarrow> ProofRef option" where
  "proof_ref v =
     (if length (obj_fields v) = 1 \<and> natural ''chainIndex'' v \<noteq> None
      then map_option ChainIndex (natural ''chainIndex'' v)
      else if length (obj_fields v) = 1 \<and> natural ''snapshot'' v \<noteq> None
      then map_option Snapshot (natural ''snapshot'' v)
      else if set (map fst (obj_fields v)) \<subseteq> {''event'', ''epoch''} \<and> optional_str ''epoch'' v
      then map_option (\<lambda>e. EventRef e (str_field ''epoch'' v)) (str_field ''event'' v)
      else None)"

definition effect_claim :: "json \<Rightarrow> EffectClaim option" where
  "effect_claim v = (case Option.bind (field ''ref'' v) proof_ref of
       None \<Rightarrow> None
     | Some r \<Rightarrow>
         if str_field ''kind'' v = Some ''deny''
         then map_option (\<lambda>d. DenyClaim d r) (str_field ''did'' v)
         else if str_field ''kind'' v = Some ''remove''
         then (case field ''member'' v of
                 None \<Rightarrow> None
               | Some m \<Rightarrow> (case (str_field ''did'' m, str_field ''add'' m) of
                     (Some d, Some add) \<Rightarrow> Some (RemoveClaim d add r)
                   | _ \<Rightarrow> None))
         else None)"

definition str_value :: "json \<Rightarrow> string option" where
  "str_value v = (case v of JStr s \<Rightarrow> Some s | _ \<Rightarrow> None)"

text \<open>An array whose every element reads as \<open>f\<close> says.\<close>

fun read_all :: "('a \<Rightarrow> 'b option) \<Rightarrow> 'a list \<Rightarrow> 'b list option" where
  "read_all f [] = Some []"
| "read_all f (x # xs) = (case (f x, read_all f xs) of (Some y, Some ys) \<Rightarrow> Some (y # ys) | _ \<Rightarrow> None)"

definition read_array :: "string \<Rightarrow> (json \<Rightarrow> 'b option) \<Rightarrow> json \<Rightarrow> 'b list option" where
  "read_array k f v = Option.bind (arr_field k v) (read_all f)"

lemma read_all_length: "read_all f xs = Some ys \<Longrightarrow> length ys = length xs"
  by (induction xs arbitrary: ys) (auto split: option.splits)

lemma read_all_nth: "read_all f xs = Some ys \<Longrightarrow> list_all2 (\<lambda>x y. f x = Some y) xs ys"
  by (induction xs arbitrary: ys) (auto split: option.splits)

section \<open>The guard\<close>

definition logBearing :: "DeviceOp \<Rightarrow> bool" where
  "logBearing op \<longleftrightarrow> op = Log \<or> op = Seed"

definition proof_of :: "kokuin \<Rightarrow> json \<Rightarrow> ControllerLog option" where
  "proof_of K v = Option.bind (field ''proof'' v) (isControllerLog K)"

definition effect_fields :: "string list" where
  "effect_fields = [''revoked'', ''effects'', ''removed'', ''survivors'']"

definition isDeviceValue :: "kokuin \<Rightarrow> json \<Rightarrow> bool" where
  "isDeviceValue K v =
     (case Option.bind (str_field ''op'' v) parse_op of
        None \<Rightarrow> False
      | Some op \<Rightarrow>
        (let proofBearing = (logBearing op \<or> op = Reset \<or> (op = Revoke \<and> present ''proof'' v)) in
         if \<not> proofBearing \<and> (present ''proof'' v \<or> list_ex (\<lambda>k. present k v) effect_fields) then False
         else if logBearing op
           \<and> (proof_of K v = None \<or> list_ex (\<lambda>k. present k v) effect_fields \<or> present ''capability'' v) then False
         else if (op = Register \<or> op = Add) \<and> str_field ''controller'' v = None then False
         else if op = Beacon \<and> (num_field ''logLength'' v = None \<or> str_field ''headDigest'' v = None) then False
         else if \<not> list_all (\<lambda>k. optional_str k v) [''label'', ''controller'', ''capability'', ''headDigest''] then False
         else if present ''logLength'' v \<and> num_field ''logLength'' v = None then False
         else if present ''time'' v \<and> Option.bind (num_field ''time'' v) finite_of = None then False
         else if present ''proof'' v \<and> proof_of K v = None then False
         else if present ''revoked'' v \<and> read_array ''revoked'' revoked_effect v = None then False
         else if op = Clock \<and> num_field ''time'' v = None then False
         else if present ''attest'' v \<and> (op \<noteq> Clock \<or> field ''attest'' v \<noteq> Some (JBool True)) then False
         else if \<not> logBearing op \<and> (op = Reset \<or> present ''proof'' v)
           \<and> (proof_of K v = None \<or> arr_field ''revoked'' v = None \<or> arr_field ''effects'' v = None
              \<or> arr_field ''removed'' v = None) then False
         else if present ''effects'' v \<and> read_array ''effects'' effect_claim v = None then False
         else if present ''removed'' v \<and> read_array ''removed'' removed_effect v = None then False
         else if present ''survivors'' v \<and> read_array ''survivors'' str_value v = None then False
         else True))"

text \<open>The same value under its type.\<close>

definition typed_value :: "kokuin \<Rightarrow> DeviceOp \<Rightarrow> json \<Rightarrow> DeviceValue" where
  "typed_value K op v = \<lparr>
     dv_op = op,
     dv_controller = str_field ''controller'' v,
     dv_label = str_field ''label'' v,
     dv_capability = str_field ''capability'' v,
     dv_proof = proof_of K v,
     dv_effects = read_array ''effects'' effect_claim v,
     dv_removed = read_array ''removed'' removed_effect v,
     dv_survivors = read_array ''survivors'' str_value v,
     dv_revoked = read_array ''revoked'' revoked_effect v,
     dv_time = Option.bind (num_field ''time'' v) finite_of,
     dv_attest = (field ''attest'' v = Some (JBool True)),
     dv_logLength = num_field ''logLength'' v,
     dv_headDigest = str_field ''headDigest'' v \<rparr>"

definition asDeviceValue :: "kokuin \<Rightarrow> json \<Rightarrow> DeviceValue option" where
  "asDeviceValue K v =
     (if isDeviceValue K v then map_option (\<lambda>op. typed_value K op v) (Option.bind (str_field ''op'' v) parse_op) else None)"

definition isLifecycleDeviceValue :: "DeviceValue \<Rightarrow> bool" where
  "isLifecycleDeviceValue value \<longleftrightarrow>
     dv_op value \<in> {Beacon, Clock, Log, Seed}
     \<or> (dv_op value \<in> {Revoke, Reset} \<and> dv_proof value \<noteq> None \<and> dv_revoked value \<noteq> None
        \<and> dv_capability value = None)"

text \<open>
  The casts of the code that follow the guard: \<^verbatim>\<open>value.controller as string\<close> in a register or an add,
  \<^verbatim>\<open>value.time as number\<close> in a clock, the two fields of a beacon, and the lists a proof brings.
\<close>

definition well_typed :: "DeviceValue \<Rightarrow> bool" where
  "well_typed value \<longleftrightarrow>
     (dv_op value \<in> {Register, Add} \<longrightarrow> dv_controller value \<noteq> None)
     \<and> (dv_op value = Clock \<longrightarrow> dv_time value \<noteq> None)
     \<and> (dv_op value = Beacon \<longrightarrow> dv_logLength value \<noteq> None \<and> dv_headDigest value \<noteq> None)
     \<and> (dv_op value \<in> {Log, Seed, Reset} \<longrightarrow> dv_proof value \<noteq> None)
     \<and> (dv_op value \<in> {Log, Seed} \<longrightarrow> dv_effects value = None \<and> dv_revoked value = None
          \<and> dv_removed value = None \<and> dv_survivors value = None \<and> dv_capability value = None)
     \<and> (dv_op value \<in> {Reset, Revoke} \<and> dv_proof value \<noteq> None \<longrightarrow>
          dv_effects value \<noteq> None \<and> dv_revoked value \<noteq> None \<and> dv_removed value \<noteq> None)
     \<and> (dv_op value \<notin> {Log, Seed, Reset, Revoke} \<longrightarrow> dv_proof value = None)
     \<and> (dv_proof value = None \<longrightarrow> dv_effects value = None \<and> dv_revoked value = None
          \<and> dv_removed value = None \<and> dv_survivors value = None)
     \<and> (dv_attest value \<longrightarrow> dv_op value = Clock)"

text \<open>No element of an array is lost in the reading.\<close>

definition lossless :: "json \<Rightarrow> DeviceValue \<Rightarrow> bool" where
  "lossless v value \<longleftrightarrow>
     map_option length (dv_effects value) = map_option length (arr_field ''effects'' v)
     \<and> map_option length (dv_revoked value) = map_option length (arr_field ''revoked'' v)
     \<and> map_option length (dv_removed value) = map_option length (arr_field ''removed'' v)
     \<and> map_option length (dv_survivors value) = map_option length (arr_field ''survivors'' v)"

lemma read_array_None: "read_array k f v = None \<Longrightarrow> \<not> present k v \<or> arr_field k v = None \<or> Option.bind (arr_field k v) (read_all f) = None"
  by (simp add: read_array_def)

lemma arr_field_present: "arr_field k v = Some xs \<Longrightarrow> present k v"
  by (auto simp: arr_field_Some present_def)

lemma num_field_present: "num_field k v = Some x \<Longrightarrow> present k v"
  by (auto simp: num_field_Some present_def)

lemma absent_reads:
  "\<not> present k v \<Longrightarrow> arr_field k v = None" "\<not> present k v \<Longrightarrow> read_array k f v = None"
  "\<not> present k v \<Longrightarrow> str_field k v = None" "\<not> present k v \<Longrightarrow> num_field k v = None"
  by (simp_all add: present_def arr_field_def read_array_def str_field_def num_field_def)

lemma read_array_lossless:
  assumes "present k v \<Longrightarrow> read_array k f v \<noteq> None"
  shows "map_option length (read_array k f v) = map_option length (arr_field k v)"
proof (cases "arr_field k v")
  case (Some xs)
  with assms have "read_array k f v \<noteq> None" by (auto dest: arr_field_present)
  with Some show ?thesis by (auto simp: read_array_def dest: read_all_length)
qed (simp add: read_array_def)

lemma refuse: "(if P then False else Q) \<longleftrightarrow> \<not> P \<and> Q"
  by simp

text \<open>What a value that passed the guard satisfies, by the operation it names.\<close>

lemma isDeviceValue_cases:
  assumes "isDeviceValue K v"
  obtains op where "Option.bind (str_field ''op'' v) parse_op = Some op"
    and "(\<not> (logBearing op \<or> op = Reset \<or> (op = Revoke \<and> present ''proof'' v)) \<longrightarrow>
            \<not> present ''proof'' v \<and> \<not> list_ex (\<lambda>k. present k v) effect_fields)
      \<and> (logBearing op \<longrightarrow> proof_of K v \<noteq> None \<and> \<not> list_ex (\<lambda>k. present k v) effect_fields
            \<and> \<not> present ''capability'' v)
      \<and> (op = Register \<or> op = Add \<longrightarrow> str_field ''controller'' v \<noteq> None)
      \<and> (op = Beacon \<longrightarrow> num_field ''logLength'' v \<noteq> None \<and> str_field ''headDigest'' v \<noteq> None)
      \<and> (present ''time'' v \<longrightarrow> Option.bind (num_field ''time'' v) finite_of \<noteq> None)
      \<and> (op = Clock \<longrightarrow> num_field ''time'' v \<noteq> None)
      \<and> (present ''attest'' v \<longrightarrow> op = Clock)
      \<and> (\<not> logBearing op \<and> (op = Reset \<or> present ''proof'' v) \<longrightarrow>
            proof_of K v \<noteq> None \<and> arr_field ''revoked'' v \<noteq> None \<and> arr_field ''effects'' v \<noteq> None
            \<and> arr_field ''removed'' v \<noteq> None)
      \<and> (present ''revoked'' v \<longrightarrow> read_array ''revoked'' revoked_effect v \<noteq> None)
      \<and> (present ''effects'' v \<longrightarrow> read_array ''effects'' effect_claim v \<noteq> None)
      \<and> (present ''removed'' v \<longrightarrow> read_array ''removed'' removed_effect v \<noteq> None)
      \<and> (present ''survivors'' v \<longrightarrow> read_array ''survivors'' str_value v \<noteq> None)"
proof -
  obtain op where op: "Option.bind (str_field ''op'' v) parse_op = Some op"
    using assms by (auto simp: isDeviceValue_def split: option.splits)
  show thesis
    using assms unfolding isDeviceValue_def op option.case Let_def refuse
    by (intro that [OF op] conjI; elim conjE; argo)
qed

lemma effect_fields_absent:
  "\<not> list_ex (\<lambda>k. present k v) effect_fields \<Longrightarrow>
     \<not> present ''revoked'' v \<and> \<not> present ''effects'' v \<and> \<not> present ''removed'' v \<and> \<not> present ''survivors'' v"
  by (simp add: effect_fields_def)

lemma present_of_proof: "proof_of K v \<noteq> None \<Longrightarrow> present ''proof'' v"
  by (cases "field ''proof'' v") (auto simp: proof_of_def present_def)

lemma typed_value_simps [simp]:
  "dv_op (typed_value K op v) = op"
  "dv_controller (typed_value K op v) = str_field ''controller'' v"
  "dv_capability (typed_value K op v) = str_field ''capability'' v"
  "dv_proof (typed_value K op v) = proof_of K v"
  "dv_effects (typed_value K op v) = read_array ''effects'' effect_claim v"
  "dv_removed (typed_value K op v) = read_array ''removed'' removed_effect v"
  "dv_survivors (typed_value K op v) = read_array ''survivors'' str_value v"
  "dv_revoked (typed_value K op v) = read_array ''revoked'' revoked_effect v"
  "dv_time (typed_value K op v) = Option.bind (num_field ''time'' v) finite_of"
  "dv_attest (typed_value K op v) \<longleftrightarrow> field ''attest'' v = Some (JBool True)"
  "dv_logLength (typed_value K op v) = num_field ''logLength'' v"
  "dv_headDigest (typed_value K op v) = str_field ''headDigest'' v"
  by (simp_all add: typed_value_def)

lemma device_value_typed:
  assumes "asDeviceValue K v = Some value"
  shows "well_typed value \<and> lossless v value"
proof -
  have guard: "isDeviceValue K v"
    using assms by (auto simp: asDeviceValue_def split: if_splits)
  then obtain op where op: "Option.bind (str_field ''op'' v) parse_op = Some op"
    and facts: "\<not> (logBearing op \<or> op = Reset \<or> (op = Revoke \<and> present ''proof'' v)) \<longrightarrow>
            \<not> present ''proof'' v \<and> \<not> list_ex (\<lambda>k. present k v) effect_fields"
      "logBearing op \<longrightarrow> proof_of K v \<noteq> None \<and> \<not> list_ex (\<lambda>k. present k v) effect_fields \<and> \<not> present ''capability'' v"
      "op = Register \<or> op = Add \<longrightarrow> str_field ''controller'' v \<noteq> None"
      "op = Beacon \<longrightarrow> num_field ''logLength'' v \<noteq> None \<and> str_field ''headDigest'' v \<noteq> None"
      "present ''time'' v \<longrightarrow> Option.bind (num_field ''time'' v) finite_of \<noteq> None"
      "op = Clock \<longrightarrow> num_field ''time'' v \<noteq> None" "present ''attest'' v \<longrightarrow> op = Clock"
      "\<not> logBearing op \<and> (op = Reset \<or> present ''proof'' v) \<longrightarrow>
            proof_of K v \<noteq> None \<and> arr_field ''revoked'' v \<noteq> None \<and> arr_field ''effects'' v \<noteq> None
            \<and> arr_field ''removed'' v \<noteq> None"
      "present ''revoked'' v \<longrightarrow> read_array ''revoked'' revoked_effect v \<noteq> None"
      "present ''effects'' v \<longrightarrow> read_array ''effects'' effect_claim v \<noteq> None"
      "present ''removed'' v \<longrightarrow> read_array ''removed'' removed_effect v \<noteq> None"
      "present ''survivors'' v \<longrightarrow> read_array ''survivors'' str_value v \<noteq> None"
    by (rule isDeviceValue_cases) (elim conjE, rule that; assumption)
  have reading: "value = typed_value K op v"
    using assms guard op by (auto simp: asDeviceValue_def)
  have lists: "lossless v value"
    using facts(9-12) by (simp add: lossless_def reading read_array_lossless)
  have log_facts: "logBearing op \<Longrightarrow> read_array k f v = None" if "k \<in> set effect_fields" for k and f :: "json \<Rightarrow> 'b option"
    using facts(2) that by (auto simp: list_ex_iff intro: absent_reads)
  have clock: "op = Clock \<longrightarrow> dv_time value \<noteq> None"
    using facts(5,6) by (auto simp: reading present_def num_field_def)
  have no_proof: "op \<notin> {Log, Seed, Reset, Revoke} \<longrightarrow> proof_of K v = None"
    using facts(1) by (auto simp: logBearing_def proof_of_def present_def)
  have no_lists: "proof_of K v = None \<longrightarrow> read_array ''effects'' effect_claim v = None
      \<and> read_array ''revoked'' revoked_effect v = None \<and> read_array ''removed'' removed_effect v = None
      \<and> read_array ''survivors'' str_value v = None"
  proof
    assume none: "proof_of K v = None"
    then have "\<not> (logBearing op \<or> op = Reset \<or> (op = Revoke \<and> present ''proof'' v))"
      using facts(2,8) by (auto simp: logBearing_def)
    with facts(1) have "\<not> list_ex (\<lambda>k. present k v) effect_fields" by blast
    from effect_fields_absent [OF this] show "read_array ''effects'' effect_claim v = None
      \<and> read_array ''revoked'' revoked_effect v = None \<and> read_array ''removed'' removed_effect v = None
      \<and> read_array ''survivors'' str_value v = None"
      by (simp add: absent_reads)
  qed
  have with_proof: "op \<in> {Reset, Revoke} \<and> proof_of K v \<noteq> None \<longrightarrow>
      read_array ''effects'' effect_claim v \<noteq> None \<and> read_array ''revoked'' revoked_effect v \<noteq> None
      \<and> read_array ''removed'' removed_effect v \<noteq> None"
  proof (intro impI)
    assume a: "op \<in> {Reset, Revoke} \<and> proof_of K v \<noteq> None"
    then have "\<not> logBearing op" by (auto simp: logBearing_def)
    with a facts(8) present_of_proof [of K v] have "arr_field ''revoked'' v \<noteq> None" "arr_field ''effects'' v \<noteq> None"
      "arr_field ''removed'' v \<noteq> None" by blast+
    with facts(9-11) show "read_array ''effects'' effect_claim v \<noteq> None \<and> read_array ''revoked'' revoked_effect v \<noteq> None
      \<and> read_array ''removed'' removed_effect v \<noteq> None"
      by (auto dest: arr_field_present)
  qed
  have log_case: "op \<in> {Log, Seed} \<longrightarrow> read_array ''effects'' effect_claim v = None \<and> read_array ''revoked'' revoked_effect v = None
      \<and> read_array ''removed'' removed_effect v = None \<and> read_array ''survivors'' str_value v = None
      \<and> str_field ''capability'' v = None"
  proof (intro impI)
    assume "op \<in> {Log, Seed}"
    then have bearing: "logBearing op" by (auto simp: logBearing_def)
    with facts(2) have "str_field ''capability'' v = None" by (auto intro: absent_reads)
    with bearing show "read_array ''effects'' effect_claim v = None \<and> read_array ''revoked'' revoked_effect v = None
      \<and> read_array ''removed'' removed_effect v = None \<and> read_array ''survivors'' str_value v = None
      \<and> str_field ''capability'' v = None"
      by (intro conjI log_facts) (simp_all add: effect_fields_def)
  qed
  have proofs: "op \<in> {Log, Seed, Reset} \<longrightarrow> proof_of K v \<noteq> None"
    using facts(2,8) by (auto simp: logBearing_def)
  have attest: "field ''attest'' v = Some (JBool True) \<longrightarrow> op = Clock"
    using facts(7) by (simp add: present_def)
  have bound: "op \<in> {Register, Add} \<longrightarrow> str_field ''controller'' v \<noteq> None"
    using facts(3) by blast
  have "well_typed value"
    unfolding well_typed_def reading typed_value_simps
    using facts(4) clock [unfolded reading typed_value_simps] no_proof no_lists with_proof log_case proofs attest bound
    by (intro conjI)
  with lists show ?thesis by blast
qed

end
