(* ===== verification/Device_Registry.thy ===== *)
theory Device_Registry
  imports Device_Value
begin

text \<open>
  The device registry: \<^verbatim>\<open>mls/src/registry.ts\<close> and the authentication of the proof an entry carries,
  \<^verbatim>\<open>authenticateLifecycleProof\<close> of \<^verbatim>\<open>mls/src/lifecycle-proof.ts\<close>. A step is a function to an error or the next
  registry; a throw leaves the registry as it was because the code works on copies.
\<close>

section \<open>Authenticating a proof\<close>

record AuthenticatedProof =
  ap_recordedLog :: ControllerLog
  ap_genFloor :: int
  ap_resetRef :: "ProofRef option"

definition mergeLifecycleProofLogs ::
  "kokuin \<Rightarrow> did \<Rightarrow> ControllerLog \<Rightarrow> ControllerLog \<Rightarrow> mls_error + ControllerLog" where
  "mergeLifecycleProofLogs K controller first second = (case mergeLogs K controller first second of
       Inr lg \<Rightarrow> Inr lg
     | Inl message \<Rightarrow>
         Inl (if prefix (LOG_TOO_LARGE K) message then RevokeProofError too_large else PlainError message))"

definition lifecycleProofLog ::
  "kokuin \<Rightarrow> did \<Rightarrow> IngestedControllerLog \<Rightarrow> ControllerLog \<Rightarrow> mls_error + ControllerLog" where
  "lifecycleProofLog K controller ingested proof =
     mergeLifecycleProofLogs K controller (ig_log ingested)
       \<lparr> cl_chain = cl_chain (ig_log ingested),
         cl_events = filter (\<lambda>e. ee_e e \<noteq> ks_epoch (fo_head (ig_after ingested))) (cl_events proof) \<rparr>"

abbreviation reject :: "RevokeProofReason \<Rightarrow> mls_error + 'a" where
  "reject r \<equiv> Inl (RevokeProofError r)"

text \<open>\<^verbatim>\<open>x ?? f(x)\<close> on results: continue where the step returned.\<close>

definition then_do :: "'e + 'a \<Rightarrow> ('a \<Rightarrow> 'e + 'b) \<Rightarrow> 'e + 'b" where
  "then_do r f = (case r of Inl e \<Rightarrow> Inl e | Inr x \<Rightarrow> f x)"

lemma then_do_simps [simp]: "then_do (Inl e) f = Inl e" "then_do (Inr x) f = f x"
  by (simp_all add: then_do_def)

lemma then_do_Inr: "then_do r f = Inr y \<longleftrightarrow> (\<exists>x. r = Inr x \<and> f x = Inr y)"
  by (cases r) simp_all

definition as_revoke :: "RevokeProofReason + 'a \<Rightarrow> mls_error + 'a" where
  "as_revoke r = map_sum RevokeProofError (\<lambda>x. x) r"

lemma as_revoke_Inr [simp]: "as_revoke r = Inr x \<longleftrightarrow> r = Inr x"
  by (cases r) (simp_all add: as_revoke_def)

fun all_steps :: "('a \<Rightarrow> 'e + unit) \<Rightarrow> 'a list \<Rightarrow> 'e + unit" where
  "all_steps f [] = Inr ()"
| "all_steps f (x # xs) = then_do (f x) (\<lambda>_. all_steps f xs)"

definition claim_target :: "kokuin \<Rightarrow> EffectClaim \<Rightarrow> string" where
  "claim_target K claim = (case claim of
       DenyClaim d _ \<Rightarrow> ''deny:'' @ normalizeDID K d
     | RemoveClaim d add _ \<Rightarrow> ''remove:'' @ normalizeDID K d @ '':'' @ add)"

definition head_gen :: "FoldOk \<Rightarrow> int" where
  "head_gen folded = ks_gen (fo_head folded)"

definition last_digest :: "FoldOk option \<Rightarrow> string option" where
  "last_digest folded = Option.bind folded (\<lambda>f. map_option ks_digest (last_of (fo_states f)))"

definition authenticate_log ::
  "kokuin \<Rightarrow> did \<Rightarrow> DeviceValue \<Rightarrow> ControllerProjection option \<Rightarrow> mls_error + AuthenticatedProof" where
  "authenticate_log K controller val previous = (case dv_proof val of
       None \<Rightarrow> reject not_authority_signed
     | Some proof \<Rightarrow>
       (let recorded = Option.bind previous cp_recordedLog in
        if (if dv_op val = Seed then recorded \<noteq> None else recorded = None) then reject detached
        else then_do (as_revoke (ingestControllerLog K controller recorded proof previous)) (\<lambda>ingested.
          let after = ig_after ingested;
              delta = effectDelta K (map_option fo_head (ig_before ingested)) (fo_head after)
          in if dv_op val = Log \<and> ig_introduced ingested = [] \<and> last_digest (ig_before ingested) = last_digest (Some after)
             then reject effects_mismatch
             else if dv_op val = Log \<and> ed_generation delta then reject needs_reset
             else if dv_op val = Log \<and> (ed_denied delta \<noteq> [] \<or> ed_removed delta \<noteq> []) then reject effects_mismatch
             else Inr \<lparr> ap_recordedLog = ig_log ingested, ap_genFloor = max (gen_floor previous) (head_gen after),
                        ap_resetRef = None \<rparr>)))"

text \<open>The first event of a chain that opens a new generation.\<close>

definition reset_index :: "ChainEvent list \<Rightarrow> nat option" where
  "reset_index chain = find (\<lambda>i. 0 < i \<and> ce_g (chain ! (i - 1)) < ce_g (chain ! i)) [0..<length chain]"

definition authenticate_effects ::
  "kokuin \<Rightarrow> did \<Rightarrow> DeviceValue \<Rightarrow> ControllerProjection option \<Rightarrow> mls_error + AuthenticatedProof" where
  "authenticate_effects K controller val previous = (case dv_proof val of
       None \<Rightarrow> reject no_rev
     | Some proof \<Rightarrow>
       (let low = gen_floor previous; recorded = Option.bind previous cp_recordedLog; chain = cl_chain proof in
        if chain \<noteq> [] \<and> (\<forall>e \<in> set chain. ce_g e < low) then reject generation_floor
        else if dv_op val = Reset \<and> chain \<noteq> [] \<and> ce_t (hd chain) = ''icp'' \<and> (\<forall>e \<in> set chain. ce_g e \<le> low)
        then reject generation_floor
        else if dv_op val = Revoke \<and> (\<exists>e \<in> set chain. low < ce_g e) then reject needs_reset
        else then_do (as_revoke (ingestControllerLog K controller recorded proof previous)) (\<lambda>ingested.
          let after = ig_after ingested;
              delta = effectDelta K (map_option fo_head (ig_before ingested)) (fo_head after)
          in if ks_saturated (fo_head after) then reject too_large
             else if dv_op val = Reset \<and> (\<not> ed_generation delta \<or> head_gen after \<le> low) then reject generation_floor
             else if dv_op val \<noteq> Reset \<and> ed_generation delta then reject needs_reset
             else then_do (lifecycleProofLog K controller ingested proof) (\<lambda>proofLog.
                  then_do (as_revoke (foldedLog K controller proofLog)) (\<lambda>proofs.
                  then_do (as_revoke (claimsWithProofs K controller recorded proofLog low proofs)) (\<lambda>expected.
                  case dv_effects val of
                    None \<Rightarrow> reject no_rev
                  | Some effects \<Rightarrow>
                      if effects = [] \<and> dv_op val \<noteq> Reset then reject no_rev
                      else if map (claim_target K) effects \<noteq> map (claim_target K) expected then reject effects_mismatch
                      else then_do (all_steps (\<lambda>claim.
                             if dv_op val \<noteq> Reset \<and> (case claim_ref claim of Snapshot _ \<Rightarrow> True | _ \<Rightarrow> False) then reject no_rev
                             else as_revoke (checkEffect K controller proofLog proofs claim low)) effects) (\<lambda>_.
                        Inr \<lparr> ap_recordedLog = ig_log ingested, ap_genFloor = max low (head_gen after),
                              ap_resetRef = (if dv_op val = Reset
                                             then map_option Snapshot (reset_index (cl_chain (ig_log ingested))) else None) \<rparr>)))))))"

definition authenticateLifecycleProof ::
  "kokuin \<Rightarrow> did \<Rightarrow> did \<Rightarrow> DeviceValue \<Rightarrow> DeviceRegistry \<Rightarrow> mls_error + AuthenticatedProof" where
  "authenticateLifecycleProof K controllerID entry_subject val registry =
     (let controller = normalizeDID K controllerID;
          previous = map_of (rg_controllers registry) controller
      in if (case dv_controller val of None \<Rightarrow> False | Some c \<Rightarrow> normalizeDID K c \<noteq> controller)
           \<or> normalizeDID K entry_subject \<noteq> controller
         then reject wrong_controller
         else if dv_op val = Log \<or> dv_op val = Seed then authenticate_log K controller val previous
         else authenticate_effects K controller val previous)"

section \<open>The registry fold step\<close>

definition registrySeed :: DeviceRegistry where
  "registrySeed = \<lparr> rg_devices = [], rg_controllers = [] \<rparr>"

definition isResetOnly :: "DeviceRecord \<Rightarrow> bool" where
  "isResetOnly r \<longleftrightarrow> dr_status r = Revoked \<and> dr_reset r \<and> dr_cascadedFrom r = None"

definition revoked_record :: "did \<Rightarrow> ProofRef \<Rightarrow> DeviceRecord" where
  "revoked_record controller ref = \<lparr> dr_controller = controller, dr_status = Revoked, dr_label = None,
     dr_proofRef = Some ref, dr_reset = False, dr_cascadedFrom = None \<rparr>"

type_synonym devices = "(did, DeviceRecord) js_map"

text \<open>\<^verbatim>\<open>seedEffects\<close>: the denials and removals a whole log proves.\<close>

fun seed_claims ::
  "kokuin \<Rightarrow> did \<Rightarrow> ControllerLog \<Rightarrow> FoldOk \<Rightarrow> EffectClaim list \<Rightarrow> devices \<times> (string, RemovedMember) js_map
     \<Rightarrow> mls_error + devices \<times> (string, RemovedMember) js_map" where
  "seed_claims K controller lg folded [] st = Inr st"
| "seed_claims K controller lg folded (claim # claims) (devices, removed) = (case claim of
       DenyClaim d ref \<Rightarrow>
         seed_claims K controller lg folded claims
           (AList.update (normalizeDID K d) (revoked_record controller ref) devices, removed)
     | RemoveClaim d add ref \<Rightarrow>
         (case (case ref of
                  EventRef digest _ \<Rightarrow> map_option ee_g (find (\<lambda>e. digestOfEvent K e = digest) (cl_events lg))
                | ChainIndex i \<Rightarrow> map_option ks_gen (nth_of (fo_states folded) i)
                | Snapshot i \<Rightarrow> map_option ks_gen (nth_of (fo_states folded) i)) of
            None \<Rightarrow> reject no_rev
          | Some gen \<Rightarrow>
              seed_claims K controller lg folded claims
                (devices, AList.update add \<lparr> rm_did = normalizeDID K d, rm_gen = gen, rm_proofRef = ref \<rparr> removed)))"

definition seedEffects ::
  "kokuin \<Rightarrow> did \<Rightarrow> devices \<Rightarrow> ControllerLog \<Rightarrow> ControllerProjection \<Rightarrow> mls_error + devices \<times> ControllerProjection" where
  "seedEffects K controller devices lg projection =
     then_do (as_revoke (foldedLog K controller lg)) (\<lambda>folded.
     then_do (as_revoke (claimsFor K controller None lg 0)) (\<lambda>claims.
     then_do (seed_claims K controller lg folded claims (devices, cp_removedMembers projection)) (\<lambda>(devices, removed).
       Inr (devices, projection \<lparr> cp_removedMembers := removed \<rparr>))))"

text \<open>The clock: an attestation by an effective member, or the controller's own time floor.\<close>

definition applyClock ::
  "kokuin \<Rightarrow> did \<Rightarrow> did \<Rightarrow> DeviceValue \<Rightarrow> ControllerProjection \<Rightarrow> mls_error + ControllerProjection" where
  "applyClock K controller issuer val previous =
     (let time = or_else (dv_time val) 0 in
      if dv_attest val
      then (case (case cp_recordedLog previous of None \<Rightarrow> None
                  | Some lg \<Rightarrow> (case foldControllerLog K controller lg of FoldFailed _ _ \<Rightarrow> None
                      | FoldDone folded \<Rightarrow>
                          find (\<lambda>m. ms_effective m \<and> normalizeDID K (ms_did m) = normalizeDID K issuer)
                            (map snd (ks_members (fo_head folded))))) of
              None \<Rightarrow> reject effects_mismatch
            | Some member \<Rightarrow>
                Inr (previous \<lparr> cp_attestations := AList.update (ms_key member)
                       (max (or_else (map_of (cp_attestations previous) (ms_key member)) 0) time)
                       (cp_attestations previous) \<rparr>))
      else Inr (previous \<lparr> cp_timeFloor := max (cp_timeFloor previous) time \<rparr>))"

definition denials_in :: "kokuin \<Rightarrow> DeviceValue \<Rightarrow> (did, ProofRef) js_map" where
  "denials_in K val = js_map_of (List.map_filter
     (\<lambda>c. case c of DenyClaim d ref \<Rightarrow> Some (normalizeDID K d, ref) | _ \<Rightarrow> None) (or_else (dv_effects val) []))"

text \<open>A record that a later entry may not replace.\<close>

definition terminal :: "DeviceRecord \<Rightarrow> bool" where
  "terminal r \<longleftrightarrow> dr_status r = Revoked \<and> \<not> isResetOnly r"

fun apply_revoked ::
  "kokuin \<Rightarrow> did \<Rightarrow> bool \<Rightarrow> (did, ProofRef) js_map \<Rightarrow> ProofRef option \<Rightarrow> RevokedEffect list \<Rightarrow> devices
     \<Rightarrow> mls_error + devices" where
  "apply_revoked K controller reset denials resetRef [] devices = Inr devices"
| "apply_revoked K controller reset denials resetRef (r # rs) devices =
     (let d = normalizeDID K (re_did r);
          skip = (case map_of devices d of None \<Rightarrow> False
                  | Some held \<Rightarrow> dr_status held = Revoked \<and> (reset \<or> \<not> isResetOnly held))
      in if skip then apply_revoked K controller reset denials resetRef rs devices
         else (case (case map_of denials (normalizeDID K (or_else (re_cascadedFrom r) d)) of
                       Some ref \<Rightarrow> Some ref | None \<Rightarrow> resetRef) of
             None \<Rightarrow> reject effects_mismatch
           | Some ref \<Rightarrow>
               apply_revoked K controller reset denials resetRef rs
                 (AList.update d ((revoked_record controller ref)
                    \<lparr> dr_reset := reset, dr_cascadedFrom := map_option (normalizeDID K) (re_cascadedFrom r) \<rparr>) devices)))"

definition apply_denial :: "did \<Rightarrow> did \<times> ProofRef \<Rightarrow> devices \<Rightarrow> devices" where
  "apply_denial controller = (\<lambda>(d, ref) devices.
     if (case map_of devices d of None \<Rightarrow> False | Some held \<Rightarrow> terminal held) then devices
     else AList.update d (revoked_record controller ref) devices)"

definition apply_removals ::
  "kokuin \<Rightarrow> DeviceValue \<Rightarrow> int \<Rightarrow> (string, RemovedMember) js_map \<Rightarrow> (string, RemovedMember) js_map" where
  "apply_removals K val gen removed =
     fold (\<lambda>c held. case c of
         RemoveClaim d add ref \<Rightarrow>
           AList.update add \<lparr> rm_did = normalizeDID K d, rm_gen = gen, rm_proofRef = ref \<rparr> held
       | _ \<Rightarrow> held) (or_else (dv_effects val) []) removed"

text \<open>An event reference is replaced once the chain itself shows the effect.\<close>

definition settle_removed ::
  "kokuin \<Rightarrow> did \<Rightarrow> ChainEvent list \<Rightarrow> (string, RemovedMember) js_map \<Rightarrow> (string, RemovedMember) js_map" where
  "settle_removed K controller chain =
     map (\<lambda>(add, m).
       if \<not> is_event_ref (rm_proofRef m) then (add, m)
       else (case (case last_of (memberDropIndices K controller chain add) of
                     Some i \<Rightarrow> Some i
                   | None \<Rightarrow> last_of (memberTombstoneIndices K controller chain add (rm_did m))) of
           None \<Rightarrow> (add, m)
         | Some i \<Rightarrow> (add, m \<lparr> rm_proofRef := ChainIndex i \<rparr>)))"

definition settle_devices :: "kokuin \<Rightarrow> did \<Rightarrow> ChainEvent list \<Rightarrow> devices \<Rightarrow> devices" where
  "settle_devices K controller chain =
     map (\<lambda>(d, held).
       if dr_controller held \<noteq> controller
          \<or> (case dr_proofRef held of None \<Rightarrow> True | Some r \<Rightarrow> \<not> is_event_ref r) then (d, held)
       else (case last_of (revokeIndices K controller chain (or_else (dr_cascadedFrom held) d)) of
           None \<Rightarrow> (d, held)
         | Some i \<Rightarrow> (d, held \<lparr> dr_proofRef := Some (ChainIndex i) \<rparr>)))"

fun apply_survivors :: "kokuin \<Rightarrow> string list \<Rightarrow> (did, string) js_map \<Rightarrow> mls_error + (did, string) js_map" where
  "apply_survivors K [] grants = Inr grants"
| "apply_survivors K (raw # raws) grants =
     then_do (readCapability K raw) (\<lambda>claims.
       apply_survivors K raws (AList.update (normalizeDID K (claim_str ''aud'' claims)) raw grants))"

definition applyLifecycle ::
  "kokuin \<Rightarrow> did \<Rightarrow> did \<Rightarrow> DeviceValue \<Rightarrow> DeviceRegistry \<Rightarrow> ControllerProjection \<Rightarrow> mls_error + DeviceRegistry" where
  "applyLifecycle K controller entry_subject val registry previous =
     then_do (authenticateLifecycleProof K controller entry_subject val registry) (\<lambda>effect.
     let recorded = ap_recordedLog effect;
         projection = previous \<lparr> cp_recordedLog := Some recorded, cp_genFloor := ap_genFloor effect \<rparr>
     in then_do (if dv_op val = Seed then seedEffects K controller (rg_devices registry) recorded projection
                 else Inr (rg_devices registry, projection)) (\<lambda>(devices, projection).
     then_do (apply_revoked K controller (dv_op val = Reset) (denials_in K val) (ap_resetRef effect)
                (or_else (dv_revoked val) []) devices) (\<lambda>devices.
     then_do (apply_survivors K (or_else (dv_survivors val) []) (cp_survivorGrants projection)) (\<lambda>grants.
     let denied = fold (apply_denial controller) (denials_in K val) devices;
         removed = settle_removed K controller (cl_chain recorded)
                     (apply_removals K val (ap_genFloor effect) (cp_removedMembers projection))
     in Inr \<lparr> rg_devices = settle_devices K controller (cl_chain recorded) denied,
              rg_controllers = AList.update controller
                (projection \<lparr> cp_removedMembers := removed, cp_survivorGrants := grants \<rparr>)
                (rg_controllers registry) \<rparr>))))"

definition applyStandard :: "kokuin \<Rightarrow> did \<Rightarrow> DeviceValue \<Rightarrow> DeviceRegistry \<Rightarrow> DeviceRegistry" where
  "applyStandard K subject val registry =
     (let devices = rg_devices registry; existing = map_of devices subject;
          bound = normalizeDID K (or_else (dv_controller val) []);
          label = (case dv_label val of None \<Rightarrow> Option.bind existing dr_label | l \<Rightarrow> l);
          admitted = registry \<lparr> rg_devices := AList.update subject
            \<lparr> dr_controller = bound, dr_status = Active, dr_label = label,
              dr_proofRef = None, dr_reset = False, dr_cascadedFrom = None \<rparr> devices \<rparr>;
          admit = (case existing of
              Some held \<Rightarrow> if terminal held then registry else admitted
            | None \<Rightarrow> admitted)
      in case dv_op val of
        Register \<Rightarrow> admit
      | Add \<Rightarrow> admit
      | Revoke \<Rightarrow> (case existing of
          None \<Rightarrow> registry
        | Some held \<Rightarrow>
            registry \<lparr> rg_devices := AList.update subject (held \<lparr> dr_status := Revoked, dr_reset := False \<rparr>) devices \<rparr>)
      | Label \<Rightarrow> (case existing of
          None \<Rightarrow> registry
        | Some held \<Rightarrow>
            registry \<lparr> rg_devices := AList.update subject
              (case dv_label val of None \<Rightarrow> held | l \<Rightarrow> held \<lparr> dr_label := l \<rparr>) devices \<rparr>)
      | Beacon \<Rightarrow>
          registry \<lparr> rg_controllers := AList.update subject
            ((or_else (map_of (rg_controllers registry) subject) controllerProjection)
               \<lparr> cp_beacon := Some \<lparr> cbn_logLength = or_else (dv_logLength val) (Fin 0),
                                   cbn_headDigest = or_else (dv_headDigest val) [] \<rparr> \<rparr>)
            (rg_controllers registry) \<rparr>
      | _ \<Rightarrow> registry)"

definition registryApply ::
  "kokuin \<Rightarrow> did \<Rightarrow> did \<Rightarrow> DeviceValue \<Rightarrow> DeviceRegistry \<Rightarrow> did option \<Rightarrow> mls_error + DeviceRegistry" where
  "registryApply K issuer entry_subject val registry controllerID =
     (case controllerID of
        Some c \<Rightarrow>
          if dv_op val \<in> {Reset, Revoke, Clock, Log, Seed}
          then (let controller = normalizeDID K c;
                    previous = or_else (map_of (rg_controllers registry) controller) controllerProjection
                in if dv_op val = Clock
                   then then_do (applyClock K controller issuer val previous) (\<lambda>projection.
                          Inr (registry \<lparr> rg_controllers := AList.update controller projection (rg_controllers registry) \<rparr>))
                   else applyLifecycle K controller entry_subject val registry previous)
          else Inr (applyStandard K (normalizeDID K entry_subject) val registry)
      | None \<Rightarrow> Inr (applyStandard K (normalizeDID K entry_subject) val registry))"

section \<open>Views\<close>

definition controllerOf :: "kokuin \<Rightarrow> DeviceRegistry \<Rightarrow> did \<Rightarrow> did option" where
  "controllerOf K registry deviceDID = map_option dr_controller (map_of (rg_devices registry) (normalizeDID K deviceDID))"

definition beaconOf :: "kokuin \<Rightarrow> DeviceRegistry \<Rightarrow> did \<Rightarrow> ControllerBeacon option" where
  "beaconOf K registry controllerDID =
     Option.bind (map_of (rg_controllers registry) (normalizeDID K controllerDID)) cp_beacon"

definition recordedLogOf :: "kokuin \<Rightarrow> DeviceRegistry \<Rightarrow> did \<Rightarrow> ControllerLog option" where
  "recordedLogOf K registry controller =
     Option.bind (map_of (rg_controllers registry) (normalizeDID K controller)) cp_recordedLog"

definition denySetOf :: "DeviceRegistry \<Rightarrow> did list" where
  "denySetOf registry = map fst (filter (\<lambda>(d, r). dr_status r = Revoked) (rg_devices registry))"

definition authority :: "kokuin \<Rightarrow> DeviceRegistry \<Rightarrow> did \<Rightarrow> did" where
  "authority K registry issuer =
     (let norm = normalizeDID K issuer in
      case map_of (rg_devices registry) norm of
        Some r \<Rightarrow> if dr_status r = Active then dr_controller r else norm
      | None \<Rightarrow> norm)"

definition mayReadmitResetDevice :: "kokuin \<Rightarrow> DeviceRegistry \<Rightarrow> ChainEvent MLSCredentialIdentity \<Rightarrow> bool" where
  "mayReadmitResetDevice K registry parsed =
     (case (map_of (rg_devices registry) (normalizeDID K (ci_id parsed)), ci_controller parsed) of
        (Some r, Some binding) \<Rightarrow>
          if \<not> isResetOnly r \<or> normalizeDID K (cb_id binding) \<noteq> dr_controller r then False
          else (case foldChain K (cb_id binding) (cb_prefix binding) of
              FoldFailed _ _ \<Rightarrow> False
            | FoldDone folded \<Rightarrow>
                gen_floor (map_of (rg_controllers registry) (dr_controller r))
                  \<le> (case last_of (fo_states folded) of None \<Rightarrow> 0 | Some s \<Rightarrow> ks_gen s))
      | _ \<Rightarrow> False)"

record Revocation =
  rv_controller :: did
  rv_proofRef :: ProofRef
  rv_reset :: bool
  rv_cascadedFrom :: "did option"

definition revocationOf :: "kokuin \<Rightarrow> DeviceRegistry \<Rightarrow> did \<Rightarrow> Revocation option" where
  "revocationOf K registry d = (case map_of (rg_devices registry) (normalizeDID K d) of
       None \<Rightarrow> None
     | Some r \<Rightarrow> (case dr_proofRef r of
           None \<Rightarrow> None
         | Some ref \<Rightarrow>
             if dr_status r \<noteq> Revoked then None
             else Some \<lparr> rv_controller = dr_controller r, rv_proofRef = ref, rv_reset = dr_reset r,
                         rv_cascadedFrom = dr_cascadedFrom r \<rparr>))"

definition registryForLog :: "kokuin \<Rightarrow> did \<Rightarrow> ControllerLog \<Rightarrow> mls_error + DeviceRegistry" where
  "registryForLog K controller lg =
     then_do (as_revoke (ingestControllerLog K controller None lg None)) (\<lambda>ingested.
     let c = normalizeDID K controller in
     then_do (seedEffects K c [] (ig_log ingested)
         (controllerProjection \<lparr> cp_recordedLog := Some (ig_log ingested), cp_genFloor := head_gen (ig_after ingested) \<rparr>))
       (\<lambda>(devices, projection). Inr \<lparr> rg_devices = devices, rg_controllers = [(c, projection)] \<rparr>))"

section \<open>What a recovery must keep\<close>

datatype RecoveryKnowledgeReason =
  LostRevocation | LostRemoval | LostEpochEvent | LostAttestation | LostFloor | Forked

definition fold_recorded :: "kokuin \<Rightarrow> did \<Rightarrow> ControllerProjection option \<Rightarrow> FoldOk option" where
  "fold_recorded K d p = (case projectionFold K d p of Some (FoldDone f) \<Rightarrow> Some f | _ \<Rightarrow> None)"

definition forked_logs :: "kokuin \<Rightarrow> did \<Rightarrow> ControllerLog \<Rightarrow> ControllerLog \<Rightarrow> FoldOk option \<Rightarrow> bool" where
  "forked_logs K d held offered after =
     (case Option.bind (resolveBranches K d [cl_chain held, cl_chain offered])
             (\<lambda>winner. case foldChain K d winner of FoldDone w \<Rightarrow> Some w | FoldFailed _ _ \<Rightarrow> None) of
        None \<Rightarrow> True
      | Some winner \<Rightarrow> (case after of None \<Rightarrow> False
          | Some a \<Rightarrow> ks_epoch (fo_head a) \<noteq> ks_epoch (fo_head winner)))"

definition time_floor :: "ControllerProjection option \<Rightarrow> rat" where
  "time_floor p = (case p of None \<Rightarrow> 0 | Some c \<Rightarrow> cp_timeFloor c)"

definition kept_revocation :: "did \<Rightarrow> DeviceRegistry \<Rightarrow> did \<times> DeviceRecord \<Rightarrow> bool" where
  "kept_revocation d candidate = (\<lambda>(device, r).
     dr_controller r \<noteq> d \<or> \<not> terminal r
     \<or> (case map_of (rg_devices candidate) device of None \<Rightarrow> False
        | Some retained \<Rightarrow> dr_controller retained = d \<and> terminal retained))"

definition reset_past :: "FoldOk option \<Rightarrow> ControllerProjection option \<Rightarrow> int \<Rightarrow> bool" where
  "reset_past after offered gen \<longleftrightarrow>
     (case after of None \<Rightarrow> False | Some a \<Rightarrow> gen < head_gen a \<and> gen < gen_floor offered)"

definition settled_past :: "FoldOk option \<Rightarrow> FoldOk \<Rightarrow> bool" where
  "settled_past after before = (case after of
       None \<Rightarrow> False
     | Some a \<Rightarrow> (case find (\<lambda>i. ks_digest (fo_states a ! i) = ks_epoch (fo_head before)) [0..<length (fo_states a)] of
           None \<Rightarrow> False
         | Some i \<Rightarrow> i + 1 < length (fo_states a)))"

definition attested :: "ControllerProjection option \<Rightarrow> string \<Rightarrow> rat" where
  "attested p key = (case p of None \<Rightarrow> 0 | Some c \<Rightarrow> or_else (map_of (cp_attestations c) key) 0)"

definition assertRetainsKnownEffects ::
  "kokuin \<Rightarrow> did \<Rightarrow> DeviceRegistry \<Rightarrow> DeviceRegistry \<Rightarrow> RecoveryKnowledgeReason + unit" where
  "assertRetainsKnownEffects K controller known candidate =
     (let d = normalizeDID K controller;
          held = map_of (rg_controllers known) d;
          offered = map_of (rg_controllers candidate) d;
          before = fold_recorded K d held;
          after = fold_recorded K d offered
      in if before \<noteq> None \<and> (case after of None \<Rightarrow> True | Some a \<Rightarrow> ks_saturated (fo_head a)) then Inl LostEpochEvent
         else if (case (Option.bind held cp_recordedLog, Option.bind offered cp_recordedLog) of
               (Some h, Some f) \<Rightarrow> forked_logs K d h f after | _ \<Rightarrow> False) then Inl Forked
         else if time_floor offered < time_floor held \<or> gen_floor offered < gen_floor held then Inl LostFloor
         else if \<not> list_all (kept_revocation d candidate) (rg_devices known) then Inl LostRevocation
         else if \<not> list_all (\<lambda>(add, member). is_removed_member offered add \<or> reset_past after offered (rm_gen member))
               (case held of None \<Rightarrow> [] | Some h \<Rightarrow> cp_removedMembers h) then Inl LostRemoval
         else if (case before of None \<Rightarrow> False
               | Some b \<Rightarrow> \<not> list_all (\<lambda>event. event \<in> set (case after of None \<Rightarrow> [] | Some a \<Rightarrow> fo_applied a)
                     \<or> settled_past after b \<or> reset_past after offered (head_gen b)) (fo_applied b)) then Inl LostEpochEvent
         else if (case after of None \<Rightarrow> False
               | Some a \<Rightarrow> list_ex (\<lambda>(add, member). ms_effective member
                     \<and> attested offered (ms_key member) < attested held (ms_key member)) (ks_members (fo_head a)))
         then Inl LostAttestation
         else Inr ())"

end
