(* ===== verification/Control_Fold.thy ===== *)
theory Control_Fold
  imports Ledger_Fold Device_Registry
begin

text \<open>
  The two folds of the whole control ledger: \<^verbatim>\<open>foldControl\<close> of \<^verbatim>\<open>mls/src/registry.ts\<close>, which replays a
  ledger and drops what it does not accept, and \<^verbatim>\<open>foldEnvelope\<close> of \<^verbatim>\<open>mls/src/envelope-fold.ts\<close>, which
  judges the entries of one commit and rejects the commit on the first that is off.
\<close>

record ControlState =
  ct_roster :: RosterState
  ct_registry :: DeviceRegistry

definition role_value :: "json \<Rightarrow> GroupPermission option" where
  "role_value v = (case v of
       JStr s \<Rightarrow> if s = ''admin'' then Some Admin else if s = ''member'' then Some Member else None
     | _ \<Rightarrow> None)"

definition retyped :: "'v \<Rightarrow> 'a VerifiedLedgerEntry \<Rightarrow> 'v VerifiedLedgerEntry" where
  "retyped v verified = \<lparr> ve_issuer = ve_issuer verified,
     ve_entry = \<lparr> le_type = le_type (ve_entry verified), le_groupID = le_groupID (ve_entry verified),
                  le_subject = le_subject (ve_entry verified), le_value = v, le_ord = le_ord (ve_entry verified) \<rparr> \<rparr>"

definition apply_role :: "kokuin \<Rightarrow> 'a VerifiedLedgerEntry \<Rightarrow> GroupPermission \<Rightarrow> RosterState \<Rightarrow> RosterState" where
  "apply_role K verified v roster = lr_apply (roleReducer (normalizeDID K)) (retyped v verified) roster"

section \<open>Replay\<close>

text \<open>One entry of the replay: the next state, or the reason it is dropped for.\<close>

definition control_step ::
  "kokuin \<Rightarrow> did option \<Rightarrow> string \<Rightarrow> nat \<Rightarrow> json VerifiedLedgerEntry \<Rightarrow> ControlState \<Rightarrow> string + ControlState" where
  "control_step K controller groupID position verified st =
     (let entry = ve_entry verified; issuer = ve_issuer verified in
      if le_groupID entry \<noteq> groupID then Inl (''cross-group entry for '' @ groupID)
      else if le_type entry = DEVICE_ENTRY_TYPE then
        (case asDeviceValue K (le_value entry) of
           None \<Rightarrow> Inl ''malformed kumiai.device value''
         | Some val \<Rightarrow>
             if controller \<noteq> None \<and> \<not> isLifecycleDeviceValue val
             then Inl ''device operation is not allowed in a lifecycle group''
             else if dv_op val = Seed \<and> position \<noteq> 0 then Inl ''invalid lifecycle proof''
             else (case registryApply K issuer (le_subject entry) val (ct_registry st) controller of
                Inl _ \<Rightarrow> Inl ''invalid lifecycle proof''
              | Inr registry \<Rightarrow> Inr (st \<lparr> ct_registry := registry \<rparr>)))
      else if controller \<noteq> None \<or> le_type entry \<noteq> ROLE_ENTRY_TYPE then Inl (''unrelated type '' @ le_type entry)
      else (case role_value (le_value entry) of
          None \<Rightarrow> Inl ''invalid role value''
        | Some v \<Rightarrow>
            if role_of (ct_roster st) (authority K (ct_registry st) issuer) \<noteq> Some Admin
            then Inl (''authority '' @ authority K (ct_registry st) issuer @ '' of issuer ''
                      @ normalizeDID K issuer @ '' is not admin'')
            else (let candidate = apply_role K verified v (ct_roster st)
                  in if adminCount candidate = 0 then Inl ''would empty the admin set''
                     else Inr (st \<lparr> ct_roster := candidate \<rparr>))))"

fun foldControl_from ::
  "kokuin \<Rightarrow> did option \<Rightarrow> string \<Rightarrow> nat \<Rightarrow> json FoldInput list \<Rightarrow> ControlState \<Rightarrow> ControlState \<times> FoldDrop list" where
  "foldControl_from K controller groupID position [] st = (st, [])"
| "foldControl_from K controller groupID position (input # entries) st =
     (case control_step K controller groupID position (fi_verified input) st of
        Inr st \<Rightarrow> foldControl_from K controller groupID (Suc position) entries st
      | Inl reason \<Rightarrow>
          apsnd (Cons \<lparr> fd_entryID = fi_entryID input, fd_type = le_type (ve_entry (fi_verified input)), fd_reason = reason \<rparr>)
            (foldControl_from K controller groupID (Suc position) entries st))"

definition control_seed :: "kokuin \<Rightarrow> GroupAnchor \<Rightarrow> ControlState" where
  "control_seed K anchor = \<lparr> ct_roster = lr_seed (roleReducer (normalizeDID K)) anchor, ct_registry = registrySeed \<rparr>"

definition foldControl ::
  "kokuin \<Rightarrow> json FoldInput list \<Rightarrow> GroupAnchor \<Rightarrow> string \<Rightarrow> ControlState \<times> FoldDrop list" where
  "foldControl K entries anchor groupID =
     foldControl_from K (ga_controller anchor) groupID 0 entries (control_seed K anchor)"

section \<open>One commit\<close>

record FoldEnvelopeContext =
  fc_controllerID :: did
  fc_memberController :: "did \<Rightarrow> did option"

datatype EnvelopeFoldResult =
    EnvelopeOk RosterState DeviceRegistry "json VerifiedLedgerEntry list"
  | EnvelopeRejected string string "RevokeProofReason option"

definition GROUP_TYPE_PREFIX :: string where "GROUP_TYPE_PREFIX = ''kumiai.''"

text \<open>One entry of an envelope: the next state and what it surfaces, or why the commit is rejected.\<close>

definition envelope_step ::
  "kokuin \<Rightarrow> FoldEnvelopeContext option \<Rightarrow> string \<Rightarrow> json VerifiedLedgerEntry \<Rightarrow> ControlState
     \<Rightarrow> (string \<times> RevokeProofReason option) + ControlState \<times> json VerifiedLedgerEntry list" where
  "envelope_step K context groupID verified st =
     (let entry = ve_entry verified; issuer = ve_issuer verified in
      if le_groupID entry \<noteq> groupID then Inl (''cross-group entry'', None)
      else if le_type entry = DEVICE_ENTRY_TYPE then
        (case asDeviceValue K (le_value entry) of
           None \<Rightarrow> Inl (''malformed kumiai.device value'', None)
         | Some val \<Rightarrow>
             if (case context of
                   Some _ \<Rightarrow> \<not> isLifecycleDeviceValue val
                 | None \<Rightarrow> dv_op val = Reset \<or> dv_op val = Clock \<or> dv_proof val \<noteq> None)
             then Inl (''device operation is not allowed in this group'', None)
             else (case registryApply K issuer (le_subject entry) val (ct_registry st) (map_option fc_controllerID context) of
                Inl e \<Rightarrow> Inl (''invalid lifecycle proof'', case e of RevokeProofError r \<Rightarrow> Some r | _ \<Rightarrow> None)
              | Inr registry \<Rightarrow> Inr (st \<lparr> ct_registry := registry \<rparr>, [])))
      else (case context of
         Some ctx \<Rightarrow>
           if prefix GROUP_TYPE_PREFIX (le_type entry) then Inl (''reserved lifecycle entry type'', None)
           else if map_option (normalizeDID K) (fc_memberController ctx (normalizeDID K issuer))
                \<noteq> Some (normalizeDID K (fc_controllerID ctx))
           then Inl (''issuer has no pre-commit controller-bound leaf'', None)
           else Inr (st, [verified])
       | None \<Rightarrow>
           if role_of (ct_roster st) (authority K (ct_registry st) issuer) \<noteq> Some Admin
           then Inl (''non-admin issuer '' @ issuer, None)
           else if le_type entry = ROLE_ENTRY_TYPE then
             (case role_value (le_value entry) of
                None \<Rightarrow> Inl (''invalid role value'', None)
              | Some v \<Rightarrow>
                  (let roster = apply_role K verified v (ct_roster st)
                   in if adminCount roster = 0 then Inl (''would empty the admin set'', None)
                      else Inr (st \<lparr> ct_roster := roster \<rparr>, [])))
           else if prefix GROUP_TYPE_PREFIX (le_type entry) then Inl (''unknown kumiai.* type'', None)
           else Inr (st, [verified])))"

fun foldEnvelope_from ::
  "kokuin \<Rightarrow> FoldEnvelopeContext option \<Rightarrow> string \<Rightarrow> json FoldInput list \<Rightarrow> ControlState
     \<Rightarrow> json VerifiedLedgerEntry list \<Rightarrow> EnvelopeFoldResult" where
  "foldEnvelope_from K context groupID [] st surfaced = EnvelopeOk (ct_roster st) (ct_registry st) surfaced"
| "foldEnvelope_from K context groupID (input # entries) st surfaced =
     (case envelope_step K context groupID (fi_verified input) st of
        Inl (reason, err) \<Rightarrow> EnvelopeRejected reason (fi_entryID input) err
      | Inr (st, shown) \<Rightarrow> foldEnvelope_from K context groupID entries st (surfaced @ shown))"

definition foldEnvelope ::
  "kokuin \<Rightarrow> RosterState \<Rightarrow> DeviceRegistry \<Rightarrow> json FoldInput list \<Rightarrow> string \<Rightarrow> FoldEnvelopeContext option
     \<Rightarrow> EnvelopeFoldResult" where
  "foldEnvelope K baseRoster baseRegistry entries groupID context =
     foldEnvelope_from K context groupID entries \<lparr> ct_roster = baseRoster, ct_registry = baseRegistry \<rparr> []"

end
