(* ===== verification/Registry_Laws.thy ===== *)
theory Registry_Laws
  imports Control_Fold
begin

text \<open>
  What a registry never loses, by the parts of the fold step: a terminal revocation and the controller it
  is under, a removed member, the generation and time floors of a controller, and what a member attested. The interface \<open>replay_law\<close> is a relation every
  accepted entry respects; the replay then respects it, and each measure is an interpretation of it.
\<close>

section \<open>A terminal revocation\<close>

definition terminally_revoked :: "DeviceRegistry \<Rightarrow> did \<Rightarrow> bool" where
  "terminally_revoked registry d = (case map_of (rg_devices registry) d of None \<Rightarrow> False | Some r \<Rightarrow> terminal r)"

definition terminal_in :: "devices \<Rightarrow> did \<Rightarrow> bool" where
  "terminal_in devices d = (case map_of devices d of None \<Rightarrow> False | Some r \<Rightarrow> terminal r)"

lemma terminally_revoked_in: "terminally_revoked registry d = terminal_in (rg_devices registry) d"
  by (simp add: terminally_revoked_def terminal_in_def)

lemma terminal_revoked_record [simp]: "terminal (revoked_record c ref)"
  by (simp add: terminal_def isResetOnly_def revoked_record_def)

lemma terminal_in_update:
  "terminal_in (AList.update k r devices) d = (if d = k then terminal r else terminal_in devices d)"
  by (simp add: terminal_in_def update_conv')

lemma seed_claims_terminal:
  "seed_claims K c lg folded claims (devices, removed) = Inr (devices', removed') \<Longrightarrow>
     terminal_in devices d \<Longrightarrow> terminal_in devices' d"
  by (induction K c lg folded claims "(devices, removed)" arbitrary: devices removed rule: seed_claims.induct)
    (auto simp: terminal_in_update split: EffectClaim.splits option.splits)

lemma apply_revoked_terminal:
  "apply_revoked K c reset denials ref rs devices = Inr devices' \<Longrightarrow>
     terminal_in devices d \<Longrightarrow> terminal_in devices' d"
proof (induction rs arbitrary: devices)
  case (Cons r rs)
  let ?d = "normalizeDID K (re_did r)"
  show ?case
  proof (cases "d = ?d \<and> terminal_in devices d")
    case True
    then have "apply_revoked K c reset denials ref rs devices = Inr devices'"
      using Cons.prems(1) by (auto simp: Let_def terminal_in_def terminal_def split: option.splits if_splits)
    with Cons show ?thesis by blast
  next
    case False
    with Cons.prems(2) have "d \<noteq> ?d" by blast
    with Cons show ?thesis
      by (auto simp: Let_def terminal_in_update split: option.splits if_splits)
  qed
qed simp

lemma apply_denial_terminal: "terminal_in devices d \<Longrightarrow> terminal_in (apply_denial c p devices) d"
proof (cases p)
  case (Pair k ref)
  have "apply_denial c p devices =
      (if terminal_in devices k then devices else AList.update k (revoked_record c ref) devices)"
    by (simp add: Pair apply_denial_def terminal_in_def)
  then show "terminal_in devices d \<Longrightarrow> ?thesis" by (simp add: terminal_in_update)
qed

lemma fold_denials_terminal: "terminal_in devices d \<Longrightarrow> terminal_in (fold (apply_denial c) ps devices) d"
  by (induction ps arbitrary: devices) (simp_all add: apply_denial_terminal)

lemma map_of_map_value:
  "(\<And>k v. fst (f (k, v)) = k) \<Longrightarrow> map_of (map f xs) d = map_option (\<lambda>v. snd (f (d, v))) (map_of xs d)"
proof (induction xs)
  case (Cons p xs)
  obtain k v where p: "p = (k, v)" by (cases p)
  then have "f p = (k, snd (f (k, v)))" using Cons.prems [of k v] by (cases "f p") simp
  then show ?case using Cons by (simp add: p)
qed simp

lemma settle_devices_terminal: "terminal_in (settle_devices K c chain devices) d = terminal_in devices d"
  unfolding terminal_in_def settle_devices_def
  by (subst map_of_map_value)
    (auto simp: terminal_def isResetOnly_def split: option.splits)

lemma applyStandard_devices:
  obtains "rg_devices (applyStandard K subject val registry) = rg_devices registry"
  | r where "rg_devices (applyStandard K subject val registry) = AList.update subject r (rg_devices registry)"
      and "terminal_in (rg_devices registry) subject \<Longrightarrow> terminal r"
proof -
  have admit: "terminal_in (rg_devices registry) subject \<Longrightarrow> dv_op val \<in> {Register, Add} \<Longrightarrow>
      rg_devices (applyStandard K subject val registry) = rg_devices registry"
    by (auto simp: applyStandard_def Let_def terminal_in_def split: option.splits)
  show thesis
  proof (cases "dv_op val \<in> {Register, Add}")
    case True
    with admit that show thesis
      by (cases "terminal_in (rg_devices registry) subject"; cases "map_of (rg_devices registry) subject")
        (auto simp: applyStandard_def Let_def terminal_in_def)
  next
    case False
    with that show thesis
      by (cases "dv_op val"; cases "map_of (rg_devices registry) subject"; cases "dv_label val")
        (auto simp: applyStandard_def Let_def terminal_in_def terminal_def isResetOnly_def)
  qed
qed

lemma standard_terminal:
  "terminally_revoked registry d \<Longrightarrow> terminally_revoked (applyStandard K subject val registry) d"
  unfolding terminally_revoked_in
  by (rule applyStandard_devices [of K subject val registry]) (auto simp: terminal_in_update)

lemma seedEffects_terminal:
  assumes "seedEffects K c devices lg p = Inr (devices', p')" and "terminal_in devices d"
  shows "terminal_in devices' d"
  using assms by (auto simp: seedEffects_def then_do_Inr split: prod.splits intro: seed_claims_terminal)

text \<open>The stages of a lifecycle entry, once.\<close>

lemma applyLifecycle_cases:
  assumes "applyLifecycle K c subj val registry previous = Inr registry'"
  obtains ap seeded projection devices grants where
    "authenticateLifecycleProof K c subj val registry = Inr ap"
    "(if dv_op val = Seed
      then seedEffects K c (rg_devices registry) (ap_recordedLog ap)
             (previous \<lparr> cp_recordedLog := Some (ap_recordedLog ap), cp_genFloor := ap_genFloor ap \<rparr>)
      else Inr (rg_devices registry, previous \<lparr> cp_recordedLog := Some (ap_recordedLog ap),
                                              cp_genFloor := ap_genFloor ap \<rparr>)) = Inr (seeded, projection)"
    "apply_revoked K c (dv_op val = Reset) (denials_in K val) (ap_resetRef ap)
       (or_else (dv_revoked val) []) seeded = Inr devices"
    "rg_devices registry' = settle_devices K c (cl_chain (ap_recordedLog ap))
       (fold (apply_denial c) (denials_in K val) devices)"
    "rg_controllers registry' = AList.update c
       (projection \<lparr> cp_removedMembers := settle_removed K c (cl_chain (ap_recordedLog ap))
            (apply_removals K val (ap_genFloor ap) (cp_removedMembers projection)),
          cp_survivorGrants := grants \<rparr>) (rg_controllers registry)"
  using assms unfolding applyLifecycle_def then_do_Inr Let_def
  by (auto simp: then_do_Inr intro: that)

lemma lifecycle_terminal:
  assumes "applyLifecycle K c subj val registry previous = Inr registry'" and "terminally_revoked registry d"
  shows "terminally_revoked registry' d"
proof -
  from assms(1) obtain ap :: AuthenticatedProof and seeded projection devices where
    seeding: "(if dv_op val = Seed
      then seedEffects K c (rg_devices registry) (ap_recordedLog ap)
             (previous \<lparr> cp_recordedLog := Some (ap_recordedLog ap), cp_genFloor := ap_genFloor ap \<rparr>)
      else Inr (rg_devices registry, previous \<lparr> cp_recordedLog := Some (ap_recordedLog ap),
                                              cp_genFloor := ap_genFloor ap \<rparr>)) = Inr (seeded, projection)"
    and revoked: "apply_revoked K c (dv_op val = Reset) (denials_in K val) (ap_resetRef ap)
       (or_else (dv_revoked val) []) seeded = Inr devices"
    and final: "rg_devices registry' = settle_devices K c (cl_chain (ap_recordedLog ap))
       (fold (apply_denial c) (denials_in K val) devices)"
    by (rule applyLifecycle_cases) (rule that)
  have "terminal_in seeded d"
    using seeding assms(2) by (auto simp: terminally_revoked_in split: if_splits intro: seedEffects_terminal)
  from apply_revoked_terminal [OF revoked this] show ?thesis
    by (simp add: terminally_revoked_in final settle_devices_terminal fold_denials_terminal)
qed

lemma registryApply_terminal:
  assumes "registryApply K issuer subj val registry controllerID = Inr registry'"
    and "terminally_revoked registry d"
  shows "terminally_revoked registry' d"
  using assms
  by (auto simp: registryApply_def Let_def then_do_Inr terminally_revoked_in
      split: option.splits if_splits
      intro: standard_terminal [unfolded terminally_revoked_in] lifecycle_terminal [unfolded terminally_revoked_in])

section \<open>Floors and attestations\<close>

text \<open>A projection knows at least what another knows.\<close>

definition knows_more :: "ControllerProjection option \<Rightarrow> ControllerProjection option \<Rightarrow> bool" where
  "knows_more p q \<longleftrightarrow> gen_floor q \<le> gen_floor p \<and> time_floor q \<le> time_floor p \<and> (\<forall>key. attested q key \<le> attested p key)"

lemma knows_more_refl [simp]: "knows_more p p"
  by (simp add: knows_more_def)

lemma knows_more_trans: "knows_more p q \<Longrightarrow> knows_more q r \<Longrightarrow> knows_more p r"
  by (auto simp: knows_more_def intro: order_trans)

lemma projection_default:
  "gen_floor (Some (or_else p controllerProjection)) = gen_floor p"
  "time_floor (Some (or_else p controllerProjection)) = time_floor p"
  "attested (Some (or_else p controllerProjection)) key = attested p key"
  by (cases p; simp add: gen_floor_def time_floor_def attested_def controllerProjection_def)+

lemma knows_more_default: "knows_more (Some (or_else p controllerProjection)) p"
  by (simp add: knows_more_def projection_default)

lemma authenticate_log_floor:
  "authenticate_log K c val previous = Inr ap \<Longrightarrow> gen_floor previous \<le> ap_genFloor ap"
  by (auto simp: authenticate_log_def Let_def then_do_Inr split: if_splits option.splits)

lemma authenticate_effects_floor:
  "authenticate_effects K c val previous = Inr ap \<Longrightarrow> gen_floor previous \<le> ap_genFloor ap"
  by (cases "dv_proof val"; cases "dv_effects val")
    (auto simp: authenticate_effects_def Let_def then_do_Inr simp del: split_paired_Ex split: if_split_asm)

lemma authenticate_floor:
  assumes "authenticateLifecycleProof K c subj val registry = Inr ap"
  shows "gen_floor (map_of (rg_controllers registry) (normalizeDID K c)) \<le> ap_genFloor ap"
  using assms authenticate_log_floor authenticate_effects_floor
  by (fastforce simp: authenticateLifecycleProof_def Let_def split: if_split_asm)

lemma seedEffects_projection:
  assumes "seedEffects K c devices lg p = Inr (devices', p')"
  shows "\<exists>removed. p' = p \<lparr> cp_removedMembers := removed \<rparr>"
  using assms by (auto simp: seedEffects_def then_do_Inr split: prod.splits)

lemma lifecycle_knows_more:
  assumes step: "applyLifecycle K c subj val registry (or_else (map_of (rg_controllers registry) c) controllerProjection)
      = Inr registry'"
    and norm: "normalizeDID K c = c"
  shows "knows_more (map_of (rg_controllers registry') d) (map_of (rg_controllers registry) d)"
proof -
  let ?previous = "or_else (map_of (rg_controllers registry) c) controllerProjection"
  from step obtain ap :: AuthenticatedProof and seeded projection devices grants where
    proved: "authenticateLifecycleProof K c subj val registry = Inr ap"
    and seeding: "(if dv_op val = Seed
      then seedEffects K c (rg_devices registry) (ap_recordedLog ap)
             (?previous \<lparr> cp_recordedLog := Some (ap_recordedLog ap), cp_genFloor := ap_genFloor ap \<rparr>)
      else Inr (rg_devices registry, ?previous \<lparr> cp_recordedLog := Some (ap_recordedLog ap),
                                              cp_genFloor := ap_genFloor ap \<rparr>)) = Inr (seeded, projection)"
    and final: "rg_controllers registry' = AList.update c
       (projection \<lparr> cp_removedMembers := settle_removed K c (cl_chain (ap_recordedLog ap))
            (apply_removals K val (ap_genFloor ap) (cp_removedMembers projection)),
          cp_survivorGrants := grants \<rparr>) (rg_controllers registry)"
    by (rule applyLifecycle_cases) (rule that)
  obtain removed where projection: "projection = ?previous \<lparr> cp_recordedLog := Some (ap_recordedLog ap),
      cp_genFloor := ap_genFloor ap, cp_removedMembers := removed \<rparr>
    \<or> projection = ?previous \<lparr> cp_recordedLog := Some (ap_recordedLog ap), cp_genFloor := ap_genFloor ap \<rparr>"
    using seeding by (auto split: if_splits dest: seedEffects_projection)
  have low: "gen_floor (map_of (rg_controllers registry) c) \<le> ap_genFloor ap"
    using authenticate_floor [OF proved] by (simp add: norm)
  show ?thesis
  proof (cases "d = c")
    case True
    have "time_floor (Some projection) = time_floor (map_of (rg_controllers registry) c)"
      "attested (Some projection) key = attested (map_of (rg_controllers registry) c) key"
      "gen_floor (Some projection) = ap_genFloor ap" for key
      using projection projection_default(2,3) [of "map_of (rg_controllers registry) c"]
      by (auto simp: time_floor_def attested_def gen_floor_def)
    with low True show ?thesis
      by (simp add: knows_more_def final update_conv' gen_floor_def time_floor_def attested_def)
  next
    case False
    then show ?thesis by (simp add: final update_conv')
  qed
qed

lemma clock_knows_more:
  assumes "applyClock K c issuer val (or_else p controllerProjection) = Inr p'"
  shows "knows_more (Some p') p"
proof -
  define q where "q = or_else p controllerProjection"
  have "(\<exists>k t. p' = q \<lparr> cp_attestations := AList.update k (max (or_else (map_of (cp_attestations q) k) 0) t) (cp_attestations q) \<rparr>)
      \<or> (\<exists>t. p' = q \<lparr> cp_timeFloor := max (cp_timeFloor q) t \<rparr>)"
    using assms unfolding q_def [symmetric]
    by (cases "dv_attest val") (auto simp: applyClock_def Let_def split: option.splits)
  then have "knows_more (Some p') (Some q)"
    by (auto simp: knows_more_def gen_floor_def time_floor_def attested_def update_conv')
  then show ?thesis unfolding q_def using knows_more_default knows_more_trans by blast
qed

lemma standard_knows_more:
  "knows_more (map_of (rg_controllers (applyStandard K subject val registry)) d) (map_of (rg_controllers registry) d)"
proof -
  let ?held = "or_else (map_of (rg_controllers registry) subject) controllerProjection"
  have "rg_controllers (applyStandard K subject val registry) = rg_controllers registry
      \<or> (\<exists>b. rg_controllers (applyStandard K subject val registry) =
             AList.update subject (?held \<lparr> cp_beacon := b \<rparr>) (rg_controllers registry))"
    by (cases "dv_op val") (auto simp: applyStandard_def Let_def split: option.splits)
  moreover have "knows_more (Some (?held \<lparr> cp_beacon := b \<rparr>)) (map_of (rg_controllers registry) subject)" for b
    using knows_more_default [of "map_of (rg_controllers registry) subject"]
    by (simp add: knows_more_def gen_floor_def time_floor_def attested_def)
  ultimately show ?thesis by (auto simp: update_conv')
qed

lemma registryApply_knows_more:
  assumes idem: "\<And>d. normalizeDID K (normalizeDID K d) = normalizeDID K d"
    and step: "registryApply K issuer subj val registry controllerID = Inr registry'"
  shows "knows_more (map_of (rg_controllers registry') d) (map_of (rg_controllers registry) d)"
proof (cases "\<exists>c. controllerID = Some c \<and> dv_op val \<in> {Reset, Revoke, Clock, Log, Seed}")
  case True
  then obtain c where c: "controllerID = Some c" "dv_op val \<in> {Reset, Revoke, Clock, Log, Seed}" by blast
  show ?thesis
  proof (cases "dv_op val = Clock")
    case True
    with step c obtain p' where "applyClock K (normalizeDID K c) issuer val
        (or_else (map_of (rg_controllers registry) (normalizeDID K c)) controllerProjection) = Inr p'"
      and "registry' = registry \<lparr> rg_controllers := AList.update (normalizeDID K c) p' (rg_controllers registry) \<rparr>"
      by (auto simp: registryApply_def Let_def then_do_Inr)
    then show ?thesis by (auto simp: update_conv' dest: clock_knows_more)
  next
    case False
    with step c have "applyLifecycle K (normalizeDID K c) subj val registry
        (or_else (map_of (rg_controllers registry) (normalizeDID K c)) controllerProjection) = Inr registry'"
      by (auto simp: registryApply_def Let_def)
    then show ?thesis by (rule lifecycle_knows_more) (rule idem)
  qed
next
  case False
  with step have "registry' = applyStandard K (normalizeDID K subj) val registry"
    by (cases controllerID) (auto simp: registryApply_def)
  then show ?thesis by (simp add: standard_knows_more)
qed

section \<open>Revocations and removals of one controller\<close>

text \<open>A terminal revocation stays under the controller of the group, and what was removed stays removed.\<close>

definition bound_in :: "did \<Rightarrow> devices \<Rightarrow> did \<Rightarrow> bool" where
  "bound_in c devices d = (case map_of devices d of None \<Rightarrow> False | Some r \<Rightarrow> terminal r \<and> dr_controller r = c)"

lemma bound_in_update:
  "bound_in c (AList.update k r devices) d = (if d = k then terminal r \<and> dr_controller r = c else bound_in c devices d)"
  by (simp add: bound_in_def update_conv')

lemma bound_revoked_record [simp]: "dr_controller (revoked_record c ref) = c"
  by (simp add: revoked_record_def)

lemma bound_terminal: "bound_in c devices d \<Longrightarrow> terminal_in devices d"
  by (auto simp: bound_in_def terminal_in_def split: option.splits)

lemma seed_claims_bound:
  "seed_claims K c lg folded claims (devices, removed) = Inr (devices', removed') \<Longrightarrow>
     bound_in c devices d \<Longrightarrow> bound_in c devices' d"
  by (induction K c lg folded claims "(devices, removed)" arbitrary: devices removed rule: seed_claims.induct)
    (auto simp: bound_in_update split: EffectClaim.splits option.splits)

lemma seed_claims_removed:
  "seed_claims K c lg folded claims (devices, removed) = Inr (devices', removed') \<Longrightarrow> fst ` set removed \<subseteq> fst ` set removed'"
proof (induction K c lg folded claims "(devices, removed)" arbitrary: devices removed rule: seed_claims.induct)
  case (2 K c lg folded claim claims devices removed)
  show ?case
  proof (cases claim)
    case (RemoveClaim d add ref)
    with 2 obtain m where "fst ` set (AList.update add m removed) \<subseteq> fst ` set removed'"
      by (fastforce split: option.splits)
    then show ?thesis by (simp add: dom_update)
  qed (use 2 in auto)
qed simp

lemma apply_revoked_bound:
  "apply_revoked K c reset denials ref rs devices = Inr devices' \<Longrightarrow> bound_in c devices d \<Longrightarrow> bound_in c devices' d"
proof (induction rs arbitrary: devices)
  case (Cons r rs)
  let ?d = "normalizeDID K (re_did r)"
  show ?case
  proof (cases "d = ?d")
    case True
    then have "apply_revoked K c reset denials ref rs devices = Inr devices'"
      using Cons.prems by (auto simp: Let_def bound_in_def terminal_def split: option.splits if_splits)
    with Cons show ?thesis by blast
  next
    case False
    with Cons show ?thesis
      by (auto simp: Let_def bound_in_update split: option.splits if_splits)
  qed
qed simp

lemma fold_denials_bound: "bound_in c devices d \<Longrightarrow> bound_in c (fold (apply_denial c') ps devices) d"
proof (induction ps arbitrary: devices)
  case (Cons p ps)
  obtain k ref where p: "p = (k, ref)" by (cases p)
  have "apply_denial c' p devices = (if terminal_in devices k then devices else AList.update k (revoked_record c' ref) devices)"
    by (simp add: p apply_denial_def terminal_in_def)
  with Cons.prems have "bound_in c (apply_denial c' p devices) d"
    by (auto simp: bound_in_update dest: bound_terminal)
  from Cons.IH [OF this] show ?case by simp
qed simp

lemma settle_devices_bound: "bound_in c (settle_devices K c' chain devices) d = bound_in c devices d"
  unfolding bound_in_def settle_devices_def
  by (subst map_of_map_value) (auto simp: terminal_def isResetOnly_def split: option.splits)

lemma applyStandard_bound_devices:
  obtains "rg_devices (applyStandard K subject val registry) = rg_devices registry"
  | r where "rg_devices (applyStandard K subject val registry) = AList.update subject r (rg_devices registry)"
      and "bound_in c (rg_devices registry) subject \<Longrightarrow> terminal r \<and> dr_controller r = c"
proof -
  have admit: "bound_in c (rg_devices registry) subject \<Longrightarrow> dv_op val \<in> {Register, Add} \<Longrightarrow>
      rg_devices (applyStandard K subject val registry) = rg_devices registry"
    by (auto simp: applyStandard_def Let_def bound_in_def split: option.splits)
  show thesis
  proof (cases "dv_op val \<in> {Register, Add}")
    case True
    show thesis
    proof (cases "bound_in c (rg_devices registry) subject")
      case False
      show thesis
      proof (cases "rg_devices (applyStandard K subject val registry) = rg_devices registry")
        case other: False
        then obtain r where "rg_devices (applyStandard K subject val registry) = AList.update subject r (rg_devices registry)"
          using True by (auto simp: applyStandard_def Let_def split: option.splits if_splits)
        with False show thesis by (intro that(2)) auto
      qed (rule that(1))
    qed (use admit True that(1) in blast)
  next
    case False
    with that show thesis
      by (cases "dv_op val"; cases "map_of (rg_devices registry) subject"; cases "dv_label val")
        (auto simp: applyStandard_def Let_def bound_in_def terminal_def isResetOnly_def)
  qed
qed

lemma standard_bound:
  "bound_in c (rg_devices registry) d \<Longrightarrow> bound_in c (rg_devices (applyStandard K subject val registry)) d"
  by (rule applyStandard_bound_devices [where K = K and subject = subject and val = val and registry = registry and c = c])
    (auto simp: bound_in_update)

lemma settle_removed_keys: "fst ` set (settle_removed K c chain removed) = fst ` set removed"
proof -
  have same: "map fst (map f xs) = map fst xs" if "\<And>p. fst (f p) = fst p" for f :: "'a \<times> 'b \<Rightarrow> 'a \<times> 'b" and xs
    using that by (induction xs) simp_all
  have "map fst (settle_removed K c chain removed) = map fst removed"
    unfolding settle_removed_def by (rule same) (auto split: prod.split option.split)
  then show ?thesis by (metis set_map)
qed

lemma apply_removals_keys: "fst ` set removed \<subseteq> fst ` set (apply_removals K val gen removed)"
proof -
  have "fst ` set removed \<subseteq> fst ` set (fold (\<lambda>c held. case c of
         RemoveClaim d add ref \<Rightarrow> AList.update add \<lparr> rm_did = normalizeDID K d, rm_gen = gen, rm_proofRef = ref \<rparr> held
       | _ \<Rightarrow> held) claims removed)" for claims
  proof (induction claims arbitrary: removed)
    case (Cons claim claims)
    show ?case
    proof (cases claim)
      case (RemoveClaim d add ref)
      have "fst ` set removed \<subseteq> fst ` set (AList.update add \<lparr> rm_did = normalizeDID K d, rm_gen = gen, rm_proofRef = ref \<rparr> removed)"
        by (auto simp: dom_update)
      also note Cons.IH
      finally show ?thesis by (simp add: RemoveClaim)
    qed (use Cons.IH in simp)
  qed simp
  then show ?thesis by (simp add: apply_removals_def)
qed

definition removed_keys :: "DeviceRegistry \<Rightarrow> did \<Rightarrow> string set" where
  "removed_keys registry c = (case map_of (rg_controllers registry) c of
     None \<Rightarrow> {} | Some p \<Rightarrow> fst ` set (cp_removedMembers p))"

definition one_record_each :: "devices \<Rightarrow> bool" where
  "one_record_each devices \<longleftrightarrow> distinct (map fst devices)"

lemma one_record_update: "one_record_each devices \<Longrightarrow> one_record_each (AList.update k r devices)"
  by (simp add: one_record_each_def distinct_update)

lemma seed_claims_one_record:
  "seed_claims K c lg folded claims (devices, removed) = Inr (devices', removed') \<Longrightarrow>
     one_record_each devices \<Longrightarrow> one_record_each devices'"
  by (induction K c lg folded claims "(devices, removed)" arbitrary: devices removed rule: seed_claims.induct)
    (auto simp: one_record_update split: EffectClaim.splits option.splits)

lemma apply_revoked_one_record:
  "apply_revoked K c reset denials ref rs devices = Inr devices' \<Longrightarrow> one_record_each devices \<Longrightarrow> one_record_each devices'"
  by (induction rs arbitrary: devices)
    (auto simp: Let_def one_record_update split: option.splits if_splits)

lemma fold_denials_one_record:
  "one_record_each devices \<Longrightarrow> one_record_each (fold (apply_denial c) ps devices)"
  by (induction ps arbitrary: devices) (auto simp: apply_denial_def one_record_update)

lemma settle_devices_one_record: "one_record_each (settle_devices K c chain devices) = one_record_each devices"
proof -
  have same: "map fst (map f xs) = map fst xs" if "\<And>p. fst (f p) = fst p" for f :: "'a \<times> 'b \<Rightarrow> 'a \<times> 'b" and xs
    using that by (induction xs) simp_all
  have "map fst (settle_devices K c chain devices) = map fst devices"
    unfolding settle_devices_def by (rule same) (auto split: prod.split option.split)
  then show ?thesis by (simp add: one_record_each_def)
qed

lemma standard_one_record:
  "one_record_each (rg_devices registry) \<Longrightarrow> one_record_each (rg_devices (applyStandard K subject val registry))"
  by (rule applyStandard_devices [of K subject val registry]) (auto simp: one_record_update)

text \<open>What an entry keeps of the controller \<open>c\<close>.\<close>

definition effects_kept :: "did \<Rightarrow> DeviceRegistry \<Rightarrow> DeviceRegistry \<Rightarrow> bool" where
  "effects_kept c r r' \<longleftrightarrow> (one_record_each (rg_devices r) \<longrightarrow> one_record_each (rg_devices r'))
     \<and> (\<forall>d. bound_in c (rg_devices r) d \<longrightarrow> bound_in c (rg_devices r') d) \<and> removed_keys r c \<subseteq> removed_keys r' c"

lemma effects_kept_trans: "effects_kept c r s \<Longrightarrow> effects_kept c s t \<Longrightarrow> effects_kept c r t"
  by (auto simp: effects_kept_def)

lemma standard_keeps_effects: "effects_kept c r (applyStandard K subject val r)"
proof -
  have "removed_keys r c \<subseteq> removed_keys (applyStandard K subject val r) c"
    by (cases "dv_op val"; cases "map_of (rg_controllers r) subject")
      (auto simp: applyStandard_def Let_def removed_keys_def update_conv' split: option.splits)
  then show ?thesis by (simp add: effects_kept_def standard_bound standard_one_record)
qed

lemma clock_keeps_effects:
  assumes "applyClock K c issuer val (or_else (map_of (rg_controllers r) c) controllerProjection) = Inr p"
  shows "effects_kept c r (r \<lparr> rg_controllers := AList.update c p (rg_controllers r) \<rparr>)"
proof -
  have "cp_removedMembers p = cp_removedMembers (or_else (map_of (rg_controllers r) c) controllerProjection)"
    using assms by (auto simp: applyClock_def Let_def split: if_splits option.splits)
  then show ?thesis
    by (cases "map_of (rg_controllers r) c") (auto simp: effects_kept_def removed_keys_def update_conv')
qed

lemma seedEffects_keeps:
  assumes "seedEffects K c devices lg p = Inr (devices', p')"
  shows "(one_record_each devices \<longrightarrow> one_record_each devices') \<and> (bound_in c devices d \<longrightarrow> bound_in c devices' d)
    \<and> fst ` set (cp_removedMembers p) \<subseteq> fst ` set (cp_removedMembers p')"
proof -
  from assms obtain folded claims removed where
    seeds: "seed_claims K c lg folded claims (devices, cp_removedMembers p) = Inr (devices', removed)"
    and p': "p' = p \<lparr> cp_removedMembers := removed \<rparr>"
    by (auto simp: seedEffects_def then_do_Inr split: prod.splits)
  show ?thesis
    using seed_claims_removed [OF seeds] seed_claims_bound [OF seeds] seed_claims_one_record [OF seeds]
    by (simp add: p')
qed

lemma lifecycle_keeps_effects:
  assumes "applyLifecycle K c subj val r (or_else (map_of (rg_controllers r) c) controllerProjection) = Inr r'"
  shows "effects_kept c r r'"
proof -
  let ?previous = "or_else (map_of (rg_controllers r) c) controllerProjection"
  from assms obtain ap :: AuthenticatedProof and seeded projection devices grants where
    seeding: "(if dv_op val = Seed
      then seedEffects K c (rg_devices r) (ap_recordedLog ap)
             (?previous \<lparr> cp_recordedLog := Some (ap_recordedLog ap), cp_genFloor := ap_genFloor ap \<rparr>)
      else Inr (rg_devices r, ?previous \<lparr> cp_recordedLog := Some (ap_recordedLog ap),
                                        cp_genFloor := ap_genFloor ap \<rparr>)) = Inr (seeded, projection)"
    and revoked: "apply_revoked K c (dv_op val = Reset) (denials_in K val) (ap_resetRef ap)
       (or_else (dv_revoked val) []) seeded = Inr devices"
    and devs: "rg_devices r' = settle_devices K c (cl_chain (ap_recordedLog ap))
       (fold (apply_denial c) (denials_in K val) devices)"
    and ctrls: "rg_controllers r' = AList.update c
       (projection \<lparr> cp_removedMembers := settle_removed K c (cl_chain (ap_recordedLog ap))
            (apply_removals K val (ap_genFloor ap) (cp_removedMembers projection)),
          cp_survivorGrants := grants \<rparr>) (rg_controllers r)"
    by (rule applyLifecycle_cases) (rule that)
  have seeds: "(one_record_each (rg_devices r) \<longrightarrow> one_record_each seeded)
      \<and> (bound_in c (rg_devices r) d \<longrightarrow> bound_in c seeded d)
      \<and> fst ` set (cp_removedMembers ?previous) \<subseteq> fst ` set (cp_removedMembers projection)" for d
  proof (cases "dv_op val = Seed")
    case True
    with seeding have "seedEffects K c (rg_devices r) (ap_recordedLog ap)
        (?previous \<lparr> cp_recordedLog := Some (ap_recordedLog ap), cp_genFloor := ap_genFloor ap \<rparr>) = Inr (seeded, projection)"
      by (simp only: refl if_True)
    from seedEffects_keeps [OF this, of d] show ?thesis by simp
  next
    case False
    then show ?thesis using seeding by (simp only: if_False) auto
  qed
  have "removed_keys r c \<subseteq> fst ` set (cp_removedMembers ?previous)"
    by (cases "map_of (rg_controllers r) c") (auto simp: removed_keys_def)
  also have "\<dots> \<subseteq> fst ` set (cp_removedMembers projection)"
    using seeds by blast
  also note apply_removals_keys [of "cp_removedMembers projection" K val "ap_genFloor ap"]
  finally have "removed_keys r c \<subseteq> removed_keys r' c"
    by (simp add: removed_keys_def ctrls update_conv' settle_removed_keys)
  moreover have "bound_in c (rg_devices r') d" if "bound_in c (rg_devices r) d" for d
    using apply_revoked_bound [OF revoked] seeds [of d] that
    by (simp add: devs settle_devices_bound fold_denials_bound)
  moreover have "one_record_each (rg_devices r')" if "one_record_each (rg_devices r)"
    using apply_revoked_one_record [OF revoked] seeds that
    by (simp add: devs settle_devices_one_record fold_denials_one_record)
  ultimately show ?thesis by (simp add: effects_kept_def)
qed

lemma registryApply_keeps_effects:
  assumes "registryApply K issuer subj val r (Some c) = Inr r'"
  shows "effects_kept (normalizeDID K c) r r'"
  using assms
  by (auto simp: registryApply_def Let_def then_do_Inr standard_keeps_effects split: if_splits
      dest: clock_keeps_effects lifecycle_keeps_effects)

lemma effects_kept_revocations:
  assumes kept: "effects_kept c known candidate" and one: "one_record_each (rg_devices known)"
  shows "list_all (kept_revocation c candidate) (rg_devices known)"
  unfolding list_all_iff
proof (intro ballI)
  fix held assume "held \<in> set (rg_devices known)"
  moreover obtain d r where held: "held = (d, r)" by (cases held)
  ultimately have "map_of (rg_devices known) d = Some r"
    using one by (simp add: one_record_each_def)
  then have "bound_in c (rg_devices candidate) d" if "dr_controller r = c" "terminal r"
    using kept that by (simp add: effects_kept_def bound_in_def)
  then show "kept_revocation c candidate held"
    by (auto simp: held kept_revocation_def bound_in_def split: option.splits)
qed

lemma effects_kept_removals:
  assumes "effects_kept c known candidate"
    and "(add, m) \<in> set (case map_of (rg_controllers known) c of None \<Rightarrow> [] | Some h \<Rightarrow> cp_removedMembers h)"
  shows "is_removed_member (map_of (rg_controllers candidate) c) add"
proof -
  have "add \<in> removed_keys known c"
    using assms(2) by (cases "map_of (rg_controllers known) c") (auto simp: removed_keys_def intro: rev_image_eqI)
  then have "add \<in> removed_keys candidate c"
    using assms(1) by (auto simp: effects_kept_def)
  then show ?thesis
    by (auto simp: removed_keys_def is_removed_member_def split: option.splits dest: weak_map_of_SomeI)
qed

section \<open>Along a replay\<close>

lemma control_step_Inr:
  assumes "control_step K controller g position verified st = Inr st'"
  obtains val registry where "asDeviceValue K (le_value (ve_entry verified)) = Some val"
      "registryApply K (ve_issuer verified) (le_subject (ve_entry verified)) val (ct_registry st) controller = Inr registry"
      "st' = st \<lparr> ct_registry := registry \<rparr>" "le_type (ve_entry verified) = DEVICE_ENTRY_TYPE"
      "le_groupID (ve_entry verified) = g"
  | v where "role_value (le_value (ve_entry verified)) = Some v"
      "role_of (ct_roster st) (authority K (ct_registry st) (ve_issuer verified)) = Some Admin"
      "0 < adminCount (apply_role K verified v (ct_roster st))"
      "st' = st \<lparr> ct_roster := apply_role K verified v (ct_roster st) \<rparr>" "controller = None"
      "le_type (ve_entry verified) = ROLE_ENTRY_TYPE" "le_groupID (ve_entry verified) = g"
  using assms unfolding control_step_def Let_def
  by (auto split: if_splits option.splits sum.splits)

locale replay_law =
  fixes K :: kokuin and controller :: "did option" and groupID :: string
    and rel :: "ControlState \<Rightarrow> ControlState \<Rightarrow> bool"
  assumes rel_refl: "rel st st"
    and rel_trans: "rel a b \<Longrightarrow> rel b c \<Longrightarrow> rel a c"
    and rel_step: "control_step K controller groupID position verified st = Inr st' \<Longrightarrow> rel st st'"
begin

lemma replay: "rel st (fst (foldControl_from K controller groupID position entries st))"
proof (induction entries arbitrary: position st)
  case (Cons e entries)
  show ?case
    by (cases "control_step K controller groupID position (fi_verified e) st")
      (auto intro: Cons.IH rel_trans [OF rel_step Cons.IH])
qed (simp add: rel_refl)

end

lemma foldControl_from_append:
  "fst (foldControl_from K c g position (xs @ ys) st) =
     fst (foldControl_from K c g (position + length xs) ys (fst (foldControl_from K c g position xs st)))"
  by (induction xs arbitrary: position st) (auto split: sum.split)

lemma foldControl_append:
  "fst (foldControl K (xs @ ys) anchor g) =
     fst (foldControl_from K (ga_controller anchor) g (length xs) ys (fst (foldControl K xs anchor g)))"
  by (simp add: foldControl_def foldControl_from_append)

interpretation terminal_law: replay_law K controller groupID
    "\<lambda>st st'. \<forall>d. terminally_revoked (ct_registry st) d \<longrightarrow> terminally_revoked (ct_registry st') d"
  for K controller groupID
  by unfold_locales (auto elim!: control_step_Inr intro: registryApply_terminal)

interpretation roster_law: replay_law K controller groupID
    "\<lambda>st st'. roster_inv (ct_roster st) \<longrightarrow> roster_inv (ct_roster st')"
  for K controller groupID
  by unfold_locales (auto elim!: control_step_Inr simp: roster_inv_def apply_role_def roster_apply_distinct)

definition floors_kept :: "kokuin \<Rightarrow> ControlState \<Rightarrow> ControlState \<Rightarrow> bool" where
  "floors_kept K st st' \<longleftrightarrow> (if \<forall>d. normalizeDID K (normalizeDID K d) = normalizeDID K d
     then \<forall>c. knows_more (map_of (rg_controllers (ct_registry st')) c) (map_of (rg_controllers (ct_registry st)) c)
     else True)"

interpretation floor_law: replay_law K controller groupID "floors_kept K" for K controller groupID
proof unfold_locales
  fix st a b c
  show "floors_kept K st st" by (simp add: floors_kept_def)
  show "floors_kept K a b \<Longrightarrow> floors_kept K b c \<Longrightarrow> floors_kept K a c"
    by (auto simp: floors_kept_def split: if_splits intro: knows_more_trans)
next
  fix position verified st st'
  show "control_step K controller groupID position verified st = Inr st' \<Longrightarrow> floors_kept K st st'"
    by (auto elim!: control_step_Inr simp: floors_kept_def intro: registryApply_knows_more)
qed

interpretation effect_law: replay_law K "Some c" groupID
    "\<lambda>st st'. effects_kept (normalizeDID K c) (ct_registry st) (ct_registry st')"
  for K c groupID
  by unfold_locales (auto elim!: control_step_Inr dest: registryApply_keeps_effects intro: effects_kept_trans
      simp: effects_kept_def [of _ r r for r])

end
