(* ===== verification/Ledger_Head.thy ===== *)
theory Ledger_Head
  imports Group_Anchor
begin

text \<open>
  The ledger head of \<^verbatim>\<open>mls/src/head.ts\<close>: a hash chain over the ids of the enacted entries, and its
  extension bytes. The digest \<^verbatim>\<open>sha256\<close> is the argument \<open>sha\<close>. A string stands for the bytes of its UTF-8
  encoding.
\<close>

unbundle bit_operations_syntax

definition utf8 :: "string \<Rightarrow> bytes" where
  "utf8 s = map (\<lambda>c. of_nat (of_char c)) s"

definition LEDGER_HEAD_VERSION :: "8 word" where "LEDGER_HEAD_VERSION = 1"
definition DOMAIN :: bytes where "DOMAIN = utf8 ''kumiai/mls/ledger-head/v1''"
definition SHA256_LENGTH :: nat where "SHA256_LENGTH = 32"

record LedgerHead =
  lh_v :: "8 word"
  lh_head :: bytes

text \<open>\<^verbatim>\<open>DataView.setUint32(0, n, false)\<close>: the low 32 bits of \<open>n\<close>, most significant byte first.\<close>

definition uint32_be :: "nat \<Rightarrow> bytes" where
  "uint32_be n = (let w = of_nat n :: 32 word in map (\<lambda>k. ucast (drop_bit (8 * k) w)) [3, 2, 1, 0])"

definition frameID :: "string \<Rightarrow> bytes" where
  "frameID i = (let bytes = utf8 i in uint32_be (length bytes) @ bytes)"

definition genesisHead :: "(bytes \<Rightarrow> bytes) \<Rightarrow> string \<Rightarrow> bytes" where
  "genesisHead sha groupID = sha (DOMAIN @ utf8 groupID)"

fun extendHead :: "(bytes \<Rightarrow> bytes) \<Rightarrow> bytes \<Rightarrow> string list \<Rightarrow> bytes" where
  "extendHead sha head [] = head"
| "extendHead sha head (i # ids) = extendHead sha (sha (head @ frameID i)) ids"

definition computeHead :: "(bytes \<Rightarrow> bytes) \<Rightarrow> string \<Rightarrow> string list \<Rightarrow> bytes" where
  "computeHead sha groupID entryIDs = extendHead sha (genesisHead sha groupID) entryIDs"

definition encodeLedgerHead :: "bytes \<Rightarrow> bytes" where
  "encodeLedgerHead head = LEDGER_HEAD_VERSION # head"

definition decodeLedgerHead :: "bytes \<Rightarrow> LedgerHead option" where
  "decodeLedgerHead bytes =
     (if length bytes \<noteq> 1 + SHA256_LENGTH \<or> bytes ! 0 \<noteq> LEDGER_HEAD_VERSION then None
      else Some \<lparr> lh_v = LEDGER_HEAD_VERSION, lh_head = drop 1 bytes \<rparr>)"

text \<open>The extensions of a group context: raw bytes, or a decoded object this package never reads.\<close>

datatype extension_data = RawData bytes | DecodedData json

record GroupContextExtension =
  ex_type :: nat
  ex_data :: extension_data

definition buildLedgerHeadExtension :: "bytes \<Rightarrow> GroupContextExtension" where
  "buildLedgerHeadExtension head = \<lparr> ex_type = LEDGER_HEAD_EXTENSION_TYPE, ex_data = RawData (encodeLedgerHead head) \<rparr>"

definition readLedgerHeadExtension :: "GroupContextExtension list \<Rightarrow> GroupContextExtension option" where
  "readLedgerHeadExtension extensions = find (\<lambda>e. ex_type e = LEDGER_HEAD_EXTENSION_TYPE) extensions"

definition readLedgerHead :: "GroupContextExtension list \<Rightarrow> string + LedgerHead option" where
  "readLedgerHead extensions = (case readLedgerHeadExtension extensions of
       None \<Rightarrow> Inr None
     | Some e \<Rightarrow>
         (case (case ex_data e of RawData b \<Rightarrow> decodeLedgerHead b | DecodedData _ \<Rightarrow> None) of
            None \<Rightarrow> Inl ''ledger head extension present but could not be decoded''
          | Some head \<Rightarrow> Inr (Some head)))"

fun bytesEqual :: "bytes \<Rightarrow> bytes \<Rightarrow> bool" where
  "bytesEqual (a # as) (b # bs) \<longleftrightarrow> a = b \<and> bytesEqual as bs"
| "bytesEqual [] [] \<longleftrightarrow> True"
| "bytesEqual _ _ \<longleftrightarrow> False"

definition headsMatch :: "bytes \<Rightarrow> bytes \<Rightarrow> bool" where
  "headsMatch expected actual = bytesEqual expected actual"

datatype ledger_incomplete = LedgerIncompleteError bytes bytes

definition assertHeadMatches :: "bytes \<Rightarrow> bytes \<Rightarrow> ledger_incomplete + unit" where
  "assertHeadMatches expected actual =
     (if \<not> headsMatch expected actual then Inl (LedgerIncompleteError expected actual) else Inr ())"

section \<open>Facts\<close>

lemma bytesEqual_iff [simp]: "bytesEqual a b \<longleftrightarrow> a = b"
  by (induction a b rule: bytesEqual.induct) auto

lemma inj_utf8: "utf8 a = utf8 b \<Longrightarrow> a = b"
proof -
  have "inj (\<lambda>c. of_nat (of_char c) :: 8 word)"
  proof (rule injI)
    fix c d :: char
    assume "(of_nat (of_char c) :: 8 word) = of_nat (of_char d)"
    then have "unat (of_nat (of_char c) :: 8 word) = unat (of_nat (of_char d) :: 8 word)" by simp
    then have "(of_char c :: nat) = of_char d"
      by (simp add: unat_of_nat)
    then show "c = d" by simp
  qed
  then show "utf8 a = utf8 b \<Longrightarrow> a = b" by (auto simp: utf8_def inj_map_eq_map)
qed

lemma length_uint32_be [simp]: "length (uint32_be n) = 4"
  by (simp add: uint32_be_def Let_def)

lemma inj_frameID: "frameID a = frameID b \<Longrightarrow> a = b"
  by (auto simp: frameID_def Let_def dest: inj_utf8)

lemma extendHead_append: "extendHead sha head (a @ b) = extendHead sha (extendHead sha head a) b"
  by (induction a arbitrary: head) simp_all

lemma extendHead_snoc: "extendHead sha head (ids @ [i]) = sha (extendHead sha head ids @ frameID i)"
  by (simp add: extendHead_append)

lemma length_DOMAIN [simp]: "length DOMAIN = 25"
  by (simp add: DOMAIN_def utf8_def)

text \<open>What the chain hashes, in order.\<close>

fun chain_inputs :: "(bytes \<Rightarrow> bytes) \<Rightarrow> bytes \<Rightarrow> string list \<Rightarrow> bytes list" where
  "chain_inputs sha head [] = []"
| "chain_inputs sha head (i # ids) = (head @ frameID i) # chain_inputs sha (sha (head @ frameID i)) ids"

definition hashed :: "(bytes \<Rightarrow> bytes) \<Rightarrow> string \<Rightarrow> string list \<Rightarrow> bytes list" where
  "hashed sha groupID ids = (DOMAIN @ utf8 groupID) # chain_inputs sha (genesisHead sha groupID) ids"

lemma chain_inputs_snoc:
  "chain_inputs sha head (ids @ [i]) = chain_inputs sha head ids @ [extendHead sha head ids @ frameID i]"
  by (induction ids arbitrary: head) simp_all

lemma hashed_snoc: "hashed sha g (ids @ [i]) = hashed sha g ids @ [computeHead sha g ids @ frameID i]"
  by (simp add: hashed_def chain_inputs_snoc computeHead_def)

lemma computeHead_snoc: "computeHead sha g (ids @ [i]) = sha (computeHead sha g ids @ frameID i)"
  by (simp add: computeHead_def extendHead_snoc)

lemma computeHead_Nil: "computeHead sha g [] = sha (DOMAIN @ utf8 g)"
  by (simp add: computeHead_def genesisHead_def)

lemma computeHead_hashed: "\<exists>x \<in> set (hashed sha g ids). computeHead sha g ids = sha x"
  by (cases ids rule: rev_cases) (auto simp: computeHead_snoc hashed_snoc computeHead_Nil, auto simp: hashed_def)

definition collision :: "(bytes \<Rightarrow> bytes) \<Rightarrow> bytes list \<Rightarrow> bytes list \<Rightarrow> bool" where
  "collision sha xs ys \<longleftrightarrow> (\<exists>x \<in> set xs. \<exists>y \<in> set ys. x \<noteq> y \<and> sha x = sha y)"

definition domain_digest :: "(bytes \<Rightarrow> bytes) \<Rightarrow> bytes list \<Rightarrow> bool" where
  "domain_digest sha xs \<longleftrightarrow> (\<exists>x \<in> set xs. take (length DOMAIN) (sha x) = DOMAIN)"

lemma collision_extend: "collision sha xs ys \<Longrightarrow> collision sha (xs @ as) (ys @ bs)"
  by (auto simp: collision_def)

lemma domain_digest_append [simp]:
  "domain_digest sha (xs @ ys) \<longleftrightarrow> domain_digest sha xs \<or> domain_digest sha ys"
  "domain_digest sha (x # xs) \<longleftrightarrow> take (length DOMAIN) (sha x) = DOMAIN \<or> domain_digest sha xs"
  by (auto simp: domain_digest_def)

text \<open>A chain link is told from the genesis link by the digest it starts with.\<close>

lemma genesis_link:
  assumes "\<And>b. length (sha b) = SHA256_LENGTH"
    and "sha (DOMAIN @ utf8 g) = sha (computeHead sha g' ids @ frameID i)"
    and "DOMAIN @ utf8 g \<in> set xs" and "computeHead sha g' ids @ frameID i \<in> set ys" and "set (hashed sha g' ids) \<subseteq> set ys"
  shows "collision sha xs ys \<or> domain_digest sha ys"
proof (cases "DOMAIN @ utf8 g = computeHead sha g' ids @ frameID i")
  case True
  obtain x where x: "x \<in> set (hashed sha g' ids)" "computeHead sha g' ids = sha x"
    using computeHead_hashed [of sha g' ids] by blast
  have "take 25 (DOMAIN @ utf8 g) = take 25 (sha x @ frameID i)" by (simp add: True x(2))
  then have "take (length DOMAIN) (sha x) = DOMAIN"
    using assms(1) [of x] by (simp add: SHA256_LENGTH_def)
  with x(1) assms(5) show ?thesis by (auto simp: domain_digest_def)
next
  case False
  with assms show ?thesis by (auto simp: collision_def)
qed

lemma chain_agrees:
  assumes len: "\<And>b. length (sha b) = SHA256_LENGTH"
    and "computeHead sha g ids = computeHead sha g ids'"
  shows "ids = ids' \<or> collision sha (hashed sha g ids) (hashed sha g ids')
    \<or> domain_digest sha (hashed sha g ids @ hashed sha g ids')"
  using assms(2)
proof (induction ids arbitrary: ids' rule: rev_induct)
  case Nil
  show ?case
  proof (cases ids' rule: rev_cases)
    case (snoc js j)
    have "collision sha (hashed sha g []) (hashed sha g ids') \<or> domain_digest sha (hashed sha g ids')"
      using Nil by (intro genesis_link [OF len]) (auto simp: snoc computeHead_Nil computeHead_snoc hashed_snoc, simp_all add: hashed_def)
    then show ?thesis by auto
  qed simp
next
  case (snoc i ids)
  show ?case
  proof (cases ids' rule: rev_cases)
    case Nil
    have "collision sha (hashed sha g []) (hashed sha g (ids @ [i])) \<or> domain_digest sha (hashed sha g (ids @ [i]))"
      using snoc.prems
      by (intro genesis_link [OF len]) (auto simp: Nil computeHead_Nil computeHead_snoc hashed_snoc, simp_all add: hashed_def)
    then show ?thesis using Nil by (auto simp: collision_def domain_digest_def) metis
  next
    case (snoc js j)
    have eq: "sha (computeHead sha g ids @ frameID i) = sha (computeHead sha g js @ frameID j)"
      using snoc.prems by (simp add: \<open>ids' = js @ [j]\<close> computeHead_snoc)
    have same_length: "length (computeHead sha g xs) = SHA256_LENGTH" for xs
      using computeHead_hashed [of sha g xs] len by auto
    show ?thesis
    proof (cases "computeHead sha g ids @ frameID i = computeHead sha g js @ frameID j")
      case True
      then have "computeHead sha g ids = computeHead sha g js" and "i = j"
        using same_length by (auto dest: inj_frameID)
      from snoc.IH [OF this(1)] \<open>i = j\<close> show ?thesis
        by (auto simp: \<open>ids' = js @ [j]\<close> hashed_snoc intro: collision_extend)
    next
      case False
      with eq show ?thesis by (auto simp: \<open>ids' = js @ [j]\<close> hashed_snoc collision_def)
    qed
  qed
qed

end
