(* ===== verification/Commit_Policy.thy ===== *)
theory Commit_Policy
  imports Ledger_Head Control_Fold
begin

text \<open>
  The receiving-side gate of a commit, \<^verbatim>\<open>mls/src/policy.ts\<close>. A proposal of \<^verbatim>\<open>ts-mls\<close> carries what the
  policy reads of it; \<open>CustomProposal\<close> is any type \<^verbatim>\<open>isDefaultProposal\<close> does not know. \<open>parse\<close> is
  \<^verbatim>\<open>JSON.parse\<close> on the decoded bytes of an anchor, and \<open>nd\<close> is \<^verbatim>\<open>normalizeDID\<close>.
\<close>

datatype Proposal =
    AddProposal credential
  | UpdateProposal
  | RemoveProposal nat
  | PSKProposal
  | ReinitProposal
  | ExternalInitProposal
  | GCEProposal "GroupContextExtension list"
  | CustomProposal nat

record ProposalWithSender =
  pw_proposal :: Proposal
  pw_senderLeafIndex :: "nat option"

datatype IncomingMessage =
    IncomingCommit "nat option" "ProposalWithSender list"
  | IncomingProposal ProposalWithSender

datatype IncomingMessageAction = Accept | Reject

record CommitPolicyContext =
  cx_baseRoster :: RosterState
  cx_candidateRoster :: RosterState
  cx_didOfLeaf :: "nat \<Rightarrow> did option"
  cx_controllerOf :: "did \<Rightarrow> did option"
  cx_currentExtensions :: "GroupContextExtension list"
  cx_expectedHeadExtensionData :: bytes
  cx_commitEnactsEntries :: bool
  cx_enactedDeviceEntries :: "(did \<times> DeviceOp) list"
  cx_enactsOnlyDeviceEntries :: bool
  cx_externalCommitDID :: "did option"

definition isAdmin :: "(did \<Rightarrow> did) \<Rightarrow> CommitPolicyContext \<Rightarrow> nat option \<Rightarrow> bool" where
  "isAdmin nd context leafIndex = (case leafIndex of
       None \<Rightarrow> False
     | Some leaf \<Rightarrow> (case cx_didOfLeaf context leaf of
           None \<Rightarrow> False
         | Some d \<Rightarrow>
             role_of (cx_baseRoster context) (or_else (cx_controllerOf context (nd d)) (nd d)) = Some Admin))"

section \<open>The extension list\<close>

text \<open>The list a proposal must equal: the current one, its head moved to the expected head.\<close>

definition pinned_extensions :: "CommitPolicyContext \<Rightarrow> GroupContextExtension list" where
  "pinned_extensions context = map (\<lambda>e.
     if ex_type e = LEDGER_HEAD_EXTENSION_TYPE
     then \<lparr> ex_type = LEDGER_HEAD_EXTENSION_TYPE, ex_data = RawData (cx_expectedHeadExtensionData context) \<rparr>
     else e) (cx_currentExtensions context)"

definition is_lifecycle :: "(bytes \<Rightarrow> json option) \<Rightarrow> GroupContextExtension list \<Rightarrow> bool" where
  "is_lifecycle parse extensions =
     (case find (\<lambda>e. ex_type e = GROUP_ANCHOR_EXTENSION_TYPE) extensions of
        Some e \<Rightarrow> (case ex_data e of
            RawData b \<Rightarrow> (case decodeGroupAnchor (parse b) of None \<Rightarrow> False | Some a \<Rightarrow> ga_controller a \<noteq> None)
          | DecodedData _ \<Rightarrow> False)
      | None \<Rightarrow> False)"

definition empty_reserved :: GroupContextExtension where
  "empty_reserved = \<lparr> ex_type = RESERVED_EXTENSION_TYPE, ex_data = RawData [] \<rparr>"

fun same_extensions :: "GroupContextExtension list \<Rightarrow> GroupContextExtension list \<Rightarrow> bool" where
  "same_extensions (got # gots) (want # wants) =
     (if ex_type got \<noteq> ex_type want then False
      else (case (ex_data got, ex_data want) of
          (RawData g, RawData w) \<Rightarrow> if bytesEqual g w then same_extensions gots wants else False
        | _ \<Rightarrow> False))"
| "same_extensions [] [] = True"
| "same_extensions _ _ = False"

definition evaluateGroupContextExtensions ::
  "(bytes \<Rightarrow> json option) \<Rightarrow> GroupContextExtension list \<Rightarrow> CommitPolicyContext \<Rightarrow> IncomingMessageAction" where
  "evaluateGroupContextExtensions parse extensions context =
     (let expected = pinned_extensions context;
          reservedAlreadyInstalled = list_ex (\<lambda>e. ex_type e = RESERVED_EXTENSION_TYPE) expected;
          candidate =
            (if \<not> is_lifecycle parse expected \<and> \<not> reservedAlreadyInstalled
                \<and> length extensions = length expected + 1
             then (case find (\<lambda>i. extensions ! i = empty_reserved) [0..<length extensions] of
                     Some i \<Rightarrow> take i extensions @ drop (i + 1) extensions
                   | None \<Rightarrow> extensions)
             else extensions)
      in if length candidate \<noteq> length expected then Reject
         else if same_extensions candidate expected then Accept else Reject)"

section \<open>Proposals\<close>

definition evaluateProposal ::
  "(did \<Rightarrow> did) \<Rightarrow> (bytes \<Rightarrow> json option) \<Rightarrow> Proposal \<Rightarrow> nat option \<Rightarrow> CommitPolicyContext
     \<Rightarrow> IncomingMessageAction" where
  "evaluateProposal nd parse proposal effectiveSender context = (case proposal of
       CustomProposal _ \<Rightarrow> Reject
     | AddProposal credential \<Rightarrow>
         (case didFromCredential nd credential of
            None \<Rightarrow> Reject
          | Some addedDID \<Rightarrow>
              if isAdmin nd context effectiveSender \<and> role_of (cx_candidateRoster context) addedDID \<noteq> None
              then Accept
              else if (nd addedDID, Add) \<in> set (cx_enactedDeviceEntries context) then Accept else Reject)
     | PSKProposal \<Rightarrow> if isAdmin nd context effectiveSender then Accept else Reject
     | ReinitProposal \<Rightarrow> if isAdmin nd context effectiveSender then Accept else Reject
     | RemoveProposal removed \<Rightarrow>
         (let removedDID = cx_didOfLeaf context removed in
          if (case removedDID of None \<Rightarrow> False
              | Some d \<Rightarrow> role_of (cx_candidateRoster context) (nd d) = Some Admin) then Reject
          else if isAdmin nd context effectiveSender then Accept
          else if effectiveSender = Some removed then Accept
          else (case removedDID of None \<Rightarrow> Reject
              | Some d \<Rightarrow> if (nd d, Revoke) \<in> set (cx_enactedDeviceEntries context) then Accept else Reject))
     | UpdateProposal \<Rightarrow> Accept
     | GCEProposal extensions \<Rightarrow>
         if isAdmin nd context effectiveSender \<or> cx_enactsOnlyDeviceEntries context
         then evaluateGroupContextExtensions parse extensions context else Reject
     | ExternalInitProposal \<Rightarrow> Reject)"

fun external_scan :: "Proposal list \<Rightarrow> bool \<times> nat option \<Rightarrow> (bool \<times> nat option) option" where
  "external_scan [] st = Some st"
| "external_scan (p # ps) (sawExternalInit, removeTarget) = (case p of
       ExternalInitProposal \<Rightarrow> external_scan ps (True, removeTarget)
     | RemoveProposal removed \<Rightarrow> external_scan ps (sawExternalInit, Some removed)
     | _ \<Rightarrow> None)"

definition evaluateExternalCommit ::
  "(did \<Rightarrow> did) \<Rightarrow> ProposalWithSender list \<Rightarrow> CommitPolicyContext \<Rightarrow> IncomingMessageAction" where
  "evaluateExternalCommit nd proposals context = (case cx_externalCommitDID context of
       None \<Rightarrow> Reject
     | Some d \<Rightarrow>
         if role_of (cx_baseRoster context) (nd d) = None then Reject
         else if length proposals \<noteq> 2 then Reject
         else (case external_scan (map pw_proposal proposals) (False, None) of
             Some (True, Some removeTarget) \<Rightarrow>
               if cx_didOfLeaf context removeTarget = Some d then Accept else Reject
           | _ \<Rightarrow> Reject))"

fun is_gce :: "Proposal \<Rightarrow> bool" where
  "is_gce (GCEProposal _) = True"
| "is_gce _ = False"

definition effective_sender :: "nat option \<Rightarrow> ProposalWithSender \<Rightarrow> nat option" where
  "effective_sender committer p = (case pw_senderLeafIndex p of None \<Rightarrow> committer | s \<Rightarrow> s)"

definition defaultCommitPolicy ::
  "(did \<Rightarrow> did) \<Rightarrow> (bytes \<Rightarrow> json option) \<Rightarrow> IncomingMessage \<Rightarrow> CommitPolicyContext \<Rightarrow> IncomingMessageAction" where
  "defaultCommitPolicy nd parse incoming context = (case incoming of
       IncomingProposal p \<Rightarrow> evaluateProposal nd parse (pw_proposal p) (pw_senderLeafIndex p) context
     | IncomingCommit committer proposals \<Rightarrow>
         if cx_commitEnactsEntries context \<and> \<not> list_ex (\<lambda>p. is_gce (pw_proposal p)) proposals then Reject
         else if proposals = [] then Accept
         else if list_ex (\<lambda>p. pw_proposal p = ExternalInitProposal) proposals
         then evaluateExternalCommit nd proposals context
         else if list_all (\<lambda>p. evaluateProposal nd parse (pw_proposal p) (effective_sender committer p) context = Accept)
                proposals
         then Accept else Reject)"

section \<open>What the gate admits\<close>

lemma extension_eq_iff: "(e :: GroupContextExtension) = f \<longleftrightarrow> ex_type e = ex_type f \<and> ex_data e = ex_data f"
  by (cases e, cases f) simp

lemma same_extensions_iff:
  "same_extensions got want \<longleftrightarrow> got = want \<and> (\<forall>e \<in> set want. \<exists>b. ex_data e = RawData b)"
proof (induction got want rule: same_extensions.induct)
  case (1 got gots want wants)
  show ?case
  proof (cases "\<exists>g w. ex_type got = ex_type want \<and> ex_data got = RawData g \<and> ex_data want = RawData w \<and> g = w")
    case True
    with 1 show ?thesis by (auto simp: extension_eq_iff)
  next
    case False
    then show ?thesis by (auto simp: extension_eq_iff split: extension_data.splits)
  qed
qed auto

text \<open>The extension lists a head move may install.\<close>

definition installs_reserved :: "GroupContextExtension list \<Rightarrow> GroupContextExtension list \<Rightarrow> bool" where
  "installs_reserved extensions expected \<longleftrightarrow>
     RESERVED_EXTENSION_TYPE \<notin> ex_type ` set expected
     \<and> (\<exists>front rear. extensions = front @ empty_reserved # rear \<and> expected = front @ rear)"

lemma find_index_Some:
  "find P [0..<n] = Some i \<Longrightarrow> i < n \<and> P i"
  by (auto simp: find_Some_iff)

lemma find_index_unique:
  assumes "i < n" "P i" "\<And>j. j < n \<Longrightarrow> P j \<Longrightarrow> j = i"
  shows "find P [0..<n] = Some i"
proof -
  have "\<forall>j < i. \<not> P j" using assms by (metis less_trans nat_neq_iff)
  with assms(1,2) show ?thesis by (auto simp: find_Some_iff intro!: exI [of _ i])
qed

lemma gce_accept_iff:
  "evaluateGroupContextExtensions parse extensions context = Accept \<longleftrightarrow>
     (\<forall>e \<in> set (pinned_extensions context). \<exists>b. ex_data e = RawData b)
     \<and> (extensions = pinned_extensions context
        \<or> \<not> is_lifecycle parse (pinned_extensions context)
          \<and> installs_reserved extensions (pinned_extensions context))" (is "?accept \<longleftrightarrow> ?raw \<and> (?same \<or> ?more)")
proof
  let ?expected = "pinned_extensions context"
  assume accept: ?accept
  show "?raw \<and> (?same \<or> ?more)"
  proof (cases "\<not> is_lifecycle parse ?expected \<and> \<not> list_ex (\<lambda>e. ex_type e = RESERVED_EXTENSION_TYPE) ?expected
      \<and> length extensions = length ?expected + 1")
    case True
    with accept obtain i where i: "find (\<lambda>i. extensions ! i = empty_reserved) [0..<length extensions] = Some i"
      and same: "same_extensions (take i extensions @ drop (i + 1) extensions) ?expected"
      by (auto simp: evaluateGroupContextExtensions_def Let_def split: option.splits if_splits)
    have "extensions = take i extensions @ empty_reserved # drop (i + 1) extensions"
      using find_index_Some [OF i] by (metis Suc_eq_plus1 id_take_nth_drop)
    moreover have "?expected = take i extensions @ drop (i + 1) extensions" and raw: ?raw
      using same by (simp_all add: same_extensions_iff)
    moreover have "RESERVED_EXTENSION_TYPE \<notin> ex_type ` set ?expected"
      using True by (auto simp: list_ex_iff)
    ultimately have "installs_reserved extensions ?expected"
      unfolding installs_reserved_def by metis
    with raw True show ?thesis by blast
  next
    case False
    with accept show ?thesis
      by (auto simp: evaluateGroupContextExtensions_def Let_def same_extensions_iff split: if_splits)
  qed
next
  let ?expected = "pinned_extensions context"
  assume a: "?raw \<and> (?same \<or> ?more)"
  then show ?accept
  proof (cases ?same)
    case True
    with a show ?thesis by (simp add: evaluateGroupContextExtensions_def Let_def same_extensions_iff)
  next
    case False
    with a obtain front rear where split: "extensions = front @ empty_reserved # rear" "?expected = front @ rear"
      and fresh: "RESERVED_EXTENSION_TYPE \<notin> ex_type ` set ?expected" and standard: "\<not> is_lifecycle parse ?expected"
      by (auto simp: installs_reserved_def)
    have found: "find (\<lambda>i. extensions ! i = empty_reserved) [0..<length extensions] = Some (length front)"
    proof (rule find_index_unique)
      fix j assume j: "j < length extensions" "extensions ! j = empty_reserved"
      have "empty_reserved \<notin> set front \<union> set rear"
        using fresh by (force simp: split(2) empty_reserved_def)
      with j show "j = length front"
        by (auto simp: split(1) nth_append nth_Cons in_set_conv_nth split: if_splits nat.splits)
    qed (simp_all add: split(1))
    have "length extensions = length ?expected + 1"
      and "take (length front) extensions @ drop (length front + 1) extensions = ?expected"
      by (simp_all add: split)
    moreover have "\<not> list_ex (\<lambda>e. ex_type e = RESERVED_EXTENSION_TYPE) ?expected"
      using fresh by (force simp: list_ex_iff)
    ultimately show ?thesis
      using a standard found by (simp add: evaluateGroupContextExtensions_def Let_def same_extensions_iff)
  qed
qed

end
