(* ===== verification/Mls_Props.thy ===== *)
theory Mls_Props
  imports Registry_Laws Commit_Policy
begin

text \<open>
  The properties of the group core: who may change the roster, that a group always has an admin, that a
  commit and its replay agree, what is never forgotten, what the commit gate admits, and what a ledger
  head proves. The witnesses use a host without controller logs.
\<close>

definition bare_host :: kokuin where
  "bare_host = \<lparr> normalizeDID = (\<lambda>d. d), isControllerLog = (\<lambda>_. None), foldLog = (\<lambda>_ _. FoldFailed '''' 0),
     mergeLogs = (\<lambda>_ _ lg. Inr lg), authoritativeLog = (\<lambda>_ _ _. Inl ''''), deviceRevokeIndices = (\<lambda>_ _ _. []),
     resolveBranches = (\<lambda>_ _. None), pruneLog = (\<lambda>_ lg. lg), digestOfChain = (\<lambda>_. ''''),
     digestOfEvent = (\<lambda>_. ''''), isEpochEventShape = (\<lambda>_. False), LOG_FORKED = ''forked'',
     LOG_NOT_AUTHORITATIVE = ''not authoritative'', LOG_TOO_LARGE = ''too large'', localeCompare = (\<lambda>_ _. 0),
     b64uToJSON = (\<lambda>_. None), isSignedToken = (\<lambda>_ _ _. False), tryDecodeKey = (\<lambda>_. None),
     decodeKey = (\<lambda>_. []) \<rparr>"

definition demo_anchor :: GroupAnchor where
  "demo_anchor = \<lparr> ga_creatorDID = ''ann'', ga_version = Fin 1, ga_controller = None, ga_leafLifetime = None,
     ga_trustedGrantLifetime = None, ga_app = Some (JStr ''seed'') \<rparr>"

definition demo_entry :: "string \<Rightarrow> did \<Rightarrow> did \<Rightarrow> json \<Rightarrow> json FoldInput" where
  "demo_entry ty issuer subject v = \<lparr> fi_verified = \<lparr> ve_issuer = issuer,
     ve_entry = \<lparr> le_type = ty, le_groupID = ''g'', le_subject = subject, le_value = v, le_ord = None \<rparr> \<rparr>,
     fi_entryID = ty @ subject \<rparr>"

definition demo_ledger :: "json FoldInput list" where
  "demo_ledger = [demo_entry ''kumiai.role'' ''ann'' ''bob'' (JStr ''admin''),
     demo_entry ''kumiai.device'' ''bob'' ''phone''
       (JObj [(''op'', JStr ''register''), (''controller'', JStr ''bob'')]),
     demo_entry ''kumiai.device'' ''bob'' ''phone'' (JObj [(''op'', JStr ''revoke'')])]"

section \<open>The roster\<close>

lemma foldControl_roster_inv: "roster_inv (ct_roster (fst (foldControl K entries anchor g)))"
  using roster_law.replay [of "control_seed K anchor" K "ga_controller anchor" g 0 entries]
    roster_seed_inv [of "normalizeDID K" anchor]
  by (simp add: foldControl_def control_seed_def)

text \<open>
  Claim C17. Whatever entries are replayed, authorized or hostile, the roster names each DID once and keeps
  at least one admin, so no ledger can leave a group that nobody may administer.
\<close>

theorem control_admin_remains:
  "roster_inv (ct_roster (fst (foldControl K entries anchor groupID)))"
  by (rule foldControl_roster_inv)

lemma foldControl_snoc:
  "fst (foldControl K (es @ [e]) anchor g) =
     (case control_step K (ga_controller anchor) g (length es) (fi_verified e) (fst (foldControl K es anchor g)) of
        Inr st \<Rightarrow> st | Inl _ \<Rightarrow> fst (foldControl K es anchor g))"
  by (simp add: foldControl_append split: sum.split)

text \<open>
  Claim C14. An entry changes the role of a DID only in a group without a controller, if it is a role entry
  signed for this group, if that DID is its subject, and if the authority of its issuer, the controller
  of an active device or the issuer itself, was an admin after the entries before it.
\<close>

theorem control_role_authorized:
  assumes "role_of (ct_roster (fst (foldControl K (es @ [e]) anchor groupID))) d
      \<noteq> role_of (ct_roster (fst (foldControl K es anchor groupID))) d"
  shows "ga_controller anchor = None \<and> le_type (ve_entry (fi_verified e)) = ROLE_ENTRY_TYPE
    \<and> le_groupID (ve_entry (fi_verified e)) = groupID
    \<and> d = normalizeDID K (le_subject (ve_entry (fi_verified e)))
    \<and> role_of (ct_roster (fst (foldControl K es anchor groupID)))
        (authority K (ct_registry (fst (foldControl K es anchor groupID))) (ve_issuer (fi_verified e))) = Some Admin"
proof -
  let ?st = "fst (foldControl K es anchor groupID)"
  obtain st' where step: "control_step K (ga_controller anchor) groupID (length es) (fi_verified e) ?st = Inr st'"
    and diff: "role_of (ct_roster st') d \<noteq> role_of (ct_roster ?st) d"
    using assms unfolding foldControl_snoc by (auto split: sum.splits)
  from step show ?thesis
  proof (cases rule: control_step_Inr)
    case (2 v)
    with diff show ?thesis
      by (auto simp: apply_role_def retyped_def split: if_splits)
  qed (use diff in simp)
qed

theorem control_role_authorized_witness:
  "role_of (ct_roster (fst (foldControl bare_host (take 1 demo_ledger) demo_anchor ''g''))) ''bob'' = Some Admin
   \<and> role_of (ct_roster (fst (foldControl bare_host [] demo_anchor ''g'')))
       (authority bare_host (ct_registry (fst (foldControl bare_host [] demo_anchor ''g''))) ''ann'') = Some Admin"
proof
  show granted: "role_of (ct_roster (fst (foldControl bare_host (take 1 demo_ledger) demo_anchor ''g''))) ''bob'' = Some Admin"
    by code_simp
  moreover have "role_of (ct_roster (fst (foldControl bare_host [] demo_anchor ''g''))) ''bob'' = None"
    by code_simp
  moreover have "take 1 demo_ledger = [] @ [hd demo_ledger]" and "ve_issuer (fi_verified (hd demo_ledger)) = ''ann''"
    by code_simp+
  ultimately show "role_of (ct_roster (fst (foldControl bare_host [] demo_anchor ''g'')))
       (authority bare_host (ct_registry (fst (foldControl bare_host [] demo_anchor ''g''))) ''ann'') = Some Admin"
    using control_role_authorized [of bare_host "[]" "hd demo_ledger" demo_anchor "''g''" "''bob''"] by simp
qed

section \<open>Commit and replay\<close>

definition seed_entry :: "kokuin \<Rightarrow> json FoldInput \<Rightarrow> bool" where
  "seed_entry K e \<longleftrightarrow> le_type (ve_entry (fi_verified e)) = DEVICE_ENTRY_TYPE
     \<and> (case asDeviceValue K (le_value (ve_entry (fi_verified e))) of None \<Rightarrow> False | Some val \<Rightarrow> dv_op val = Seed)"

definition consumer_entry :: "json VerifiedLedgerEntry \<Rightarrow> bool" where
  "consumer_entry v \<longleftrightarrow> \<not> prefix GROUP_TYPE_PREFIX (le_type (ve_entry v))"

lemma reserved_types [simp]:
  "prefix GROUP_TYPE_PREFIX DEVICE_ENTRY_TYPE" "prefix GROUP_TYPE_PREFIX ROLE_ENTRY_TYPE" "DEVICE_ENTRY_TYPE \<noteq> ROLE_ENTRY_TYPE"
  by (simp_all add: GROUP_TYPE_PREFIX_def DEVICE_ENTRY_TYPE_def ROLE_ENTRY_TYPE_def)

lemma seed_has_proof: "asDeviceValue K v = Some val \<Longrightarrow> dv_proof val = None \<Longrightarrow> dv_op val \<noteq> Seed"
  using device_value_typed [of K v val] by (auto simp: well_typed_def)

lemma envelope_step_replays:
  assumes step: "envelope_step K context g (fi_verified e) st = Inr (st', shown)"
    and "controller = map_option fc_controllerID context" and "\<not> seed_entry K e"
  shows "(case control_step K controller g position (fi_verified e) st of Inr s \<Rightarrow> s | Inl _ \<Rightarrow> st) = st'
    \<and> shown = (if consumer_entry (fi_verified e) then [fi_verified e] else [])"
proof (cases "le_type (ve_entry (fi_verified e)) = DEVICE_ENTRY_TYPE")
  case True
  with assms show ?thesis
    by (cases "context")
      (auto simp: envelope_step_def control_step_def Let_def seed_entry_def consumer_entry_def dest: seed_has_proof
        split: option.splits sum.splits if_splits)
next
  case False
  with step show ?thesis
    unfolding assms(2)
    by (cases "context"; cases "le_type (ve_entry (fi_verified e)) = ROLE_ENTRY_TYPE")
      (auto simp: envelope_step_def control_step_def Let_def consumer_entry_def split: option.splits if_splits)
qed

lemma foldEnvelope_from_replays:
  assumes "foldEnvelope_from K context g entries st shown = EnvelopeOk roster registry surfaced"
    and "controller = map_option fc_controllerID context" and "\<not> list_ex (seed_entry K) entries"
  shows "fst (foldControl_from K controller g position entries st) = \<lparr> ct_roster = roster, ct_registry = registry \<rparr>
    \<and> surfaced = shown @ filter consumer_entry (map fi_verified entries)"
  using assms
proof (induction entries arbitrary: st shown position)
  case (Cons e entries)
  from Cons.prems(1) obtain st' more_shown
    where step: "envelope_step K context g (fi_verified e) st = Inr (st', more_shown)"
      and rest: "foldEnvelope_from K context g entries st' (shown @ more_shown) = EnvelopeOk roster registry surfaced"
    by (auto split: sum.splits)
  have "\<not> seed_entry K e" using Cons.prems(3) by simp
  note now = envelope_step_replays [OF step Cons.prems(2) this, of position]
  have later: "fst (foldControl_from K controller g (Suc position) entries st') = \<lparr> ct_roster = roster, ct_registry = registry \<rparr>
      \<and> surfaced = (shown @ more_shown) @ filter consumer_entry (map fi_verified entries)"
    using Cons.prems(3) by (intro Cons.IH [OF rest Cons.prems(2)]) simp
  with now show ?case by (auto split: sum.splits)
qed simp

lemma control_state_eta [simp]: "\<lparr> ct_roster = ct_roster st, ct_registry = ct_registry st \<rparr> = st"
  by (cases st) simp

text \<open>
  Claim C12. A commit's envelope that the commit side accepts against the state of the held ledger leads a
  member to the roster and registry a joiner folds from the held entries followed by the commit's, and
  surfaces exactly the consumer's entries, in order. No entry of the commit seeds a controller log: the
  pipeline refuses a seed in a commit before it folds (\<^verbatim>\<open>lifecycle.ts\<close>, line 579).
\<close>

theorem envelope_replay_agrees:
  assumes "foldEnvelope K (ct_roster (fst (foldControl K held anchor groupID)))
      (ct_registry (fst (foldControl K held anchor groupID))) new groupID context = EnvelopeOk roster registry surfaced"
    and "ga_controller anchor = map_option fc_controllerID context"
    and "\<not> list_ex (seed_entry K) new"
  shows "fst (foldControl K (held @ new) anchor groupID) = \<lparr> ct_roster = roster, ct_registry = registry \<rparr>
    \<and> surfaced = filter consumer_entry (map fi_verified new)"
  using foldEnvelope_from_replays [OF assms(1) [unfolded foldEnvelope_def] assms(2,3), of "length held"]
  by (simp add: foldControl_append)

definition demo_new :: "json FoldInput list" where
  "demo_new = [demo_entry ''kumiai.role'' ''bob'' ''ann'' (JStr ''member''), demo_entry ''app.note'' ''bob'' ''x'' JNull]"

theorem envelope_replay_agrees_witness:
  "\<exists>roster registry. fst (foldControl bare_host (demo_ledger @ demo_new) demo_anchor ''g'') =
       \<lparr> ct_roster = roster, ct_registry = registry \<rparr>
     \<and> role_of roster ''ann'' = Some Member \<and> role_of roster ''bob'' = Some Admin"
proof -
  let ?st = "fst (foldControl bare_host demo_ledger demo_anchor ''g'')"
  let ?r = "foldEnvelope bare_host (ct_roster ?st) (ct_registry ?st) demo_new ''g'' None"
  have "(case ?r of EnvelopeOk roster _ _ \<Rightarrow> role_of roster ''ann'' = Some Member \<and> role_of roster ''bob'' = Some Admin
      | _ \<Rightarrow> False)" by code_simp
  then obtain roster registry surfaced where ok: "?r = EnvelopeOk roster registry surfaced"
    and roles: "role_of roster ''ann'' = Some Member" "role_of roster ''bob'' = Some Admin"
    by (auto split: EnvelopeFoldResult.splits)
  have "ga_controller demo_anchor = map_option fc_controllerID None" by (simp add: demo_anchor_def)
  moreover have "\<not> list_ex (seed_entry bare_host) demo_new" by code_simp
  ultimately show ?thesis
    using envelope_replay_agrees [OF ok] roles by blast
qed

section \<open>What is never forgotten\<close>

text \<open>
  Claim C15. A revocation that is not a bare reset is for ever: whatever is enacted after it, a fresh
  registration, a label, a reset or a log of the controller, the device stays revoked and confers no
  authority but its own.
\<close>

theorem revocation_permanent:
  assumes "terminally_revoked (ct_registry (fst (foldControl K held anchor groupID))) (normalizeDID K d)"
  shows "terminally_revoked (ct_registry (fst (foldControl K (held @ more_entries) anchor groupID))) (normalizeDID K d)
    \<and> authority K (ct_registry (fst (foldControl K (held @ more_entries) anchor groupID))) d = normalizeDID K d
    \<and> normalizeDID K d \<in> set (denySetOf (ct_registry (fst (foldControl K (held @ more_entries) anchor groupID))))"
proof -
  let ?st = "fst (foldControl K held anchor groupID)"
  let ?final = "fst (foldControl K (held @ more_entries) anchor groupID)"
  have kept: "terminally_revoked (ct_registry ?final) (normalizeDID K d)"
    using terminal_law.replay [of ?st K "ga_controller anchor" groupID "length held" more_entries] assms
    by (simp add: foldControl_append)
  then obtain r where r: "map_of (rg_devices (ct_registry ?final)) (normalizeDID K d) = Some r" "terminal r"
    by (auto simp: terminally_revoked_def split: option.splits)
  have "(normalizeDID K d, r) \<in> set (rg_devices (ct_registry ?final))" using r(1) by (rule map_of_SomeD)
  then have "normalizeDID K d \<in> set (denySetOf (ct_registry ?final))"
    using r(2) by (force simp: denySetOf_def terminal_def)
  with kept r show ?thesis by (simp add: authority_def Let_def terminal_def)
qed

definition demo_readmission :: "json FoldInput list" where
  "demo_readmission = [demo_entry ''kumiai.device'' ''bob'' ''phone''
     (JObj [(''op'', JStr ''register''), (''controller'', JStr ''bob'')])]"

theorem revocation_permanent_witness:
  "authority bare_host (ct_registry (fst (foldControl bare_host (take 2 demo_ledger) demo_anchor ''g''))) ''phone'' = ''bob''
   \<and> authority bare_host (ct_registry (fst (foldControl bare_host (demo_ledger @ demo_readmission) demo_anchor ''g''))) ''phone'' = ''phone''"
proof -
  have phone: "normalizeDID bare_host ''phone'' = ''phone''" by (simp add: bare_host_def)
  have "terminally_revoked (ct_registry (fst (foldControl bare_host demo_ledger demo_anchor ''g''))) (normalizeDID bare_host ''phone'')"
    by code_simp
  from revocation_permanent [OF this, of demo_readmission] phone
  have "authority bare_host (ct_registry (fst (foldControl bare_host (demo_ledger @ demo_readmission) demo_anchor ''g''))) ''phone'' = ''phone''"
    by simp
  moreover have "authority bare_host (ct_registry (fst (foldControl bare_host (take 2 demo_ledger) demo_anchor ''g''))) ''phone'' = ''bob''"
    by code_simp
  ultimately show ?thesis by blast
qed

text \<open>
  No entry lowers what a controller is known by: its generation floor, its time floor and every
  member's attested time only grow as a ledger grows. Normalization is idempotent, as that of
  \<^verbatim>\<open>@kokuin/token\<close> is.
\<close>

theorem control_floors_grow:
  assumes "\<And>d. normalizeDID K (normalizeDID K d) = normalizeDID K d"
  shows "knows_more
    (map_of (rg_controllers (ct_registry (fst (foldControl K (held @ more_entries) anchor groupID)))) c)
    (map_of (rg_controllers (ct_registry (fst (foldControl K held anchor groupID)))) c)"
  using floor_law.replay [of K "fst (foldControl K held anchor groupID)" "ga_controller anchor" groupID "length held"
      more_entries] assms
  by (simp add: foldControl_append floors_kept_def)

definition demo_lifecycle :: GroupAnchor where
  "demo_lifecycle = demo_anchor \<lparr> ga_controller := Some ''did:kokuin:c'' \<rparr>"

definition demo_clocks :: "json FoldInput list" where
  "demo_clocks = map (\<lambda>t. demo_entry ''kumiai.device'' ''did:kokuin:c'' ''did:kokuin:c''
     (JObj [(''op'', JStr ''clock''), (''time'', JNum (Fin t))])) [5, 3]"

theorem control_floors_grow_witness:
  "time_floor (map_of (rg_controllers (ct_registry (fst (foldControl bare_host (take 1 demo_clocks) demo_lifecycle ''g'')))) ''did:kokuin:c'')
     \<le> time_floor (map_of (rg_controllers (ct_registry (fst (foldControl bare_host demo_clocks demo_lifecycle ''g'')))) ''did:kokuin:c'')"
proof -
  have "normalizeDID bare_host (normalizeDID bare_host d) = normalizeDID bare_host d" for d
    by (simp add: bare_host_def)
  from control_floors_grow [OF this, of "take 1 demo_clocks" "drop 1 demo_clocks" demo_lifecycle "''g''" "''did:kokuin:c''"]
  show ?thesis by (simp add: knows_more_def)
qed

text \<open>
  Claim C39. The check of a recovery does not stop a member that recovers onto a ledger extending its own:
  whatever entries follow, replayed or dropped, it finds no floor fallen, no terminal revocation of the
  controller gone, no removal and no attested time lost. What it can still refuse is decided by the recorded
  controller logs alone: a fork, or an epoch event the offered log lost; with no log recorded it accepts.
\<close>

theorem recovery_accepts_extension:
  assumes idem: "\<And>d. normalizeDID K (normalizeDID K d) = normalizeDID K d"
    and lifecycle: "ga_controller anchor = Some controller"
  shows "assertRetainsKnownEffects K controller
      (ct_registry (fst (foldControl K held anchor g))) (ct_registry (fst (foldControl K (held @ later) anchor g)))
    \<in> {Inr (), Inl LostEpochEvent, Inl Forked}
    \<and> (Option.bind (map_of (rg_controllers (ct_registry (fst (foldControl K held anchor g)))) (normalizeDID K controller))
         cp_recordedLog = None
       \<longrightarrow> assertRetainsKnownEffects K controller (ct_registry (fst (foldControl K held anchor g)))
             (ct_registry (fst (foldControl K (held @ later) anchor g))) = Inr ())"
proof -
  let ?c = "normalizeDID K controller"
  define known where "known = ct_registry (fst (foldControl K held anchor g))"
  define candidate where "candidate = ct_registry (fst (foldControl K (held @ later) anchor g))"
  have more: "knows_more (map_of (rg_controllers candidate) ?c) (map_of (rg_controllers known) ?c)"
    using floor_law.replay [where K = K and controller = "Some controller"] idem
    by (simp add: known_def candidate_def foldControl_append floors_kept_def lifecycle)
  have kept: "effects_kept ?c known candidate"
    using effect_law.replay by (simp add: known_def candidate_def foldControl_append lifecycle)
  have seed: "one_record_each (rg_devices known)"
    using effect_law.replay [where c = controller and K = K and st = "control_seed K anchor" and entries = held and position = 0]
    by (simp add: known_def foldControl_def lifecycle effects_kept_def control_seed_def registrySeed_def one_record_each_def)
  have revocations: "list_all (kept_revocation ?c candidate) (rg_devices known)"
    by (rule effects_kept_revocations [OF kept seed])
  have removals: "list_all (\<lambda>(add, m). is_removed_member (map_of (rg_controllers candidate) ?c) add \<or> P add m)
      (case map_of (rg_controllers known) ?c of None \<Rightarrow> [] | Some h \<Rightarrow> cp_removedMembers h)" for P
    unfolding list_all_iff using effects_kept_removals [OF kept] by auto
  have attests: "\<not> list_ex (\<lambda>(add, member). ms_effective member
      \<and> attested (map_of (rg_controllers candidate) ?c) (ms_key member)
          < attested (map_of (rg_controllers known) ?c) (ms_key member)) members" for members
    using more by (auto simp: list_ex_iff knows_more_def not_less [symmetric])
  have floors: "\<not> (time_floor (map_of (rg_controllers candidate) ?c) < time_floor (map_of (rg_controllers known) ?c)
      \<or> gen_floor (map_of (rg_controllers candidate) ?c) < gen_floor (map_of (rg_controllers known) ?c))"
    using more by (simp add: knows_more_def not_less)
  have fate: "assertRetainsKnownEffects K controller known candidate \<in> {Inr (), Inl LostEpochEvent, Inl Forked}"
    unfolding assertRetainsKnownEffects_def Let_def
    by (simp add: floors revocations removals attests split: option.split)
  have "assertRetainsKnownEffects K controller known candidate = Inr ()"
    if "Option.bind (map_of (rg_controllers known) ?c) cp_recordedLog = None"
  proof -
    have "fold_recorded K ?c (map_of (rg_controllers known) ?c) = None"
      using that by (auto simp: fold_recorded_def projectionFold_def split: option.splits)
    then show ?thesis
      unfolding assertRetainsKnownEffects_def Let_def that
      by (simp add: floors revocations removals attests split: option.split)
  qed
  with fate show ?thesis by (simp add: known_def candidate_def)
qed

theorem recovery_accepts_extension_witness:
  "assertRetainsKnownEffects bare_host ''did:kokuin:c''
     (ct_registry (fst (foldControl bare_host (take 1 demo_clocks) demo_lifecycle ''g'')))
     (ct_registry (fst (foldControl bare_host (take 1 demo_clocks @ drop 1 demo_clocks) demo_lifecycle ''g''))) = Inr ()"
proof -
  have "normalizeDID bare_host (normalizeDID bare_host d) = normalizeDID bare_host d" for d
    by (simp add: bare_host_def)
  moreover have "ga_controller demo_lifecycle = Some ''did:kokuin:c''" by (simp add: demo_lifecycle_def)
  moreover have "Option.bind (map_of (rg_controllers (ct_registry (fst (foldControl bare_host (take 1 demo_clocks)
      demo_lifecycle ''g'')))) (normalizeDID bare_host ''did:kokuin:c'')) cp_recordedLog = None" by code_simp
  ultimately show ?thesis
    using recovery_accepts_extension [of bare_host demo_lifecycle "''did:kokuin:c''" "take 1 demo_clocks" ]
    by blast
qed

section \<open>Reading untyped input\<close>

text \<open>
  Claim C40. A value the guard of device entries admits has what the later casts rely on. A register or add
  names a controller, a clock a finite time, a beacon a length and a digest; log, seed and reset carry a
  controller log, only these and a revoke do, and with it a reset or a revoke brings its effects, revocations
  and removals. Without a controller log there is none of these lists, a log or a seed carries no list and no
  capability, only a clock attests, and no element of a list is lost in the reading. Other fields an operation
  has no use for are let through.
\<close>

theorem device_value_guard_sound:
  assumes "asDeviceValue K v = Some val"
  shows "well_typed val \<and> lossless v val"
  using assms by (rule device_value_typed)

theorem device_value_guard_sound_witness:
  "\<exists>val. asDeviceValue bare_host (JObj [(''op'', JStr ''clock''), (''time'', JNum (Fin 5))]) = Some val \<and> dv_time val = Some 5
     \<and> well_typed val"
proof -
  let ?v = "JObj [(''op'', JStr ''clock''), (''time'', JNum (Fin 5))]"
  have "(case asDeviceValue bare_host ?v of Some val \<Rightarrow> dv_time val = Some 5 | None \<Rightarrow> False)" by code_simp
  then obtain val where "asDeviceValue bare_host ?v = Some val" "dv_time val = Some 5"
    by (auto split: option.splits)
  with device_value_guard_sound [OF this(1)] show ?thesis by blast
qed

text \<open>
  An anchor this build may write reads back as it was written, the consumer's payload included;
  of an anchor a later version wrote the payload is withheld and the rest is read.
\<close>

theorem anchor_roundtrip:
  assumes "writable_anchor (a \<lparr> ga_version := Fin 1 \<rparr>)"
  shows "decodeGroupAnchor (Some (encodeGroupAnchor (a \<lparr> ga_version := v \<rparr>))) =
     Some (if num_le v CURRENT_VERSION then a \<lparr> ga_version := v \<rparr> else a \<lparr> ga_version := v, ga_app := None \<rparr>)"
proof -
  let ?a = "a \<lparr> ga_version := v \<rparr>"
  have obj: "is_object (encodeGroupAnchor ?a)" by (simp add: encodeGroupAnchor_def)
  have strings: "str_field ''creatorDID'' (encodeGroupAnchor ?a) = Some (ga_creatorDID a)"
    "num_field ''version'' (encodeGroupAnchor ?a) = Some v"
    "str_field ''controller'' (encodeGroupAnchor ?a) = ga_controller a"
    "present ''controller'' (encodeGroupAnchor ?a) \<longleftrightarrow> ga_controller a \<noteq> None"
    by (cases "ga_controller a"; simp add: str_field_def num_field_def present_def field_encoded)+
  have lifetimes: "Option.bind (num_field ''leafLifetime'' (encodeGroupAnchor ?a)) integer_of = ga_leafLifetime a"
    "present ''leafLifetime'' (encodeGroupAnchor ?a) \<longleftrightarrow> ga_leafLifetime a \<noteq> None"
    "Option.bind (num_field ''trustedGrantLifetime'' (encodeGroupAnchor ?a)) integer_of = ga_trustedGrantLifetime a"
    "present ''trustedGrantLifetime'' (encodeGroupAnchor ?a) \<longleftrightarrow> ga_trustedGrantLifetime a \<noteq> None"
    by (cases "ga_leafLifetime a"; cases "ga_trustedGrantLifetime a"; simp add: num_field_def present_def field_encoded)+
  have "valid_lifetime ''leafLifetime'' MAX_LEAF_LIFETIME (encodeGroupAnchor ?a)"
    "valid_lifetime ''trustedGrantLifetime'' MAX_TRUSTED_GRANT_LIFETIME (encodeGroupAnchor ?a)"
    using assms unfolding valid_lifetime_def lifetimes by (auto simp: writable_anchor_def split: option.splits)
  with assms show ?thesis
    by (cases "ga_controller a")
      (simp_all add: decodeGroupAnchor_def obj strings lifetimes field_encoded writable_anchor_def)
qed

theorem anchor_roundtrip_witness:
  "decodeGroupAnchor (Some (encodeGroupAnchor (demo_anchor \<lparr> ga_version := Fin 2 \<rparr>)))
     = Some (demo_anchor \<lparr> ga_version := Fin 2, ga_app := None \<rparr>)"
  using anchor_roundtrip [of demo_anchor "Fin 2"]
  by (simp add: writable_anchor_def demo_anchor_def num_le_def CURRENT_VERSION_def)

end
