(* ===== verification/Policy_Props.thy ===== *)
theory Policy_Props
  imports Mls_Props
begin

text \<open>
  The properties of the commit gate (\<^verbatim>\<open>mls/src/policy.ts\<close>) and of the ledger head (\<^verbatim>\<open>head.ts\<close>), and
  the composition of the gate with the fold of a commit's envelope.
\<close>

section \<open>The gate, proposal by proposal\<close>

lemmas gate_simps = defaultCommitPolicy_def evaluateProposal_def evaluateExternalCommit_def isAdmin_def
  effective_sender_def role_of_def Let_def

definition has_external_init :: "ProposalWithSender list \<Rightarrow> bool" where
  "has_external_init proposals = list_ex (\<lambda>p. pw_proposal p = ExternalInitProposal) proposals"

lemma commit_accept_iff:
  "defaultCommitPolicy nd parse (IncomingCommit committer proposals) context = Accept \<longleftrightarrow>
     (cx_commitEnactsEntries context \<longrightarrow> (\<exists>p \<in> set proposals. is_gce (pw_proposal p)))
     \<and> (if has_external_init proposals then evaluateExternalCommit nd proposals context = Accept
        else \<forall>p \<in> set proposals.
          evaluateProposal nd parse (pw_proposal p) (effective_sender committer p) context = Accept)"
  by (auto simp: defaultCommitPolicy_def has_external_init_def list_ex_iff list_all_iff)

lemma remove_accepted:
  "evaluateProposal nd parse (RemoveProposal t) s context = Accept \<Longrightarrow> cx_didOfLeaf context t = Some d \<Longrightarrow>
     role_of (cx_candidateRoster context) (nd d) \<noteq> Some Admin"
  by (auto simp: evaluateProposal_def Let_def)

lemma ordinary_accepted:
  assumes "evaluateProposal nd parse p s context = Accept" and "\<not> isAdmin nd context s"
    and "cx_enactedDeviceEntries context = []" and "\<not> cx_enactsOnlyDeviceEntries context"
  shows "p = UpdateProposal \<or> (\<exists>leaf. p = RemoveProposal leaf \<and> s = Some leaf)"
  using assms
  by (cases p) (auto simp: evaluateProposal_def Let_def split: option.splits if_splits)

lemma external_scan_two:
  assumes "length ps = 2" and "external_scan ps (False, None) = Some (True, Some t)"
  shows "ps = [ExternalInitProposal, RemoveProposal t] \<or> ps = [RemoveProposal t, ExternalInitProposal]"
proof -
  obtain p q where "ps = [p, q]" using assms(1) by (auto simp: length_Suc_conv numeral_2_eq_2)
  with assms(2) show ?thesis by (cases p; cases q) auto
qed

text \<open>
  An accepted external commit is exactly one external init and one remove, of the leaf whose DID
  the new leaf proves, and that DID holds a role: a rejoin replaces its own stale leaf and nothing else.
\<close>

lemma gate_external_rejoin:
  assumes "defaultCommitPolicy nd parse (IncomingCommit committer proposals) context = Accept"
    and "has_external_init proposals"
  shows "\<exists>d t. cx_externalCommitDID context = Some d \<and> role_of (cx_baseRoster context) (nd d) \<noteq> None
    \<and> cx_didOfLeaf context t = Some d
    \<and> map pw_proposal proposals \<in> {[ExternalInitProposal, RemoveProposal t], [RemoveProposal t, ExternalInitProposal]}"
proof -
  have "evaluateExternalCommit nd proposals context = Accept"
    using assms by (simp add: commit_accept_iff)
  then obtain d t where d: "cx_externalCommitDID context = Some d" "role_of (cx_baseRoster context) (nd d) \<noteq> None"
    and two: "length (map pw_proposal proposals) = 2"
    and scan: "external_scan (map pw_proposal proposals) (False, None) = Some (True, Some t)"
    and t: "cx_didOfLeaf context t = Some d"
    by (auto simp: evaluateExternalCommit_def split: option.splits if_splits bool.splits prod.splits)
  with external_scan_two [OF two scan] show ?thesis by (intro exI [of _ d] exI [of _ t]) simp
qed

text \<open>
  Claim C16. What the gate lets through without an admin. In a commit without device entries whose proposals
  all come from members that are no admins, every accepted proposal is a key update or the sender's own
  removal; or the commit is an external rejoin, exactly one external init and one removal, of a leaf of the
  DID the new leaf proves, which holds a role. Either way the commit enacts no ledger entry: a member without
  authority cannot add, remove another, or move the head.
\<close>

theorem gate_unprivileged:
  assumes "defaultCommitPolicy nd parse (IncomingCommit committer proposals) context = Accept"
    and "cx_enactedDeviceEntries context = []" and "\<not> cx_enactsOnlyDeviceEntries context"
    and "\<forall>p \<in> set proposals. \<not> isAdmin nd context (effective_sender committer p)"
  shows "(if has_external_init proposals
      then \<exists>d t. cx_externalCommitDID context = Some d \<and> role_of (cx_baseRoster context) (nd d) \<noteq> None
        \<and> cx_didOfLeaf context t = Some d
        \<and> map pw_proposal proposals \<in> {[ExternalInitProposal, RemoveProposal t], [RemoveProposal t, ExternalInitProposal]}
      else \<forall>p \<in> set proposals. pw_proposal p = UpdateProposal
        \<or> (\<exists>leaf. pw_proposal p = RemoveProposal leaf \<and> effective_sender committer p = Some leaf))
    \<and> \<not> cx_commitEnactsEntries context"
proof (cases "has_external_init proposals")
  case True
  from gate_external_rejoin [OF assms(1) this] obtain d t
    where rejoin: "cx_externalCommitDID context = Some d" "role_of (cx_baseRoster context) (nd d) \<noteq> None"
      "cx_didOfLeaf context t = Some d"
      "map pw_proposal proposals \<in> {[ExternalInitProposal, RemoveProposal t], [RemoveProposal t, ExternalInitProposal]}"
    by (elim exE conjE)
  from rejoin(4) have "pw_proposal ` set proposals = {ExternalInitProposal, RemoveProposal t}"
    by (auto simp flip: set_map)
  then have "\<forall>x \<in> pw_proposal ` set proposals. \<not> is_gce x" by simp
  then have "\<not> (\<exists>p \<in> set proposals. is_gce (pw_proposal p))" by simp
  with assms(1) rejoin True show ?thesis by (auto simp: commit_accept_iff)
next
  case False
  have ordinary: "\<forall>p \<in> set proposals. pw_proposal p = UpdateProposal
      \<or> (\<exists>leaf. pw_proposal p = RemoveProposal leaf \<and> effective_sender committer p = Some leaf)"
  proof
    fix p assume p: "p \<in> set proposals"
    have "evaluateProposal nd parse (pw_proposal p) (effective_sender committer p) context = Accept"
      using assms(1) False p by (simp add: commit_accept_iff)
    from ordinary_accepted [OF this] assms(2-4) p
    show "pw_proposal p = UpdateProposal \<or> (\<exists>leaf. pw_proposal p = RemoveProposal leaf \<and> effective_sender committer p = Some leaf)"
      by blast
  qed
  then have "\<not> (\<exists>p \<in> set proposals. is_gce (pw_proposal p))" by fastforce
  with assms(1) ordinary False show ?thesis by (auto simp: commit_accept_iff)
qed

definition demo_context :: CommitPolicyContext where
  "demo_context = \<lparr> cx_baseRoster = \<lparr> roles = [(''ann'', Admin), (''bob'', Member)] \<rparr>,
     cx_candidateRoster = \<lparr> roles = [(''ann'', Admin), (''bob'', Member)] \<rparr>,
     cx_didOfLeaf = (\<lambda>i. if i = 0 then Some ''ann'' else if i = 1 then Some ''bob'' else None),
     cx_controllerOf = (\<lambda>_. None),
     cx_currentExtensions = [buildLedgerHeadExtension [1]], cx_expectedHeadExtensionData = encodeLedgerHead [2],
     cx_commitEnactsEntries = False, cx_enactedDeviceEntries = [], cx_enactsOnlyDeviceEntries = False,
     cx_externalCommitDID = None \<rparr>"

theorem gate_unprivileged_witness:
  "defaultCommitPolicy (\<lambda>d. d) (\<lambda>_. None)
     (IncomingCommit (Some 1) [\<lparr> pw_proposal = RemoveProposal 1, pw_senderLeafIndex = None \<rparr>]) demo_context = Accept
   \<and> \<not> cx_commitEnactsEntries demo_context"
proof -
  let ?ps = "[\<lparr> pw_proposal = RemoveProposal 1, pw_senderLeafIndex = None \<rparr>]"
  have ok: "defaultCommitPolicy (\<lambda>d. d) (\<lambda>_. None) (IncomingCommit (Some 1) ?ps) demo_context = Accept"
    by (simp add: gate_simps demo_context_def)
  have "\<forall>p \<in> set ?ps. \<not> isAdmin (\<lambda>d. d) demo_context (effective_sender (Some 1) p)"
    by (simp add: gate_simps demo_context_def)
  then have "\<not> cx_commitEnactsEntries demo_context"
    using gate_unprivileged [OF ok] by (simp add: demo_context_def)
  with ok show ?thesis by blast
qed

definition demo_rejoin :: "ProposalWithSender list" where
  "demo_rejoin = map (\<lambda>p. \<lparr> pw_proposal = p, pw_senderLeafIndex = None \<rparr>) [ExternalInitProposal, RemoveProposal 1]"

theorem gate_external_rejoin_witness:
  "\<exists>t. cx_didOfLeaf demo_context t = Some ''bob''
     \<and> map pw_proposal demo_rejoin \<in> {[ExternalInitProposal, RemoveProposal t], [RemoveProposal t, ExternalInitProposal]}"
proof -
  let ?ctxt = "demo_context \<lparr> cx_externalCommitDID := Some ''bob'' \<rparr>"
  have "defaultCommitPolicy (\<lambda>d. d) (\<lambda>_. None) (IncomingCommit None demo_rejoin) ?ctxt = Accept"
    by (simp add: gate_simps demo_context_def demo_rejoin_def)
  moreover have "has_external_init demo_rejoin" by (simp add: has_external_init_def demo_rejoin_def)
  ultimately show ?thesis
    using gate_external_rejoin [of "\<lambda>d. d" "\<lambda>_. None" None demo_rejoin ?ctxt] by (auto simp: demo_context_def)
qed

text \<open>
  Claim C18. A proposed extension list is accepted exactly when it is the current list with the head moved
  to the expected head, or, in a group without a controller, that list with one empty reserved extension
  installed where there was none; and every extension is raw bytes.
\<close>

theorem gate_pins_extensions:
  "evaluateGroupContextExtensions parse extensions context = Accept \<longleftrightarrow>
     (\<forall>e \<in> set (pinned_extensions context). \<exists>b. ex_data e = RawData b)
     \<and> (extensions = pinned_extensions context
        \<or> \<not> is_lifecycle parse (pinned_extensions context)
          \<and> installs_reserved extensions (pinned_extensions context))"
  by (rule gce_accept_iff)

theorem gate_pins_extensions_witness:
  "evaluateGroupContextExtensions (\<lambda>_. None) [buildLedgerHeadExtension [2], empty_reserved] demo_context = Accept"
proof -
  have pinned: "pinned_extensions demo_context = [buildLedgerHeadExtension [2]]"
    by (simp add: pinned_extensions_def demo_context_def buildLedgerHeadExtension_def)
  have "\<not> is_lifecycle (\<lambda>_. None) (pinned_extensions demo_context)"
    by (simp add: pinned is_lifecycle_def buildLedgerHeadExtension_def GROUP_ANCHOR_EXTENSION_TYPE_def
        LEDGER_HEAD_EXTENSION_TYPE_def)
  moreover have "installs_reserved [buildLedgerHeadExtension [2], empty_reserved] (pinned_extensions demo_context)"
    by (auto simp: installs_reserved_def pinned buildLedgerHeadExtension_def LEDGER_HEAD_EXTENSION_TYPE_def
        RESERVED_EXTENSION_TYPE_def intro: exI [of _ "[_]"])
  ultimately show ?thesis
    using gate_pins_extensions [of "\<lambda>_. None" "[buildLedgerHeadExtension [2], empty_reserved]" demo_context]
    by (simp add: pinned buildLedgerHeadExtension_def)
qed

section \<open>The gate and the fold together\<close>

lemma envelope_admins:
  "foldEnvelope_from K ctx g entries st shown = EnvelopeOk roster registry surfaced \<Longrightarrow>
     roster_inv (ct_roster st) \<Longrightarrow> roster_inv roster"
proof (induction entries arbitrary: st shown)
  case (Cons e entries)
  then obtain st' more_shown where step: "envelope_step K ctx g (fi_verified e) st = Inr (st', more_shown)"
    and rest: "foldEnvelope_from K ctx g entries st' (shown @ more_shown) = EnvelopeOk roster registry surfaced"
    by (auto split: sum.splits)
  have "roster_inv (ct_roster st')"
    using step Cons.prems(2)
    by (auto simp: envelope_step_def Let_def roster_inv_def apply_role_def roster_apply_distinct
        split: if_splits option.splits sum.splits)
  from Cons.IH [OF rest this] show ?case .
qed simp

text \<open>
  Claim C13. When the gate judges a commit by the roster its own envelope folds to, whether the group has a
  controller or not, an accepted commit leaves the roster an admin and removes no leaf of one: to remove an
  admin a commit must carry its demotion, and the demotion of the last admin is refused. The one exception is
  an external rejoin, which removes one leaf, of the very DID the new leaf proves.
\<close>

theorem commit_keeps_admins:
  assumes "foldEnvelope K base registry entries groupID ctx = EnvelopeOk roster registry' surfaced"
    and "roster_inv base" and "cx_candidateRoster context = roster"
    and "defaultCommitPolicy (normalizeDID K) parse (IncomingCommit committer proposals) context = Accept"
  shows "0 < adminCount roster
    \<and> (\<forall>p \<in> set proposals. \<forall>leaf d. pw_proposal p = RemoveProposal leaf \<longrightarrow> cx_didOfLeaf context leaf = Some d \<longrightarrow>
         role_of roster (normalizeDID K d) \<noteq> Some Admin
         \<or> has_external_init proposals \<and> cx_externalCommitDID context = Some d
           \<and> map pw_proposal proposals \<in> {[ExternalInitProposal, RemoveProposal leaf], [RemoveProposal leaf, ExternalInitProposal]})"
proof
  show "0 < adminCount roster"
    using envelope_admins [OF assms(1) [unfolded foldEnvelope_def]] assms(2) by (simp add: roster_inv_def)
  show "\<forall>p \<in> set proposals. \<forall>leaf d. pw_proposal p = RemoveProposal leaf \<longrightarrow> cx_didOfLeaf context leaf = Some d \<longrightarrow>
         role_of roster (normalizeDID K d) \<noteq> Some Admin
         \<or> has_external_init proposals \<and> cx_externalCommitDID context = Some d
           \<and> map pw_proposal proposals \<in> {[ExternalInitProposal, RemoveProposal leaf], [RemoveProposal leaf, ExternalInitProposal]}"
  proof (cases "has_external_init proposals")
    case True
    from gate_external_rejoin [OF assms(4) this] obtain d t
      where rejoin: "cx_externalCommitDID context = Some d" "cx_didOfLeaf context t = Some d"
        "map pw_proposal proposals \<in> {[ExternalInitProposal, RemoveProposal t], [RemoveProposal t, ExternalInitProposal]}"
      by (elim exE conjE)
    from rejoin(3) have "pw_proposal ` set proposals = {ExternalInitProposal, RemoveProposal t}"
      by (auto simp flip: set_map)
    then have "leaf = t" if "p \<in> set proposals" "pw_proposal p = RemoveProposal leaf" for p leaf
      using that by (metis Proposal.distinct Proposal.inject imageI insertE singletonD)
    with rejoin True show ?thesis by auto
  next
    case False
    then show ?thesis using assms(4) by (auto simp: commit_accept_iff assms(3) [symmetric] dest!: remove_accepted)
  qed
qed

definition demo_demotion :: "json FoldInput list" where
  "demo_demotion = [demo_entry ''kumiai.role'' ''ann'' ''bob'' (JStr ''member'')]"

theorem commit_keeps_admins_witness:
  "\<exists>roster registry surfaced. foldEnvelope bare_host \<lparr> roles = [(''ann'', Admin), (''bob'', Admin)] \<rparr> registrySeed
       demo_demotion ''g'' None = EnvelopeOk roster registry surfaced \<and> 0 < adminCount roster"
proof -
  let ?base = "\<lparr> roles = [(''ann'', Admin), (''bob'', Admin)] \<rparr>"
  let ?r = "foldEnvelope bare_host ?base registrySeed demo_demotion ''g'' None"
  let ?ctxt = "demo_context \<lparr> cx_baseRoster := ?base \<rparr>"
  let ?ps = "[\<lparr> pw_proposal = RemoveProposal 1, pw_senderLeafIndex = None \<rparr>]"
  have "(case ?r of EnvelopeOk roster _ _ \<Rightarrow> roles roster = [(''ann'', Admin), (''bob'', Member)] | _ \<Rightarrow> False)"
    by code_simp
  then obtain registry surfaced where folded: "?r = EnvelopeOk (cx_candidateRoster ?ctxt) registry surfaced"
    by (auto simp: demo_context_def split: EnvelopeFoldResult.splits)
  have "roster_inv ?base" by code_simp
  moreover have "defaultCommitPolicy (normalizeDID bare_host) (\<lambda>_. None) (IncomingCommit (Some 0) ?ps) ?ctxt = Accept"
    by (simp add: gate_simps demo_context_def bare_host_def)
  ultimately show ?thesis using commit_keeps_admins [OF folded, of ?ctxt] folded by blast
qed

section \<open>The ledger head\<close>

text \<open>
  Claim C19. A head binds the ledger: two lists of entry ids with the same head are the same list, or the
  hashing of the two chains shows a collision of the digest, or a digest that begins with the domain
  string. So an omitted, reordered or truncated entry moves the head.
\<close>

theorem ledger_head_binds:
  assumes "\<And>b. length (sha b) = SHA256_LENGTH"
    and "headsMatch (computeHead sha groupID ids) (computeHead sha groupID ids')"
  shows "ids = ids' \<or> collision sha (hashed sha groupID ids) (hashed sha groupID ids')
    \<or> domain_digest sha (hashed sha groupID ids @ hashed sha groupID ids')"
  using assms by (intro chain_agrees) (simp_all add: headsMatch_def)

definition demo_sha :: "bytes \<Rightarrow> bytes" where
  "demo_sha b = take 32 (rev b @ replicate 32 0)"

theorem ledger_head_binds_witness:
  "computeHead demo_sha ''g'' [''a'', ''b''] \<noteq> computeHead demo_sha ''g'' [''b'', ''a'']
   \<and> headsMatch (computeHead demo_sha ''g'' [''a'']) (computeHead demo_sha ''g'' ([] @ [''a'']))
   \<and> ([''a''] = [] @ [''a''] \<or> collision demo_sha (hashed demo_sha ''g'' [''a'']) (hashed demo_sha ''g'' ([] @ [''a'']))
      \<or> domain_digest demo_sha (hashed demo_sha ''g'' [''a''] @ hashed demo_sha ''g'' ([] @ [''a''])))"
proof (intro conjI)
  show "computeHead demo_sha ''g'' [''a'', ''b''] \<noteq> computeHead demo_sha ''g'' [''b'', ''a'']" by code_simp
  show "headsMatch (computeHead demo_sha ''g'' [''a'']) (computeHead demo_sha ''g'' ([] @ [''a'']))"
    by (simp add: headsMatch_def)
  then show "[''a''] = [] @ [''a''] \<or> collision demo_sha (hashed demo_sha ''g'' [''a'']) (hashed demo_sha ''g'' ([] @ [''a'']))
      \<or> domain_digest demo_sha (hashed demo_sha ''g'' [''a''] @ hashed demo_sha ''g'' ([] @ [''a'']))"
    by (rule ledger_head_binds [rotated]) (simp add: demo_sha_def SHA256_LENGTH_def)
qed

end
