(* ===== verification/Actions.thy ===== *)
theory Actions
  imports Prelude
begin

text \<open>
  Actions of a component that keeps a state and may throw: an action returns a value or an error, with the
  state it left behind. The lanes of a group peer are written in these, each over its own state, and their
  theorems are stated with \<open>ends\<close>.
\<close>

type_synonym ('s, 'e, 'a) act = "'s \<Rightarrow> ('e + 'a) \<times> 's"

definition give :: "'a \<Rightarrow> ('s, 'e, 'a) act" where
  "give x st = (Inr x, st)"

definition fail :: "'e \<Rightarrow> ('s, 'e, 'a) act" where
  "fail e st = (Inl e, st)"

definition and_then :: "('s, 'e, 'a) act \<Rightarrow> ('a \<Rightarrow> ('s, 'e, 'b) act) \<Rightarrow> ('s, 'e, 'b) act" where
  "and_then m f st = (case m st of (Inl e, st') \<Rightarrow> (Inl e, st') | (Inr x, st') \<Rightarrow> f x st')"

definition catching :: "('s, 'e, 'a) act \<Rightarrow> ('e \<Rightarrow> ('s, 'e, 'a) act) \<Rightarrow> ('s, 'e, 'a) act" where
  "catching m handler st = (case m st of (Inl e, st') \<Rightarrow> handler e st' | (Inr x, st') \<Rightarrow> (Inr x, st'))"

definition reading :: "('s \<Rightarrow> ('s, 'e, 'a) act) \<Rightarrow> ('s, 'e, 'a) act" where
  "reading f st = f st st"

definition change :: "('s \<Rightarrow> 's) \<Rightarrow> ('s, 'e, unit) act" where
  "change f st = (Inr (), f st)"

section \<open>What an action guarantees\<close>

text \<open>
  \<open>ends m Q R st\<close>: run from \<open>st\<close>, the action ends in \<open>Q\<close> with its value or in \<open>R\<close> with its error.
\<close>

definition ends ::
  "('s, 'e, 'a) act \<Rightarrow> ('a \<Rightarrow> 's \<Rightarrow> bool) \<Rightarrow> ('e \<Rightarrow> 's \<Rightarrow> bool) \<Rightarrow> 's \<Rightarrow> bool" where
  "ends m Q R st = (case m st of (Inr x, st') \<Rightarrow> Q x st' | (Inl e, st') \<Rightarrow> R e st')"

lemma ends_give [simp]: "ends (give x) Q R st \<longleftrightarrow> Q x st"
  by (simp add: ends_def give_def)

lemma ends_fail [simp]: "ends (fail e) Q R st \<longleftrightarrow> R e st"
  by (simp add: ends_def fail_def)

lemma ends_and_then [simp]: "ends (and_then m f) Q R st \<longleftrightarrow> ends m (\<lambda>x. ends (f x) Q R) R st"
  by (simp add: ends_def and_then_def split: prod.splits sum.splits)

lemma ends_catching [simp]: "ends (catching m h) Q R st \<longleftrightarrow> ends m Q (\<lambda>e. ends (h e) Q R) st"
  by (simp add: ends_def catching_def split: prod.splits sum.splits)

lemma ends_reading [simp]: "ends (reading f) Q R st \<longleftrightarrow> ends (f st) Q R st"
  by (simp add: ends_def reading_def)

lemma ends_change [simp]: "ends (change f) Q R st \<longleftrightarrow> Q () (f st)"
  by (simp add: ends_def change_def)

lemma ends_if [simp]: "ends (if b then m else m') Q R st \<longleftrightarrow> (if b then ends m Q R st else ends m' Q R st)"
  by simp

lemma ends_weaken:
  assumes "ends m Q R st" "\<And>x st'. Q x st' \<Longrightarrow> Q' x st'" "\<And>e st'. R e st' \<Longrightarrow> R' e st'"
  shows "ends m Q' R' st"
  using assms by (auto simp: ends_def split: prod.splits sum.splits)

lemma ends_conj:
  "ends m (\<lambda>x st'. Q x st' \<and> Q' x st') (\<lambda>e st'. R e st' \<and> R' e st') st \<longleftrightarrow> ends m Q R st \<and> ends m Q' R' st"
  by (auto simp: ends_def split: prod.splits sum.splits)

lemma ends_result: "ends m Q R st \<Longrightarrow> m st = (Inr x, st') \<Longrightarrow> Q x st'"
  by (simp add: ends_def)

end
