(* ===== verification/Peer_Frames.thy ===== *)
theory Peer_Frames
  imports Ledger_Head
begin

text \<open>
  The bytes a peer puts on its control topics, \<^verbatim>\<open>packages/rpc/src\<close>: the handshake header
  (\<^verbatim>\<open>handshake.ts\<close>), the commit frame (\<^verbatim>\<open>commit-frame.ts\<close>), the entries sealed into it
  (\<^verbatim>\<open>ledger-entries.ts\<close>), the size check (\<^verbatim>\<open>frame-size.ts\<close>) and the check on a page of the log
  (\<^verbatim>\<open>cursor.ts\<close>). A thrown error is a constructor of \<open>frame_error\<close>.
\<close>

named_theorems frame_simps \<open>reading back what was framed\<close>

section \<open>Little endian fields\<close>

text \<open>\<^verbatim>\<open>setUint16\<close> and \<^verbatim>\<open>setUint32\<close> with the little endian flag keep the low bytes of the number.\<close>

primrec le_bytes :: "nat \<Rightarrow> nat \<Rightarrow> bytes" where
  "le_bytes 0 n = []"
| "le_bytes (Suc w) n = of_nat n # le_bytes w (n div 256)"

primrec le_nat :: "bytes \<Rightarrow> nat" where
  "le_nat [] = 0"
| "le_nat (b # bs) = unat b + 256 * le_nat bs"

lemma length_le_bytes [simp]: "length (le_bytes w n) = w"
  by (induction w arbitrary: n) simp_all

lemma le_nat_bytes [frame_simps]: "le_nat (le_bytes w n) = n mod 256 ^ w"
proof (induction w arbitrary: n)
  case (Suc w)
  then show ?case by (simp add: unat_of_nat mod_mult2_eq)
qed simp

lemma le_nat_less: "le_nat bs < 256 ^ length bs"
proof (induction bs)
  case (Cons b bs)
  have "unat b < 256" using unsigned_less [of b] by simp
  with Cons show ?case by simp
qed simp

lemma le_bytes_nat: "le_bytes (length bs) (le_nat bs) = bs"
proof (induction bs)
  case (Cons b bs)
  have less: "unat b < 256" using unsigned_less [of b] by simp
  then have "of_nat (unat b + 256 * le_nat bs) = b" by (simp only: word_unat_eq_iff unat_of_nat) simp
  with Cons less show ?case by simp
qed simp

section \<open>Errors and the size of a frame\<close>

datatype frame_error =
    FrameTooLargeError nat
  | FrameTooShort
  | BadMagic
  | UnknownHandshakeKind "8 word"
  | UnsupportedCommitFrameVersionError "8 word"
  | FrameTruncated
  | UnsupportedEntriesVersion "8 word"

definition isUnsupportedCommitFrameVersion :: "frame_error \<Rightarrow> bool" where
  "isUnsupportedCommitFrameVersion e = (case e of UnsupportedCommitFrameVersionError _ \<Rightarrow> True | _ \<Rightarrow> False)"

text \<open>The length of the base64 text of a frame is bounded.\<close>

definition frame_fits :: "bytes \<Rightarrow> bool" where
  "frame_fits payload \<longleftrightarrow> 4 * ((length payload + 2) div 3) \<le> 1048576"

definition assertFrameFits :: "bytes \<Rightarrow> frame_error + unit" where
  "assertFrameFits payload = (if frame_fits payload then Inr () else Inl (FrameTooLargeError (length payload)))"

lemma frame_fits_length: "frame_fits payload \<Longrightarrow> length payload \<le> 786432"
  by (simp add: frame_fits_def)

section \<open>The handshake header\<close>

definition HANDSHAKE_MAGIC :: bytes where "HANDSHAKE_MAGIC = [0x45, 0x4b]"
definition HANDSHAKE_VERSION :: "8 word" where "HANDSHAKE_VERSION = 1"

datatype HandshakeKind =
    Commit | RecoveryRequest | RecoveryReply | LedgerRequest | LedgerReply
  | RecoveryConfirmRequest | RecoveryVerdictKind

definition HANDSHAKE_KIND :: "HandshakeKind \<Rightarrow> 8 word" where
  "HANDSHAKE_KIND k = (case k of Commit \<Rightarrow> 0 | RecoveryRequest \<Rightarrow> 1 | RecoveryReply \<Rightarrow> 2 | LedgerRequest \<Rightarrow> 3
     | LedgerReply \<Rightarrow> 4 | RecoveryConfirmRequest \<Rightarrow> 5 | RecoveryVerdictKind \<Rightarrow> 6)"

definition isHandshakeKind :: "8 word \<Rightarrow> bool" where
  "isHandshakeKind b \<longleftrightarrow> b \<in> HANDSHAKE_KIND ` {Commit, RecoveryRequest, RecoveryReply, LedgerRequest, LedgerReply,
     RecoveryConfirmRequest, RecoveryVerdictKind}"

record HandshakeFrame =
  hf_version :: "8 word"
  hf_kind :: "8 word"
  hf_payload :: bytes

definition encodeHandshakeFrame :: "HandshakeKind \<Rightarrow> bytes \<Rightarrow> frame_error + bytes" where
  "encodeHandshakeFrame kind payload =
     (let frame = HANDSHAKE_MAGIC @ [HANDSHAKE_VERSION, HANDSHAKE_KIND kind] @ payload
      in if kind \<in> {RecoveryConfirmRequest, RecoveryVerdictKind} \<and> \<not> frame_fits frame
         then Inl (FrameTooLargeError (length frame)) else Inr frame)"

text \<open>An unknown version is handed back, with a kind nobody has checked: the lane decides what it means.\<close>

definition decodeHandshakeFrame :: "bytes \<Rightarrow> frame_error + HandshakeFrame" where
  "decodeHandshakeFrame frame =
     (if length frame < 4 then Inl FrameTooShort
      else if frame ! 0 \<noteq> HANDSHAKE_MAGIC ! 0 \<or> frame ! 1 \<noteq> HANDSHAKE_MAGIC ! 1 then Inl BadMagic
      else let version = frame ! 2; kind = frame ! 3 in
        if version \<noteq> HANDSHAKE_VERSION
        then Inr \<lparr> hf_version = version, hf_kind = kind, hf_payload = drop 4 frame \<rparr>
        else if \<not> isHandshakeKind kind then Inl (UnknownHandshakeKind kind)
        else Inr \<lparr> hf_version = version, hf_kind = kind, hf_payload = drop 4 frame \<rparr>)"

lemma isHandshakeKind_KIND [simp]: "isHandshakeKind (HANDSHAKE_KIND k)"
  by (cases k) (simp_all add: isHandshakeKind_def)

lemma inj_HANDSHAKE_KIND: "inj HANDSHAKE_KIND"
  by (rule injI) (simp add: HANDSHAKE_KIND_def split: HandshakeKind.splits)

lemma decode_encode_handshake [frame_simps]:
  assumes "encodeHandshakeFrame kind payload = Inr frame"
  shows "decodeHandshakeFrame frame
    = Inr \<lparr> hf_version = HANDSHAKE_VERSION, hf_kind = HANDSHAKE_KIND kind, hf_payload = payload \<rparr>"
  using assms by (auto simp: encodeHandshakeFrame_def decodeHandshakeFrame_def HANDSHAKE_MAGIC_def Let_def
      split: if_splits)

section \<open>The commit frame\<close>

definition COMMIT_FRAME_VERSION :: "8 word" where "COMMIT_FRAME_VERSION = 1"

record CommitFrame =
  cf_commit :: bytes
  cf_sealedEntries :: bytes

definition encodeCommitFrame :: "CommitFrame \<Rightarrow> bytes" where
  "encodeCommitFrame f = COMMIT_FRAME_VERSION # le_bytes 4 (length (cf_commit f)) @ cf_commit f @ cf_sealedEntries f"

definition decodeCommitFrame :: "bytes \<Rightarrow> frame_error + CommitFrame" where
  "decodeCommitFrame frame =
     (if length frame < 5 then Inl FrameTooShort
      else if hd frame \<noteq> COMMIT_FRAME_VERSION then Inl (UnsupportedCommitFrameVersionError (hd frame))
      else let commitLength = le_nat (take 4 (drop 1 frame)); blobStart = 5 + commitLength in
        if length frame < blobStart then Inl FrameTruncated
        else Inr \<lparr> cf_commit = take commitLength (drop 5 frame), cf_sealedEntries = drop blobStart frame \<rparr>)"

lemma decode_encode_commit [frame_simps]:
  assumes "length (cf_commit f) < 2 ^ 32"
  shows "decodeCommitFrame (encodeCommitFrame f) = Inr f"
proof -
  have "le_nat (le_bytes 4 (length (cf_commit f))) = length (cf_commit f)"
    using assms by (simp add: le_nat_bytes)
  moreover have "drop (5 + n) (v # le_bytes 4 m @ rest) = drop n rest" for n m v and rest :: bytes
    using drop_drop [of n 5 "v # le_bytes 4 m @ rest"] by (simp add: add.commute)
  ultimately show ?thesis
    by (cases f) (simp add: decodeCommitFrame_def encodeCommitFrame_def Let_def)
qed

text \<open>A frame that decodes is the encoding of what it decodes to: no byte of it is ignored.\<close>

lemma encode_decode_commit:
  assumes "decodeCommitFrame frame = Inr f"
  shows "encodeCommitFrame f = frame"
proof -
  let ?n = "le_nat (take 4 (drop 1 frame))"
  have len: "5 + ?n \<le> length frame" and ver: "hd frame = COMMIT_FRAME_VERSION"
    and f: "f = \<lparr> cf_commit = take ?n (drop 5 frame), cf_sealedEntries = drop (5 + ?n) frame \<rparr>"
    using assms by (auto simp: decodeCommitFrame_def Let_def split: if_splits)
  have four: "length (take 4 (drop 1 frame)) = 4" using len by simp
  have "le_bytes 4 ?n = take 4 (drop 1 frame)"
    using le_bytes_nat [of "take 4 (drop 1 frame)"] four by simp
  moreover have "frame = hd frame # take 4 (drop 1 frame) @ drop 5 frame"
    using len by (cases frame) (simp_all add: drop_Suc flip: append_take_drop_id [of 4 "tl frame"])
  moreover have "take ?n (drop 5 frame) @ drop (5 + ?n) frame = drop 5 frame"
    by (metis append_take_drop_id drop_drop add.commute)
  moreover have "length (take ?n (drop 5 frame)) = ?n" using len by simp
  ultimately show ?thesis by (simp add: encodeCommitFrame_def f ver)
qed

section \<open>The entries sealed into a commit frame\<close>

definition LEDGER_ENTRIES_VERSION :: "8 word" where "LEDGER_ENTRIES_VERSION = 1"

text \<open>\<^verbatim>\<open>toUTF\<close> on the bytes of a string, the inverse of \<open>utf8\<close>.\<close>

definition from_utf8 :: "bytes \<Rightarrow> string" where
  "from_utf8 bytes = map (\<lambda>b. char_of (unat b)) bytes"

lemma from_utf8_utf8 [frame_simps]: "from_utf8 (utf8 s) = s"
proof -
  have "unat (of_nat (of_char c) :: 8 word) = of_char c" for c :: char
    by (simp add: unat_of_nat of_char_mod_256)
  then show ?thesis by (simp add: from_utf8_def utf8_def map_idI)
qed

definition encode_token :: "string \<Rightarrow> bytes" where
  "encode_token t = (let bytes = utf8 t in le_bytes 4 (length bytes) @ bytes)"

definition encodeLedgerEntries :: "string list \<Rightarrow> bytes" where
  "encodeLedgerEntries tokens =
     LEDGER_ENTRIES_VERSION # le_bytes 2 (length tokens) @ concat (map encode_token tokens)"

text \<open>The loop over the tokens, from an offset into the blob.\<close>

primrec read_tokens :: "nat \<Rightarrow> bytes \<Rightarrow> nat \<Rightarrow> frame_error + string list" where
  "read_tokens 0 bytes offset = Inr []"
| "read_tokens (Suc n) bytes offset =
     (if length bytes < offset + 4 then Inl FrameTruncated
      else let len = le_nat (take 4 (drop offset bytes)); start = offset + 4 in
        if length bytes < start + len then Inl FrameTruncated
        else (case read_tokens n bytes (start + len) of
            Inl e \<Rightarrow> Inl e
          | Inr tokens \<Rightarrow> Inr (from_utf8 (take len (drop start bytes)) # tokens)))"

definition decodeLedgerEntries :: "bytes \<Rightarrow> frame_error + string list" where
  "decodeLedgerEntries bytes =
     (if length bytes < 3 then Inl FrameTooShort
      else if hd bytes \<noteq> LEDGER_ENTRIES_VERSION then Inl (UnsupportedEntriesVersion (hd bytes))
      else read_tokens (le_nat (take 2 (drop 1 bytes))) bytes 3)"

text \<open>
  \<^verbatim>\<open>createLedgerEntryResolver\<close>: \<open>open_entries\<close> is the port's answer, \<open>None\<close> when the cipher refuses the
  blob. A blob that does not open or decode yields no entries, and the ids that are asked for are not read.
\<close>

definition resolveLedgerEntries :: "(bytes \<Rightarrow> bytes option) \<Rightarrow> bytes \<Rightarrow> string list \<Rightarrow> string list" where
  "resolveLedgerEntries open_entries sealedEntries ids = (case open_entries sealedEntries of
       None \<Rightarrow> []
     | Some opened \<Rightarrow> (case decodeLedgerEntries opened of Inl _ \<Rightarrow> [] | Inr tokens \<Rightarrow> tokens))"

lemma read_tokens_encode:
  assumes "\<forall>t \<in> set tokens. length (utf8 t) < 2 ^ 32"
  shows "read_tokens (length tokens) (front @ concat (map encode_token tokens) @ rest) (length front) = Inr tokens"
  using assms
proof (induction tokens arbitrary: front)
  case (Cons t tokens)
  let ?n = "length (utf8 t)"
  have n: "le_nat (le_bytes 4 ?n) = ?n" using Cons.prems by (simp add: le_nat_bytes)
  have step: "read_tokens (length tokens) ((front @ encode_token t) @ concat (map encode_token tokens) @ rest)
      (length (front @ encode_token t)) = Inr tokens"
    using Cons.IH [of "front @ encode_token t"] Cons.prems by simp
  have token: "encode_token t = le_bytes 4 ?n @ utf8 t" by (simp add: encode_token_def Let_def)
  have skip: "drop (length front + 4) (front @ le_bytes 4 ?n @ tail) = tail" for tail
    by simp
  have field: "drop (length front) (front @ tail) = tail" for tail by simp
  show ?case
    using step by (simp add: token n skip field add.assoc from_utf8_utf8 Let_def del: drop_append)
qed simp

lemma decode_encode_entries [frame_simps]:
  assumes "length tokens < 2 ^ 16" and "\<forall>t \<in> set tokens. length (utf8 t) < 2 ^ 32"
  shows "decodeLedgerEntries (encodeLedgerEntries tokens) = Inr tokens"
proof -
  have n: "le_nat (le_bytes 2 (length tokens)) = length tokens"
    using assms(1) by (simp add: le_nat_bytes)
  have "read_tokens (length tokens) ((LEDGER_ENTRIES_VERSION # le_bytes 2 (length tokens)) @ concat (map encode_token tokens) @ [])
      (length (LEDGER_ENTRIES_VERSION # le_bytes 2 (length tokens))) = Inr tokens"
    by (rule read_tokens_encode) (rule assms(2))
  then show ?thesis
    by (simp add: decodeLedgerEntries_def encodeLedgerEntries_def n numeral_3_eq_3)
qed

section \<open>A page of the log\<close>

text \<open>Each position of a page lies past the one before it, the first past the cursor.\<close>

fun forward_page :: "sequence_id option \<Rightarrow> sequence_id list \<Rightarrow> bool" where
  "forward_page previous [] \<longleftrightarrow> True"
| "forward_page previous (q # qs) \<longleftrightarrow> (case previous of None \<Rightarrow> True | Some p \<Rightarrow> p < q) \<and> forward_page (Some q) qs"

lemma forward_page_above:
  "forward_page (Some p) qs \<Longrightarrow> sorted qs \<and> distinct qs \<and> (\<forall>q \<in> set qs. p < q)"
  by (induction qs arbitrary: p) (auto intro: less_imp_le dest: order.strict_trans)

lemma forward_page_sorted: "forward_page previous qs \<Longrightarrow> sorted qs \<and> distinct qs"
  by (cases qs) (auto dest: forward_page_above intro: less_imp_le)

end
