(* ===== verification/Commit_Classify.thy ===== *)
theory Commit_Classify
  imports Peer_Frames
begin

text \<open>
  What the commit lane does with one frame of the commit log, \<^verbatim>\<open>packages/rpc/src/classify.ts\<close>: the rows of
  the table in evaluation order, read from the header of the commit and the record of what this peer
  enacted. \<^verbatim>\<open>sha256\<close> and \<^verbatim>\<open>toB64U\<close> are the argument \<open>digest\<close> of the functions that identify a commit.
\<close>

record CommitHeader =
  ch_epoch :: nat
  ch_committerDID :: "did option"
  ch_external :: bool

text \<open>\<^verbatim>\<open>null\<close> is \<open>NotACommit\<close>.\<close>

datatype CommitFrameEvidence = UNKNOWN_FRAME_VERSION | NotACommit | Header CommitHeader

record AppliedCommit =
  ac_sequenceID :: sequence_id
  ac_digest :: string

datatype branch = Winning | Losing

datatype CommitDisposition =
    ApplyRow | AheadRow | HistoryRow | ForkRow sequence_id branch | OwnUnmergedRow | PoisonRow

record CommitClassifierState =
  cs_localDID :: did
  cs_epoch :: nat
  cs_appliedByEpoch :: "nat \<rightharpoonup> AppliedCommit"

definition digestAppliedCommit :: "(bytes \<Rightarrow> string) \<Rightarrow> bytes \<Rightarrow> string" where
  "digestAppliedCommit digest commit = digest commit"

definition classifyCommit ::
  "CommitFrameEvidence \<Rightarrow> sequence_id \<Rightarrow> string option \<Rightarrow> CommitClassifierState \<Rightarrow> CommitDisposition" where
  "classifyCommit header sequenceID commitDigest state = (case header of
       UNKNOWN_FRAME_VERSION \<Rightarrow> AheadRow
     | NotACommit \<Rightarrow> PoisonRow
     | Header h \<Rightarrow>
         if cs_epoch state < ch_epoch h then AheadRow
         else if ch_epoch h < cs_epoch state then
           (case cs_appliedByEpoch state (ch_epoch h) of
              None \<Rightarrow> HistoryRow
            | Some applied \<Rightarrow>
                if commitDigest \<noteq> None \<and> commitDigest = Some (ac_digest applied) then HistoryRow
                else if commitDigest = None then HistoryRow
                else ForkRow (ac_sequenceID applied)
                       (if sequenceID < ac_sequenceID applied then Losing else Winning))
         else (case ch_committerDID h of
             None \<Rightarrow> PoisonRow
           | Some committer \<Rightarrow> if committer = cs_localDID state then OwnUnmergedRow else ApplyRow))"

text \<open>The rows, as what each one takes.\<close>

lemma classify_apply_iff:
  "classifyCommit header q d s = ApplyRow \<longleftrightarrow>
     (\<exists>h committer. header = Header h \<and> ch_epoch h = cs_epoch s
        \<and> ch_committerDID h = Some committer \<and> committer \<noteq> cs_localDID s)"
  by (auto simp: classifyCommit_def split: CommitFrameEvidence.splits option.splits)

lemma classify_own_iff:
  "classifyCommit header q d s = OwnUnmergedRow \<longleftrightarrow>
     (\<exists>h. header = Header h \<and> ch_epoch h = cs_epoch s \<and> ch_committerDID h = Some (cs_localDID s))"
  by (auto simp: classifyCommit_def split: CommitFrameEvidence.splits option.splits)

lemma classify_ahead_iff:
  "classifyCommit header q d s = AheadRow \<longleftrightarrow>
     header = UNKNOWN_FRAME_VERSION \<or> (\<exists>h. header = Header h \<and> cs_epoch s < ch_epoch h)"
  by (auto simp: classifyCommit_def split: CommitFrameEvidence.splits option.splits)

lemma classify_fork_iff:
  "classifyCommit header q d s = ForkRow p b \<longleftrightarrow>
     (\<exists>h applied other. header = Header h \<and> ch_epoch h < cs_epoch s
        \<and> cs_appliedByEpoch s (ch_epoch h) = Some applied \<and> d = Some other \<and> other \<noteq> ac_digest applied
        \<and> p = ac_sequenceID applied \<and> b = (if q < ac_sequenceID applied then Losing else Winning))"
  by (auto simp: classifyCommit_def split: CommitFrameEvidence.splits option.splits)

text \<open>Evidence that puts this peer off the line of its group.\<close>

definition strands :: "CommitDisposition \<Rightarrow> bool" where
  "strands d \<longleftrightarrow> d = AheadRow \<or> d = OwnUnmergedRow \<or> (\<exists>p. d = ForkRow p Losing)"

lemma strands_simps [simp]:
  "strands AheadRow" "strands OwnUnmergedRow" "\<not> strands ApplyRow" "\<not> strands HistoryRow" "\<not> strands PoisonRow"
  "strands (ForkRow p b) \<longleftrightarrow> b = Losing"
  by (auto simp: strands_def)

end
