(* ===== verification/Recovery_Cache.thy ===== *)
theory Recovery_Cache
  imports Hub_Protocol
begin

text \<open>
  The cache of \<^verbatim>\<open>packages/rpc/src/recovery-confirmation.ts\<close>, \<^verbatim>\<open>createRecoveryCache\<close>: values that expire, at
  most 1024 of them, each handed to \<^verbatim>\<open>release\<close> when it leaves. An operation returns the values it released,
  in order, and the cache it leaves; the clock is an argument.
\<close>

type_synonym 'v recovery_cache = "(string, 'v \<times> int) js_map"

definition CACHE_LIMIT :: nat where "CACHE_LIMIT = 1024"

definition cache_remove :: "string \<Rightarrow> 'v recovery_cache \<Rightarrow> 'v list \<times> 'v recovery_cache" where
  "cache_remove k c = (case map_of c k of
       None \<Rightarrow> ([], c)
     | Some (v, _) \<Rightarrow> ([v], AList.delete k c))"

definition cache_get :: "int \<Rightarrow> string \<Rightarrow> 'v recovery_cache \<Rightarrow> 'v option \<times> 'v list \<times> 'v recovery_cache" where
  "cache_get now k c = (case map_of c k of
       None \<Rightarrow> (None, [], c)
     | Some (v, expiresAt) \<Rightarrow>
         if expiresAt \<le> now then (None, cache_remove k c) else (Some v, [], c))"

text \<open>The loop that drops the oldest entry until the bound holds.\<close>

fun cache_trim :: "'v recovery_cache \<Rightarrow> 'v list \<times> 'v recovery_cache" where
  "cache_trim c =
     (if CACHE_LIMIT < length c then
        (case c of
           [] \<Rightarrow> ([], c)
         | (_, v, _) # rest \<Rightarrow> (case cache_trim rest of (released, kept) \<Rightarrow> (v # released, kept)))
      else ([], c))"

declare cache_trim.simps [simp del]

definition cache_set :: "int \<Rightarrow> string \<Rightarrow> 'v \<Rightarrow> int \<Rightarrow> 'v recovery_cache \<Rightarrow> 'v list \<times> 'v recovery_cache" where
  "cache_set now k v expiresAt c =
     (case cache_remove k c of (released, kept) \<Rightarrow>
        if expiresAt \<le> now then (released @ [v], kept)
        else (case cache_trim (kept @ [(k, v, expiresAt)]) of (dropped, kept) \<Rightarrow> (released @ dropped, kept)))"

text \<open>The timer of an entry fires.\<close>

definition cache_expire :: "int \<Rightarrow> string \<Rightarrow> 'v recovery_cache \<Rightarrow> 'v list \<times> 'v recovery_cache" where
  "cache_expire now k c = (case map_of c k of
       None \<Rightarrow> ([], c)
     | Some (_, expiresAt) \<Rightarrow> if expiresAt \<le> now then cache_remove k c else ([], c))"

definition cache_clear :: "'v recovery_cache \<Rightarrow> 'v list \<times> 'v recovery_cache" where
  "cache_clear c = (map (\<lambda>(_, v, _). v) c, [])"

section \<open>What the cache holds\<close>

definition cache_ok :: "'v recovery_cache \<Rightarrow> bool" where
  "cache_ok c \<longleftrightarrow> distinct (map fst c) \<and> length c \<le> CACHE_LIMIT"

text \<open>The values that left and those that stay, as a bag: nothing is released twice and nothing is lost.\<close>

definition cache_values :: "'v recovery_cache \<Rightarrow> 'v list" where
  "cache_values c = map (\<lambda>(_, v, _). v) c"

lemma cache_values_simps [simp]:
  "cache_values [] = []"
  "cache_values ((k, v, t) # c) = v # cache_values c"
  "cache_values (c @ d) = cache_values c @ cache_values d"
  by (simp_all add: cache_values_def)

lemma cache_trim_result:
  "length (snd (cache_trim c)) = min CACHE_LIMIT (length c)
   \<and> (\<exists>front. c = front @ snd (cache_trim c)) \<and> cache_values c = fst (cache_trim c) @ cache_values (snd (cache_trim c))"
proof (induction c rule: cache_trim.induct)
  case (1 c)
  show ?case
  proof (cases "CACHE_LIMIT < length c")
    case True
    then obtain k v t rest where c: "c = (k, v, t) # rest" by (cases c) auto
    have IH: "length (snd (cache_trim rest)) = min CACHE_LIMIT (length rest)"
      "\<exists>front. rest = front @ snd (cache_trim rest)"
      "cache_values rest = fst (cache_trim rest) @ cache_values (snd (cache_trim rest))"
      using "1.IH" [OF True c refl refl] by blast+
    have step: "cache_trim c = (v # fst (cache_trim rest), snd (cache_trim rest))"
      using True unfolding c by (subst cache_trim.simps) (simp add: case_prod_beta)
    obtain front where "rest = front @ snd (cache_trim rest)" using IH(2) by blast
    then have "c = ((k, v, t) # front) @ snd (cache_trim c)" unfolding step using c by simp
    moreover have "length (snd (cache_trim c)) = min CACHE_LIMIT (length c)"
      "cache_values c = fst (cache_trim c) @ cache_values (snd (cache_trim c))"
      using IH True unfolding step by (auto simp: c)
    ultimately show ?thesis by blast
  qed (simp add: cache_trim.simps [of c])
qed

lemma cache_remove_ok:
  assumes "cache_ok c" shows "cache_ok (snd (cache_remove k c)) \<and> k \<notin> fst ` set (snd (cache_remove k c))"
proof -
  have "length (AList.delete k c) \<le> length c" by (simp add: AList.delete_eq)
  moreover have "distinct (map fst (AList.delete k c))" "k \<notin> fst ` set (AList.delete k c)"
    using assms by (auto simp: cache_ok_def AList.delete_eq distinct_map_filter)
  moreover have "map_of c k = None \<Longrightarrow> k \<notin> fst ` set c" by (simp add: map_of_eq_None_iff)
  ultimately show ?thesis using assms by (auto simp: cache_ok_def cache_remove_def split: option.splits)
qed

lemma cache_set_ok:
  assumes "cache_ok c" shows "cache_ok (snd (cache_set now k v t c))"
proof -
  let ?kept = "snd (cache_remove k c)"
  have kept: "cache_ok ?kept" "k \<notin> fst ` set ?kept" using cache_remove_ok [OF assms] by auto
  let ?all = "?kept @ [(k, v, t)]"
  have "distinct (map fst ?all)" using kept by (auto simp: cache_ok_def)
  moreover obtain front where "?all = front @ snd (cache_trim ?all)" using cache_trim_result [of ?all] by blast
  ultimately have "distinct (map fst (snd (cache_trim ?all)))"
    by (metis distinct_append map_append)
  moreover have "length (snd (cache_trim ?all)) \<le> CACHE_LIMIT" using cache_trim_result [of ?all] by simp
  ultimately have "cache_ok (snd (cache_trim ?all))" by (simp add: cache_ok_def)
  with kept show ?thesis by (simp add: cache_set_def case_prod_beta)
qed

lemma cache_get_live:
  "fst (cache_get now k c) = Some v \<Longrightarrow> \<exists>t. map_of c k = Some (v, t) \<and> now < t"
  by (auto simp: cache_get_def split: option.splits if_splits)

end
