(* ===== verification/Peer_State.thy ===== *)
theory Peer_State
  imports Hub_Protocol Actions Commit_Classify Recovery_Cache
begin

text \<open>
  The state of a group peer's commit lane and the actions over it, \<^verbatim>\<open>packages/rpc/src/peer.ts\<close>, with the
  types of \<^verbatim>\<open>anchor.ts\<close>, \<^verbatim>\<open>commit.ts\<close>, \<^verbatim>\<open>app-outbox.ts\<close> and \<^verbatim>\<open>peer-types.ts\<close> it uses. A peer is a record of
  the variables of the closure, the host's MLS handle, the host's durable slots, and the outside world (the
  hub, the clock and the health of the host's storage). What the lane calls, the MLS port, the hub and the
  host, is the record \<open>peer_env\<close>: a call of the port acts on the handle, every other call on the world.
  An action returns a value or an error, with the state it left behind.
\<close>

named_theorems lane_simps \<open>what an action of the lane returns and leaves behind\<close>

section \<open>The data of the lane\<close>

record RosterEntry =
  ro_did :: did
  ro_admission :: "string option"

record Anchor =
  an_secret :: bytes
  an_epoch :: nat

record PendingAnchorRotation =
  ar_epochBefore :: nat
  ar_epochAfter :: nat
  ar_rosterBefore :: "did list"
  ar_admissionsBefore :: "string list option"
  ar_forced :: bool
  ar_advance :: string

record AnchorSlot =
  as_anchor :: Anchor
  as_pending :: "PendingAnchorRotation option"

record CommitCursor =
  cc_position :: "sequence_id option"
  cc_epoch :: nat
  cc_stranded :: bool

record EpochFloor =
  ef_epoch :: nat
  ef_position :: "sequence_id option"
  ef_covered :: bool

datatype CommitKind = LedgerCommit | InviteCommit | RemoveCommit

record PendingCommit =
  pc_commit :: bytes
  pc_bodies :: "string list"
  pc_kind :: CommitKind
  pc_journal :: bytes

record JournalEntry =
  je_publishID :: string
  je_expectedHead :: "sequence_id option"
  je_epoch :: nat
  je_holdsLogSends :: bool
  je_acceptedAs :: "sequence_id option"
  je_commit :: bytes
  je_bodies :: "string list"
  je_kind :: CommitKind
  je_journal :: bytes

datatype LostCommit = LostLedger "string list" bytes | LostOther CommitKind bytes

datatype StrandKind = OwnUnmergedStrand | ForkLosingStrand | AheadStrand | UnknownVersionStrand | RetentionGapStrand
datatype StrandConfidence = Claimed | Observed | Authenticated

record StrandObservation =
  so_position :: sequence_id
  so_commitDigest :: "string option"
  so_localEpoch :: nat
  so_claimedEpoch :: "nat option"
  so_kind :: StrandKind
  so_confidence :: StrandConfidence

definition CONFIDENCE_RANK :: "StrandConfidence \<Rightarrow> nat" where
  "CONFIDENCE_RANK c = (case c of Claimed \<Rightarrow> 0 | Observed \<Rightarrow> 1 | Authenticated \<Rightarrow> 2)"

datatype RecoveryRefusalReason = BindingRefusal | LapseRefusal | FloorRefusal | PolicyRefusal | InvalidRefusal

record ProcessCommitResult =
  po_advanced :: bool
  po_epochBefore :: nat
  po_epochAfter :: nat
  po_refusal :: "RecoveryRefusalReason option"

text \<open>An error named \<^verbatim>\<open>MissingLedgerEntriesError\<close> is told from every other throw of the port.\<close>

datatype process_answer = Processed ProcessCommitResult | MissingLedgerEntries | PortThrew

datatype RecoveryCommitOutcome =
    AppliedOutcome string nat bytes
  | SupersededOutcome string
  | RefusedOutcome string RecoveryRefusalReason

text \<open>A write of the host is done, or rejects before or after it became durable.\<close>

datatype host_outcome = Done | Rejected | RejectedLate

datatype lane_error =
    HostError
  | PortError
  | MissingLedgerEntriesError
  | HubThrew js_error
  | NonIncreasingPage
  | RecoveryRequiredError
  | JournalEpochError nat nat
  | CommitDeadlineError
  | JournalNotReplayed
  | FramedElsewhere
  | FrameError frame_error
  | OutOfFuel

text \<open>What the lane tells the rest of the peer, in order.\<close>

datatype lane_signal =
    RetainTopics Anchor
  | AppLaneReset
  | MemberRemoved
  | MemberRejoined nat
  | Certify nat nat
  | StrandNotice StrandObservation
  | TeardownEpoch
  | BuildEpoch
  | SettleSubmissions
  | TriggerDelivery
  | RequestAppPull
  | Adopted bytes

section \<open>The environment and the peer\<close>

record ('h, 'w) peer_env =
  ge_normalizeDID :: "did \<Rightarrow> did"
  ge_localDID :: did
  ge_digest :: "bytes \<Rightarrow> string"
  ge_epoch :: "'h \<Rightarrow> nat"
  ge_roster :: "'h \<Rightarrow> RosterEntry list"
  ge_secret :: "'h \<Rightarrow> bytes"
  ge_header :: "'h \<Rightarrow> bytes \<Rightarrow> CommitHeader option"
  ge_process :: "bytes \<Rightarrow> did \<Rightarrow> string list \<Rightarrow> 'h \<Rightarrow> process_answer \<times> 'h"
  ge_openEntries :: "'h \<Rightarrow> bytes \<Rightarrow> bytes option"
  ge_sealEntries :: "'h \<Rightarrow> bytes \<Rightarrow> bytes"
  ge_frameEpoch :: "'h \<Rightarrow> bytes \<Rightarrow> nat option"
  ge_confirmationKey :: "'h \<Rightarrow> sequence_id \<Rightarrow> string \<Rightarrow> (nat \<times> bytes) option"
  ge_build :: "'h \<Rightarrow> 'w \<Rightarrow> PendingCommit option \<times> 'w"
  ge_onAccepted :: "PendingCommit \<Rightarrow> 'h \<Rightarrow> bool \<times> 'h"
  ge_adoptJournalled :: "bytes \<Rightarrow> 'h \<Rightarrow> bool \<times> 'h"
  ge_ledgerComplete :: "'h \<Rightarrow> bool"
  ge_ledger :: "'h \<Rightarrow> string list"
  ge_gather :: "'h \<Rightarrow> 'w \<Rightarrow> (bool \<times> 'h) \<times> 'w"
  ge_write :: "'w \<Rightarrow> host_outcome \<times> 'w"
  ge_deliver :: "'w \<Rightarrow> bool \<times> 'w"
  ge_teardownEpoch :: "'w \<Rightarrow> bool \<times> 'w"
  ge_buildEpoch :: "'w \<Rightarrow> bool \<times> 'w"
  ge_fetch :: "sequence_id option \<Rightarrow> nat \<Rightarrow> 'w \<Rightarrow> (js_error + FetchTopicResult) \<times> 'w"
  ge_publish :: "bytes \<Rightarrow> sequence_id option \<Rightarrow> string \<Rightarrow> 'w \<Rightarrow> (js_error + sequence_id) \<times> 'w"
  ge_publishID :: "'w \<Rightarrow> string \<times> 'w"
  ge_now :: "'w \<Rightarrow> int"
  ge_recoveryDeadlineMs :: int
  ge_commitDeadlineMs :: int
  ge_hasInboxLane :: "'w \<Rightarrow> bool"

record ('h, 'w) peer =
  gp_handle :: 'h
  gp_world :: 'w
  gp_anchor :: Anchor
  gp_anchorPending :: "PendingAnchorRotation option"
  gp_anchorRecoveryPending :: bool
  gp_capturedAdvance :: "string option"
  gp_sealBarrier :: bool
  gp_sealError :: bool
  gp_reconciledHead :: "sequence_id option"
  gp_commitLogHead :: "sequence_id option"
  gp_durableCursor :: "CommitCursor option"
  gp_appliedByEpoch :: "nat \<rightharpoonup> AppliedCommit"
  gp_healRequested :: bool
  gp_bootstrapHealRequested :: bool
  gp_stranded :: bool
  gp_episode :: "StrandConfidence option"
  gp_floor :: EpochFloor
  gp_locallyRemoved :: bool
  gp_commitOutcomes :: "RecoveryCommitOutcome recovery_cache"
  gp_pendingRecovery :: "(sequence_id \<times> string) option"
  gp_journalReplayed :: bool
  gp_lostCommit :: "LostCommit option"
  gp_heldJournalID :: "string option"
  gp_revokeHolds :: nat
  gp_inFlightEntries :: "string list option"
  gp_awaitingBootstrap :: "string list option"
  gp_rejoinRuntimeNeedsBuild :: bool
  gp_pendingReenact :: "string list"
  gp_recoveryGeneration :: nat
  gp_signals :: "lane_signal list"
  gp_storedAnchor :: "AnchorSlot option"
  gp_storedCursor :: "CommitCursor option"
  gp_slot :: "JournalEntry option"

section \<open>Actions\<close>

type_synonym ('h, 'w, 'a) lane = "(('h, 'w) peer, lane_error, 'a) act"

definition signal :: "lane_signal \<Rightarrow> ('h, 'w, unit) lane" where
  "signal s = change (\<lambda>st. st \<lparr> gp_signals := gp_signals st @ [s] \<rparr>)"

text \<open>A durable write of the host: \<open>store\<close> is what it does to the host's slots.\<close>

definition host_write ::
  "('h, 'w) peer_env \<Rightarrow> (('h, 'w) peer \<Rightarrow> ('h, 'w) peer) \<Rightarrow> ('h, 'w, unit) lane" where
  "host_write E store st = (case ge_write E (gp_world st) of
       (Done, w) \<Rightarrow> (Inr (), store (st \<lparr> gp_world := w \<rparr>))
     | (Rejected, w) \<Rightarrow> (Inl HostError, st \<lparr> gp_world := w \<rparr>)
     | (RejectedLate, w) \<Rightarrow> (Inl HostError, store (st \<lparr> gp_world := w \<rparr>)))"

text \<open>A call of the app lane or of the epoch runtime, which may throw.\<close>

definition app_call :: "('w \<Rightarrow> bool \<times> 'w) \<Rightarrow> ('h, 'w, unit) lane" where
  "app_call call st = (case call (gp_world st) of
       (ok, w) \<Rightarrow> (if ok then Inr () else Inl HostError, st \<lparr> gp_world := w \<rparr>))"

definition deliver_app :: "('h, 'w) peer_env \<Rightarrow> ('h, 'w, unit) lane" where
  "deliver_app E = app_call (ge_deliver E)"

section \<open>What an action of the lane guarantees\<close>

lemma ends_signal [simp]: "ends (signal s) Q R st \<longleftrightarrow> Q () (st \<lparr> gp_signals := gp_signals st @ [s] \<rparr>)"
  by (simp add: signal_def)

lemma ends_host_write [simp]:
  "ends (host_write E store) Q R st \<longleftrightarrow> (case ge_write E (gp_world st) of
       (Done, w) \<Rightarrow> Q () (store (st \<lparr> gp_world := w \<rparr>))
     | (Rejected, w) \<Rightarrow> R HostError (st \<lparr> gp_world := w \<rparr>)
     | (RejectedLate, w) \<Rightarrow> R HostError (store (st \<lparr> gp_world := w \<rparr>)))"
  by (simp add: ends_def host_write_def split: prod.splits host_outcome.splits)

lemma ends_app_call [simp]:
  "ends (app_call call) Q R st \<longleftrightarrow> (case call (gp_world st) of
       (ok, w) \<Rightarrow> if ok then Q () (st \<lparr> gp_world := w \<rparr>) else R HostError (st \<lparr> gp_world := w \<rparr>))"
  by (simp add: ends_def app_call_def split: prod.splits)

lemma ends_deliver_app [simp]:
  "ends (deliver_app E) Q R st \<longleftrightarrow> (case ge_deliver E (gp_world st) of
       (ok, w) \<Rightarrow> if ok then Q () (st \<lparr> gp_world := w \<rparr>) else R HostError (st \<lparr> gp_world := w \<rparr>))"
  by (simp add: deliver_app_def)

end
