(* ===== verification/Anchor_Seam.thy ===== *)
theory Anchor_Seam
  imports Peer_State
begin

text \<open>
  The one door through which the MLS handle advances, \<^verbatim>\<open>advanceHandle\<close> of \<^verbatim>\<open>packages/rpc/src/peer.ts\<close>: it
  records the advance durably, runs it, and moves the anchor of the app lane when the roster changed
  (\<^verbatim>\<open>roster.ts\<close>). A crash or a failed write in between leaves a record that the next call resolves.
\<close>

section \<open>What changes a roster\<close>

definition detectRosterChange :: "did list \<Rightarrow> did list \<Rightarrow> bool" where
  "detectRosterChange before after =
     (let held = remdups before; present = remdups after
      in if length held \<noteq> length present then True
         else \<not> list_all (\<lambda>d. d \<in> set present) held)"

definition detectLeafAdmission :: "string list \<Rightarrow> string list \<Rightarrow> bool" where
  "detectLeafAdmission before after = list_ex (\<lambda>a. a \<notin> set before) after"

definition admissionsOf :: "RosterEntry list \<Rightarrow> string list" where
  "admissionsOf entries = List.map_filter ro_admission entries"

lemma detectRosterChange_iff: "detectRosterChange before after \<longleftrightarrow> set before \<noteq> set after"
proof
  assume "detectRosterChange before after"
  then show "set before \<noteq> set after"
    by (auto simp: detectRosterChange_def list_all_iff length_remdups_card_conv split: if_splits)
next
  assume "set before \<noteq> set after"
  moreover have "set before \<subseteq> set after \<Longrightarrow> card (set before) = card (set after) \<Longrightarrow> set before = set after"
    by (rule card_subset_eq) simp_all
  ultimately show "detectRosterChange before after"
    by (auto simp: detectRosterChange_def list_all_iff length_remdups_card_conv)
qed

section \<open>The commit cursor and the strand\<close>

text \<open>
  \<^verbatim>\<open>durableCursor\<close> follows a write that resolved; the host's slot also holds what a write stored before it
  rejected.
\<close>

definition put_cursor :: "('h, 'w) peer_env \<Rightarrow> CommitCursor \<Rightarrow> ('h, 'w, unit) lane" where
  "put_cursor E cursor =
     and_then (host_write E (\<lambda>st. st \<lparr> gp_storedCursor := Some cursor \<rparr>)) (\<lambda>_.
       change (\<lambda>st. st \<lparr> gp_durableCursor := Some cursor \<rparr>))"

definition persistStrand :: "('h, 'w) peer_env \<Rightarrow> ('h, 'w, unit) lane" where
  "persistStrand E = reading (\<lambda>st.
     let epoch = ge_epoch E (gp_handle st) in
     if (case gp_durableCursor st of None \<Rightarrow> False | Some c \<Rightarrow> cc_stranded c \<and> cc_epoch c = epoch) then give ()
     else put_cursor E \<lparr> cc_position = (case gp_durableCursor st of None \<Rightarrow> None
                           | Some c \<Rightarrow> if cc_epoch c = epoch then cc_position c else None),
                         cc_epoch = epoch, cc_stranded = True \<rparr>)"

definition saveCommitCursor :: "('h, 'w) peer_env \<Rightarrow> sequence_id \<Rightarrow> ('h, 'w, unit) lane" where
  "saveCommitCursor E position =
     and_then (reading (\<lambda>st. if gp_stranded st then persistStrand E
       else put_cursor E \<lparr> cc_position = Some position, cc_epoch = ge_epoch E (gp_handle st), cc_stranded = False \<rparr>)) (\<lambda>_.
     change (\<lambda>st. st \<lparr> gp_reconciledHead := Some position \<rparr>))"

section \<open>Moving or keeping the anchor\<close>

definition finishSealBarrier :: "('h, 'w, unit) lane" where
  "finishSealBarrier = change (\<lambda>st. st \<lparr> gp_sealBarrier := False \<rparr>)"

definition save_anchor :: "('h, 'w) peer_env \<Rightarrow> PendingAnchorRotation option \<Rightarrow> ('h, 'w, unit) lane" where
  "save_anchor E pending = reading (\<lambda>st.
     host_write E (\<lambda>s. s \<lparr> gp_storedAnchor := Some \<lparr> as_anchor = gp_anchor st, as_pending = pending \<rparr> \<rparr>))"

text \<open>The anchor is marked as taken before the write that may fail, so a retry does not take it twice.\<close>

definition captureAnchor :: "('h, 'w) peer_env \<Rightarrow> string option \<Rightarrow> ('h, 'w, unit) lane" where
  "captureAnchor E advance = reading (\<lambda>st.
     let anchor = \<lparr> an_secret = ge_secret E (gp_handle st), an_epoch = ge_epoch E (gp_handle st) \<rparr> in
     and_then (signal (RetainTopics anchor)) (\<lambda>_.
     and_then (change (\<lambda>s. s \<lparr> gp_anchor := anchor,
         gp_capturedAdvance := (case advance of None \<Rightarrow> gp_capturedAdvance s | Some a \<Rightarrow> Some a),
         gp_anchorPending := None, gp_sealError := False \<rparr>)) (\<lambda>_.
     and_then finishSealBarrier (\<lambda>_.
     and_then (save_anchor E None) (\<lambda>_.
       signal AppLaneReset)))))"

definition keepAnchor :: "('h, 'w) peer_env \<Rightarrow> ('h, 'w, unit) lane" where
  "keepAnchor E =
     and_then (change (\<lambda>s. s \<lparr> gp_anchorPending := None, gp_sealError := False \<rparr>)) (\<lambda>_.
     and_then finishSealBarrier (\<lambda>_.
       save_anchor E None))"

definition requireAnchorRecovery :: "('h, 'w, unit) lane" where
  "requireAnchorRecovery = change (\<lambda>s. s \<lparr> gp_anchorRecoveryPending := True, gp_healRequested := True, gp_sealError := True \<rparr>)"

definition roster_of :: "('h, 'w) peer_env \<Rightarrow> 'h \<Rightarrow> did list" where
  "roster_of E h = map (\<lambda>e. ge_normalizeDID E (ro_did e)) (ge_roster E h)"

text \<open>The question a record asks of the roster it finds.\<close>

definition rotates :: "('h, 'w) peer_env \<Rightarrow> PendingAnchorRotation \<Rightarrow> 'h \<Rightarrow> bool" where
  "rotates E record h \<longleftrightarrow> ar_forced record
     \<or> (case ar_admissionsBefore record of None \<Rightarrow> False
        | Some before \<Rightarrow> detectLeafAdmission before (admissionsOf (ge_roster E h)))
     \<or> detectRosterChange (ar_rosterBefore record) (roster_of E h)"

definition resolveAnchorRotation ::
  "('h, 'w) peer_env \<Rightarrow> bool \<Rightarrow> bool \<Rightarrow> bool \<Rightarrow> ('h, 'w, unit) lane" where
  "resolveAnchorRotation E knownUnlanded initial landed = reading (\<lambda>st.
     case gp_anchorPending st of
       None \<Rightarrow> give ()
     | Some record \<Rightarrow>
         (let epoch = ge_epoch E (gp_handle st);
              sameNumber = (ar_epochAfter record = ar_epochBefore record);
              landedHere = (sameNumber \<and> landed \<and> Some (ar_advance record) \<noteq> gp_capturedAdvance st)
          in if epoch = ar_epochBefore record \<and> \<not> landedHere then
               (if \<not> knownUnlanded \<and> \<not> initial then give ()
                else if sameNumber \<and> \<not> knownUnlanded then requireAnchorRecovery
                else keepAnchor E)
             else if epoch \<noteq> ar_epochAfter record then requireAnchorRecovery
             else if rotates E record (gp_handle st) then captureAnchor E (Some (ar_advance record))
             else keepAnchor E))"

section \<open>Advancing the handle\<close>

record AdvanceIdentity =
  ai_epochAfter :: nat
  ai_forced :: bool
  ai_advance :: string
  ai_recovery :: bool

text \<open>What the advance did to the peer's own membership and to the floor, read off the handle.\<close>

definition observe ::
  "('h, 'w) peer_env \<Rightarrow> PendingAnchorRotation \<Rightarrow> AdvanceIdentity \<Rightarrow> sequence_id option \<Rightarrow> ('h, 'w, unit) lane" where
  "observe E record identity floorPosition = reading (\<lambda>st.
     let epoch = ge_epoch E (gp_handle st); roster = roster_of E (gp_handle st) in
     and_then (if ge_localDID E \<in> set (ar_rosterBefore record) \<and> ge_localDID E \<notin> set roster
               then and_then (change (\<lambda>s. s \<lparr> gp_locallyRemoved := True \<rparr>)) (\<lambda>_. signal MemberRemoved)
               else give ()) (\<lambda>_.
     if epoch = ai_epochAfter identity \<and> epoch \<noteq> ar_epochBefore record \<and> floorPosition \<noteq> None
     then change (\<lambda>s. s \<lparr> gp_floor := \<lparr> ef_epoch = epoch, ef_position = floorPosition, ef_covered = True \<rparr> \<rparr>)
     else give ()))"

text \<open>
  The record of an advance: a retry of the same advance keeps the record it finds, because the live
  tree may already be past what it describes.
\<close>

definition advance_record ::
  "('h, 'w) peer_env \<Rightarrow> AdvanceIdentity \<Rightarrow> ('h, 'w) peer \<Rightarrow> PendingAnchorRotation" where
  "advance_record E identity st =
     (let fresh = \<lparr> ar_epochBefore = ge_epoch E (gp_handle st), ar_epochAfter = ai_epochAfter identity,
            ar_rosterBefore = roster_of E (gp_handle st),
            ar_admissionsBefore = Some (admissionsOf (ge_roster E (gp_handle st))),
            ar_forced = ai_forced identity, ar_advance = ai_advance identity \<rparr>
      in case gp_anchorPending st of
           None \<Rightarrow> fresh
         | Some pending \<Rightarrow> if ar_advance pending = ai_advance identity then pending else fresh)"

definition advance_finally :: "('h, 'w, unit) lane" where
  "advance_finally = reading (\<lambda>st.
     if gp_anchorPending st = None \<and> \<not> gp_anchorRecoveryPending st then finishSealBarrier else give ())"

text \<open>What follows the ratchet when it returned, and what follows when anything in the block threw.\<close>

definition advance_settle ::
  "('h, 'w) peer_env \<Rightarrow> AdvanceIdentity \<Rightarrow> sequence_id option \<Rightarrow> bool \<Rightarrow> PendingAnchorRotation \<Rightarrow> ('h, 'w, unit) lane" where
  "advance_settle E identity floorPosition confirmedRecovery record =
     and_then (case floorPosition of None \<Rightarrow> give () | Some q \<Rightarrow> saveCommitCursor E q) (\<lambda>_.
     and_then (observe E record identity floorPosition) (\<lambda>_.
     and_then (resolveAnchorRotation E True False True) (\<lambda>_.
     reading (\<lambda>st. if confirmedRecovery \<and> gp_anchorPending st = None
       then change (\<lambda>s. s \<lparr> gp_anchorRecoveryPending := False \<rparr>) else give ()))))"

definition advance_failed ::
  "('h, 'w) peer_env \<Rightarrow> AdvanceIdentity \<Rightarrow> sequence_id option \<Rightarrow> PendingAnchorRotation \<Rightarrow> ('h, 'w, unit) lane" where
  "advance_failed E identity floorPosition record =
     and_then (catching
       (and_then (observe E record identity floorPosition) (\<lambda>_. resolveAnchorRotation E False False False))
       (\<lambda>_. give ())) (\<lambda>_.
     change (\<lambda>s. if gp_anchorPending s \<noteq> None then s \<lparr> gp_sealError := True \<rparr> else s))"

definition advance_run ::
  "('h, 'w) peer_env \<Rightarrow> ('h, 'w, 'a) lane \<Rightarrow> AdvanceIdentity \<Rightarrow> sequence_id option \<Rightarrow> bool
     \<Rightarrow> PendingAnchorRotation \<Rightarrow> ('h, 'w, 'a) lane" where
  "advance_run E ratchet identity floorPosition confirmedRecovery record =
     catching
       (and_then ratchet (\<lambda>advanced.
        and_then (advance_settle E identity floorPosition confirmedRecovery record) (\<lambda>_.
        and_then advance_finally (\<lambda>_.
          give advanced))))
       (\<lambda>e.
        and_then (advance_failed E identity floorPosition record) (\<lambda>_.
        and_then advance_finally (\<lambda>_.
          fail e)))"

definition advanceHandle ::
  "('h, 'w) peer_env \<Rightarrow> ('h, 'w, 'a) lane \<Rightarrow> AdvanceIdentity \<Rightarrow> sequence_id option \<Rightarrow> ('h, 'w, 'a) lane" where
  "advanceHandle E ratchet identity floorPosition =
     and_then (resolveAnchorRotation E False False False) (\<lambda>_. reading (\<lambda>st.
     let retry = (case gp_anchorPending st of None \<Rightarrow> False | Some p \<Rightarrow> ar_advance p = ai_advance identity);
         confirmedRecovery = (ai_recovery identity \<and> gp_anchorRecoveryPending st)
     in if (gp_anchorRecoveryPending st \<and> \<not> confirmedRecovery)
           \<or> (gp_anchorPending st \<noteq> None \<and> \<not> retry \<and> \<not> confirmedRecovery)
        then fail RecoveryRequiredError
        else and_then (if confirmedRecovery then give () else deliver_app E) (\<lambda>_. reading (\<lambda>st.
          let record = advance_record E identity st in
          and_then (save_anchor E (Some record)) (\<lambda>_.
          and_then (change (\<lambda>s. s \<lparr> gp_anchorPending := Some record, gp_sealBarrier := True \<rparr>)) (\<lambda>_.
            advance_run E ratchet identity floorPosition confirmedRecovery record))))))"

end
