(* ===== verification/Commit_Walk.thy ===== *)
theory Commit_Walk
  imports Anchor_Seam
begin

text \<open>
  The walk of the commit log, \<^verbatim>\<open>walkCommits\<close> and \<^verbatim>\<open>pullCommits\<close> of \<^verbatim>\<open>packages/rpc/src/peer.ts\<close>: pages are
  fetched from the cursor, every frame is classified before it is opened, and the cursor advances over each
  frame the peer is done with. Two loops of the code have no bound of their own, the one over pages and
  the one that classifies a frame again when the port reports another epoch: they take fuel.
\<close>

definition COMMIT_FETCH_LIMIT :: nat where "COMMIT_FETCH_LIMIT = 100"

text \<open>What the walk does after a frame: go on, or stop the drain.\<close>

datatype walk_next = NextFrame | StopDrain

section \<open>Notices and outcomes\<close>

definition observeStrand :: "StrandObservation \<Rightarrow> ('h, 'w, unit) lane" where
  "observeStrand observation =
     and_then (change (\<lambda>s. s \<lparr> gp_bootstrapHealRequested := False \<rparr>)) (\<lambda>_. reading (\<lambda>st.
     if (case gp_episode st of None \<Rightarrow> False
         | Some strongest \<Rightarrow> CONFIDENCE_RANK (so_confidence observation) \<le> CONFIDENCE_RANK strongest)
     then give ()
     else and_then (change (\<lambda>s. s \<lparr> gp_episode := Some (so_confidence observation) \<rparr>)) (\<lambda>_.
       signal (StrandNotice observation))))"

definition recordCommitOutcome :: "('h, 'w) peer_env \<Rightarrow> sequence_id \<Rightarrow> RecoveryCommitOutcome \<Rightarrow> ('h, 'w, unit) lane" where
  "recordCommitOutcome E position outcome = change (\<lambda>s.
     let now = ge_now E (gp_world s) in
     case cache_get now position (gp_commitOutcomes s) of
       (Some _, _, held) \<Rightarrow> s \<lparr> gp_commitOutcomes := held \<rparr>
     | (None, _, held) \<Rightarrow> s \<lparr> gp_commitOutcomes :=
           snd (cache_set now position outcome (now + ge_recoveryDeadlineMs E) held) \<rparr>)"

definition strand_peer :: "('h, 'w, unit) lane" where
  "strand_peer = change (\<lambda>s. s \<lparr> gp_stranded := True \<rparr>)"

definition request_heal :: "('h, 'w, unit) lane" where
  "request_heal = change (\<lambda>s. s \<lparr> gp_healRequested := True \<rparr>)"

section \<open>One frame\<close>

definition classifier_state :: "('h, 'w) peer_env \<Rightarrow> nat \<Rightarrow> ('h, 'w) peer \<Rightarrow> CommitClassifierState" where
  "classifier_state E localEpoch st =
     \<lparr> cs_localDID = ge_localDID E, cs_epoch = localEpoch, cs_appliedByEpoch = gp_appliedByEpoch st \<rparr>"

text \<open>A frame in a wire version this build does not have goes to the classifier without a header.\<close>

definition unreadable_frame :: "('h, 'w) peer_env \<Rightarrow> sequence_id \<Rightarrow> ('h, 'w, unit) lane" where
  "unreadable_frame E position = reading (\<lambda>st.
     let localEpoch = ge_epoch E (gp_handle st);
         row = classifyCommit UNKNOWN_FRAME_VERSION position None (classifier_state E localEpoch st)
     in and_then (if row = AheadRow then strand_peer else give ()) (\<lambda>_.
        and_then (saveCommitCursor E position) (\<lambda>_.
        if row = AheadRow then
          and_then request_heal (\<lambda>_. observeStrand
            \<lparr> so_position = position, so_commitDigest = None, so_localEpoch = localEpoch,
              so_claimedEpoch = None, so_kind = UnknownVersionStrand, so_confidence = Claimed \<rparr>)
        else give ())))"

text \<open>The header of a commit, with the committer in the form the peer's own DID has.\<close>

definition read_header :: "('h, 'w) peer_env \<Rightarrow> 'h \<Rightarrow> bytes \<Rightarrow> CommitHeader option" where
  "read_header E h commit = map_option
     (\<lambda>header. header \<lparr> ch_committerDID := map_option (ge_normalizeDID E) (ch_committerDID header) \<rparr>)
     (ge_header E h commit)"

definition evidence :: "CommitHeader option \<Rightarrow> CommitFrameEvidence" where
  "evidence header = (case header of None \<Rightarrow> NotACommit | Some h \<Rightarrow> Header h)"

definition is_external :: "CommitHeader option \<Rightarrow> bool" where
  "is_external header = (case header of None \<Rightarrow> False | Some h \<Rightarrow> ch_external h)"

definition strand_observation ::
  "sequence_id \<Rightarrow> string \<Rightarrow> nat \<Rightarrow> CommitHeader option \<Rightarrow> StrandKind \<Rightarrow> StrandConfidence \<Rightarrow> StrandObservation" where
  "strand_observation position digest localEpoch header kind confidence =
     \<lparr> so_position = position, so_commitDigest = Some digest, so_localEpoch = localEpoch,
       so_claimedEpoch = map_option ch_epoch header, so_kind = kind, so_confidence = confidence \<rparr>"

text \<open>The call of the port inside the advance, and what it leaves for a rejoining member to ask about.\<close>

definition process_ratchet ::
  "('h, 'w) peer_env \<Rightarrow> CommitHeader option \<Rightarrow> sequence_id \<Rightarrow> string \<Rightarrow> did \<Rightarrow> CommitFrame
     \<Rightarrow> ('h, 'w, ProcessCommitResult) lane" where
  "process_ratchet E header position digest sender frame = reading (\<lambda>st.
     let resolved = resolveLedgerEntries (ge_openEntries E (gp_handle st)) (cf_sealedEntries frame) [] in
     case ge_process E (cf_commit frame) sender resolved (gp_handle st) of (answer, h) \<Rightarrow>
     and_then (change (\<lambda>s. s \<lparr> gp_handle := h \<rparr>)) (\<lambda>_.
     case answer of
       MissingLedgerEntries \<Rightarrow> fail MissingLedgerEntriesError
     | PortThrew \<Rightarrow> fail PortError
     | Processed result \<Rightarrow>
         and_then (if is_external header \<and> po_advanced result \<and> \<not> gp_stranded st
           then (case ge_confirmationKey E h position digest of
               None \<Rightarrow> fail PortError
             | Some (epoch, key) \<Rightarrow> recordCommitOutcome E position (AppliedOutcome digest epoch key))
           else give ()) (\<lambda>_.
         give result)))"

definition apply_identity :: "CommitHeader option \<Rightarrow> nat \<Rightarrow> string \<Rightarrow> AdvanceIdentity" where
  "apply_identity header framedEpoch digest =
     \<lparr> ai_epochAfter = (case header of None \<Rightarrow> framedEpoch | Some h \<Rightarrow> ch_epoch h) + 1,
       ai_forced = is_external header, ai_advance = digest, ai_recovery = False \<rparr>"

text \<open>
  The row a frame is applied by. \<open>None\<close>: the bodies of the commit do not resolve, and the frame has been
  stepped over.
\<close>

definition apply_commit ::
  "('h, 'w) peer_env \<Rightarrow> CommitHeader option \<Rightarrow> sequence_id \<Rightarrow> string \<Rightarrow> did \<Rightarrow> CommitFrame \<Rightarrow> nat
     \<Rightarrow> ('h, 'w, ProcessCommitResult option) lane" where
  "apply_commit E header position digest sender frame framedEpoch =
     catching
       (and_then (advanceHandle E (process_ratchet E header position digest sender frame)
                    (apply_identity header framedEpoch digest) (Some position)) (\<lambda>result.
          give (Some result)))
       (\<lambda>e. if e \<noteq> MissingLedgerEntriesError then fail e
         else reading (\<lambda>st.
           if ge_epoch E (gp_handle st) \<noteq> framedEpoch
           then and_then (resolveAnchorRotation E False False False) (\<lambda>_. fail e)
           else and_then (resolveAnchorRotation E True False False) (\<lambda>_.
                and_then (saveCommitCursor E position) (\<lambda>_. give None))))"

text \<open>What follows an answer of the port: the record for the fork check, and the cursor.\<close>

definition after_apply ::
  "('h, 'w) peer_env \<Rightarrow> CommitHeader option \<Rightarrow> sequence_id \<Rightarrow> string \<Rightarrow> nat \<Rightarrow> nat \<Rightarrow> ProcessCommitResult
     \<Rightarrow> ('h, 'w, unit) lane" where
  "after_apply E header position digest framedEpoch anchorEpochBefore result = reading (\<lambda>st.
     and_then (if po_advanced result then
         and_then (change (\<lambda>s. s \<lparr> gp_appliedByEpoch :=
             (gp_appliedByEpoch s)(framedEpoch \<mapsto> \<lparr> ac_sequenceID = position, ac_digest = digest \<rparr>) \<rparr>)) (\<lambda>_.
         if is_external header then signal (MemberRejoined anchorEpochBefore) else give ())
       else give ()) (\<lambda>_.
     and_then (if is_external header \<and> \<not> po_advanced result \<and> \<not> gp_stranded st
       then recordCommitOutcome E position
              (RefusedOutcome digest (or_else (po_refusal result) InvalidRefusal))
       else give ()) (\<lambda>_.
     saveCommitCursor E position)))"

text \<open>The loop that classifies and handles one commit; the flag says whether the walk advanced the epoch.\<close>

primrec handle_commit ::
  "nat \<Rightarrow> ('h, 'w) peer_env \<Rightarrow> nat \<Rightarrow> bool \<Rightarrow> sequence_id \<Rightarrow> did \<Rightarrow> CommitFrame \<Rightarrow> ('h, 'w, walk_next \<times> bool) lane" where
  "handle_commit 0 E localEpoch advanced position sender frame = fail OutOfFuel"
| "handle_commit (Suc n) E localEpoch advanced position sender frame = reading (\<lambda>st.
     let header = read_header E (gp_handle st) (cf_commit frame);
         digest = digestAppliedCommit (ge_digest E) (cf_commit frame);
         observation = strand_observation position digest localEpoch header
     in case classifyCommit (evidence header) position (Some digest) (classifier_state E localEpoch st) of
          OwnUnmergedRow \<Rightarrow>
            and_then request_heal (\<lambda>_. and_then strand_peer (\<lambda>_. and_then (persistStrand E) (\<lambda>_.
            and_then (observeStrand (observation OwnUnmergedStrand Authenticated)) (\<lambda>_.
              give (StopDrain, advanced)))))
        | AheadRow \<Rightarrow>
            and_then strand_peer (\<lambda>_. and_then (saveCommitCursor E position) (\<lambda>_. and_then request_heal (\<lambda>_.
            and_then (observeStrand (observation AheadStrand Claimed)) (\<lambda>_.
              give (NextFrame, advanced)))))
        | HistoryRow \<Rightarrow> and_then (saveCommitCursor E position) (\<lambda>_. give (NextFrame, advanced))
        | ForkRow appliedSequenceID side \<Rightarrow>
            and_then (if is_external header \<and> side \<noteq> Losing \<and> \<not> gp_stranded st
              then recordCommitOutcome E position (SupersededOutcome digest) else give ()) (\<lambda>_.
            and_then (if side = Losing then strand_peer else give ()) (\<lambda>_.
            and_then (saveCommitCursor E position) (\<lambda>_.
            and_then (if side = Losing then and_then request_heal (\<lambda>_.
                observeStrand (observation ForkLosingStrand Observed)) else give ()) (\<lambda>_.
              give (NextFrame, advanced)))))
        | PoisonRow \<Rightarrow> and_then (saveCommitCursor E position) (\<lambda>_. give (NextFrame, advanced))
        | ApplyRow \<Rightarrow>
            and_then (apply_commit E header position digest sender frame localEpoch) (\<lambda>applied.
            case applied of
              None \<Rightarrow> give (NextFrame, advanced)
            | Some result \<Rightarrow>
                if \<not> po_advanced result \<and> po_epochBefore result \<noteq> localEpoch
                then handle_commit n E (po_epochBefore result) True position sender frame
                else and_then (after_apply E header position digest localEpoch (an_epoch (gp_anchor st)) result) (\<lambda>_.
                       give (NextFrame, advanced \<or> po_advanced result))))"

definition walk_message ::
  "nat \<Rightarrow> ('h, 'w) peer_env \<Rightarrow> bool \<Rightarrow> StoredMessage \<Rightarrow> ('h, 'w, walk_next \<times> bool) lane" where
  "walk_message n E advanced message =
     (let position = sm_sequenceID message;
          skip = and_then (saveCommitCursor E position) (\<lambda>_. give (NextFrame, advanced));
          unreadable = and_then (unreadable_frame E position) (\<lambda>_. give (NextFrame, advanced))
      in case decodeHandshakeFrame (sm_payload message) of
           Inl _ \<Rightarrow> skip
         | Inr frame \<Rightarrow>
             if hf_version frame \<noteq> HANDSHAKE_VERSION then unreadable
             else if hf_kind frame \<noteq> HANDSHAKE_KIND Commit then skip
             else (case decodeCommitFrame (hf_payload frame) of
                 Inl e \<Rightarrow> if isUnsupportedCommitFrameVersion e then unreadable else skip
               | Inr commitFrame \<Rightarrow> reading (\<lambda>st.
                   if gp_pendingRecovery st = Some (position, digestAppliedCommit (ge_digest E) (cf_commit commitFrame))
                   then give (StopDrain, advanced)
                   else handle_commit n E (ge_epoch E (gp_handle st)) advanced position (sm_senderDID message) commitFrame)))"

section \<open>Pages\<close>

primrec walk_messages ::
  "nat \<Rightarrow> ('h, 'w) peer_env \<Rightarrow> bool \<Rightarrow> StoredMessage list \<Rightarrow> ('h, 'w, walk_next \<times> bool) lane" where
  "walk_messages n E advanced [] = give (NextFrame, advanced)"
| "walk_messages n E advanced (m # ms) =
     and_then (walk_message n E advanced m) (\<lambda>(next, advanced).
       if next = StopDrain then give (StopDrain, advanced) else walk_messages n E advanced ms)"

definition fetch_page ::
  "('h, 'w) peer_env \<Rightarrow> sequence_id option \<Rightarrow> nat \<Rightarrow> ('h, 'w, FetchTopicResult) lane" where
  "fetch_page E after limit st = (case ge_fetch E after limit (gp_world st) of
       (Inl e, w) \<Rightarrow> (Inl (HubThrew e), st \<lparr> gp_world := w \<rparr>)
     | (Inr result, w) \<Rightarrow> (Inr result, st \<lparr> gp_world := w \<rparr>))"

lemma ends_fetch_page [simp]:
  "ends (fetch_page E after limit) Q R st \<longleftrightarrow> (case ge_fetch E after limit (gp_world st) of
       (Inl e, w) \<Rightarrow> R (HubThrew e) (st \<lparr> gp_world := w \<rparr>)
     | (Inr result, w) \<Rightarrow> Q result (st \<lparr> gp_world := w \<rparr>))"
  by (simp add: ends_def fetch_page_def split: prod.splits sum.splits)

text \<open>The tip of the log, from the reply whose frames were processed.\<close>

definition takeHead :: "nat \<Rightarrow> bool \<Rightarrow> bool \<Rightarrow> sequence_id option \<Rightarrow> ('h, 'w, unit) lane" where
  "takeHead started covered advanced head =
     and_then (change (\<lambda>s. s \<lparr> gp_commitLogHead := head \<rparr>)) (\<lambda>_. reading (\<lambda>st.
     if covered \<and> \<not> gp_stranded st \<and> ef_covered (gp_floor st) then
       and_then (if \<not> advanced then change (\<lambda>s. s \<lparr> gp_floor := (gp_floor s) \<lparr> ef_position := gp_reconciledHead s \<rparr> \<rparr>)
                 else give ()) (\<lambda>_.
         signal (Certify (ef_epoch (gp_floor st)) started))
     else give ()))"

definition page_gap :: "sequence_id option \<Rightarrow> FetchTopicResult \<Rightarrow> bool" where
  "page_gap pageAfter result \<longleftrightarrow> fr_gap result
     \<or> (fr_messages result = [] \<and> (case (fr_head result, pageAfter) of (Some h, Some p) \<Rightarrow> p < h | _ \<Rightarrow> False))"

definition uncover_floor :: "('h, 'w, unit) lane" where
  "uncover_floor = change (\<lambda>s. s \<lparr> gp_floor := (gp_floor s) \<lparr> ef_covered := False \<rparr> \<rparr>)"

text \<open>A gap past the cursor: frames this peer never read are gone.\<close>

definition retention_gap :: "('h, 'w) peer_env \<Rightarrow> sequence_id \<Rightarrow> ('h, 'w, unit) lane" where
  "retention_gap E pageAfter =
     and_then uncover_floor (\<lambda>_. and_then strand_peer (\<lambda>_. and_then request_heal (\<lambda>_.
     and_then (persistStrand E) (\<lambda>_. reading (\<lambda>st. observeStrand
       \<lparr> so_position = pageAfter, so_commitDigest = None, so_localEpoch = ge_epoch E (gp_handle st),
         so_claimedEpoch = None, so_kind = RetentionGapStrand, so_confidence = Claimed \<rparr>)))))"

text \<open>The frames of one page; \<open>continue\<close> fetches the next one.\<close>

definition walk_page ::
  "nat \<Rightarrow> ('h, 'w) peer_env \<Rightarrow> nat \<Rightarrow> bool \<Rightarrow> bool \<Rightarrow> sequence_id option \<Rightarrow> FetchTopicResult
     \<Rightarrow> (bool \<Rightarrow> ('h, 'w, bool) lane) \<Rightarrow> ('h, 'w, bool) lane" where
  "walk_page n E started covered advanced pageAfter result continue =
     (let messages = fr_messages result in
      if length messages = COMMIT_FETCH_LIMIT \<and> \<not> forward_page pageAfter (map sm_sequenceID messages)
      then fail NonIncreasingPage
      else if messages = [] then and_then (takeHead started covered advanced (fr_head result)) (\<lambda>_. give advanced)
      else and_then (walk_messages n E advanced messages) (\<lambda>(next, advanced).
        if next = StopDrain then give advanced
        else if length messages < COMMIT_FETCH_LIMIT
        then and_then (takeHead started covered advanced (fr_head result)) (\<lambda>_. give advanced)
        else continue advanced))"

primrec walk_pages ::
  "nat \<Rightarrow> nat \<Rightarrow> ('h, 'w) peer_env \<Rightarrow> nat \<Rightarrow> bool \<Rightarrow> bool \<Rightarrow> ('h, 'w, bool) lane" where
  "walk_pages 0 n E started covered advanced = fail OutOfFuel"
| "walk_pages (Suc pages) n E started covered advanced = reading (\<lambda>st.
     let pageAfter = gp_reconciledHead st in
     and_then (fetch_page E pageAfter COMMIT_FETCH_LIMIT) (\<lambda>result.
     case pageAfter of
       Some p \<Rightarrow>
         if page_gap pageAfter result then and_then (retention_gap E p) (\<lambda>_. give advanced)
         else walk_page n E started covered advanced pageAfter result (walk_pages pages n E started covered)
     | None \<Rightarrow>
         if fr_gap result
         then and_then uncover_floor (\<lambda>_.
                walk_page n E started False advanced pageAfter result (walk_pages pages n E started False))
         else walk_page n E started covered advanced pageAfter result (walk_pages pages n E started covered)))"

definition walkCommits :: "nat \<Rightarrow> nat \<Rightarrow> ('h, 'w) peer_env \<Rightarrow> nat \<Rightarrow> ('h, 'w, bool) lane" where
  "walkCommits pages n E started = reading (\<lambda>st.
     if gp_anchorRecoveryPending st then give False else walk_pages pages n E started True False)"

section \<open>The pull\<close>

definition buildEpoch :: "('h, 'w) peer_env \<Rightarrow> ('h, 'w, unit) lane" where
  "buildEpoch E = and_then (signal BuildEpoch) (\<lambda>_. app_call (ge_buildEpoch E))"

text \<open>A failed teardown is reported after the runtimes are built again.\<close>

definition rebuildEpoch :: "('h, 'w) peer_env \<Rightarrow> ('h, 'w, unit) lane" where
  "rebuildEpoch E =
     and_then (signal TeardownEpoch) (\<lambda>_.
     and_then (catching (and_then (app_call (ge_teardownEpoch E)) (\<lambda>_. give True)) (\<lambda>_. give False)) (\<lambda>torn.
     and_then (buildEpoch E) (\<lambda>_.
       if torn then give () else fail HostError)))"

text \<open>
  The walk with the delivery of the current epoch's app frames after it. When it fails after the epoch or
  the anchor moved, the app lane is rebuilt and the failure of the walk stays the answer.
\<close>

definition pullCommits :: "nat \<Rightarrow> nat \<Rightarrow> ('h, 'w) peer_env \<Rightarrow> nat \<Rightarrow> ('h, 'w, bool) lane" where
  "pullCommits pages n E started = reading (\<lambda>st.
     if \<not> gp_journalReplayed st then fail JournalNotReplayed
     else if \<not> ge_ledgerComplete E (gp_handle st) then give False
     else catching
       (and_then (walkCommits pages n E started) (\<lambda>advanced.
        and_then (deliver_app E) (\<lambda>_. give advanced)))
       (\<lambda>e. reading (\<lambda>st'.
          and_then (if ge_hasInboxLane E (gp_world st')
              \<and> (ge_epoch E (gp_handle st') \<noteq> ge_epoch E (gp_handle st) \<or> gp_anchor st' \<noteq> gp_anchor st)
            then catching (rebuildEpoch E) (\<lambda>_. give ()) else give ()) (\<lambda>_.
          fail e))))"

definition reconcileCommits :: "nat \<Rightarrow> nat \<Rightarrow> ('h, 'w) peer_env \<Rightarrow> nat \<Rightarrow> ('h, 'w, unit) lane" where
  "reconcileCommits pages n E started =
     and_then (pullCommits pages n E started) (\<lambda>advanced. if advanced then rebuildEpoch E else give ())"

end
