(* ===== verification/Walk_Laws.thy ===== *)
theory Walk_Laws
  imports Commit_Walk
begin

text \<open>
  What the walk does to the handle. Every action around the port's own call leaves the handle alone and
  throws nothing but a failure of the host, so the handle after a frame is the one the port computed for
  it. The collection \<open>host_only\<close> holds one fact per action.
\<close>

named_theorems quiet \<open>actions that keep a property and throw only failures of the host\<close>

section \<open>Actions that throw only failures of the host\<close>

definition host_only :: "(('h, 'w) peer \<Rightarrow> bool) \<Rightarrow> ('h, 'w, 'a) lane \<Rightarrow> bool" where
  "host_only I m \<longleftrightarrow> (\<forall>st. I st \<longrightarrow> ends m (\<lambda>_. I) (\<lambda>e s. I s \<and> e = HostError) st)"

lemma host_onlyI:
  "(\<And>st. I st \<Longrightarrow> ends m (\<lambda>_. I) (\<lambda>e s. I s \<and> e = HostError) st) \<Longrightarrow> host_only I m"
  by (simp add: host_only_def)

lemma host_only_step:
  assumes "host_only I m" "I st" "\<And>x s. I s \<Longrightarrow> Q x s" "\<And>s. I s \<Longrightarrow> R HostError s"
  shows "ends m Q R st"
proof -
  have "ends m (\<lambda>_. I) (\<lambda>e s. I s \<and> e = HostError) st" using assms(1,2) by (simp add: host_only_def)
  then show ?thesis by (rule ends_weaken) (auto intro: assms)
qed

lemma host_only_give [quiet]: "host_only I (give x)"
  by (simp add: host_only_def)

lemma host_only_fail [quiet]: "host_only I (fail HostError)"
  by (simp add: host_only_def)

lemma host_only_and_then [quiet]:
  assumes "host_only I m" "\<And>x. host_only I (f x)" shows "host_only I (and_then m f)"
proof (rule host_onlyI)
  fix st assume "I st"
  with assms(1) show "ends (and_then m f) (\<lambda>_. I) (\<lambda>e s. I s \<and> e = HostError) st"
    using assms(2) by (simp add: host_only_def) (erule host_only_step [OF assms(1)], simp_all add: host_only_def)
qed

lemma host_only_reading [quiet]:
  assumes "\<And>st. I st \<Longrightarrow> host_only I (f st)" shows "host_only I (reading f)"
  using assms by (simp add: host_only_def)

lemma host_only_if [quiet]:
  "(b \<Longrightarrow> host_only I m) \<Longrightarrow> (\<not> b \<Longrightarrow> host_only I m') \<Longrightarrow> host_only I (if b then m else m')"
  by simp

lemma host_only_option [quiet]:
  "(x = None \<Longrightarrow> host_only I m) \<Longrightarrow> (\<And>y. x = Some y \<Longrightarrow> host_only I (f y))
   \<Longrightarrow> host_only I (case x of None \<Rightarrow> m | Some y \<Rightarrow> f y)"
  by (cases x) simp_all

lemma host_only_change: "(\<And>st. I st \<Longrightarrow> I (f st)) \<Longrightarrow> host_only I (change f)"
  by (simp add: host_only_def)

lemma host_only_write:
  assumes "\<And>st w. I st \<Longrightarrow> I (st \<lparr> gp_world := w \<rparr>)" "\<And>st. I st \<Longrightarrow> I (store st)"
  shows "host_only I (host_write E store)"
  using assms by (auto intro!: host_onlyI split: prod.splits host_outcome.splits)

lemma host_only_deliver:
  assumes "\<And>st w. I st \<Longrightarrow> I (st \<lparr> gp_world := w \<rparr>)"
  shows "host_only I (deliver_app E)"
  using assms by (auto intro!: host_onlyI split: prod.splits)

section \<open>What an action may touch\<close>

text \<open>
  The fields the walk changes while it does not advance: the cursor, the anchor and its records, notices,
  outcomes and the durable slots. \<open>line_of\<close> is the rest that decides what a later frame means.
\<close>

definition line_of :: "('h, 'w) peer \<Rightarrow> 'h \<times> (nat \<rightharpoonup> AppliedCommit) \<times> bool \<times> (sequence_id \<times> string) option" where
  "line_of st = (gp_handle st, gp_appliedByEpoch st, gp_stranded st, gp_pendingRecovery st)"

lemma line_of_updates [simp]:
  "line_of (st \<lparr> gp_world := w \<rparr>) = line_of st"
  "line_of (st \<lparr> gp_anchor := a \<rparr>) = line_of st"
  "line_of (st \<lparr> gp_anchorPending := p \<rparr>) = line_of st"
  "line_of (st \<lparr> gp_anchorRecoveryPending := b \<rparr>) = line_of st"
  "line_of (st \<lparr> gp_capturedAdvance := c \<rparr>) = line_of st"
  "line_of (st \<lparr> gp_sealBarrier := b \<rparr>) = line_of st"
  "line_of (st \<lparr> gp_sealError := b \<rparr>) = line_of st"
  "line_of (st \<lparr> gp_reconciledHead := q \<rparr>) = line_of st"
  "line_of (st \<lparr> gp_commitLogHead := q \<rparr>) = line_of st"
  "line_of (st \<lparr> gp_durableCursor := d \<rparr>) = line_of st"
  "line_of (st \<lparr> gp_healRequested := b \<rparr>) = line_of st"
  "line_of (st \<lparr> gp_bootstrapHealRequested := b \<rparr>) = line_of st"
  "line_of (st \<lparr> gp_episode := e \<rparr>) = line_of st"
  "line_of (st \<lparr> gp_floor := f \<rparr>) = line_of st"
  "line_of (st \<lparr> gp_locallyRemoved := b \<rparr>) = line_of st"
  "line_of (st \<lparr> gp_commitOutcomes := o' \<rparr>) = line_of st"
  "line_of (st \<lparr> gp_signals := ss \<rparr>) = line_of st"
  "line_of (st \<lparr> gp_storedAnchor := s \<rparr>) = line_of st"
  "line_of (st \<lparr> gp_storedCursor := sc \<rparr>) = line_of st"
  "line_of (st \<lparr> gp_handle := h \<rparr>) = (h, snd (line_of st))"
  by (simp_all add: line_of_def)

definition on_line where "on_line l st \<longleftrightarrow> line_of st = l"

lemma on_line_handle: "on_line l st \<Longrightarrow> gp_handle st = fst l"
  by (auto simp: on_line_def line_of_def)

lemma line_change [quiet]:
  assumes "\<And>st. line_of (f st) = line_of st" shows "host_only (on_line l) (change f)"
  using assms by (intro host_only_change) (simp add: on_line_def)

lemma line_signal [quiet]: "host_only (on_line l) (signal s)"
  by (simp add: signal_def line_change)

lemma line_write:
  assumes "\<And>st. line_of (store st) = line_of st" shows "host_only (on_line l) (host_write E store)"
  using assms by (intro host_only_write) (simp_all add: on_line_def)

lemma line_deliver [quiet]: "host_only (on_line l) (deliver_app E)"
  by (rule host_only_deliver) (simp add: on_line_def)

lemma line_put_cursor [quiet]: "host_only (on_line l) (put_cursor E cursor)"
  unfolding put_cursor_def by (intro quiet line_write) simp_all

lemma line_persistStrand [quiet]: "host_only (on_line l) (persistStrand E)"
  unfolding persistStrand_def Let_def by (intro quiet)

lemma line_saveCommitCursor [quiet]: "host_only (on_line l) (saveCommitCursor E q)"
  unfolding saveCommitCursor_def by (intro quiet) simp_all

lemma line_save_anchor [quiet]: "host_only (on_line l) (save_anchor E p)"
  unfolding save_anchor_def by (intro quiet line_write) simp_all

lemma line_finishSealBarrier [quiet]: "host_only (on_line l) finishSealBarrier"
  unfolding finishSealBarrier_def by (intro quiet) simp_all

lemma line_captureAnchor [quiet]: "host_only (on_line l) (captureAnchor E a)"
  unfolding captureAnchor_def Let_def by (intro quiet) simp_all

lemma line_keepAnchor [quiet]: "host_only (on_line l) (keepAnchor E)"
  unfolding keepAnchor_def by (intro quiet) simp_all

lemma line_requireAnchorRecovery [quiet]: "host_only (on_line l) requireAnchorRecovery"
  unfolding requireAnchorRecovery_def by (intro quiet) simp_all

lemma line_resolveAnchorRotation [quiet]: "host_only (on_line l) (resolveAnchorRotation E k i b)"
  unfolding resolveAnchorRotation_def Let_def by (intro quiet)

lemma line_observe [quiet]: "host_only (on_line l) (observe E r i q)"
  unfolding observe_def Let_def by (intro quiet) simp_all

lemma line_advance_finally [quiet]: "host_only (on_line l) advance_finally"
  unfolding advance_finally_def by (intro quiet)

lemma line_observeStrand [quiet]: "host_only (on_line l) (observeStrand o')"
  unfolding observeStrand_def by (intro quiet) simp_all

lemma line_recordCommitOutcome [quiet]: "host_only (on_line l) (recordCommitOutcome E q o')"
  unfolding recordCommitOutcome_def Let_def by (intro quiet) (simp split: prod.splits option.splits)

lemma line_request_heal [quiet]: "host_only (on_line l) request_heal"
  unfolding request_heal_def by (intro quiet) simp

section \<open>The advance\<close>

text \<open>
  An advance ends on the line its ratchet ended on. When it throws the error by which unresolved bodies are
  told, that error came from the ratchet.
\<close>

lemma line_advance_settle [quiet]: "host_only (on_line l) (advance_settle E i q c r)"
  unfolding advance_settle_def by (intro quiet) simp_all

lemma host_only_catching [quiet]:
  assumes "host_only I m" "host_only I (h HostError)" shows "host_only I (catching m h)"
proof (rule host_onlyI)
  fix st assume "I st"
  with assms(1) show "ends (catching m h) (\<lambda>_. I) (\<lambda>e s. I s \<and> e = HostError) st"
    using assms(2) by (simp, elim host_only_step) (simp_all add: host_only_def)
qed

lemma line_advance_failed [quiet]: "host_only (on_line l) (advance_failed E i q r)"
  unfolding advance_failed_def by (intro quiet) simp_all

text \<open>A property that everything around the ratchet keeps.\<close>

definition around_advance :: "('h, 'w) peer_env \<Rightarrow> (('h, 'w) peer \<Rightarrow> bool) \<Rightarrow> bool" where
  "around_advance E I \<longleftrightarrow> (\<forall>k i b. host_only I (resolveAnchorRotation E k i b)) \<and> host_only I (deliver_app E)
     \<and> (\<forall>p. host_only I (save_anchor E p))
     \<and> (\<forall>st r. I st \<longrightarrow> I (st \<lparr> gp_anchorPending := r, gp_sealBarrier := True \<rparr>))
     \<and> (\<forall>identity q c r. host_only I (advance_settle E identity q c r))
     \<and> (\<forall>identity q r. host_only I (advance_failed E identity q r)) \<and> host_only I advance_finally"

lemma advance_run_between:
  assumes kept: "around_advance E J" and ratchet: "ends ratchet (\<lambda>x s. J s \<and> P x) (\<lambda>_. J) st"
  shows "ends (advance_run E ratchet identity q confirmed record) (\<lambda>x s. J s \<and> P x) (\<lambda>_. J) st"
proof -
  have settle: "host_only J (advance_settle E identity q confirmed record)"
    and undo: "host_only J (advance_failed E identity q record)" and finish: "host_only J advance_finally"
    using kept by (simp_all add: around_advance_def)
  have settled: "ends (and_then (advance_settle E identity q confirmed record) (\<lambda>_. and_then advance_finally (\<lambda>_. give x)))
      (\<lambda>x s. J s \<and> P x) (\<lambda>_. J) s" if "J s \<and> P x" for x s
    unfolding ends_and_then
    by (rule host_only_step [OF settle conjunct1 [OF that]])
      (rule host_only_step [OF finish], simp_all add: conjunct2 [OF that])
  have failed: "ends (and_then (advance_failed E identity q record) (\<lambda>_. and_then advance_finally (\<lambda>_. fail e)))
      Q (\<lambda>_. J) s" if "J s" for Q e s
    unfolding ends_and_then
    by (rule host_only_step [OF undo that]) (rule host_only_step [OF finish], auto)
  show ?thesis
    unfolding advance_run_def ends_catching ends_and_then [of ratchet]
    by (rule ends_weaken [OF ratchet]) (rule ends_weaken [OF settled], assumption+, erule failed, erule failed)
qed

text \<open>An advance that did not reach its ratchet threw an error of the host, or refused.\<close>

lemma advanceHandle_between:
  assumes start: "I st" and before: "around_advance E I" and after: "around_advance E J"
    and ratchet: "\<And>s. I s \<Longrightarrow> ends ratchet (\<lambda>x s. J s \<and> P x) (\<lambda>_. J) s"
  shows "ends (advanceHandle E ratchet identity q) (\<lambda>x s. J s \<and> P x)
           (\<lambda>e s. J s \<or> I s \<and> (e = HostError \<or> e = RecoveryRequiredError)) st"
proof -
  let ?Q = "\<lambda>x s. J s \<and> P x" and ?R = "\<lambda>e s. J s \<or> I s \<and> (e = HostError \<or> e = RecoveryRequiredError)"
  have resolve: "host_only I (resolveAnchorRotation E False False False)" and deliver: "host_only I (deliver_app E)"
    and save: "\<And>p. host_only I (save_anchor E p)" and open_record: "\<And>st r. I st \<Longrightarrow> I (st \<lparr> gp_anchorPending := r, gp_sealBarrier := True \<rparr>)"
    using before by (simp_all add: around_advance_def)
  have run: "ends (advance_run E ratchet identity q c r) ?Q ?R s" if "I s" for c r s
    by (rule ends_weaken [OF advance_run_between [OF after ratchet [OF that]]]) simp_all
  have recorded: "ends (reading (\<lambda>st. let record = advance_record E identity st in
          and_then (save_anchor E (Some record)) (\<lambda>_.
          and_then (change (\<lambda>s. s \<lparr> gp_anchorPending := Some record, gp_sealBarrier := True \<rparr>)) (\<lambda>_.
            advance_run E ratchet identity q c record)))) ?Q ?R s" if "I s" for c s
    unfolding ends_reading Let_def ends_and_then
    by (rule host_only_step [OF save that]) (simp_all add: run open_record)
  have go: "ends (and_then (if c then give () else deliver_app E) (\<lambda>_. reading (\<lambda>st.
          let record = advance_record E identity st in
          and_then (save_anchor E (Some record)) (\<lambda>_.
          and_then (change (\<lambda>s. s \<lparr> gp_anchorPending := Some record, gp_sealBarrier := True \<rparr>)) (\<lambda>_.
            advance_run E ratchet identity q c record))))) ?Q ?R s" if "I s" for c s
    unfolding ends_and_then [of "if c then give () else deliver_app E"]
    by (rule host_only_step [where I = I]) (intro quiet deliver, rule that, erule recorded, simp)
  show ?thesis
    unfolding advanceHandle_def ends_and_then [of "resolveAnchorRotation E False False False"] ends_reading Let_def
    by (rule host_only_step [OF resolve start])
      (simp_all only: ends_if ends_fail go [unfolded Let_def] simp_thms if_cancel)
qed

lemma around_line: "around_advance E (on_line l)"
  unfolding around_advance_def by (intro conjI allI impI quiet line_save_anchor) (simp add: on_line_def)

lemma advanceHandle_line:
  assumes "on_line l st" and "\<And>s. on_line l s \<Longrightarrow> ends ratchet (\<lambda>x s. on_line l' s \<and> P x) (\<lambda>_. on_line l') s"
  shows "ends (advanceHandle E ratchet identity q) (\<lambda>x s. on_line l' s \<and> P x)
           (\<lambda>e s. e = MissingLedgerEntriesError \<longrightarrow> on_line l' s) st"
  by (rule ends_weaken [OF advanceHandle_between [OF assms(1) around_line around_line assms(2)]]) auto

end
