(* ===== verification/Walk_Spec.thy ===== *)
theory Walk_Spec
  imports Walk_Laws
begin

text \<open>
  The commit log as every member must read it: \<open>enact\<close> is what one frame does to a handle, and \<open>enact_log\<close>
  what a log does. It knows nothing of cursors, pages, records or restarts. The walk refines it: whatever
  the pages and whatever fails on the way, the handle it leaves is the one \<open>enact\<close> computes from the frames
  it stepped over.
\<close>

section \<open>The meaning of a log\<close>

definition commit_frame_of :: "bytes \<Rightarrow> CommitFrame option" where
  "commit_frame_of payload = (case decodeHandshakeFrame payload of
       Inl _ \<Rightarrow> None
     | Inr frame \<Rightarrow>
         if hf_version frame \<noteq> HANDSHAKE_VERSION \<or> hf_kind frame \<noteq> HANDSHAKE_KIND Commit then None
         else (case decodeCommitFrame (hf_payload frame) of Inl _ \<Rightarrow> None | Inr f \<Rightarrow> Some f))"

text \<open>A commit another member made at the epoch of this handle, by the committer MLS authenticates.\<close>

definition applicable :: "('h, 'w) peer_env \<Rightarrow> 'h \<Rightarrow> CommitFrame \<Rightarrow> bool" where
  "applicable E h frame \<longleftrightarrow> (case read_header E h (cf_commit frame) of
       None \<Rightarrow> False
     | Some header \<Rightarrow> ch_epoch header = ge_epoch E h \<and> ch_committerDID header \<noteq> None \<and> ch_committerDID header \<noteq> Some (ge_localDID E))"

definition process_frame :: "('h, 'w) peer_env \<Rightarrow> did \<Rightarrow> CommitFrame \<Rightarrow> 'h \<Rightarrow> process_answer \<times> 'h" where
  "process_frame E sender frame h =
     ge_process E (cf_commit frame) sender (resolveLedgerEntries (ge_openEntries E h) (cf_sealedEntries frame) []) h"

definition enact :: "('h, 'w) peer_env \<Rightarrow> StoredMessage \<Rightarrow> 'h \<Rightarrow> 'h" where
  "enact E message h = (case commit_frame_of (sm_payload message) of
       None \<Rightarrow> h
     | Some frame \<Rightarrow> if applicable E h frame then snd (process_frame E (sm_senderDID message) frame h) else h)"

definition enact_log :: "('h, 'w) peer_env \<Rightarrow> StoredMessage list \<Rightarrow> 'h \<Rightarrow> 'h" where
  "enact_log E messages h = fold (enact E) messages h"

lemma enact_log_simps [simp]:
  "enact_log E [] h = h"
  "enact_log E (m # ms) h = enact_log E ms (enact E m h)"
  "enact_log E (xs @ ys) h = enact_log E ys (enact_log E xs h)"
  by (simp_all add: enact_log_def)

text \<open>
  The port answers for the handle it was called on: \<^verbatim>\<open>epochBefore\<close> is the epoch that handle was at.
\<close>

definition answers_own_epoch :: "('h, 'w) peer_env \<Rightarrow> bool" where
  "answers_own_epoch E \<longleftrightarrow> (\<forall>commit sender resolved h result h'.
     ge_process E commit sender resolved h = (Processed result, h') \<longrightarrow> po_epochBefore result = ge_epoch E h)"

section \<open>One frame\<close>

definition at_handle :: "'h \<Rightarrow> ('h, 'w) peer \<Rightarrow> bool" where
  "at_handle h st \<longleftrightarrow> gp_handle st = h"

lemma at_handle_line: "on_line l st \<Longrightarrow> at_handle (fst l) st"
  by (auto simp: on_line_def line_of_def at_handle_def)

lemma handle_of_line:
  assumes "\<And>l. host_only (on_line l) m" shows "host_only (at_handle h) m"
proof (rule host_onlyI)
  fix st :: "('a, 'b) peer" assume "at_handle h st"
  then have h: "fst (line_of st) = h" by (simp add: at_handle_def line_of_def)
  have returned: "on_line (line_of st) s \<Longrightarrow> at_handle h s" for s
    using at_handle_line [of "line_of st" s] by (simp add: h)
  show "ends m (\<lambda>_. at_handle h) (\<lambda>e s. at_handle h s \<and> e = HostError) st"
    by (rule host_only_step [OF assms, of "line_of st"]) (simp_all add: returned, simp add: on_line_def)
qed

lemmas handle_quiet [quiet] =
  handle_of_line [OF line_saveCommitCursor] handle_of_line [OF line_persistStrand]
  handle_of_line [OF line_observeStrand] handle_of_line [OF line_recordCommitOutcome]
  handle_of_line [OF line_request_heal] handle_of_line [OF line_resolveAnchorRotation]
  handle_of_line [OF line_signal]

lemma handle_change [quiet]:
  "(\<And>st. gp_handle (f st) = gp_handle st) \<Longrightarrow> host_only (at_handle h) (change f)"
  by (intro host_only_change) (simp add: at_handle_def)

lemma handle_strand_peer [quiet]: "host_only (at_handle h) strand_peer"
  unfolding strand_peer_def by (intro quiet) simp

lemma handle_unreadable [quiet]: "host_only (at_handle h) (unreadable_frame E q)"
  unfolding unreadable_frame_def Let_def by (intro quiet)

lemma handle_after_apply [quiet]: "host_only (at_handle h) (after_apply E header q d f a r)"
  unfolding after_apply_def by (intro quiet) simp_all

lemma process_ratchet_line:
  assumes "on_line l st"
  shows "ends (process_ratchet E header q d sender frame)
    (\<lambda>result s. on_line (snd (process_frame E sender frame (fst l)), snd l) s
       \<and> fst (process_frame E sender frame (fst l)) = Processed result)
    (\<lambda>_. on_line (snd (process_frame E sender frame (fst l)), snd l)) st"
proof -
  have h: "gp_handle st = fst l" using assms by (rule on_line_handle)
  let ?l = "(snd (process_frame E sender frame (fst l)), snd l)"
  have moved: "on_line ?l (st \<lparr> gp_handle := snd (process_frame E sender frame (fst l)) \<rparr>)"
    using assms by (simp add: on_line_def)
  have outcome: "ends (recordCommitOutcome E q o') (\<lambda>_. on_line ?l) (\<lambda>_. on_line ?l) s" if "on_line ?l s" for o' s
    by (rule host_only_step [OF line_recordCommitOutcome that])
  show ?thesis
    unfolding process_ratchet_def
    using moved by (auto simp: h process_frame_def [symmetric] Let_def split: process_answer.splits prod.splits option.splits
        intro!: ends_weaken [OF outcome])
qed

lemma saveCommitCursor_result:
  assumes "on_line l st"
  shows "ends (saveCommitCursor E q) (\<lambda>_ s. on_line l s \<and> gp_reconciledHead s = Some q) (\<lambda>_. on_line l) st"
proof -
  have "host_only (on_line l) (if gp_stranded st then persistStrand E
      else put_cursor E \<lparr> cc_position = Some q, cc_epoch = ge_epoch E (gp_handle st), cc_stranded = False \<rparr>)"
    by (intro quiet)
  then show ?thesis
    unfolding saveCommitCursor_def ends_and_then ends_reading
    by (rule host_only_step [where I = "on_line l"]) (rule assms, simp_all add: on_line_def)
qed

text \<open>An applied frame leaves the handle the port computed, whether it advanced, refused or could not resolve it.\<close>

lemma apply_commit_line:
  fixes E :: "('h, 'w) peer_env" and sender :: did and frame :: CommitFrame
  assumes "on_line l st"
  defines "p \<equiv> process_frame E sender frame (fst l)"
  shows "ends (apply_commit E header q d sender frame epoch)
    (\<lambda>r s. on_line (snd p, snd l) s \<and> (\<forall>result. r = Some result \<longrightarrow> fst p = Processed result)
       \<and> (r = None \<longrightarrow> gp_reconciledHead s = Some q)) (\<lambda>_ _. True) st"
proof -
  let ?l' = "(snd p, snd l)"
  have ratchet: "ends (process_ratchet E header q d sender frame)
      (\<lambda>x s. on_line ?l' s \<and> fst p = Processed x) (\<lambda>_. on_line ?l') s" if "on_line l s" for s
    using process_ratchet_line [OF that] by (simp add: p_def)
  have missing: "ends (reading (\<lambda>st.
           if ge_epoch E (gp_handle st) \<noteq> epoch
           then and_then (resolveAnchorRotation E False False False) (\<lambda>_. fail MissingLedgerEntriesError)
           else and_then (resolveAnchorRotation E True False False) (\<lambda>_.
                and_then (saveCommitCursor E q) (\<lambda>_. give None))))
      (\<lambda>r s. on_line ?l' s \<and> (\<forall>result. r = Some result \<longrightarrow> fst p = Processed result)
         \<and> (r = None \<longrightarrow> gp_reconciledHead s = Some q)) (\<lambda>_ _. True) s"
    if "on_line ?l' s" for s
    using that by (auto intro!: host_only_step [OF line_resolveAnchorRotation] ends_weaken [OF saveCommitCursor_result])
  show ?thesis
    unfolding apply_commit_def ends_catching ends_and_then ends_give
    by (rule ends_weaken [OF advanceHandle_line [where l = l and l' = ?l' and P = "\<lambda>x. fst p = Processed x"]])
      (auto simp: assms(1) ratchet missing simp del: ends_reading)
qed

lemma apply_commit_handle:
  assumes "at_handle h st"
  shows "ends (apply_commit E header q d sender frame epoch)
    (\<lambda>r s. at_handle (snd (process_frame E sender frame h)) s
       \<and> (\<forall>result. r = Some result \<longrightarrow> fst (process_frame E sender frame h) = Processed result)) (\<lambda>_ _. True) st"
proof -
  have "on_line (h, snd (line_of st)) st"
    using assms by (simp add: on_line_def at_handle_def line_of_def)
  from apply_commit_line [OF this] show ?thesis
    by (rule ends_weaken) (auto dest: at_handle_line)
qed

text \<open>The frame as the loop sees it, once its commit is read.\<close>

definition enact_frame :: "('h, 'w) peer_env \<Rightarrow> did \<Rightarrow> CommitFrame \<Rightarrow> 'h \<Rightarrow> 'h" where
  "enact_frame E sender frame h = (if applicable E h frame then snd (process_frame E sender frame h) else h)"

lemma classify_applicable:
  "classifyCommit (evidence (read_header E h (cf_commit frame))) q d (classifier_state E (ge_epoch E h) st) = ApplyRow
     \<longleftrightarrow> applicable E h frame"
  by (auto simp: classify_apply_iff applicable_def evidence_def classifier_state_def split: option.splits)

lemma handle_commit_handle:
  assumes law: "answers_own_epoch E" and "at_handle h st"
  shows "ends (handle_commit (Suc n) E (ge_epoch E h) advanced q sender frame)
    (\<lambda>r s. at_handle (enact_frame E sender frame h) s \<and> (fst r = StopDrain \<longrightarrow> enact_frame E sender frame h = h))
    (\<lambda>_ _. True) st"
proof -
  let ?row = "classifyCommit (evidence (read_header E h (cf_commit frame))) q
    (Some (digestAppliedCommit (ge_digest E) (cf_commit frame))) (classifier_state E (ge_epoch E h) st)"
  have h: "gp_handle st = h" using assms(2) by (simp add: at_handle_def)
  show ?thesis
  proof (cases "?row = ApplyRow")
    case True
    then have app: "applicable E h frame" by (simp add: classify_applicable)
    let ?p = "process_frame E sender frame h"
    have own: "po_epochBefore result = ge_epoch E h" if "fst ?p = Processed result" for result
      using law [unfolded answers_own_epoch_def] that unfolding process_frame_def by (metis prod.collapse)
    show ?thesis
      using True assms(2) app
      by (auto simp: h Let_def enact_frame_def own split: option.splits
          intro!: ends_weaken [OF apply_commit_handle] host_only_step [OF handle_after_apply])
  next
    case False
    then have stays: "enact_frame E sender frame h = h" by (simp add: enact_frame_def classify_applicable)
    have quietly: "host_only (at_handle h) m \<Longrightarrow> ends m (\<lambda>_. at_handle h) (\<lambda>_ _. True) st" for m :: "('a, 'b, walk_next \<times> bool) lane"
      by (erule host_only_step) (simp_all add: assms(2))
    have "ends (handle_commit (Suc n) E (ge_epoch E h) advanced q sender frame) (\<lambda>_. at_handle h) (\<lambda>_ _. True) st"
      using False unfolding handle_commit.simps ends_reading h Let_def
      by (cases ?row) (simp_all only: CommitDisposition.simps simp_thms, (intro quietly quiet)+)
    then show ?thesis by (simp add: stays)
  qed
qed

text \<open>A frame that is stepped over moves the handle as the log says; one that stops the drain does not.\<close>

lemma walk_message_handle:
  assumes law: "answers_own_epoch E" and start: "at_handle h st"
  shows "ends (walk_message (Suc n) E advanced m)
    (\<lambda>r. at_handle (if fst r = StopDrain then h else enact E m h)) (\<lambda>_ _. True) st"
proof (cases "commit_frame_of (sm_payload m)")
  case None
  then have stays: "enact E m h = h" by (simp add: enact_def)
  have skip: "ends (and_then a (\<lambda>_. give (NextFrame, advanced))) (\<lambda>r. at_handle (if fst r = StopDrain then h else enact E m h))
      (\<lambda>_ _. True) st" if "host_only (at_handle h) a" for a :: "('a, 'b, unit) lane"
    using start by (auto simp: stays intro: host_only_step [OF that])
  show ?thesis
    using None by (auto simp: walk_message_def commit_frame_of_def Let_def skip quiet
        simp del: ends_and_then split: sum.splits if_splits)
next
  case (Some frame)
  then obtain f where "decodeHandshakeFrame (sm_payload m) = Inr f" "hf_version f = HANDSHAKE_VERSION"
    "hf_kind f = HANDSHAKE_KIND Commit" "decodeCommitFrame (hf_payload f) = Inr frame"
    by (auto simp: commit_frame_of_def split: sum.splits if_splits)
  moreover have enact: "enact E m h = enact_frame E (sm_senderDID m) frame h"
    by (simp add: enact_def enact_frame_def Some)
  have "ends (handle_commit (Suc n) E (ge_epoch E h) advanced q (sm_senderDID m) frame)
      (\<lambda>r. at_handle (if fst r = StopDrain then h else enact E m h)) (\<lambda>_ _. True) st" for q
    unfolding enact by (rule ends_weaken [OF handle_commit_handle [OF law start]]) auto
  moreover have "gp_handle st = h" using start by (simp add: at_handle_def)
  ultimately show ?thesis
    using start unfolding walk_message_def Let_def by (simp del: handle_commit.simps)
qed

section \<open>Pages\<close>

lemma walk_messages_handle:
  assumes law: "answers_own_epoch E" and start: "at_handle h st"
  shows "ends (walk_messages (Suc n) E advanced ms)
    (\<lambda>r s. \<exists>k \<le> length ms. at_handle (enact_log E (take k ms) h) s \<and> (fst r = NextFrame \<longrightarrow> k = length ms))
    (\<lambda>_ _. True) st"
  using start
proof (induction ms arbitrary: h st advanced)
  case Nil
  then show ?case by (simp add: at_handle_def)
next
  case (Cons m ms)
  have stop: "\<exists>k \<le> length (m # ms). at_handle (enact_log E (take k (m # ms)) h) s \<and> (fst (StopDrain, a) = NextFrame \<longrightarrow> k = length (m # ms))"
    if "at_handle h s" for a s
    using that by (intro exI [of _ 0]) simp
  have go: "ends (walk_messages (Suc n) E a ms)
      (\<lambda>r s. \<exists>k \<le> length (m # ms). at_handle (enact_log E (take k (m # ms)) h) s \<and> (fst r = NextFrame \<longrightarrow> k = length (m # ms)))
      (\<lambda>_ _. True) s" if "at_handle (enact E m h) s" for a s
  proof (rule ends_weaken [OF Cons.IH [OF that]])
    fix r :: "walk_next \<times> bool" and s' :: "('a, 'b) peer"
    assume "\<exists>k \<le> length ms. at_handle (enact_log E (take k ms) (enact E m h)) s' \<and> (fst r = NextFrame \<longrightarrow> k = length ms)"
    then obtain k where "k \<le> length ms" "at_handle (enact_log E (take k ms) (enact E m h)) s'"
      "fst r = NextFrame \<longrightarrow> k = length ms" by blast
    then show "\<exists>k \<le> length (m # ms). at_handle (enact_log E (take k (m # ms)) h) s' \<and> (fst r = NextFrame \<longrightarrow> k = length (m # ms))"
      by (intro exI [of _ "Suc k"]) simp
  qed
  show ?case
    unfolding walk_messages.simps ends_and_then
    by (rule ends_weaken [OF walk_message_handle [OF law Cons.prems]])
      (auto simp: stop [simplified] go [simplified] split: prod.splits)
qed

end
