(* ===== verification/Walk_Complete.thy ===== *)
theory Walk_Complete
  imports Walk_Spec
begin

text \<open>
  The walk against a hub that serves a log: it ends within a number of pages fixed by the length of the
  log, and unless it met evidence that strands the peer it has enacted the whole log and stands at its tip.
\<close>

section \<open>Errors an action cannot throw\<close>

named_theorems avoiding \<open>actions that do not run out of fuel\<close>

definition fueled :: "('h, 'w, 'a) lane \<Rightarrow> bool" where
  "fueled m \<longleftrightarrow> (\<forall>st. ends m (\<lambda>_ _. True) (\<lambda>e _. e \<noteq> OutOfFuel) st)"

lemma fueled_iff: "fueled m \<longleftrightarrow> (\<forall>st st'. m st \<noteq> (Inl OutOfFuel, st'))"
  by (force simp: fueled_def ends_def split: prod.splits sum.splits)

lemma fueled_give [avoiding]: "fueled (give x)"
  by (simp add: fueled_def)

lemma fueled_fail [avoiding]: "e \<noteq> OutOfFuel \<Longrightarrow> fueled (fail e)"
  by (simp add: fueled_def)

lemma fueled_and_then [avoiding]: "fueled m \<Longrightarrow> (\<And>x. fueled (f x)) \<Longrightarrow> fueled (and_then m f)"
  by (auto simp: fueled_iff and_then_def split: prod.splits sum.splits)

lemma fueled_catching [avoiding]: "fueled m \<Longrightarrow> (\<And>e. e \<noteq> OutOfFuel \<Longrightarrow> fueled (h e)) \<Longrightarrow> fueled (catching m h)"
  by (auto simp: fueled_iff catching_def split: prod.splits sum.splits) metis

lemma fueled_reading [avoiding]: "(\<And>st. fueled (f st)) \<Longrightarrow> fueled (reading f)"
  by (simp add: fueled_def)

lemma fueled_if [avoiding]: "(b \<Longrightarrow> fueled m) \<Longrightarrow> (\<not> b \<Longrightarrow> fueled m') \<Longrightarrow> fueled (if b then m else m')"
  by simp

lemma fueled_option [avoiding]:
  "(x = None \<Longrightarrow> fueled m) \<Longrightarrow> (\<And>y. x = Some y \<Longrightarrow> fueled (f y)) \<Longrightarrow> fueled (case x of None \<Rightarrow> m | Some y \<Rightarrow> f y)"
  by (cases x) simp_all

lemma fueled_change [avoiding]: "fueled (change f)"
  by (simp add: fueled_def)

lemma fueled_line:
  assumes "\<And>l. host_only (on_line l) m" shows "fueled m"
  unfolding fueled_def
proof
  fix st show "ends m (\<lambda>_ _. True) (\<lambda>e _. e \<noteq> OutOfFuel) st"
    by (rule host_only_step [OF assms, of "line_of st"]) (simp_all add: on_line_def)
qed

lemmas fueled_lines [avoiding] =
  fueled_line [OF line_saveCommitCursor] fueled_line [OF line_persistStrand] fueled_line [OF line_observeStrand]
  fueled_line [OF line_recordCommitOutcome] fueled_line [OF line_request_heal] fueled_line [OF line_signal]
  fueled_line [OF line_resolveAnchorRotation] fueled_line [OF line_save_anchor] fueled_line [OF line_deliver]
  fueled_line [OF line_advance_settle] fueled_line [OF line_advance_failed] fueled_line [OF line_advance_finally]

lemma fueled_advanceHandle [avoiding]: "fueled ratchet \<Longrightarrow> fueled (advanceHandle E ratchet i q)"
  unfolding advanceHandle_def advance_run_def Let_def by (intro avoiding) simp_all

lemma fueled_process_ratchet [avoiding]: "fueled (process_ratchet E header q d sender frame)"
  unfolding process_ratchet_def Let_def
  by (intro avoiding) (auto split: prod.splits process_answer.splits intro!: avoiding)

lemma fueled_apply_commit [avoiding]: "fueled (apply_commit E header q d sender frame e)"
  unfolding apply_commit_def by (intro avoiding) simp_all

lemma fueled_after_apply [avoiding]: "fueled (after_apply E header q d f a r)"
  unfolding after_apply_def by (intro avoiding)

lemma fueled_unreadable [avoiding]: "fueled (unreadable_frame E q)"
  unfolding unreadable_frame_def Let_def strand_peer_def by (intro avoiding)

section \<open>Where a frame leaves the cursor\<close>

lemma ends_fueled:
  assumes "ends m Q (\<lambda>_ _. True) st" "fueled m" shows "ends m Q (\<lambda>e _. e \<noteq> OutOfFuel) st"
  using assms by (auto simp: fueled_iff ends_def split: prod.splits sum.splits)

text \<open>
  A frame that is stepped over leaves the cursor on it. One that stops the drain, while no recovery of this
  peer's own is pending, strands it.
\<close>

definition stepped :: "sequence_id \<Rightarrow> walk_next \<times> bool \<Rightarrow> ('h, 'w) peer \<Rightarrow> bool" where
  "stepped q r s \<longleftrightarrow> gp_pendingRecovery s = None \<and> (fst r = NextFrame \<longrightarrow> gp_reconciledHead s = Some q)
     \<and> (fst r = StopDrain \<longrightarrow> gp_stranded s)"

definition no_pending :: "('h, 'w) peer \<Rightarrow> bool" where
  "no_pending st \<longleftrightarrow> gp_pendingRecovery st = None"

lemma line_no_pending: "on_line (line_of st) s \<Longrightarrow> no_pending st \<Longrightarrow> no_pending s"
  by (simp add: on_line_def line_of_def no_pending_def)

lemma saving:
  fixes st :: "('h, 'w) peer"
  assumes "no_pending st" "\<And>x s. no_pending s \<Longrightarrow> gp_stranded s = gp_stranded st \<Longrightarrow> gp_reconciledHead s = Some q \<Longrightarrow> Q x s"
  shows "ends (saveCommitCursor E q) Q (\<lambda>e _. e \<noteq> OutOfFuel) st"
proof (rule ends_fueled [OF ends_weaken [OF saveCommitCursor_result [of "line_of st"]]])
  show "on_line (line_of st) st" by (simp add: on_line_def)
  fix x and s :: "('h, 'w) peer" assume "on_line (line_of st) s \<and> gp_reconciledHead s = Some q"
  then show "Q x s" using assms(1)
    by (intro assms(2)) (auto simp: on_line_def line_of_def no_pending_def)
qed (simp_all add: avoiding)

lemma pending_keeping:
  fixes st :: "('h, 'w) peer"
  assumes "\<And>l. host_only (on_line l) m" "no_pending st"
    "\<And>x s. no_pending s \<Longrightarrow> gp_stranded s = gp_stranded st \<Longrightarrow> Q x s"
  shows "ends m Q (\<lambda>e _. e \<noteq> OutOfFuel) st"
proof (rule host_only_step [OF assms(1)])
  show "on_line (line_of st) st" by (simp add: on_line_def)
  fix x and s :: "('h, 'w) peer" assume "on_line (line_of st) s"
  then show "Q x s" using assms(2) by (intro assms(3)) (auto simp: on_line_def line_of_def no_pending_def)
qed simp

lemma observed:
  "ends (observeStrand o') Q R st \<longleftrightarrow> (let st' = st \<lparr> gp_bootstrapHealRequested := False \<rparr> in
     if (case gp_episode st of None \<Rightarrow> False | Some s \<Rightarrow> CONFIDENCE_RANK (so_confidence o') \<le> CONFIDENCE_RANK s)
     then Q () st'
     else Q () (st' \<lparr> gp_episode := Some (so_confidence o'), gp_signals := gp_signals st @ [StrandNotice o'] \<rparr>))"
  by (simp add: observeStrand_def Let_def cong: option.case_cong)

lemma after_apply_step:
  assumes "no_pending st" shows "ends (after_apply E header q d f a r) (\<lambda>_. stepped q (NextFrame, b)) (\<lambda>e _. e \<noteq> OutOfFuel) st"
proof -
  have save: "ends (saveCommitCursor E q) (\<lambda>_. stepped q (NextFrame, b)) (\<lambda>e _. e \<noteq> OutOfFuel) s" if "no_pending s" for s
    by (rule saving [OF that]) (simp add: stepped_def no_pending_def)
  have recorded: "ends (recordCommitOutcome E q o') (\<lambda>_. ends (saveCommitCursor E q) (\<lambda>_. stepped q (NextFrame, b)) (\<lambda>e _. e \<noteq> OutOfFuel))
      (\<lambda>e _. e \<noteq> OutOfFuel) s" if "no_pending s" for s o'
    by (rule pending_keeping [OF line_recordCommitOutcome that]) (rule save)
  show ?thesis
    using assms unfolding after_apply_def
    by (auto simp: no_pending_def intro!: recorded save)
qed

lemma handle_commit_step:
  assumes law: "answers_own_epoch E" and "no_pending st"
  shows "ends (handle_commit (Suc n) E (ge_epoch E (gp_handle st)) advanced q sender frame) (stepped q) (\<lambda>e _. e \<noteq> OutOfFuel) st"
proof -
  let ?h = "gp_handle st"
  let ?row = "classifyCommit (evidence (read_header E ?h (cf_commit frame))) q
    (Some (digestAppliedCommit (ge_digest E) (cf_commit frame))) (classifier_state E (ge_epoch E ?h) st)"
  have save: "ends (saveCommitCursor E q) (\<lambda>_. stepped q (NextFrame, b)) (\<lambda>e _. e \<noteq> OutOfFuel) s" if "no_pending s" for s b
    by (rule saving [OF that]) (simp add: stepped_def no_pending_def)
  show ?thesis
  proof (cases ?row)
    case ApplyRow
    let ?p = "process_frame E sender frame ?h"
    have own: "po_epochBefore result = ge_epoch E ?h" if "fst ?p = Processed result" for result
      using law [unfolded answers_own_epoch_def] that unfolding process_frame_def by (metis prod.collapse)
    have "on_line (line_of st) st" by (simp add: on_line_def)
    from apply_commit_line [OF this] have applied: "ends (apply_commit E header q d sender frame e)
      (\<lambda>r s. no_pending s \<and> (\<forall>result. r = Some result \<longrightarrow> fst ?p = Processed result)
         \<and> (r = None \<longrightarrow> gp_reconciledHead s = Some q)) (\<lambda>e _. e \<noteq> OutOfFuel) st" for header d e
      by (rule ends_fueled [OF ends_weaken])
        (use assms(2) in \<open>auto simp: on_line_def line_of_def no_pending_def avoiding\<close>)
    have after: "ends (case r of None \<Rightarrow> give (NextFrame, advanced) | Some result \<Rightarrow>
        if \<not> po_advanced result \<and> po_epochBefore result \<noteq> ge_epoch E ?h
        then handle_commit n E (po_epochBefore result) True q sender frame
        else and_then (after_apply E header q d f a result) (\<lambda>_. give (NextFrame, advanced \<or> po_advanced result)))
        (stepped q) (\<lambda>e _. e \<noteq> OutOfFuel) s"
      if "no_pending s \<and> (\<forall>result. r = Some result \<longrightarrow> fst ?p = Processed result) \<and> (r = None \<longrightarrow> gp_reconciledHead s = Some q)"
      for r s header d f a
    proof (cases r)
      case None
      with that show ?thesis by (simp add: stepped_def no_pending_def)
    next
      case (Some result)
      with that have "po_epochBefore result = ge_epoch E ?h" by (intro own) simp
      with that Some show ?thesis
        by (auto intro!: ends_weaken [OF after_apply_step])
    qed
    show ?thesis
      using ApplyRow unfolding handle_commit.simps ends_reading Let_def
      by (simp only: CommitDisposition.simps ends_and_then [of "apply_commit _ _ _ _ _ _ _"])
        (rule ends_weaken [OF applied], erule after, simp)
  next
    case OwnUnmergedRow
    then show ?thesis
      using assms(2) by (auto simp: Let_def request_heal_def strand_peer_def observed stepped_def no_pending_def
          intro!: pending_keeping [OF line_persistStrand])
  next
    case AheadRow
    then show ?thesis
      using assms(2) by (auto simp: Let_def request_heal_def strand_peer_def observed stepped_def no_pending_def intro!: saving)
  next
    case (ForkRow p b)
    then show ?thesis
      using assms(2) by (auto simp: Let_def request_heal_def strand_peer_def observed stepped_def no_pending_def
          intro!: saving pending_keeping [OF line_recordCommitOutcome])
  qed (use assms(2) in \<open>auto simp: Let_def intro!: ends_weaken [OF save]\<close>)
qed

lemma unreadable_step:
  assumes "no_pending st"
  shows "ends (unreadable_frame E q) (\<lambda>_. stepped q (NextFrame, b)) (\<lambda>e _. e \<noteq> OutOfFuel) st"
  using assms by (auto simp: unreadable_frame_def Let_def request_heal_def strand_peer_def observed stepped_def
      no_pending_def intro!: saving)

lemma walk_message_step:
  assumes law: "answers_own_epoch E" and start: "no_pending st"
  shows "ends (walk_message (Suc n) E advanced m) (stepped (sm_sequenceID m)) (\<lambda>e _. e \<noteq> OutOfFuel) st"
proof -
  have skip: "ends (saveCommitCursor E q) (\<lambda>_. stepped q (NextFrame, b)) (\<lambda>e _. e \<noteq> OutOfFuel) st" for q b
    by (rule saving [OF start]) (simp add: stepped_def no_pending_def)
  have none: "gp_pendingRecovery st \<noteq> Some x" for x using start by (simp add: no_pending_def)
  show ?thesis
    unfolding walk_message_def Let_def
    by (auto split: sum.splits simp: none simp del: handle_commit.simps
        intro!: ends_weaken [OF skip] ends_weaken [OF unreadable_step [OF start]] handle_commit_step [OF law start])
qed

lemma not_stop: "x \<noteq> StopDrain \<longleftrightarrow> x = NextFrame"
  by (cases x) simp_all

lemma walk_messages_step:
  assumes law: "answers_own_epoch E" and start: "no_pending st"
  shows "ends (walk_messages (Suc n) E advanced ms)
    (\<lambda>r s. no_pending s \<and> (fst r = StopDrain \<longrightarrow> gp_stranded s)
       \<and> (fst r = NextFrame \<longrightarrow> gp_reconciledHead s
            = (if ms = [] then gp_reconciledHead st else Some (sm_sequenceID (last ms)))))
    (\<lambda>e _. e \<noteq> OutOfFuel) st"
  using start
proof (induction ms arbitrary: st advanced)
  case (Cons m ms)
  have go: "ends (walk_messages (Suc n) E a ms)
    (\<lambda>r s. no_pending s \<and> (fst r = StopDrain \<longrightarrow> gp_stranded s)
       \<and> (fst r = NextFrame \<longrightarrow> gp_reconciledHead s
            = (if m # ms = [] then gp_reconciledHead st else Some (sm_sequenceID (last (m # ms))))))
    (\<lambda>e _. e \<noteq> OutOfFuel) s" if "stepped (sm_sequenceID m) (NextFrame, a) s" for a s
    by (rule ends_weaken [OF Cons.IH]) (use that in \<open>auto simp: stepped_def no_pending_def split: if_splits\<close>)
  show ?case
    unfolding walk_messages.simps ends_and_then
    by (rule ends_weaken [OF walk_message_step [OF law Cons.prems]])
      (use go in \<open>auto simp: not_stop stepped_def no_pending_def split: prod.splits\<close>)
qed (simp add: no_pending_def)

section \<open>A hub that serves a log\<close>

definition frames_after :: "sequence_id option \<Rightarrow> StoredMessage list \<Rightarrow> StoredMessage list" where
  "frames_after after served = (case after of None \<Rightarrow> served | Some a \<Rightarrow> filter (\<lambda>m. a < sm_sequenceID m) served)"

definition log_head :: "StoredMessage list \<Rightarrow> sequence_id option" where
  "log_head served = (if served = [] then None else Some (sm_sequenceID (last served)))"

text \<open>The cursors a walk from \<open>start\<close> comes to: the start itself, and positions past it.\<close>

definition at_or_past :: "sequence_id option \<Rightarrow> sequence_id option \<Rightarrow> bool" where
  "at_or_past start after \<longleftrightarrow> after = start
     \<or> (case after of None \<Rightarrow> False | Some a \<Rightarrow> (case start of None \<Rightarrow> True | Some c \<Rightarrow> c < a))"

definition serves :: "('h, 'w) peer_env \<Rightarrow> sequence_id option \<Rightarrow> StoredMessage list \<Rightarrow> bool" where
  "serves E start served \<longleftrightarrow> sorted_wrt (<) (map sm_sequenceID served)
   \<and> (\<forall>after limit w. at_or_past start after \<longrightarrow> (\<exists>oldest w'. ge_fetch E after limit w
     = (Inr \<lparr> fr_messages = take limit (frames_after after served), fr_head = log_head served, fr_oldest = oldest, fr_gap = False \<rparr>, w')))"

lemma at_or_past_page:
  assumes "at_or_past start after" "m \<in> set (frames_after after served)"
  shows "at_or_past start (Some (sm_sequenceID m))"
  using assms by (auto simp: at_or_past_def frames_after_def split: option.splits intro: order.strict_trans)

lemma strict_sorted_frames_after:
  "sorted_wrt (<) (map sm_sequenceID served) \<Longrightarrow> sorted_wrt (<) (map sm_sequenceID (frames_after after served))"
  by (auto simp: frames_after_def strict_sorted_iff sorted_filter distinct_map_filter split: option.splits)

lemma forward_page_some: "forward_page (Some p) qs \<longleftrightarrow> sorted_wrt (<) (p # qs)"
proof (induction qs arbitrary: p)
  case (Cons a qs)
  have "sorted_wrt (<) (p # a # qs) \<longleftrightarrow> p < a \<and> sorted_wrt (<) (a # qs)"
    by (rule sorted_wrt2) (rule transp_on_less)
  with Cons show ?case by (simp only: forward_page.simps option.simps)
qed simp

lemma forward_page_strict: "forward_page None qs \<longleftrightarrow> sorted_wrt (<) qs"
  by (cases qs) (simp_all add: forward_page_some del: sorted_wrt.simps(2))

lemma forward_frames_after:
  assumes "sorted_wrt (<) (map sm_sequenceID served)"
  shows "forward_page after (map sm_sequenceID (take k (frames_after after served)))"
proof -
  have sorted: "sorted_wrt (<) (map sm_sequenceID (take k (frames_after after served)))"
    using strict_sorted_frames_after [OF assms, of after] by (simp add: take_map flip: take_map)
  show ?thesis
  proof (cases after)
    case None with sorted show ?thesis by (simp add: forward_page_strict)
  next
    case (Some a)
    have "a < sm_sequenceID m" if "m \<in> set (take k (frames_after after served))" for m
      using that Some by (auto simp: frames_after_def dest: in_set_takeD)
    with sorted Some show ?thesis
      by (auto simp: forward_page_some)
  qed
qed

text \<open>The frames past the last of a page are what the page left of the frames before it.\<close>

lemma frames_after_page:
  assumes sorted: "sorted_wrt (<) (map sm_sequenceID served)" and k: "take k (frames_after after served) \<noteq> []"
  shows "frames_after (Some (sm_sequenceID (last (take k (frames_after after served))))) served = drop k (frames_after after served)"
proof -
  let ?rest = "frames_after after served" and ?a = "sm_sequenceID (last (take k (frames_after after served)))"
  have rest: "sorted_wrt (<) (map sm_sequenceID ?rest)" by (rule strict_sorted_frames_after [OF sorted])
  then have parts: "sorted_wrt (<) (map sm_sequenceID (take k ?rest) @ map sm_sequenceID (drop k ?rest))"
    by (simp flip: map_append)
  have above: "?a < sm_sequenceID m" if "m \<in> set (drop k ?rest)" for m
    using parts that last_in_set [OF k] by (auto simp: sorted_wrt_append)
  have below: "\<not> ?a < sm_sequenceID m" if "m \<in> set (take k ?rest)" for m
  proof -
    obtain xs where xs: "take k ?rest = xs @ [last (take k ?rest)]" using append_butlast_last_id [OF k] by metis
    have "sorted_wrt (<) (map sm_sequenceID (take k ?rest))" using parts by (simp add: sorted_wrt_append)
    then have "sorted_wrt (<) (map sm_sequenceID xs @ [?a])" using arg_cong [OF xs, of "map sm_sequenceID"] by simp
    with xs that have "m = last (take k ?rest) \<or> sm_sequenceID m < ?a"
      by (metis (no_types, lifting) Un_iff empty_iff image_eqI insert_iff list.set(1) list.set(2) list.set_map set_append sorted_wrt_append)
    then show ?thesis by auto
  qed
  have "last (take k ?rest) \<in> set ?rest" using last_in_set [OF k] by (auto dest: in_set_takeD)
  then have "filter (\<lambda>m. ?a < sm_sequenceID m) served = filter (\<lambda>m. ?a < sm_sequenceID m) ?rest"
    by (auto simp: frames_after_def intro!: filter_cong split: option.splits)
  also have "\<dots> = filter (\<lambda>m. ?a < sm_sequenceID m) (take k ?rest) @ filter (\<lambda>m. ?a < sm_sequenceID m) (drop k ?rest)"
    by (simp flip: filter_append)
  also have "\<dots> = drop k ?rest" using above below by (simp add: filter_True filter_False)
  finally show ?thesis by (simp add: frames_after_def)
qed

section \<open>The whole walk\<close>

text \<open>
  What a walk that returned has done to a handle: it enacted a front of the frames past the cursor, all of
  them unless the peer is stranded, and then it holds the tip and has nothing left to read.
\<close>

definition walked :: "('h, 'w) peer_env \<Rightarrow> StoredMessage list \<Rightarrow> StoredMessage list \<Rightarrow> 'h \<Rightarrow> ('h, 'w) peer \<Rightarrow> bool" where
  "walked E served rest h s \<longleftrightarrow> (\<exists>k \<le> length rest. gp_handle s = enact_log E (take k rest) h
      \<and> (k = length rest \<or> gp_stranded s))
   \<and> (gp_stranded s \<or> gp_commitLogHead s = log_head served \<and> frames_after (gp_reconciledHead s) served = [])"

lemma takeHead_result:
  "ends (takeHead started covered advanced head)
     (\<lambda>_ s. gp_handle s = gp_handle st \<and> gp_stranded s = gp_stranded st
        \<and> gp_reconciledHead s = gp_reconciledHead st \<and> gp_commitLogHead s = head) R st"
  by (simp add: takeHead_def)

lemma walk_page_result:
  assumes law: "answers_own_epoch E" and served: "sorted_wrt (<) (map sm_sequenceID served)"
    and start: "no_pending st" "gp_handle st = h" "gp_reconciledHead st = after"
    and page: "fr_messages result = take COMMIT_FETCH_LIMIT (frames_after after served)" "fr_head result = log_head served"
    and next_page: "\<And>s adv h'. no_pending s \<Longrightarrow> gp_handle s = h' \<Longrightarrow>
        frames_after (gp_reconciledHead s) served = drop COMMIT_FETCH_LIMIT (frames_after after served) \<Longrightarrow>
        COMMIT_FETCH_LIMIT \<le> length (frames_after after served) \<Longrightarrow>
        \<exists>m \<in> set (frames_after after served). gp_reconciledHead s = Some (sm_sequenceID m) \<Longrightarrow>
        ends (continue adv) (\<lambda>_. walked E served (drop COMMIT_FETCH_LIMIT (frames_after after served)) h') (\<lambda>e _. e \<noteq> OutOfFuel) s"
  shows "ends (walk_page (Suc n) E started covered advanced after result continue)
    (\<lambda>_. walked E served (frames_after after served) h) (\<lambda>e _. e \<noteq> OutOfFuel) st"
proof -
  let ?rest = "frames_after after served" and ?L = COMMIT_FETCH_LIMIT
  have L: "0 < ?L" by (simp add: COMMIT_FETCH_LIMIT_def)
  have forward: "forward_page after (map sm_sequenceID (take ?L ?rest))" by (rule forward_frames_after [OF served])
  show ?thesis
  proof (cases "?rest = []")
    case True
    then show ?thesis
      using start by (auto simp: walk_page_def Let_def page L walked_def COMMIT_FETCH_LIMIT_def
          intro!: ends_weaken [OF takeHead_result])
  next
    case False
    have at: "at_handle h st" using start by (simp add: at_handle_def)
    have both: "ends (walk_messages (Suc n) E advanced (take ?L ?rest))
      (\<lambda>r s. (no_pending s \<and> (fst r = StopDrain \<longrightarrow> gp_stranded s)
          \<and> (fst r = NextFrame \<longrightarrow> gp_reconciledHead s
              = (if take ?L ?rest = [] then gp_reconciledHead st else Some (sm_sequenceID (last (take ?L ?rest))))))
        \<and> (\<exists>k \<le> length (take ?L ?rest). at_handle (enact_log E (take k (take ?L ?rest)) h) s
            \<and> (fst r = NextFrame \<longrightarrow> k = length (take ?L ?rest))))
      (\<lambda>e _. e \<noteq> OutOfFuel \<and> True) st"
      using walk_messages_step [OF law start(1)] walk_messages_handle [OF law at] by (simp only: ends_conj)
    have stop: "walked E served ?rest h s"
      if "gp_stranded s" "k \<le> length (take ?L ?rest)" "at_handle (enact_log E (take k (take ?L ?rest)) h) s" for s k
      using that by (auto simp: walked_def at_handle_def min_def intro!: exI [of _ k] split: if_splits)
    have tip: "walked E served ?rest h s"
      if "length ?rest < ?L" "gp_handle s = enact_log E (take ?L ?rest) h" "gp_commitLogHead s = log_head served"
        "gp_reconciledHead s = Some (sm_sequenceID (last (take ?L ?rest)))" for s
      using that False frames_after_page [OF served, of ?L after] L
      by (auto simp: walked_def intro!: exI [of _ "length ?rest"])
    have more: "walked E served (drop ?L ?rest) (enact_log E (take ?L ?rest) h) s \<Longrightarrow> walked E served ?rest h s"
      if "?L \<le> length ?rest" for s
    proof -
      assume "walked E served (drop ?L ?rest) (enact_log E (take ?L ?rest) h) s"
      then obtain k where k: "k \<le> length (drop ?L ?rest)" "k = length (drop ?L ?rest) \<or> gp_stranded s"
        and handle: "gp_handle s = enact_log E (take k (drop ?L ?rest)) (enact_log E (take ?L ?rest) h)"
        and tip: "gp_stranded s \<or> gp_commitLogHead s = log_head served \<and> frames_after (gp_reconciledHead s) served = []"
        by (auto simp: walked_def)
      have "gp_handle s = enact_log E (take (?L + k) ?rest) h" using handle by (simp add: take_add)
      then show ?thesis using k tip that by (auto simp: walked_def intro!: exI [of _ "?L + k"])
    qed
    have ne: "take ?L ?rest \<noteq> []" using False L by simp
    have done_page: "ends (case r of (next, advanced) \<Rightarrow>
          if next = StopDrain then give advanced
          else if length (take ?L ?rest) < ?L
          then and_then (takeHead started covered advanced (log_head served)) (\<lambda>_. give advanced)
          else continue advanced) (\<lambda>_. walked E served ?rest h) (\<lambda>e _. e \<noteq> OutOfFuel) s"
      if r: "(no_pending s \<and> (fst r = StopDrain \<longrightarrow> gp_stranded s)
          \<and> (fst r = NextFrame \<longrightarrow> gp_reconciledHead s
              = (if take ?L ?rest = [] then gp_reconciledHead st else Some (sm_sequenceID (last (take ?L ?rest))))))
        \<and> (\<exists>k \<le> length (take ?L ?rest). at_handle (enact_log E (take k (take ?L ?rest)) h) s
            \<and> (fst r = NextFrame \<longrightarrow> k = length (take ?L ?rest)))" for r :: "walk_next \<times> bool" and s :: "('a, 'b) peer"
    proof (cases r)
      case (Pair "next" adv)
      show ?thesis
      proof (cases "next")
        case StopDrain
        then show ?thesis using r Pair stop by auto
      next
        case NextFrame
        then have head: "gp_reconciledHead s = Some (sm_sequenceID (last (take ?L ?rest)))"
          and handle: "gp_handle s = enact_log E (take ?L ?rest) h" and pend: "no_pending s"
          using r Pair ne by (auto simp: at_handle_def min_def split: if_splits)
        show ?thesis
        proof (cases "length (take ?L ?rest) < ?L")
          case True
          then show ?thesis
            using NextFrame Pair head handle tip
            by (auto intro!: ends_weaken [OF takeHead_result])
        next
          case long: False
          then have "?L \<le> length ?rest" by simp
          moreover have "frames_after (gp_reconciledHead s) served = drop ?L ?rest"
            unfolding head by (rule frames_after_page [OF served ne])
          moreover have "\<exists>m \<in> set ?rest. gp_reconciledHead s = Some (sm_sequenceID m)"
            using head last_in_set [OF ne] by (auto dest: in_set_takeD)
          ultimately show ?thesis
            using NextFrame Pair long by (auto intro!: ends_weaken [OF next_page [OF pend handle]] more)
        qed
      qed
    qed
    show ?thesis
      unfolding walk_page_def Let_def page
      by (simp only: forward ne simp_thms if_False ends_and_then [of "walk_messages (Suc n) E advanced (take ?L ?rest)"])
        (rule ends_weaken [OF both], erule done_page, simp)
  qed
qed

text \<open>
  Against a hub that serves the log, as many pages as the log has hundreds, and one more, are enough: the
  walk ends, and it has done what the log says.
\<close>

lemma walk_pages_result:
  assumes law: "answers_own_epoch E" and hub: "serves E start served"
  shows "at_or_past start (gp_reconciledHead st) \<Longrightarrow> no_pending st \<Longrightarrow> length (frames_after (gp_reconciledHead st) served) < COMMIT_FETCH_LIMIT * pages \<Longrightarrow>
    ends (walk_pages pages (Suc n) E started covered advanced)
      (\<lambda>_. walked E served (frames_after (gp_reconciledHead st) served) (gp_handle st)) (\<lambda>e _. e \<noteq> OutOfFuel) st"
proof (induction pages arbitrary: st covered advanced)
  case (Suc pages)
  let ?after = "gp_reconciledHead st"
  have sorted: "sorted_wrt (<) (map sm_sequenceID served)" using hub by (simp add: serves_def)
  obtain oldest w' where fetch: "ge_fetch E ?after COMMIT_FETCH_LIMIT (gp_world st)
     = (Inr \<lparr> fr_messages = take COMMIT_FETCH_LIMIT (frames_after ?after served), fr_head = log_head served,
              fr_oldest = oldest, fr_gap = False \<rparr>, w')" (is "_ = (Inr ?result, _)")
    using hub Suc.prems(1) unfolding serves_def by meson
  have page: "ends (walk_page (Suc n) E started covered advanced ?after ?result (walk_pages pages (Suc n) E started covered))
      (\<lambda>_. walked E served (frames_after ?after served) (gp_handle st)) (\<lambda>e _. e \<noteq> OutOfFuel) (st \<lparr> gp_world := w' \<rparr>)"
    for covered
  proof (rule walk_page_result [OF law sorted])
    fix s :: "('a, 'b) peer" and adv h'
    assume s: "no_pending s" "gp_handle s = h'"
      "frames_after (gp_reconciledHead s) served = drop COMMIT_FETCH_LIMIT (frames_after ?after served)"
      "COMMIT_FETCH_LIMIT \<le> length (frames_after ?after served)"
      "\<exists>m \<in> set (frames_after ?after served). gp_reconciledHead s = Some (sm_sequenceID m)"
    then have past: "at_or_past start (gp_reconciledHead s)" using at_or_past_page [OF Suc.prems(1)] by auto
    from s have "length (frames_after (gp_reconciledHead s) served) < COMMIT_FETCH_LIMIT * pages"
      using Suc.prems(3) by (simp add: COMMIT_FETCH_LIMIT_def)
    from Suc.IH [OF past s(1) this] s(2,3)
    show "ends (walk_pages pages (Suc n) E started covered adv)
      (\<lambda>_. walked E served (drop COMMIT_FETCH_LIMIT (frames_after ?after served)) h') (\<lambda>e _. e \<noteq> OutOfFuel) s"
      by simp
  qed (use Suc.prems(2) in \<open>simp_all add: no_pending_def\<close>)
  have no_gap: "\<not> page_gap (Some p) ?result" if "?after = Some p" for p
  proof -
    have "\<not> p < h" if "frames_after (Some p) served = []" "log_head served = Some h" for h
      using that last_in_set [of served] by (auto simp: frames_after_def log_head_def filter_empty_conv split: if_splits)
    then show ?thesis
      using that by (auto simp: page_gap_def COMMIT_FETCH_LIMIT_def split: option.splits)
  qed
  show ?case
  proof (cases ?after)
    case None
    then show ?thesis using page [of covered] fetch by (simp add: Let_def)
  next
    case (Some p)
    then show ?thesis using page [of covered] fetch no_gap [OF Some] by (simp add: Let_def)
  qed
qed simp

end
