(* ===== verification/Peer_Hub.thy ===== *)
theory Peer_Hub
  imports Memory_Props SQL_Props Walk_Complete
begin

text \<open>
  The walk of a peer over a hub store: any store that keeps the contract of a topic log serves the accepted
  history past a cursor as long as it removed nothing past it, whatever the page size. The two stores
  interpret the contract, so the walk is proved once for both.
\<close>

definition log_page :: "did \<Rightarrow> topic_id \<Rightarrow> sequence_id option \<Rightarrow> nat \<Rightarrow> FetchTopicParams" where
  "log_page self t after limit =
     \<lparr> ft_subscriberDID = self, ft_topicID = t, ft_after = after, ft_limit = Some limit \<rparr>"

text \<open>The hub of the peer is a store that stays as it is while the peer walks.\<close>

definition fetches_from ::
  "('h, 'w) peer_env \<Rightarrow> (FetchTopicParams \<Rightarrow> 's \<Rightarrow> js_error + FetchTopicResult) \<Rightarrow> 's \<Rightarrow> topic_id \<Rightarrow> bool" where
  "fetches_from E fetchTopic s t \<longleftrightarrow>
     (\<forall>after limit w. ge_fetch E after limit w = (fetchTopic (log_page (ge_localDID E) t after limit) s, w))"

lemma past_at_or_past: "at_or_past start after \<Longrightarrow> past_cursor after q \<Longrightarrow> past_cursor start q"
  by (auto simp: at_or_past_def past_cursor_def split: option.splits)

lemma frames_after_past: "frames_after after served = filter (\<lambda>m. past_cursor after (sm_sequenceID m)) served"
  by (simp add: frames_after_def past_cursor_def split: option.splits)

context hub_log_store begin

lemma store_serves:
  assumes reached: "hub_run publish maintain init no_history s H" "room s"
    and hub: "fetches_from E fetchTopic s t" and member: "subscribed s t (ge_localDID E)"
    and kept: "\<forall>m \<in> set (H t). past_cursor start (sm_sequenceID m) \<longrightarrow> m \<in> set (log_of s t)"
  shows "serves E start (H t)"
proof -
  have "\<exists>oldest. fetchTopic (log_page (ge_localDID E) t after limit) s
      = Inr \<lparr> fr_messages = take limit (frames_after after (H t)), fr_head = log_head (H t),
              fr_oldest = oldest, fr_gap = False \<rparr>" if after: "at_or_past start after" for after limit
  proof -
    let ?f = "log_page (ge_localDID E) t after limit"
    have "\<exists>r. fetchTopic ?f s = Inr r"
      using fetch_subscribed [OF run_from_init_keeps(1) [OF reached], of ?f] member by (simp add: log_page_def)
    then obtain r :: FetchTopicResult where r: "fetchTopic ?f s = Inr r" by blast
    have gap: "\<not> fr_gap r"
      using fetch_gap_exact [OF reached r] kept past_at_or_past [OF after] by (auto simp: log_page_def)
    have "fr_messages r = take limit (frames_after after (H t))"
      using fetch_no_gap_complete [OF reached r gap] by (simp add: log_page_def frames_after_past)
    moreover have "fr_head r = log_head (H t)"
      using fetch_head_stored [OF reached r] by (simp add: log_page_def log_head_def)
    ultimately show ?thesis using r gap by (cases r) auto
  qed
  moreover have "sorted_wrt (<) (map sm_sequenceID (H t))"
    using run_from_init_keeps(2) [OF reached] by (simp add: keeps_def)
  ultimately show ?thesis
    using hub by (simp add: serves_def fetches_from_def)
qed

lemma store_walk:
  assumes "hub_run publish maintain init no_history s H" "room s"
    and "fetches_from E fetchTopic s t" "subscribed s t (ge_localDID E)"
    and "\<forall>m \<in> set (H t). past_cursor (gp_reconciledHead st) (sm_sequenceID m) \<longrightarrow> m \<in> set (log_of s t)"
    and "answers_own_epoch E" "gp_pendingRecovery st = None" "\<not> gp_anchorRecoveryPending st"
    and "length (H t) < COMMIT_FETCH_LIMIT * pages"
  shows "ends (walkCommits pages (Suc n) E started)
    (\<lambda>_. walked E (H t) (frames_after (gp_reconciledHead st) (H t)) (gp_handle st)) (\<lambda>e _. e \<noteq> OutOfFuel) st"
proof -
  have "length (frames_after (gp_reconciledHead st) (H t)) \<le> length (H t)"
    by (simp add: frames_after_past)
  then show ?thesis
    using walk_pages_result [OF assms(6) store_serves [OF assms(1-5)], of st pages] assms(7-9)
    by (simp add: walkCommits_def at_or_past_def no_pending_def)
qed

end

end
