(* ===== verification/Commit_Journal.thy ===== *)
theory Commit_Journal
  imports Commit_Walk
begin

text \<open>
  Committing to the group, \<^verbatim>\<open>packages/rpc/src/peer.ts\<close> with the journal of \<^verbatim>\<open>commit.ts\<close>: a commit is written to
  the host's single slot before it is published against the head the walk took, its acceptance is written
  there before the host adopts it, and every later operation settles the slot first. The repair of an
  incomplete ledger is here as far as the peer decides it; the exchange with the members that answer is the
  call \<open>ge_gather\<close>.
\<close>

definition COMMIT_ATTEMPT_CEILING :: nat where "COMMIT_ATTEMPT_CEILING = 1000"

definition isHeadMismatch :: "js_error \<Rightarrow> bool" where
  "isHeadMismatch e = (case e of HubError HeadMismatchError _ \<Rightarrow> True | _ \<Rightarrow> False)"

section \<open>The slot\<close>

text \<open>
  A write for an entry the slot no longer holds does nothing. The peer remembers which entry holds the
  submissions of the app log back.
\<close>

definition held_id :: "JournalEntry option \<Rightarrow> string option" where
  "held_id entry = (case entry of None \<Rightarrow> None | Some e \<Rightarrow> if je_holdsLogSends e then Some (je_publishID e) else None)"

definition slot_get :: "('h, 'w) peer_env \<Rightarrow> ('h, 'w, JournalEntry option) lane" where
  "slot_get E = and_then (host_write E (\<lambda>s. s)) (\<lambda>_. reading (\<lambda>st.
     and_then (change (\<lambda>s. s \<lparr> gp_heldJournalID := held_id (gp_slot s) \<rparr>)) (\<lambda>_.
       give (gp_slot st))))"

definition slot_put :: "('h, 'w) peer_env \<Rightarrow> JournalEntry \<Rightarrow> ('h, 'w, unit) lane" where
  "slot_put E entry = and_then (host_write E (\<lambda>s. s \<lparr> gp_slot := Some entry \<rparr>)) (\<lambda>_.
     change (\<lambda>s. s \<lparr> gp_heldJournalID := held_id (Some entry) \<rparr>))"

definition mark_entry :: "string \<Rightarrow> sequence_id \<Rightarrow> JournalEntry option \<Rightarrow> JournalEntry option" where
  "mark_entry publishID q entry = (case entry of None \<Rightarrow> None
     | Some e \<Rightarrow> Some (if je_publishID e = publishID then e \<lparr> je_acceptedAs := Some q \<rparr> else e))"

definition slot_markAccepted :: "('h, 'w) peer_env \<Rightarrow> string \<Rightarrow> sequence_id \<Rightarrow> ('h, 'w, unit) lane" where
  "slot_markAccepted E publishID q = host_write E (\<lambda>s. s \<lparr> gp_slot := mark_entry publishID q (gp_slot s) \<rparr>)"

definition clear_entry :: "string \<Rightarrow> JournalEntry option \<Rightarrow> JournalEntry option" where
  "clear_entry publishID entry = (case entry of None \<Rightarrow> None
     | Some e \<Rightarrow> if je_publishID e = publishID then None else Some e)"

definition slot_clear :: "('h, 'w) peer_env \<Rightarrow> string \<Rightarrow> ('h, 'w, unit) lane" where
  "slot_clear E publishID =
     and_then (host_write E (\<lambda>s. s \<lparr> gp_slot := clear_entry publishID (gp_slot s) \<rparr>)) (\<lambda>_.
     and_then (change (\<lambda>s. if gp_heldJournalID s = Some publishID then s \<lparr> gp_heldJournalID := None \<rparr> else s)) (\<lambda>_.
       signal TriggerDelivery))"

definition logSendsHeld :: "('h, 'w) peer \<Rightarrow> bool" where
  "logSendsHeld st \<longleftrightarrow> 0 < gp_revokeHolds st \<or> gp_heldJournalID st \<noteq> None"

section \<open>Framing, publishing, adopting\<close>

definition frameCommit ::
  "('h, 'w) peer_env \<Rightarrow> bytes \<Rightarrow> string list \<Rightarrow> nat option \<Rightarrow> ('h, 'w, bytes \<times> nat) lane" where
  "frameCommit E commit bodies framedAt = reading (\<lambda>st.
     let sealedEntries = ge_sealEntries E (gp_handle st) (encodeLedgerEntries bodies);
         epoch = ge_epoch E (gp_handle st)
     in if framedAt \<noteq> None \<and> framedAt \<noteq> Some epoch then fail FramedElsewhere
        else (case encodeHandshakeFrame Commit (encodeCommitFrame \<lparr> cf_commit = commit, cf_sealedEntries = sealedEntries \<rparr>) of
            Inl e \<Rightarrow> fail (FrameError e)
          | Inr payload \<Rightarrow> (case assertFrameFits payload of
                Inl e \<Rightarrow> fail (FrameError e)
              | Inr _ \<Rightarrow> give (payload, epoch))))"

text \<open>The answer of the hub, or the error it threw, as a value.\<close>

definition publish_frame ::
  "('h, 'w) peer_env \<Rightarrow> bytes \<Rightarrow> sequence_id option \<Rightarrow> string \<Rightarrow> ('h, 'w, js_error + sequence_id) lane" where
  "publish_frame E payload expectedHead publishID st = (case ge_publish E payload expectedHead publishID (gp_world st) of
       (answer, w) \<Rightarrow> (Inr answer, st \<lparr> gp_world := w \<rparr>))"

definition fresh_id :: "('h, 'w) peer_env \<Rightarrow> ('h, 'w, string) lane" where
  "fresh_id E st = (case ge_publishID E (gp_world st) of (i, w) \<Rightarrow> (Inr i, st \<lparr> gp_world := w \<rparr>))"

text \<open>The host takes the handle forward, or throws before or after it did.\<close>

definition adopt :: "('h \<Rightarrow> bool \<times> 'h) \<Rightarrow> bytes \<Rightarrow> ('h, 'w, unit) lane" where
  "adopt host journal = reading (\<lambda>st. case host (gp_handle st) of (ok, h) \<Rightarrow>
     and_then (change (\<lambda>s. s \<lparr> gp_handle := h \<rparr>)) (\<lambda>_.
     and_then (signal (Adopted journal)) (\<lambda>_.
     if ok then give () else fail HostError)))"

text \<open>The peer's own accepted frame is the last one it processed and the tip of the log.\<close>

definition accept_position :: "('h, 'w) peer_env \<Rightarrow> nat \<Rightarrow> bytes \<Rightarrow> sequence_id \<Rightarrow> ('h, 'w, unit) lane" where
  "accept_position E epoch commit q = change (\<lambda>s. s \<lparr> gp_reconciledHead := Some q, gp_commitLogHead := Some q,
     gp_appliedByEpoch := (gp_appliedByEpoch s)(epoch \<mapsto>
       \<lparr> ac_sequenceID = q, ac_digest = digestAppliedCommit (ge_digest E) commit \<rparr>) \<rparr>)"

definition commit_identity :: "('h, 'w) peer_env \<Rightarrow> nat \<Rightarrow> bytes \<Rightarrow> AdvanceIdentity" where
  "commit_identity E epoch commit = \<lparr> ai_epochAfter = epoch + 1, ai_forced = False,
     ai_advance = digestAppliedCommit (ge_digest E) commit, ai_recovery = False \<rparr>"

section \<open>Step 0 of every operation\<close>

definition adopt_entry :: "('h, 'w) peer_env \<Rightarrow> JournalEntry \<Rightarrow> sequence_id \<Rightarrow> ('h, 'w, bool) lane" where
  "adopt_entry E entry q =
     and_then (accept_position E (je_epoch entry) (je_commit entry) q) (\<lambda>_.
     and_then (advanceHandle E (adopt (ge_adoptJournalled E (je_journal entry)) (je_journal entry))
                 (commit_identity E (je_epoch entry) (je_commit entry)) (Some q)) (\<lambda>_.
     and_then (slot_clear E (je_publishID entry)) (\<lambda>_.
       give True)))"

definition lost_of :: "JournalEntry \<Rightarrow> LostCommit" where
  "lost_of entry = (if je_kind entry = LedgerCommit then LostLedger (je_bodies entry) (je_journal entry)
     else LostOther (je_kind entry) (je_journal entry))"

text \<open>The outcome of the entry is unknown: it is published again under its own id and head.\<close>

definition republish :: "('h, 'w) peer_env \<Rightarrow> JournalEntry \<Rightarrow> ('h, 'w, bool) lane" where
  "republish E entry = reading (\<lambda>st.
     if ge_epoch E (gp_handle st) \<noteq> je_epoch entry
     then fail (JournalEpochError (je_epoch entry) (ge_epoch E (gp_handle st)))
     else and_then (frameCommit E (je_commit entry) (je_bodies entry) (Some (je_epoch entry))) (\<lambda>(payload, _).
          and_then (publish_frame E payload (je_expectedHead entry) (je_publishID entry)) (\<lambda>answer.
          case answer of
            Inl e \<Rightarrow>
              if \<not> isHeadMismatch e then fail (HubThrew e)
              else and_then (slot_clear E (je_publishID entry)) (\<lambda>_.
                   and_then (change (\<lambda>s. s \<lparr> gp_lostCommit := Some (lost_of entry) \<rparr>)) (\<lambda>_.
                     give False))
          | Inr q \<Rightarrow>
              and_then (slot_markAccepted E (je_publishID entry) q) (\<lambda>_.
                adopt_entry E entry q))))"

definition replayJournal :: "('h, 'w) peer_env \<Rightarrow> ('h, 'w, bool) lane" where
  "replayJournal E =
     and_then (change (\<lambda>s. s \<lparr> gp_journalReplayed := True \<rparr>)) (\<lambda>_. reading (\<lambda>st.
     if gp_anchorRecoveryPending st then give False
     else and_then (slot_get E) (\<lambda>slot.
     case slot of
       None \<Rightarrow> give False
     | Some entry \<Rightarrow>
         and_then (if je_holdsLogSends entry then signal SettleSubmissions else give ()) (\<lambda>_.
         case je_acceptedAs entry of
           Some q \<Rightarrow> adopt_entry E entry q
         | None \<Rightarrow> republish E entry))))"

record LaneResult =
  lr_lost :: "LostCommit option"
  lr_reenact :: "string list"

definition takeLost :: "('h, 'w, LaneResult) lane" where
  "takeLost = reading (\<lambda>st.
     and_then (change (\<lambda>s. s \<lparr> gp_lostCommit := None, gp_pendingReenact := [] \<rparr>)) (\<lambda>_.
       give \<lparr> lr_lost = gp_lostCommit st, lr_reenact = gp_pendingReenact st \<rparr>))"

section \<open>The ledger of a rejoined peer\<close>

definition repairRejoin :: "('h, 'w) peer_env \<Rightarrow> ('h, 'w, unit) lane" where
  "repairRejoin E = reading (\<lambda>st.
     if gp_awaitingBootstrap st = None then give ()
     else and_then (resolveAnchorRotation E False False False) (\<lambda>_. reading (\<lambda>st.
       if gp_rejoinRuntimeNeedsBuild st
       then and_then (rebuildEpoch E) (\<lambda>_. change (\<lambda>s. s \<lparr> gp_rejoinRuntimeNeedsBuild := False \<rparr>))
       else give ())))"

definition finalizeBootstrap :: "('h, 'w) peer_env \<Rightarrow> ('h, 'w, unit) lane" where
  "finalizeBootstrap E = reading (\<lambda>st.
     case gp_awaitingBootstrap st of
       None \<Rightarrow> give ()
     | Some entries \<Rightarrow>
         and_then (repairRejoin E) (\<lambda>_. reading (\<lambda>st.
         let owed = filter (\<lambda>token. token \<notin> set (ge_ledger E (gp_handle st))) entries in
         and_then (change (\<lambda>s. s \<lparr> gp_pendingReenact := gp_pendingReenact s @ owed,
           gp_awaitingBootstrap := None, gp_inFlightEntries := None,
           gp_healRequested := gp_healRequested s \<and> \<not> gp_bootstrapHealRequested s,
           gp_bootstrapHealRequested := False,
           gp_recoveryGeneration := Suc (gp_recoveryGeneration s), gp_episode := None \<rparr>)) (\<lambda>_.
         signal RequestAppPull))))"

definition ensureLedger :: "('h, 'w) peer_env \<Rightarrow> ('h, 'w, bool) lane" where
  "ensureLedger E =
     and_then (repairRejoin E) (\<lambda>_. reading (\<lambda>st.
     if ge_ledgerComplete E (gp_handle st) then give True
     else (case ge_gather E (gp_handle st) (gp_world st) of ((gathered, h), w) \<Rightarrow>
       and_then (change (\<lambda>s. s \<lparr> gp_handle := h, gp_world := w \<rparr>)) (\<lambda>_.
         give gathered))))"

section \<open>The commit\<close>

text \<open>What one attempt comes to: the commit landed, or the head moved first.\<close>

datatype attempt = Landed | LostRace

definition build_commit :: "('h, 'w) peer_env \<Rightarrow> ('h, 'w, PendingCommit) lane" where
  "build_commit E = reading (\<lambda>st. case ge_build E (gp_handle st) (gp_world st) of (pending, w) \<Rightarrow>
     and_then (change (\<lambda>s. s \<lparr> gp_world := w \<rparr>)) (\<lambda>_.
     case pending of None \<Rightarrow> fail HostError | Some p \<Rightarrow> give p))"

definition journal_entry ::
  "string \<Rightarrow> sequence_id option \<Rightarrow> nat \<Rightarrow> bool \<Rightarrow> PendingCommit \<Rightarrow> JournalEntry" where
  "journal_entry publishID expectedHead epoch holds pending =
     \<lparr> je_publishID = publishID, je_expectedHead = expectedHead, je_epoch = epoch, je_holdsLogSends = holds,
       je_acceptedAs = None, je_commit = pc_commit pending, je_bodies = pc_bodies pending,
       je_kind = pc_kind pending, je_journal = pc_journal pending \<rparr>"

definition land_commit ::
  "('h, 'w) peer_env \<Rightarrow> PendingCommit \<Rightarrow> string \<Rightarrow> nat \<Rightarrow> sequence_id \<Rightarrow> ('h, 'w, unit) lane" where
  "land_commit E pending publishID framedEpoch q =
     and_then (slot_markAccepted E publishID q) (\<lambda>_.
     and_then (accept_position E framedEpoch (pc_commit pending) q) (\<lambda>_.
     and_then (advanceHandle E (adopt (ge_onAccepted E pending) (pc_journal pending))
                 (commit_identity E framedEpoch (pc_commit pending)) (Some q)) (\<lambda>_.
     and_then (slot_clear E publishID) (\<lambda>_.
       rebuildEpoch E))))"

text \<open>Steps 3 to 6 of an attempt, from the built commit on.\<close>

definition publish_commit ::
  "('h, 'w) peer_env \<Rightarrow> bool \<Rightarrow> PendingCommit \<Rightarrow> string \<Rightarrow> ('h, 'w, attempt) lane" where
  "publish_commit E holds pending publishID = reading (\<lambda>st.
     let expectedHead = gp_commitLogHead st in
     and_then (frameCommit E (pc_commit pending) (pc_bodies pending)
                 (ge_frameEpoch E (gp_handle st) (pc_commit pending))) (\<lambda>(payload, framedEpoch).
     and_then (if holds then signal SettleSubmissions else give ()) (\<lambda>_.
     and_then (slot_put E (journal_entry publishID expectedHead framedEpoch holds pending)) (\<lambda>_.
     and_then (publish_frame E payload expectedHead publishID) (\<lambda>answer.
     case answer of
       Inl e \<Rightarrow> if \<not> isHeadMismatch e then fail (HubThrew e)
                else and_then (slot_clear E publishID) (\<lambda>_. give LostRace)
     | Inr q \<Rightarrow> and_then (land_commit E pending publishID framedEpoch q) (\<lambda>_. give Landed))))))"

definition commit_attempt :: "nat \<Rightarrow> nat \<Rightarrow> ('h, 'w) peer_env \<Rightarrow> nat \<Rightarrow> bool \<Rightarrow> ('h, 'w, attempt) lane" where
  "commit_attempt pages n E started holds =
     and_then (reconcileCommits pages n E started) (\<lambda>_. reading (\<lambda>st.
     if gp_stranded st \<or> gp_anchorRecoveryPending st then fail RecoveryRequiredError
     else and_then (build_commit E) (\<lambda>pending.
          and_then (fresh_id E) (\<lambda>publishID.
            publish_commit E holds pending publishID))))"

primrec commit_attempts :: "nat \<Rightarrow> nat \<Rightarrow> nat \<Rightarrow> ('h, 'w) peer_env \<Rightarrow> nat \<Rightarrow> bool \<Rightarrow> int \<Rightarrow> ('h, 'w, LaneResult) lane" where
  "commit_attempts 0 pages n E started holds deadline = fail CommitDeadlineError"
| "commit_attempts (Suc left) pages n E started holds deadline =
     and_then (commit_attempt pages n E started holds) (\<lambda>outcome.
     case outcome of
       Landed \<Rightarrow> takeLost
     | LostRace \<Rightarrow> reading (\<lambda>st.
         if deadline \<le> ge_now E (gp_world st) then fail CommitDeadlineError
         else commit_attempts left pages n E started holds deadline))"

definition commitHeld :: "nat \<Rightarrow> nat \<Rightarrow> ('h, 'w) peer_env \<Rightarrow> nat \<Rightarrow> bool \<Rightarrow> ('h, 'w, LaneResult) lane" where
  "commitHeld pages n E started holds = reading (\<lambda>st.
     if gp_anchorRecoveryPending st then fail RecoveryRequiredError
     else and_then (replayJournal E) (\<lambda>replayed.
     and_then (if replayed then rebuildEpoch E else give ()) (\<lambda>_.
     and_then (ensureLedger E) (\<lambda>gathered.
     if \<not> gathered then fail RecoveryRequiredError
     else and_then (finalizeBootstrap E) (\<lambda>_. reading (\<lambda>st.
       commit_attempts COMMIT_ATTEMPT_CEILING pages n E started holds
         (ge_now E (gp_world st) + ge_commitDeadlineMs E)))))))"

text \<open>\<^verbatim>\<open>commit\<close> counts a holding commit for as long as it runs, however it ends.\<close>

definition commit_op :: "nat \<Rightarrow> nat \<Rightarrow> ('h, 'w) peer_env \<Rightarrow> nat \<Rightarrow> bool \<Rightarrow> ('h, 'w, LaneResult) lane" where
  "commit_op pages n E started holds =
     (let release = and_then (change (\<lambda>s. if holds then s \<lparr> gp_revokeHolds := gp_revokeHolds s - 1 \<rparr> else s))
                      (\<lambda>_. signal TriggerDelivery)
      in and_then (change (\<lambda>s. if holds then s \<lparr> gp_revokeHolds := Suc (gp_revokeHolds s) \<rparr> else s)) (\<lambda>_.
         catching (and_then (commitHeld pages n E started holds) (\<lambda>result. and_then release (\<lambda>_. give result)))
           (\<lambda>e. and_then release (\<lambda>_. fail e))))"

definition replay_op :: "('h, 'w) peer_env \<Rightarrow> ('h, 'w, LaneResult) lane" where
  "replay_op E =
     and_then (replayJournal E) (\<lambda>replayed.
     and_then (if replayed then rebuildEpoch E else give ()) (\<lambda>_.
     and_then (ensureLedger E) (\<lambda>gathered.
     and_then (if gathered then finalizeBootstrap E else give ()) (\<lambda>_.
       takeLost))))"

end
