(* ===== verification/Journal_Laws.thy ===== *)
theory Journal_Laws
  imports Walk_Laws Commit_Journal
begin

text \<open>
  What the journal of a commit is for. The interface to the hub is a locale: the position it recorded for a
  publish id, which an answered publish sets, which no call takes back, and which a lost race excludes. Over
  any such hub a commit that is interrupted anywhere leaves a slot that tells the next process what is due.
\<close>

section \<open>What the lane did with one commit\<close>

fun adoption_of :: "lane_signal \<Rightarrow> bytes option" where
  "adoption_of (Adopted journal) = Some journal"
| "adoption_of _ = None"

definition adoptions :: "('h, 'w) peer \<Rightarrow> bytes list" where
  "adoptions st = List.map_filter adoption_of (gp_signals st)"

lemma map_filter_append: "List.map_filter f (xs @ ys) = List.map_filter f xs @ List.map_filter f ys"
  by (simp add: List.map_filter_def)

lemma adoptions_signal [simp]:
  "adoptions (st \<lparr> gp_signals := gp_signals st @ [s] \<rparr>)
     = adoptions st @ (case adoption_of s of None \<Rightarrow> [] | Some j \<Rightarrow> [j])"
  by (simp add: adoptions_def map_filter_append List.map_filter_def split: option.split)

text \<open>
  Where a commit stands, by its entry, the adoptions before it and the record of the hub: not accepted and
  so not adopted, accepted with the slot still naming it, or adopted.
\<close>

datatype fate = Unpublished | Published sequence_id | AdoptedAt sequence_id

fun in_fate ::
  "('w \<Rightarrow> string \<Rightarrow> sequence_id option) \<Rightarrow> JournalEntry \<Rightarrow> bytes list \<Rightarrow> fate \<Rightarrow> ('h, 'w) peer \<Rightarrow> bool" where
  "in_fate accepted e before Unpublished st \<longleftrightarrow> accepted (gp_world st) (je_publishID e) = None
     \<and> (gp_slot st = None \<or> gp_slot st = Some e) \<and> adoptions st = before"
| "in_fate accepted e before (Published q) st \<longleftrightarrow> accepted (gp_world st) (je_publishID e) = Some q
     \<and> (gp_slot st = Some e \<or> gp_slot st = Some (e \<lparr> je_acceptedAs := Some q \<rparr>)) \<and> adoptions st = before"
| "in_fate accepted e before (AdoptedAt q) st \<longleftrightarrow> accepted (gp_world st) (je_publishID e) = Some q
     \<and> (gp_slot st = None \<or> gp_slot st = Some (e \<lparr> je_acceptedAs := Some q \<rparr>))
     \<and> adoptions st = before @ [je_journal e]"

text \<open>What the answer of an attempt says of the commit: landed is adopted, a lost race was never accepted.\<close>

definition attempt_fate ::
  "('w \<Rightarrow> string \<Rightarrow> sequence_id option) \<Rightarrow> JournalEntry \<Rightarrow> bytes list \<Rightarrow> attempt \<Rightarrow> ('h, 'w) peer \<Rightarrow> bool" where
  "attempt_fate accepted e before outcome st \<longleftrightarrow> gp_slot st = None \<and> (case outcome of
       Landed \<Rightarrow> \<exists>q. in_fate accepted e before (AdoptedAt q) st
     | LostRace \<Rightarrow> in_fate accepted e before Unpublished st)"

text \<open>What the answer of a replay says of the entry it found: adopted, or lost and handed back.\<close>

definition replay_fate ::
  "('w \<Rightarrow> string \<Rightarrow> sequence_id option) \<Rightarrow> JournalEntry \<Rightarrow> bytes list \<Rightarrow> bool \<Rightarrow> ('h, 'w) peer \<Rightarrow> bool" where
  "replay_fate accepted e before replayed st \<longleftrightarrow> gp_slot st = None
     \<and> (if replayed then \<exists>q. in_fate accepted e before (AdoptedAt q) st
        else in_fate accepted e before Unpublished st \<and> gp_lostCommit st = Some (lost_of e))"

section \<open>The hub of a committing peer\<close>

locale publish_log =
  fixes E :: "('h, 'w) peer_env" and accepted :: "'w \<Rightarrow> string \<Rightarrow> sequence_id option"
  assumes answered: "ge_publish E payload head i w = (Inr q, w') \<Longrightarrow> accepted w' i = Some q"
    and kept: "ge_publish E payload head i w = (r, w') \<Longrightarrow> accepted w i = Some q \<Longrightarrow> accepted w' i = Some q"
    and raced: "ge_publish E payload head i w = (Inl e, w') \<Longrightarrow> isHeadMismatch e \<Longrightarrow> accepted w' i = None"
    and write_apart: "accepted (snd (ge_write E w)) = accepted w"
    and deliver_apart: "accepted (snd (ge_deliver E w)) = accepted w"
    and teardown_apart: "accepted (snd (ge_teardownEpoch E w)) = accepted w"
    and build_apart: "accepted (snd (ge_buildEpoch E w)) = accepted w"
begin

text \<open>The slot, the adoptions and the record of the hub: all a commit is judged by.\<close>

definition view where
  "view st = (gp_slot st, adoptions st, accepted (gp_world st))"

definition viewing where "viewing v st \<longleftrightarrow> view st = v"

lemma view_updates [simp]:
  "view (st \<lparr> gp_handle := h \<rparr>) = view st"
  "view (st \<lparr> gp_anchor := a \<rparr>) = view st"
  "view (st \<lparr> gp_anchorPending := p \<rparr>) = view st"
  "view (st \<lparr> gp_anchorRecoveryPending := b \<rparr>) = view st"
  "view (st \<lparr> gp_capturedAdvance := c \<rparr>) = view st"
  "view (st \<lparr> gp_sealBarrier := b \<rparr>) = view st"
  "view (st \<lparr> gp_sealError := b \<rparr>) = view st"
  "view (st \<lparr> gp_reconciledHead := q \<rparr>) = view st"
  "view (st \<lparr> gp_commitLogHead := q \<rparr>) = view st"
  "view (st \<lparr> gp_durableCursor := d \<rparr>) = view st"
  "view (st \<lparr> gp_appliedByEpoch := m \<rparr>) = view st"
  "view (st \<lparr> gp_healRequested := b \<rparr>) = view st"
  "view (st \<lparr> gp_floor := f \<rparr>) = view st"
  "view (st \<lparr> gp_locallyRemoved := b \<rparr>) = view st"
  "view (st \<lparr> gp_journalReplayed := b \<rparr>) = view st"
  "view (st \<lparr> gp_lostCommit := lc \<rparr>) = view st"
  "view (st \<lparr> gp_heldJournalID := i \<rparr>) = view st"
  "view (st \<lparr> gp_storedAnchor := sa \<rparr>) = view st"
  "view (st \<lparr> gp_storedCursor := sc \<rparr>) = view st"
  by (simp_all add: view_def adoptions_def)

lemma view_world [simp]: "accepted w = accepted (gp_world st) \<Longrightarrow> view (st \<lparr> gp_world := w \<rparr>) = view st"
  by (simp add: view_def adoptions_def)

lemma view_signal [simp]: "adoption_of s = None \<Longrightarrow> view (st \<lparr> gp_signals := gp_signals st @ [s] \<rparr>) = view st"
  by (simp add: view_def)

lemma viewing_change [quiet]: "(\<And>st. view (f st) = view st) \<Longrightarrow> host_only (viewing v) (change f)"
  by (intro host_only_change) (simp add: viewing_def)

lemma viewing_signal [quiet]: "adoption_of s = None \<Longrightarrow> host_only (viewing v) (signal s)"
  unfolding signal_def by (intro quiet) simp

text \<open>A write of the host that stores to no slot of the journal.\<close>

lemma viewing_write:
  assumes "\<And>st. view (store st) = view st" shows "host_only (viewing v) (host_write E store)"
proof (rule host_onlyI)
  fix st :: "('h, 'w) peer" assume v: "viewing v st"
  have "accepted w = accepted (gp_world st)" if "ge_write E (gp_world st) = (r, w)" for r w
    using write_apart [of "gp_world st"] by (simp add: that)
  with v show "ends (host_write E store) (\<lambda>_. viewing v) (\<lambda>e s. viewing v s \<and> e = HostError) st"
    using assms by (auto simp: viewing_def split: prod.splits host_outcome.splits)
qed

lemma viewing_call:
  assumes "\<And>w. accepted (snd (call w)) = accepted w" shows "host_only (viewing v) (app_call call :: ('h, 'w, unit) lane)"
proof (rule host_onlyI)
  fix st :: "('h, 'w) peer" assume v: "viewing v st"
  have "accepted w = accepted (gp_world st)" if "call (gp_world st) = (r, w)" for r w
    using assms [of "gp_world st"] by (simp add: that)
  with v show "ends (app_call call) (\<lambda>_. viewing v) (\<lambda>e s. viewing v s \<and> e = HostError) st"
    by (auto simp: viewing_def split: prod.splits)
qed

lemma viewing_deliver [quiet]: "host_only (viewing v) (deliver_app E)"
  unfolding deliver_app_def by (rule viewing_call) (rule deliver_apart)

lemma viewing_saveCommitCursor [quiet]: "host_only (viewing v) (saveCommitCursor E q)"
  unfolding saveCommitCursor_def persistStrand_def put_cursor_def Let_def
  by (intro quiet viewing_write) simp_all

lemma viewing_save_anchor [quiet]: "host_only (viewing v) (save_anchor E p)"
  unfolding save_anchor_def by (intro quiet viewing_write) simp

lemma viewing_resolve [quiet]: "host_only (viewing v) (resolveAnchorRotation E k i b)"
  unfolding resolveAnchorRotation_def captureAnchor_def keepAnchor_def requireAnchorRecovery_def
    finishSealBarrier_def Let_def
  by (intro quiet) simp_all

lemma viewing_observe [quiet]: "host_only (viewing v) (observe E r i q)"
  unfolding observe_def Let_def by (intro quiet) simp_all

lemma viewing_finally [quiet]: "host_only (viewing v) advance_finally"
  unfolding advance_finally_def finishSealBarrier_def by (intro quiet) simp

lemma around_viewing: "around_advance E (viewing v)"
  unfolding around_advance_def advance_settle_def advance_failed_def
  by (intro conjI allI impI quiet) (simp_all add: viewing_def)

lemma viewing_rebuild [quiet]: "host_only (viewing v) (rebuildEpoch E)"
proof -
  have "host_only (viewing v) (app_call (ge_teardownEpoch E) :: ('h, 'w, unit) lane)"
    "host_only (viewing v) (app_call (ge_buildEpoch E) :: ('h, 'w, unit) lane)"
    by (rule viewing_call, rule teardown_apart build_apart)+
  then show ?thesis
    unfolding rebuildEpoch_def buildEpoch_def by (intro quiet) simp_all
qed

section \<open>Landing\<close>

text \<open>Writes to the slot of the journal, by what they leave of the view.\<close>

lemma viewing_slot_write:
  assumes v: "viewing (Some e, ads, acc) st" and store: "\<And>s. store s = s \<lparr> gp_slot := f (gp_slot s) \<rparr>"
  shows "ends (host_write E store) (\<lambda>_. viewing (f (Some e), ads, acc))
    (\<lambda>_ s. viewing (Some e, ads, acc) s \<or> viewing (f (Some e), ads, acc) s) st"
proof -
  have "accepted w = acc" if "ge_write E (gp_world st) = (r, w)" for r w
    using write_apart [of "gp_world st"] v by (simp add: that viewing_def view_def)
  with v show ?thesis
    by (auto simp: store viewing_def view_def adoptions_def split: prod.splits host_outcome.splits)
qed

lemma viewing_clear:
  assumes "viewing (Some e, ads, acc) st" "je_publishID e = i"
  shows "ends (slot_clear E i) (\<lambda>_. viewing (None, ads, acc))
    (\<lambda>_ s. viewing (Some e, ads, acc) s \<or> viewing (None, ads, acc) s) st"
proof -
  have after: "host_only (viewing (None, ads, acc)) (and_then
      (change (\<lambda>s. if gp_heldJournalID s = Some i then s \<lparr> gp_heldJournalID := None \<rparr> else s)) (\<lambda>_. signal TriggerDelivery))"
    by (intro quiet) simp_all
  show ?thesis
    unfolding slot_clear_def ends_and_then [of "host_write E _"]
    by (rule ends_weaken [OF viewing_slot_write [OF assms(1), where f = "clear_entry i"]])
      (auto simp: clear_entry_def assms(2) intro: host_only_step [OF after] simp del: ends_and_then)
qed

lemma viewing_adopt:
  assumes "viewing (sl, ads, acc) st"
  shows "ends (adopt host journal) (\<lambda>_. viewing (sl, ads @ [journal], acc)) (\<lambda>_. viewing (sl, ads @ [journal], acc)) st"
  using assms by (auto simp: adopt_def viewing_def view_def adoptions_def map_filter_append
      List.map_filter_def split: prod.splits)

lemma viewing_advance:
  assumes "viewing (sl, ads, acc) st"
  shows "ends (advanceHandle E (adopt host journal) identity q) (\<lambda>_. viewing (sl, ads @ [journal], acc))
    (\<lambda>_ s. viewing (sl, ads, acc) s \<or> viewing (sl, ads @ [journal], acc) s) st"
proof -
  have ratchet: "ends (adopt host journal) (\<lambda>_ s. viewing (sl, ads @ [journal], acc) s \<and> True)
      (\<lambda>_. viewing (sl, ads @ [journal], acc)) s" if "viewing (sl, ads, acc) s" for s
    by (rule ends_weaken [OF viewing_adopt [OF that]]) simp_all
  show ?thesis
    by (rule ends_weaken [OF advanceHandle_between [OF assms around_viewing around_viewing ratchet]]) auto
qed

text \<open>The advance of an accepted commit, and the slot after it.\<close>

lemma viewing_advance_clear:
  assumes "viewing (Some e, ads, acc) st" "je_publishID e = i"
  shows "ends (and_then (advanceHandle E (adopt host journal) identity q) (\<lambda>_. slot_clear E i))
    (\<lambda>_. viewing (None, ads @ [journal], acc))
    (\<lambda>_ s. viewing (Some e, ads, acc) s \<or> viewing (Some e, ads @ [journal], acc) s \<or> viewing (None, ads @ [journal], acc) s) st"
  unfolding ends_and_then
  by (rule ends_weaken [OF viewing_advance [OF assms(1)]], rule ends_weaken [OF viewing_clear [OF _ assms(2)]]) auto

lemma viewing_accept_position [quiet]: "host_only (viewing v) (accept_position E epoch commit q)"
  unfolding accept_position_def by (intro quiet) simp

lemma viewing_markAccepted:
  assumes "viewing (Some e, ads, acc) st" "je_publishID e = i"
  shows "ends (slot_markAccepted E i q) (\<lambda>_. viewing (Some (e \<lparr> je_acceptedAs := Some q \<rparr>), ads, acc))
    (\<lambda>_ s. viewing (Some e, ads, acc) s \<or> viewing (Some (e \<lparr> je_acceptedAs := Some q \<rparr>), ads, acc) s) st"
  unfolding slot_markAccepted_def
  by (rule ends_weaken [OF viewing_slot_write [OF assms(1), where f = "mark_entry i q"]])
    (simp_all add: mark_entry_def assms(2))

text \<open>The fates a view stands for.\<close>

lemma fate_of_view:
  assumes "acc (je_publishID e) = Some q"
  shows "viewing (Some e, ads, acc) s \<Longrightarrow> in_fate accepted e ads (Published q) s"
    "viewing (Some (e \<lparr> je_acceptedAs := Some q \<rparr>), ads, acc) s \<Longrightarrow> in_fate accepted e ads (Published q) s"
    "viewing (Some (e \<lparr> je_acceptedAs := Some q \<rparr>), ads @ [je_journal e], acc) s \<Longrightarrow> in_fate accepted e ads (AdoptedAt q) s"
    "viewing (None, ads @ [je_journal e], acc) s \<Longrightarrow> in_fate accepted e ads (AdoptedAt q) s"
  using assms by (auto simp: viewing_def view_def)

lemma unpublished_of_view:
  assumes "acc (je_publishID e) = None"
  shows "viewing (Some e, ads, acc) s \<Longrightarrow> in_fate accepted e ads Unpublished s"
    "viewing (None, ads, acc) s \<Longrightarrow> in_fate accepted e ads Unpublished s"
  using assms by (auto simp: viewing_def view_def)

lemma some_fate: "viewing (Some e, ads, acc) s \<Longrightarrow> \<exists>f. in_fate accepted e ads f s"
  using unpublished_of_view(1) [of acc e ads s] fate_of_view(1) [of acc e _ ads s]
  by (cases "acc (je_publishID e)") blast+

text \<open>A slot that carries its acceptance is adopted and cleared, or stays what it is or what it led to.\<close>

lemma land_entry:
  assumes v: "viewing (Some (e \<lparr> je_acceptedAs := Some q \<rparr>), ads, acc) st" and acc: "acc (je_publishID e) = Some q"
  shows "ends (and_then (accept_position E epoch commit q) (\<lambda>_.
      and_then (advanceHandle E (adopt host (je_journal e)) identity p) (\<lambda>_. slot_clear E (je_publishID e))))
    (\<lambda>_. viewing (None, ads @ [je_journal e], acc))
    (\<lambda>_ s. in_fate accepted e ads (Published q) s \<or> in_fate accepted e ads (AdoptedAt q) s) st"
proof -
  note fates = fate_of_view [where acc = acc and e = e and q = q and ads = ads, OF acc]
  have "ends (and_then (advanceHandle E (adopt host (je_journal e)) identity p) (\<lambda>_. slot_clear E (je_publishID e)))
    (\<lambda>_. viewing (None, ads @ [je_journal e], acc))
    (\<lambda>_ s. in_fate accepted e ads (Published q) s \<or> in_fate accepted e ads (AdoptedAt q) s) s"
    if "viewing (Some (e \<lparr> je_acceptedAs := Some q \<rparr>), ads, acc) s" for s
    by (rule ends_weaken [OF viewing_advance_clear [OF that]], simp, assumption) (use fates in blast)
  then show ?thesis
    unfolding ends_and_then [of "accept_position E epoch commit q"]
    by (rule host_only_step [OF viewing_accept_position v]) (assumption, use fates in blast)
qed

lemma accepted_fates:
  assumes v: "viewing (Some e, ads, acc) st" and acc: "acc (je_publishID e) = Some q"
  shows "ends (and_then (slot_markAccepted E (je_publishID e) q) (\<lambda>_. and_then (accept_position E epoch commit q) (\<lambda>_.
      and_then (advanceHandle E (adopt host (je_journal e)) identity p) (\<lambda>_. slot_clear E (je_publishID e)))))
    (\<lambda>_. viewing (None, ads @ [je_journal e], acc))
    (\<lambda>_ s. in_fate accepted e ads (Published q) s \<or> in_fate accepted e ads (AdoptedAt q) s) st"
  unfolding ends_and_then [of "slot_markAccepted E (je_publishID e) q"]
  by (rule ends_weaken [OF viewing_markAccepted [OF v refl]], rule land_entry [where acc = acc and e = e and q = q, OF _ acc], assumption)
    (use fate_of_view [where acc = acc and e = e and q = q, OF acc] in blast)

lemma publish_answer:
  assumes v: "viewing (Some e, ads, acc) st" and i: "je_publishID e = i"
  shows "ends (publish_frame E payload head i) (\<lambda>answer s. \<exists>acc'. viewing (Some e, ads, acc') s
      \<and> (\<forall>q. acc i = Some q \<longrightarrow> acc' i = Some q)
      \<and> (\<forall>q. answer = Inr q \<longrightarrow> acc' i = Some q)
      \<and> (\<forall>err. answer = Inl err \<longrightarrow> isHeadMismatch err \<longrightarrow> acc' i = None)) R st"
proof -
  obtain answer w where p: "ge_publish E payload head i (gp_world st) = (answer, w)" by fastforce
  then have "answer = Inr q \<Longrightarrow> accepted w i = Some q"
    "accepted (gp_world st) i = Some q \<Longrightarrow> accepted w i = Some q"
    "answer = Inl err \<Longrightarrow> isHeadMismatch err \<Longrightarrow> accepted w i = None" for q err
    using answered kept raced by blast+
  then show ?thesis
    using v by (auto simp: ends_def publish_frame_def p viewing_def view_def adoptions_def)
qed

section \<open>One publication\<close>

lemma and_then_assoc: "and_then (and_then a f) g = and_then a (\<lambda>x. and_then (f x) g)"
  by (rule ext) (simp add: and_then_def split: prod.splits sum.splits)

lemma land_commit_fates:
  assumes v: "viewing (Some e, ads, acc) st" and acc: "acc (je_publishID e) = Some q"
    and e: "je_journal e = pc_journal pending"
  shows "ends (land_commit E pending (je_publishID e) epoch q)
    (\<lambda>_ s. in_fate accepted e ads (AdoptedAt q) s \<and> gp_slot s = None)
    (\<lambda>_ s. in_fate accepted e ads (Published q) s \<or> in_fate accepted e ads (AdoptedAt q) s) st"
proof -
  note fates = fate_of_view [where acc = acc and e = e and q = q and ads = ads, OF acc]
  have rebuilt: "ends (rebuildEpoch E) (\<lambda>_ s. in_fate accepted e ads (AdoptedAt q) s \<and> gp_slot s = None)
    (\<lambda>_ s. in_fate accepted e ads (Published q) s \<or> in_fate accepted e ads (AdoptedAt q) s) s"
    if "viewing (None, ads @ [je_journal e], acc) s" for s
    by (rule host_only_step [OF viewing_rebuild that]) (use fates in \<open>auto simp: viewing_def view_def simp del: in_fate.simps\<close>)
  have "land_commit E pending (je_publishID e) epoch q =
      and_then (and_then (slot_markAccepted E (je_publishID e) q) (\<lambda>_. and_then (accept_position E epoch (pc_commit pending) q) (\<lambda>_.
        and_then (advanceHandle E (adopt (ge_onAccepted E pending) (je_journal e)) (commit_identity E epoch (pc_commit pending)) (Some q))
          (\<lambda>_. slot_clear E (je_publishID e))))) (\<lambda>_. rebuildEpoch E)"
    by (simp add: land_commit_def and_then_assoc e)
  then show ?thesis
    unfolding ends_and_then [of _ "\<lambda>_. rebuildEpoch E"]
    by (simp only: ends_and_then [of _ "\<lambda>_. rebuildEpoch E"])
      (rule ends_weaken [OF accepted_fates [where acc = acc and e = e and q = q, OF v acc]], erule rebuilt, assumption)
qed

lemma viewing_slot_put:
  assumes "viewing (None, ads, acc) st"
  shows "ends (slot_put E e) (\<lambda>_. viewing (Some e, ads, acc))
    (\<lambda>_ s. viewing (None, ads, acc) s \<or> viewing (Some e, ads, acc) s) st"
proof -
  have "accepted w = acc" if "ge_write E (gp_world st) = (r, w)" for r w
    using write_apart [of "gp_world st"] assms by (simp add: that viewing_def view_def)
  with assms show ?thesis
    by (auto simp: slot_put_def viewing_def view_def adoptions_def split: prod.splits host_outcome.splits)
qed

lemma publish_after_put:
  assumes v: "viewing (Some e, ads, acc) st" and acc: "acc (je_publishID e) = None"
    and e: "je_journal e = pc_journal pending"
  shows "ends (and_then (publish_frame E payload head (je_publishID e)) (\<lambda>answer.
      case answer of
        Inl err \<Rightarrow> if \<not> isHeadMismatch err then fail (HubThrew err)
                 else and_then (slot_clear E (je_publishID e)) (\<lambda>_. give LostRace)
      | Inr q \<Rightarrow> and_then (land_commit E pending (je_publishID e) epoch q) (\<lambda>_. give Landed)))
    (attempt_fate accepted e ads) (\<lambda>_ s. \<exists>f. in_fate accepted e ads f s) st" (is "ends _ ?Q ?R st")
proof -
  have lost: "ends (and_then (slot_clear E (je_publishID e)) (\<lambda>_. give LostRace)) ?Q ?R s"
    if "viewing (Some e, ads, acc') s" "acc' (je_publishID e) = None" for acc' s
    unfolding ends_and_then ends_give
    by (rule ends_weaken [OF viewing_clear [OF that(1) refl]])
      (use unpublished_of_view [where acc = acc' and e = e and ads = ads, OF that(2)] in
        \<open>auto simp: viewing_def view_def attempt_fate_def simp del: in_fate.simps\<close>)
  have landed: "ends (and_then (land_commit E pending (je_publishID e) epoch q) (\<lambda>_. give Landed)) ?Q ?R s"
    if "viewing (Some e, ads, acc') s" "acc' (je_publishID e) = Some q" for acc' s q
    unfolding ends_and_then ends_give
    by (rule ends_weaken [OF land_commit_fates [OF that e]]) (auto simp: attempt_fate_def simp del: in_fate.simps)
  show ?thesis
    unfolding ends_and_then [of "publish_frame E payload head (je_publishID e)"]
    by (rule ends_weaken [OF publish_answer [OF v refl]])
      (auto simp del: in_fate.simps ends_and_then split: sum.splits intro!: lost landed intro: some_fate)
qed

lemma frameCommit_result:
  "ends (frameCommit E commit bodies framedAt) (\<lambda>r s. s = st \<and> (\<exists>payload. r = (payload, ge_epoch E (gp_handle st))))
    (\<lambda>_ s. s = st) st"
  by (auto simp: frameCommit_def Let_def split: sum.splits)

lemma publish_commit_fates:
  fixes pending :: PendingCommit and holds :: bool
  assumes "gp_slot st = None" "accepted (gp_world st) i = None"
  defines "e \<equiv> journal_entry i (gp_commitLogHead st) (ge_epoch E (gp_handle st)) holds pending"
  shows "ends (publish_commit E holds pending i) (attempt_fate accepted e (adoptions st))
    (\<lambda>_ s. \<exists>f. in_fate accepted e (adoptions st) f s) st"
proof -
  let ?acc = "accepted (gp_world st)" and ?ads = "adoptions st"
  have v: "viewing (None, ?ads, ?acc) st" using assms(1) by (simp add: viewing_def view_def)
  have e: "je_publishID e = i" "je_journal e = pc_journal pending" by (simp_all add: e_def journal_entry_def)
  have idle: "\<exists>f. in_fate accepted e ?ads f s" if "viewing (None, ?ads, ?acc) s \<or> viewing (Some e, ?ads, ?acc) s" for s
    using that unpublished_of_view [where acc = ?acc and e = e] assms(2) e by blast
  have settle: "host_only (viewing (None, ?ads, ?acc)) (if holds then signal SettleSubmissions else give ())"
    by (intro quiet) simp
  have rest: "ends (and_then (slot_put E e) (\<lambda>_. and_then (publish_frame E payload head i) (\<lambda>answer.
      case answer of
        Inl err \<Rightarrow> if \<not> isHeadMismatch err then fail (HubThrew err)
                 else and_then (slot_clear E i) (\<lambda>_. give LostRace)
      | Inr q \<Rightarrow> and_then (land_commit E pending i epoch q) (\<lambda>_. give Landed))))
    (attempt_fate accepted e ?ads) (\<lambda>_ s. \<exists>f. in_fate accepted e ?ads f s) s"
    if "viewing (None, ?ads, ?acc) s" for payload head epoch s
    unfolding ends_and_then [of "slot_put E e"]
    by (rule ends_weaken [OF viewing_slot_put [OF that]],
        rule publish_after_put [where e = e and acc = ?acc, unfolded e(1)]) (use idle e assms(2) in auto)
  have sent: "ends (and_then (if holds then signal SettleSubmissions else give ()) (\<lambda>_.
      and_then (slot_put E e) (\<lambda>_. and_then (publish_frame E payload head i) (\<lambda>answer.
      case answer of
        Inl err \<Rightarrow> if \<not> isHeadMismatch err then fail (HubThrew err)
                 else and_then (slot_clear E i) (\<lambda>_. give LostRace)
      | Inr q \<Rightarrow> and_then (land_commit E pending i epoch q) (\<lambda>_. give Landed)))))
    (attempt_fate accepted e ?ads) (\<lambda>_ s. \<exists>f. in_fate accepted e ?ads f s) st" for payload head epoch
    unfolding ends_and_then [of "if holds then signal SettleSubmissions else give ()"]
    by (rule host_only_step [OF settle v], erule rest) (use idle in blast)
  show ?thesis
    unfolding publish_commit_def ends_reading Let_def ends_and_then [of "frameCommit E _ _ _"]
    by (rule ends_weaken [OF frameCommit_result], elim conjE exE)
      (simp only: prod.case e_def [symmetric] sent, use idle v in blast)
qed

section \<open>The next operation\<close>

lemma adopt_entry_fates:
  assumes "viewing (Some (e \<lparr> je_acceptedAs := Some q \<rparr>), ads, acc) st" "acc (je_publishID e) = Some q"
  shows "ends (adopt_entry E (e \<lparr> je_acceptedAs := Some q \<rparr>) q) (replay_fate accepted e ads)
    (\<lambda>_ s. \<exists>f. in_fate accepted e ads f s) st"
proof -
  have "adopt_entry E (e \<lparr> je_acceptedAs := Some q \<rparr>) q =
      and_then (and_then (accept_position E (je_epoch e) (je_commit e) q) (\<lambda>_.
        and_then (advanceHandle E (adopt (ge_adoptJournalled E (je_journal e)) (je_journal e))
          (commit_identity E (je_epoch e) (je_commit e)) (Some q)) (\<lambda>_. slot_clear E (je_publishID e)))) (\<lambda>_. give True)"
    by (simp add: adopt_entry_def and_then_assoc)
  then show ?thesis
    by (simp only: ends_and_then [of _ "\<lambda>_. give True"] ends_give)
      (rule ends_weaken [OF land_entry [where acc = acc and e = e and q = q, OF assms]],
        use assms(2) in \<open>simp add: replay_fate_def viewing_def view_def\<close>, blast)
qed

lemma republish_fates:
  assumes v: "viewing (Some e, ads, acc) st" and e: "je_acceptedAs e = None"
  shows "ends (republish E e) (replay_fate accepted e ads) (\<lambda>_ s. \<exists>f. in_fate accepted e ads f s) st"
    (is "ends _ ?Q ?R st")
proof -
  note unlost = unpublished_of_view [where e = e and ads = ads]
  have lost: "ends (and_then (slot_clear E (je_publishID e)) (\<lambda>_.
      and_then (change (\<lambda>s. s \<lparr> gp_lostCommit := Some (lost_of e) \<rparr>)) (\<lambda>_. give False))) ?Q ?R s"
    if "viewing (Some e, ads, acc') s" "acc' (je_publishID e) = None" for acc' s
    unfolding ends_and_then ends_give ends_change
    by (rule ends_weaken [OF viewing_clear [OF that(1) refl]])
      (use that(2) in \<open>simp add: viewing_def view_def replay_fate_def adoptions_def\<close>,
        blast intro: unlost [where acc = acc'] that(2))
  have "adopt_entry E e q = and_then (and_then (accept_position E (je_epoch e) (je_commit e) q) (\<lambda>_.
        and_then (advanceHandle E (adopt (ge_adoptJournalled E (je_journal e)) (je_journal e))
          (commit_identity E (je_epoch e) (je_commit e)) (Some q)) (\<lambda>_. slot_clear E (je_publishID e)))) (\<lambda>_. give True)" for q
    by (simp add: adopt_entry_def and_then_assoc)
  then have adopt_eq: "and_then (slot_markAccepted E (je_publishID e) q) (\<lambda>_. adopt_entry E e q) =
      and_then (and_then (slot_markAccepted E (je_publishID e) q) (\<lambda>_. and_then (accept_position E (je_epoch e) (je_commit e) q) (\<lambda>_.
        and_then (advanceHandle E (adopt (ge_adoptJournalled E (je_journal e)) (je_journal e))
          (commit_identity E (je_epoch e) (je_commit e)) (Some q)) (\<lambda>_. slot_clear E (je_publishID e))))) (\<lambda>_. give True)" for q
    by (simp add: and_then_assoc)
  have landed: "ends (and_then (slot_markAccepted E (je_publishID e) q) (\<lambda>_. adopt_entry E e q)) ?Q ?R s"
    if "viewing (Some e, ads, acc') s" "acc' (je_publishID e) = Some q" for acc' s q
    unfolding adopt_eq
    by (simp only: ends_and_then [of _ "\<lambda>_. give True"] ends_give)
      (rule ends_weaken [OF accepted_fates [where acc = acc' and e = e and q = q, OF that]],
        use that(2) in \<open>simp add: replay_fate_def viewing_def view_def\<close>, blast)
  have published: "ends (and_then (publish_frame E payload head (je_publishID e)) (\<lambda>answer. case answer of
        Inl err \<Rightarrow> if \<not> isHeadMismatch err then fail (HubThrew err)
          else and_then (slot_clear E (je_publishID e)) (\<lambda>_.
               and_then (change (\<lambda>s. s \<lparr> gp_lostCommit := Some (lost_of e) \<rparr>)) (\<lambda>_. give False))
      | Inr q \<Rightarrow> and_then (slot_markAccepted E (je_publishID e) q) (\<lambda>_. adopt_entry E e q))) ?Q ?R st" for payload head
    unfolding ends_and_then [of "publish_frame E payload head (je_publishID e)"]
    by (rule ends_weaken [OF publish_answer [OF v refl]])
      (auto simp del: in_fate.simps ends_and_then split: sum.splits intro!: lost landed intro: some_fate)
  have framed: "ends (and_then (frameCommit E (je_commit e) (je_bodies e) (Some (je_epoch e))) (\<lambda>(payload, _).
      and_then (publish_frame E payload (je_expectedHead e) (je_publishID e)) (\<lambda>answer. case answer of
        Inl err \<Rightarrow> if \<not> isHeadMismatch err then fail (HubThrew err)
          else and_then (slot_clear E (je_publishID e)) (\<lambda>_.
               and_then (change (\<lambda>s. s \<lparr> gp_lostCommit := Some (lost_of e) \<rparr>)) (\<lambda>_. give False))
      | Inr q \<Rightarrow> and_then (slot_markAccepted E (je_publishID e) q) (\<lambda>_. adopt_entry E e q)))) ?Q ?R st"
    unfolding ends_and_then [of "frameCommit E _ _ _"]
    by (rule ends_weaken [OF frameCommit_result], elim conjE exE)
      (simp only: prod.case published, use some_fate [OF v] in blast)
  show ?thesis
    unfolding republish_def ends_reading ends_if ends_fail
    using framed some_fate [OF v] by simp
qed

lemma replay_fates:
  assumes slot: "gp_slot st = Some e" and known: "\<And>q. je_acceptedAs e = Some q \<Longrightarrow> accepted (gp_world st) (je_publishID e) = Some q"
    and up: "\<not> gp_anchorRecoveryPending st"
  defines "base \<equiv> e \<lparr> je_acceptedAs := None \<rparr>"
  shows "ends (replayJournal E) (replay_fate accepted base (adoptions st))
    (\<lambda>_ s. \<exists>f. in_fate accepted base (adoptions st) f s) st"
proof -
  let ?acc = "accepted (gp_world st)" and ?ads = "adoptions st" and ?v = "viewing (Some e, adoptions st, accepted (gp_world st))"
  have v: "?v st" using slot by (simp add: viewing_def view_def)
  have stuck: "\<exists>f. in_fate accepted base ?ads f s" if "?v s" for s
  proof (cases "je_acceptedAs e")
    case None
    then have "base = e" by (simp add: base_def)
    then show ?thesis using some_fate [OF that] by simp
  next
    case (Some q)
    then have "e = base \<lparr> je_acceptedAs := Some q \<rparr>" by (simp add: base_def)
    moreover have "je_publishID base = je_publishID e" by (simp add: base_def)
    ultimately have "in_fate accepted base ?ads (Published q) s"
      using fate_of_view(2) [where e = base and q = q and acc = ?acc and ads = ?ads] that known [OF Some] by simp
    then show ?thesis by blast
  qed
  have act: "ends (case je_acceptedAs e of Some q \<Rightarrow> adopt_entry E e q | None \<Rightarrow> republish E e)
      (replay_fate accepted base ?ads) (\<lambda>_ s. \<exists>f. in_fate accepted base ?ads f s) s" if "?v s" for s
  proof (cases "je_acceptedAs e")
    case None
    then have "base = e" by (simp add: base_def)
    with None show ?thesis using republish_fates [OF that None] by simp
  next
    case (Some q)
    then have e: "e = base \<lparr> je_acceptedAs := Some q \<rparr>" by (simp add: base_def)
    have id: "je_publishID base = je_publishID e" by (simp add: base_def)
    have "ends (adopt_entry E (base \<lparr> je_acceptedAs := Some q \<rparr>) q)
        (replay_fate accepted base ?ads) (\<lambda>_ s. \<exists>f. in_fate accepted base ?ads f s) s"
      by (rule adopt_entry_fates [where acc = ?acc], unfold e [symmetric] id) (rule that, rule known [OF Some])
    then show ?thesis unfolding e [symmetric] Some by simp
  qed
  have settle: "host_only ?v (if je_holdsLogSends e then signal SettleSubmissions else give ())"
    by (intro quiet) simp
  have entry: "ends (slot_get E) (\<lambda>r s. r = Some e \<and> ?v s) (\<lambda>_. ?v) s" if "?v s" for s
  proof -
    have "accepted w = ?acc" if "ge_write E (gp_world s) = (r, w)" for r w
      using write_apart [of "gp_world s"] \<open>?v s\<close> by (simp add: that viewing_def view_def)
    with that show ?thesis
      by (auto simp: slot_get_def viewing_def view_def adoptions_def split: prod.splits host_outcome.splits)
  qed
  have started: "?v (st \<lparr> gp_journalReplayed := True \<rparr>)" using v by (simp add: viewing_def)
  have found: "ends (and_then (if je_holdsLogSends e then signal SettleSubmissions else give ()) (\<lambda>_.
      case je_acceptedAs e of Some q \<Rightarrow> adopt_entry E e q | None \<Rightarrow> republish E e))
      (replay_fate accepted base ?ads) (\<lambda>_ s. \<exists>f. in_fate accepted base ?ads f s) s" if "?v s" for s
    unfolding ends_and_then by (rule host_only_step [OF settle that], erule act, erule stuck)
  have "ends (and_then (slot_get E) (\<lambda>slot. case slot of None \<Rightarrow> give False | Some e \<Rightarrow>
      and_then (if je_holdsLogSends e then signal SettleSubmissions else give ()) (\<lambda>_.
      case je_acceptedAs e of Some q \<Rightarrow> adopt_entry E e q | None \<Rightarrow> republish E e)))
      (replay_fate accepted base ?ads) (\<lambda>_ s. \<exists>f. in_fate accepted base ?ads f s) (st \<lparr> gp_journalReplayed := True \<rparr>)"
    unfolding ends_and_then [of "slot_get E"]
    by (rule ends_weaken [OF entry [OF started]]) (elim conjE, simp only: option.case found, erule stuck)
  then show ?thesis
    unfolding replayJournal_def ends_and_then [of "change _"] ends_change ends_reading
    using up by simp
qed

end

end
