(* ===== verification/Calm_Host.thy ===== *)
theory Calm_Host
  imports Journal_Laws
begin

text \<open>
  A lane whose host does not fail. The laws of the journal hold wherever the lane is cut off; here is the
  other half, that it does its work when nothing cuts it off.
\<close>

named_theorems runs \<open>actions that return from every state\<close>

definition total :: "('h, 'w, 'a) lane \<Rightarrow> bool" where
  "total m \<longleftrightarrow> (\<forall>st. ends m (\<lambda>_ _. True) (\<lambda>_ _. False) st)"

lemma total_ends: "total m \<Longrightarrow> (\<And>x s. Q x s) \<Longrightarrow> ends m Q R st"
  unfolding total_def by (erule allE, erule ends_weaken) simp_all

lemma total_give [runs]: "total (give x)"
  by (simp add: total_def)

lemma total_and_then [runs]: "total m \<Longrightarrow> (\<And>x. total (f x)) \<Longrightarrow> total (and_then m f)"
  by (simp add: total_def) (metis (no_types, lifting) ends_weaken)

lemma total_reading [runs]: "(\<And>st. total (f st)) \<Longrightarrow> total (reading f)"
  by (simp add: total_def)

lemma total_change [runs]: "total (change f)"
  by (simp add: total_def)

lemma total_signal [runs]: "total (signal s)"
  by (simp add: total_def)

lemma total_if [runs]: "(b \<Longrightarrow> total m) \<Longrightarrow> (\<not> b \<Longrightarrow> total m') \<Longrightarrow> total (if b then m else m')"
  by simp

lemma total_option [runs]:
  "(x = None \<Longrightarrow> total m) \<Longrightarrow> (\<And>y. x = Some y \<Longrightarrow> total (f y)) \<Longrightarrow> total (case x of None \<Rightarrow> m | Some y \<Rightarrow> f y)"
  by (cases x) simp_all

lemma total_catching [runs]: "total m \<Longrightarrow> total (catching m h)"
  by (simp add: total_def) (metis (no_types, lifting) ends_weaken)

lemma total_call [runs]:
  assumes "\<And>w. fst (call w)" shows "total (app_call call)"
proof -
  have "r" if "call w = (r, w')" for w r w' using assms [of w] that by simp
  then show ?thesis by (auto simp: total_def split: prod.splits)
qed

lemma total_keeps:
  assumes "total m" "host_only I m" "I st" "\<And>x s. I s \<Longrightarrow> Q x s" shows "ends m Q R st"
proof -
  have "ends m (\<lambda>_ s. True \<and> I s) (\<lambda>e s. False \<and> I s \<and> e = HostError) st"
    unfolding ends_conj using assms(1-3) by (simp add: total_def host_only_def)
  then show ?thesis by (rule ends_weaken) (simp_all add: assms(4))
qed

lemma total_adopt [runs]: "(\<And>h. fst (host h)) \<Longrightarrow> total (adopt host journal)"
  by (auto simp: total_def adopt_def split: prod.splits) (metis fst_conv)

text \<open>No advance is left over; what the seam is asked before it lets one in.\<close>

definition no_advance :: "('h, 'w) peer \<Rightarrow> bool" where
  "no_advance st \<longleftrightarrow> gp_anchorPending st = None \<and> \<not> gp_anchorRecoveryPending st"

lemma no_advance_write: "(\<And>st. no_advance (store st) = no_advance st) \<Longrightarrow> host_only no_advance (host_write E store)"
  by (rule host_only_write) (simp_all add: no_advance_def)

lemma no_advance_change:
  "(\<And>st. no_advance (f st) = no_advance st) \<Longrightarrow> host_only no_advance (change f)"
  by (intro host_only_change) simp

lemma no_advance_slot:
  "host_only no_advance (slot_put E entry)" "host_only no_advance (slot_markAccepted E i q)"
  "host_only no_advance (accept_position E epoch commit q)" "host_only no_advance (signal s)"
  unfolding slot_put_def slot_markAccepted_def accept_position_def signal_def
  by (intro quiet no_advance_write no_advance_change; simp add: no_advance_def)+

text \<open>The interface: every call of the host, of the app lane and of the epoch runtime succeeds.\<close>

locale calm_host =
  fixes E :: "('h, 'w) peer_env"
  assumes write_done: "fst (ge_write E w) = Done"
    and delivers: "fst (ge_deliver E w)"
    and tears_down: "fst (ge_teardownEpoch E w)"
    and builds: "fst (ge_buildEpoch E w)"
begin

lemma total_write [runs]: "total (host_write E store)"
proof -
  have "r = Done" if "ge_write E w = (r, w')" for w r w' using write_done [of w] that by simp
  then show ?thesis by (auto simp: total_def split: prod.splits host_outcome.splits)
qed

lemma total_deliver [runs]: "total (deliver_app E)"
  unfolding deliver_app_def by (intro runs delivers)

lemma total_rebuild [runs]: "total (rebuildEpoch E)"
proof -
  have torn: "b" if "ge_teardownEpoch E w = (b, w')" for b w w' using tears_down [of w] that by simp
  have built: "total (buildEpoch E)"
    unfolding buildEpoch_def by (intro runs builds)
  show ?thesis
    unfolding total_def rebuildEpoch_def by (auto intro!: total_ends [OF built] dest!: torn split: prod.splits)
qed

lemma total_saveCommitCursor [runs]: "total (saveCommitCursor E q)"
  unfolding saveCommitCursor_def persistStrand_def put_cursor_def Let_def by (intro runs)

lemma total_resolve [runs]: "total (resolveAnchorRotation E k i b)"
  unfolding resolveAnchorRotation_def captureAnchor_def keepAnchor_def requireAnchorRecovery_def
    finishSealBarrier_def save_anchor_def Let_def by (intro runs)

lemma total_settle [runs]: "total (advance_settle E identity q c r)"
  unfolding advance_settle_def observe_def Let_def by (intro runs)

lemma total_finally [runs]: "total advance_finally"
  unfolding advance_finally_def finishSealBarrier_def by (intro runs)

lemma advanceHandle_returns:
  assumes closed: "gp_anchorPending st = None" "\<not> gp_anchorRecoveryPending st" and ratchet: "total ratchet"
  shows "ends (advanceHandle E ratchet identity q) (\<lambda>_ _. True) (\<lambda>_ _. False) st"
proof -
  have resolved: "ends (resolveAnchorRotation E False False False) (\<lambda>_ s. s = st) (\<lambda>_ _. False) st"
    by (simp add: resolveAnchorRotation_def closed)
  have "total (advance_run E ratchet identity q c r)" for c r
    unfolding advance_run_def by (intro runs ratchet)
  then have rest: "total (and_then (if c then give () else deliver_app E) (\<lambda>_. reading (\<lambda>st.
      let record = advance_record E identity st in
      and_then (save_anchor E (Some record)) (\<lambda>_.
      and_then (change (\<lambda>s. s \<lparr> gp_anchorPending := Some record, gp_sealBarrier := True \<rparr>)) (\<lambda>_.
        advance_run E ratchet identity q c record)))))" for c
    unfolding save_anchor_def Let_def by (intro runs)
  show ?thesis
    unfolding advanceHandle_def ends_and_then [of "resolveAnchorRotation E False False False"]
    by (rule ends_weaken [OF resolved])
      (simp_all add: closed total_ends [OF rest [of False, unfolded if_False]] del: ends_and_then)
qed

lemma total_slot [runs]:
  "total (slot_put E entry)" "total (slot_markAccepted E i q)" "total (slot_clear E i)"
  "total (accept_position E epoch commit q)"
  unfolding slot_put_def slot_markAccepted_def slot_clear_def accept_position_def by (intro runs)+

lemma land_commit_returns:
  assumes closed: "no_advance st" and host: "\<And>h. fst (ge_onAccepted E pending h)"
  shows "ends (land_commit E pending i epoch q) (\<lambda>_ _. True) (\<lambda>_ _. False) st"
proof -
  let ?step = "advanceHandle E (adopt (ge_onAccepted E pending) (pc_journal pending)) (commit_identity E epoch (pc_commit pending)) (Some q)"
  have advance: "ends ?step (\<lambda>_ _. True) (\<lambda>_ _. False) s" if "no_advance s" for s
    using that by (intro advanceHandle_returns runs host) (simp_all add: no_advance_def)
  have rest: "ends (and_then ?step (\<lambda>_. and_then (slot_clear E i) (\<lambda>_. rebuildEpoch E))) (\<lambda>_ _. True) (\<lambda>_ _. False) s"
    if "no_advance s" for s
    unfolding ends_and_then [of ?step]
    by (rule ends_weaken [OF advance [OF that]], rule total_ends, intro runs) simp_all
  show ?thesis
    unfolding land_commit_def ends_and_then [of "slot_markAccepted E i q"] ends_and_then [of "accept_position E epoch (pc_commit pending) q"]
    by (rule total_keeps [OF total_slot(2) no_advance_slot(2) closed],
        rule total_keeps [OF total_slot(4) no_advance_slot(3)], assumption, rule rest, assumption)
qed

lemma publish_commit_returns:
  assumes closed: "no_advance st" and host: "\<And>h. fst (ge_onAccepted E pending h)"
    and framed: "frameCommit E (pc_commit pending) (pc_bodies pending) (ge_frameEpoch E (gp_handle st) (pc_commit pending)) st
      = (Inr (payload, epoch), st)"
    and world: "P (gp_world st)" "\<And>w. P w \<Longrightarrow> P (snd (ge_write E w))"
    and answer: "\<And>w. P w \<Longrightarrow> \<exists>q w'. ge_publish E payload (gp_commitLogHead st) i w = (Inr q, w')"
  shows "ends (publish_commit E holds pending i) (\<lambda>outcome _. outcome = Landed) (\<lambda>_ _. False) st"
proof -
  let ?I = "\<lambda>s. no_advance s \<and> P (gp_world s)"
  let ?Q = "\<lambda>outcome _. outcome = Landed"
  have written: "P w'" if "ge_write E w = (r, w')" "P w" for r w w' using world(2) [of w] that by simp
  have put: "host_only ?I (slot_put E entry)" for entry
    unfolding slot_put_def
    by (intro quiet host_only_change host_onlyI)
      (auto simp: no_advance_def dest: written split: prod.splits host_outcome.splits)
  have settle: "ends (if holds then signal SettleSubmissions else give ()) (\<lambda>_. ?I) (\<lambda>_ _. False) st"
    using closed world(1) by (auto simp: no_advance_def)
  have publish: "ends (and_then (publish_frame E payload (gp_commitLogHead st) i) (\<lambda>answer. case answer of
        Inl e \<Rightarrow> if \<not> isHeadMismatch e then fail (HubThrew e)
                 else and_then (slot_clear E i) (\<lambda>_. give LostRace)
      | Inr q \<Rightarrow> and_then (land_commit E pending i epoch q) (\<lambda>_. give Landed))) ?Q (\<lambda>_ _. False) s" if I: "?I s" for s
  proof -
    obtain q w' where "ge_publish E payload (gp_commitLogHead st) i (gp_world s) = (Inr q, w')"
      using answer I by blast
    then have "publish_frame E payload (gp_commitLogHead st) i s = (Inr (Inr q), s \<lparr> gp_world := w' \<rparr>)"
      by (simp add: publish_frame_def)
    moreover have "no_advance (s \<lparr> gp_world := w' \<rparr>)" using I by (simp add: no_advance_def)
    ultimately show ?thesis
      using ends_weaken [OF land_commit_returns [OF _ host]] by (simp add: ends_def [of "publish_frame _ _ _ _"])
  qed
  have rest: "ends (and_then (if holds then signal SettleSubmissions else give ()) (\<lambda>_.
      and_then (slot_put E entry) (\<lambda>_.
      and_then (publish_frame E payload (gp_commitLogHead st) i) (\<lambda>answer. case answer of
        Inl e \<Rightarrow> if \<not> isHeadMismatch e then fail (HubThrew e)
                 else and_then (slot_clear E i) (\<lambda>_. give LostRace)
      | Inr q \<Rightarrow> and_then (land_commit E pending i epoch q) (\<lambda>_. give Landed))))) ?Q (\<lambda>_ _. False) st" for entry
    unfolding ends_and_then [of "if holds then signal SettleSubmissions else give ()"] ends_and_then [of "slot_put E entry"]
    by (rule ends_weaken [OF settle], rule total_keeps [OF total_slot(1) put], assumption, rule publish, assumption, simp)
  show ?thesis
    unfolding publish_commit_def ends_reading Let_def ends_and_then [of "frameCommit E _ _ _"]
    unfolding ends_def [of "frameCommit E _ _ _"] framed prod.case sum.case by (rule rest)
qed

end

text \<open>A host that answers every call, in any other respect the given one.\<close>

definition calm :: "('h, 'w) peer_env \<Rightarrow> ('h, 'w) peer_env" where
  "calm E = E \<lparr> ge_write := \<lambda>w. (Done, w), ge_deliver := \<lambda>w. (True, w),
     ge_teardownEpoch := \<lambda>w. (True, w), ge_buildEpoch := \<lambda>w. (True, w) \<rparr>"

interpretation calm: calm_host "calm E" for E :: "('h, 'w) peer_env"
  by unfold_locales (simp_all add: calm_def)

end
