(* ===== verification/Journal_Hub.thy ===== *)
theory Journal_Hub
  imports Peer_Hub Calm_Host
begin

text \<open>
  A committing peer over a hub store. The world of the peer is the host's world beside the state of the
  store; a publish reaches the store, and its answer may be lost on the way back. The memory store keeps the
  laws the journal relies on, whatever it holds.
\<close>

section \<open>The peer over a store\<close>

definition on_first :: "('x \<Rightarrow> 'a \<times> 'x) \<Rightarrow> 'x \<times> 's \<Rightarrow> 'a \<times> 'x \<times> 's" where
  "on_first f w = (case f (fst w) of (a, x) \<Rightarrow> (a, (x, snd w)))"

definition commit_publish ::
  "did \<Rightarrow> topic_id \<Rightarrow> bytes \<Rightarrow> sequence_id option \<Rightarrow> string \<Rightarrow> PublishParams" where
  "commit_publish self t payload expectedHead publishID =
     \<lparr> pp_senderDID = self, pp_topicID = t, pp_payload = payload, pp_expectedHead = Some expectedHead,
       pp_publishID = Some publishID, pp_retain = Some RLog \<rparr>"

text \<open>\<open>arrives\<close> says whether the answer of the hub arrives.\<close>

definition hub_publish ::
  "(int \<Rightarrow> PublishParams \<Rightarrow> 's \<Rightarrow> (js_error + PublishResult) \<times> 's) \<Rightarrow> topic_id \<Rightarrow> ('x \<Rightarrow> bool \<times> 'x) \<Rightarrow>
     ('h, 'x) peer_env \<Rightarrow> bytes \<Rightarrow> sequence_id option \<Rightarrow> string \<Rightarrow> 'x \<times> 's \<Rightarrow> (js_error + sequence_id) \<times> 'x \<times> 's" where
  "hub_publish publish t arrives E payload expectedHead publishID w =
     (case publish (ge_now E (fst w)) (commit_publish (ge_localDID E) t payload expectedHead publishID) (snd w) of
        (answer, s) \<Rightarrow> (case arrives (fst w) of (ok, x) \<Rightarrow>
          (if ok then (case answer of Inl e \<Rightarrow> Inl e | Inr r \<Rightarrow> Inr (pr_sequenceID r))
           else Inl (OtherError ''connection lost''), (x, s))))"

definition over_hub ::
  "(int \<Rightarrow> PublishParams \<Rightarrow> 's \<Rightarrow> (js_error + PublishResult) \<times> 's) \<Rightarrow> (FetchTopicParams \<Rightarrow> 's \<Rightarrow> js_error + FetchTopicResult) \<Rightarrow>
     topic_id \<Rightarrow> ('x \<Rightarrow> bool \<times> 'x) \<Rightarrow> ('h, 'x) peer_env \<Rightarrow> ('h, 'x \<times> 's) peer_env" where
  "over_hub publish fetchTopic t arrives E =
     \<lparr> ge_normalizeDID = ge_normalizeDID E,
       ge_localDID = ge_localDID E,
       ge_digest = ge_digest E,
       ge_epoch = ge_epoch E,
       ge_roster = ge_roster E,
       ge_secret = ge_secret E,
       ge_header = ge_header E,
       ge_process = ge_process E,
       ge_openEntries = ge_openEntries E,
       ge_sealEntries = ge_sealEntries E,
       ge_frameEpoch = ge_frameEpoch E,
       ge_confirmationKey = ge_confirmationKey E,
       ge_build = \<lambda>h. on_first (ge_build E h),
       ge_onAccepted = ge_onAccepted E,
       ge_adoptJournalled = ge_adoptJournalled E,
       ge_ledgerComplete = ge_ledgerComplete E,
       ge_ledger = ge_ledger E,
       ge_gather = \<lambda>h. on_first (ge_gather E h),
       ge_write = on_first (ge_write E),
       ge_deliver = on_first (ge_deliver E),
       ge_teardownEpoch = on_first (ge_teardownEpoch E),
       ge_buildEpoch = on_first (ge_buildEpoch E),
       ge_fetch = \<lambda>after limit w. (fetchTopic (log_page (ge_localDID E) t after limit) (snd w), w),
       ge_publish = hub_publish publish t arrives E,
       ge_publishID = on_first (ge_publishID E),
       ge_now = \<lambda>w. ge_now E (fst w),
       ge_recoveryDeadlineMs = ge_recoveryDeadlineMs E,
       ge_commitDeadlineMs = ge_commitDeadlineMs E,
       ge_hasInboxLane = \<lambda>w. ge_hasInboxLane E (fst w) \<rparr>"

lemma apart_first [simp]: "snd (snd (on_first f w)) = snd w"
  by (simp add: on_first_def split: prod.splits)

abbreviation over_memory ::
  "MemoryStoreOptions \<Rightarrow> topic_id \<Rightarrow> ('x \<Rightarrow> bool \<times> 'x) \<Rightarrow> ('h, 'x) peer_env \<Rightarrow> ('h, 'x \<times> mem_store) peer_env" where
  "over_memory opts t arrives E \<equiv> over_hub (mem_publish opts) mem_fetchTopic t arrives E"

definition recorded_at :: "'x \<times> mem_store \<Rightarrow> string \<Rightarrow> sequence_id option" where
  "recorded_at w i = ms_publishRecords (snd w) i"

lemma mem_publish_answers:
  assumes "hub_publish (mem_publish opts) t arrives E payload head i w = (answer, w')"
  shows "answer = Inr q \<Longrightarrow> recorded_at w' i = Some q"
    and "recorded_at w i = Some q \<Longrightarrow> recorded_at w' i = Some q"
  using assms
  by (cases rule: mem_publish_cases [of "commit_publish (ge_localDID E) t payload head i" "snd w" opts "ge_now E (fst w)"];
      auto simp: hub_publish_def commit_publish_def recorded_at_def mem_accept_records
        split: prod.splits if_splits option.splits; fail)+

lemma mem_publish_raced:
  assumes "hub_publish (mem_publish opts) t arrives E payload head i w = (Inl e, w')" "isHeadMismatch e"
  shows "recorded_at w' i = None"
proof (cases "ms_publishRecords (snd w) i")
  case None
  with assms show ?thesis
    by (cases rule: mem_publish_cases [of "commit_publish (ge_localDID E) t payload head i" "snd w" opts "ge_now E (fst w)"])
      (auto simp: hub_publish_def recorded_at_def isHeadMismatch_def split: prod.splits if_splits)
next
  case (Some q)
  then have "mem_publish opts (ge_now E (fst w)) (commit_publish (ge_localDID E) t payload head i) (snd w)
      = (Inr \<lparr> pr_sequenceID = q, pr_deduped = True \<rparr>, snd w)"
    by (intro mem_publish_replay) (simp add: commit_publish_def)
  with assms show ?thesis
    by (auto simp: hub_publish_def isHeadMismatch_def split: prod.splits if_splits)
qed

interpretation journal: publish_log "over_memory opts t arrives E" recorded_at for opts t arrives E
proof (unfold_locales, goal_cases)
  case (1 payload head i w q w')
  then show ?case using mem_publish_answers(1) by (fastforce simp: over_hub_def)
next
  case (2 payload head i w r w' q)
  then show ?case using mem_publish_answers(2) by (fastforce simp: over_hub_def)
next
  case (3 payload head i w e w')
  then show ?case using mem_publish_raced by (fastforce simp: over_hub_def)
qed (simp_all add: over_hub_def recorded_at_def fun_eq_iff)

interpretation calm_hub: calm_host "over_memory opts t arrives (calm E)" for opts t arrives E
  by unfold_locales (simp_all add: over_hub_def calm_def on_first_def)

end
