(* ===== verification/Peer_Restart.thy ===== *)
theory Peer_Restart
  imports Walk_Laws Commit_Journal
begin

text \<open>
  A process that starts over what an earlier one left, \<^verbatim>\<open>ready\<close> and \<^verbatim>\<open>initControlLanes\<close> of
  \<^verbatim>\<open>packages/rpc/src/peer.ts\<close>: the variables of the closure are new, the handle, the hub and the slots of
  the host stay. The second half shows what the record of the anchor slot is for: wherever an advance was
  cut off, the next process finds the anchor the advance calls for.
\<close>

section \<open>Starting\<close>

text \<open>Everything but the handle, the world and the slots is at its initial value.\<close>

definition boot_peer :: "('h, 'w) peer_env \<Rightarrow> ('h, 'w) peer \<Rightarrow> ('h, 'w) peer" where
  "boot_peer E st =
     \<lparr> gp_handle = gp_handle st, gp_world = gp_world st,
       gp_anchor = \<lparr> an_secret = [], an_epoch = ge_epoch E (gp_handle st) \<rparr>,
       gp_anchorPending = None, gp_anchorRecoveryPending = False, gp_capturedAdvance = None,
       gp_sealBarrier = False, gp_sealError = False, gp_reconciledHead = None, gp_commitLogHead = None,
       gp_durableCursor = None, gp_appliedByEpoch = (\<lambda>_. None), gp_healRequested = False,
       gp_bootstrapHealRequested = False, gp_stranded = False, gp_episode = None,
       gp_floor = \<lparr> ef_epoch = ge_epoch E (gp_handle st), ef_position = None, ef_covered = True \<rparr>,
       gp_locallyRemoved = False, gp_commitOutcomes = [], gp_pendingRecovery = None,
       gp_journalReplayed = False, gp_lostCommit = None, gp_heldJournalID = None, gp_revokeHolds = 0,
       gp_inFlightEntries = None, gp_awaitingBootstrap = None, gp_rejoinRuntimeNeedsBuild = False,
       gp_pendingReenact = [], gp_recoveryGeneration = 0, gp_signals = [],
       gp_storedAnchor = gp_storedAnchor st, gp_storedCursor = gp_storedCursor st, gp_slot = gp_slot st \<rparr>"

definition host_read :: "('h, 'w) peer_env \<Rightarrow> ('h, 'w, unit) lane" where
  "host_read E = host_write E (\<lambda>s. s)"

text \<open>A stored anchor is restored, never recomputed; an empty store is the first boot.\<close>

definition restore_anchor :: "('h, 'w) peer_env \<Rightarrow> ('h, 'w, unit) lane" where
  "restore_anchor E = and_then (host_read E) (\<lambda>_. reading (\<lambda>st.
     case gp_storedAnchor st of
       None \<Rightarrow> captureAnchor E None
     | Some stored \<Rightarrow>
         and_then (change (\<lambda>s. s \<lparr> gp_anchor := as_anchor stored, gp_anchorPending := as_pending stored \<rparr>)) (\<lambda>_.
           resolveAnchorRotation E False True False)))"

definition drop_cursor :: "('h, 'w) peer_env \<Rightarrow> ('h, 'w, unit) lane" where
  "drop_cursor E = host_write E (\<lambda>s. s \<lparr> gp_storedCursor := None \<rparr>)"

text \<open>A cursor of another epoch is dropped. One without a position restores the strand alone.\<close>

definition restore_cursor :: "('h, 'w) peer_env \<Rightarrow> ('h, 'w, unit) lane" where
  "restore_cursor E = and_then (host_read E) (\<lambda>_. reading (\<lambda>st.
     case gp_storedCursor st of
       None \<Rightarrow> give ()
     | Some cursor \<Rightarrow>
         if cc_epoch cursor \<noteq> ge_epoch E (gp_handle st) then drop_cursor E
         else and_then (change (\<lambda>s. s \<lparr> gp_durableCursor := Some cursor \<rparr>)) (\<lambda>_.
           and_then (case cc_position cursor of
               None \<Rightarrow> give ()
             | Some q \<Rightarrow> change (\<lambda>s. s \<lparr> gp_reconciledHead := Some q,
                 gp_floor := \<lparr> ef_epoch = cc_epoch cursor, ef_position = Some q, ef_covered = True \<rparr> \<rparr>)) (\<lambda>_.
           if cc_stranded cursor then change (\<lambda>s. s \<lparr> gp_stranded := True, gp_healRequested := True \<rparr>)
           else give ()))))"

text \<open>The first reading of the log. What fails in it is tried again by a later wakeup.\<close>

definition seed_lane :: "nat \<Rightarrow> nat \<Rightarrow> ('h, 'w) peer_env \<Rightarrow> nat \<Rightarrow> ('h, 'w, unit) lane" where
  "seed_lane pages n E started = catching
     (and_then (restore_cursor E) (\<lambda>_.
      and_then (replayJournal E) (\<lambda>_.
      and_then (ensureLedger E) (\<lambda>gathered.
      and_then (if gathered then finalizeBootstrap E else give ()) (\<lambda>_.
      and_then (pullCommits pages n E started) (\<lambda>_. give ()))))))
     (\<lambda>_. give ())"

text \<open>The reading that closes the gap between the seed and the listeners, for a peer that stores frames.\<close>

definition reread_lane :: "nat \<Rightarrow> nat \<Rightarrow> ('h, 'w) peer_env \<Rightarrow> nat \<Rightarrow> ('h, 'w, unit) lane" where
  "reread_lane pages n E started = catching
     (and_then (replayJournal E) (\<lambda>_.
      and_then (ensureLedger E) (\<lambda>_.
        reconcileCommits pages n E started)))
     (\<lambda>_. give ())"

definition start_peer :: "nat \<Rightarrow> nat \<Rightarrow> ('h, 'w) peer_env \<Rightarrow> nat \<Rightarrow> bool \<Rightarrow> ('h, 'w, unit) lane" where
  "start_peer pages n E started storesFrames =
     and_then (slot_get E) (\<lambda>_.
     and_then (restore_anchor E) (\<lambda>_. reading (\<lambda>st.
     and_then (if gp_anchorRecoveryPending st then give () else seed_lane pages n E started) (\<lambda>_.
     and_then (buildEpoch E) (\<lambda>_. reading (\<lambda>st.
       if gp_anchorRecoveryPending st \<or> \<not> storesFrames then give ()
       else reread_lane pages n E started))))))"

text \<open>
  The start up to the end of its first replay of the journal: what the replay answered, or \<open>None\<close> when the record
  of the anchor asks for a recovery first, and then nothing is replayed.
\<close>

definition first_replay :: "('h, 'w) peer_env \<Rightarrow> ('h, 'w, bool option) lane" where
  "first_replay E =
     and_then (slot_get E) (\<lambda>_.
     and_then (restore_anchor E) (\<lambda>_. reading (\<lambda>st.
       if gp_anchorRecoveryPending st then give None
       else and_then (restore_cursor E) (\<lambda>_.
            and_then (replayJournal E) (\<lambda>replayed. give (Some replayed))))))"

section \<open>The anchor an advance calls for\<close>

definition anchor_due :: "('h, 'w) peer_env \<Rightarrow> PendingAnchorRotation \<Rightarrow> Anchor \<Rightarrow> 'h \<Rightarrow> Anchor" where
  "anchor_due E record old h =
     (if ge_epoch E h \<noteq> ar_epochBefore record \<and> rotates E record h
      then \<lparr> an_secret = ge_secret E h, an_epoch = ge_epoch E h \<rparr> else old)"

text \<open>
  The seam is open while the record stands, in memory and on disk. It is settled when the anchor is the one
  called for and the disk holds that anchor, or still the record that leads to it.
\<close>

definition open_seam :: "PendingAnchorRotation \<Rightarrow> Anchor \<Rightarrow> ('h, 'w) peer \<Rightarrow> bool" where
  "open_seam record old st \<longleftrightarrow> gp_anchorPending st = Some record \<and> gp_anchor st = old
     \<and> gp_storedAnchor st = Some \<lparr> as_anchor = old, as_pending = Some record \<rparr>"

definition settled_seam :: "('h, 'w) peer_env \<Rightarrow> PendingAnchorRotation \<Rightarrow> Anchor \<Rightarrow> ('h, 'w) peer \<Rightarrow> bool" where
  "settled_seam E record old st \<longleftrightarrow> gp_anchorPending st = None \<and> gp_anchor st = anchor_due E record old (gp_handle st)
     \<and> (gp_storedAnchor st = Some \<lparr> as_anchor = old, as_pending = Some record \<rparr>
        \<or> gp_storedAnchor st = Some \<lparr> as_anchor = anchor_due E record old (gp_handle st), as_pending = None \<rparr>)"

definition seam :: "('h, 'w) peer_env \<Rightarrow> PendingAnchorRotation \<Rightarrow> Anchor \<Rightarrow> 'h \<Rightarrow> ('h, 'w) peer \<Rightarrow> bool" where
  "seam E record old h st \<longleftrightarrow> gp_handle st = h \<and> \<not> gp_anchorRecoveryPending st
     \<and> (open_seam record old st \<or> settled_seam E record old st)"

text \<open>A peer no earlier advance is left over in.\<close>

definition seam_closed :: "('h, 'w) peer \<Rightarrow> bool" where
  "seam_closed st \<longleftrightarrow> gp_anchorPending st = None \<and> \<not> gp_anchorRecoveryPending st
     \<and> gp_storedAnchor st = Some \<lparr> as_anchor = gp_anchor st, as_pending = None \<rparr>"

text \<open>An advance that moves the epoch, over a handle that is on one side of it.\<close>

definition one_step :: "('h, 'w) peer_env \<Rightarrow> PendingAnchorRotation \<Rightarrow> 'h \<Rightarrow> bool" where
  "one_step E record h \<longleftrightarrow> ar_epochBefore record \<noteq> ar_epochAfter record
     \<and> (ge_epoch E h = ar_epochBefore record \<or> ge_epoch E h = ar_epochAfter record)"

definition seam_of where
  "seam_of st = (gp_handle st, gp_anchorRecoveryPending st, gp_anchor st, gp_anchorPending st, gp_storedAnchor st,
     gp_capturedAdvance st)"

lemma seam_of_updates [simp]:
  "seam_of (st \<lparr> gp_world := w \<rparr>) = seam_of st"
  "seam_of (st \<lparr> gp_signals := sg \<rparr>) = seam_of st"
  "seam_of (st \<lparr> gp_durableCursor := d \<rparr>) = seam_of st"
  "seam_of (st \<lparr> gp_storedCursor := d \<rparr>) = seam_of st"
  "seam_of (st \<lparr> gp_reconciledHead := q \<rparr>) = seam_of st"
  "seam_of (st \<lparr> gp_locallyRemoved := b \<rparr>) = seam_of st"
  "seam_of (st \<lparr> gp_floor := f \<rparr>) = seam_of st"
  "seam_of (st \<lparr> gp_sealError := b \<rparr>) = seam_of st"
  "seam_of (st \<lparr> gp_sealBarrier := b \<rparr>) = seam_of st"
  by (simp_all add: seam_of_def)

text \<open>What reads nothing but the seam is kept by every call that does not touch it.\<close>

definition seam_only :: "(('h, 'w) peer \<Rightarrow> bool) \<Rightarrow> bool" where
  "seam_only P \<longleftrightarrow> (\<forall>s st. seam_of s = seam_of st \<longrightarrow> P st \<longrightarrow> P s)"

named_theorems seam_calm

lemma seam_same: "seam_only P \<Longrightarrow> seam_of s = seam_of st \<Longrightarrow> P st \<Longrightarrow> P s"
  by (auto simp: seam_only_def)

lemma seam_only_seam [seam_calm]: "seam_only (seam E record old h)"
  by (auto simp: seam_only_def seam_of_def seam_def open_seam_def settled_seam_def)

lemma seam_change [seam_calm]:
  "seam_only P \<Longrightarrow> (\<And>st. seam_of (f st) = seam_of st) \<Longrightarrow> host_only P (change f)"
  by (intro host_only_change) (erule seam_same [rotated 2], simp_all)

lemma seam_signal [seam_calm]: "seam_only P \<Longrightarrow> host_only P (signal s)"
  unfolding signal_def by (intro quiet seam_calm) simp_all

lemma seam_write:
  "seam_only P \<Longrightarrow> (\<And>st. seam_of (store st) = seam_of st) \<Longrightarrow> host_only P (host_write E' store)"
  by (rule host_only_write) (erule seam_same [rotated 2], simp_all)+

lemma seam_deliver [seam_calm]: "seam_only P \<Longrightarrow> host_only P (deliver_app E')"
  by (rule host_only_deliver) (erule seam_same [rotated 2], simp_all)

lemma seam_saveCommitCursor [seam_calm]: "seam_only P \<Longrightarrow> host_only P (saveCommitCursor E q)"
  unfolding saveCommitCursor_def persistStrand_def put_cursor_def Let_def
  by (intro quiet seam_calm seam_write) simp_all

lemma seam_observe [seam_calm]: "seam_only P \<Longrightarrow> host_only P (observe E r i q)"
  unfolding observe_def Let_def by (intro quiet seam_calm) simp_all

lemma seam_advance_finally [seam_calm]: "seam_only P \<Longrightarrow> host_only P advance_finally"
  unfolding advance_finally_def finishSealBarrier_def by (intro quiet seam_calm) simp_all

section \<open>An advance, whatever fails in it\<close>

lemma keepAnchor_settles:
  assumes "gp_handle st = h" "\<not> gp_anchorRecoveryPending st" "open_seam record old st" "anchor_due E record old h = old"
  shows "ends (keepAnchor E) (\<lambda>_ s. seam E record old h s \<and> gp_anchorPending s = None)
    (\<lambda>e s. seam E record old h s \<and> e = HostError) st"
  using assms by (auto simp: keepAnchor_def finishSealBarrier_def save_anchor_def seam_def settled_seam_def open_seam_def
      split: prod.splits host_outcome.splits)

lemma captureAnchor_settles:
  assumes "gp_handle st = h" "\<not> gp_anchorRecoveryPending st" "open_seam record old st"
    and "anchor_due E record old h = \<lparr> an_secret = ge_secret E h, an_epoch = ge_epoch E h \<rparr>"
  shows "ends (captureAnchor E a) (\<lambda>_ s. seam E record old h s \<and> gp_anchorPending s = None)
    (\<lambda>e s. seam E record old h s \<and> e = HostError) st"
  using assms by (auto simp: captureAnchor_def finishSealBarrier_def save_anchor_def seam_def settled_seam_def open_seam_def
      Let_def signal_def split: prod.splits host_outcome.splits)

lemma seam_resolve:
  assumes step: "one_step E record h" and "seam E record old h st"
  shows "ends (resolveAnchorRotation E known initial landed)
    (\<lambda>_ s. seam E record old h s \<and> (known \<or> initial \<longrightarrow> gp_anchorPending s = None))
    (\<lambda>e s. seam E record old h s \<and> e = HostError) st"
proof (cases "gp_anchorPending st")
  case None
  then show ?thesis using assms(2) by (simp add: resolveAnchorRotation_def)
next
  case (Some r)
  then have st: "open_seam record old st" "gp_handle st = h" "\<not> gp_anchorRecoveryPending st"
    using assms(2) by (auto simp: seam_def settled_seam_def)
  then have r: "gp_anchorPending st = Some record" by (simp add: open_seam_def)
  note keep = ends_weaken [OF keepAnchor_settles [OF st(2,3,1)]]
  note capture = ends_weaken [OF captureAnchor_settles [OF st(2,3,1)]]
  show ?thesis
    using step assms(2) unfolding resolveAnchorRotation_def ends_reading r st(2) option.case Let_def
    by (auto simp: one_step_def anchor_due_def intro!: keep capture)
qed

lemma seam_resolve_quiet [quiet]:
  "one_step E record h \<Longrightarrow> host_only (seam E record old h) (resolveAnchorRotation E known initial landed)"
  by (rule host_onlyI, rule ends_weaken [OF seam_resolve]) simp_all

lemma seam_advance_failed [quiet]:
  "one_step E record h \<Longrightarrow> host_only (seam E record old h) (advance_failed E identity q r)"
  unfolding advance_failed_def by (intro quiet seam_calm) simp_all

lemma seam_advance_settle:
  assumes step: "one_step E record h" and "seam E record old h st"
  shows "ends (advance_settle E identity q False r)
    (\<lambda>_ s. seam E record old h s \<and> gp_anchorPending s = None) (\<lambda>e s. seam E record old h s \<and> e = HostError) st"
proof -
  have cursor: "host_only (seam E record old h) (case q of None \<Rightarrow> give () | Some p \<Rightarrow> saveCommitCursor E p)"
    by (intro quiet seam_calm)
  show ?thesis
    unfolding advance_settle_def ends_and_then
    by (rule host_only_step [OF cursor assms(2)], rule host_only_step [OF seam_observe [OF seam_only_seam]], assumption,
        rule ends_weaken [OF seam_resolve [OF step]]) auto
qed

lemma seam_advance_run:
  assumes ratchet: "ends ratchet (\<lambda>_ s. \<exists>h. one_step E record h \<and> seam E record old h s)
    (\<lambda>_ s. \<exists>h. one_step E record h \<and> seam E record old h s) st"
  shows "ends (advance_run E ratchet identity q False record)
    (\<lambda>_ s. \<exists>h. one_step E record h \<and> seam E record old h s \<and> gp_anchorPending s = None)
    (\<lambda>_ s. \<exists>h. one_step E record h \<and> seam E record old h s) st"
proof -
  let ?Q = "\<lambda>_ s. \<exists>h. one_step E record h \<and> seam E record old h s \<and> gp_anchorPending s = None"
  let ?R = "\<lambda>_ s. \<exists>h. one_step E record h \<and> seam E record old h s"
  have finished: "ends advance_finally (\<lambda>_ s. seam E record old h s \<and> gp_anchorPending s = None) R s"
    if "seam E record old h s" "gp_anchorPending s = None" for h R s
    using that by (auto simp: advance_finally_def finishSealBarrier_def elim: seam_same [OF seam_only_seam, rotated])
  have settle: "ends (and_then (advance_settle E identity q False record) (\<lambda>_. and_then advance_finally (\<lambda>_. give x)))
      ?Q (\<lambda>_ s. seam E record old h s) s" if "one_step E record h" "seam E record old h s" for x h s
    using that(1) unfolding ends_and_then ends_give
    by (intro ends_weaken [OF seam_advance_settle [OF that]]) (auto intro!: ends_weaken [OF finished])
  have failed: "ends (and_then (advance_failed E identity q record) (\<lambda>_. and_then advance_finally (\<lambda>_. fail e)))
      Q ?R s" if "one_step E record h" "seam E record old h s" for Q e h s
    using that(1) unfolding ends_and_then ends_fail
    by (intro host_only_step [OF seam_advance_failed [OF that(1)] that(2)] host_only_step [OF seam_advance_finally [OF seam_only_seam]]) auto
  show ?thesis
    unfolding advance_run_def ends_catching ends_and_then [of ratchet]
    by (rule ends_weaken [OF ratchet]) (auto simp del: ends_and_then intro!: ends_weaken [OF settle] failed)
qed

text \<open>
  A ratchet moves the handle and nothing of the seam, and the epoch not at all or to the one announced.
\<close>

definition ratchets :: "('h, 'w) peer_env \<Rightarrow> AdvanceIdentity \<Rightarrow> ('h, 'w) peer \<Rightarrow> ('h, 'w) peer \<Rightarrow> bool" where
  "ratchets E identity st s \<longleftrightarrow> snd (seam_of s) = snd (seam_of st)
     \<and> (ge_epoch E (gp_handle s) = ge_epoch E (gp_handle st) \<or> ge_epoch E (gp_handle s) = ai_epochAfter identity)"

lemma advanceHandle_seam:
  assumes closed: "seam_closed st" and moves: "ai_epochAfter identity \<noteq> ge_epoch E (gp_handle st)"
    and ratchet: "\<And>s. ends ratchet (\<lambda>_. ratchets E identity s) (\<lambda>_. ratchets E identity s) s"
  defines "record \<equiv> advance_record E identity st"
  shows "ends (advanceHandle E ratchet identity q)
    (\<lambda>_ s. \<exists>h. one_step E record h \<and> seam E record (gp_anchor st) h s \<and> gp_anchorPending s = None)
    (\<lambda>_ s. \<exists>h. one_step E record h \<and> seam E record (gp_anchor st) h s) st"
proof -
  let ?old = "gp_anchor st" and ?h = "gp_handle st"
  have pending: "gp_anchorPending st = None" "\<not> gp_anchorRecoveryPending st"
    using closed by (simp_all add: seam_closed_def)
  have rec: "ar_epochBefore record = ge_epoch E ?h" "ar_epochAfter record = ai_epochAfter identity"
    by (simp_all add: record_def advance_record_def pending Let_def)
  have step: "one_step E record h \<longleftrightarrow> ge_epoch E h = ge_epoch E ?h \<or> ge_epoch E h = ai_epochAfter identity" for h
    using moves by (auto simp: one_step_def rec)
  have due: "anchor_due E record ?old ?h = ?old" by (simp add: anchor_due_def rec)
  have ratcheted: "ends (advance_run E ratchet identity q False record)
    (\<lambda>_ s. \<exists>h. one_step E record h \<and> seam E record ?old h s \<and> gp_anchorPending s = None)
    (\<lambda>_ s. \<exists>h. one_step E record h \<and> seam E record ?old h s) s"
    if s: "seam E record ?old ?h s" "open_seam record ?old s" for s
  proof (rule seam_advance_run, rule ends_weaken [OF ratchet])
    have "\<exists>h. one_step E record h \<and> seam E record ?old h s'" if "ratchets E identity s s'" for s'
      using s that by (intro exI [of _ "gp_handle s'"]) (auto simp: step seam_def ratchets_def seam_of_def open_seam_def)
    then show "\<And>x s'. ratchets E identity s s' \<Longrightarrow> \<exists>h. one_step E record h \<and> seam E record ?old h s'"
      "\<And>x s'. ratchets E identity s s' \<Longrightarrow> \<exists>h. one_step E record h \<and> seam E record ?old h s'" by blast+
  qed
  have same: "advance_record E identity (st \<lparr> gp_world := w \<rparr>) = record" for w
    by (simp add: record_def advance_record_def)
  have here: "\<exists>h. one_step E record h \<and> seam E record ?old h s" if "seam E record ?old ?h s" for s
    using that by (auto simp: step)
  show ?thesis
    using closed unfolding advanceHandle_def
    by (auto simp: resolveAnchorRotation_def pending Let_def same save_anchor_def seam_closed_def
        intro!: ratcheted here split: prod.splits host_outcome.splits)
      (auto simp: seam_def settled_seam_def open_seam_def due pending)
qed

section \<open>An advance that lands on the same epoch number\<close>

text \<open>
  A rejoin from a losing branch, or the replay of a commit the handle already holds. The number does not say
  whether it landed; the call that ran it knows, unless an earlier try took the anchor already.
\<close>

definition anchor_landed :: "('h, 'w) peer_env \<Rightarrow> PendingAnchorRotation \<Rightarrow> string option \<Rightarrow> Anchor \<Rightarrow> 'h \<Rightarrow> Anchor" where
  "anchor_landed E record taken old h =
     (if Some (ar_advance record) \<noteq> taken \<and> rotates E record h
      then \<lparr> an_secret = ge_secret E h, an_epoch = ge_epoch E h \<rparr> else old)"

definition standstill :: "('h, 'w) peer_env \<Rightarrow> PendingAnchorRotation \<Rightarrow> 'h \<Rightarrow> bool" where
  "standstill E record h \<longleftrightarrow> ar_epochAfter record = ar_epochBefore record \<and> ge_epoch E h = ar_epochBefore record"

definition open_here ::
  "('h, 'w) peer_env \<Rightarrow> PendingAnchorRotation \<Rightarrow> Anchor \<Rightarrow> string option \<Rightarrow> 'h \<Rightarrow> ('h, 'w) peer \<Rightarrow> bool" where
  "open_here E record old taken h st \<longleftrightarrow> gp_handle st = h \<and> \<not> gp_anchorRecoveryPending st
     \<and> gp_capturedAdvance st = taken \<and> open_seam record old st"

text \<open>The anchor has been moved or kept, and the host holds it or still the record.\<close>

definition landed_here ::
  "('h, 'w) peer_env \<Rightarrow> PendingAnchorRotation \<Rightarrow> Anchor \<Rightarrow> string option \<Rightarrow> 'h \<Rightarrow> ('h, 'w) peer \<Rightarrow> bool" where
  "landed_here E record old taken h st \<longleftrightarrow> gp_handle st = h \<and> \<not> gp_anchorRecoveryPending st \<and> gp_anchorPending st = None
     \<and> gp_anchor st = anchor_landed E record taken old h
     \<and> (gp_storedAnchor st = Some \<lparr> as_anchor = old, as_pending = Some record \<rparr>
        \<or> gp_storedAnchor st = Some \<lparr> as_anchor = anchor_landed E record taken old h, as_pending = None \<rparr>)"

lemma seam_only_here [seam_calm]:
  "seam_only (open_here E record old taken h)" "seam_only (landed_here E record old taken h)"
  by (auto simp: seam_only_def seam_of_def open_here_def landed_here_def open_seam_def)

lemma resolve_here:
  assumes step: "standstill E record h" and st: "open_here E record old taken h st"
  shows "ends (resolveAnchorRotation E True False True)
    (\<lambda>_ s. landed_here E record old taken h s \<and> seam_closed s)
    (\<lambda>e s. landed_here E record old taken h s \<and> e = HostError) st"
proof -
  have st': "gp_handle st = h" "\<not> gp_anchorRecoveryPending st" "gp_capturedAdvance st = taken"
    "gp_anchorPending st = Some record" "gp_anchor st = old"
    "gp_storedAnchor st = Some \<lparr> as_anchor = old, as_pending = Some record \<rparr>"
    using st by (simp_all add: open_here_def open_seam_def)
  show ?thesis
    using step unfolding resolveAnchorRotation_def ends_reading st'(1,3,4) option.case Let_def
    by (auto simp: standstill_def captureAnchor_def keepAnchor_def finishSealBarrier_def save_anchor_def landed_here_def
        anchor_landed_def seam_closed_def st' Let_def signal_def split: prod.splits host_outcome.splits)
qed

lemma settle_here:
  assumes step: "standstill E record h" and st: "open_here E record old taken h st"
  shows "ends (advance_settle E identity q False r)
    (\<lambda>_ s. landed_here E record old taken h s \<and> seam_closed s)
    (\<lambda>_ s. open_here E record old taken h s \<or> landed_here E record old taken h s) st"
proof -
  have cursor: "host_only (open_here E record old taken h) (case q of None \<Rightarrow> give () | Some p \<Rightarrow> saveCommitCursor E p)"
    by (intro quiet seam_calm)
  have observed: "host_only (open_here E record old taken h) (observe E r identity q)" by (intro quiet seam_calm)
  show ?thesis
    unfolding advance_settle_def ends_and_then
    by (rule host_only_step [OF cursor st], rule host_only_step [OF observed], assumption,
        rule ends_weaken [OF resolve_here [OF step]]) auto
qed

lemma failed_here:
  assumes step: "standstill E record h"
  shows "host_only (open_here E record old taken h) (advance_failed E identity q r)"
    and "host_only (landed_here E record old taken h) (advance_failed E identity q r)"
proof -
  have "host_only (open_here E record old taken h) (resolveAnchorRotation E False False False)"
    using step by (auto simp: host_only_def open_here_def open_seam_def resolveAnchorRotation_def standstill_def Let_def)
  then show "host_only (open_here E record old taken h) (advance_failed E identity q r)"
    unfolding advance_failed_def by (intro quiet seam_calm) simp_all
  have "host_only (landed_here E record old taken h) (resolveAnchorRotation E False False False)"
    by (auto simp: host_only_def landed_here_def resolveAnchorRotation_def)
  then show "host_only (landed_here E record old taken h) (advance_failed E identity q r)"
    unfolding advance_failed_def by (intro quiet seam_calm) simp_all
qed

lemma run_here:
  assumes ratchet: "ends ratchet (\<lambda>_ s. \<exists>h. standstill E record h \<and> open_here E record old taken h s)
    (\<lambda>_ s. \<exists>h. standstill E record h \<and> open_here E record old taken h s) st"
  shows "ends (advance_run E ratchet identity q False record)
    (\<lambda>_ s. \<exists>h. standstill E record h \<and> landed_here E record old taken h s \<and> seam_closed s)
    (\<lambda>_ s. \<exists>h. standstill E record h \<and> (open_here E record old taken h s \<or> landed_here E record old taken h s)) st"
proof -
  let ?Q = "\<lambda>_ s. \<exists>h. standstill E record h \<and> landed_here E record old taken h s \<and> seam_closed s"
  let ?R = "\<lambda>_ s. \<exists>h. standstill E record h \<and> (open_here E record old taken h s \<or> landed_here E record old taken h s)"
  have closed: "seam_only (seam_closed :: ('a, 'b) peer \<Rightarrow> bool)"
    by (auto simp: seam_only_def seam_of_def seam_closed_def)
  have finished: "ends advance_finally (\<lambda>_ s. landed_here E record old taken h s \<and> seam_closed s) R s"
    if "landed_here E record old taken h s" "seam_closed s" for h R s
    using that by (auto simp: advance_finally_def finishSealBarrier_def seam_closed_def
        elim: seam_same [OF seam_only_here(2), rotated])
  have settle: "ends (and_then (advance_settle E identity q False record) (\<lambda>_. and_then advance_finally (\<lambda>_. give x)))
      ?Q (\<lambda>_ s. open_here E record old taken h s \<or> landed_here E record old taken h s) s"
    if "standstill E record h" "open_here E record old taken h s" for x h s
    using that(1) unfolding ends_and_then ends_give
    by (intro ends_weaken [OF settle_here [OF that]]) (auto intro!: ends_weaken [OF finished])
  have failed: "ends (and_then (advance_failed E identity q record) (\<lambda>_. and_then advance_finally (\<lambda>_. fail e))) Q ?R s"
    if step: "standstill E record h" and s: "open_here E record old taken h s \<or> landed_here E record old taken h s" for Q e h s
    using s
  proof
    assume "open_here E record old taken h s"
    then show ?thesis
      using step unfolding ends_and_then ends_fail
      by (intro host_only_step [OF failed_here(1) [OF step]] host_only_step [OF seam_advance_finally [OF seam_only_here(1)]]) auto
  next
    assume "landed_here E record old taken h s"
    then show ?thesis
      using step unfolding ends_and_then ends_fail
      by (intro host_only_step [OF failed_here(2) [OF step]] host_only_step [OF seam_advance_finally [OF seam_only_here(2)]]) auto
  qed
  show ?thesis
    unfolding advance_run_def ends_catching ends_and_then [of ratchet]
    by (rule ends_weaken [OF ratchet]) (auto simp del: ends_and_then intro!: ends_weaken [OF settle] failed)
qed

text \<open>Before the ratchet: the handle is where it was, and the record may stand or not.\<close>

definition unmoved :: "PendingAnchorRotation \<Rightarrow> ('h, 'w) peer \<Rightarrow> ('h, 'w) peer \<Rightarrow> bool" where
  "unmoved record st s \<longleftrightarrow> gp_handle s = gp_handle st \<and> \<not> gp_anchorRecoveryPending s
     \<and> (gp_storedAnchor s = Some \<lparr> as_anchor = gp_anchor st, as_pending = None \<rparr>
        \<or> gp_storedAnchor s = Some \<lparr> as_anchor = gp_anchor st, as_pending = Some record \<rparr>)"

lemma advanceHandle_here:
  assumes closed: "seam_closed st" and same: "ai_epochAfter identity = ge_epoch E (gp_handle st)"
    and ratchet: "\<And>s. ends ratchet (\<lambda>_. ratchets E identity s) (\<lambda>_. ratchets E identity s) s"
  defines "record \<equiv> advance_record E identity st" and "taken \<equiv> gp_capturedAdvance st" and "old \<equiv> gp_anchor st"
  shows "ends (advanceHandle E ratchet identity q)
    (\<lambda>_ s. \<exists>h. standstill E record h \<and> landed_here E record old taken h s \<and> seam_closed s)
    (\<lambda>_ s. unmoved record st s
      \<or> (\<exists>h. standstill E record h \<and> (open_here E record old taken h s \<or> landed_here E record old taken h s))) st"
    (is "ends _ ?Q ?R st")
proof -
  have pending: "gp_anchorPending st = None" "\<not> gp_anchorRecoveryPending st"
    and slot: "gp_storedAnchor st = Some \<lparr> as_anchor = old, as_pending = None \<rparr>"
    using closed by (simp_all add: seam_closed_def old_def)
  have rec: "ar_epochBefore record = ge_epoch E (gp_handle st)" "ar_epochAfter record = ge_epoch E (gp_handle st)"
    by (simp_all add: record_def advance_record_def pending Let_def same)
  have step: "standstill E record h \<longleftrightarrow> ge_epoch E h = ge_epoch E (gp_handle st)" for h
    by (auto simp: standstill_def rec)
  have run: "ends (advance_run E ratchet identity q False record) ?Q ?R s"
    if s: "open_here E record old taken (gp_handle st) s" for s
  proof (rule ends_weaken [OF run_here [OF ends_weaken [OF ratchet]]])
    have "\<exists>h. standstill E record h \<and> open_here E record old taken h s'" if "ratchets E identity s s'" for s'
      using s that by (intro exI [of _ "gp_handle s'"]) (auto simp: step same open_here_def ratchets_def seam_of_def open_seam_def)
    then show "\<And>x s'. ratchets E identity s s' \<Longrightarrow> \<exists>h. standstill E record h \<and> open_here E record old taken h s'"
      "\<And>x s'. ratchets E identity s s' \<Longrightarrow> \<exists>h. standstill E record h \<and> open_here E record old taken h s'" by blast+
  qed auto
  have same_record: "advance_record E identity (st \<lparr> gp_world := w \<rparr>) = record" for w
    by (simp add: record_def advance_record_def)
  show ?thesis
    unfolding advanceHandle_def
    by (auto simp: resolveAnchorRotation_def pending Let_def same_record save_anchor_def
        intro!: run split: prod.splits host_outcome.splits)
      (auto simp: unmoved_def open_here_def open_seam_def old_def [symmetric] taken_def pending slot)
qed

section \<open>The next process\<close>

text \<open>The host of the next process takes every write.\<close>

definition storing :: "('h, 'w) peer_env \<Rightarrow> ('h, 'w) peer_env" where
  "storing E = E \<lparr> ge_write := \<lambda>w. (Done, w) \<rparr>"

lemma restore_settles:
  assumes step: "one_step E record h" and "seam E record old h s"
  shows "ends (restore_anchor (storing E))
    (\<lambda>_ t. seam_closed t \<and> gp_handle t = h \<and> gp_anchor t = anchor_due E record old h)
    (\<lambda>_ _. False) (boot_peer E s)"
proof -
  let ?due = "anchor_due E record old h"
  have h: "gp_handle s = h" using assms(2) by (simp add: seam_def)
  have env [simp]: "rotates (storing E) = rotates E" "ge_write (storing E) w = (Done, w)"
    "ge_epoch (storing E) = ge_epoch E" "ge_secret (storing E) = ge_secret E" for w
    by (simp_all add: storing_def fun_eq_iff rotates_def roster_of_def cong: option.case_cong)
  from assms(2) consider "gp_storedAnchor s = Some \<lparr> as_anchor = old, as_pending = Some record \<rparr>"
    | "gp_storedAnchor s = Some \<lparr> as_anchor = ?due, as_pending = None \<rparr>"
    by (auto simp: seam_def open_seam_def settled_seam_def)
  then show ?thesis
  proof cases
    case 1
    then show ?thesis
      using step unfolding restore_anchor_def host_read_def
      by (auto simp: boot_peer_def h resolveAnchorRotation_def Let_def one_step_def anchor_due_def keepAnchor_def
          captureAnchor_def finishSealBarrier_def save_anchor_def signal_def seam_closed_def)
  next
    case 2
    then show ?thesis
      unfolding restore_anchor_def host_read_def
      by (simp add: boot_peer_def h resolveAnchorRotation_def seam_closed_def)
  qed
qed

text \<open>The next process, whose host takes every write, restores this anchor for the handle it finds.\<close>

definition restart_finds :: "('h, 'w) peer_env \<Rightarrow> Anchor \<Rightarrow> ('h, 'w) peer \<Rightarrow> bool" where
  "restart_finds E anchor s \<longleftrightarrow> ends (restore_anchor (storing E))
     (\<lambda>_ t. seam_closed t \<and> gp_handle t = gp_handle s \<and> gp_anchor t = anchor) (\<lambda>_ _. False) (boot_peer E s)"

text \<open>
  Or it finds a record it cannot decide, and asks for a confirmed recovery: the anchor and the record stay, and
  the handle is not touched.
\<close>

definition restart_asks :: "('h, 'w) peer_env \<Rightarrow> Anchor \<Rightarrow> ('h, 'w) peer \<Rightarrow> bool" where
  "restart_asks E anchor s \<longleftrightarrow> ends (restore_anchor (storing E))
     (\<lambda>_ t. gp_anchorRecoveryPending t \<and> gp_handle t = gp_handle s \<and> gp_anchor t = anchor
        \<and> gp_storedAnchor t = gp_storedAnchor s) (\<lambda>_ _. False) (boot_peer E s)"

lemma restart_from_slot:
  assumes "gp_storedAnchor s = Some \<lparr> as_anchor = a, as_pending = None \<rparr>"
  shows "restart_finds E a s"
  using assms unfolding restart_finds_def restore_anchor_def host_read_def
  by (simp add: boot_peer_def resolveAnchorRotation_def seam_closed_def storing_def)

lemma restart_undecided:
  assumes "standstill E record (gp_handle s)" "gp_storedAnchor s = Some \<lparr> as_anchor = a, as_pending = Some record \<rparr>"
  shows "restart_asks E a s"
  using assms unfolding restart_asks_def restore_anchor_def host_read_def
  by (simp add: boot_peer_def resolveAnchorRotation_def storing_def standstill_def Let_def requireAnchorRecovery_def)

end
