(* ===== verification/Restart_Laws.thy ===== *)
theory Restart_Laws
  imports Journal_Hub Peer_Restart
begin

text \<open>
  The journal across a restart: what the start of a process does to a commit that is still in the slot. The
  anchor is restored first, and a record of it that cannot be decided stops the start before the replay.
\<close>

text \<open>The record of an advance that fits neither side of it, or both.\<close>

definition undecided :: "('h, 'w) peer_env \<Rightarrow> 'h \<Rightarrow> AnchorSlot option \<Rightarrow> bool" where
  "undecided E h stored \<longleftrightarrow> (case stored of None \<Rightarrow> False | Some a \<Rightarrow> (case as_pending a of None \<Rightarrow> False | Some r \<Rightarrow>
     (if ge_epoch E h = ar_epochBefore r then ar_epochAfter r = ar_epochBefore r else ge_epoch E h \<noteq> ar_epochAfter r)))"

definition start_view :: "('h, 'w) peer \<Rightarrow> 'h \<times> AnchorSlot option \<times> bool" where
  "start_view st = (gp_handle st, gp_storedAnchor st, gp_anchorRecoveryPending st)"

lemma restore_asks:
  assumes "\<not> gp_anchorRecoveryPending st"
  shows "ends (restore_anchor E) (\<lambda>_ s. gp_anchorRecoveryPending s \<longleftrightarrow> undecided E (gp_handle st) (gp_storedAnchor st))
    (\<lambda>e _. e = HostError) st"
  using assms unfolding restore_anchor_def host_read_def undecided_def
  by (auto simp: resolveAnchorRotation_def captureAnchor_def keepAnchor_def requireAnchorRecovery_def finishSealBarrier_def
      save_anchor_def signal_def Let_def split: prod.splits host_outcome.splits option.splits)

lemma ends_both: "ends m Q R st \<Longrightarrow> ends m Q' R' st \<Longrightarrow> ends m (\<lambda>x s. Q x s \<and> Q' x s) (\<lambda>e s. R e s \<and> R' e s) st"
  by (simp add: ends_def split: prod.splits sum.splits)

lemma host_only_both:
  assumes "host_only I m" "host_only J m" shows "host_only (\<lambda>s. I s \<and> J s) m"
proof (rule host_onlyI)
  fix st assume "I st \<and> J st"
  then show "ends m (\<lambda>_ s. I s \<and> J s) (\<lambda>e s. (I s \<and> J s) \<and> e = HostError) st"
    using ends_both [of m "\<lambda>_. I" "\<lambda>e s. I s \<and> e = HostError" st "\<lambda>_. J" "\<lambda>e s. J s \<and> e = HostError"] assms
    by (auto simp: host_only_def elim: ends_weaken)
qed

context publish_log begin

lemma view_stranded [simp]: "view (st \<lparr> gp_stranded := b \<rparr>) = view st"
  by (simp add: view_def adoptions_def)

lemma viewing_read [quiet]: "host_only (viewing v) (host_read E)"
  unfolding host_read_def by (rule viewing_write) simp

lemma viewing_restore_anchor [quiet]: "host_only (viewing v) (restore_anchor E)"
  unfolding restore_anchor_def captureAnchor_def finishSealBarrier_def Let_def by (intro quiet) simp_all

lemma viewing_restore_cursor [quiet]: "host_only (viewing v) (restore_cursor E)"
  unfolding restore_cursor_def drop_cursor_def by (intro quiet viewing_write) simp_all

lemma viewing_slot_get [quiet]: "host_only (viewing v) (slot_get E)"
  unfolding slot_get_def by (intro quiet viewing_write) simp_all

text \<open>A slot no call has touched still tells what is due.\<close>

lemma resting_fate:
  assumes v: "viewing (Some e, ads, acc) st" and known: "\<And>q. je_acceptedAs e = Some q \<Longrightarrow> acc (je_publishID e) = Some q"
  shows "\<exists>f. in_fate accepted (e \<lparr> je_acceptedAs := None \<rparr>) ads f st"
proof (cases "je_acceptedAs e")
  case None
  then have "e \<lparr> je_acceptedAs := None \<rparr> = e" by simp
  with v show ?thesis using some_fate by simp
next
  case (Some q)
  let ?base = "e \<lparr> je_acceptedAs := None \<rparr>"
  from Some have e: "?base \<lparr> je_acceptedAs := Some q \<rparr> = e" by simp
  have "in_fate accepted ?base ads (Published q) st"
    by (rule fate_of_view(2) [where e = ?base and q = q and acc = acc]) (use v known [OF Some] in \<open>simp_all add: e\<close>)
  then show ?thesis by blast
qed

text \<open>
  The start asks for a recovery exactly when the record is undecided, and then the slot and the hub stay;
  otherwise it replays the journal.
\<close>

lemma first_replay_fates:
  assumes slot: "gp_slot st = Some e" and known: "\<And>q. je_acceptedAs e = Some q \<Longrightarrow> accepted (gp_world st) (je_publishID e) = Some q"
    and up: "\<not> gp_anchorRecoveryPending st"
  defines "base \<equiv> e \<lparr> je_acceptedAs := None \<rparr>"
  shows "ends (first_replay E)
    (\<lambda>outcome s. case outcome of
        None \<Rightarrow> undecided E (gp_handle st) (gp_storedAnchor st) \<and> viewing (view st) s
      | Some replayed \<Rightarrow> \<not> undecided E (gp_handle st) (gp_storedAnchor st) \<and> replay_fate accepted base (adoptions st) replayed s)
    (\<lambda>_ s. \<exists>f. in_fate accepted base (adoptions st) f s) st"
proof -
  let ?v = "view st" and ?R = "\<lambda>_ s. \<exists>f. in_fate accepted base (adoptions st) f s"
  have v: "?v = (Some e, adoptions st, accepted (gp_world st))" using slot by (simp add: view_def)
  have stuck: "\<exists>f. in_fate accepted base (adoptions st) f s" if "viewing ?v s" for s
    unfolding base_def by (rule resting_fate [OF that [unfolded v]]) (rule known)
  have replayed: "ends (and_then (restore_cursor E) (\<lambda>_. and_then (replayJournal E) (\<lambda>replayed. give (Some replayed))))
      (\<lambda>outcome s. \<exists>b. outcome = Some b \<and> replay_fate accepted base (adoptions st) b s) ?R s"
    if s: "viewing ?v s" "\<not> gp_anchorRecoveryPending s" for s
  proof -
    have cursor: "host_only (\<lambda>s. viewing ?v s \<and> \<not> gp_anchorRecoveryPending s) (restore_cursor E)"
      by (rule host_only_both [OF viewing_restore_cursor], unfold restore_cursor_def drop_cursor_def host_read_def,
        intro quiet host_only_write host_only_change) simp_all
    have journal: "ends (replayJournal E) (replay_fate accepted base (adoptions st)) ?R t"
      if "viewing ?v t" "\<not> gp_anchorRecoveryPending t" for t
    proof -
      have t: "gp_slot t = Some e" "adoptions t = adoptions st" "accepted (gp_world t) = accepted (gp_world st)"
        using that(1) slot by (simp_all add: viewing_def view_def)
      from replay_fates [of t e] show ?thesis using t known that(2) by (simp add: base_def)
    qed
    show ?thesis
      unfolding ends_and_then ends_give
      by (rule host_only_step [OF cursor]) (use s in \<open>auto intro!: ends_weaken [OF journal] intro: stuck\<close>)
  qed
  have seen: "host_only (\<lambda>s. viewing ?v s \<and> start_view s = start_view st) (slot_get E)"
    by (rule host_only_both [OF viewing_slot_get], unfold slot_get_def, intro quiet host_only_write host_only_change)
      (simp_all add: start_view_def)
  show ?thesis
    unfolding first_replay_def ends_and_then [of "slot_get E"]
  proof (rule host_only_step [OF seen])
    fix s assume s: "viewing ?v s \<and> start_view s = start_view st"
    have anchor: "ends (restore_anchor E)
        (\<lambda>_ t. viewing ?v t \<and> (gp_anchorRecoveryPending t \<longleftrightarrow> undecided E (gp_handle st) (gp_storedAnchor st)))
        (\<lambda>_ t. viewing ?v t) s"
    proof (rule ends_weaken [OF ends_both])
      show "ends (restore_anchor E) (\<lambda>_. viewing ?v) (\<lambda>_. viewing ?v) s"
        by (rule host_only_step [OF viewing_restore_anchor conjunct1 [OF s]])
      show "ends (restore_anchor E) (\<lambda>_ t. gp_anchorRecoveryPending t \<longleftrightarrow> undecided E (gp_handle st) (gp_storedAnchor st))
          (\<lambda>e _. e = HostError) s"
        using restore_asks [of s E] s up by (simp add: start_view_def)
    qed auto
    show "ends (and_then (restore_anchor E) (\<lambda>_. reading (\<lambda>st. if gp_anchorRecoveryPending st then give None
          else and_then (restore_cursor E) (\<lambda>_. and_then (replayJournal E) (\<lambda>replayed. give (Some replayed))))))
        (\<lambda>outcome s. case outcome of
            None \<Rightarrow> undecided E (gp_handle st) (gp_storedAnchor st) \<and> viewing ?v s
          | Some b \<Rightarrow> \<not> undecided E (gp_handle st) (gp_storedAnchor st) \<and> replay_fate accepted base (adoptions st) b s) ?R s"
      unfolding ends_and_then [of "restore_anchor E"] ends_reading ends_if ends_give
      by (rule ends_weaken [OF anchor]) (auto intro: stuck intro!: ends_weaken [OF replayed] simp del: ends_and_then)
  qed (use stuck in \<open>auto simp: viewing_def\<close>)
qed

end

end
