(* ===== verification/Walk_Fuel.thy ===== *)
theory Walk_Fuel
  imports Walk_Complete
begin

text \<open>
  The fuel of the walk is no part of its result: more fuel changes a run only if the run ran out of it, and
  over a hub that serves the log it does not. So the walk has one value, whatever fuel beyond the bound.
\<close>

named_theorems fueling \<open>less fuel gives the same run or runs out\<close>

definition below :: "('h, 'w, 'a) lane \<Rightarrow> ('h, 'w, 'a) lane \<Rightarrow> bool" where
  "below m m' \<longleftrightarrow> (\<forall>st. fst (m st) = Inl OutOfFuel \<or> m' st = m st)"

lemma below_refl [fueling]: "below m m"
  by (simp add: below_def)

lemma below_fail [fueling]: "below (fail OutOfFuel) m"
  by (simp add: below_def fail_def)

lemma below_and_then [fueling]:
  assumes m: "below m m'" and f: "\<And>x. below (f x) (f' x)" shows "below (and_then m f) (and_then m' f')"
proof -
  have "fst (and_then m f st) = Inl OutOfFuel \<or> and_then m' f' st = and_then m f st" for st
  proof (cases "fst (m st) = Inl OutOfFuel")
    case True
    then show ?thesis by (cases "m st") (simp add: and_then_def)
  next
    case False
    then have "m' st = m st" using m by (auto simp: below_def)
    then show ?thesis using f by (auto simp: and_then_def below_def split: prod.splits sum.splits)
  qed
  then show ?thesis by (simp add: below_def)
qed

lemma below_reading [fueling]: "(\<And>st. below (f st) (f' st)) \<Longrightarrow> below (reading f) (reading f')"
  by (simp add: below_def reading_def)

lemma below_if [fueling]: "below m n \<Longrightarrow> below m' n' \<Longrightarrow> below (if b then m else m') (if b then n else n')"
  by simp

lemma below_option [fueling]:
  "below m n \<Longrightarrow> (\<And>y. below (f y) (g y)) \<Longrightarrow>
     below (case x of None \<Rightarrow> m | Some y \<Rightarrow> f y) (case x of None \<Rightarrow> n | Some y \<Rightarrow> g y)"
  by (cases x) simp_all

lemma below_pair [fueling]:
  "(\<And>a b. below (f a b) (g a b)) \<Longrightarrow> below (case x of (a, b) \<Rightarrow> f a b) (case x of (a, b) \<Rightarrow> g a b)"
  by (cases x) simp

lemma below_sum [fueling]:
  "(\<And>a. below (f a) (f' a)) \<Longrightarrow> (\<And>b. below (g b) (g' b)) \<Longrightarrow>
     below (case x of Inl a \<Rightarrow> f a | Inr b \<Rightarrow> g b) (case x of Inl a \<Rightarrow> f' a | Inr b \<Rightarrow> g' b)"
  by (cases x) simp_all

lemma below_row [fueling]:
  "below a a' \<Longrightarrow> below b b' \<Longrightarrow> below c c' \<Longrightarrow> (\<And>p s. below (f p s) (f' p s)) \<Longrightarrow> below d d' \<Longrightarrow> below e e' \<Longrightarrow>
   below (case row of ApplyRow \<Rightarrow> a | AheadRow \<Rightarrow> b | HistoryRow \<Rightarrow> c | ForkRow p s \<Rightarrow> f p s | OwnUnmergedRow \<Rightarrow> d | PoisonRow \<Rightarrow> e)
     (case row of ApplyRow \<Rightarrow> a' | AheadRow \<Rightarrow> b' | HistoryRow \<Rightarrow> c' | ForkRow p s \<Rightarrow> f' p s | OwnUnmergedRow \<Rightarrow> d' | PoisonRow \<Rightarrow> e')"
  by (cases row) simp_all

lemma handle_commit_fuel [fueling]:
  "below (handle_commit n E localEpoch advanced q sender frame) (handle_commit (n + k) E localEpoch advanced q sender frame)"
proof (induction n arbitrary: localEpoch advanced)
  case 0
  show ?case by (simp add: below_fail)
next
  case (Suc n)
  show ?case
    unfolding handle_commit.simps add_Suc Let_def by (intro fueling Suc.IH)
qed

lemma walk_message_fuel [fueling]: "below (walk_message n E advanced m) (walk_message (n + k) E advanced m)"
  unfolding walk_message_def Let_def by (intro fueling)

lemma walk_messages_fuel [fueling]: "below (walk_messages n E advanced ms) (walk_messages (n + k) E advanced ms)"
  by (induction ms arbitrary: advanced) (simp add: fueling, unfold walk_messages.simps, intro fueling)

lemma walk_page_fuel [fueling]:
  "(\<And>a. below (continue a) (continue' a)) \<Longrightarrow>
     below (walk_page n E started covered advanced after result continue)
       (walk_page (n + k) E started covered advanced after result continue')"
  unfolding walk_page_def Let_def by (intro fueling)

lemma walk_pages_fuel [fueling]:
  "below (walk_pages pages n E started covered advanced) (walk_pages (pages + j) (n + k) E started covered advanced)"
proof (induction pages arbitrary: covered advanced)
  case 0
  show ?case by (simp add: below_fail)
next
  case (Suc pages)
  show ?case
    unfolding walk_pages.simps add_Suc Let_def by (intro fueling Suc.IH)
qed

lemma walkCommits_fuel: "below (walkCommits pages n E started) (walkCommits (pages + j) (n + k) E started)"
  unfolding walkCommits_def by (intro fueling)

lemma walkCommits_enough:
  assumes "fst (walkCommits pages n E started st) \<noteq> Inl OutOfFuel"
    and "fst (walkCommits pages' n' E started st) \<noteq> Inl OutOfFuel"
  shows "walkCommits pages n E started st = walkCommits pages' n' E started st"
proof -
  have "walkCommits (pages + pages') (n + n') E started st = walkCommits pages n E started st"
    using walkCommits_fuel [of pages n E started pages' n'] assms(1) by (auto simp: below_def)
  moreover have "walkCommits (pages' + pages) (n' + n) E started st = walkCommits pages' n' E started st"
    using walkCommits_fuel [of pages' n' E started pages n] assms(2) by (auto simp: below_def)
  ultimately show ?thesis by (simp add: add.commute)
qed

end
