(* ===== verification/Walk_Calm.thy ===== *)
theory Walk_Calm
  imports Walk_Complete
begin

text \<open>
  What a frame nobody authenticated can do to a peer. It may claim an epoch ahead, which the code accepts
  as evidence; short of that it moves the cursor, and may leave the verdict that it was superseded.
\<close>

text \<open>Bytes of a wire version this build reads, or no frame at all.\<close>

definition readable :: "bytes \<Rightarrow> bool" where
  "readable payload \<longleftrightarrow> (case decodeHandshakeFrame payload of
       Inl _ \<Rightarrow> True
     | Inr f \<Rightarrow> hf_version f = HANDSHAKE_VERSION
         \<and> (hf_kind f = HANDSHAKE_KIND Commit \<longrightarrow> (case decodeCommitFrame (hf_payload f) of
               Inl e \<Rightarrow> \<not> isUnsupportedCommitFrameVersion e | Inr _ \<Rightarrow> True)))"

text \<open>
  Not a commit, a commit of an earlier epoch served where an honest log puts it, or a commit at this epoch
  by no committer MLS vouches for.
\<close>

definition unvouched :: "('h, 'w) peer_env \<Rightarrow> 'h \<Rightarrow> (nat \<rightharpoonup> AppliedCommit) \<Rightarrow> StoredMessage \<Rightarrow> bool" where
  "unvouched E h applied m \<longleftrightarrow> readable (sm_payload m)
   \<and> (case commit_frame_of (sm_payload m) of
        None \<Rightarrow> True
      | Some frame \<Rightarrow> (case read_header E h (cf_commit frame) of
          None \<Rightarrow> True
        | Some header \<Rightarrow>
            ch_epoch header < ge_epoch E h
              \<and> (case applied (ch_epoch header) of None \<Rightarrow> True
                 | Some a \<Rightarrow> ac_sequenceID a \<le> sm_sequenceID m
                     \<or> ac_digest a = digestAppliedCommit (ge_digest E) (cf_commit frame))
            \<or> ch_epoch header = ge_epoch E h \<and> ch_committerDID header = None))"

text \<open>
  What it may change: the world it wrote the cursor to, the cursor, and the verdicts kept for members that ask
  what became of their rejoin. \<open>standing_of st s\<close> is \<open>s\<close> with these set back to what \<open>st\<close> has.
\<close>

definition standing_of :: "('h, 'w) peer \<Rightarrow> ('h, 'w) peer \<Rightarrow> ('h, 'w) peer" where
  "standing_of st s = s \<lparr> gp_world := gp_world st, gp_reconciledHead := gp_reconciledHead st,
     gp_durableCursor := gp_durableCursor st, gp_storedCursor := gp_storedCursor st,
     gp_commitOutcomes := gp_commitOutcomes st \<rparr>"

text \<open>The one verdict it leaves: an external commit that came after a different commit of its epoch.\<close>

definition superseded ::
  "('h, 'w) peer_env \<Rightarrow> ('h, 'w) peer \<Rightarrow> StoredMessage \<Rightarrow> RecoveryCommitOutcome \<Rightarrow> bool" where
  "superseded E st m verdict \<longleftrightarrow> \<not> gp_stranded st
     \<and> (case commit_frame_of (sm_payload m) of None \<Rightarrow> False | Some frame \<Rightarrow>
         (case read_header E (gp_handle st) (cf_commit frame) of None \<Rightarrow> False | Some header \<Rightarrow>
            ch_external header
            \<and> (case gp_appliedByEpoch st (ch_epoch header) of None \<Rightarrow> False | Some a \<Rightarrow>
                 ac_digest a \<noteq> digestAppliedCommit (ge_digest E) (cf_commit frame))
            \<and> verdict = SupersededOutcome (digestAppliedCommit (ge_digest E) (cf_commit frame))))"

definition verdicts_from ::
  "('h, 'w) peer_env \<Rightarrow> ('h, 'w) peer \<Rightarrow> StoredMessage list \<Rightarrow> ('h, 'w) peer \<Rightarrow> bool" where
  "verdicts_from E st ms s \<longleftrightarrow> (\<forall>kept \<in> set (gp_commitOutcomes s). kept \<in> set (gp_commitOutcomes st)
     \<or> (\<exists>m \<in> set ms. fst kept = sm_sequenceID m \<and> superseded E st m (fst (snd kept))))"

definition standing ::
  "('h, 'w) peer_env \<Rightarrow> ('h, 'w) peer \<Rightarrow> StoredMessage list \<Rightarrow> ('h, 'w) peer \<Rightarrow> bool" where
  "standing E st ms s \<longleftrightarrow> standing_of st s = st \<and> verdicts_from E st ms s"

lemma standing_updates [simp]:
  "standing E st ms (s \<lparr> gp_world := w \<rparr>) = standing E st ms s"
  "standing E st ms (s \<lparr> gp_reconciledHead := q \<rparr>) = standing E st ms s"
  "standing E st ms (s \<lparr> gp_durableCursor := d \<rparr>) = standing E st ms s"
  "standing E st ms (s \<lparr> gp_storedCursor := d \<rparr>) = standing E st ms s"
  by (simp_all add: standing_def standing_of_def verdicts_from_def)

lemma standing_start [simp]: "standing E st ms st"
  by (simp add: standing_def standing_of_def verdicts_from_def)

lemma standing_same:
  assumes "standing E st ms s"
  shows "gp_handle s = gp_handle st" "gp_appliedByEpoch s = gp_appliedByEpoch st" "gp_stranded s = gp_stranded st"
    "gp_pendingRecovery s = gp_pendingRecovery st"
proof -
  have st: "standing_of st s = st" using assms by (simp add: standing_def)
  show "gp_handle s = gp_handle st" "gp_appliedByEpoch s = gp_appliedByEpoch st" "gp_stranded s = gp_stranded st"
    "gp_pendingRecovery s = gp_pendingRecovery st"
    by (subst st [symmetric], simp add: standing_of_def)+
qed

lemma standing_change [quiet]:
  "(\<And>s. standing E st ms s \<Longrightarrow> standing E st ms (f s)) \<Longrightarrow> host_only (standing E st ms) (change f)"
  by (rule host_only_change)

lemma standing_put_cursor [quiet]: "host_only (standing E st ms) (put_cursor E' c)"
  unfolding put_cursor_def by (intro quiet host_only_write) simp_all

lemma standing_saveCommitCursor [quiet]: "host_only (standing E st ms) (saveCommitCursor E' q)"
  unfolding saveCommitCursor_def persistStrand_def Let_def by (intro quiet) simp_all

lemma cache_remove_sub: "set (snd (cache_remove k c)) \<subseteq> set c"
  by (auto simp: cache_remove_def AList.delete_eq split: option.splits)

lemma cache_get_sub: "set (snd (snd (cache_get now k c))) \<subseteq> set c"
  using cache_remove_sub [of k c] by (auto simp: cache_get_def split: option.splits)

lemma cache_set_sub: "set (snd (cache_set now k v t c)) \<subseteq> insert (k, v, t) (set c)"
proof -
  obtain front where "snd (cache_remove k c) @ [(k, v, t)] = front @ snd (cache_trim (snd (cache_remove k c) @ [(k, v, t)]))"
    using cache_trim_result by blast
  then have "set (snd (cache_trim (snd (cache_remove k c) @ [(k, v, t)]))) \<subseteq> set (snd (cache_remove k c) @ [(k, v, t)])"
    by (metis set_append sup_ge2)
  with cache_remove_sub [of k c] show ?thesis by (auto simp: cache_set_def split: prod.splits)
qed

lemma standing_recordCommitOutcome:
  assumes "m \<in> set ms" "superseded E st m verdict"
  shows "host_only (standing E st ms) (recordCommitOutcome E' (sm_sequenceID m) verdict)"
proof -
  have kept: "standing E st ms (s \<lparr> gp_commitOutcomes := held \<rparr>)"
    if "standing E st ms s" "set held \<subseteq> insert (sm_sequenceID m, verdict, t) (set (gp_commitOutcomes s))" for s held t
    using that assms unfolding standing_def verdicts_from_def standing_of_def by fastforce
  have recorded: "standing E st ms (case cache_get now (sm_sequenceID m) (gp_commitOutcomes s) of
        (Some _, _, held) \<Rightarrow> s \<lparr> gp_commitOutcomes := held \<rparr>
      | (None, _, held) \<Rightarrow> s \<lparr> gp_commitOutcomes := snd (cache_set now (sm_sequenceID m) verdict t held) \<rparr>)"
    if "standing E st ms s" for s now t
  proof -
    obtain found dropped held where get: "cache_get now (sm_sequenceID m) (gp_commitOutcomes s) = (found, dropped, held)"
      by (cases "cache_get now (sm_sequenceID m) (gp_commitOutcomes s)")
    have held: "set held \<subseteq> set (gp_commitOutcomes s)" using cache_get_sub [of now "sm_sequenceID m" "gp_commitOutcomes s"] get by simp
    show ?thesis
      using kept [OF that, of held t] kept [OF that, of "snd (cache_set now (sm_sequenceID m) verdict t held)" t]
        cache_set_sub [of now "sm_sequenceID m" verdict t held] held
      by (cases found) (auto simp: get)
  qed
  show ?thesis
    unfolding recordCommitOutcome_def Let_def by (rule standing_change) (rule recorded)
qed

lemma unvouched_row:
  assumes "unvouched E h applied m" "commit_frame_of (sm_payload m) = Some frame"
    and "gp_appliedByEpoch st = applied" "gp_handle st = h"
  shows "\<exists>row. classifyCommit (evidence (read_header E h (cf_commit frame))) (sm_sequenceID m)
      (Some (digestAppliedCommit (ge_digest E) (cf_commit frame))) (classifier_state E (ge_epoch E h) st) = row
    \<and> (row = PoisonRow \<or> row = HistoryRow \<or> (\<exists>p a header. row = ForkRow p Winning \<and> read_header E h (cf_commit frame) = Some header
        \<and> applied (ch_epoch header) = Some a \<and> ac_digest a \<noteq> digestAppliedCommit (ge_digest E) (cf_commit frame)))"
proof (cases "read_header E h (cf_commit frame)")
  case None
  then show ?thesis by (simp add: evidence_def classifyCommit_def)
next
  case (Some header)
  then consider "ch_epoch header = ge_epoch E h" "ch_committerDID header = None"
    | "ch_epoch header < ge_epoch E h" "applied (ch_epoch header) = None"
    | a where "ch_epoch header < ge_epoch E h" "applied (ch_epoch header) = Some a"
        "ac_digest a = digestAppliedCommit (ge_digest E) (cf_commit frame) \<or> ac_sequenceID a \<le> sm_sequenceID m"
    using assms(1,2) by (auto simp: unvouched_def split: option.splits)
  then show ?thesis
    by cases (auto simp: Some evidence_def classifyCommit_def classifier_state_def assms(3,4) leD)
qed

lemma unvouched_message:
  assumes start: "standing E st ms s" and m: "m \<in> set ms" "unvouched E (gp_handle st) (gp_appliedByEpoch st) m"
    and pend: "gp_pendingRecovery st = None"
  shows "ends (walk_message (Suc n) E advanced m) (\<lambda>r t. standing E st ms t \<and> r = (NextFrame, advanced))
    (\<lambda>e t. standing E st ms t \<and> e = HostError) s"
proof -
  note same = standing_same [OF start]
  have quietly: "ends (and_then a (\<lambda>_. give (NextFrame, advanced))) (\<lambda>r t. standing E st ms t \<and> r = (NextFrame, advanced))
      (\<lambda>e t. standing E st ms t \<and> e = HostError) s" if "host_only (standing E st ms) a" for a :: "('a, 'b, unit) lane"
    unfolding ends_and_then by (rule host_only_step [OF that start]) simp_all
  show ?thesis
  proof (cases "commit_frame_of (sm_payload m)")
    case None
    with m show ?thesis
      by (auto simp: walk_message_def commit_frame_of_def unvouched_def readable_def Let_def
          intro!: quietly quiet simp del: ends_and_then split: sum.splits if_splits)
  next
    case (Some frame)
    let ?digest = "digestAppliedCommit (ge_digest E) (cf_commit frame)"
    let ?header = "read_header E (gp_handle st) (cf_commit frame)"
    obtain f where f: "decodeHandshakeFrame (sm_payload m) = Inr f" "hf_version f = HANDSHAKE_VERSION"
      "hf_kind f = HANDSHAKE_KIND Commit" "decodeCommitFrame (hf_payload f) = Inr frame"
      using Some by (auto simp: commit_frame_of_def split: sum.splits if_splits)
    have fork: "and_then a (\<lambda>_. and_then (give ()) (\<lambda>_. and_then b (\<lambda>_. and_then (give ()) (\<lambda>_. give y))))
        = and_then (and_then a (\<lambda>_. b)) (\<lambda>_. give y)" for a b :: "('a, 'b, unit) lane" and y :: "walk_next \<times> bool"
      by (rule ext) (simp add: and_then_def give_def split: prod.splits sum.splits)
    have verdict: "host_only (standing E st ms) (recordCommitOutcome E (sm_sequenceID m) (SupersededOutcome ?digest))"
      if "is_external ?header" "\<not> gp_stranded st" "?header = Some header" "gp_appliedByEpoch st (ch_epoch header) = Some a"
        "ac_digest a \<noteq> ?digest" for header a
      using that Some by (intro standing_recordCommitOutcome m(1)) (simp add: superseded_def is_external_def)
    have "ends (handle_commit (Suc n) E (ge_epoch E (gp_handle st)) advanced (sm_sequenceID m) (sm_senderDID m) frame)
        (\<lambda>r t. standing E st ms t \<and> r = (NextFrame, advanced)) (\<lambda>e t. standing E st ms t \<and> e = HostError) s"
      using unvouched_row [OF m(2) Some same(2,1)]
      by (auto simp only: handle_commit.simps ends_reading Let_def CommitDisposition.simps branch.simps if_True if_False
          simp_thms fork same intro!: quietly quiet verdict)
    with f pend same show ?thesis
      by (simp add: walk_message_def Let_def del: handle_commit.simps)
  qed
qed

lemma unvouched_messages:
  assumes "standing E st ms s" "set rest \<subseteq> set ms" "gp_pendingRecovery st = None"
    and "\<forall>m \<in> set ms. unvouched E (gp_handle st) (gp_appliedByEpoch st) m"
  shows "ends (walk_messages (Suc n) E advanced rest) (\<lambda>r t. standing E st ms t \<and> r = (NextFrame, advanced))
    (\<lambda>e t. standing E st ms t \<and> e = HostError) s"
  using assms(1,2)
proof (induction rest arbitrary: s)
  case (Cons m rest)
  have m: "m \<in> set ms" "unvouched E (gp_handle st) (gp_appliedByEpoch st) m" using Cons.prems(2) assms(4) by auto
  show ?case
    unfolding walk_messages.simps ends_and_then
    by (rule ends_weaken [OF unvouched_message [OF Cons.prems(1) m assms(3)]])
      (use Cons.prems(2) Cons.IH in \<open>auto\<close>)
qed simp

end
