(* ===== verification/Peer_Props.thy ===== *)
theory Peer_Props
  imports Restart_Laws Calm_Host Walk_Fuel Walk_Calm
begin

text \<open>
  The properties of the commit lane: what a walk of the log does to the handle and that it ends, what a
  forged frame can do, what a frame carries, where an interrupted advance leaves the anchor, and what becomes
  of a commit that is interrupted.
\<close>

section \<open>A peer for the examples\<close>

text \<open>
  A handle is its epoch. A commit is two bytes, the epoch it is framed at and its author; the roster gains a
  member at epoch 1.
\<close>

definition demo_header :: "nat \<Rightarrow> bytes \<Rightarrow> CommitHeader option" where
  "demo_header h c = (case c of
       [e, d] \<Rightarrow> Some \<lparr> ch_epoch = unat e,
         ch_committerDID = (if unat e = h then Some (if d = 0 then ''did:a'' else ''did:b'') else None), ch_external = False \<rparr>
     | _ \<Rightarrow> None)"

definition demo_env :: "(nat, unit) peer_env" where
  "demo_env =
     \<lparr> ge_normalizeDID = (\<lambda>d. d), ge_localDID = ''did:b'', ge_digest = (\<lambda>c. concat (map (\<lambda>w. if w = 0 then ''a'' else ''b'') c)),
       ge_epoch = (\<lambda>h. h),
       ge_roster = (\<lambda>h. map (\<lambda>d. \<lparr> ro_did = d, ro_admission = None \<rparr>) (if h = 0 then [''did:b''] else [''did:b'', ''did:c''])),
       ge_secret = (\<lambda>h. [of_nat h]), ge_header = demo_header,
       ge_process = (\<lambda>c sender resolved h. (Processed \<lparr> po_advanced = True, po_epochBefore = h, po_epochAfter = Suc h,
           po_refusal = None \<rparr>, Suc h)),
       ge_openEntries = (\<lambda>h b. Some b), ge_sealEntries = (\<lambda>h b. b),
       ge_frameEpoch = (\<lambda>h c. map_option ch_epoch (demo_header h c)),
       ge_confirmationKey = (\<lambda>h q d. None),
       ge_build = (\<lambda>h w. (None, w)), ge_onAccepted = (\<lambda>p h. (True, Suc h)), ge_adoptJournalled = (\<lambda>j h. (True, Suc h)),
       ge_ledgerComplete = (\<lambda>h. True), ge_ledger = (\<lambda>h. []), ge_gather = (\<lambda>h w. ((True, h), w)),
       ge_write = (\<lambda>w. (Done, w)), ge_deliver = (\<lambda>w. (True, w)),
       ge_teardownEpoch = (\<lambda>w. (True, w)), ge_buildEpoch = (\<lambda>w. (True, w)),
       ge_fetch = (\<lambda>after limit w. (Inl (OtherError ''no hub''), w)),
       ge_publish = (\<lambda>payload head i w. (Inl (OtherError ''no hub''), w)), ge_publishID = (\<lambda>w. (''i'', w)),
       ge_now = (\<lambda>w. 0), ge_recoveryDeadlineMs = 1000, ge_commitDeadlineMs = 1000, ge_hasInboxLane = (\<lambda>w. False) \<rparr>"

definition demo_peer :: "nat \<Rightarrow> 'w \<Rightarrow> (nat, 'w) peer" where
  "demo_peer h w =
     \<lparr> gp_handle = h, gp_world = w, gp_anchor = \<lparr> an_secret = [0], an_epoch = 0 \<rparr>,
       gp_anchorPending = None, gp_anchorRecoveryPending = False, gp_capturedAdvance = None,
       gp_sealBarrier = False, gp_sealError = False, gp_reconciledHead = None, gp_commitLogHead = None,
       gp_durableCursor = None, gp_appliedByEpoch = (\<lambda>_. None), gp_healRequested = False,
       gp_bootstrapHealRequested = False, gp_stranded = False, gp_episode = None,
       gp_floor = \<lparr> ef_epoch = h, ef_position = None, ef_covered = True \<rparr>,
       gp_locallyRemoved = False, gp_commitOutcomes = [], gp_pendingRecovery = None,
       gp_journalReplayed = True, gp_lostCommit = None, gp_heldJournalID = None, gp_revokeHolds = 0,
       gp_inFlightEntries = None, gp_awaitingBootstrap = None, gp_rejoinRuntimeNeedsBuild = False,
       gp_pendingReenact = [], gp_recoveryGeneration = 0, gp_signals = [],
       gp_storedAnchor = Some \<lparr> as_anchor = \<lparr> an_secret = [0], an_epoch = 0 \<rparr>, as_pending = None \<rparr>,
       gp_storedCursor = None, gp_slot = None \<rparr>"

text \<open>The payload of a commit frame without entries.\<close>

definition framed :: "bytes \<Rightarrow> bytes" where
  "framed c = HANDSHAKE_MAGIC @ [HANDSHAKE_VERSION, HANDSHAKE_KIND Commit]
     @ encodeCommitFrame \<lparr> cf_commit = c, cf_sealedEntries = encodeLedgerEntries [] \<rparr>"

definition lead_frame :: PublishParams where
  "lead_frame = commit_publish ''did:a'' ''t'' (framed [0, 0]) None ''c1''"

definition after_lead :: mem_store where
  "after_lead = mem_accept default_options 0 lead_frame joined"

definition lead_history :: history where
  "lead_history = record_publish lead_frame (Inr \<lparr> pr_sequenceID = q1, pr_deduped = False \<rparr>) no_history"

lemma publish_lead:
  "mem_publish default_options 0 lead_frame joined = (Inr \<lparr> pr_sequenceID = q1, pr_deduped = False \<rparr>, after_lead)"
  by (simp add: mem_publish_accept after_lead_def lead_frame_def commit_publish_def first_defs)

lemma run_lead: "mem_run default_options createMemoryStore no_history after_lead lead_history"
  unfolding lead_history_def
  by (rule hub_run.publish [where publish = "mem_publish default_options", OF run_joined publish_lead])

lemma lead_history_eq: "lead_history = no_history(''t'' := [log_frame lead_frame q1])"
  by (simp add: lead_history_def record_publish_def lead_frame_def commit_publish_def retain_of_def)

lemma after_lead_state:
  "after_lead = joined\<lparr>ms_counter := 1,
     ms_entries := [(q1, \<lparr>le_sequenceID = q1, le_senderDID = ''did:a'', le_topicID = ''t'',
       le_payload = framed [0, 0], le_storedAt = 0, le_retain = RLog, le_pendingFor = [''did:b'']\<rparr>)],
     ms_topicLogs := [''t'' \<mapsto> [q1]], ms_deliveries := [''did:b'' \<mapsto> [q1]],
     ms_heads := [''t'' \<mapsto> q1], ms_publishRecords := [''c1'' \<mapsto> q1]\<rparr>"
  by (simp add: after_lead_def mem_accept_def mem_mint_def mem_entry_def mem_recipients_def appendEntry_def
      pushEntry_def Let_def lead_frame_def commit_publish_def first_defs default_options_def isLogEntry_def)

lemma after_lead_room: "mem_room after_lead"
  by (simp add: after_lead_state mem_room_def seq_space_def)

lemma after_lead_log: "mem_log after_lead ''t'' = [log_frame lead_frame q1]"
proof -
  have "log_frame lead_frame q1 \<in> set (mem_log after_lead ''t'')"
    by (simp add: mem_log_def after_lead_state joined_state createMemoryStore_def isLogEntry_def is_log_of_def List.map_filter_def
        asStoredMessage_def log_frame_def lead_frame_def commit_publish_def)
  moreover have "\<exists>k. mem_log after_lead ''t'' = drop k [log_frame lead_frame q1]"
    using mem.run_from_init_keeps(2) [OF run_lead after_lead_room, of "''t''"]
    by (auto simp: keeps_def pruned_def lead_history_eq)
  ultimately show ?thesis by (auto simp: drop_Cons' split: if_splits)
qed

text \<open>The demo peer with the store as its hub.\<close>

definition lead_env :: "(nat, unit) peer_env" where
  "lead_env = demo_env \<lparr> ge_fetch := \<lambda>after limit w. (mem_fetchTopic (log_page ''did:b'' ''t'' after limit) after_lead, w) \<rparr>"

lemma lead_env_port: "answers_own_epoch lead_env"
  by (simp add: answers_own_epoch_def lead_env_def demo_env_def)

lemma lead_env_hub: "fetches_from lead_env mem_fetchTopic after_lead ''t''"
  by (simp add: fetches_from_def lead_env_def demo_env_def)

section \<open>The walk\<close>

text \<open>
  Claim C6. A walk over a memory store that has removed no frame past the cursor ends, whatever the host
  fails at. When it returns, the handle is what enacting the accepted frames past the cursor in order makes
  of it, all of them unless the peer is now stranded; and then the peer holds the tip of the log and has
  nothing left to read.
\<close>

theorem memory_walk_enacts_log:
  assumes "mem_run opts createMemoryStore no_history s H" "mem_room s"
    and "fetches_from E mem_fetchTopic s t" "mem_isSubscriber s t (ge_localDID E)"
    and "\<forall>m \<in> set (H t). past_cursor (gp_reconciledHead st) (sm_sequenceID m) \<longrightarrow> m \<in> set (mem_log s t)"
    and "answers_own_epoch E" "gp_pendingRecovery st = None" "\<not> gp_anchorRecoveryPending st"
    and "length (H t) < COMMIT_FETCH_LIMIT * pages"
  shows "ends (walkCommits pages (Suc n) E started)
    (\<lambda>_ st'.
       (\<exists>k \<le> length (frames_after (gp_reconciledHead st) (H t)).
          gp_handle st' = enact_log E (take k (frames_after (gp_reconciledHead st) (H t))) (gp_handle st) \<and>
          (k = length (frames_after (gp_reconciledHead st) (H t)) \<or> gp_stranded st')) \<and>
       (gp_stranded st' \<or> gp_commitLogHead st' = log_head (H t) \<and> frames_after (gp_reconciledHead st') (H t) = []))
    (\<lambda>e _. e \<noteq> OutOfFuel) st"
  by (rule ends_weaken [OF mem.store_walk [OF assms]]) (simp_all add: walked_def)

theorem memory_walk_enacts_log_witness:
  "ends (walkCommits 1 1 lead_env 0)
    (\<lambda>_ st'. (\<exists>k \<le> 1. gp_handle st' = enact_log lead_env (take k [log_frame lead_frame q1]) 0 \<and> (k = 1 \<or> gp_stranded st')) \<and>
       (gp_stranded st' \<or> gp_commitLogHead st' = Some q1 \<and> frames_after (gp_reconciledHead st') [log_frame lead_frame q1] = []))
    (\<lambda>e _. e \<noteq> OutOfFuel) (demo_peer 0 ()) \<and> enact_log lead_env [log_frame lead_frame q1] 0 = 1"
proof
  have history: "lead_history ''t'' = [log_frame lead_frame q1]" by (simp add: lead_history_eq)
  have member: "mem_isSubscriber after_lead ''t'' (ge_localDID lead_env)"
    by (simp add: mem_isSubscriber_def after_lead_state joined_state lead_env_def demo_env_def)
  have kept: "\<forall>m \<in> set (lead_history ''t''). past_cursor (gp_reconciledHead (demo_peer 0 ())) (sm_sequenceID m)
      \<longrightarrow> m \<in> set (mem_log after_lead ''t'')"
    by (simp add: history after_lead_log)
  show "ends (walkCommits 1 1 lead_env 0)
    (\<lambda>_ st'. (\<exists>k \<le> 1. gp_handle st' = enact_log lead_env (take k [log_frame lead_frame q1]) 0 \<and> (k = 1 \<or> gp_stranded st')) \<and>
       (gp_stranded st' \<or> gp_commitLogHead st' = Some q1 \<and> frames_after (gp_reconciledHead st') [log_frame lead_frame q1] = []))
    (\<lambda>e _. e \<noteq> OutOfFuel) (demo_peer 0 ())"
    using memory_walk_enacts_log [OF run_lead after_lead_room lead_env_hub member kept lead_env_port, of 1 0 0]
    by (simp add: history demo_peer_def frames_after_def log_head_def log_frame_def COMMIT_FETCH_LIMIT_def)
  show "enact_log lead_env [log_frame lead_frame q1] 0 = 1"
    by (simp add: enact_def commit_frame_of_def log_frame_def lead_frame_def commit_publish_def framed_def
        decodeHandshakeFrame_def HANDSHAKE_MAGIC_def HANDSHAKE_VERSION_def HANDSHAKE_KIND_def isHandshakeKind_def
        decode_encode_commit applicable_def process_frame_def read_header_def lead_env_def demo_env_def demo_header_def Let_def)
qed

text \<open>
  Claim C21. The walk terminates: over an SQL store that has removed no frame past the cursor it has one
  outcome, reached with any number of pages beyond a hundredth of the log and any fuel for the loop over one
  frame, and that outcome is not the end of the fuel.
\<close>

theorem sql_walk_terminates:
  assumes "hub_run (sql_publish opts) (sql_maintain opts) hubStoreMigrations no_history s H" "sql_room s"
    and "fetches_from E sql_fetchTopic s t" "sql_isSubscriber s t (ge_localDID E)"
    and "\<forall>m \<in> set (H t). past_cursor (gp_reconciledHead st) (sm_sequenceID m) \<longrightarrow> m \<in> set (sql_log s t)"
    and "answers_own_epoch E" "gp_pendingRecovery st = None" "\<not> gp_anchorRecoveryPending st"
  shows "\<exists>outcome. fst outcome \<noteq> Inl OutOfFuel \<and>
    (\<forall>pages n. length (H t) < COMMIT_FETCH_LIMIT * pages \<longrightarrow> walkCommits pages (Suc n) E started st = outcome)"
proof -
  have done_in_time: "fst (walkCommits pages (Suc n) E started st) \<noteq> Inl OutOfFuel"
    if "length (H t) < COMMIT_FETCH_LIMIT * pages" for pages n
    using sql.store_walk [OF assms that, of n started]
    by (cases "walkCommits pages (Suc n) E started st") (auto simp: ends_def split: sum.splits)
  let ?pages = "Suc (length (H t))"
  have enough: "length (H t) < COMMIT_FETCH_LIMIT * ?pages" by (simp add: COMMIT_FETCH_LIMIT_def)
  have "walkCommits pages (Suc n) E started st = walkCommits ?pages 1 E started st"
    if "length (H t) < COMMIT_FETCH_LIMIT * pages" for pages n
    using walkCommits_enough [OF done_in_time [OF that] done_in_time [OF enough, of 0]] by simp
  then show ?thesis using done_in_time [OF enough, of 0] by (intro exI [of _ "walkCommits ?pages 1 E started st"]) simp
qed

definition sql_env :: "(nat, unit) peer_env" where
  "sql_env = demo_env \<lparr> ge_fetch := \<lambda>after limit w. (sql_fetchTopic (log_page ''did:b'' ''t'' after limit) sql_after, w) \<rparr>"

theorem sql_walk_terminates_witness:
  "\<exists>outcome. fst outcome \<noteq> Inl OutOfFuel \<and>
    (\<forall>pages n. 1 < COMMIT_FETCH_LIMIT * pages \<longrightarrow> walkCommits pages (Suc n) sql_env 0 (demo_peer 0 ()) = outcome)"
proof -
  have history: "sql_first_history ''t'' = [log_frame sql_first sq1]"
    by (simp add: sql_first_history_def record_publish_def sql_first_def retain_of_def)
  have hub: "fetches_from sql_env sql_fetchTopic sql_after ''t''"
    by (simp add: fetches_from_def sql_env_def demo_env_def)
  have port: "answers_own_epoch sql_env" by (simp add: answers_own_epoch_def sql_env_def demo_env_def)
  have member: "sql_isSubscriber sql_after ''t'' (ge_localDID sql_env)"
    by (simp add: sql_isSubscriber_def sql_after_state sql_joined_state sql_env_def demo_env_def)
  have kept: "\<forall>m \<in> set (sql_first_history ''t''). past_cursor (gp_reconciledHead (demo_peer 0 ())) (sm_sequenceID m)
      \<longrightarrow> m \<in> set (sql_log sql_after ''t'')"
    by (simp add: history sql_log_def is_log_row_def as_message_def sql_after_state log_frame_def sql_first_def)
  show ?thesis
    using sql_walk_terminates [OF sql_run_after sql_after_room hub member kept port, of 0] by (simp add: history demo_peer_def)
qed

section \<open>Frames nobody vouches for\<close>




section \<open>What a frame carries\<close>

text \<open>
  Claim C24. A frame a member built fits the hub, and a member at the same epoch, which can open what was
  sealed there, reads from it the very commit and the very entries.
\<close>

theorem framed_commit_reads_back:
  assumes "frameCommit E c bodies framedAt st = (Inr (payload, epoch), st')"
    and "length bodies < 2 ^ 16" and "\<forall>token \<in> set bodies. length (utf8 token) < 2 ^ 32"
    and "ge_openEntries E h (ge_sealEntries E (gp_handle st) (encodeLedgerEntries bodies)) = Some (encodeLedgerEntries bodies)"
  shows "length payload \<le> 786432 \<and> epoch = ge_epoch E (gp_handle st) \<and> st' = st \<and>
    (\<exists>frame. commit_frame_of payload = Some frame \<and> cf_commit frame = c \<and>
       resolveLedgerEntries (ge_openEntries E h) (cf_sealedEntries frame) wanted = bodies)"
proof -
  let ?f = "\<lparr> cf_commit = c, cf_sealedEntries = ge_sealEntries E (gp_handle st) (encodeLedgerEntries bodies) \<rparr>"
  from assms(1) have enc: "encodeHandshakeFrame Commit (encodeCommitFrame ?f) = Inr payload"
    and fits: "frame_fits payload" and rest: "epoch = ge_epoch E (gp_handle st)" "st' = st"
    by (auto simp: frameCommit_def reading_def Let_def fail_def give_def assertFrameFits_def split: if_splits sum.splits)
  have len: "length payload \<le> 786432" by (rule frame_fits_length [OF fits])
  have "length c \<le> length payload"
    using enc by (auto simp: encodeHandshakeFrame_def encodeCommitFrame_def Let_def split: if_splits)
  then have "length (cf_commit ?f) < 2 ^ 32" using len by simp
  then have "commit_frame_of payload = Some ?f"
    using decode_encode_handshake [OF enc] decode_encode_commit by (simp add: commit_frame_of_def)
  moreover have "resolveLedgerEntries (ge_openEntries E h) (cf_sealedEntries ?f) wanted = bodies"
    using assms(4) decode_encode_entries [OF assms(2,3)] by (simp add: resolveLedgerEntries_def)
  ultimately show ?thesis using len rest by (intro conjI exI [of _ ?f]) simp_all
qed

theorem framed_commit_reads_back_witness:
  "\<exists>payload. frameCommit demo_env [0, 1] [''entry''] (Some 0) (demo_peer 0 ()) = (Inr (payload, 0), demo_peer 0 ()) \<and>
    (\<exists>frame. commit_frame_of payload = Some frame \<and> cf_commit frame = [0, 1] \<and>
       resolveLedgerEntries (ge_openEntries demo_env 0) (cf_sealedEntries frame) [] = [''entry''])"
proof -
  obtain payload where p: "frameCommit demo_env [0, 1] [''entry''] (Some 0) (demo_peer 0 ()) = (Inr (payload, 0), demo_peer 0 ())"
    by (simp add: frameCommit_def reading_def Let_def demo_env_def demo_peer_def encodeHandshakeFrame_def give_def fail_def
        assertFrameFits_def frame_fits_def encodeCommitFrame_def encodeLedgerEntries_def encode_token_def utf8_def HANDSHAKE_MAGIC_def)
  have "length [''entry''] < 2 ^ 16" "\<forall>token \<in> set [''entry'']. length (utf8 token) < 2 ^ 32"
    "ge_openEntries demo_env 0 (ge_sealEntries demo_env (gp_handle (demo_peer 0 ())) (encodeLedgerEntries [''entry'']))
      = Some (encodeLedgerEntries [''entry''])"
    by (simp_all add: utf8_def demo_env_def)
  from framed_commit_reads_back [OF p this, of "[]"] p show ?thesis by blast
qed

section \<open>The anchor\<close>

text \<open>
  Claim C7. An advance of the handle leaves the anchor where it belongs, wherever it is cut off. An advance to
  another epoch number: if it returns, its record is resolved and the anchor moved exactly when the epoch
  moved and the record says so (a forced rotation, an admitted leaf or a changed roster); if any write, call
  or the ratchet itself throws, before or after it took effect, the next process restores that same anchor for
  the handle it finds. An advance that lands on the number it left (a rejoin, or the replay of a commit the
  handle holds): if it returns, the anchor moved exactly when the record says so and no earlier try had taken
  it; if it is cut off while its record stands in the slot, the next process keeps the old anchor and asks for
  a confirmed recovery, and otherwise it restores the old anchor for the unmoved handle or the one the advance
  led to.
\<close>

theorem interrupted_advance_restores_anchor:
  assumes "seam_closed st"
    and "\<forall>s. ends ratchet (\<lambda>_. ratchets E identity s) (\<lambda>_. ratchets E identity s) s"
  shows "if ai_epochAfter identity \<noteq> ge_epoch E (gp_handle st)
    then ends (advanceHandle E ratchet identity q)
      (\<lambda>_ s. gp_anchorPending s = None \<and>
         gp_anchor s = anchor_due E (advance_record E identity st) (gp_anchor st) (gp_handle s) \<and>
         restart_finds E (anchor_due E (advance_record E identity st) (gp_anchor st) (gp_handle s)) s)
      (\<lambda>_ s. restart_finds E (anchor_due E (advance_record E identity st) (gp_anchor st) (gp_handle s)) s) st
    else ends (advanceHandle E ratchet identity q)
      (\<lambda>_ s. gp_anchorPending s = None \<and>
         gp_anchor s = anchor_landed E (advance_record E identity st) (gp_capturedAdvance st) (gp_anchor st) (gp_handle s) \<and>
         restart_finds E (gp_anchor s) s)
      (\<lambda>_ s. if gp_storedAnchor s = Some \<lparr> as_anchor = gp_anchor st, as_pending = Some (advance_record E identity st) \<rparr>
         then restart_asks E (gp_anchor st) s
         else restart_finds E (gp_anchor st) s \<and> gp_handle s = gp_handle st \<or>
           restart_finds E (anchor_landed E (advance_record E identity st) (gp_capturedAdvance st) (gp_anchor st) (gp_handle s)) s) st"
proof (cases "ai_epochAfter identity = ge_epoch E (gp_handle st)")
  case False
  let ?noted = "advance_record E identity st" and ?old = "gp_anchor st"
  have seam: "ends (advanceHandle E ratchet identity q)
    (\<lambda>_ s. \<exists>h. one_step E ?noted h \<and> seam E ?noted ?old h s \<and> gp_anchorPending s = None)
    (\<lambda>_ s. \<exists>h. one_step E ?noted h \<and> seam E ?noted ?old h s) st"
    using assms False by (intro advanceHandle_seam) auto
  have found: "restart_finds E (anchor_due E ?noted ?old (gp_handle s)) s"
    if "one_step E ?noted h" "seam E ?noted ?old h s" for h s
    using restore_settles [OF that] that(2) by (simp add: restart_finds_def seam_def)
  show ?thesis
    unfolding if_P [OF False]
    by (rule ends_weaken [OF seam])
      (auto intro: found simp: seam_def [of _ _ _ _ s for s] open_seam_def settled_seam_def)
next
  case True
  have run: "ends (advanceHandle E ratchet identity q)
      (\<lambda>_ s. \<exists>h. standstill E (advance_record E identity st) h
         \<and> landed_here E (advance_record E identity st) (gp_anchor st) (gp_capturedAdvance st) h s \<and> seam_closed s)
      (\<lambda>_ s. unmoved (advance_record E identity st) st s \<or> (\<exists>h. standstill E (advance_record E identity st) h
         \<and> (open_here E (advance_record E identity st) (gp_anchor st) (gp_capturedAdvance st) h s
            \<or> landed_here E (advance_record E identity st) (gp_anchor st) (gp_capturedAdvance st) h s))) st"
    using assms True by (intro advanceHandle_here) auto
  have here: "standstill E (advance_record E identity st) (gp_handle st)"
    using assms(1) True by (simp add: standstill_def advance_record_def seam_closed_def Let_def)
  have asks: "restart_asks E (gp_anchor st) s" if "gp_handle s = gp_handle st"
    "gp_storedAnchor s = Some \<lparr> as_anchor = gp_anchor st, as_pending = Some (advance_record E identity st) \<rparr>" for s
    by (rule restart_undecided [OF _ that(2)]) (simp add: that(1) here)
  show ?thesis
    unfolding True simp_thms if_False
    by (rule ends_weaken [OF run])
      (auto simp: landed_here_def open_here_def open_seam_def unmoved_def seam_closed_def
        intro: restart_from_slot restart_undecided asks)
qed

definition demo_identity :: AdvanceIdentity where
  "demo_identity = \<lparr> ai_epochAfter = 1, ai_forced = True, ai_advance = ''ab'', ai_recovery = False \<rparr>"

abbreviation demo_ratchet :: "(nat, unit, unit) lane" where
  "demo_ratchet \<equiv> change (\<lambda>s. s \<lparr> gp_handle := 1 \<rparr>)"

definition demo_due :: "nat \<Rightarrow> Anchor" where
  "demo_due = anchor_due demo_env (advance_record demo_env demo_identity (demo_peer 0 ())) (gp_anchor (demo_peer 0 ()))"

definition demo_rejoined :: "nat \<Rightarrow> Anchor" where
  "demo_rejoined = anchor_landed demo_env (advance_record demo_env demo_identity (demo_peer 1 ())) None (gp_anchor (demo_peer 1 ()))"

theorem interrupted_advance_restores_anchor_witness:
  "ends (advanceHandle demo_env demo_ratchet demo_identity None)
    (\<lambda>_ s. gp_anchorPending s = None \<and> gp_anchor s = demo_due (gp_handle s) \<and> restart_finds demo_env (demo_due (gp_handle s)) s)
    (\<lambda>_ s. restart_finds demo_env (demo_due (gp_handle s)) s) (demo_peer 0 ()) \<and>
   ends (advanceHandle demo_env demo_ratchet demo_identity None)
    (\<lambda>_ s. gp_anchorPending s = None \<and> gp_anchor s = demo_rejoined (gp_handle s) \<and> restart_finds demo_env (gp_anchor s) s)
    (\<lambda>_ _. True) (demo_peer 1 ()) \<and>
   demo_due 1 = \<lparr> an_secret = [1], an_epoch = 1 \<rparr> \<and> demo_rejoined 1 = \<lparr> an_secret = [1], an_epoch = 1 \<rparr>"
proof (intro conjI)
  have closed: "seam_closed (demo_peer h ())" for h by (simp add: seam_closed_def demo_peer_def)
  have port: "ge_epoch demo_env h = h" "gp_handle (demo_peer h ()) = h" "gp_capturedAdvance (demo_peer h ()) = None"
    "ai_epochAfter demo_identity = 1" for h by (simp_all add: demo_env_def demo_peer_def demo_identity_def)
  have ratchet: "\<forall>s. ends demo_ratchet (\<lambda>_. ratchets demo_env demo_identity s) (\<lambda>_. ratchets demo_env demo_identity s) s"
    by (simp add: ratchets_def seam_of_def demo_env_def demo_identity_def)
  show "ends (advanceHandle demo_env demo_ratchet demo_identity None)
    (\<lambda>_ s. gp_anchorPending s = None \<and> gp_anchor s = demo_due (gp_handle s) \<and> restart_finds demo_env (demo_due (gp_handle s)) s)
    (\<lambda>_ s. restart_finds demo_env (demo_due (gp_handle s)) s) (demo_peer 0 ())"
    using interrupted_advance_restores_anchor [OF closed ratchet, of 0 None] by (simp add: port demo_due_def)
  show "ends (advanceHandle demo_env demo_ratchet demo_identity None)
    (\<lambda>_ s. gp_anchorPending s = None \<and> gp_anchor s = demo_rejoined (gp_handle s) \<and> restart_finds demo_env (gp_anchor s) s)
    (\<lambda>_ _. True) (demo_peer 1 ())"
    using interrupted_advance_restores_anchor [OF closed ratchet, of 1 None]
    unfolding port simp_thms if_False demo_rejoined_def by (rule ends_weaken) blast+
  show "demo_due 1 = \<lparr> an_secret = [1], an_epoch = 1 \<rparr>" "demo_rejoined 1 = \<lparr> an_secret = [1], an_epoch = 1 \<rparr>"
    by (simp_all add: demo_due_def demo_rejoined_def anchor_due_def anchor_landed_def advance_record_def demo_env_def
        demo_identity_def demo_peer_def rotates_def Let_def)
qed

section \<open>The journal\<close>

text \<open>
  Claim C4. Publishing a commit over the memory store, with any failure of the host and with answers of the
  hub that get lost: a commit that landed is recorded by the hub, adopted once and gone from the slot; a lost
  race was never recorded and adopts nothing; and when anything throws, the commit is either not recorded and
  not adopted, or recorded with the slot still naming it, or adopted with its acceptance in the slot until the
  slot is cleared.
\<close>

theorem commit_accounted_for:
  assumes "gp_slot st = None" and "recorded_at (gp_world st) i = None"
  shows "ends (publish_commit (over_memory opts t arrives E) holds pending i)
    (\<lambda>outcome s. gp_slot s = None \<and> (case outcome of
         Landed \<Rightarrow> (\<exists>q. recorded_at (gp_world s) i = Some q) \<and> adoptions s = adoptions st @ [pc_journal pending]
       | LostRace \<Rightarrow> recorded_at (gp_world s) i = None \<and> adoptions s = adoptions st))
    (\<lambda>_ s. \<exists>f. in_fate recorded_at (journal_entry i (gp_commitLogHead st) (ge_epoch E (gp_handle st)) holds pending)
       (adoptions st) f s) st"
  by (rule ends_weaken [OF journal.publish_commit_fates [OF assms]])
    (auto simp: attempt_fate_def journal_entry_def over_hub_def split: attempt.splits)

definition demo_commit :: PendingCommit where
  "demo_commit = \<lparr> pc_commit = [0, 1], pc_bodies = [], pc_kind = LedgerCommit, pc_journal = [9] \<rparr>"

abbreviation demo_hub :: "(nat, unit \<times> mem_store) peer_env" where
  "demo_hub \<equiv> over_memory default_options ''t'' (\<lambda>x. (True, x)) demo_env"

theorem commit_accounted_for_witness:
  "ends (publish_commit demo_hub False demo_commit ''i'')
    (\<lambda>outcome s. gp_slot s = None \<and> (case outcome of
         Landed \<Rightarrow> (\<exists>q. recorded_at (gp_world s) ''i'' = Some q) \<and> adoptions s = [[9]]
       | LostRace \<Rightarrow> recorded_at (gp_world s) ''i'' = None \<and> adoptions s = []))
    (\<lambda>_ s. \<exists>f. in_fate recorded_at (journal_entry ''i'' None 0 False demo_commit) [] f s) (demo_peer 0 ((), joined))"
proof -
  let ?st = "demo_peer 0 ((), joined)"
  have ready: "gp_slot ?st = None" "recorded_at (gp_world ?st) ''i'' = None"
    by (simp_all add: demo_peer_def recorded_at_def joined_state createMemoryStore_def)
  have known: "gp_commitLogHead ?st = None" "adoptions ?st = []" "pc_journal demo_commit = [9]" "ge_epoch demo_env (gp_handle ?st) = 0"
    by (simp_all add: demo_peer_def adoptions_def List.map_filter_def demo_commit_def demo_env_def)
  show ?thesis
    using commit_accounted_for [OF ready, of default_options "''t''" "\<lambda>x. (True, x)" demo_env False demo_commit]
    unfolding known append_Nil .
qed

text \<open>
  Claim C23. A commit lands: when no call of the host fails, the answer of the hub arrives and the head the
  walk took is still the tip, publishing a commit that fits a frame returns that it landed.
\<close>

theorem commit_lands:
  fixes E :: "('h, 'x) peer_env"
  assumes "no_advance st" and "\<forall>h. fst (ge_onAccepted E pending h)"
    and "frameCommit (over_memory opts t (\<lambda>x. (True, x)) (calm E)) (pc_commit pending) (pc_bodies pending)
      (ge_frameEpoch E (gp_handle st) (pc_commit pending)) st = (Inr (payload, epoch), st)"
    and "recorded_at (gp_world st) i = None" and "ms_heads (snd (gp_world st)) t = gp_commitLogHead st"
  shows "ends (publish_commit (over_memory opts t (\<lambda>x. (True, x)) (calm E)) holds pending i)
    (\<lambda>outcome _. outcome = Landed) (\<lambda>_ _. False) st"
proof (rule calm_hub.publish_commit_returns [where P = "\<lambda>w. snd w = snd (gp_world st)"])
  fix w :: "'x \<times> mem_store" assume w: "snd w = snd (gp_world st)"
  show "\<exists>q w'. ge_publish (over_memory opts t (\<lambda>x. (True, x)) (calm E)) payload (gp_commitLogHead st) i w = (Inr q, w')"
    using assms(4,5) mem_publish_accept [of "commit_publish (ge_localDID E) t payload (gp_commitLogHead st) i" "snd w"]
    by (simp add: over_hub_def hub_publish_def commit_publish_def calm_def w recorded_at_def)
qed (use assms in \<open>simp_all add: over_hub_def calm_def on_first_def\<close>)

theorem commit_lands_witness:
  "ends (publish_commit (over_memory default_options ''t'' (\<lambda>x. (True, x)) (calm demo_env)) False demo_commit ''i'')
    (\<lambda>outcome _. outcome = Landed) (\<lambda>_ _. False) (demo_peer 0 ((), joined))"
proof -
  let ?st = "demo_peer 0 ((), joined)"
  obtain payload where framed: "frameCommit (over_memory default_options ''t'' (\<lambda>x. (True, x)) (calm demo_env))
      (pc_commit demo_commit) (pc_bodies demo_commit) (ge_frameEpoch demo_env (gp_handle ?st) (pc_commit demo_commit)) ?st
      = (Inr (payload, 0), ?st)"
    by (simp add: frameCommit_def reading_def Let_def over_hub_def calm_def demo_env_def demo_peer_def demo_commit_def demo_header_def
        encodeHandshakeFrame_def give_def fail_def assertFrameFits_def frame_fits_def encodeCommitFrame_def
        encodeLedgerEntries_def HANDSHAKE_MAGIC_def)
  have "no_advance ?st" "\<forall>h. fst (ge_onAccepted demo_env demo_commit h)" "recorded_at (gp_world ?st) ''i'' = None"
    "ms_heads (snd (gp_world ?st)) ''t'' = gp_commitLogHead ?st"
    by (simp_all add: no_advance_def demo_env_def demo_peer_def recorded_at_def joined_state createMemoryStore_def)
  from commit_lands [OF this(1,2) framed this(3,4)] show ?thesis .
qed

text \<open>
  Claim C5. The next process settles what an interrupted commit left in the slot, whatever it finds done. Its
  start first restores the anchor. When the record of the anchor is undecided, as a cut-off advance on the
  same epoch number leaves it, the start asks for a recovery and replays nothing: the slot, the hub and the
  handle's adoptions stay for the recovered peer. Otherwise, when the replay returns, the slot is free, and
  the commit has been adopted if the hub recorded it, or is handed back as lost if it never did. If the start
  is cut off as well, the slot again tells what is due.
\<close>

theorem journal_replay_settles:
  assumes "in_fate recorded_at e before f s" and "gp_slot s \<noteq> None" and "je_acceptedAs e = None"
  shows "ends (first_replay (over_memory opts t arrives E))
    (\<lambda>outcome st. case outcome of
        None \<Rightarrow> undecided E (gp_handle s) (gp_storedAnchor s) \<and> gp_slot st = gp_slot s \<and> adoptions st = []
          \<and> recorded_at (gp_world st) = recorded_at (gp_world s)
      | Some replayed \<Rightarrow> \<not> undecided E (gp_handle s) (gp_storedAnchor s) \<and> gp_slot st = None \<and>
         (if replayed then (\<exists>q. recorded_at (gp_world st) (je_publishID e) = Some q) \<and> adoptions st = [je_journal e]
          else recorded_at (gp_world st) (je_publishID e) = None \<and> adoptions st = [] \<and> gp_lostCommit st = Some (lost_of e)))
    (\<lambda>_ st. \<exists>f. in_fate recorded_at e [] f st) (boot_peer (over_memory opts t arrives E) s)"
proof -
  obtain e' where slot: "gp_slot s = Some e'" using assms(2) by blast
  have known: "recorded_at (gp_world s) (je_publishID e') = Some q" if "je_acceptedAs e' = Some q" for q
    using assms(1,3) slot that by (cases f) auto
  have base: "e' \<lparr> je_acceptedAs := None \<rparr> = e" "je_publishID e' = je_publishID e"
    using assms(1,3) slot by (cases f; auto)+
  let ?boot = "boot_peer (over_memory opts t arrives E) s"
  have boot: "gp_slot ?boot = Some e'" "gp_world ?boot = gp_world s" "gp_handle ?boot = gp_handle s"
    "gp_storedAnchor ?boot = gp_storedAnchor s" "\<not> gp_anchorRecoveryPending ?boot" "adoptions ?boot = []"
    by (simp_all add: boot_peer_def slot adoptions_def List.map_filter_def)
  have same: "undecided (over_memory opts t arrives E) = undecided E"
    by (simp add: undecided_def over_hub_def fun_eq_iff cong: option.case_cong)
  have known': "\<And>q. je_acceptedAs e' = Some q \<Longrightarrow> recorded_at (gp_world ?boot) (je_publishID e') = Some q"
    unfolding boot by (rule known)
  show ?thesis
    using journal.first_replay_fates [OF boot(1) known' boot(5), where opts = opts and t = t and arrives = arrives and E = E]
    unfolding base boot same
    by (rule ends_weaken)
      (auto simp: slot boot(1,2,6) replay_fate_def journal.viewing_def journal.view_def split: option.splits)
qed

definition demo_entry :: JournalEntry where
  "demo_entry = journal_entry ''c1'' None 0 False demo_commit"

definition cut_off :: "(nat, unit \<times> mem_store) peer" where
  "cut_off = (demo_peer 0 ((), after_lead)) \<lparr> gp_slot := Some demo_entry \<rparr>"

theorem journal_replay_settles_witness:
  "ends (first_replay demo_hub)
    (\<lambda>outcome st. case outcome of
        None \<Rightarrow> undecided demo_env (gp_handle cut_off) (gp_storedAnchor cut_off) \<and> gp_slot st = gp_slot cut_off
          \<and> adoptions st = [] \<and> recorded_at (gp_world st) = recorded_at (gp_world cut_off)
      | Some replayed \<Rightarrow> \<not> undecided demo_env (gp_handle cut_off) (gp_storedAnchor cut_off) \<and> gp_slot st = None \<and>
         (if replayed then (\<exists>q. recorded_at (gp_world st) (je_publishID demo_entry) = Some q)
            \<and> adoptions st = [je_journal demo_entry]
          else recorded_at (gp_world st) (je_publishID demo_entry) = None \<and> adoptions st = [] \<and>
            gp_lostCommit st = Some (lost_of demo_entry)))
    (\<lambda>_ st. \<exists>f. in_fate recorded_at demo_entry [] f st) (boot_peer demo_hub cut_off)"
proof (rule journal_replay_settles)
  show "in_fate recorded_at demo_entry [] (Published q1) cut_off"
    by (simp add: cut_off_def demo_entry_def journal_entry_def recorded_at_def demo_peer_def after_lead_state adoptions_def List.map_filter_def)
qed (simp_all add: cut_off_def demo_entry_def journal_entry_def)

end
