(* ===== verification/App_Outbox.thy ===== *)
theory App_Outbox
  imports Peer_State
begin

text \<open>
  The acceptance of application entries into the durable outbox of a peer, \<^verbatim>\<open>packages/rpc/src/app-outbox.ts\<close>.
  \<open>outbox\<close> is the closure of \<^verbatim>\<open>createAppOutboxAcceptance\<close> with the host's storage behind it. An asynchronous
  function is split at its awaits: \<open>accept_call\<close> and \<open>accept_resumed\<close> run an \<^verbatim>\<open>accept\<close> up to the write it
  begins, \<open>accept_put\<close> is the rest of it. The writes in flight are \<open>ob_puts\<close>, and a write takes effect when
  it settles.
\<close>

section \<open>Entries\<close>

definition MAX_APP_ENTRY_BYTES :: nat where
  "MAX_APP_ENTRY_BYTES = 524288"

record AppAttempt =
  la_epoch :: nat
  la_floor :: "sequence_id option"
  la_attempts :: nat

record AppOutboxEntry =
  oe_seq :: nat
  oe_protocol :: string
  oe_prc :: string
  oe_data :: bytes
  oe_lastAttempt :: "AppAttempt option"

record AppInput =
  ai_protocol :: string
  ai_prc :: string
  ai_data :: bytes

definition entry_of :: "nat \<Rightarrow> AppInput \<Rightarrow> AppOutboxEntry" where
  "entry_of seq input = \<lparr> oe_seq = seq, oe_protocol = ai_protocol input, oe_prc = ai_prc input,
     oe_data = ai_data input, oe_lastAttempt = None \<rparr>"

definition content_of :: "AppOutboxEntry \<Rightarrow> AppInput" where
  "content_of e = \<lparr> ai_protocol = oe_protocol e, ai_prc = oe_prc e, ai_data = oe_data e \<rparr>"

datatype accept_error =
    PeerDisposedError
  | PeerRemovedError
  | SendNotAdmissibleError string
  | AppEntryTooLargeError
  | AppOutboxFullError

section \<open>The state\<close>

datatype load_phase = Listing | RetryArmed | LoadEnded

record outbox =
  ob_accepted :: "(nat, AppOutboxEntry) js_map"
  ob_reservations :: "nat list"
  ob_nextSeq :: nat
  ob_listed :: bool
  ob_waiting :: "AppInput list"
  ob_closed :: bool
  ob_stopped :: bool
  ob_load :: load_phase
  ob_puts :: "(nat, AppOutboxEntry) js_map"
  ob_stored :: "(nat, AppOutboxEntry) js_map"

definition createAppOutboxAcceptance :: "(nat, AppOutboxEntry) js_map \<Rightarrow> outbox" where
  "createAppOutboxAcceptance stored = \<lparr> ob_accepted = [], ob_reservations = [], ob_nextSeq = 0,
     ob_listed = False, ob_waiting = [], ob_closed = False, ob_stopped = False, ob_load = Listing,
     ob_puts = [], ob_stored = stored \<rparr>"

text \<open>The promise of \<^verbatim>\<open>ready\<close> is resolved by the first listing and by \<^verbatim>\<open>close\<close>.\<close>

definition outbox_ready :: "outbox \<Rightarrow> bool" where
  "outbox_ready q \<longleftrightarrow> ob_listed q \<or> ob_closed q"

section \<open>The host's storage\<close>

definition stored_list :: "outbox \<Rightarrow> AppOutboxEntry list" where
  "stored_list q = sort_key oe_seq (map snd (ob_stored q))"

definition store_put :: "AppOutboxEntry \<Rightarrow> outbox \<Rightarrow> outbox" where
  "store_put e q = q \<lparr> ob_stored := AList.update (oe_seq e) e (ob_stored q) \<rparr>"

definition store_remove :: "nat \<Rightarrow> outbox \<Rightarrow> outbox" where
  "store_remove seq q = q \<lparr> ob_stored := AList.delete seq (ob_stored q) \<rparr>"

definition store_clear :: "outbox \<Rightarrow> outbox" where
  "store_clear q = q \<lparr> ob_stored := [] \<rparr>"

section \<open>Loading\<close>

definition take_listed :: "AppOutboxEntry \<Rightarrow> outbox \<Rightarrow> outbox" where
  "take_listed e q = q \<lparr> ob_accepted := AList.update (oe_seq e) e (ob_accepted q),
                         ob_nextSeq := max (ob_nextSeq q) (oe_seq e + 1) \<rparr>"

definition load_listed :: "AppOutboxEntry list \<Rightarrow> outbox \<Rightarrow> outbox" where
  "load_listed entries q =
     (if ob_closed q then q \<lparr> ob_load := LoadEnded \<rparr>
      else (fold take_listed entries q) \<lparr> ob_listed := True, ob_load := LoadEnded \<rparr>)"

definition load_rejected :: "outbox \<Rightarrow> outbox" where
  "load_rejected q = q \<lparr> ob_load := (if ob_closed q then LoadEnded else RetryArmed) \<rparr>"

definition load_retried :: "outbox \<Rightarrow> outbox" where
  "load_retried q = q \<lparr> ob_load := Listing \<rparr>"

section \<open>Accepting\<close>

definition accept_body ::
  "nat \<Rightarrow> string option \<Rightarrow> AppInput \<Rightarrow> outbox \<Rightarrow> (accept_error + nat) \<times> outbox" where
  "accept_body limit refusal input q =
     (if ob_closed q then (Inl PeerDisposedError, q)
      else if ob_stopped q then (Inl PeerRemovedError, q)
      else case refusal of
        Some reason \<Rightarrow> (Inl (SendNotAdmissibleError reason), q)
      | None \<Rightarrow>
         if MAX_APP_ENTRY_BYTES < length (ai_data input) then (Inl AppEntryTooLargeError, q)
         else if limit \<le> length (ob_accepted q) + length (ob_reservations q) then (Inl AppOutboxFullError, q)
         else let seq = ob_nextSeq q in
           (Inr seq, q \<lparr> ob_nextSeq := seq + 1, ob_reservations := ob_reservations q @ [seq],
                         ob_puts := ob_puts q @ [(seq, entry_of seq input)] \<rparr>))"

definition accept_call ::
  "nat \<Rightarrow> string option \<Rightarrow> AppInput \<Rightarrow> outbox \<Rightarrow> (accept_error + nat) option \<times> outbox" where
  "accept_call limit refusal input q =
     (if \<not> ob_listed q \<or> ob_waiting q \<noteq> [] then (None, q \<lparr> ob_waiting := ob_waiting q @ [input] \<rparr>)
      else apfst Some (accept_body limit refusal input q))"

definition accept_resumed ::
  "nat \<Rightarrow> string option \<Rightarrow> outbox \<Rightarrow> (accept_error + nat) option \<times> outbox" where
  "accept_resumed limit refusal q = (case ob_waiting q of
       [] \<Rightarrow> (None, q)
     | input # rest \<Rightarrow> apfst Some (accept_body limit refusal input (q \<lparr> ob_waiting := rest \<rparr>)))"

text \<open>The write of a reservation settles. A rejected \<^verbatim>\<open>put\<close> leaves the storage unchanged.\<close>

definition accept_put :: "nat \<Rightarrow> bool \<Rightarrow> outbox \<Rightarrow> outbox" where
  "accept_put seq stored q = (case map_of (ob_puts q) seq of
       None \<Rightarrow> q
     | Some e \<Rightarrow>
        (let q' = (if stored then (store_put e q) \<lparr> ob_accepted := AList.update seq e (ob_accepted q) \<rparr> else q)
         in q' \<lparr> ob_reservations := removeAll seq (ob_reservations q'), ob_puts := AList.delete seq (ob_puts q') \<rparr>))"

section \<open>What the delivery worker and the peer call\<close>

definition outbox_entries :: "outbox \<Rightarrow> AppOutboxEntry list" where
  "outbox_entries q = sort_key oe_seq (map snd (ob_accepted q))"

definition lowestUnresolvedSeq :: "outbox \<Rightarrow> nat option" where
  "lowestUnresolvedSeq q = (case ob_reservations q of [] \<Rightarrow> None | seq # _ \<Rightarrow> Some seq)"

definition outbox_replace :: "AppOutboxEntry \<Rightarrow> outbox \<Rightarrow> outbox" where
  "outbox_replace e q = q \<lparr> ob_accepted := AList.update (oe_seq e) e (ob_accepted q) \<rparr>"

definition outbox_remove :: "nat \<Rightarrow> outbox \<Rightarrow> outbox" where
  "outbox_remove seq q = q \<lparr> ob_accepted := AList.delete seq (ob_accepted q) \<rparr>"

definition outbox_clear :: "outbox \<Rightarrow> outbox" where
  "outbox_clear q = q \<lparr> ob_accepted := [] \<rparr>"

definition outbox_stop :: "outbox \<Rightarrow> outbox" where
  "outbox_stop q = q \<lparr> ob_stopped := True \<rparr>"

definition outbox_close :: "outbox \<Rightarrow> outbox" where
  "outbox_close q = q \<lparr> ob_closed := True,
     ob_load := (if ob_load q = RetryArmed then LoadEnded else ob_load q) \<rparr>"

end
