(* ===== verification/Log_Delivery.thy ===== *)
theory Log_Delivery
  imports App_Outbox
begin

text \<open>
  The worker that publishes the entries of the outbox to the application log and removes those it can
  prove delivered, \<^verbatim>\<open>packages/rpc/src/log-delivery.ts\<close>. \<open>delivery\<close> is the closure of \<^verbatim>\<open>createLogDelivery\<close> with
  the outbox it works on and what it reads of the rest of the peer. A pass is split at its awaits:
  \<open>ld_at\<close> says where the pass in progress waits, an event says how the awaited call settled, and the
  handler of the event runs the pass up to its next await. An inner asynchronous function
  (\<^verbatim>\<open>removeProven\<close>) continues in its caller without a pause. The object identity of a delivered entry is
  the number it was made with.
\<close>

section \<open>Data\<close>

record Publication =
  pb_epoch :: nat
  pb_floor :: "sequence_id option"
  pb_acknowledged :: nat

record Delivered =
  de_made :: nat
  de_input :: AppInput
  de_epoch :: nat
  de_at :: int

record SealedLogFrame =
  sf_topicID :: topic_id
  sf_payload :: bytes
  sf_floor :: EpochFloor

datatype after_removal = ThenResend | ThenReturn

text \<open>Where the pass waits. A place in the loop over the queue holds the entries still to visit and the count.\<close>

datatype pass_at =
    Off
  | AtReady
  | AtQueueReady
  | AtClear "nat list"
  | AtRemove nat after_removal
  | AtResendSeal Delivered
  | AtResendPublish
  | AtProbe AppOutboxEntry "AppOutboxEntry list" nat
  | AtPull AppOutboxEntry "AppOutboxEntry list" nat
  | AtSeal AppOutboxEntry "AppOutboxEntry list" nat
  | AtPut AppOutboxEntry SealedLogFrame "AppOutboxEntry list" nat
  | AtPublish nat SealedLogFrame "AppOutboxEntry list" nat
  | AtLastProbe
  | AtLastPull
  | AtHeal

record delivery_params =
  dp_limit :: nat
  dp_deliveredWindowMs :: int
  dp_deliveredLimit :: nat

record delivery =
  ld_queue :: outbox
  ld_publications :: "(nat, Publication) js_map"
  ld_proven :: "nat list"
  ld_delivered :: "Delivered list"
  ld_made :: nat
  ld_resend :: "Delivered list"
  ld_acknowledgements :: nat
  ld_removed :: bool
  ld_closed :: bool
  ld_at :: pass_at
  ld_needed :: bool
  ld_immediate :: bool
  ld_retrying :: bool
  ld_timer :: "nat option"
  ld_backoff :: nat
  ld_notices :: "nat list list"
  ld_floor :: EpochFloor
  ld_held :: bool
  ld_sendsHeld :: bool
  ld_now :: int

definition ld_entries :: "delivery \<Rightarrow> AppOutboxEntry list" where
  "ld_entries d = outbox_entries (ld_queue d)"

definition ld_fence :: "delivery \<Rightarrow> nat option" where
  "ld_fence d = lowestUnresolvedSeq (ld_queue d)"

definition createLogDelivery :: "outbox \<Rightarrow> EpochFloor \<Rightarrow> int \<Rightarrow> delivery" where
  "createLogDelivery q fl now = \<lparr> ld_queue = q, ld_publications = [], ld_proven = [], ld_delivered = [],
     ld_made = 0, ld_resend = [], ld_acknowledgements = 0, ld_removed = False, ld_closed = False,
     ld_at = Off, ld_needed = False, ld_immediate = False, ld_retrying = False, ld_timer = None,
     ld_backoff = 1000, ld_notices = [], ld_floor = fl, ld_held = False, ld_sendsHeld = False,
     ld_now = now \<rparr>"

section \<open>The helpers of the pass\<close>

definition headPastFloor :: "sequence_id option \<Rightarrow> EpochFloor \<Rightarrow> bool" where
  "headPastFloor head fl \<longleftrightarrow> (case head of None \<Rightarrow> False
     | Some h \<Rightarrow> (case ef_position fl of None \<Rightarrow> True | Some p \<Rightarrow> p < h))"

fun drop_old :: "int \<Rightarrow> nat \<Rightarrow> Delivered list \<Rightarrow> Delivered list" where
  "drop_old oldest limit [] = []"
| "drop_old oldest limit (e # es) =
     (if de_at e < oldest \<or> limit < length (e # es) then drop_old oldest limit es else e # es)"

definition pruneDelivered :: "delivery_params \<Rightarrow> delivery \<Rightarrow> delivery" where
  "pruneDelivered P d = d \<lparr> ld_delivered :=
     drop_old (ld_now d - dp_deliveredWindowMs P) (dp_deliveredLimit P) (ld_delivered d) \<rparr>"

definition keepDelivered :: "delivery_params \<Rightarrow> nat \<Rightarrow> delivery \<Rightarrow> delivery" where
  "keepDelivered P seq d =
     (case (find (\<lambda>e. oe_seq e = seq) (ld_entries d), map_of (ld_publications d) seq) of
        (Some e, Some p) \<Rightarrow> pruneDelivered P (d \<lparr>
           ld_delivered := ld_delivered d @ [\<lparr> de_made = ld_made d, de_input = content_of e,
                                               de_epoch = pb_epoch p, de_at = ld_now d \<rparr>],
           ld_made := ld_made d + 1 \<rparr>)
      | _ \<Rightarrow> d)"

definition set_add :: "'a \<Rightarrow> 'a list \<Rightarrow> 'a list" where
  "set_add x xs = (if x \<in> set xs then xs else xs @ [x])"

definition prove_where :: "(Publication \<Rightarrow> bool) \<Rightarrow> delivery \<Rightarrow> delivery" where
  "prove_where ok d = d \<lparr> ld_proven := fold set_add
     (map fst (filter (\<lambda>(seq, p). ok p) (ld_publications d))) (ld_proven d) \<rparr>"

definition certify :: "nat \<Rightarrow> nat \<Rightarrow> delivery \<Rightarrow> delivery" where
  "certify epoch started = prove_where (\<lambda>p. pb_epoch p = epoch \<and> pb_acknowledged p \<le> started)"

definition needsEarlierPublication :: "nat \<Rightarrow> nat \<Rightarrow> delivery \<Rightarrow> bool" where
  "needsEarlierPublication seq epoch d \<longleftrightarrow> (\<exists>e \<in> set (ld_entries d).
     oe_seq e < seq \<and> oe_seq e \<notin> set (ld_proven d) \<and>
     map_option pb_epoch (map_of (ld_publications d) (oe_seq e)) \<noteq> Some epoch)"

definition attempted :: "AppOutboxEntry \<Rightarrow> EpochFloor \<Rightarrow> AppOutboxEntry" where
  "attempted e fl = e \<lparr> oe_lastAttempt := Some \<lparr> la_epoch = ef_epoch fl, la_floor = ef_position fl,
     la_attempts = (case oe_lastAttempt e of None \<Rightarrow> 0 | Some a \<Rightarrow> la_attempts a) + 1 \<rparr> \<rparr>"

section \<open>Scheduling\<close>

definition ld_schedule :: "nat \<Rightarrow> delivery \<Rightarrow> delivery" where
  "ld_schedule delay d =
     (if ld_closed d \<or> ld_at d \<noteq> Off \<or> ld_timer d \<noteq> None then d else d \<lparr> ld_timer := Some delay \<rparr>)"

text \<open>The end of a pass, with the \<^verbatim>\<open>finally\<close> of its timer.\<close>

definition pass_over :: "bool \<Rightarrow> delivery \<Rightarrow> delivery" where
  "pass_over failed d =
     (let d = d \<lparr> ld_at := Off, ld_backoff := (if failed then ld_backoff d else 1000) \<rparr> in
      if ld_closed d then d
      else let d = d \<lparr> ld_retrying := failed \<rparr> in
        if failed \<or> ld_entries d \<noteq> [] \<or> ld_resend d \<noteq> [] \<or> (ld_removed d \<and> ld_needed d) then
          let d = ld_schedule (if \<not> failed \<and> ld_immediate d then 0 else ld_backoff d) d in
          if failed then d \<lparr> ld_backoff := min (ld_backoff d * 2) 60000 \<rparr> else d
        else if ld_needed d then ld_schedule 0 d else d)"

definition pass_fires :: "delivery \<Rightarrow> delivery" where
  "pass_fires d = d \<lparr> ld_timer := None, ld_at := AtReady, ld_needed := False, ld_immediate := False \<rparr>"

section \<open>The pass, from one await to the next\<close>

fun queue_loop :: "AppOutboxEntry list \<Rightarrow> nat \<Rightarrow> delivery \<Rightarrow> delivery" where
  "queue_loop [] count d = d \<lparr> ld_at := AtLastProbe \<rparr>"
| "queue_loop (e # rest) count d =
     (if ld_closed d then pass_over False d
      else if (case ld_fence d of None \<Rightarrow> False | Some fence \<Rightarrow> fence \<le> oe_seq e) then pass_over False d
      else if count = 64 then d \<lparr> ld_immediate := True, ld_at := AtLastProbe \<rparr>
      else if oe_seq e \<in> set (ld_proven d) then queue_loop rest (count + 1) d
      else d \<lparr> ld_at := AtProbe e rest (count + 1) \<rparr>)"

definition queue_pass :: "delivery \<Rightarrow> delivery" where
  "queue_pass d = (if ld_entries d = [] then pass_over False d else queue_loop (ld_entries d) 0 d)"

definition resend_loop :: "delivery \<Rightarrow> delivery" where
  "resend_loop d = (case ld_resend d of
       [] \<Rightarrow> queue_pass d
     | e # _ \<Rightarrow> if ld_closed d \<or> ld_held d then pass_over False d else d \<lparr> ld_at := AtResendSeal e \<rparr>)"

definition removeProven :: "after_removal \<Rightarrow> delivery \<Rightarrow> delivery" where
  "removeProven after d = (case ld_proven d of
       [] \<Rightarrow> (case after of ThenResend \<Rightarrow> resend_loop d | ThenReturn \<Rightarrow> pass_over False d)
     | seq # _ \<Rightarrow> d \<lparr> ld_at := AtRemove seq after \<rparr>)"

definition queue_is_ready :: "delivery \<Rightarrow> delivery" where
  "queue_is_ready d =
     (if ld_closed d then pass_over False d
      else if ld_removed d then
        (if ld_fence d \<noteq> None then pass_over False d
         else let seqs = map oe_seq (ld_entries d) in
           if seqs = [] then pass_over False d else d \<lparr> ld_at := AtClear seqs \<rparr>)
      else removeProven ThenResend d)"

definition cleared :: "nat list \<Rightarrow> delivery \<Rightarrow> delivery" where
  "cleared seqs d =
     (let d = d \<lparr> ld_queue := outbox_clear (ld_queue d), ld_publications := [], ld_proven := [] \<rparr> in
      pass_over False (if ld_closed d then d else d \<lparr> ld_notices := ld_notices d @ [seqs] \<rparr>))"

definition removed_one :: "delivery_params \<Rightarrow> nat \<Rightarrow> after_removal \<Rightarrow> delivery \<Rightarrow> delivery" where
  "removed_one P seq after d =
     (let d = keepDelivered P seq d;
          d = d \<lparr> ld_queue := outbox_remove seq (ld_queue d),
                  ld_publications := AList.delete seq (ld_publications d),
                  ld_proven := removeAll seq (ld_proven d) \<rparr>
      in if ld_closed d then pass_over False d else removeProven after d)"

definition resend_sealed :: "delivery \<Rightarrow> delivery" where
  "resend_sealed d = (if ld_closed d \<or> ld_held d \<or> ld_sendsHeld d then pass_over False d
                      else d \<lparr> ld_at := AtResendPublish \<rparr>)"

definition resend_published :: "delivery \<Rightarrow> delivery" where
  "resend_published d = resend_loop (d \<lparr> ld_resend := tl (ld_resend d) \<rparr>)"

definition after_pull :: "AppOutboxEntry \<Rightarrow> AppOutboxEntry list \<Rightarrow> nat \<Rightarrow> delivery \<Rightarrow> delivery" where
  "after_pull e rest count d =
     (if ld_closed d \<or> ld_removed d then
        pass_over False (d \<lparr> ld_immediate := (ld_removed d \<and> ld_fence d = None) \<rparr>)
      else if ld_held d then pass_over False d
      else if map_option pb_epoch (map_of (ld_publications d) (oe_seq e)) = Some (ef_epoch (ld_floor d))
        then queue_loop rest count d
      else d \<lparr> ld_at := AtSeal e rest count \<rparr>)"

definition probed :: "sequence_id option \<Rightarrow> AppOutboxEntry \<Rightarrow> AppOutboxEntry list \<Rightarrow> nat \<Rightarrow> delivery \<Rightarrow> delivery" where
  "probed head e rest count d =
     (if headPastFloor head (ld_floor d) then d \<lparr> ld_at := AtPull e rest count \<rparr>
      else after_pull e rest count d)"

definition entry_sealed ::
  "SealedLogFrame \<Rightarrow> AppOutboxEntry \<Rightarrow> AppOutboxEntry list \<Rightarrow> nat \<Rightarrow> delivery \<Rightarrow> delivery" where
  "entry_sealed frame e rest count d =
     (if ld_closed d \<or> ld_held d then pass_over False d
      else if needsEarlierPublication (oe_seq e) (ef_epoch (sf_floor frame)) d
        then d \<lparr> ld_immediate := True, ld_at := AtLastProbe \<rparr>
      else d \<lparr> ld_at := AtPut (attempted e (sf_floor frame)) frame rest count \<rparr>)"

definition entry_stored ::
  "AppOutboxEntry \<Rightarrow> SealedLogFrame \<Rightarrow> AppOutboxEntry list \<Rightarrow> nat \<Rightarrow> delivery \<Rightarrow> delivery" where
  "entry_stored updated frame rest count d =
     (let d = d \<lparr> ld_queue := outbox_replace updated (ld_queue d) \<rparr> in
      if ld_closed d \<or> ld_held d then pass_over False d
      else if needsEarlierPublication (oe_seq updated) (ef_epoch (sf_floor frame)) d
        then d \<lparr> ld_immediate := True, ld_at := AtLastProbe \<rparr>
      else if ld_sendsHeld d then pass_over False d
      else d \<lparr> ld_at := AtPublish (oe_seq updated) frame rest count \<rparr>)"

definition entry_published :: "nat \<Rightarrow> SealedLogFrame \<Rightarrow> AppOutboxEntry list \<Rightarrow> nat \<Rightarrow> delivery \<Rightarrow> delivery" where
  "entry_published seq frame rest count d =
     (if ld_closed d then pass_over False d
      else let d = d \<lparr> ld_acknowledgements := ld_acknowledgements d + 1,
             ld_publications := AList.update seq \<lparr> pb_epoch = ef_epoch (sf_floor frame),
               pb_floor = ef_position (sf_floor frame), pb_acknowledged = ld_acknowledgements d + 1 \<rparr>
               (ld_publications d) \<rparr>
        in if ef_epoch (ld_floor d) \<noteq> ef_epoch (sf_floor frame)
           then d \<lparr> ld_immediate := True, ld_at := AtLastProbe \<rparr>
           else queue_loop rest count d)"

definition finish_pass :: "delivery \<Rightarrow> delivery" where
  "finish_pass d = removeProven ThenReturn
     (if \<exists>p \<in> set (map snd (ld_publications d)). pb_epoch p \<noteq> ef_epoch (ld_floor d)
      then d \<lparr> ld_immediate := True \<rparr> else d)"

definition head_at_floor :: "sequence_id option \<Rightarrow> Publication \<Rightarrow> bool" where
  "head_at_floor head p \<longleftrightarrow> (case head of None \<Rightarrow> True
     | Some h \<Rightarrow> (case pb_floor p of None \<Rightarrow> False | Some f \<Rightarrow> h \<le> f))"

definition last_probed :: "sequence_id option \<Rightarrow> delivery \<Rightarrow> delivery" where
  "last_probed head d =
     (if ld_closed d then pass_over False d
      else let d = prove_where (head_at_floor head) d in
        if headPastFloor head (ld_floor d) then d \<lparr> ld_at := AtLastPull \<rparr> else finish_pass d)"

definition last_pulled :: "delivery \<Rightarrow> delivery" where
  "last_pulled d =
     (if \<not> ef_covered (ld_floor d) \<and> \<not> ld_held d \<and> ld_publications d \<noteq> [] then d \<lparr> ld_at := AtHeal \<rparr>
      else finish_pass d)"

section \<open>The calls of the peer\<close>

definition trigger :: "delivery \<Rightarrow> delivery" where
  "trigger d =
     (let d = d \<lparr> ld_needed := True \<rparr>;
          d = (if ld_at d = Off \<and> \<not> ld_retrying d \<and> ld_timer d \<noteq> None then d \<lparr> ld_timer := None \<rparr> else d)
      in ld_schedule 0 d)"

definition beginWalk :: "delivery \<Rightarrow> nat" where
  "beginWalk d = ld_acknowledgements d"

definition rejoined :: "delivery_params \<Rightarrow> nat \<Rightarrow> delivery \<Rightarrow> delivery" where
  "rejoined P anchorEpoch d =
     (if ld_closed d \<or> ld_removed d then d
      else let d = pruneDelivered P d;
               d = d \<lparr> ld_resend := ld_resend d @
                 filter (\<lambda>e. anchorEpoch \<le> de_epoch e \<and> e \<notin> set (ld_resend d)) (ld_delivered d) \<rparr>
           in if ld_resend d = [] then d else ld_schedule 0 (d \<lparr> ld_needed := True \<rparr>))"

definition removed :: "delivery \<Rightarrow> delivery" where
  "removed d = ld_schedule 0 (d \<lparr> ld_removed := True, ld_delivered := [], ld_resend := [],
     ld_queue := outbox_stop (ld_queue d), ld_needed := True \<rparr>)"

text \<open>What disposing the peer does to the two.\<close>

definition ld_close :: "delivery \<Rightarrow> delivery" where
  "ld_close d = d \<lparr> ld_closed := True, ld_timer := None \<rparr>"

definition dispose_delivery :: "delivery \<Rightarrow> delivery" where
  "dispose_delivery d = ld_close (d \<lparr> ld_queue := outbox_close (ld_queue d) \<rparr>)"

end
