(* ===== verification/Delivery_Steps.thy ===== *)
theory Delivery_Steps
  imports Log_Delivery
begin

text \<open>
  The outbox and its worker as a transition system. An event is a call of the peer, the settling of a
  call the two wait for, a timer, or a change of what they read of the peer; \<open>delivery_step\<close> is
  undefined for an event that cannot happen in a state. A write or a removal of the host's storage takes
  effect when it settles: it is done, rejected, or, where the contract of the storage does not exclude
  it, rejected although it took effect. The walk of the commit log enters with the value \<^verbatim>\<open>beginWalk\<close>
  gave it, which it holds until it ends.
\<close>

datatype delivery_event =
    ListResolved
  | ListRejected
  | RetryElapsed
  | AcceptCalled AppInput "string option"
  | AcceptResumed "string option"
  | AcceptPut nat bool
  | TimerFired
  | Settled
  | CallRejected
  | Probed "sequence_id option"
  | Sealed SealedLogFrame
  | Stored host_outcome
  | Triggered
  | WalkBegins
  | WalkCertifies nat
  | WalkEnds
  | MemberRejoins nat
  | LocallyRemoved
  | Disposed
  | PeerMoves EpochFloor bool bool
  | ClockMoves int

text \<open>The state of the system: the closures and the walk in progress.\<close>

type_synonym delivery_state = "delivery \<times> nat option"

definition on_queue :: "(outbox \<Rightarrow> outbox) \<Rightarrow> delivery \<Rightarrow> delivery" where
  "on_queue f d = d \<lparr> ld_queue := f (ld_queue d) \<rparr>"

definition awaits_call :: "pass_at \<Rightarrow> bool" where
  "awaits_call pc \<longleftrightarrow> (case pc of Off \<Rightarrow> False | AtQueueReady \<Rightarrow> False | AtClear _ \<Rightarrow> False
     | AtRemove _ _ \<Rightarrow> False | AtPut _ _ _ _ \<Rightarrow> False | _ \<Rightarrow> True)"

text \<open>The outbox alone.\<close>

fun outbox_step :: "delivery_params \<Rightarrow> delivery_event \<Rightarrow> outbox \<Rightarrow> outbox option" where
  "outbox_step P ListResolved q =
     (if ob_load q = Listing then Some (load_listed (stored_list q) q) else None)"
| "outbox_step P ListRejected q = (if ob_load q = Listing then Some (load_rejected q) else None)"
| "outbox_step P RetryElapsed q = (if ob_load q = RetryArmed then Some (load_retried q) else None)"
| "outbox_step P (AcceptCalled input refusal) q = Some (snd (accept_call (dp_limit P) refusal input q))"
| "outbox_step P (AcceptResumed refusal) q =
     (if outbox_ready q \<and> ob_waiting q \<noteq> [] then Some (snd (accept_resumed (dp_limit P) refusal q)) else None)"
| "outbox_step P (AcceptPut seq stored) q =
     (if seq \<in> fst ` set (ob_puts q) then Some (accept_put seq stored q) else None)"
| "outbox_step P _ q = None"

text \<open>A call the pass waits for resolves: one without a value, a probe, a seal, a write of the storage.\<close>

definition settle :: "delivery \<Rightarrow> delivery option" where
  "settle d = (case ld_at d of
       AtReady \<Rightarrow> Some (d \<lparr> ld_at := AtQueueReady \<rparr>)
     | AtQueueReady \<Rightarrow> if outbox_ready (ld_queue d) then Some (queue_is_ready d) else None
     | AtResendPublish \<Rightarrow> Some (resend_published d)
     | AtPull e rest count \<Rightarrow> Some (after_pull e rest count d)
     | AtPublish seq frame rest count \<Rightarrow> Some (entry_published seq frame rest count d)
     | AtLastPull \<Rightarrow> Some (last_pulled d)
     | AtHeal \<Rightarrow> Some (finish_pass d)
     | _ \<Rightarrow> None)"

definition probe_settles :: "sequence_id option \<Rightarrow> delivery \<Rightarrow> delivery option" where
  "probe_settles head d = (case ld_at d of
       AtProbe e rest count \<Rightarrow> Some (probed head e rest count d)
     | AtLastProbe \<Rightarrow> Some (last_probed head d)
     | _ \<Rightarrow> None)"

definition seal_settles :: "SealedLogFrame \<Rightarrow> delivery \<Rightarrow> delivery option" where
  "seal_settles frame d = (case ld_at d of
       AtResendSeal _ \<Rightarrow> Some (resend_sealed d)
     | AtSeal e rest count \<Rightarrow> Some (entry_sealed frame e rest count d)
     | _ \<Rightarrow> None)"

definition write_settles :: "delivery_params \<Rightarrow> host_outcome \<Rightarrow> delivery \<Rightarrow> delivery option" where
  "write_settles P out d = (case ld_at d of
       AtClear seqs \<Rightarrow> Some (case out of
           Done \<Rightarrow> cleared seqs (on_queue store_clear d)
         | Rejected \<Rightarrow> pass_over True d
         | RejectedLate \<Rightarrow> pass_over True (on_queue store_clear d))
     | AtRemove seq after \<Rightarrow> Some (case out of
           Done \<Rightarrow> removed_one P seq after (on_queue (store_remove seq) d)
         | Rejected \<Rightarrow> pass_over True d
         | RejectedLate \<Rightarrow> pass_over True (on_queue (store_remove seq) d))
     | AtPut e frame rest count \<Rightarrow> (case out of
           Done \<Rightarrow> Some (entry_stored e frame rest count (on_queue (store_put e) d))
         | Rejected \<Rightarrow> Some (pass_over True d)
         | RejectedLate \<Rightarrow> None)
     | _ \<Rightarrow> None)"

fun worker_step :: "delivery_params \<Rightarrow> delivery_event \<Rightarrow> delivery \<Rightarrow> delivery option" where
  "worker_step P TimerFired d = (if ld_timer d \<noteq> None \<and> ld_at d = Off then Some (pass_fires d) else None)"
| "worker_step P Settled d = settle d"
| "worker_step P CallRejected d = (if awaits_call (ld_at d) then Some (pass_over True d) else None)"
| "worker_step P (Probed head) d = probe_settles head d"
| "worker_step P (Sealed frame) d = seal_settles frame d"
| "worker_step P (Stored out) d = write_settles P out d"
| "worker_step P Triggered d = Some (trigger d)"
| "worker_step P (MemberRejoins anchorEpoch) d = Some (rejoined P anchorEpoch d)"
| "worker_step P LocallyRemoved d = Some (removed d)"
| "worker_step P Disposed d = Some (dispose_delivery d)"
| "worker_step P (PeerMoves fl held sendsHeld) d =
     Some (d \<lparr> ld_floor := fl, ld_held := held, ld_sendsHeld := sendsHeld \<rparr>)"
| "worker_step P (ClockMoves now) d = Some (d \<lparr> ld_now := now \<rparr>)"
| "worker_step P ev d = map_option (\<lambda>q. d \<lparr> ld_queue := q \<rparr>) (outbox_step P ev (ld_queue d))"

fun delivery_step :: "delivery_params \<Rightarrow> delivery_event \<Rightarrow> delivery_state \<Rightarrow> delivery_state option" where
  "delivery_step P WalkBegins (d, walk) = (if walk = None then Some (d, Some (beginWalk d)) else None)"
| "delivery_step P (WalkCertifies epoch) (d, walk) =
     (case walk of None \<Rightarrow> None | Some started \<Rightarrow> Some (certify epoch started d, walk))"
| "delivery_step P WalkEnds (d, walk) = (if walk = None then None else Some (d, None))"
| "delivery_step P ev (d, walk) = map_option (\<lambda>d'. (d', walk)) (worker_step P ev d)"

text \<open>The runs of the system from a stored outbox, with the events that led to a state, the last one first.\<close>

inductive delivery_run ::
  "delivery_params \<Rightarrow> delivery_state \<Rightarrow> delivery_event list \<Rightarrow> delivery_state \<Rightarrow> bool" for P s0 where
  run_starts: "delivery_run P s0 [] s0"
| run_steps: "delivery_run P s0 evs s \<Longrightarrow> delivery_step P ev s = Some s' \<Longrightarrow> delivery_run P s0 (ev # evs) s'"

definition start_delivery :: "AppOutboxEntry list \<Rightarrow> EpochFloor \<Rightarrow> int \<Rightarrow> delivery_state" where
  "start_delivery stored fl now =
     (createLogDelivery (createAppOutboxAcceptance (map (\<lambda>e. (oe_seq e, e)) stored)) fl now, None)"

text \<open>The same runs as a function, which the concrete cases below evaluate.\<close>

fun play :: "delivery_params \<Rightarrow> delivery_event list \<Rightarrow> delivery_state \<Rightarrow> delivery_state option" where
  "play P [] s = Some s"
| "play P (ev # evs) s = (case delivery_step P ev s of None \<Rightarrow> None | Some s' \<Rightarrow> play P evs s')"

lemma play_run:
  assumes "delivery_run P s0 past s" "play P evs s = Some s'"
  shows "delivery_run P s0 (rev evs @ past) s'"
  using assms
proof (induction evs arbitrary: past s)
  case (Cons ev evs)
  then obtain s1 where "delivery_step P ev s = Some s1" "play P evs s1 = Some s'"
    by (auto split: option.splits)
  with Cons.IH [OF run_steps [OF Cons.prems(1)]] show ?case by simp
qed simp

end
