(* ===== verification/Outbox_Inv.thy ===== *)
theory Outbox_Inv
  imports Delivery_Steps
begin

text \<open>
  The invariant of the outbox and its preservation: sequence numbers are the keys of what they number,
  a reservation is in flight and is not yet an entry, and the numbers still to be given are above all.
  The capacity bound and the agreement of the memory with the storage are parts of it.
\<close>

section \<open>Association lists keyed by the sequence number\<close>

definition keyed :: "(nat, AppOutboxEntry) js_map \<Rightarrow> bool" where
  "keyed m \<longleftrightarrow> distinct (map fst m) \<and> (\<forall>s e. map_of m s = Some e \<longrightarrow> oe_seq e = s)"

lemma keyed_Nil [simp]: "keyed []"
  by (simp add: keyed_def)

lemma keyed_update [intro]: "keyed m \<Longrightarrow> oe_seq e = s \<Longrightarrow> keyed (AList.update s e m)"
  by (auto simp: keyed_def update_conv' distinct_update split: if_splits)

lemma keyed_delete [intro]: "keyed m \<Longrightarrow> keyed (AList.delete s m)"
  by (auto simp: keyed_def delete_conv' distinct_delete split: if_splits)

lemma keyed_append:
  "keyed m \<Longrightarrow> s \<notin> fst ` set m \<Longrightarrow> oe_seq e = s \<Longrightarrow> keyed (m @ [(s, e)])"
  by (auto simp: keyed_def map_add_def split: option.splits if_splits)

lemma keyed_in: "keyed m \<Longrightarrow> (s, e) \<in> set m \<longleftrightarrow> map_of m s = Some e"
  by (auto simp: keyed_def)

lemma keyed_seqs: "keyed m \<Longrightarrow> map oe_seq (map snd m) = map fst m"
  by (auto simp: keyed_def intro!: nth_equalityI)

lemma map_of_keys: "map_of m s = None \<longleftrightarrow> s \<notin> fst ` set m"
  by (rule map_of_eq_None_iff)

text \<open>The entries of the queue, in order.\<close>

definition seq_sorted :: "AppOutboxEntry list \<Rightarrow> bool" where
  "seq_sorted es \<longleftrightarrow> sorted_wrt (\<lambda>a b. oe_seq a < oe_seq b) es"

lemma seq_sorted_Cons [simp]:
  "seq_sorted (e # es) \<longleftrightarrow> (\<forall>x \<in> set es. oe_seq e < oe_seq x) \<and> seq_sorted es"
  by (simp add: seq_sorted_def)

lemma seq_sorted_Nil [simp]: "seq_sorted []"
  by (simp add: seq_sorted_def)

lemma sort_key_seq_sorted:
  assumes "distinct (map oe_seq es)"
  shows "seq_sorted (sort_key oe_seq es)"
proof -
  have "sorted_wrt (<) (map oe_seq (sort_key oe_seq es))"
    using assms by (simp add: strict_sorted_iff distinct_map)
  then show ?thesis
    unfolding seq_sorted_def sorted_wrt_map .
qed

lemma entries_set:
  assumes "keyed (ob_accepted q)"
  shows "e \<in> set (outbox_entries q) \<longleftrightarrow> map_of (ob_accepted q) (oe_seq e) = Some e"
proof -
  have "e \<in> set (outbox_entries q) \<longleftrightarrow> (\<exists>s. map_of (ob_accepted q) s = Some e)"
    unfolding outbox_entries_def set_sort using keyed_in [OF assms] by force
  also have "\<dots> \<longleftrightarrow> map_of (ob_accepted q) (oe_seq e) = Some e"
    using assms unfolding keyed_def by metis
  finally show ?thesis .
qed

lemma entries_sorted: "keyed (ob_accepted q) \<Longrightarrow> seq_sorted (outbox_entries q)"
  unfolding outbox_entries_def by (rule sort_key_seq_sorted) (simp only: keyed_seqs, simp add: keyed_def)

lemma entries_empty [simp]: "outbox_entries q = [] \<longleftrightarrow> ob_accepted q = []"
  by (metis outbox_entries_def set_empty set_sort map_is_Nil_conv)

section \<open>The invariant\<close>

definition outbox_inv :: "nat \<Rightarrow> outbox \<Rightarrow> bool" where
  "outbox_inv cap q \<longleftrightarrow>
     keyed (ob_accepted q) \<and> keyed (ob_stored q) \<and> keyed (ob_puts q) \<and>
     sorted_wrt (<) (ob_reservations q) \<and> map fst (ob_puts q) = ob_reservations q \<and>
     (\<forall>s \<in> fst ` set (ob_accepted q) \<union> set (ob_reservations q). s < ob_nextSeq q) \<and>
     fst ` set (ob_accepted q) \<inter> set (ob_reservations q) = {} \<and>
     length (ob_accepted q) + length (ob_reservations q) \<le> cap \<and>
     (if ob_listed q then ob_load q = LoadEnded \<and> map_of (ob_stored q) \<subseteq>\<^sub>m map_of (ob_accepted q)
      else ob_accepted q = [] \<and> ob_reservations q = [] \<and> ob_nextSeq q = 0 \<and> length (ob_stored q) \<le> cap)"


lemma outbox_inv_start:
  assumes "keyed stored" "length stored \<le> cap"
  shows "outbox_inv cap (createAppOutboxAcceptance stored)"
  using assms by (simp add: outbox_inv_def createAppOutboxAcceptance_def)

lemma take_listed_fields [simp]:
  "ob_reservations (fold take_listed es q) = ob_reservations q"
  "ob_listed (fold take_listed es q) = ob_listed q"
  "ob_waiting (fold take_listed es q) = ob_waiting q"
  "ob_closed (fold take_listed es q) = ob_closed q"
  "ob_stopped (fold take_listed es q) = ob_stopped q"
  "ob_load (fold take_listed es q) = ob_load q"
  "ob_puts (fold take_listed es q) = ob_puts q"
  "ob_stored (fold take_listed es q) = ob_stored q"
  by (induction es arbitrary: q) (simp_all add: take_listed_def)

lemma fold_take_listed:
  assumes "distinct (map oe_seq es)" "oe_seq ` set es \<inter> fst ` set (ob_accepted q) = {}"
  shows "ob_accepted (fold take_listed es q) = ob_accepted q @ map (\<lambda>e. (oe_seq e, e)) es"
  using assms by (induction es arbitrary: q) (auto simp: take_listed_def AList_update_new)

lemma fold_take_listed_next:
  "ob_nextSeq q \<le> ob_nextSeq (fold take_listed es q)"
  "e \<in> set es \<Longrightarrow> oe_seq e < ob_nextSeq (fold take_listed es q)"
proof (induction es arbitrary: q)
  case (Cons a es)
  { case 1
    show ?case using Cons.IH(1) [of "take_listed a q"] by (simp add: take_listed_def)
  next
    case 2
    then show ?case using Cons.IH(1) [of "take_listed a q"] Cons.IH(2) [of "take_listed a q"]
      by (auto simp: take_listed_def) }
qed simp_all

lemma stored_list_map_of:
  assumes "keyed (ob_stored q)"
  shows "distinct (map oe_seq (stored_list q))"
    and "map_of (map (\<lambda>e. (oe_seq e, e)) (stored_list q)) = map_of (ob_stored q)"
    and "length (stored_list q) = length (ob_stored q)"
proof -
  have *: "map oe_seq (map snd (ob_stored q)) = map fst (ob_stored q)"
    using assms by (rule keyed_seqs)
  show d: "distinct (map oe_seq (stored_list q))"
    unfolding stored_list_def distinct_map set_sort using * assms
    by (metis distinct_map distinct_sort keyed_def)
  have "set (map (\<lambda>e. (oe_seq e, e)) (stored_list q)) = set (ob_stored q)"
    using keyed_in [OF assms] assms by (force simp: stored_list_def keyed_def)
  then show "map_of (map (\<lambda>e. (oe_seq e, e)) (stored_list q)) = map_of (ob_stored q)"
    by (subst map_of_inject_set) (use d assms in \<open>simp_all add: keyed_def comp_def\<close>)
  show "length (stored_list q) = length (ob_stored q)"
    by (simp add: stored_list_def)
qed

lemma load_listed_inv:
  assumes "outbox_inv cap q" "ob_load q = Listing"
  shows "outbox_inv cap (load_listed (stored_list q) q)"
proof -
  let ?es = "stored_list q"
  have nl: "\<not> ob_listed q" "ob_accepted q = []" "ob_puts q = []" "ob_reservations q = []"
    and k: "keyed (ob_stored q)" and len: "length (ob_stored q) \<le> cap"
    using assms by (auto simp: outbox_inv_def split: if_splits)
  note m = stored_list_map_of [OF k]
  have acc: "ob_accepted (fold take_listed ?es q) = map (\<lambda>e. (oe_seq e, e)) ?es"
    using m(1) nl by (simp add: fold_take_listed)
  have "keyed (map (\<lambda>e. (oe_seq e, e)) ?es)"
    using m k by (simp add: keyed_def comp_def)
  then show ?thesis
    using assms acc nl m k len fold_take_listed_next(2) [of _ ?es q]
    by (auto simp: outbox_inv_def load_listed_def)
qed


section \<open>Preservation\<close>

lemma outbox_inv_cong:
  assumes "outbox_inv cap q"
    and "ob_accepted q' = ob_accepted q" "ob_reservations q' = ob_reservations q" "ob_nextSeq q' = ob_nextSeq q"
    and "ob_listed q' = ob_listed q" "ob_puts q' = ob_puts q" "ob_stored q' = ob_stored q"
    and "ob_listed q \<Longrightarrow> ob_load q' = ob_load q"
  shows "outbox_inv cap q'"
  using assms by (simp add: outbox_inv_def)

lemma load_rejected_inv: "outbox_inv cap q \<Longrightarrow> ob_load q = Listing \<Longrightarrow> outbox_inv cap (load_rejected q)"
  by (auto simp: outbox_inv_def load_rejected_def split: if_splits)

lemma load_retried_inv: "outbox_inv cap q \<Longrightarrow> ob_load q = RetryArmed \<Longrightarrow> outbox_inv cap (load_retried q)"
  by (auto simp: outbox_inv_def load_retried_def split: if_splits)

lemma accept_body_inv:
  assumes "outbox_inv cap q" "ob_listed q \<or> ob_closed q" "limit \<le> cap"
  shows "outbox_inv cap (snd (accept_body limit refusal input q))"
proof (cases "\<exists>seq. fst (accept_body limit refusal input q) = Inr seq")
  case False
  then have "snd (accept_body limit refusal input q) = q"
    by (auto simp: accept_body_def Let_def split: option.splits if_splits)
  with assms(1) show ?thesis by simp
next
  case True
  then have room: "length (ob_accepted q) + length (ob_reservations q) < limit" and "ob_listed q"
    and eq: "snd (accept_body limit refusal input q) = q \<lparr> ob_nextSeq := ob_nextSeq q + 1,
      ob_reservations := ob_reservations q @ [ob_nextSeq q],
      ob_puts := ob_puts q @ [(ob_nextSeq q, entry_of (ob_nextSeq q) input)] \<rparr>"
    using assms(2) by (auto simp: accept_body_def Let_def split: option.splits if_splits)
  have "ob_nextSeq q \<notin> fst ` set (ob_puts q)"
  proof -
    have "fst ` set (ob_puts q) = set (ob_reservations q)"
      using assms(1) by (simp add: outbox_inv_def flip: set_map)
    then show ?thesis using assms(1) by (auto simp: outbox_inv_def)
  qed
  then have "keyed (ob_puts q @ [(ob_nextSeq q, entry_of (ob_nextSeq q) input)])"
    using assms(1) by (intro keyed_append) (auto simp: outbox_inv_def entry_of_def)
  moreover have "sorted_wrt (<) (ob_reservations q @ [ob_nextSeq q])"
    using assms(1) by (auto simp: outbox_inv_def sorted_wrt_append)
  moreover have "\<forall>s \<in> fst ` set (ob_accepted q) \<union> set (ob_reservations q @ [ob_nextSeq q]). s < ob_nextSeq q + 1"
    using assms(1) by (simp add: outbox_inv_def less_Suc_eq)
  moreover have "fst ` set (ob_accepted q) \<inter> set (ob_reservations q @ [ob_nextSeq q]) = {}"
    using assms(1) by (auto simp: outbox_inv_def)
  ultimately show ?thesis
    using assms(1) room \<open>ob_listed q\<close> assms(3) unfolding eq by (simp add: outbox_inv_def)
qed

lemma accept_call_inv:
  assumes "outbox_inv cap q" "limit \<le> cap"
  shows "outbox_inv cap (snd (accept_call limit refusal input q))"
  using assms accept_body_inv [OF assms(1) _ assms(2)]
  by (auto simp: accept_call_def intro: outbox_inv_cong)

lemma accept_resumed_inv:
  assumes "outbox_inv cap q" "outbox_ready q" "limit \<le> cap"
  shows "outbox_inv cap (snd (accept_resumed limit refusal q))"
proof (cases "ob_waiting q")
  case (Cons input rest)
  have "outbox_inv cap (q \<lparr> ob_waiting := rest \<rparr>)"
    by (rule outbox_inv_cong [OF assms(1)]) simp_all
  then show ?thesis
    using accept_body_inv [of cap "q \<lparr> ob_waiting := rest \<rparr>"] assms(2,3) Cons
    by (simp add: accept_resumed_def outbox_ready_def)
qed (use assms in \<open>simp add: accept_resumed_def\<close>)

lemma removeAll_length_distinct: "distinct xs \<Longrightarrow> x \<in> set xs \<Longrightarrow> length (removeAll x xs) + 1 = length xs"
  using length_pos_if_in_set [of x xs] by (simp add: distinct_remove1_removeAll [symmetric] length_remove1)

lemma delete_fst: "map fst (AList.delete k m) = removeAll k (map fst m)"
  by (induction m) auto

lemma accept_put_inv:
  assumes "outbox_inv cap q"
  shows "outbox_inv cap (accept_put seq stored q)"
proof (cases "map_of (ob_puts q) seq")
  case None
  with assms show ?thesis by (simp add: accept_put_def)
next
  case (Some e)
  from assms have seq: "oe_seq e = seq" using Some by (simp add: outbox_inv_def keyed_def)
  have res: "map fst (ob_puts q) = ob_reservations q" and so: "sorted_wrt (<) (ob_reservations q)"
    using assms by (simp_all add: outbox_inv_def)
  have mem: "seq \<in> set (ob_reservations q)" unfolding res [symmetric] using Some by (auto dest: map_of_SomeD intro: rev_image_eqI)
  then have new: "seq \<notin> fst ` set (ob_accepted q)" and ls: "ob_listed q"
    using assms by (auto simp: outbox_inv_def split: if_splits)
  have len: "length (removeAll seq (ob_reservations q)) + 1 = length (ob_reservations q)"
    using mem so by (intro removeAll_length_distinct) (simp_all add: strict_sorted_iff)
  have le: "map_of (AList.update seq e (ob_stored q)) \<subseteq>\<^sub>m map_of (AList.update seq e (ob_accepted q))"
    using assms ls by (auto simp: outbox_inv_def update_conv' map_le_def)
  have so': "sorted_wrt (<) (removeAll seq (ob_reservations q))"
    using so by (simp add: removeAll_filter_not_eq sorted_wrt_filter)
  show ?thesis
    using assms Some seq res so' mem new ls len le keyed_update [of "ob_accepted q" e seq]
      keyed_update [of "ob_stored q" e seq] keyed_delete [of "ob_puts q" seq]
    by (auto simp: outbox_inv_def accept_put_def Let_def store_put_def delete_fst AList_update_new)
qed

lemma outbox_step_inv:
  assumes "outbox_inv cap q" "dp_limit P \<le> cap" "outbox_step P ev q = Some q'"
  shows "outbox_inv cap q'"
  using assms(3)
proof (cases ev)
  case (AcceptPut seq stored)
  with assms show ?thesis by (auto split: if_splits intro: accept_put_inv)
qed (use assms in \<open>auto split: if_splits intro: load_listed_inv load_rejected_inv load_retried_inv
       accept_call_inv accept_resumed_inv\<close>)

lemma outbox_close_inv: "outbox_inv cap q \<Longrightarrow> outbox_inv cap (outbox_close q)"
  by (auto simp: outbox_inv_def outbox_close_def split: if_splits)

lemma outbox_stop_inv: "outbox_inv cap q \<Longrightarrow> outbox_inv cap (outbox_stop q)"
  by (simp add: outbox_inv_def outbox_stop_def)

text \<open>The removal of an entry from the storage and then from the memory, and the emptying of both.\<close>

lemma store_remove_inv: "outbox_inv cap q \<Longrightarrow> ob_listed q \<Longrightarrow> outbox_inv cap (store_remove seq q)"
  by (auto simp: outbox_inv_def store_remove_def delete_conv' map_le_def split: if_splits)

lemma store_clear_inv: "outbox_inv cap q \<Longrightarrow> outbox_inv cap (store_clear q)"
  by (auto simp: outbox_inv_def store_clear_def)

lemma outbox_inv_memory:
  assumes "outbox_inv cap q" "ob_listed q" "q' = q \<lparr> ob_accepted := m \<rparr>"
    and "keyed m" "fst ` set m \<subseteq> fst ` set (ob_accepted q)" "length m \<le> length (ob_accepted q)"
    and "map_of (ob_stored q) \<subseteq>\<^sub>m map_of m"
  shows "outbox_inv cap q'"
proof -
  have below: "\<forall>s \<in> fst ` set (ob_accepted q) \<union> set (ob_reservations q). s < ob_nextSeq q"
    and apart: "fst ` set (ob_accepted q) \<inter> set (ob_reservations q) = {}"
    using assms(1) by (simp_all add: outbox_inv_def)
  have "\<forall>s \<in> fst ` set m \<union> set (ob_reservations q). s < ob_nextSeq q"
    using below assms(5) by blast
  moreover have "fst ` set m \<inter> set (ob_reservations q) = {}"
    using apart assms(5) by blast
  ultimately show ?thesis
    using assms by (simp add: outbox_inv_def)
qed

lemma outbox_remove_inv:
  assumes "outbox_inv cap q" "seq \<notin> fst ` set (ob_stored q)" "ob_listed q"
  shows "outbox_inv cap (outbox_remove seq q)"
proof -
  have "length (AList.delete seq (ob_accepted q)) \<le> length (ob_accepted q)"
    by (rule length_delete_le)
  moreover have "map_of (ob_stored q) \<subseteq>\<^sub>m map_of (AList.delete seq (ob_accepted q))"
    using assms by (auto simp: outbox_inv_def delete_conv' map_le_def map_of_eq_None_iff [symmetric] simp del: map_of_eq_None_iff)
  moreover have "fst ` set (AList.delete seq (ob_accepted q)) \<subseteq> fst ` set (ob_accepted q)"
    by (auto simp: AList_delete_filter)
  moreover have "keyed (AList.delete seq (ob_accepted q))"
    using assms(1) by (intro keyed_delete) (simp add: outbox_inv_def)
  ultimately show ?thesis
    using assms by (intro outbox_inv_memory [OF assms(1)]) (simp_all add: outbox_remove_def)
qed

lemma outbox_clear_inv: "outbox_inv cap q \<Longrightarrow> ob_stored q = [] \<Longrightarrow> outbox_inv cap (outbox_clear q)"
  by (auto simp: outbox_inv_def outbox_clear_def)

text \<open>An attempt is written to the storage, then to the memory, of an entry that is there.\<close>

lemma store_replace_inv:
  assumes "outbox_inv cap q" "ob_listed q" "oe_seq e \<in> fst ` set (ob_accepted q)"
  shows "outbox_inv cap (outbox_replace e (store_put e q))"
proof -
  have f: "map fst (AList.update (oe_seq e) e (ob_accepted q)) = map fst (ob_accepted q)"
    using assms(3) by (simp add: AList_update_in_place)
  have "length (AList.update (oe_seq e) e (ob_accepted q)) = length (ob_accepted q)"
    using arg_cong [OF f, of length] by simp
  moreover have "map_of (AList.update (oe_seq e) e (ob_stored q)) \<subseteq>\<^sub>m map_of (AList.update (oe_seq e) e (ob_accepted q))"
    using assms by (auto simp: outbox_inv_def update_conv' map_le_def)
  moreover have "fst ` set (AList.update (oe_seq e) e (ob_accepted q)) = fst ` set (ob_accepted q)"
    using arg_cong [OF f, of set] by simp
  ultimately show ?thesis
    using assms keyed_update [of "ob_accepted q" e] keyed_update [of "ob_stored q" e]
    by (simp add: outbox_inv_def outbox_replace_def store_put_def)
qed


section \<open>How an event of the outbox moves it\<close>

definition grown :: "outbox \<Rightarrow> outbox \<Rightarrow> bool" where
  "grown q q' \<longleftrightarrow>
     map_of (ob_accepted q) \<subseteq>\<^sub>m map_of (ob_accepted q') \<and> map_of (ob_stored q) \<subseteq>\<^sub>m map_of (ob_stored q') \<and>
     (ob_listed q \<longrightarrow> ob_listed q') \<and> ob_closed q' = ob_closed q \<and> ob_stopped q' = ob_stopped q \<and>
     (\<forall>s \<in> fst ` set (ob_accepted q'). s \<in> fst ` set (ob_accepted q) \<or>
        s \<in> fst ` set (ob_stored q') \<and> (ob_listed q \<longrightarrow> s \<in> set (ob_reservations q))) \<and>
     (\<forall>r \<in> set (ob_reservations q'). r \<in> set (ob_reservations q) \<or> ob_nextSeq q \<le> r) \<and>
     (ob_listed q \<and> ob_stopped q \<and> ob_reservations q = [] \<longrightarrow>
        ob_reservations q' = [] \<and> ob_accepted q' = ob_accepted q)"

lemma grown_same:
  assumes "ob_accepted q' = ob_accepted q" "ob_stored q' = ob_stored q" "ob_listed q' = ob_listed q"
    "ob_closed q' = ob_closed q" "ob_stopped q' = ob_stopped q" "ob_reservations q' = ob_reservations q"
  shows "grown q q'"
  using assms by (simp add: grown_def)

lemma grown_accept_body: "grown q (snd (accept_body limit refusal input q))"
  by (auto simp: grown_def accept_body_def Let_def split: option.splits)

lemma grown_accept_body':
  assumes "ob_accepted q = ob_accepted q0" "ob_stored q = ob_stored q0" "ob_listed q = ob_listed q0"
    "ob_closed q = ob_closed q0" "ob_stopped q = ob_stopped q0" "ob_reservations q = ob_reservations q0"
    "ob_nextSeq q = ob_nextSeq q0"
  shows "grown q0 (snd (accept_body limit refusal input q))"
  using grown_accept_body [of q limit refusal input] assms unfolding grown_def by simp

lemma grown_accept_put:
  assumes "outbox_inv cap q"
  shows "grown q (accept_put seq stored q)"
proof (cases "map_of (ob_puts q) seq")
  case None
  then show ?thesis by (simp add: accept_put_def grown_same)
next
  case (Some e)
  have res: "map fst (ob_puts q) = ob_reservations q" using assms by (simp add: outbox_inv_def)
  have mem: "seq \<in> set (ob_reservations q)"
    unfolding res [symmetric] using Some by (auto dest: map_of_SomeD intro: rev_image_eqI)
  have seq: "oe_seq e = seq" using assms Some by (simp add: outbox_inv_def keyed_def)
  have new: "seq \<notin> fst ` set (ob_accepted q)" and ls: "ob_listed q"
    using assms mem by (auto simp: outbox_inv_def split: if_splits)
  have new': "seq \<notin> fst ` set (ob_stored q)"
  proof
    assume "seq \<in> fst ` set (ob_stored q)"
    then obtain x where "map_of (ob_stored q) seq = Some x" by (metis map_of_keys option.exhaust)
    moreover have "map_of (ob_stored q) \<subseteq>\<^sub>m map_of (ob_accepted q)" using assms ls by (simp add: outbox_inv_def)
    ultimately have "map_of (ob_accepted q) seq = Some x" by (metis domI map_le_def)
    with new show False by (auto dest: map_of_SomeD intro: rev_image_eqI)
  qed
  have none: "map_of (ob_accepted q) seq = None" "map_of (ob_stored q) seq = None"
    using new new' map_of_keys by metis+
  show ?thesis
  proof (cases stored)
    case True
    then have "ob_accepted (accept_put seq stored q) = ob_accepted q @ [(seq, e)]"
      "ob_stored (accept_put seq stored q) = ob_stored q @ [(seq, e)]"
      using Some new new' seq by (simp_all add: accept_put_def Let_def store_put_def AList_update_new)
    moreover have "ob_reservations (accept_put seq stored q) = removeAll seq (ob_reservations q)"
      "ob_listed (accept_put seq stored q) = ob_listed q" "ob_closed (accept_put seq stored q) = ob_closed q"
      "ob_stopped (accept_put seq stored q) = ob_stopped q"
      using Some True by (simp_all add: accept_put_def Let_def store_put_def)
    ultimately show ?thesis
      using mem none by (auto simp: grown_def map_le_def map_add_def split: option.splits if_splits)
  next
    case False
    with Some mem show ?thesis by (auto simp: grown_def accept_put_def)
  qed
qed

lemma load_listed_grown:
  assumes "outbox_inv cap q" "ob_load q = Listing"
  shows "grown q (load_listed (stored_list q) q)"
proof (cases "ob_closed q")
  case False
  have nl: "\<not> ob_listed q" "ob_accepted q = []" "ob_reservations q = []" and k: "keyed (ob_stored q)"
    using assms by (auto simp: outbox_inv_def split: if_splits)
  note m = stored_list_map_of [OF k]
  have acc: "ob_accepted (fold take_listed (stored_list q) q) = map (\<lambda>e. (oe_seq e, e)) (stored_list q)"
    using m(1) nl by (simp add: fold_take_listed)
  have "fst ` set (map (\<lambda>e. (oe_seq e, e)) (stored_list q)) = fst ` set (ob_stored q)"
    using m(2) by (metis dom_map_of_conv_image_fst)
  with acc nl False show ?thesis by (auto simp: grown_def load_listed_def image_image)
qed (simp add: load_listed_def grown_same)

lemma outbox_step_grown:
  assumes "outbox_inv cap q" "outbox_step P ev q = Some q'"
  shows "grown q q'"
  using assms(2)
proof (cases ev)
  case ListResolved
  with assms show ?thesis by (auto split: if_splits intro: load_listed_grown)
next
  case (AcceptCalled input refusal)
  with assms show ?thesis
    by (auto simp: accept_call_def intro: grown_same grown_accept_body split: if_splits)
next
  case (AcceptResumed refusal)
  with assms obtain input rest where "ob_waiting q = input # rest"
    "q' = snd (accept_body (dp_limit P) refusal input (q \<lparr> ob_waiting := rest \<rparr>))"
    by (auto simp: accept_resumed_def split: if_splits list.splits)
  then show ?thesis by (simp add: grown_accept_body')
next
  case (AcceptPut seq stored)
  with assms show ?thesis by (auto split: if_splits intro: grown_accept_put)
qed (auto simp: load_rejected_def load_retried_def intro: grown_same split: if_splits)

end
