(* ===== verification/Delivery_Inv.thy ===== *)
theory Delivery_Inv
  imports Outbox_Inv
begin

text \<open>
  The invariant of the delivery worker over its outbox. The books are what the pass keeps between
  events; the second part says what holds where the pass waits, above all before a frame is handed to
  the hub: the attempt is in the storage, and every earlier entry is proven or published in that epoch.
\<close>

named_theorems pass_simps \<open>where a continuation of the pass leaves it\<close>

section \<open>What the scheduling of the pass leaves alone\<close>

definition books :: "delivery \<Rightarrow> delivery" where
  "books d = d \<lparr> ld_at := Off, ld_needed := False, ld_immediate := False, ld_retrying := False,
                 ld_timer := None, ld_backoff := 0 \<rparr>"

lemma books_upd [simp]:
  "books (d \<lparr> ld_at := pc \<rparr>) = books d"
  "books (d \<lparr> ld_needed := b \<rparr>) = books d"
  "books (d \<lparr> ld_immediate := b \<rparr>) = books d"
  "books (d \<lparr> ld_retrying := b \<rparr>) = books d"
  "books (d \<lparr> ld_timer := t \<rparr>) = books d"
  "books (d \<lparr> ld_backoff := n \<rparr>) = books d"
  by (simp_all add: books_def)

lemma books_schedule [simp]: "books (ld_schedule delay d) = books d" "ld_at (ld_schedule delay d) = ld_at d"
  by (simp_all add: ld_schedule_def)

lemma books_pass_over [simp]: "books (pass_over failed d) = books d" "ld_at (pass_over failed d) = Off"
  by (simp_all add: pass_over_def Let_def)

lemma books_queue_loop [simp]: "books (queue_loop es count d) = books d"
  by (induction es count d rule: queue_loop.induct) simp_all

lemma books_continuations [simp]:
  "books (queue_pass d) = books d"
  "books (resend_loop d) = books d"
  "books (removeProven after d) = books d"
  "books (queue_is_ready d) = books d"
  "books (finish_pass d) = books d"
  "books (last_pulled d) = books d"
  by (simp_all add: queue_pass_def resend_loop_def removeProven_def queue_is_ready_def finish_pass_def
      last_pulled_def Let_def split: list.splits after_removal.splits)

lemma fields_of_books:
  assumes "books d' = books d"
  shows "ld_queue d' = ld_queue d" "ld_publications d' = ld_publications d" "ld_proven d' = ld_proven d"
    "ld_delivered d' = ld_delivered d" "ld_resend d' = ld_resend d" "ld_acknowledgements d' = ld_acknowledgements d"
    "ld_removed d' = ld_removed d" "ld_closed d' = ld_closed d" "ld_notices d' = ld_notices d"
    "ld_floor d' = ld_floor d" "ld_held d' = ld_held d" "ld_sendsHeld d' = ld_sendsHeld d"
  using assms by (cases d; cases d'; simp add: books_def)+

lemmas schedule_fields [simp] = fields_of_books [OF books_schedule(1)]
lemmas pass_over_fields [simp] = fields_of_books [OF books_pass_over(1)]
lemmas queue_loop_fields [simp] = fields_of_books [OF books_queue_loop]
lemmas queue_pass_fields [simp] = fields_of_books [OF books_continuations(1)]
lemmas resend_loop_fields [simp] = fields_of_books [OF books_continuations(2)]
lemmas removeProven_fields [simp] = fields_of_books [OF books_continuations(3)]
lemmas queue_is_ready_fields [simp] = fields_of_books [OF books_continuations(4)]
lemmas finish_pass_fields [simp] = fields_of_books [OF books_continuations(5)]
lemmas last_pulled_fields [simp] = fields_of_books [OF books_continuations(6)]

section \<open>The invariant of the books\<close>

definition accepted_seqs :: "delivery \<Rightarrow> nat set" where
  "accepted_seqs d = fst ` set (ob_accepted (ld_queue d))"

definition books_inv :: "nat \<Rightarrow> delivery_params \<Rightarrow> delivery \<Rightarrow> bool" where
  "books_inv cap P d \<longleftrightarrow>
     outbox_inv cap (ld_queue d) \<and>
     distinct (map fst (ld_publications d)) \<and>
     fst ` set (ld_publications d) \<subseteq> accepted_seqs d \<and>
     distinct (ld_proven d) \<and> set (ld_proven d) \<subseteq> fst ` set (ld_publications d) \<and>
     length (ld_delivered d) \<le> dp_deliveredLimit P \<and>
     (\<forall>s \<in> accepted_seqs d. ld_removed d \<or> s \<in> set (ld_proven d) \<or> s \<in> fst ` set (ob_stored (ld_queue d))) \<and>
     (ld_removed d \<longrightarrow> ob_stopped (ld_queue d)) \<and>
     (ob_closed (ld_queue d) \<longrightarrow> ld_closed d)"

lemma accepted_seqs_books: "accepted_seqs (books d) = accepted_seqs d"
  by (simp add: accepted_seqs_def books_def)

lemma books_inv_books: "books_inv cap P (books d) = books_inv cap P d"
  by (simp add: books_inv_def accepted_seqs_books) (simp add: books_def)

lemma books_inv_cong: "books d' = books d \<Longrightarrow> books_inv cap P d' = books_inv cap P d"
  by (metis books_inv_books)

section \<open>The invariant of the place where the pass waits\<close>

definition visiting :: "AppOutboxEntry list \<Rightarrow> delivery \<Rightarrow> bool" where
  "visiting es d \<longleftrightarrow> seq_sorted es \<and>
     (\<forall>e \<in> set es. \<exists>e'. map_of (ob_accepted (ld_queue d)) (oe_seq e) = Some e' \<and> content_of e' = content_of e)"

definition unfenced :: "nat \<Rightarrow> delivery \<Rightarrow> bool" where
  "unfenced seq d \<longleftrightarrow> (\<forall>r \<in> set (ob_reservations (ld_queue d)). seq < r)"

text \<open>Every accepted entry before \<open>seq\<close> is proven, or published in \<open>epoch\<close>.\<close>

definition published_before :: "nat \<Rightarrow> nat \<Rightarrow> delivery \<Rightarrow> bool" where
  "published_before seq epoch d \<longleftrightarrow> (\<forall>s \<in> accepted_seqs d. s < seq \<longrightarrow>
     s \<in> set (ld_proven d) \<or> (\<exists>p. map_of (ld_publications d) s = Some p \<and> pb_epoch p = epoch))"

definition attempt_stored :: "nat \<Rightarrow> EpochFloor \<Rightarrow> delivery \<Rightarrow> bool" where
  "attempt_stored seq fl d \<longleftrightarrow> (\<exists>e a. map_of (ob_stored (ld_queue d)) seq = Some e \<and> oe_lastAttempt e = Some a \<and>
     la_epoch a = ef_epoch fl \<and> la_floor a = ef_position fl)"

fun pass_inv :: "pass_at \<Rightarrow> delivery \<Rightarrow> bool" where
  "pass_inv Off d = True"
| "pass_inv AtReady d = True"
| "pass_inv AtQueueReady d = True"
| "pass_inv (AtClear seqs) d = (ob_listed (ld_queue d) \<and> ld_removed d \<and> ob_reservations (ld_queue d) = [] \<and>
     seqs = map oe_seq (ld_entries d))"
| "pass_inv (AtRemove seq after) d = (ob_listed (ld_queue d) \<and> seq \<in> set (ld_proven d))"
| "pass_inv (AtProbe e rest count) d = (ob_listed (ld_queue d) \<and> visiting (e # rest) d \<and> unfenced (oe_seq e) d)"
| "pass_inv (AtPull e rest count) d = (ob_listed (ld_queue d) \<and> visiting (e # rest) d \<and> unfenced (oe_seq e) d)"
| "pass_inv (AtSeal e rest count) d = (ob_listed (ld_queue d) \<and> visiting (e # rest) d \<and> unfenced (oe_seq e) d)"
| "pass_inv (AtPut e frame rest count) d = (ob_listed (ld_queue d) \<and> visiting (e # rest) d \<and>
     unfenced (oe_seq e) d \<and> published_before (oe_seq e) (ef_epoch (sf_floor frame)) d \<and>
     (\<exists>e0. e = attempted e0 (sf_floor frame)))"
| "pass_inv (AtPublish seq frame rest count) d = (ob_listed (ld_queue d) \<and> visiting rest d \<and>
     (\<forall>x \<in> set rest. seq < oe_seq x) \<and>
     seq \<in> accepted_seqs d \<and> unfenced seq d \<and> published_before seq (ef_epoch (sf_floor frame)) d \<and>
     attempt_stored seq (sf_floor frame) d)"
| "pass_inv pc d = ob_listed (ld_queue d)"

lemma books_fields:
  "ld_queue (books d) = ld_queue d" "ld_proven (books d) = ld_proven d" "ld_removed (books d) = ld_removed d"
  "ld_publications (books d) = ld_publications d" "ld_entries (books d) = ld_entries d"
  by (simp_all add: books_def ld_entries_def)

lemma pass_parts_books:
  "visiting es (books d) = visiting es d"
  "unfenced seq (books d) = unfenced seq d"
  "published_before seq epoch (books d) = published_before seq epoch d"
  "attempt_stored seq fl (books d) = attempt_stored seq fl d"
  by (simp_all only: visiting_def unfenced_def published_before_def attempt_stored_def accepted_seqs_books books_fields)

lemma pass_inv_books: "pass_inv pc (books d) = pass_inv pc d"
  by (cases pc) (simp_all only: pass_inv.simps pass_parts_books accepted_seqs_books books_fields)

lemma pass_inv_cong: "books d' = books d \<Longrightarrow> pass_inv pc d' = pass_inv pc d"
  by (metis pass_inv_books)

definition delivery_inv :: "nat \<Rightarrow> delivery_params \<Rightarrow> delivery \<Rightarrow> bool" where
  "delivery_inv cap P d \<longleftrightarrow> books_inv cap P d \<and> pass_inv (ld_at d) d"

lemma delivery_inv_cong:
  "books d' = books d \<Longrightarrow> delivery_inv cap P d' \<longleftrightarrow> books_inv cap P d \<and> pass_inv (ld_at d') d"
  unfolding delivery_inv_def using books_inv_cong [of d' d] pass_inv_cong [of d' d] by blast

lemma delivery_inv_pass_over: "books_inv cap P d \<Longrightarrow> delivery_inv cap P (pass_over failed d)"
  using delivery_inv_cong [of "pass_over failed d" d] by simp

lemma not_needsEarlier:
  assumes "keyed (ob_accepted (ld_queue d))"
  shows "\<not> needsEarlierPublication seq epoch d \<longleftrightarrow> published_before seq epoch d"
proof -
  have "accepted_seqs d = oe_seq ` set (ld_entries d)"
    using keyed_seqs [OF assms] unfolding accepted_seqs_def ld_entries_def outbox_entries_def set_sort
    by (metis set_map)
  then show ?thesis
    by (auto simp: needsEarlierPublication_def published_before_def)
qed

section \<open>Where a continuation leaves the pass\<close>

lemma visiting_Cons: "visiting (e # es) d \<Longrightarrow> visiting es d"
  by (simp add: visiting_def)

lemma fence_unfenced:
  assumes "sorted_wrt (<) (ob_reservations (ld_queue d))"
    and "\<not> (case ld_fence d of None \<Rightarrow> False | Some fence \<Rightarrow> fence \<le> seq)"
  shows "unfenced seq d"
  using assms by (cases "ob_reservations (ld_queue d)") (auto simp: unfenced_def ld_fence_def lowestUnresolvedSeq_def)

lemma queue_loop_pass:
  assumes "sorted_wrt (<) (ob_reservations (ld_queue d))" "ob_listed (ld_queue d)" "visiting es d"
  shows "pass_inv (ld_at (queue_loop es count d)) d"
  using assms
proof (induction es count d rule: queue_loop.induct)
  case (2 e rest count d)
  show ?case
  proof (cases "ld_closed d \<or> (case ld_fence d of None \<Rightarrow> False | Some fence \<Rightarrow> fence \<le> oe_seq e) \<or> count = 64
               \<or> oe_seq e \<in> set (ld_proven d)")
    case True
    then show ?thesis using 2 visiting_Cons [of e rest d] by auto
  next
    case False
    then have "unfenced (oe_seq e) d" using 2(2) by (intro fence_unfenced) auto
    with False 2 show ?thesis by simp
  qed
qed simp

lemma books_inv_sorted: "books_inv cap P d \<Longrightarrow> sorted_wrt (<) (ob_reservations (ld_queue d))"
  by (simp add: books_inv_def outbox_inv_def)

lemma books_inv_keyed: "books_inv cap P d \<Longrightarrow> keyed (ob_accepted (ld_queue d))"
  by (simp add: books_inv_def outbox_inv_def)

lemma queue_pass_pass:
  assumes "books_inv cap P d" "ob_listed (ld_queue d)"
  shows "pass_inv (ld_at (queue_pass d)) d"
proof -
  note k = books_inv_keyed [OF assms(1)]
  have "visiting (ld_entries d) d"
    using entries_sorted [OF k] entries_set [OF k] by (auto simp: visiting_def ld_entries_def)
  with queue_loop_pass [OF books_inv_sorted [OF assms(1)] assms(2)] show ?thesis
    by (simp add: queue_pass_def)
qed

lemma resend_loop_pass:
  "books_inv cap P d \<Longrightarrow> ob_listed (ld_queue d) \<Longrightarrow> pass_inv (ld_at (resend_loop d)) d"
  by (auto simp: resend_loop_def queue_pass_pass split: list.splits)

lemma removeProven_pass:
  "books_inv cap P d \<Longrightarrow> ob_listed (ld_queue d) \<Longrightarrow> pass_inv (ld_at (removeProven after d)) d"
  by (auto simp: removeProven_def resend_loop_pass split: list.splits after_removal.splits)

lemma finish_pass_pass:
  assumes "books_inv cap P d" "ob_listed (ld_queue d)"
  shows "pass_inv (ld_at (finish_pass d)) d"
proof -
  let ?d = "if \<exists>p \<in> set (map snd (ld_publications d)). pb_epoch p \<noteq> ef_epoch (ld_floor d)
      then d \<lparr> ld_immediate := True \<rparr> else d"
  have b: "books ?d = books d" by simp
  have "books_inv cap P ?d" "ob_listed (ld_queue ?d)"
    using assms books_inv_cong [OF b] by simp_all
  from removeProven_pass [OF this] pass_inv_cong [OF b] show ?thesis
    unfolding finish_pass_def by blast
qed

lemma last_pulled_pass:
  "books_inv cap P d \<Longrightarrow> ob_listed (ld_queue d) \<Longrightarrow> pass_inv (ld_at (last_pulled d)) d"
  by (simp add: last_pulled_def finish_pass_pass)

lemma queue_is_ready_pass:
  assumes "books_inv cap P d" "outbox_ready (ld_queue d)"
  shows "pass_inv (ld_at (queue_is_ready d)) d"
proof (cases "ld_closed d")
  case False
  then have "ob_listed (ld_queue d)"
    using assms by (auto simp: outbox_ready_def books_inv_def)
  with False assms removeProven_pass [OF assms(1)] show ?thesis
    by (auto simp: queue_is_ready_def Let_def ld_fence_def lowestUnresolvedSeq_def split: list.splits)
qed (simp add: queue_is_ready_def)


section \<open>Events that do not move the pass\<close>

lemma pass_inv_mono:
  assumes "pass_inv pc d"
    and "ob_accepted (ld_queue d') = ob_accepted (ld_queue d)" "ob_stored (ld_queue d') = ob_stored (ld_queue d)"
    and "ob_listed (ld_queue d') = ob_listed (ld_queue d)" "ob_reservations (ld_queue d') = ob_reservations (ld_queue d)"
    and "ld_publications d' = ld_publications d" "set (ld_proven d) \<subseteq> set (ld_proven d')"
    and "ld_removed d \<longrightarrow> ld_removed d'"
  shows "pass_inv pc d'"
proof -
  have "accepted_seqs d' = accepted_seqs d" "ld_entries d' = ld_entries d"
    using assms(2) by (simp_all add: accepted_seqs_def ld_entries_def outbox_entries_def)
  moreover have "published_before seq epoch d \<Longrightarrow> published_before seq epoch d'" for seq epoch
    using assms(6,7) calculation(1) unfolding published_before_def by auto
  moreover have "visiting es d' = visiting es d" "unfenced seq d' = unfenced seq d"
      "attempt_stored seq fl d' = attempt_stored seq fl d" for es seq fl
    using assms by (simp_all add: visiting_def unfenced_def attempt_stored_def)
  ultimately show ?thesis
    using assms by (cases pc) auto
qed

lemma accepted_below: "books_inv cap P d \<Longrightarrow> s \<in> accepted_seqs d \<Longrightarrow> s < ob_nextSeq (ld_queue d)"
  by (simp add: books_inv_def outbox_inv_def accepted_seqs_def)

lemma visiting_accepted: "visiting es d \<Longrightarrow> e \<in> set es \<Longrightarrow> oe_seq e \<in> accepted_seqs d"
  by (force simp: visiting_def accepted_seqs_def dest: map_of_SomeD)

lemma pass_inv_grown:
  assumes "books_inv cap P d" "pass_inv pc d" "grown (ld_queue d) q'"
  shows "pass_inv pc (d \<lparr> ld_queue := q' \<rparr>)"
proof -
  let ?d = "d \<lparr> ld_queue := q' \<rparr>"
  have sub: "map_of (ob_accepted (ld_queue d)) \<subseteq>\<^sub>m map_of (ob_accepted q')"
    and st: "map_of (ob_stored (ld_queue d)) \<subseteq>\<^sub>m map_of (ob_stored q')"
    using assms(3) by (simp_all add: grown_def)
  have v: "visiting es ?d" if "visiting es d" for es
    using that sub unfolding visiting_def by (fastforce simp: map_le_def dom_def)
  have a: "s \<in> accepted_seqs ?d" if "s \<in> accepted_seqs d" for s
    using that map_le_implies_dom_le [OF sub] by (auto simp: accepted_seqs_def dom_map_of_conv_image_fst)
  have u: "unfenced s ?d" if "unfenced s d" "s \<in> accepted_seqs d" for s
    using that assms(3) accepted_below [OF assms(1) that(2)] unfolding grown_def unfenced_def by fastforce
  have p: "published_before s ep ?d" if "published_before s ep d" "unfenced s d" "ob_listed (ld_queue d)" for s ep
    using that assms(3) unfolding grown_def published_before_def unfenced_def accepted_seqs_def by fastforce
  have t: "attempt_stored s fl ?d" if "attempt_stored s fl d" for s fl
    using that st unfolding attempt_stored_def by (fastforce simp: map_le_def dom_def)
  have l: "ob_listed (ld_queue d) \<Longrightarrow> ob_listed q'"
    using assms(3) by (simp add: grown_def)
  show ?thesis
  proof (cases pc)
    case (AtClear seqs)
    moreover have "ob_stopped (ld_queue d)" using assms AtClear by (simp add: books_inv_def)
    ultimately have "ob_accepted q' = ob_accepted (ld_queue d)" "ob_reservations q' = []"
      using assms by (simp_all add: grown_def)
    with AtClear assms l show ?thesis by (simp add: ld_entries_def outbox_entries_def)
  next
    case (AtPut e frame rest count)
    with assms v u p l visiting_accepted [of "e # rest" d e] show ?thesis by auto
  next
    case (AtPublish seq frame rest count)
    with assms v u p l t a show ?thesis by auto
  qed (use assms v u l visiting_accepted [of "_ # _" d] in auto)
qed

lemma books_inv_grown:
  assumes "books_inv cap P d" "outbox_inv cap q'" "grown (ld_queue d) q'"
  shows "books_inv cap P (d \<lparr> ld_queue := q' \<rparr>)"
proof -
  let ?d = "d \<lparr> ld_queue := q' \<rparr>"
  have sub: "accepted_seqs d \<subseteq> accepted_seqs ?d"
    and st: "fst ` set (ob_stored (ld_queue d)) \<subseteq> fst ` set (ob_stored q')"
    using assms(3) map_le_implies_dom_le [of "map_of (ob_accepted (ld_queue d))" "map_of (ob_accepted q')"]
      map_le_implies_dom_le [of "map_of (ob_stored (ld_queue d))" "map_of (ob_stored q')"]
    by (simp_all add: grown_def accepted_seqs_def dom_map_of_conv_image_fst)
  have "\<forall>s \<in> accepted_seqs ?d. s \<in> accepted_seqs d \<or> s \<in> fst ` set (ob_stored q')"
    using assms(3) by (auto simp: grown_def accepted_seqs_def)
  then have "\<forall>s \<in> accepted_seqs ?d. ld_removed d \<or> s \<in> set (ld_proven d) \<or> s \<in> fst ` set (ob_stored q')"
    using assms(1) st unfolding books_inv_def by blast
  with assms sub show ?thesis
    by (auto simp: books_inv_def grown_def)
qed

lemma outbox_event_inv:
  assumes "delivery_inv cap P d" "dp_limit P \<le> cap" "outbox_step P ev (ld_queue d) = Some q'"
  shows "delivery_inv cap P (d \<lparr> ld_queue := q' \<rparr>)"
proof -
  have b: "books_inv cap P d" and p: "pass_inv (ld_at d) d"
    using assms(1) by (simp_all add: delivery_inv_def)
  then have q: "outbox_inv cap (ld_queue d)" by (simp add: books_inv_def)
  note g = outbox_step_grown [OF q assms(3)] and q' = outbox_step_inv [OF q assms(2,3)]
  show ?thesis
    using books_inv_grown [OF b q' g] pass_inv_grown [OF b p g] by (simp add: delivery_inv_def)
qed

lemma set_fold_add: "set (fold set_add xs ys) = set xs \<union> set ys"
  by (induction xs arbitrary: ys) (auto simp: set_add_def)

lemma distinct_fold_add: "distinct ys \<Longrightarrow> distinct (fold set_add xs ys)"
  by (induction xs arbitrary: ys) (auto simp: set_add_def)

lemma prove_where_books: "books_inv cap P d \<Longrightarrow> books_inv cap P (prove_where ok d)"
  by (auto simp: books_inv_def prove_where_def set_fold_add distinct_fold_add accepted_seqs_def)

lemma prove_where_inv: "delivery_inv cap P d \<Longrightarrow> delivery_inv cap P (prove_where ok d)"
  using prove_where_books [of cap P d ok] pass_inv_mono [of "ld_at d" d "prove_where ok d"]
  by (auto simp: delivery_inv_def prove_where_def set_fold_add)

lemma drop_old_length: "length (drop_old oldest limit es) \<le> limit"
  by (induction oldest limit es rule: drop_old.induct) auto

lemma drop_old_shorter: "length (drop_old oldest limit es) \<le> length es"
  by (induction oldest limit es rule: drop_old.induct) auto

lemma rejoined_fields [simp]:
  "ld_queue (rejoined P anchorEpoch d) = ld_queue d"
  "ld_publications (rejoined P anchorEpoch d) = ld_publications d"
  "ld_proven (rejoined P anchorEpoch d) = ld_proven d"
  "ld_removed (rejoined P anchorEpoch d) = ld_removed d"
  "ld_closed (rejoined P anchorEpoch d) = ld_closed d"
  "ld_at (rejoined P anchorEpoch d) = ld_at d"
  "ld_acknowledgements (rejoined P anchorEpoch d) = ld_acknowledgements d"
  by (simp_all add: rejoined_def pruneDelivered_def ld_schedule_def Let_def)

lemma rejoined_length:
  "length (ld_delivered d) \<le> dp_deliveredLimit P \<Longrightarrow>
     length (ld_delivered (rejoined P anchorEpoch d)) \<le> dp_deliveredLimit P"
  by (simp add: rejoined_def pruneDelivered_def ld_schedule_def Let_def drop_old_length)

lemma rejoined_inv:
  assumes "delivery_inv cap P d"
  shows "delivery_inv cap P (rejoined P anchorEpoch d)"
proof -
  have "books_inv cap P (rejoined P anchorEpoch d)"
    using assms rejoined_length [of d P anchorEpoch] by (simp add: delivery_inv_def books_inv_def accepted_seqs_def)
  moreover have "pass_inv (ld_at d) (rejoined P anchorEpoch d)"
    by (rule pass_inv_mono [of _ d]) (use assms in \<open>simp_all add: delivery_inv_def\<close>)
  ultimately show ?thesis by (simp add: delivery_inv_def)
qed

lemma removed_inv:
  assumes "delivery_inv cap P d"
  shows "delivery_inv cap P (removed d)"
proof -
  have "books_inv cap P (removed d)"
    using assms outbox_stop_inv [of cap "ld_queue d"]
    by (auto simp: delivery_inv_def books_inv_def removed_def ld_schedule_def accepted_seqs_def outbox_stop_def)
  moreover have "pass_inv (ld_at d) (removed d)"
    by (rule pass_inv_mono [of _ d]) (use assms in \<open>simp_all add: delivery_inv_def removed_def ld_schedule_def outbox_stop_def\<close>)
  ultimately show ?thesis by (simp add: delivery_inv_def removed_def)
qed

lemma dispose_inv:
  assumes "delivery_inv cap P d"
  shows "delivery_inv cap P (dispose_delivery d)"
proof -
  have "books_inv cap P (dispose_delivery d)"
    using assms outbox_close_inv [of cap "ld_queue d"]
    by (auto simp: delivery_inv_def books_inv_def dispose_delivery_def ld_close_def accepted_seqs_def outbox_close_def)
  moreover have "pass_inv (ld_at d) (dispose_delivery d)"
    by (rule pass_inv_mono [of _ d]) (use assms in \<open>simp_all add: delivery_inv_def dispose_delivery_def ld_close_def outbox_close_def\<close>)
  ultimately show ?thesis by (simp add: delivery_inv_def dispose_delivery_def ld_close_def)
qed

lemma trigger_inv:
  assumes "delivery_inv cap P d"
  shows "delivery_inv cap P (trigger d)"
proof -
  have "books (trigger d) = books d" "ld_at (trigger d) = ld_at d"
    by (simp_all add: trigger_def Let_def)
  then show ?thesis
    using assms by (simp only: delivery_inv_cong [of "trigger d" d] delivery_inv_def [of cap P d])
qed

lemma peer_moves_inv:
  "delivery_inv cap P d \<Longrightarrow> delivery_inv cap P (d \<lparr> ld_floor := fl, ld_held := h, ld_sendsHeld := sh \<rparr>)"
  "delivery_inv cap P d \<Longrightarrow> delivery_inv cap P (d \<lparr> ld_now := now \<rparr>)"
  using pass_inv_mono [of "ld_at d" d "d \<lparr> ld_floor := fl, ld_held := h, ld_sendsHeld := sh \<rparr>"]
    pass_inv_mono [of "ld_at d" d "d \<lparr> ld_now := now \<rparr>"]
  by (simp_all add: delivery_inv_def books_inv_def accepted_seqs_def)


section \<open>Events that move the pass\<close>

lemma delete_keys: "fst ` set (AList.delete k xs) = fst ` set xs - {k}"
  by (force simp: AList_delete_filter)

lemma books_inv_store_remove:
  assumes "books_inv cap P d" "ob_listed (ld_queue d)" "seq \<in> set (ld_proven d)"
  shows "books_inv cap P (on_queue (store_remove seq) d)"
proof -
  have "outbox_inv cap (store_remove seq (ld_queue d))"
    using assms by (intro store_remove_inv) (simp_all add: books_inv_def)
  with assms show ?thesis
    unfolding books_inv_def on_queue_def accepted_seqs_def store_remove_def
    by (simp add: delete_keys) blast
qed

lemma books_inv_store_clear:
  assumes "books_inv cap P d" "ld_removed d"
  shows "books_inv cap P (on_queue store_clear d)"
  using assms store_clear_inv [of cap "ld_queue d"]
  by (auto simp: books_inv_def on_queue_def accepted_seqs_def store_clear_def)

lemma keepDelivered_fields [simp]:
  "ld_queue (keepDelivered P seq d) = ld_queue d"
  "ld_publications (keepDelivered P seq d) = ld_publications d"
  "ld_proven (keepDelivered P seq d) = ld_proven d"
  "ld_removed (keepDelivered P seq d) = ld_removed d"
  "ld_closed (keepDelivered P seq d) = ld_closed d"
  "ld_floor (keepDelivered P seq d) = ld_floor d"
  "ld_acknowledgements (keepDelivered P seq d) = ld_acknowledgements d"
  by (simp_all add: keepDelivered_def pruneDelivered_def split: option.splits)

lemma keepDelivered_length:
  "length (ld_delivered d) \<le> dp_deliveredLimit P \<Longrightarrow> length (ld_delivered (keepDelivered P seq d)) \<le> dp_deliveredLimit P"
  by (auto simp: keepDelivered_def pruneDelivered_def drop_old_length split: option.splits)

lemma removed_one_books:
  assumes "books_inv cap P d" "ob_listed (ld_queue d)" "seq \<notin> fst ` set (ob_stored (ld_queue d))"
  shows "books_inv cap P (keepDelivered P seq d \<lparr> ld_queue := outbox_remove seq (ld_queue d),
           ld_publications := AList.delete seq (ld_publications d), ld_proven := removeAll seq (ld_proven d) \<rparr>)"
proof -
  have "outbox_inv cap (outbox_remove seq (ld_queue d))"
    using assms by (intro outbox_remove_inv) (simp_all add: books_inv_def)
  moreover have "distinct (map fst (AList.delete seq (ld_publications d)))"
    using assms(1) by (simp add: books_inv_def delete_fst distinct_removeAll)
  ultimately show ?thesis
    using assms keepDelivered_length [of d P seq]
    unfolding books_inv_def accepted_seqs_def outbox_remove_def
    by (simp add: distinct_removeAll outbox_remove_def delete_keys) blast
qed

lemma removed_one_inv:
  assumes "books_inv cap P d" "ob_listed (ld_queue d)" "seq \<in> set (ld_proven d)"
  shows "delivery_inv cap P (removed_one P seq after (on_queue (store_remove seq) d))"
proof -
  let ?d = "on_queue (store_remove seq) d"
  let ?d' = "keepDelivered P seq ?d \<lparr> ld_queue := outbox_remove seq (ld_queue ?d),
           ld_publications := AList.delete seq (ld_publications ?d), ld_proven := removeAll seq (ld_proven ?d) \<rparr>"
  have b: "books_inv cap P ?d'"
    by (rule removed_one_books [OF books_inv_store_remove [OF assms]])
       (use assms in \<open>simp_all add: on_queue_def store_remove_def delete_keys\<close>)
  have l: "ob_listed (ld_queue ?d')"
    using assms(2) by (simp add: on_queue_def store_remove_def outbox_remove_def)
  have e: "removed_one P seq after ?d = (if ld_closed ?d' then pass_over False ?d' else removeProven after ?d')"
    by (simp add: removed_one_def Let_def)
  show ?thesis
    unfolding e using delivery_inv_pass_over [OF b] removeProven_pass [OF b l]
      delivery_inv_cong [of "removeProven after ?d'" ?d'] b by simp
qed

lemma cleared_inv:
  assumes "books_inv cap P d" "ld_removed d" "ob_stored (ld_queue d) = []"
  shows "delivery_inv cap P (cleared seqs d)"
proof -
  have "outbox_inv cap (outbox_clear (ld_queue d))"
    using assms by (intro outbox_clear_inv) (simp_all add: books_inv_def)
  then have b: "books_inv cap P (d \<lparr> ld_queue := outbox_clear (ld_queue d), ld_publications := [],
       ld_proven := [], ld_notices := ns \<rparr>)" for ns
    using assms by (simp add: books_inv_def accepted_seqs_def outbox_clear_def)
  have e: "cleared seqs d = pass_over False (d \<lparr> ld_queue := outbox_clear (ld_queue d), ld_publications := [],
       ld_proven := [], ld_notices := (if ld_closed d then ld_notices d else ld_notices d @ [seqs]) \<rparr>)"
    by (simp add: cleared_def Let_def)
  show ?thesis unfolding e by (rule delivery_inv_pass_over) (rule b)
qed

lemma entry_stored_inv:
  assumes "books_inv cap P d" "pass_inv (AtPut e frame rest count) d"
  shows "delivery_inv cap P (entry_stored e frame rest count (on_queue (store_put e) d))"
proof -
  let ?q = "outbox_replace e (store_put e (ld_queue d))"
  let ?d = "d \<lparr> ld_queue := ?q \<rparr>"
  have v: "visiting (e # rest) d" and l: "ob_listed (ld_queue d)" and u: "unfenced (oe_seq e) d"
    and p: "published_before (oe_seq e) (ef_epoch (sf_floor frame)) d"
    using assms(2) by simp_all
  have in_acc: "oe_seq e \<in> fst ` set (ob_accepted (ld_queue d))"
    using visiting_accepted [OF v, of e] by (simp add: accepted_seqs_def)
  have q: "outbox_inv cap ?q"
    using assms(1) l in_acc by (intro store_replace_inv) (simp_all add: books_inv_def)
  have keys: "accepted_seqs ?d = accepted_seqs d"
    using arg_cong [OF AList_update_in_place [of "oe_seq e" e "ob_accepted (ld_queue d)"], of set] in_acc
    by (simp add: accepted_seqs_def outbox_replace_def store_put_def)
  have skeys: "fst ` set (ob_stored (ld_queue d)) \<subseteq> fst ` set (ob_stored ?q)"
    using arg_cong [OF AList_update_in_place [of "oe_seq e" e "ob_stored (ld_queue d)"], of set]
    by (auto simp: outbox_replace_def store_put_def split: if_splits)
  have b: "books_inv cap P ?d"
    using assms(1) q skeys unfolding books_inv_def keys
    by (simp add: outbox_replace_def store_put_def) blast
  have v': "visiting rest ?d"
    using v by (auto simp: visiting_def outbox_replace_def store_put_def update_conv')
  have st: "attempt_stored (oe_seq e) (sf_floor frame) ?d"
    using assms(2) by (auto simp: attempt_stored_def outbox_replace_def store_put_def update_conv' attempted_def)
  have pi: "pass_inv (AtPublish (oe_seq e) frame rest count) ?d"
    using l v v' u p st in_acc keys visiting_def [of "e # rest" d]
    by (simp add: unfenced_def outbox_replace_def store_put_def published_before_def accepted_seqs_def [symmetric])
  have e: "entry_stored e frame rest count (on_queue (store_put e) d) =
     (if ld_closed d \<or> ld_held d then pass_over False ?d
      else if needsEarlierPublication (oe_seq e) (ef_epoch (sf_floor frame)) ?d
        then ?d \<lparr> ld_immediate := True, ld_at := AtLastProbe \<rparr>
      else if ld_sendsHeld d then pass_over False ?d
      else ?d \<lparr> ld_at := AtPublish (oe_seq e) frame rest count \<rparr>)"
    by (simp add: entry_stored_def on_queue_def Let_def)
  have l': "ob_listed ?q" using l by (simp add: outbox_replace_def store_put_def)
  show ?thesis
    unfolding e using delivery_inv_pass_over [OF b] b pi l'
      delivery_inv_cong [of "?d \<lparr> ld_immediate := True, ld_at := AtLastProbe \<rparr>" ?d cap P]
      delivery_inv_cong [of "?d \<lparr> ld_at := AtPublish (oe_seq e) frame rest count \<rparr>" ?d cap P]
    by simp
qed


lemma entry_published_inv:
  assumes "books_inv cap P d" "pass_inv (AtPublish seq frame rest count) d"
  shows "delivery_inv cap P (entry_published seq frame rest count d)"
proof (cases "ld_closed d")
  case True
  then show ?thesis using delivery_inv_pass_over [OF assms(1)] by (simp add: entry_published_def)
next
  case False
  let ?pubs = "AList.update seq \<lparr> pb_epoch = ef_epoch (sf_floor frame),
               pb_floor = ef_position (sf_floor frame), pb_acknowledged = ld_acknowledgements d + 1 \<rparr>
               (ld_publications d)"
  let ?d = "d \<lparr> ld_acknowledgements := ld_acknowledgements d + 1, ld_publications := ?pubs \<rparr>"
  have keys: "fst ` set ?pubs = insert seq (fst ` set (ld_publications d))"
    using arg_cong [OF AList_update_in_place [of seq _ "ld_publications d"], of set] by (auto split: if_splits)
  have b: "books_inv cap P ?d"
    using assms keys unfolding books_inv_def accepted_seqs_def
    by (simp add: distinct_update accepted_seqs_def) blast
  have l: "ob_listed (ld_queue ?d)" and v: "visiting rest ?d"
    using assms(2) by (simp_all add: visiting_def)
  note loop = queue_loop_pass [OF books_inv_sorted [OF b] l v, of count]
  have e: "entry_published seq frame rest count d =
     (if ef_epoch (ld_floor d) \<noteq> ef_epoch (sf_floor frame) then ?d \<lparr> ld_immediate := True, ld_at := AtLastProbe \<rparr>
      else queue_loop rest count ?d)"
    using False by (simp add: entry_published_def Let_def)
  show ?thesis
    unfolding e using b l loop delivery_inv_cong [of "queue_loop rest count ?d" ?d cap P]
      delivery_inv_cong [of "?d \<lparr> ld_immediate := True, ld_at := AtLastProbe \<rparr>" ?d cap P]
    by simp
qed

lemma delivery_inv_at: "books_inv cap P d \<Longrightarrow> pass_inv pc d \<Longrightarrow> delivery_inv cap P (d \<lparr> ld_at := pc \<rparr>)"
  using delivery_inv_cong [of "d \<lparr> ld_at := pc \<rparr>" d cap P] by simp

lemma delivery_inv_at_immediate:
  "books_inv cap P d \<Longrightarrow> pass_inv pc d \<Longrightarrow> delivery_inv cap P (d \<lparr> ld_immediate := b, ld_at := pc \<rparr>)"
  using delivery_inv_cong [of "d \<lparr> ld_immediate := b, ld_at := pc \<rparr>" d cap P] by simp

lemma delivery_inv_books:
  "books_inv cap P d \<Longrightarrow> books d' = books d \<Longrightarrow> pass_inv (ld_at d') d \<Longrightarrow> delivery_inv cap P d'"
  using delivery_inv_cong [of d' d cap P] by simp

lemma after_pull_inv:
  assumes "books_inv cap P d" "pass_inv (AtPull e rest count) d"
  shows "delivery_inv cap P (after_pull e rest count d)"
proof -
  have l: "ob_listed (ld_queue d)" and v: "visiting rest d"
    using assms(2) visiting_Cons [of e rest d] by simp_all
  note loop = queue_loop_pass [OF books_inv_sorted [OF assms(1)] l v, of count]
  show ?thesis
    by (rule delivery_inv_books [OF assms(1)]) (use assms(2) loop in \<open>simp_all add: after_pull_def\<close>)
qed

lemma probed_inv:
  assumes "books_inv cap P d" "pass_inv (AtProbe e rest count) d"
  shows "delivery_inv cap P (probed head e rest count d)"
  using assms after_pull_inv [of cap P d e rest count] delivery_inv_at [of cap P d "AtPull e rest count"]
  by (simp add: probed_def)

lemma entry_sealed_inv:
  assumes "books_inv cap P d" "pass_inv (AtSeal e rest count) d"
  shows "delivery_inv cap P (entry_sealed frame e rest count d)"
proof -
  have a: "oe_seq (attempted e fl) = oe_seq e" "content_of (attempted e fl) = content_of e" for fl
    by (simp_all add: attempted_def content_of_def)
  have v: "visiting (attempted e (sf_floor frame) # rest) d"
    using assms(2) by (simp add: visiting_def a)
  show ?thesis
    by (rule delivery_inv_books [OF assms(1)])
       (use assms(2) v not_needsEarlier [OF books_inv_keyed [OF assms(1)], of "oe_seq e" "ef_epoch (sf_floor frame)"]
         in \<open>auto simp: entry_sealed_def a\<close>)
qed

lemma last_probed_inv:
  assumes "books_inv cap P d" "ob_listed (ld_queue d)"
  shows "delivery_inv cap P (last_probed head d)"
proof -
  let ?d = "prove_where (head_at_floor head) d"
  have b: "books_inv cap P ?d" using assms(1) by (rule prove_where_books)
  have l: "ob_listed (ld_queue ?d)" using assms(2) by (simp add: prove_where_def)
  show ?thesis
  proof (cases "ld_closed d")
    case True
    then show ?thesis using delivery_inv_pass_over [OF assms(1)] by (simp add: last_probed_def)
  next
    case False
    have "delivery_inv cap P (?d \<lparr> ld_at := AtLastPull \<rparr>)" using delivery_inv_at [OF b] l by simp
    moreover have "delivery_inv cap P (finish_pass ?d)"
      by (rule delivery_inv_books [OF b]) (simp_all add: finish_pass_pass [OF b l])
    ultimately show ?thesis using False by (simp add: last_probed_def Let_def)
  qed
qed

lemma resend_published_inv:
  assumes "books_inv cap P d" "ob_listed (ld_queue d)"
  shows "delivery_inv cap P (resend_published d)"
proof -
  let ?d = "d \<lparr> ld_resend := tl (ld_resend d) \<rparr>"
  have b: "books_inv cap P ?d" using assms(1) by (simp add: books_inv_def accepted_seqs_def)
  show ?thesis
    unfolding resend_published_def
    by (rule delivery_inv_books [OF b]) (use assms(2) resend_loop_pass [OF b] in simp_all)
qed

section \<open>Every event\<close>

lemma settle_inv:
  assumes "delivery_inv cap P d" "settle d = Some d'"
  shows "delivery_inv cap P d'"
proof -
  have b: "books_inv cap P d" and p: "pass_inv (ld_at d) d" using assms(1) by (simp_all add: delivery_inv_def)
  show ?thesis
  proof (cases "ld_at d")
    case AtReady
    with assms(2) delivery_inv_at [OF b] show ?thesis by (auto simp: settle_def)
  next
    case AtQueueReady
    then have r: "outbox_ready (ld_queue d)" and d': "d' = queue_is_ready d"
      using assms(2) by (simp_all add: settle_def split: if_splits)
    show ?thesis unfolding d'
      by (rule delivery_inv_books [OF b]) (simp_all add: queue_is_ready_pass [OF b r])
  next
    case AtResendPublish
    with assms(2) p resend_published_inv [OF b] show ?thesis by (auto simp: settle_def)
  next
    case (AtPull e rest count)
    with assms(2) p after_pull_inv [OF b, of e rest count] show ?thesis by (auto simp: settle_def)
  next
    case (AtPublish seq frame rest count)
    with assms(2) p entry_published_inv [OF b, of seq frame rest count] show ?thesis by (auto simp: settle_def)
  next
    case AtLastPull
    then have d': "d' = last_pulled d" and l: "ob_listed (ld_queue d)" using assms(2) p by (simp_all add: settle_def)
    show ?thesis unfolding d'
      by (rule delivery_inv_books [OF b]) (simp_all add: last_pulled_pass [OF b l])
  next
    case AtHeal
    then have d': "d' = finish_pass d" and l: "ob_listed (ld_queue d)" using assms(2) p by (simp_all add: settle_def)
    show ?thesis unfolding d'
      by (rule delivery_inv_books [OF b]) (simp_all add: finish_pass_pass [OF b l])
  qed (use assms(2) in \<open>simp_all add: settle_def\<close>)
qed

lemma probe_settles_inv:
  assumes "delivery_inv cap P d" "probe_settles head d = Some d'"
  shows "delivery_inv cap P d'"
proof -
  have b: "books_inv cap P d" and p: "pass_inv (ld_at d) d" using assms(1) by (simp_all add: delivery_inv_def)
  show ?thesis
  proof (cases "ld_at d")
    case (AtProbe e rest count)
    with assms(2) p probed_inv [OF b, of e rest count] show ?thesis by (auto simp: probe_settles_def)
  next
    case AtLastProbe
    with assms(2) p last_probed_inv [OF b] show ?thesis by (auto simp: probe_settles_def)
  qed (use assms(2) in \<open>simp_all add: probe_settles_def\<close>)
qed

lemma seal_settles_inv:
  assumes "delivery_inv cap P d" "seal_settles frame d = Some d'"
  shows "delivery_inv cap P d'"
proof -
  have b: "books_inv cap P d" and p: "pass_inv (ld_at d) d" using assms(1) by (simp_all add: delivery_inv_def)
  show ?thesis
  proof (cases "ld_at d")
    case (AtResendSeal e)
    with assms(2) have d': "d' = resend_sealed d" by (simp add: seal_settles_def)
    show ?thesis unfolding d'
      by (rule delivery_inv_books [OF b]) (use p AtResendSeal in \<open>simp_all add: resend_sealed_def\<close>)
  next
    case (AtSeal e rest count)
    with assms(2) p entry_sealed_inv [OF b, of e rest count] show ?thesis by (auto simp: seal_settles_def)
  qed (use assms(2) in \<open>simp_all add: seal_settles_def\<close>)
qed

lemma write_settles_inv:
  assumes "delivery_inv cap P d" "write_settles P out d = Some d'"
  shows "delivery_inv cap P d'"
proof -
  have b: "books_inv cap P d" and p: "pass_inv (ld_at d) d" using assms(1) by (simp_all add: delivery_inv_def)
  show ?thesis
  proof (cases "ld_at d")
    case (AtClear seqs)
    then have r: "ld_removed d" using p by simp
    note bc = books_inv_store_clear [OF b r]
    have "delivery_inv cap P (cleared seqs (on_queue store_clear d))"
      by (rule cleared_inv [OF bc]) (use r in \<open>simp_all add: on_queue_def store_clear_def\<close>)
    with AtClear assms(2) delivery_inv_pass_over [OF b] delivery_inv_pass_over [OF bc] show ?thesis
      by (auto simp: write_settles_def split: host_outcome.splits)
  next
    case (AtRemove seq after)
    then have l: "ob_listed (ld_queue d)" and m: "seq \<in> set (ld_proven d)" using p by simp_all
    from AtRemove assms(2) removed_one_inv [OF b l m] delivery_inv_pass_over [OF b]
      delivery_inv_pass_over [OF books_inv_store_remove [OF b l m]] show ?thesis
      by (auto simp: write_settles_def split: host_outcome.splits)
  next
    case (AtPut e frame rest count)
    with assms(2) p entry_stored_inv [OF b, of e frame rest count] delivery_inv_pass_over [OF b] show ?thesis
      by (auto simp: write_settles_def split: host_outcome.splits)
  qed (use assms(2) in \<open>simp_all add: write_settles_def\<close>)
qed

lemma worker_step_inv:
  assumes "delivery_inv cap P d" "dp_limit P \<le> cap" "worker_step P ev d = Some d'"
  shows "delivery_inv cap P d'"
proof -
  have b: "books_inv cap P d" using assms(1) by (simp add: delivery_inv_def)
  have queue: "delivery_inv cap P d'" if "map_option (\<lambda>q. d \<lparr> ld_queue := q \<rparr>) (outbox_step P ev (ld_queue d)) = Some d'"
    using that outbox_event_inv [OF assms(1,2)] by (auto simp: map_option_case split: option.splits)
  have fire: "delivery_inv cap P (pass_fires d)"
    by (rule delivery_inv_books [OF b]) (simp_all add: pass_fires_def)
  show ?thesis
    using assms(3)
  proof (cases ev)
    case TimerFired
    with assms(3) fire show ?thesis by (simp split: if_splits)
  next
    case CallRejected
    with assms(3) delivery_inv_pass_over [OF b] show ?thesis by (auto split: if_splits)
  qed (use assms queue in \<open>auto intro: settle_inv probe_settles_inv seal_settles_inv write_settles_inv trigger_inv
        rejoined_inv removed_inv dispose_inv peer_moves_inv\<close>)
qed

lemma delivery_step_inv:
  assumes "delivery_inv cap P d" "dp_limit P \<le> cap" "delivery_step P ev (d, walk) = Some (d', walk')"
  shows "delivery_inv cap P d'"
proof -
  have other: "delivery_inv cap P d'" if "map_option (\<lambda>x. (x, walk)) (worker_step P ev d) = Some (d', walk')"
    using that worker_step_inv [OF assms(1,2)] by (auto simp: map_option_case split: option.splits)
  show ?thesis
    using assms(3)
  proof (cases ev)
    case (WalkCertifies epoch)
    with assms show ?thesis by (auto simp: certify_def intro: prove_where_inv split: option.splits)
  qed (use assms other in \<open>auto split: if_splits\<close>)
qed

theorem delivery_run_inv:
  assumes "delivery_run P s0 evs s" "delivery_inv cap P (fst s0)" "dp_limit P \<le> cap"
  shows "delivery_inv cap P (fst s)"
  using assms
proof (induction rule: delivery_run.induct)
  case (run_steps evs s ev s')
  then show ?case
    by (cases s; cases s') (simp only: fst_conv, rule delivery_step_inv)
qed simp

lemma delivery_inv_start:
  assumes "distinct (map oe_seq stored)" "length stored \<le> cap"
  shows "delivery_inv cap P (fst (start_delivery stored fl now))"
proof -
  have "keyed (map (\<lambda>e. (oe_seq e, e)) stored)"
    using assms(1) by (auto simp: keyed_def comp_def)
  then have "outbox_inv cap (createAppOutboxAcceptance (map (\<lambda>e. (oe_seq e, e)) stored))"
    using assms(2) by (intro outbox_inv_start) simp_all
  then show ?thesis
    by (simp add: delivery_inv_def books_inv_def start_delivery_def createLogDelivery_def accepted_seqs_def
        createAppOutboxAcceptance_def)
qed

end
