(* ===== verification/Delivery_Trail.thy ===== *)
theory Delivery_Trail
  imports Delivery_Inv
begin

text \<open>
  What the events of a run say of an entry the worker took for proven: its frame was acknowledged, and
  since then either a walk of the commit log began and certified the epoch of the frame, or a probe found
  the head of the commit log no later than the floor the frame was sealed at.
\<close>

section \<open>The trail of an entry\<close>

text \<open>The events after an acknowledgement are \<open>later\<close>, the last one first.\<close>

definition acknowledged ::
  "delivery_params \<Rightarrow> delivery_state \<Rightarrow> delivery_event list \<Rightarrow> delivery_event list \<Rightarrow> nat \<Rightarrow> EpochFloor \<Rightarrow> bool" where
  "acknowledged P s0 evs later seq fl \<longleftrightarrow> (\<exists>past d walk frame rest count. evs = later @ Settled # past \<and>
     delivery_run P s0 past (d, walk) \<and> ld_at d = AtPublish seq frame rest count \<and> sf_floor frame = fl)"

fun walk_open :: "delivery_event list \<Rightarrow> bool" where
  "walk_open [] = False"
| "walk_open (WalkBegins # evs) = True"
| "walk_open (WalkEnds # evs) = False"
| "walk_open (ev # evs) = walk_open evs"

fun certified_in :: "nat \<Rightarrow> delivery_event list \<Rightarrow> bool" where
  "certified_in epoch [] = False"
| "certified_in epoch (ev # evs) = (certified_in epoch evs \<or> ev = WalkCertifies epoch \<and> walk_open evs)"

definition head_by :: "sequence_id option \<Rightarrow> sequence_id option \<Rightarrow> bool" where
  "head_by position head \<longleftrightarrow> (case head of None \<Rightarrow> True
     | Some h \<Rightarrow> (case position of None \<Rightarrow> False | Some f \<Rightarrow> h \<le> f))"

fun probed_by :: "sequence_id option \<Rightarrow> delivery_event list \<Rightarrow> bool" where
  "probed_by position [] = False"
| "probed_by position (ev # evs) = (probed_by position evs \<or>
     (case ev of Probed head \<Rightarrow> head_by position head | _ \<Rightarrow> False))"

definition proof_of_delivery ::
  "delivery_params \<Rightarrow> delivery_state \<Rightarrow> delivery_event list \<Rightarrow> nat \<Rightarrow> bool" where
  "proof_of_delivery P s0 evs seq \<longleftrightarrow> (\<exists>later fl. acknowledged P s0 evs later seq fl \<and>
     (certified_in (ef_epoch fl) later \<or> probed_by (ef_position fl) later))"

lemma acknowledged_step: "acknowledged P s0 evs later seq fl \<Longrightarrow> acknowledged P s0 (ev # evs) (ev # later) seq fl"
  unfolding acknowledged_def by fastforce

lemma proof_of_delivery_step: "proof_of_delivery P s0 evs seq \<Longrightarrow> proof_of_delivery P s0 (ev # evs) seq"
  unfolding proof_of_delivery_def using acknowledged_step by fastforce

section \<open>The invariant of the trail\<close>

definition entry_trail ::
  "delivery_params \<Rightarrow> delivery_state \<Rightarrow> delivery_event list \<Rightarrow> delivery_state \<Rightarrow> nat \<Rightarrow> Publication \<Rightarrow> bool" where
  "entry_trail P s0 evs s seq p \<longleftrightarrow> pb_acknowledged p \<le> ld_acknowledgements (fst s) \<and>
     (\<exists>later fl. acknowledged P s0 evs later seq fl \<and> ef_epoch fl = pb_epoch p \<and> ef_position fl = pb_floor p \<and>
        (\<forall>started. snd s = Some started \<and> pb_acknowledged p \<le> started \<longrightarrow> walk_open later))"

definition trail_inv :: "delivery_params \<Rightarrow> delivery_state \<Rightarrow> delivery_event list \<Rightarrow> delivery_state \<Rightarrow> bool" where
  "trail_inv P s0 evs s \<longleftrightarrow>
     (\<forall>(seq, p) \<in> set (ld_publications (fst s)). entry_trail P s0 evs s seq p) \<and>
     (\<forall>started. snd s = Some started \<longrightarrow> started \<le> ld_acknowledgements (fst s)) \<and>
     (\<forall>seq \<in> set (ld_proven (fst s)). proof_of_delivery P s0 evs seq)"

definition evidence_kept :: "delivery \<Rightarrow> delivery \<Rightarrow> bool" where
  "evidence_kept d d' \<longleftrightarrow> set (ld_publications d') \<subseteq> set (ld_publications d) \<and>
     set (ld_proven d') \<subseteq> set (ld_proven d) \<and> ld_acknowledgements d' = ld_acknowledgements d"

lemma evidence_kept_refl [simp]: "evidence_kept d d"
  by (simp add: evidence_kept_def)

lemma evidence_kept_trans: "evidence_kept d d' \<Longrightarrow> evidence_kept d' d'' \<Longrightarrow> evidence_kept d d''"
  by (auto simp: evidence_kept_def)

lemma evidence_settle:
  assumes "settle d = Some d'" "\<And>seq frame rest count. ld_at d = AtPublish seq frame rest count \<Longrightarrow> ld_closed d"
  shows "evidence_kept d d'"
  using assms
  by (cases "ld_at d") (auto simp: settle_def evidence_kept_def resend_published_def after_pull_def
      entry_published_def Let_def split: if_splits)

lemma evidence_probe:
  assumes "probe_settles head d = Some d'" "ld_at d \<noteq> AtLastProbe"
  shows "evidence_kept d d'"
  using assms
  by (cases "ld_at d") (auto simp: probe_settles_def evidence_kept_def probed_def after_pull_def split: if_splits)

lemma evidence_seal:
  assumes "seal_settles frame d = Some d'"
  shows "evidence_kept d d'"
  using assms
  by (cases "ld_at d") (auto simp: seal_settles_def evidence_kept_def resend_sealed_def entry_sealed_def split: if_splits)

lemma evidence_write_settles:
  assumes "write_settles P out d = Some d'"
  shows "evidence_kept d d'"
  using assms
  by (cases "ld_at d") (auto simp: write_settles_def evidence_kept_def cleared_def removed_one_def entry_stored_def
      on_queue_def Let_def AList_delete_filter split: host_outcome.splits if_splits)


lemma evidence_worker:
  assumes "worker_step P ev d = Some d'"
    and "ev = Settled \<Longrightarrow> (\<And>seq frame rest count. ld_at d = AtPublish seq frame rest count \<Longrightarrow> ld_closed d)"
    and "\<And>head. ev = Probed head \<Longrightarrow> ld_at d \<noteq> AtLastProbe"
  shows "evidence_kept d d'"
proof -
  have queue: "evidence_kept d d'" if "map_option (\<lambda>q. d \<lparr> ld_queue := q \<rparr>) (outbox_step P ev (ld_queue d)) = Some d'"
    using that by (auto simp: evidence_kept_def)
  show ?thesis
    using assms(1)
  proof (cases ev)
    case TimerFired
    with assms(1) show ?thesis by (auto simp: evidence_kept_def pass_fires_def split: if_splits)
  next
    case CallRejected
    with assms(1) show ?thesis by (auto simp: evidence_kept_def split: if_splits)
  next
    case Triggered
    with assms(1) show ?thesis by (auto simp: evidence_kept_def trigger_def Let_def split: if_splits)
  next
    case LocallyRemoved
    with assms(1) show ?thesis by (auto simp: evidence_kept_def removed_def)
  next
    case (MemberRejoins anchorEpoch)
    with assms(1) show ?thesis by (auto simp: evidence_kept_def)
  next
    case Disposed
    with assms(1) show ?thesis by (auto simp: evidence_kept_def dispose_delivery_def ld_close_def)
  qed (use assms queue in \<open>auto simp: evidence_kept_def [of d "d \<lparr> ld_now := _ \<rparr>"]
        evidence_kept_def [of d "d \<lparr> ld_floor := _, ld_held := _, ld_sendsHeld := _ \<rparr>"]
        intro: evidence_settle evidence_probe evidence_seal evidence_write_settles\<close>)
qed

lemma walk_open_step: "walk_open evs \<Longrightarrow> ev \<noteq> WalkEnds \<Longrightarrow> walk_open (ev # evs)"
  by (cases ev) simp_all

lemma entry_trail_step:
  assumes "entry_trail P s0 evs (d, walk) seq p" "ld_acknowledgements d \<le> ld_acknowledgements d'"
    and "walk' = None \<or> walk' = walk \<and> ev \<noteq> WalkEnds \<or> ev = WalkBegins"
  shows "entry_trail P s0 (ev # evs) (d', walk') seq p"
proof -
  from assms(1) obtain later fl where "acknowledged P s0 evs later seq fl" "ef_epoch fl = pb_epoch p"
    "ef_position fl = pb_floor p" and open_at: "\<forall>started. walk = Some started \<and> pb_acknowledged p \<le> started \<longrightarrow> walk_open later"
    by (auto simp: entry_trail_def)
  moreover have "\<forall>started. walk' = Some started \<and> pb_acknowledged p \<le> started \<longrightarrow> walk_open (ev # later)"
    using open_at assms(3) walk_open_step by auto
  ultimately show ?thesis
    using assms(1,2) acknowledged_step [of P s0 evs later seq fl ev] by (auto simp: entry_trail_def)
qed

lemma trail_kept:
  assumes "trail_inv P s0 evs (d, walk)" "evidence_kept d d'"
    and "walk' = None \<or> walk' = walk \<and> ev \<noteq> WalkEnds \<or> ev = WalkBegins \<and> walk' = Some (ld_acknowledgements d)"
  shows "trail_inv P s0 (ev # evs) (d', walk')"
  using assms entry_trail_step [of P s0 evs d walk _ _ d' walk' ev]
  by (fastforce simp: trail_inv_def evidence_kept_def intro: proof_of_delivery_step)

lemma trail_proves:
  assumes "trail_inv P s0 evs (d, walk)" "ev \<noteq> WalkEnds"
    and "\<And>seq p. (seq, p) \<in> set (ld_publications d) \<Longrightarrow> ok p \<Longrightarrow> proof_of_delivery P s0 (ev # evs) seq"
  shows "trail_inv P s0 (ev # evs) (prove_where ok d, walk)"
  using assms entry_trail_step [of P s0 evs d walk _ _ "prove_where ok d" walk ev]
  by (fastforce simp: trail_inv_def prove_where_def set_fold_add intro: proof_of_delivery_step)

lemma trail_certify:
  assumes "trail_inv P s0 evs (d, Some started)"
  shows "trail_inv P s0 (WalkCertifies epoch # evs) (certify epoch started d, Some started)"
  unfolding certify_def
proof (rule trail_proves [OF assms])
  fix seq p
  assume "(seq, p) \<in> set (ld_publications d)" and ok: "pb_epoch p = epoch \<and> pb_acknowledged p \<le> started"
  then have "entry_trail P s0 evs (d, Some started) seq p" using assms by (auto simp: trail_inv_def)
  with ok obtain later fl where "acknowledged P s0 evs later seq fl" "ef_epoch fl = epoch" "walk_open later"
    by (auto simp: entry_trail_def)
  then show "proof_of_delivery P s0 (WalkCertifies epoch # evs) seq"
    using acknowledged_step [of P s0 evs later seq fl "WalkCertifies epoch"]
    unfolding proof_of_delivery_def by fastforce
qed simp

lemma trail_last_probe:
  assumes "trail_inv P s0 evs (d, walk)"
  shows "trail_inv P s0 (Probed head # evs) (prove_where (head_at_floor head) d, walk)"
proof (rule trail_proves [OF assms])
  fix seq p
  assume "(seq, p) \<in> set (ld_publications d)" and ok: "head_at_floor head p"
  then have "entry_trail P s0 evs (d, walk) seq p" using assms by (auto simp: trail_inv_def)
  then obtain later fl where "acknowledged P s0 evs later seq fl" "ef_position fl = pb_floor p"
    by (auto simp: entry_trail_def)
  then show "proof_of_delivery P s0 (Probed head # evs) seq"
    using acknowledged_step [of P s0 evs later seq fl "Probed head"] ok
    unfolding proof_of_delivery_def head_at_floor_def by (fastforce simp: head_by_def)
qed simp

lemma update_keys_in: "x \<in> set (AList.update k v xs) \<Longrightarrow> x = (k, v) \<or> x \<in> set xs"
  by (induction xs) (auto split: if_splits)

lemma trail_published:
  assumes run: "delivery_run P s0 evs (d, walk)" and trail: "trail_inv P s0 evs (d, walk)"
    and pub: "ld_at d = AtPublish seq frame rest count" and live: "\<not> ld_closed d"
  shows "trail_inv P s0 (Settled # evs) (entry_published seq frame rest count d, walk)"
proof -
  let ?p = "\<lparr> pb_epoch = ef_epoch (sf_floor frame), pb_floor = ef_position (sf_floor frame),
               pb_acknowledged = ld_acknowledgements d + 1 \<rparr>"
  let ?d = "entry_published seq frame rest count d"
  have fields: "ld_publications ?d = AList.update seq ?p (ld_publications d)" "ld_proven ?d = ld_proven d"
    "ld_acknowledgements ?d = ld_acknowledgements d + 1"
    using live by (simp_all add: entry_published_def Let_def)
  have started: "started \<le> ld_acknowledgements d" if "walk = Some started" for started
    using trail that by (simp add: trail_inv_def)
  have ack: "acknowledged P s0 (Settled # evs) [] seq (sf_floor frame)"
    using run pub unfolding acknowledged_def by fastforce
  have "entry_trail P s0 (Settled # evs) (?d, walk) seq ?p"
    unfolding entry_trail_def fst_conv snd_conv fields Publication.simps
    using ack started by fastforce
  moreover have "entry_trail P s0 (Settled # evs) (?d, walk) s p" if "(s, p) \<in> set (ld_publications d)" for s p
    using trail that by (intro entry_trail_step [of P s0 evs d walk]) (auto simp: trail_inv_def fields)
  moreover have "set (AList.update seq ?p (ld_publications d)) \<subseteq> insert (seq, ?p) (set (ld_publications d))"
    by (auto dest: update_keys_in)
  moreover have "started \<le> ld_acknowledgements d + 1" if "walk = Some started" for started
    using started [OF that] by simp
  moreover have "\<forall>s \<in> set (ld_proven d). proof_of_delivery P s0 (Settled # evs) s"
    using trail proof_of_delivery_step by (auto simp: trail_inv_def)
  ultimately show ?thesis
    unfolding trail_inv_def fst_conv snd_conv fields by blast
qed


lemma trail_worker:
  assumes run: "delivery_run P s0 evs (d, walk)" and trail: "trail_inv P s0 evs (d, walk)"
    and step: "worker_step P ev d = Some d'" and "ev \<noteq> WalkEnds"
  shows "trail_inv P s0 (ev # evs) (d', walk)"
proof -
  consider (pub) seq frame rest count where "ev = Settled" "ld_at d = AtPublish seq frame rest count" "\<not> ld_closed d"
    | (probe) head where "ev = Probed head" "ld_at d = AtLastProbe"
    | (other) "evidence_kept d d'"
    using evidence_worker [OF step] by blast
  then show ?thesis
  proof cases
    case pub
    with step trail_published [OF run trail pub(2,3)] show ?thesis by (simp add: settle_def)
  next
    case probe
    have d': "d' = last_probed head d" using probe step by (simp add: probe_settles_def)
    show ?thesis
    proof (cases "ld_closed d")
      case True
      have "evidence_kept d d'" unfolding d' by (simp add: last_probed_def True evidence_kept_def)
      with trail_kept [OF trail this] assms(4) show ?thesis by simp
    next
      case False
      let ?d = "prove_where (head_at_floor head) d"
      have "trail_inv P s0 (ev # evs) (?d, walk)" using trail_last_probe [OF trail] probe(1) by simp
      moreover have "ld_publications d' = ld_publications ?d" "ld_proven d' = ld_proven ?d"
        "ld_acknowledgements d' = ld_acknowledgements ?d"
        unfolding d' by (simp_all add: last_probed_def False Let_def)
      ultimately show ?thesis by (simp add: trail_inv_def entry_trail_def)
    qed
  next
    case other
    with trail_kept [OF trail other] assms(4) show ?thesis by simp
  qed
qed

lemma trail_step:
  assumes "delivery_run P s0 evs (d, walk)" "trail_inv P s0 evs (d, walk)"
    and "delivery_step P ev (d, walk) = Some (d', walk')"
  shows "trail_inv P s0 (ev # evs) (d', walk')"
proof -
  have other: "trail_inv P s0 (ev # evs) (d', walk')"
    if "map_option (\<lambda>x. (x, walk)) (worker_step P ev d) = Some (d', walk')" "ev \<noteq> WalkEnds"
    using that trail_worker [OF assms(1,2)] by (auto simp: map_option_case split: option.splits)
  show ?thesis
    using assms(3)
  proof (cases ev)
    case WalkBegins
    with assms(3) have "walk = None" "d' = d" "walk' = Some (ld_acknowledgements d)"
      by (auto simp: beginWalk_def split: if_splits)
    with WalkBegins trail_kept [OF assms(2), of d walk' ev] show ?thesis by simp
  next
    case (WalkCertifies epoch)
    with assms(2,3) show ?thesis by (auto intro: trail_certify split: option.splits)
  next
    case WalkEnds
    with assms(3) have "d' = d" "walk' = None" by (simp_all split: if_splits)
    with trail_kept [OF assms(2), of d walk' ev] show ?thesis by simp
  qed (use assms(3) other in auto)
qed

theorem delivery_trail:
  assumes "delivery_run P s0 evs s" "ld_publications (fst s0) = []" "ld_proven (fst s0) = []" "snd s0 = None"
  shows "trail_inv P s0 evs s"
  using assms
proof (induction rule: delivery_run.induct)
  case run_starts
  then show ?case by (simp add: trail_inv_def)
next
  case (run_steps evs s ev s')
  then show ?case by (cases s; cases s') (auto intro: trail_step)
qed

section \<open>When the storage loses an entry\<close>

definition stored_seqs :: "delivery \<Rightarrow> nat set" where
  "stored_seqs d = fst ` set (ob_stored (ld_queue d))"

lemma outbox_step_stored:
  assumes "outbox_inv cap q" "outbox_step P ev q = Some q'"
  shows "map_of (ob_stored q) \<subseteq>\<^sub>m map_of (ob_stored q')"
  using outbox_step_grown [OF assms] by (simp add: grown_def)

lemma stored_lost:
  assumes "delivery_inv cap P d" "worker_step P ev d = Some d'"
    and "seq \<in> stored_seqs d" "seq \<notin> stored_seqs d'"
  shows "ld_removed d \<or> seq \<in> set (ld_proven d)"
proof -
  have b: "books_inv cap P d" and p: "pass_inv (ld_at d) d" and q: "outbox_inv cap (ld_queue d)"
    using assms(1) by (simp_all add: delivery_inv_def books_inv_def)
  have queue: "stored_seqs d \<subseteq> stored_seqs d'"
    if "map_option (\<lambda>q. d \<lparr> ld_queue := q \<rparr>) (outbox_step P ev (ld_queue d)) = Some d'"
  proof -
    from that obtain q' where "outbox_step P ev (ld_queue d) = Some q'" "d' = d \<lparr> ld_queue := q' \<rparr>" by auto
    with map_le_implies_dom_le [OF outbox_step_stored [OF q]] show ?thesis
      by (simp add: stored_seqs_def dom_map_of_conv_image_fst)
  qed
  have same: "stored_seqs d \<subseteq> stored_seqs d'" if "ob_stored (ld_queue d') = ob_stored (ld_queue d)"
    using that by (simp add: stored_seqs_def)
  show ?thesis
    using assms(2)
  proof (cases ev)
    case (Stored out)
    show ?thesis
    proof (cases "ld_at d")
      case (AtRemove s after)
      have d': "d' = the (write_settles P out d)" using assms(2) Stored by simp
      have "stored_seqs d - {s} \<subseteq> stored_seqs d'"
        unfolding d' stored_seqs_def using AtRemove
        by (cases out) (simp_all add: write_settles_def removed_one_def Let_def on_queue_def store_remove_def
            outbox_remove_def delete_keys Diff_subset)
      then have "seq = s" using assms(3,4) by blast
      with AtRemove p show ?thesis by simp
    next
      case (AtClear seqs)
      with p show ?thesis by simp
    next
      case (AtPut e frame rest count)
      have d': "d' = (case out of Done \<Rightarrow> entry_stored e frame rest count (on_queue (store_put e) d)
          | _ \<Rightarrow> pass_over True d)"
        using assms(2) Stored AtPut by (auto simp: write_settles_def split: host_outcome.splits)
      have "fst ` set (ob_stored (ld_queue d)) \<subseteq> fst ` set (AList.update (oe_seq e) e (ob_stored (ld_queue d)))"
        using arg_cong [OF AList_update_in_place [of "oe_seq e" e "ob_stored (ld_queue d)"], of set]
        by (auto split: if_splits)
      then have "stored_seqs d \<subseteq> stored_seqs d'"
        unfolding d' stored_seqs_def
        by (cases out) (simp_all add: entry_stored_def Let_def on_queue_def store_put_def outbox_replace_def)
      with assms(3,4) show ?thesis by blast
    qed (use assms(2) Stored in \<open>simp_all add: write_settles_def\<close>)
  next
    case Settled
    then have "ob_stored (ld_queue d') = ob_stored (ld_queue d)"
      using assms(2) by (cases "ld_at d") (auto simp: settle_def resend_published_def after_pull_def
          entry_published_def Let_def split: if_splits)
    with same assms(3,4) show ?thesis by blast
  next
    case (Probed head)
    then have "ob_stored (ld_queue d') = ob_stored (ld_queue d)"
      using assms(2) by (cases "ld_at d") (auto simp: probe_settles_def probed_def after_pull_def last_probed_def
          prove_where_def Let_def split: if_splits)
    with same assms(3,4) show ?thesis by blast
  next
    case (Sealed frame)
    then have "ob_stored (ld_queue d') = ob_stored (ld_queue d)"
      using assms(2) by (cases "ld_at d") (auto simp: seal_settles_def resend_sealed_def entry_sealed_def split: if_splits)
    with same assms(3,4) show ?thesis by blast
  next
    case Triggered
    then have "ob_stored (ld_queue d') = ob_stored (ld_queue d)"
      using assms(2) by (auto simp: trigger_def Let_def split: if_splits)
    with same assms(3,4) show ?thesis by blast
  qed (use assms(2-) queue same in \<open>auto simp: pass_fires_def removed_def dispose_delivery_def ld_close_def
         outbox_stop_def outbox_close_def split: if_splits\<close>)
qed

end
