(* ===== verification/Delivery_Calm.thy ===== *)
theory Delivery_Calm
  imports Delivery_Trail
begin

text \<open>
  What one undisturbed pass achieves. The peer is not held, the commit log holds nothing past the floor, and
  every call settles well: the pass publishes the whole queue in order, proves it by its last probe and
  empties the storage. \<open>calm_pass\<close> is the sequence of events of that pass.
\<close>

definition visit_events :: "sequence_id option \<Rightarrow> (AppOutboxEntry \<Rightarrow> SealedLogFrame) \<Rightarrow> AppOutboxEntry \<Rightarrow> delivery_event list" where
  "visit_events head seal e = [Probed head, Sealed (seal e), Stored Done, Settled]"

definition calm_pass ::
  "sequence_id option \<Rightarrow> (AppOutboxEntry \<Rightarrow> SealedLogFrame) \<Rightarrow> AppOutboxEntry list \<Rightarrow> delivery_event list" where
  "calm_pass head seal es = [TimerFired, Settled, Settled] @ concat (map (visit_events head seal) es)
     @ [Probed head] @ replicate (length es) (Stored Done)"

definition at_ease :: "delivery \<Rightarrow> bool" where
  "at_ease d \<longleftrightarrow> ob_listed (ld_queue d) \<and> \<not> ld_closed d \<and> \<not> ld_removed d \<and> \<not> ld_held d \<and> \<not> ld_sendsHeld d \<and>
     ob_reservations (ld_queue d) = []"

lemma play_append: "play P (evs @ evs') s = Option.bind (play P evs s) (play P evs')"
  by (induction evs arbitrary: s) (auto split: option.splits)

section \<open>The visits of the queue\<close>

text \<open>The part of the queue already visited is published at the floor, the rest is still to come.\<close>

definition half_way :: "AppOutboxEntry list \<Rightarrow> delivery \<Rightarrow> bool" where
  "half_way es d \<longleftrightarrow> at_ease d \<and> ld_proven d = [] \<and> seq_sorted es \<and> keyed (ob_accepted (ld_queue d)) \<and>
     distinct (map fst (ld_publications d)) \<and>
     (\<forall>s \<in> accepted_seqs d. s \<in> oe_seq ` set es \<or> s \<in> fst ` set (ld_publications d)) \<and>
     oe_seq ` set es \<subseteq> accepted_seqs d \<and> oe_seq ` set es \<inter> fst ` set (ld_publications d) = {} \<and>
     fst ` set (ld_publications d) \<subseteq> accepted_seqs d \<and>
     (\<forall>p \<in> snd ` set (ld_publications d). pb_epoch p = ef_epoch (ld_floor d) \<and> pb_floor p = ef_position (ld_floor d))"

lemma half_way_facts:
  assumes "half_way es d"
  shows "at_ease d" "ld_proven d = []" "seq_sorted es" "keyed (ob_accepted (ld_queue d))"
    "distinct (map fst (ld_publications d))"
    "\<forall>s \<in> accepted_seqs d. s \<in> oe_seq ` set es \<or> s \<in> fst ` set (ld_publications d)"
    "\<forall>p \<in> snd ` set (ld_publications d). pb_epoch p = ef_epoch (ld_floor d) \<and> pb_floor p = ef_position (ld_floor d)"
  using assms [unfolded half_way_def] by - (elim conjE, assumption)+

lemma half_way_before:
  assumes "half_way (e # es) d"
  shows "published_before (oe_seq e) (ef_epoch (ld_floor d)) d"
  unfolding published_before_def
proof (intro ballI impI disjI2)
  fix s assume s: "s \<in> accepted_seqs d" "s < oe_seq e"
  have "s \<notin> oe_seq ` set (e # es)" using half_way_facts(3) [OF assms] s(2) by auto
  then have "s \<in> fst ` set (ld_publications d)" using half_way_facts(6) [OF assms] s(1) by blast
  then obtain p where p: "(s, p) \<in> set (ld_publications d)" by auto
  with half_way_facts(5) [OF assms] have "map_of (ld_publications d) s = Some p" by simp
  moreover have "pb_epoch p = ef_epoch (ld_floor d)"
    using half_way_facts(7) [OF assms] p by (metis image_eqI snd_conv)
  ultimately show "\<exists>p. map_of (ld_publications d) s = Some p \<and> pb_epoch p = ef_epoch (ld_floor d)"
    by simp
qed

definition visited :: "AppOutboxEntry \<Rightarrow> delivery \<Rightarrow> delivery" where
  "visited e d =
     (let d = d \<lparr> ld_queue := outbox_replace (attempted e (ld_floor d)) (store_put (attempted e (ld_floor d)) (ld_queue d)) \<rparr>
      in d \<lparr> ld_acknowledgements := ld_acknowledgements d + 1,
             ld_publications := AList.update (oe_seq e) \<lparr> pb_epoch = ef_epoch (ld_floor d),
               pb_floor = ef_position (ld_floor d), pb_acknowledged = ld_acknowledgements d + 1 \<rparr> (ld_publications d) \<rparr>)"

lemma attempted_seq [simp]: "oe_seq (attempted e fl) = oe_seq e"
  by (simp add: attempted_def)

lemma half_way_visited:
  assumes "half_way (e # es) d"
  shows "half_way es (visited e d)" "ld_floor (visited e d) = ld_floor d"
proof -
  show "ld_floor (visited e d) = ld_floor d" by (simp add: visited_def Let_def)
  have in_acc: "oe_seq e \<in> fst ` set (ob_accepted (ld_queue d))" and new: "oe_seq e \<notin> fst ` set (ld_publications d)"
    using assms by (auto simp: half_way_def accepted_seqs_def)
  have keys: "accepted_seqs (visited e d) = accepted_seqs d"
    using arg_cong [OF AList_update_in_place [of "oe_seq e" "attempted e (ld_floor d)" "ob_accepted (ld_queue d)"], of set] in_acc
    by (simp add: accepted_seqs_def visited_def Let_def outbox_replace_def store_put_def)
  have pubs: "ld_publications (visited e d) = ld_publications d @ [(oe_seq e, \<lparr> pb_epoch = ef_epoch (ld_floor d),
      pb_floor = ef_position (ld_floor d), pb_acknowledged = ld_acknowledgements d + 1 \<rparr>)]"
    using new by (simp add: visited_def Let_def AList_update_new)
  have rest: "at_ease (visited e d)" "ld_proven (visited e d) = []" "ld_floor (visited e d) = ld_floor d"
    "keyed (ob_accepted (ld_queue (visited e d)))"
    using assms by (auto simp: half_way_def at_ease_def visited_def Let_def outbox_replace_def store_put_def)
  have "oe_seq e \<notin> oe_seq ` set es" using assms by (auto simp: half_way_def)
  then show "half_way es (visited e d)"
    using assms in_acc new unfolding half_way_def keys pubs rest(3)
    by (auto simp: rest accepted_seqs_def)
qed

lemma half_way_at [simp]: "half_way es (d \<lparr> ld_at := pc \<rparr>) = half_way es d"
  by (simp add: half_way_def at_ease_def accepted_seqs_def)

lemma visit_plays:
  assumes hw: "half_way (e # es) d" and quiet: "\<not> headPastFloor head (ld_floor d)" and seal: "sf_floor (seal e) = ld_floor d"
  shows "play P (visit_events head seal e) (d \<lparr> ld_at := AtProbe e es count \<rparr>, walk) =
         Some (queue_loop es count (visited e d \<lparr> ld_at := AtPublish (oe_seq e) (seal e) es count \<rparr>), walk)"
proof -
  have ease: "ob_listed (ld_queue d)" "\<not> ld_closed d" "\<not> ld_removed d" "\<not> ld_held d" "\<not> ld_sendsHeld d"
    using hw by (simp_all add: half_way_def at_ease_def)
  have k: "keyed (ob_accepted (ld_queue d))" and new: "oe_seq e \<notin> fst ` set (ld_publications d)"
    using hw by (auto simp: half_way_def)
  have none: "map_of (ld_publications d) (oe_seq e) = None" using new map_of_keys by metis
  have e1: "\<not> needsEarlierPublication (oe_seq e) (ef_epoch (ld_floor d)) d"
    using half_way_before [OF hw] not_needsEarlier [OF k] by simp
  let ?q = "outbox_replace (attempted e (ld_floor d)) (store_put (attempted e (ld_floor d)) (ld_queue d))"
  let ?d = "d \<lparr> ld_queue := ?q \<rparr>"
  have in_acc: "oe_seq e \<in> fst ` set (ob_accepted (ld_queue d))"
    using hw by (auto simp: half_way_def accepted_seqs_def)
  have keys: "accepted_seqs ?d = accepted_seqs d"
    using arg_cong [OF AList_update_in_place [of "oe_seq e" "attempted e (ld_floor d)" "ob_accepted (ld_queue d)"], of set] in_acc
    by (simp add: accepted_seqs_def outbox_replace_def store_put_def)
  have "keyed (ob_accepted ?q)" using k by (auto simp: outbox_replace_def store_put_def)
  then have e2: "\<not> needsEarlierPublication (oe_seq e) (ef_epoch (ld_floor d)) ?d"
    using half_way_before [OF hw] not_needsEarlier [of ?d] by (simp add: published_before_def keys)
  have at: "needsEarlierPublication s ep (x \<lparr> ld_at := pc \<rparr>) = needsEarlierPublication s ep x" for s ep x pc
    by (simp add: needsEarlierPublication_def ld_entries_def)
  have at': "needsEarlierPublication s ep (x \<lparr> ld_at := pc, ld_queue := q \<rparr>) = needsEarlierPublication s ep (x \<lparr> ld_queue := q \<rparr>)" for s ep x pc q
    by (simp add: needsEarlierPublication_def ld_entries_def)
  have s1: "probed head e es count (d \<lparr> ld_at := AtProbe e es count \<rparr>) = d \<lparr> ld_at := AtSeal e es count \<rparr>"
    using ease quiet none by (simp add: probed_def after_pull_def)
  have s2: "entry_sealed (seal e) e es count (d \<lparr> ld_at := AtSeal e es count \<rparr>) =
      d \<lparr> ld_at := AtPut (attempted e (ld_floor d)) (seal e) es count \<rparr>"
    using ease e1 seal by (simp add: entry_sealed_def at)
  have s3: "entry_stored (attempted e (ld_floor d)) (seal e) es count
      (on_queue (store_put (attempted e (ld_floor d))) (d \<lparr> ld_at := AtPut (attempted e (ld_floor d)) (seal e) es count \<rparr>)) =
      ?d \<lparr> ld_at := AtPublish (oe_seq e) (seal e) es count \<rparr>"
    using ease e2 seal
      at' [where x = d and s = "oe_seq e" and ep = "ef_epoch (ld_floor d)"]
    by (simp add: entry_stored_def on_queue_def Let_def)
  have s4: "entry_published (oe_seq e) (seal e) es count (?d \<lparr> ld_at := AtPublish (oe_seq e) (seal e) es count \<rparr>) =
      queue_loop es count (visited e d \<lparr> ld_at := AtPublish (oe_seq e) (seal e) es count \<rparr>)"
    using ease seal
    by (simp add: entry_published_def visited_def Let_def) (rule arg_cong [where f = "queue_loop es count"], simp)
  show ?thesis
    by (simp add: visit_events_def probe_settles_def seal_settles_def write_settles_def settle_def s1 s2 s3 s4)
qed

lemma visits_play:
  assumes "half_way es d" "\<not> headPastFloor head (ld_floor d)" "\<forall>e \<in> set es. sf_floor (seal e) = ld_floor d"
    and "count + length es \<le> 64"
  shows "\<exists>d'. play P (concat (map (visit_events head seal) es)) (queue_loop es count d, walk) = Some (d', walk) \<and>
    ld_at d' = AtLastProbe \<and> half_way [] d' \<and> ld_floor d' = ld_floor d \<and> accepted_seqs d' = accepted_seqs d"
  using assms
proof (induction es arbitrary: count d)
  case Nil
  then show ?case by (simp add: accepted_seqs_def)
next
  case (Cons e es)
  have ease: "\<not> ld_closed d" "ld_fence d = None" "ld_proven d = []" "count \<noteq> 64"
    using Cons.prems by (simp_all add: half_way_def at_ease_def ld_fence_def lowestUnresolvedSeq_def)
  then have start: "queue_loop (e # es) count d = d \<lparr> ld_at := AtProbe e es (count + 1) \<rparr>"
    by simp
  let ?d = "visited e d \<lparr> ld_at := AtPublish (oe_seq e) (seal e) es (count + 1) \<rparr>"
  have hw: "half_way es ?d" and fl: "ld_floor ?d = ld_floor d"
    using half_way_visited [OF Cons.prems(1)] by simp_all
  have acc: "accepted_seqs ?d = accepted_seqs d"
    using Cons.prems(1) arg_cong [OF AList_update_in_place [of "oe_seq e" "attempted e (ld_floor d)" "ob_accepted (ld_queue d)"], of set]
    by (auto simp: half_way_def accepted_seqs_def visited_def Let_def outbox_replace_def store_put_def split: if_splits)
  from Cons.IH [OF hw, of "count + 1"] obtain d' where
    "play P (concat (map (visit_events head seal) es)) (queue_loop es (count + 1) ?d, walk) = Some (d', walk)"
    "ld_at d' = AtLastProbe" "half_way [] d'" "ld_floor d' = ld_floor d" "accepted_seqs d' = accepted_seqs d"
    using Cons.prems fl acc by auto
  with visit_plays [OF Cons.prems(1,2), of seal P "count + 1" walk] Cons.prems(3) start show ?case
    by (auto simp: play_append)
qed

section \<open>The last probe and the removals\<close>

lemma removals_play:
  assumes "at_ease d" "set (ld_proven d) \<subseteq> accepted_seqs d" "distinct (ld_proven d)"
  shows "\<exists>d'. play P (replicate (length (ld_proven d)) (Stored Done)) (removeProven ThenReturn d, walk) = Some (d', walk) \<and>
    accepted_seqs d' = accepted_seqs d - set (ld_proven d) \<and> stored_seqs d' = stored_seqs d - set (ld_proven d)"
  using assms
proof (induction "ld_proven d" arbitrary: d)
  case Nil
  then have "removeProven ThenReturn d = pass_over False d" by (simp add: removeProven_def)
  then show ?case using Nil by (simp flip: Nil(1) add: accepted_seqs_def stored_seqs_def)
next
  case (Cons s ss)
  let ?k = "keepDelivered P s (on_queue (store_remove s) (d \<lparr> ld_at := AtRemove s ThenReturn \<rparr>))"
  let ?d = "?k \<lparr> ld_queue := outbox_remove s (ld_queue ?k), ld_publications := AList.delete s (ld_publications ?k),
                 ld_proven := removeAll s (ld_proven ?k) \<rparr>"
  have start: "removeProven ThenReturn d = d \<lparr> ld_at := AtRemove s ThenReturn \<rparr>"
    by (simp add: removeProven_def flip: Cons(2))
  have step: "removed_one P s ThenReturn (on_queue (store_remove s) (d \<lparr> ld_at := AtRemove s ThenReturn \<rparr>)) =
      removeProven ThenReturn ?d"
    using Cons.prems(1) by (simp add: removed_one_def Let_def at_ease_def on_queue_def)
  have "s \<notin> set ss" using Cons.prems(3) by (simp flip: Cons(2))
  then have ss: "ld_proven ?d = ss" by (simp add: on_queue_def flip: Cons(2))
  have acc: "accepted_seqs ?d = accepted_seqs d - {s}"
    by (simp add: accepted_seqs_def on_queue_def outbox_remove_def store_remove_def delete_keys)
  have sto: "stored_seqs ?d = stored_seqs d - {s}"
    by (simp add: stored_seqs_def on_queue_def outbox_remove_def store_remove_def delete_keys)
  have sub: "set (s # ss) \<subseteq> accepted_seqs d" "distinct (s # ss)" using Cons.prems(2,3) Cons(2) by simp_all
  have "\<exists>d'. play P (replicate (length (ld_proven ?d)) (Stored Done)) (removeProven ThenReturn ?d, walk) = Some (d', walk) \<and>
    accepted_seqs d' = accepted_seqs ?d - set (ld_proven ?d) \<and> stored_seqs d' = stored_seqs ?d - set (ld_proven ?d)"
  proof (rule Cons(1))
    show "ss = ld_proven ?d" using ss by simp
    show "at_ease ?d" using Cons.prems(1)
      by (simp add: at_ease_def on_queue_def outbox_remove_def store_remove_def keepDelivered_def pruneDelivered_def split: option.splits)
    show "set (ld_proven ?d) \<subseteq> accepted_seqs ?d" unfolding ss acc using sub by auto
    show "distinct (ld_proven ?d)" unfolding ss using sub by simp
  qed
  then show ?case
    unfolding ss acc sto start by (auto simp: write_settles_def step simp flip: Cons(2))
qed

lemma prove_all_at_floor:
  assumes "half_way [] d" "head_by (ef_position (ld_floor d)) head"
  shows "set (ld_proven (prove_where (head_at_floor head) d)) = accepted_seqs d"
    and "distinct (ld_proven (prove_where (head_at_floor head) d))"
proof -
  have ok: "\<forall>p \<in> snd ` set (ld_publications d). head_at_floor head p"
  proof
    fix p assume "p \<in> snd ` set (ld_publications d)"
    then have "pb_floor p = ef_position (ld_floor d)" using assms(1) unfolding half_way_def by blast
    then show "head_at_floor head p"
      unfolding head_at_floor_def by (simp only: assms(2) [unfolded head_by_def])
  qed
  have "filter (\<lambda>(seq, p). head_at_floor head p) (ld_publications d) = ld_publications d"
    unfolding filter_id_conv using ok by auto
  moreover have "accepted_seqs d = fst ` set (ld_publications d)" "ld_proven d = []"
    using assms(1) by (auto simp: half_way_def)
  ultimately show "set (ld_proven (prove_where (head_at_floor head) d)) = accepted_seqs d"
    "distinct (ld_proven (prove_where (head_at_floor head) d))"
    by (simp_all add: prove_where_def set_fold_add distinct_fold_add)
qed


section \<open>The whole pass\<close>

lemma seq_sorted_distinct: "seq_sorted es \<Longrightarrow> distinct (map oe_seq es)"
  by (induction es) auto

text \<open>A worker whose timer is armed and whose books are empty.\<close>

definition about_to_pass :: "delivery \<Rightarrow> bool" where
  "about_to_pass d \<longleftrightarrow> at_ease d \<and> ld_at d = Off \<and> ld_timer d \<noteq> None \<and> ld_publications d = [] \<and>
     ld_proven d = [] \<and> ld_resend d = []"

lemma calm_pass_plays:
  assumes "about_to_pass d" "delivery_inv cap P d" "dp_limit P \<le> cap" "ld_entries d \<noteq> []" "length (ld_entries d) \<le> 64"
    and "\<not> headPastFloor head (ld_floor d)" "head_by (ef_position (ld_floor d)) head"
    and "\<forall>e \<in> set (ld_entries d). sf_floor (seal e) = ld_floor d"
  shows "\<exists>d'. play P (calm_pass head seal (ld_entries d)) (d, walk) = Some (d', walk) \<and>
    accepted_seqs d' = {} \<and> stored_seqs d' = {}"
proof -
  let ?es = "ld_entries d"
  let ?d0 = "d \<lparr> ld_timer := None, ld_needed := False, ld_immediate := False, ld_at := AtQueueReady \<rparr>"
  have k: "keyed (ob_accepted (ld_queue d))"
    using assms(2) by (simp add: delivery_inv_def books_inv_def outbox_inv_def)
  have ease: "at_ease d" "ld_at d = Off" "\<exists>t. ld_timer d = Some t" "ld_publications d = []" "ld_proven d = []" "ld_resend d = []"
    using assms(1) by (auto simp: about_to_pass_def)
  have seqs: "accepted_seqs d = oe_seq ` set ?es"
    using keyed_seqs [OF k] unfolding accepted_seqs_def ld_entries_def outbox_entries_def set_sort
    by (metis set_map)
  have hw: "half_way ?es ?d0"
    using ease k seqs entries_sorted [OF k]
    by (simp add: half_way_def at_ease_def accepted_seqs_def ld_entries_def)
  have e0: "ld_entries ?d0 = ?es" by (simp add: ld_entries_def)
  have start: "play P [TimerFired, Settled, Settled] (d, walk) = Some (queue_loop ?es 0 ?d0, walk)"
    using ease assms(4) e0
    by (auto simp: pass_fires_def settle_def queue_is_ready_def removeProven_def resend_loop_def queue_pass_def
        at_ease_def outbox_ready_def)
  obtain d1 where d1: "play P (concat (map (visit_events head seal) ?es)) (queue_loop ?es 0 ?d0, walk) = Some (d1, walk)"
      "ld_at d1 = AtLastProbe" "half_way [] d1" "ld_floor d1 = ld_floor d" "accepted_seqs d1 = accepted_seqs d"
    using visits_play [OF hw, of head seal 0 P walk] assms(5,6,8) by (auto simp: accepted_seqs_def)
  let ?d2 = "prove_where (head_at_floor head) d1"
  have proven: "set (ld_proven ?d2) = accepted_seqs d" "distinct (ld_proven ?d2)"
    using prove_all_at_floor [OF d1(3), of head] assms(7) d1(4,5) by simp_all
  have n: "length (ld_proven ?d2) = length ?es"
  proof -
    have "distinct (map oe_seq ?es)"
      unfolding ld_entries_def by (rule seq_sorted_distinct [OF entries_sorted [OF k]])
    then show ?thesis using proven seqs by (metis distinct_card length_map set_map)
  qed
  have probe: "probe_settles head d1 = Some (finish_pass ?d2)"
    using d1(2-4) assms(6) by (simp add: probe_settles_def last_probed_def Let_def half_way_def at_ease_def prove_where_def)
  obtain d3 where d3: "finish_pass ?d2 = removeProven ThenReturn d3" "at_ease d3" "ld_proven d3 = ld_proven ?d2"
      "accepted_seqs d3 = accepted_seqs d1" "stored_seqs d3 = stored_seqs d1"
  proof
    let ?b = "\<exists>p \<in> set (map snd (ld_publications ?d2)). pb_epoch p \<noteq> ef_epoch (ld_floor ?d2)"
    let ?d3 = "if ?b then ?d2 \<lparr> ld_immediate := True \<rparr> else ?d2"
    show "finish_pass ?d2 = removeProven ThenReturn ?d3" by (simp only: finish_pass_def)
    show "at_ease ?d3" "ld_proven ?d3 = ld_proven ?d2" "accepted_seqs ?d3 = accepted_seqs d1" "stored_seqs ?d3 = stored_seqs d1"
      using d1(3) by (simp_all add: half_way_def at_ease_def prove_where_def accepted_seqs_def stored_seqs_def)
  qed
  obtain d' where d': "play P (replicate (length ?es) (Stored Done)) (finish_pass ?d2, walk) = Some (d', walk)"
      "accepted_seqs d' = {}" "stored_seqs d' = stored_seqs d1 - accepted_seqs d"
    using removals_play [OF d3(2), of P walk] proven d1(5) n unfolding d3 by auto
  have all: "play P (calm_pass head seal ?es) (d, walk) = Some (d', walk)"
    unfolding calm_pass_def play_append start Option.bind.bind_lunit d1(1) using probe d'(1) by simp
  have "play P ([TimerFired, Settled, Settled] @ concat (map (visit_events head seal) ?es)) (d, walk) = Some (d1, walk)"
    unfolding play_append start using d1(1) by simp
  from delivery_run_inv [OF play_run [OF run_starts this]] assms(2,3)
  have "books_inv cap P d1" by (simp add: delivery_inv_def)
  then have "map_of (ob_stored (ld_queue d1)) \<subseteq>\<^sub>m map_of (ob_accepted (ld_queue d1))"
    using d1(3) by (simp add: books_inv_def outbox_inv_def half_way_def at_ease_def)
  from map_le_implies_dom_le [OF this] have "stored_seqs d1 \<subseteq> accepted_seqs d1"
    by (simp add: stored_seqs_def accepted_seqs_def dom_map_of_conv_image_fst)
  with all d' d1(5) show ?thesis by auto
qed

end
