(* ===== verification/Delivery_Props.thy ===== *)
theory Delivery_Props
  imports Delivery_Calm
begin

text \<open>
  What the outbox and its worker promise: an entry leaves the storage only when proven delivered or when the
  member was removed; an accepted entry is durable, numbered apart and within the capacity; a frame is handed
  to the hub only behind its predecessors and with its attempt recorded; an undisturbed pass empties the queue.
\<close>

definition demo_delivery :: delivery_params where
  "demo_delivery = \<lparr> dp_limit = 2, dp_deliveredWindowMs = 1000, dp_deliveredLimit = 2 \<rparr>"

definition demo_stored :: AppOutboxEntry where
  "demo_stored = entry_of 0 \<lparr> ai_protocol = ''chat'', ai_prc = ''say'', ai_data = [1] \<rparr>"

definition demo_floor :: EpochFloor where
  "demo_floor = \<lparr> ef_epoch = 3, ef_position = Some ''5'', ef_covered = True \<rparr>"

definition demo_sealed :: SealedLogFrame where
  "demo_sealed = \<lparr> sf_topicID = ''t'', sf_payload = [7], sf_floor = demo_floor \<rparr>"

definition demo_start :: delivery_state where
  "demo_start = start_delivery [demo_stored] demo_floor 0"

definition demo_to_publish :: "delivery_event list" where
  "demo_to_publish = [ListResolved, Triggered, TimerFired, Settled, Settled, Probed (Some ''5''), Sealed demo_sealed, Stored Done]"

definition demo_to_removal :: "delivery_event list" where
  "demo_to_removal = demo_to_publish @ [Settled, Probed (Some ''5'')]"

lemmas demo_defs = demo_delivery_def demo_stored_def demo_floor_def demo_sealed_def demo_start_def
  demo_to_publish_def demo_to_removal_def start_delivery_def entry_of_def

lemma demo_run: "play demo_delivery evs demo_start = Some s \<Longrightarrow> delivery_run demo_delivery demo_start (rev evs) s"
  using play_run [OF run_starts] by simp

text \<open>
  Claim C9. The storage loses an entry only if the member was removed from the group, or if the entry is proven
  delivered: a frame of it was acknowledged by the hub, and afterwards a walk of the commit log began and
  certified the epoch of the frame, or a probe found the head of the commit log at or before the floor the frame
  was sealed at.
\<close>

theorem entry_removed_only_when_proven:
  assumes "distinct (map oe_seq stored)"
    and "delivery_run P (start_delivery stored fl now) evs (d, walk)"
    and "delivery_step P ev (d, walk) = Some (d', walk')"
    and "seq \<in> stored_seqs d" "seq \<notin> stored_seqs d'"
  shows "ld_removed d \<or> proof_of_delivery P (start_delivery stored fl now) evs seq"
proof -
  let ?cap = "max (dp_limit P) (length stored)"
  have inv: "delivery_inv ?cap P d"
    using delivery_run_inv [OF assms(2) delivery_inv_start [OF assms(1), of ?cap]] by simp
  have trail: "trail_inv P (start_delivery stored fl now) evs (d, walk)"
    by (rule delivery_trail [OF assms(2)]) (simp_all add: start_delivery_def createLogDelivery_def)
  show ?thesis
  proof (cases "\<exists>dw. worker_step P ev d = Some dw \<and> d' = dw")
    case True
    then show ?thesis using stored_lost [OF inv _ assms(4,5)] trail by (auto simp: trail_inv_def)
  next
    case False
    then have "stored_seqs d' = stored_seqs d"
      using assms(3) by (cases ev) (auto simp: certify_def prove_where_def stored_seqs_def split: if_splits option.splits)
    with assms(4,5) show ?thesis by simp
  qed
qed

theorem entry_removed_only_when_proven_witness:
  "\<exists>d d'. play demo_delivery demo_to_removal demo_start = Some (d, None) \<and>
     delivery_step demo_delivery (Stored Done) (d, None) = Some (d', None) \<and>
     0 \<in> stored_seqs d \<and> 0 \<notin> stored_seqs d' \<and> \<not> ld_removed d \<and>
     proof_of_delivery demo_delivery demo_start (rev demo_to_removal) 0"
proof -
  have "\<exists>d d'. play demo_delivery demo_to_removal demo_start = Some (d, None) \<and>
     delivery_step demo_delivery (Stored Done) (d, None) = Some (d', None) \<and>
     0 \<in> stored_seqs d \<and> 0 \<notin> stored_seqs d' \<and> \<not> ld_removed d"
    by (rule exI [where x = "fst (the (play demo_delivery demo_to_removal demo_start))"],
        rule exI [where x = "fst (the (delivery_step demo_delivery (Stored Done)
           (the (play demo_delivery demo_to_removal demo_start))))"]) code_simp
  then obtain d d' where s: "play demo_delivery demo_to_removal demo_start = Some (d, None)"
    and s': "delivery_step demo_delivery (Stored Done) (d, None) = Some (d', None)"
    and i: "0 \<in> stored_seqs d" "0 \<notin> stored_seqs d'" "\<not> ld_removed d"
    by blast
  have run: "delivery_run demo_delivery (start_delivery [demo_stored] demo_floor 0) (rev demo_to_removal) (d, None)"
    using demo_run [OF s] by (simp only: demo_start_def)
  have "proof_of_delivery demo_delivery demo_start (rev demo_to_removal) 0"
    using entry_removed_only_when_proven [OF _ run s' i(1,2)] i(3) by (simp add: demo_start_def)
  with s s' i show ?thesis by blast
qed

text \<open>
  Claim C10. In every state of a run, the entries and the writes in flight stay within the capacity (or within what
  was already stored at the start), their numbers are distinct and below the next one to be given, and what the
  worker knows of an accepted entry is what the storage holds, until the entry is proven delivered or the member
  removed.
\<close>

theorem accepted_entries_are_stored:
  assumes "distinct (map oe_seq stored)"
    and "delivery_run P (start_delivery stored fl now) evs (d, walk)"
  shows "length (ob_accepted (ld_queue d)) + length (ob_reservations (ld_queue d)) \<le> max (dp_limit P) (length stored) \<and>
    distinct (map fst (ob_accepted (ld_queue d)) @ ob_reservations (ld_queue d)) \<and>
    (\<forall>seq \<in> set (ob_reservations (ld_queue d)). seq < ob_nextSeq (ld_queue d)) \<and>
    (\<forall>(seq, e) \<in> set (ob_accepted (ld_queue d)). oe_seq e = seq \<and> seq < ob_nextSeq (ld_queue d) \<and>
       (ld_removed d \<or> seq \<in> set (ld_proven d) \<or> map_of (ob_stored (ld_queue d)) seq = Some e))"
proof -
  let ?q = "ld_queue d"
  let ?cap = "max (dp_limit P) (length stored)"
  have b: "books_inv ?cap P d" and q: "outbox_inv ?cap ?q"
    using delivery_run_inv [OF assms(2) delivery_inv_start [OF assms(1), of ?cap]]
    by (simp_all add: delivery_inv_def books_inv_def)
  have k: "keyed (ob_accepted ?q)" and below: "\<forall>s \<in> fst ` set (ob_accepted ?q) \<union> set (ob_reservations ?q). s < ob_nextSeq ?q"
    and apart: "fst ` set (ob_accepted ?q) \<inter> set (ob_reservations ?q) = {}" and res: "sorted_wrt (<) (ob_reservations ?q)"
    and len: "length (ob_accepted ?q) + length (ob_reservations ?q) \<le> ?cap"
    using q by (simp_all add: outbox_inv_def)
  have "distinct (map fst (ob_accepted ?q) @ ob_reservations ?q)"
    using k apart res by (auto simp: keyed_def strict_sorted_iff)
  moreover have "oe_seq e = seq \<and> seq < ob_nextSeq ?q \<and>
       (ld_removed d \<or> seq \<in> set (ld_proven d) \<or> map_of (ob_stored ?q) seq = Some e)"
    if "(seq, e) \<in> set (ob_accepted ?q)" for seq e
  proof -
    have acc: "map_of (ob_accepted ?q) seq = Some e" using that keyed_in [OF k] by simp
    have "seq \<in> accepted_seqs d" using that by (force simp: accepted_seqs_def)
    then have "ld_removed d \<or> seq \<in> set (ld_proven d) \<or> seq \<in> dom (map_of (ob_stored ?q))"
      using b unfolding books_inv_def dom_map_of_conv_image_fst by blast
    moreover have "map_of (ob_stored ?q) \<subseteq>\<^sub>m map_of (ob_accepted ?q)"
      using q that by (auto simp: outbox_inv_def split: if_splits)
    moreover have "oe_seq e = seq" using k acc by (simp add: keyed_def)
    moreover have "seq < ob_nextSeq ?q" using below that by force
    ultimately show ?thesis using acc by (metis map_le_def)
  qed
  ultimately show ?thesis using below len by (simp add: case_prod_unfold)
qed

theorem accepted_entries_are_stored_witness:
  "\<exists>d. play demo_delivery demo_to_publish demo_start = Some (d, None) \<and> ob_accepted (ld_queue d) \<noteq> [] \<and>
     length (ob_accepted (ld_queue d)) + length (ob_reservations (ld_queue d)) \<le> 2 \<and>
     (\<forall>(seq, e) \<in> set (ob_accepted (ld_queue d)).
        ld_removed d \<or> seq \<in> set (ld_proven d) \<or> map_of (ob_stored (ld_queue d)) seq = Some e)"
proof -
  have "\<exists>d. play demo_delivery demo_to_publish demo_start = Some (d, None) \<and> ob_accepted (ld_queue d) \<noteq> []"
    by (rule exI [where x = "fst (the (play demo_delivery demo_to_publish demo_start))"]) code_simp
  then obtain d where s: "play demo_delivery demo_to_publish demo_start = Some (d, None)"
    and ne: "ob_accepted (ld_queue d) \<noteq> []" by blast
  have run: "delivery_run demo_delivery (start_delivery [demo_stored] demo_floor 0) (rev demo_to_publish) (d, None)"
    using demo_run [OF s] by (simp only: demo_start_def)
  have "dp_limit demo_delivery = 2" by (simp add: demo_delivery_def)
  with accepted_entries_are_stored [OF _ run] s ne show ?thesis by fastforce
qed

text \<open>
  Claim C8. When the worker hands a frame of an entry to the hub, no write of an earlier entry is in flight, every
  earlier accepted entry is proven delivered or was acknowledged in the same epoch, and the storage already records
  the attempt with the epoch and the floor the frame was sealed at.
\<close>

theorem frames_published_in_order:
  assumes "distinct (map oe_seq stored)"
    and "delivery_run P (start_delivery stored fl now) evs (d, walk)"
    and "ld_at d = AtPublish seq frame rest count"
  shows "(\<forall>r \<in> set (ob_reservations (ld_queue d)). seq < r) \<and>
    (\<forall>s \<in> accepted_seqs d. s < seq \<longrightarrow> s \<in> set (ld_proven d) \<or>
       (\<exists>p. map_of (ld_publications d) s = Some p \<and> pb_epoch p = ef_epoch (sf_floor frame))) \<and>
    (\<exists>e a. map_of (ob_stored (ld_queue d)) seq = Some e \<and> oe_lastAttempt e = Some a \<and>
       la_epoch a = ef_epoch (sf_floor frame) \<and> la_floor a = ef_position (sf_floor frame))"
proof -
  have "delivery_inv (max (dp_limit P) (length stored)) P d"
    using delivery_run_inv [OF assms(2) delivery_inv_start [OF assms(1), of "max (dp_limit P) (length stored)"]] by simp
  with assms(3) show ?thesis
    by (simp add: delivery_inv_def unfenced_def published_before_def attempt_stored_def)
qed

theorem frames_published_in_order_witness:
  "\<exists>d. play demo_delivery demo_to_publish demo_start = Some (d, None) \<and> ld_at d = AtPublish 0 demo_sealed [] 1 \<and>
     (\<exists>e a. map_of (ob_stored (ld_queue d)) 0 = Some e \<and> oe_lastAttempt e = Some a \<and> la_epoch a = 3)"
proof -
  have "\<exists>d. play demo_delivery demo_to_publish demo_start = Some (d, None) \<and> ld_at d = AtPublish 0 demo_sealed [] 1"
    by (rule exI [where x = "fst (the (play demo_delivery demo_to_publish demo_start))"]) code_simp
  then obtain d where s: "play demo_delivery demo_to_publish demo_start = Some (d, None)"
    and at: "ld_at d = AtPublish 0 demo_sealed [] 1" by blast
  have run: "delivery_run demo_delivery (start_delivery [demo_stored] demo_floor 0) (rev demo_to_publish) (d, None)"
    using demo_run [OF s] by (simp only: demo_start_def)
  have "ef_epoch (sf_floor demo_sealed) = 3" by (simp add: demo_sealed_def demo_floor_def)
  with frames_published_in_order [OF _ run at] s at show ?thesis by auto
qed

definition demo_ready :: delivery where
  "demo_ready = fst (the (play demo_delivery [ListResolved, Triggered] demo_start))"

lemma demo_ready_facts:
  shows demo_ready_run: "play demo_delivery [ListResolved, Triggered] demo_start = Some (demo_ready, None)"
    and demo_ready_seqs: "map oe_seq (ld_entries demo_ready) = [0]"
    and demo_ready_floor: "ld_floor demo_ready = demo_floor"
    and demo_ready_about: "about_to_pass demo_ready"
  by code_simp+

text \<open>
  Claim C20. A pass that nothing disturbs, with the commit log at its floor and at most 64 entries queued, publishes
  the whole queue, proves it by its last probe and leaves the queue and the storage empty; its events are those of
  \<open>calm_pass\<close>, four for an entry, a probe, and a removal for each.
\<close>

theorem calm_pass_empties_outbox:
  assumes "distinct (map oe_seq stored)"
    and "delivery_run P (start_delivery stored fl now) evs (d, walk)"
    and "about_to_pass d" "ld_entries d \<noteq> []" "length (ld_entries d) \<le> 64"
    and "\<not> headPastFloor head (ld_floor d)" "head_by (ef_position (ld_floor d)) head"
    and "\<forall>e \<in> set (ld_entries d). sf_floor (seal e) = ld_floor d"
  shows "\<exists>d'. play P (calm_pass head seal (ld_entries d)) (d, walk) = Some (d', walk) \<and>
    accepted_seqs d' = {} \<and> stored_seqs d' = {}"
proof (rule calm_pass_plays [OF assms(3) _ _ assms(4-8)])
  let ?cap = "max (dp_limit P) (length stored)"
  show "delivery_inv ?cap P d" "dp_limit P \<le> ?cap"
    using delivery_run_inv [OF assms(2) delivery_inv_start [OF assms(1), of ?cap]] by simp_all
qed

theorem calm_pass_empties_outbox_witness:
  "\<exists>d'. map oe_seq (ld_entries demo_ready) = [0] \<and>
     play demo_delivery (calm_pass (Some ''5'') (\<lambda>_. demo_sealed) (ld_entries demo_ready)) (demo_ready, None) = Some (d', None) \<and>
     stored_seqs d' = {}"
proof -
  have run: "delivery_run demo_delivery (start_delivery [demo_stored] demo_floor 0) (rev [ListResolved, Triggered]) (demo_ready, None)"
    using demo_run [OF demo_ready_run] by (simp only: demo_start_def)
  have len: "ld_entries demo_ready \<noteq> []" "length (ld_entries demo_ready) \<le> 64"
    using demo_ready_seqs by (auto dest: arg_cong [where f = length])
  have "\<exists>d'. play demo_delivery (calm_pass (Some ''5'') (\<lambda>_. demo_sealed) (ld_entries demo_ready)) (demo_ready, None) = Some (d', None) \<and>
    accepted_seqs d' = {} \<and> stored_seqs d' = {}"
  proof (rule calm_pass_empties_outbox [OF _ run demo_ready_about len])
    show "distinct (map oe_seq [demo_stored])" by simp
    show "\<not> headPastFloor (Some ''5'') (ld_floor demo_ready)" "head_by (ef_position (ld_floor demo_ready)) (Some ''5'')"
      unfolding demo_ready_floor demo_floor_def headPastFloor_def head_by_def by simp_all
    show "\<forall>e \<in> set (ld_entries demo_ready). sf_floor demo_sealed = ld_floor demo_ready"
      unfolding demo_ready_floor demo_sealed_def by simp
  qed
  with demo_ready_seqs show ?thesis by (elim exE conjE) (intro exI conjI)
qed

end
