(* ===== verification/App_Frames.thy ===== *)
theory App_Frames
  imports Peer_Frames
begin

text \<open>
  The names and the bindings of the application lane: the topics a group derives from its secrets
  (\<^verbatim>\<open>broadcast/src/topic.ts\<close>, \<^verbatim>\<open>rpc/src/topic.ts\<close>), the data an application seal is bound to
  (\<^verbatim>\<open>rpc/src/app-aad.ts\<close>) and the identity of a frame (\<^verbatim>\<open>rpc/src/app-lane.ts\<close>). The key derivation with its
  encoding and the hash are arguments. A string is well formed, so the surrogate checks of the source pass.
\<close>

section \<open>Topics\<close>

datatype topic_error = NulByte | UnsafeEpoch | ReservedProtocol

type_synonym derivation = "bytes \<Rightarrow> bytes \<Rightarrow> bytes \<Rightarrow> string"

definition SEP :: char where
  "SEP = CHR 0x00"

definition TOPIC_INFO_PREFIX :: string where
  "TOPIC_INFO_PREFIX = ''kumiai/topic/v1''"

definition MAX_SAFE_INTEGER :: nat where
  "MAX_SAFE_INTEGER = 2 ^ 53 - 1"

definition topic_info :: "string \<Rightarrow> string \<Rightarrow> bytes" where
  "topic_info label scope = utf8 (TOPIC_INFO_PREFIX @ SEP # label @ SEP # scope)"

definition encodeEpoch :: "nat \<Rightarrow> bytes" where
  "encodeEpoch epoch = le_bytes 8 epoch"

definition deriveTopicID ::
  "derivation \<Rightarrow> bytes \<Rightarrow> nat \<Rightarrow> string \<Rightarrow> string \<Rightarrow> topic_error + topic_id" where
  "deriveTopicID derive secret epoch label scope =
     (if MAX_SAFE_INTEGER < epoch then Inl UnsafeEpoch
      else if SEP \<in> set label \<or> SEP \<in> set scope then Inl NulByte
      else Inr (derive secret (encodeEpoch epoch) (topic_info label scope)))"

definition INBOX_LABEL :: string where "INBOX_LABEL = ''kumiai/inbox/v1''"
definition COMMIT_LABEL :: string where "COMMIT_LABEL = ''kumiai/commit/v1''"
definition RENDEZVOUS_LABEL :: string where "RENDEZVOUS_LABEL = ''kumiai/rendezvous/v1''"
definition RESERVED_LABEL_PREFIX :: string where "RESERVED_LABEL_PREFIX = ''kumiai/''"

definition startsWith :: "string \<Rightarrow> string \<Rightarrow> bool" where
  "startsWith s p \<longleftrightarrow> take (length p) s = p"

definition protocolTopic :: "derivation \<Rightarrow> bytes \<Rightarrow> nat \<Rightarrow> string \<Rightarrow> string \<Rightarrow> topic_error + topic_id" where
  "protocolTopic derive secret epoch protocol scope =
     (if startsWith protocol RESERVED_LABEL_PREFIX then Inl ReservedProtocol
      else deriveTopicID derive secret epoch protocol scope)"

definition inboxTopic :: "derivation \<Rightarrow> bytes \<Rightarrow> nat \<Rightarrow> did \<Rightarrow> topic_error + topic_id" where
  "inboxTopic derive secret epoch memberDID = deriveTopicID derive secret epoch INBOX_LABEL memberDID"

definition commitTopic :: "derivation \<Rightarrow> bytes \<Rightarrow> topic_error + topic_id" where
  "commitTopic derive recoverySecret = deriveTopicID derive recoverySecret 0 COMMIT_LABEL []"

definition rendezvousTopic :: "derivation \<Rightarrow> bytes \<Rightarrow> topic_error + topic_id" where
  "rendezvousTopic derive recoverySecret = deriveTopicID derive recoverySecret 0 RENDEZVOUS_LABEL []"

text \<open>The derivation inputs tell the epoch, the label and the scope apart.\<close>

lemma split_at_sep:
  assumes "SEP \<notin> set a" "SEP \<notin> set a'" "a @ SEP # b = a' @ SEP # b'"
  shows "a = a' \<and> b = b'"
  using assms
proof (induction a arbitrary: a')
  case Nil
  then show ?case by (cases a') auto
next
  case (Cons x a)
  then show ?case by (cases a') auto
qed

lemma topic_info_inj:
  assumes "SEP \<notin> set label" "SEP \<notin> set label'" "topic_info label scope = topic_info label' scope'"
  shows "label = label' \<and> scope = scope'"
proof -
  have "label @ SEP # scope = label' @ SEP # scope'"
    using inj_utf8 [OF assms(3) [unfolded topic_info_def]] by simp
  with assms(1,2) show ?thesis by (rule split_at_sep)
qed

lemma encodeEpoch_inj:
  assumes "epoch \<le> MAX_SAFE_INTEGER" "epoch' \<le> MAX_SAFE_INTEGER" "encodeEpoch epoch = encodeEpoch epoch'"
  shows "epoch = epoch'"
proof -
  have "epoch mod 256 ^ 8 = epoch' mod 256 ^ 8"
    using arg_cong [OF assms(3) [unfolded encodeEpoch_def], of le_nat] by (simp add: le_nat_bytes)
  with assms(1,2) show ?thesis by (simp add: MAX_SAFE_INTEGER_def)
qed

text \<open>Two different inputs with one derived value.\<close>

definition derivation_collision :: "derivation \<Rightarrow> bool" where
  "derivation_collision derive \<longleftrightarrow> (\<exists>s e i s' e' i'. (s, e, i) \<noteq> (s', e', i') \<and> derive s e i = derive s' e' i')"

lemma deriveTopicID_inj:
  assumes "deriveTopicID derive secret epoch label scope = Inr t"
    and "deriveTopicID derive secret' epoch' label' scope' = Inr t" "\<not> derivation_collision derive"
  shows "secret = secret' \<and> epoch = epoch' \<and> label = label' \<and> scope = scope'"
proof -
  have "derive secret (encodeEpoch epoch) (topic_info label scope) =
      derive secret' (encodeEpoch epoch') (topic_info label' scope')"
    using assms(1,2) by (auto simp: deriveTopicID_def split: if_splits)
  then have eq: "(secret, encodeEpoch epoch, topic_info label scope) = (secret', encodeEpoch epoch', topic_info label' scope')"
    using assms(3) unfolding derivation_collision_def by blast
  moreover have "epoch = epoch'"
    using assms(1,2) eq by (intro encodeEpoch_inj) (auto simp: deriveTopicID_def split: if_splits)
  moreover have "label = label' \<and> scope = scope'"
    using assms(1,2) eq by (intro topic_info_inj) (auto simp: deriveTopicID_def split: if_splits)
  ultimately show ?thesis by simp
qed

lemma protocolTopic_derives:
  "protocolTopic derive secret epoch protocol scope = Inr t \<Longrightarrow>
     deriveTopicID derive secret epoch protocol scope = Inr t \<and> \<not> startsWith protocol RESERVED_LABEL_PREFIX"
  by (simp add: protocolTopic_def split: if_splits)

lemma reserved_labels [simp]:
  "startsWith INBOX_LABEL RESERVED_LABEL_PREFIX" "startsWith COMMIT_LABEL RESERVED_LABEL_PREFIX"
  "startsWith RENDEZVOUS_LABEL RESERVED_LABEL_PREFIX"
  "COMMIT_LABEL \<noteq> INBOX_LABEL" "RENDEZVOUS_LABEL \<noteq> INBOX_LABEL" "COMMIT_LABEL \<noteq> RENDEZVOUS_LABEL"
  by (simp_all add: startsWith_def INBOX_LABEL_def COMMIT_LABEL_def RENDEZVOUS_LABEL_def RESERVED_LABEL_PREFIX_def)

section \<open>Decoding UTF-8\<close>

definition continuation :: "8 word \<Rightarrow> bool" where
  "continuation b \<longleftrightarrow> 0x80 \<le> b \<and> b \<le> 0xBF"

text \<open>The byte sequences a fatal \<^verbatim>\<open>TextDecoder\<close> takes.\<close>

fun utf8_valid :: "bytes \<Rightarrow> bool" where
  "utf8_valid [] = True"
| "utf8_valid (a # as) =
     (if a \<le> 0x7F then utf8_valid as
      else case as of [] \<Rightarrow> False | b # bs \<Rightarrow>
        if 0xC2 \<le> a \<and> a \<le> 0xDF then continuation b \<and> utf8_valid bs
        else case bs of [] \<Rightarrow> False | c # cs \<Rightarrow>
          if 0xE0 \<le> a \<and> a \<le> 0xEF then
            continuation b \<and> continuation c \<and> (a = 0xE0 \<longrightarrow> 0xA0 \<le> b) \<and> (a = 0xED \<longrightarrow> b \<le> 0x9F) \<and> utf8_valid cs
          else case cs of [] \<Rightarrow> False | d # ds \<Rightarrow>
            0xF0 \<le> a \<and> a \<le> 0xF4 \<and> continuation b \<and> continuation c \<and> continuation d \<and>
            (a = 0xF0 \<longrightarrow> 0x90 \<le> b) \<and> (a = 0xF4 \<longrightarrow> b \<le> 0x8F) \<and> utf8_valid ds)"

text \<open>A decoder drops one leading byte order mark.\<close>

definition BOM :: bytes where "BOM = [0xEF, 0xBB, 0xBF]"

definition fatal_decode :: "bytes \<Rightarrow> string option" where
  "fatal_decode bytes = (if utf8_valid bytes
     then Some (from_utf8 (if take 3 bytes = BOM then drop 3 bytes else bytes)) else None)"

lemma fatal_decode_utf8: "fatal_decode (utf8 s) = Some s \<longleftrightarrow> utf8_valid (utf8 s) \<and> take 3 (utf8 s) \<noteq> BOM"
proof -
  have "from_utf8 (drop 3 (utf8 s)) \<noteq> s" if "take 3 (utf8 s) = BOM"
  proof
    assume "from_utf8 (drop 3 (utf8 s)) = s"
    then have "length (drop 3 (utf8 s)) = length s" by (metis from_utf8_def length_map)
    then show False using that by (auto simp: utf8_def BOM_def dest: arg_cong [where f = length])
  qed
  then show ?thesis by (auto simp: fatal_decode_def from_utf8_utf8)
qed

section \<open>The data an application seal is bound to\<close>

datatype Intent = EphemeralIntent | LogIntent

record AppAAD =
  aad_topicID :: topic_id
  aad_intent :: Intent

definition encodeAppAAD :: "AppAAD \<Rightarrow> bytes option" where
  "encodeAppAAD aad =
     (let topic = utf8 (aad_topicID aad) in
      if fatal_decode topic \<noteq> Some (aad_topicID aad) then None
      else Some (1 # (if aad_intent aad = LogIntent then 1 else 0) # topic))"

fun decodeAppAAD :: "bytes \<Rightarrow> AppAAD option" where
  "decodeAppAAD (version # intent # topic) =
     (if version \<noteq> 1 \<or> (intent \<noteq> 0 \<and> intent \<noteq> 1) then None
      else case fatal_decode topic of
        None \<Rightarrow> None
      | Some t \<Rightarrow> Some \<lparr> aad_topicID = t, aad_intent = (if intent = 1 then LogIntent else EphemeralIntent) \<rparr>)"
| "decodeAppAAD bytes = None"

lemma decode_encode_AAD:
  assumes "encodeAppAAD aad = Some bytes"
  shows "decodeAppAAD bytes = Some aad"
  using assms by (cases aad; cases "aad_intent aad") (auto simp: encodeAppAAD_def Let_def split: if_splits)

lemma encodeAppAAD_inj: "encodeAppAAD aad = Some bytes \<Longrightarrow> encodeAppAAD aad' = Some bytes \<Longrightarrow> aad = aad'"
  by (metis decode_encode_AAD option.inject)

section \<open>The identity of a frame\<close>

definition frame_identity :: "topic_id \<Rightarrow> bytes \<Rightarrow> bytes" where
  "frame_identity topicID bytes = (let topic = utf8 topicID in uint32_be (length topic) @ topic @ bytes)"

definition app_frameID :: "(bytes \<Rightarrow> string) \<Rightarrow> topic_id \<Rightarrow> bytes \<Rightarrow> string" where
  "app_frameID digest topicID bytes = digest (frame_identity topicID bytes)"

end
