(* ===== verification/App_Lane.thy ===== *)
theory App_Lane
  imports Actions App_Frames Peer_State
begin

text \<open>
  The application lane of a peer, \<^verbatim>\<open>packages/rpc/src/app-lane.ts\<close>: the buffer of retained frames of the current
  segment, the read positions over it, and the two deliverers that fill it, the pull of the log and the live
  push. \<open>app_lane\<close> is the closure of \<^verbatim>\<open>createAppLane\<close> with the host's cursor store and the world outside (hub,
  handle, handlers), \<open>app_env\<close> what the lane calls. An operation under the lane's mutex is one action. What the
  host is told and handed is recorded in order.
\<close>

section \<open>Frames and records\<close>

definition APP_FETCH_LIMIT :: nat where
  "APP_FETCH_LIMIT = 100"

datatype sealed_state = SealedBytes bytes | PendingID string | DoneFrame

record AppFrame =
  fa_position :: sequence_id
  fa_sealed :: sealed_state

record AppCursor =
  ac_topicID :: topic_id
  ac_position :: "sequence_id option"
  ac_fetched :: "sequence_id option"

record AppFrameRef =
  fr_id :: string
  fr_topicID :: topic_id
  fr_protocol :: string
  fr_segment :: nat
  fr_position :: sequence_id

record PendingAppFrame =
  pf_frame :: AppFrameRef
  pf_payload :: bytes
  pf_senderDID :: did

datatype stall_reason = UnknownProtocol | FutureEpoch

record AppStall =
  sl_groupID :: topic_id
  sl_protocol :: string
  sl_topicID :: topic_id
  sl_position :: sequence_id
  sl_reason :: "stall_reason option"

datatype app_notice =
    Stalled AppStall
  | Resumed AppStall
  | WindowPruned topic_id string sequence_id "sequence_id option"

text \<open>An event handed to the host's handlers, with the frame it came in.\<close>

record AppEmit =
  em_protocol :: string
  em_prc :: string
  em_data :: string
  em_senderDID :: did
  em_position :: sequence_id

text \<open>The outcome of an open: opened, refused as ahead, failed to store, or refused for good.\<close>

datatype unwrap_answer = Opened bytes did | FrameAhead nat | AppStorageFailed | OpenRefused

text \<open>What \<^verbatim>\<open>JSON.parse\<close> reads in an opened payload: its \<^verbatim>\<open>typ\<close>, its \<^verbatim>\<open>prc\<close> where it is a string, its \<^verbatim>\<open>data\<close>.\<close>

record AppMessage =
  am_typ :: "string option"
  am_prc :: "string option"
  am_data :: "string option"

datatype app_error =
    AppHubThrew js_error
  | AppNonIncreasingPage
  | AppHostError
  | AppFrameStorageError
  | TopicError topic_error
  | DurableDeliveryDisabled
  | AppFrameNotBuffered
  | AppFrameIsPending
  | AppFrameAlreadyDone
  | EarlierFrameBlocks
  | AppOutOfFuel

section \<open>Protocols\<close>

datatype Retention = LogRetention | EphemeralRetention

record ProcedureDefinition =
  pd_type :: string
  pd_retain :: "string option"

type_synonym ProtocolDefinition = "(string, ProcedureDefinition) js_map"

definition retentionOf_procedure :: "ProtocolDefinition \<Rightarrow> string \<Rightarrow> Retention" where
  "retentionOf_procedure protocol procedureName = (case map_of protocol procedureName of
       None \<Rightarrow> EphemeralRetention
     | Some p \<Rightarrow> if pd_type p = ''event'' \<and> pd_retain p = Some ''log'' then LogRetention else EphemeralRetention)"

section \<open>The environment and the state\<close>

record 'w app_env =
  ae_durable :: bool
  ae_protocols :: "(string, ProtocolDefinition) js_map"
  ae_handled :: "string \<Rightarrow> bool"
  ae_normalizeDID :: "did \<Rightarrow> did"
  ae_localDID :: did
  ae_derive :: derivation
  ae_digest :: "bytes \<Rightarrow> string"
  ae_parse :: "bytes \<Rightarrow> AppMessage option"
  ae_frameEpoch :: "bytes \<Rightarrow> nat option"
  ae_frameAAD :: "bytes \<Rightarrow> bytes option"
  ae_unwrap :: "bytes \<Rightarrow> bytes \<Rightarrow> AppFrameRef option \<Rightarrow> 'w \<Rightarrow> unwrap_answer \<times> 'w"
  ae_fetch :: "topic_id \<Rightarrow> sequence_id option \<Rightarrow> nat \<Rightarrow> 'w \<Rightarrow> (js_error + FetchTopicResult) \<times> 'w"
  ae_emit :: "AppEmit \<Rightarrow> 'w \<Rightarrow> bool \<times> 'w"
  ae_complete :: "string \<Rightarrow> 'w \<Rightarrow> bool \<times> 'w"
  ae_groupID :: "'w \<Rightarrow> topic_id option"
  ae_cursorStore :: bool
  ae_readCursor :: "'w \<Rightarrow> bool \<times> 'w"
  ae_saveCursor :: "'w \<Rightarrow> host_outcome \<times> 'w"
  ae_hearsStalls :: bool
  ae_hearsPruned :: bool

record app_worker =
  wk_running :: bool
  wk_requested :: bool
  wk_retryNow :: bool
  wk_backoff :: nat
  wk_timer :: "nat option"

record 'w app_lane =
  al_segment :: "(string, AppFrame list) js_map"
  al_cursors :: "(string, AppCursor) js_map"
  al_staged :: "(string, (topic_id \<times> AppFrame) list) js_map"
  al_retained :: "topic_id list"
  al_pending :: "PendingAppFrame list"
  al_reportedPruned :: "(topic_id \<times> sequence_id) list"
  al_blocking :: "((topic_id \<times> sequence_id), AppStall) js_map"
  al_unknown :: "(string, AppStall) js_map"
  al_disposed :: bool
  al_syncScheduled :: bool
  al_workers :: "(string, app_worker) js_map"
  al_anchor :: Anchor
  al_saved :: "topic_id \<rightharpoonup> sequence_id"
  al_emits :: "AppEmit list"
  al_notices :: "app_notice list"
  al_world :: 'w

type_synonym ('w, 'a) app = "('w app_lane, app_error, 'a) act"

definition createAppLane :: "Anchor \<Rightarrow> (topic_id \<rightharpoonup> sequence_id) \<Rightarrow> 'w \<Rightarrow> 'w app_lane" where
  "createAppLane anchor saved w = \<lparr> al_segment = [], al_cursors = [], al_staged = [], al_retained = [],
     al_pending = [], al_reportedPruned = [], al_blocking = [], al_unknown = [], al_disposed = False,
     al_syncScheduled = False, al_workers = [], al_anchor = anchor, al_saved = saved, al_emits = [],
     al_notices = [], al_world = w \<rparr>"

definition frames_of :: "string \<Rightarrow> 'w app_lane \<Rightarrow> AppFrame list" where
  "frames_of name l = or_else (map_of (al_segment l) name) []"

definition set_frames :: "string \<Rightarrow> AppFrame list \<Rightarrow> 'w app_lane \<Rightarrow> 'w app_lane" where
  "set_frames name frames l = l \<lparr> al_segment := AList.update name frames (al_segment l) \<rparr>"

definition set_cursor :: "string \<Rightarrow> AppCursor \<Rightarrow> 'w app_lane \<Rightarrow> 'w app_lane" where
  "set_cursor name c l = l \<lparr> al_cursors := AList.update name c (al_cursors l) \<rparr>"

section \<open>Calls outside the lane\<close>

definition outside :: "('w \<Rightarrow> 'r \<times> 'w) \<Rightarrow> ('w, 'r) app" where
  "outside call l = (case call (al_world l) of (r, w) \<Rightarrow> (Inr r, l \<lparr> al_world := w \<rparr>))"

definition load_cursor :: "'w app_env \<Rightarrow> topic_id \<Rightarrow> ('w, sequence_id option) app" where
  "load_cursor E topicID =
     (if ae_cursorStore E
      then and_then (outside (ae_readCursor E)) (\<lambda>ok. if ok then reading (\<lambda>l. give (al_saved l topicID)) else fail AppHostError)
      else give None)"

definition save_cursor :: "'w app_env \<Rightarrow> topic_id \<Rightarrow> sequence_id \<Rightarrow> ('w, unit) app" where
  "save_cursor E topicID position =
     (let store = change (\<lambda>l. l \<lparr> al_saved := (al_saved l)(topicID \<mapsto> position) \<rparr>) in
      if ae_cursorStore E
      then and_then (outside (ae_saveCursor E)) (\<lambda>r. case r of
          Done \<Rightarrow> store
        | Rejected \<Rightarrow> fail AppHostError
        | RejectedLate \<Rightarrow> and_then store (\<lambda>_. fail AppHostError))
      else give ())"

definition app_notify :: "app_notice \<Rightarrow> ('w, unit) app" where
  "app_notify n = change (\<lambda>l. if al_disposed l then l else l \<lparr> al_notices := al_notices l @ [n] \<rparr>)"

section \<open>Taking a frame into the buffer\<close>

definition merged_state :: "bool \<Rightarrow> sealed_state \<Rightarrow> sealed_state \<Rightarrow> sealed_state" where
  "merged_state durable existing incoming =
     (if \<not> durable then (if incoming = DoneFrame then incoming else existing)
      else case existing of
        PendingID _ \<Rightarrow> existing
      | DoneFrame \<Rightarrow> incoming
      | SealedBytes _ \<Rightarrow> (case incoming of PendingID _ \<Rightarrow> incoming | _ \<Rightarrow> existing))"

definition takeAppFrame :: "bool \<Rightarrow> AppFrame list \<Rightarrow> AppFrame \<Rightarrow> AppFrame list" where
  "takeAppFrame durable frames incoming =
     (let later = (\<lambda>f. fa_position incoming < fa_position f);
          front = rev (dropWhile later (rev frames));
          back = rev (takeWhile later (rev frames))
      in if front \<noteq> [] \<and> fa_position (last front) = fa_position incoming
         then butlast front @ (last front) \<lparr> fa_sealed := merged_state durable (fa_sealed (last front)) (fa_sealed incoming) \<rparr> # back
         else front @ incoming # back)"

section \<open>Notices to the host\<close>

definition resumeBlocked :: "topic_id \<Rightarrow> sequence_id \<Rightarrow> ('w, unit) app" where
  "resumeBlocked topicID position = reading (\<lambda>l. case map_of (al_blocking l) (topicID, position) of
       None \<Rightarrow> give ()
     | Some event \<Rightarrow> if al_disposed l then give ()
         else and_then (change (\<lambda>l. l \<lparr> al_blocking := AList.delete (topicID, position) (al_blocking l) \<rparr>))
                (\<lambda>_. app_notify (Resumed event)))"

definition resumeUnknown :: "PendingAppFrame \<Rightarrow> ('w, unit) app" where
  "resumeUnknown record' = reading (\<lambda>l. case map_of (al_unknown l) (fr_id (pf_frame record')) of
       None \<Rightarrow> give ()
     | Some event \<Rightarrow> if al_disposed l then give ()
         else and_then (change (\<lambda>l. l \<lparr> al_unknown := AList.delete (fr_id (pf_frame record')) (al_unknown l) \<rparr>))
                (\<lambda>_. app_notify (Resumed event)))"

definition reportBlocked ::
  "'w app_env \<Rightarrow> string \<Rightarrow> topic_id \<Rightarrow> sequence_id \<Rightarrow> stall_reason option \<Rightarrow> ('w, unit) app" where
  "reportBlocked E name topicID position reason = reading (\<lambda>l.
     if al_disposed l \<or> \<not> ae_hearsStalls E \<or> map_of (al_blocking l) (topicID, position) \<noteq> None then give ()
     else case ae_groupID E (al_world l) of
       None \<Rightarrow> give ()
     | Some group' \<Rightarrow>
        (let event = \<lparr> sl_groupID = group', sl_protocol = name, sl_topicID = topicID, sl_position = position,
                       sl_reason = reason \<rparr>
         in and_then (change (\<lambda>l. l \<lparr> al_blocking := AList.update (topicID, position) event (al_blocking l) \<rparr>))
              (\<lambda>_. app_notify (Stalled event))))"

definition reportUnknown :: "'w app_env \<Rightarrow> PendingAppFrame \<Rightarrow> ('w, unit) app" where
  "reportUnknown E record' = (let frame = pf_frame record' in reading (\<lambda>l.
     if al_disposed l \<or> \<not> ae_hearsStalls E \<or> map_of (ae_protocols E) (fr_protocol frame) \<noteq> None
        \<or> map_of (al_unknown l) (fr_id frame) \<noteq> None then give ()
     else case ae_groupID E (al_world l) of
       None \<Rightarrow> give ()
     | Some group' \<Rightarrow>
        (let event = \<lparr> sl_groupID = group', sl_protocol = fr_protocol frame, sl_topicID = fr_topicID frame,
                       sl_position = fr_position frame, sl_reason = Some UnknownProtocol \<rparr>
         in and_then (change (\<lambda>l. l \<lparr> al_unknown := AList.update (fr_id frame) event (al_unknown l) \<rparr>))
              (\<lambda>_. app_notify (Stalled event)))))"

definition reportPrunedWindow ::
  "'w app_env \<Rightarrow> string \<Rightarrow> topic_id \<Rightarrow> sequence_id \<Rightarrow> sequence_id option \<Rightarrow> ('w, unit) app" where
  "reportPrunedWindow E name topicID cursor oldest = reading (\<lambda>l.
     case ae_groupID E (al_world l) of
       None \<Rightarrow> give ()
     | Some group' \<Rightarrow>
        if \<not> ae_hearsPruned E \<or> (topicID, cursor) \<in> set (al_reportedPruned l) then give ()
        else change (\<lambda>l. l \<lparr> al_reportedPruned := al_reportedPruned l @ [(topicID, cursor)],
                             al_notices := al_notices l @ [WindowPruned group' name cursor oldest] \<rparr>))"

end
