(* ===== verification/App_Drain.thy ===== *)
theory App_Drain
  imports App_Lane
begin

text \<open>
  The operations of the application lane: the pull of the segment, the advance of the durable cursor, the drain
  at one epoch, the staged pushes, the durable records and the workers that deliver them. The paging loop takes
  fuel. The protocols are pulled one after another, each to its end whatever the others did.
\<close>

section \<open>The pull of the segment\<close>

definition laneFor :: "'w app_env \<Rightarrow> string \<Rightarrow> ('w, AppCursor) app" where
  "laneFor E name =
     and_then (change (\<lambda>l. if map_of (al_segment l) name = None then set_frames name [] l else l)) (\<lambda>_.
     reading (\<lambda>l. case map_of (al_cursors l) name of
         Some c \<Rightarrow> give c
       | None \<Rightarrow> (case protocolTopic (ae_derive E) (an_secret (al_anchor l)) (an_epoch (al_anchor l)) name [] of
             Inl e \<Rightarrow> fail (TopicError e)
           | Inr topicID \<Rightarrow> and_then (load_cursor E topicID) (\<lambda>stored.
               let c = \<lparr> ac_topicID = topicID, ac_position = stored, ac_fetched = None \<rparr>
               in and_then (change (set_cursor name c)) (\<lambda>_. give c)))))"

definition fetched_state :: "'w app_env \<Rightarrow> string \<Rightarrow> topic_id \<Rightarrow> PendingAppFrame list \<Rightarrow> StoredMessage \<Rightarrow> sealed_state" where
  "fetched_state E name topicID pending m =
     (case find (\<lambda>r. fr_protocol (pf_frame r) = name \<and> fr_topicID (pf_frame r) = topicID \<and>
                     fr_position (pf_frame r) = sm_sequenceID m) pending of
        Some restored \<Rightarrow> PendingID (fr_id (pf_frame restored))
      | None \<Rightarrow> if ae_normalizeDID E (sm_senderDID m) = ae_localDID E then DoneFrame
                else SealedBytes (sm_payload m))"

definition take_message :: "'w app_env \<Rightarrow> string \<Rightarrow> topic_id \<Rightarrow> StoredMessage \<Rightarrow> 'w app_lane \<Rightarrow> 'w app_lane" where
  "take_message E name topicID m l = set_frames name (takeAppFrame (ae_durable E) (frames_of name l)
     \<lparr> fa_position = sm_sequenceID m, fa_sealed = fetched_state E name topicID (al_pending l) m \<rparr>) l"

definition set_fetched :: "string \<Rightarrow> sequence_id option \<Rightarrow> 'w app_lane \<Rightarrow> 'w app_lane" where
  "set_fetched name after l = (case map_of (al_cursors l) name of
       None \<Rightarrow> l
     | Some c \<Rightarrow> set_cursor name (c \<lparr> ac_fetched := after \<rparr>) l)"

definition page_end :: "sequence_id option \<Rightarrow> StoredMessage list \<Rightarrow> sequence_id option" where
  "page_end after messages = (if messages = [] then after else Some (sm_sequenceID (last messages)))"

primrec pull_pages :: "nat \<Rightarrow> 'w app_env \<Rightarrow> string \<Rightarrow> topic_id \<Rightarrow> sequence_id option \<Rightarrow> ('w, unit) app" where
  "pull_pages 0 E name topicID after = fail AppOutOfFuel"
| "pull_pages (Suc n) E name topicID after =
     and_then (outside (ae_fetch E topicID after APP_FETCH_LIMIT)) (\<lambda>reply. case reply of
       Inl e \<Rightarrow> fail (AppHubThrew e)
     | Inr result \<Rightarrow>
        (let messages = fr_messages result in
         if \<not> forward_page after (map sm_sequenceID messages) then fail AppNonIncreasingPage
         else and_then (case after of
                 None \<Rightarrow> give ()
               | Some a \<Rightarrow> if fr_gap result then reportPrunedWindow E name topicID a (fr_oldest result) else give ()) (\<lambda>_.
           let after = page_end after messages in
           and_then (change (\<lambda>l. set_fetched name after (fold (take_message E name topicID) messages l))) (\<lambda>_.
           if length messages < APP_FETCH_LIMIT then give () else pull_pages n E name topicID after))))"

definition merge_staged :: "'w app_env \<Rightarrow> string \<Rightarrow> topic_id \<Rightarrow> 'w app_lane \<Rightarrow> 'w app_lane" where
  "merge_staged E name topicID l =
     (let pushes = or_else (map_of (al_staged l) name) [];
          frames = map snd (filter (\<lambda>push. fst push = topicID) pushes)
      in (set_frames name (fold (\<lambda>f fs. takeAppFrame (ae_durable E) fs f) frames (frames_of name l)) l)
           \<lparr> al_staged := AList.delete name (al_staged l) \<rparr>)"

definition loadOne :: "nat \<Rightarrow> 'w app_env \<Rightarrow> string \<Rightarrow> ('w, unit) app" where
  "loadOne n E name = and_then (laneFor E name) (\<lambda>c.
     and_then (change (\<lambda>l. if ac_topicID c \<in> set (al_retained l) then l
                           else l \<lparr> al_retained := al_retained l @ [ac_topicID c] \<rparr>)) (\<lambda>_.
     and_then (change (merge_staged E name (ac_topicID c))) (\<lambda>_.
     pull_pages n E name (ac_topicID c) (case ac_fetched c of None \<Rightarrow> ac_position c | Some f \<Rightarrow> Some f))))"

text \<open>\<^verbatim>\<open>Promise.allSettled\<close>: every task ends, then the first failure is raised.\<close>

primrec all_settled :: "('x \<Rightarrow> ('w, unit) app) \<Rightarrow> 'x list \<Rightarrow> app_error option \<Rightarrow> ('w, unit) app" where
  "all_settled task [] failure = (case failure of None \<Rightarrow> give () | Some e \<Rightarrow> fail e)"
| "all_settled task (x # xs) failure =
     and_then (catching (and_then (task x) (\<lambda>_. give failure)) (\<lambda>e. give (Some (or_else failure e))))
       (all_settled task xs)"

definition loadSegment :: "nat \<Rightarrow> 'w app_env \<Rightarrow> ('w, unit) app" where
  "loadSegment n E = all_settled (loadOne n E) (map fst (ae_protocols E)) None"

section \<open>The advance of the cursor\<close>

definition is_done :: "AppFrame \<Rightarrow> bool" where
  "is_done f \<longleftrightarrow> fa_sealed f = DoneFrame"

definition advanceCursor :: "'w app_env \<Rightarrow> string \<Rightarrow> ('w, unit) app" where
  "advanceCursor E name = reading (\<lambda>l. case map_of (al_cursors l) name of
       None \<Rightarrow> give ()
     | Some c \<Rightarrow>
        (let frames = frames_of name l;
             passed = takeWhile is_done frames;
             position = (if passed = [] then None else Some (fa_position (last passed)))
         in and_then (change (set_frames name (dropWhile is_done frames))) (\<lambda>_. case position of
              None \<Rightarrow> give ()
            | Some p \<Rightarrow> if ac_position c = Some p then give ()
                else and_then (change (set_cursor name (c \<lparr> ac_position := Some p \<rparr>)))
                       (\<lambda>_. save_cursor E (ac_topicID c) p))))"

primrec each_in_turn :: "('x \<Rightarrow> ('w, unit) app) \<Rightarrow> 'x list \<Rightarrow> ('w, unit) app" where
  "each_in_turn task [] = give ()"
| "each_in_turn task (x # xs) = and_then (task x) (\<lambda>_. each_in_turn task xs)"

section \<open>The drain\<close>

definition frame_at :: "string \<Rightarrow> sequence_id \<Rightarrow> 'w app_lane \<Rightarrow> AppFrame option" where
  "frame_at name position l = find (\<lambda>f. fa_position f = position) (frames_of name l)"

definition set_sealed :: "string \<Rightarrow> sequence_id \<Rightarrow> sealed_state \<Rightarrow> 'w app_lane \<Rightarrow> 'w app_lane" where
  "set_sealed name position s l = set_frames name
     (map (\<lambda>f. if fa_position f = position then f \<lparr> fa_sealed := s \<rparr> else f) (frames_of name l)) l"

definition frame_done :: "string \<Rightarrow> topic_id \<Rightarrow> sequence_id \<Rightarrow> ('w, unit) app" where
  "frame_done name topicID position =
     and_then (change (set_sealed name position DoneFrame)) (\<lambda>_. resumeBlocked topicID position)"

text \<open>The event an opened payload carries for the host, if it is one the protocol retains.\<close>

definition event_of ::
  "'w app_env \<Rightarrow> string \<Rightarrow> sequence_id \<Rightarrow> bytes \<Rightarrow> did \<Rightarrow> AppEmit option" where
  "event_of E name position payload sender =
     (if ae_normalizeDID E sender = ae_localDID E then None
      else case ae_parse E payload of
        None \<Rightarrow> None
      | Some m \<Rightarrow> (case (am_prc m, map_of (ae_protocols E) name) of
          (Some prc, Some protocol) \<Rightarrow>
            if am_typ m = Some ''event'' \<and> retentionOf_procedure protocol prc = LogRetention
            then Some \<lparr> em_protocol = name, em_prc = prc, em_data = or_else (am_data m) ''{}'',
                        em_senderDID = ae_normalizeDID E sender, em_position = position \<rparr>
            else None
        | _ \<Rightarrow> None))"

definition app_emit :: "'w app_env \<Rightarrow> AppEmit \<Rightarrow> ('w, bool) app" where
  "app_emit E e = and_then (outside (ae_emit E e)) (\<lambda>ok.
     and_then (change (\<lambda>l. l \<lparr> al_emits := al_emits l @ [e] \<rparr>)) (\<lambda>_. give ok))"

definition opened_frame ::
  "'w app_env \<Rightarrow> string \<Rightarrow> topic_id \<Rightarrow> sequence_id \<Rightarrow> AppFrameRef option \<Rightarrow> bytes \<Rightarrow> did \<Rightarrow> ('w, unit) app" where
  "opened_frame E name topicID position ref payload sender = (case ref of
       Some frame \<Rightarrow> change (\<lambda>l. (set_sealed name position (PendingID (fr_id frame)) l)
          \<lparr> al_pending := al_pending l @ [\<lparr> pf_frame = frame, pf_payload = payload, pf_senderDID = sender \<rparr>] \<rparr>)
     | None \<Rightarrow> and_then (frame_done name topicID position) (\<lambda>_.
         if \<not> ae_handled E name then give ()
         else case event_of E name position payload sender of
           None \<Rightarrow> give ()
         | Some e \<Rightarrow> and_then (app_emit E e) (\<lambda>_. give ())))"

definition bound_to :: "'w app_env \<Rightarrow> topic_id \<Rightarrow> bytes \<Rightarrow> bool" where
  "bound_to E topicID sealed = (case decodeAppAAD (or_else (ae_frameAAD E sealed) []) of
       None \<Rightarrow> False
     | Some aad \<Rightarrow> aad_topicID aad = topicID \<and> aad_intent aad = LogIntent)"

definition drain_sealed ::
  "'w app_env \<Rightarrow> string \<Rightarrow> AppCursor \<Rightarrow> sequence_id \<Rightarrow> bytes \<Rightarrow> ('w, unit) app" where
  "drain_sealed E name c position sealed =
     (let topicID = ac_topicID c in
      if ae_frameEpoch E sealed = None then frame_done name topicID position
      else if ae_durable E \<and> \<not> bound_to E topicID sealed then frame_done name topicID position
      else reading (\<lambda>l.
        let ref = (if ae_durable E
          then Some \<lparr> fr_id = app_frameID (ae_digest E) topicID sealed, fr_topicID = topicID, fr_protocol = name,
                      fr_segment = an_epoch (al_anchor l), fr_position = position \<rparr>
          else None)
        in case encodeAppAAD \<lparr> aad_topicID = topicID, aad_intent = LogIntent \<rparr> of
          None \<Rightarrow> frame_done name topicID position
        | Some expectedAAD \<Rightarrow> and_then (outside (ae_unwrap E sealed expectedAAD ref)) (\<lambda>answer. case answer of
             Opened payload sender \<Rightarrow> opened_frame E name topicID position ref payload sender
           | FrameAhead epoch \<Rightarrow>
               if ae_durable E then reportBlocked E name topicID position (Some FutureEpoch) else give ()
           | AppStorageFailed \<Rightarrow>
               if ae_durable E then and_then (reportBlocked E name topicID position None) (\<lambda>_. fail AppFrameStorageError)
               else frame_done name topicID position
           | OpenRefused \<Rightarrow> frame_done name topicID position)))"

definition drain_frame :: "'w app_env \<Rightarrow> string \<Rightarrow> AppCursor \<Rightarrow> sequence_id \<Rightarrow> ('w, unit) app" where
  "drain_frame E name c position = reading (\<lambda>l. case frame_at name position l of
       None \<Rightarrow> give ()
     | Some f \<Rightarrow> (case fa_sealed f of
         SealedBytes sealed \<Rightarrow> drain_sealed E name c position sealed
       | _ \<Rightarrow> give ()))"

definition drain_one :: "'w app_env \<Rightarrow> string \<Rightarrow> ('w, unit) app" where
  "drain_one E name = reading (\<lambda>l. case map_of (al_cursors l) name of
       None \<Rightarrow> give ()
     | Some c \<Rightarrow>
        if frames_of name l = [] \<or> (\<not> ae_handled E name \<and> \<not> ae_durable E) then give ()
        else and_then (each_in_turn (drain_frame E name c) (map fa_position (frames_of name l)))
               (\<lambda>_. advanceCursor E name))"

definition drainLane :: "nat \<Rightarrow> 'w app_env \<Rightarrow> ('w, unit) app" where
  "drainLane n E = and_then (loadSegment n E) (\<lambda>_.
     reading (\<lambda>l. each_in_turn (drain_one E) (map fst (al_segment l))))"

section \<open>Live pushes\<close>

definition sync :: "nat \<Rightarrow> 'w app_env \<Rightarrow> ('w, unit) app" where
  "sync n E = and_then (change (\<lambda>l. l \<lparr> al_syncScheduled := False \<rparr>)) (\<lambda>_.
     catching (and_then (loadSegment n E) (\<lambda>_. reading (\<lambda>l. each_in_turn (advanceCursor E) (map fst (al_segment l)))))
       (\<lambda>_. give ()))"

definition note_push :: "'w app_env \<Rightarrow> string \<Rightarrow> topic_id \<Rightarrow> StoredMessage \<Rightarrow> bool \<Rightarrow> 'w app_lane \<Rightarrow> 'w app_lane" where
  "note_push E name topicID m ahead l = (case sm_logPosition m of
       None \<Rightarrow> l
     | Some position \<Rightarrow>
        if ae_durable E then l \<lparr> al_syncScheduled := True \<rparr>
        else l \<lparr> al_staged := AList.update name (or_else (map_of (al_staged l) name) []
                   @ [(topicID, \<lparr> fa_position = position,
                                  fa_sealed = (if ahead then SealedBytes (sm_payload m) else DoneFrame) \<rparr>)])
                   (al_staged l),
                 al_syncScheduled := True \<rparr>)"

section \<open>Durable records and their workers\<close>

definition sort_records :: "PendingAppFrame list \<Rightarrow> PendingAppFrame list" where
  "sort_records rs = sort_key (fr_segment \<circ> pf_frame) (sort_key (fr_position \<circ> pf_frame) rs)"

definition orderedRecords :: "string \<Rightarrow> 'w app_lane \<Rightarrow> PendingAppFrame list" where
  "orderedRecords name l = sort_records (filter (\<lambda>r. fr_protocol (pf_frame r) = name) (al_pending l))"

definition blockedByEarlierSealed :: "PendingAppFrame \<Rightarrow> 'w app_lane \<Rightarrow> bool" where
  "blockedByEarlierSealed r l = (let frame = pf_frame r in
     case map_of (al_cursors l) (fr_protocol frame) of
       None \<Rightarrow> False
     | Some c \<Rightarrow> ac_topicID c = fr_topicID frame \<and>
         (\<exists>f \<in> set (frames_of (fr_protocol frame) l). fa_position f < fr_position frame \<and>
            (case fa_sealed f of SealedBytes _ \<Rightarrow> True | _ \<Rightarrow> False)))"

text \<open>\<^verbatim>\<open>splice(findIndex(...), 1)\<close>: the first record with the id.\<close>

fun remove_record :: "string \<Rightarrow> PendingAppFrame list \<Rightarrow> PendingAppFrame list" where
  "remove_record i [] = []"
| "remove_record i (r # rs) = (if fr_id (pf_frame r) = i then rs else r # remove_record i rs)"

definition settle_record :: "'w app_env \<Rightarrow> PendingAppFrame \<Rightarrow> ('w, unit) app" where
  "settle_record E r = (let frame = pf_frame r in
     and_then (change (\<lambda>l. l \<lparr> al_pending := remove_record (fr_id frame) (al_pending l) \<rparr>)) (\<lambda>_.
     and_then (resumeBlocked (fr_topicID frame) (fr_position frame)) (\<lambda>_.
     and_then (resumeUnknown r) (\<lambda>_.
     reading (\<lambda>l. case map_of (al_cursors l) (fr_protocol frame) of
         None \<Rightarrow> give ()
       | Some c \<Rightarrow>
          if ac_topicID c \<noteq> fr_topicID frame \<or> map_of (al_segment l) (fr_protocol frame) = None then give ()
          else and_then (change (\<lambda>l. if map_option fa_sealed (frame_at (fr_protocol frame) (fr_position frame) l)
                                        = Some (PendingID (fr_id frame))
                                     then set_sealed (fr_protocol frame) (fr_position frame) DoneFrame l else l))
                 (\<lambda>_. advanceCursor E (fr_protocol frame)))))))"

definition finishRecord :: "'w app_env \<Rightarrow> PendingAppFrame \<Rightarrow> ('w, unit) app" where
  "finishRecord E r = reading (\<lambda>l. if al_disposed l then give ()
     else and_then (outside (ae_complete E (fr_id (pf_frame r)))) (\<lambda>ok.
       if \<not> ok then fail AppHostError
       else reading (\<lambda>l. if al_disposed l then give () else settle_record E r)))"

definition deliverRecord :: "'w app_env \<Rightarrow> PendingAppFrame \<Rightarrow> ('w, unit) app" where
  "deliverRecord E r = (let frame = pf_frame r in reading (\<lambda>l.
     if al_disposed l \<or> map_of (ae_protocols E) (fr_protocol frame) = None then give ()
     else and_then
       (case (if ae_handled E (fr_protocol frame)
              then event_of E (fr_protocol frame) (fr_position frame) (pf_payload r) (pf_senderDID r) else None) of
          None \<Rightarrow> give True
        | Some e \<Rightarrow> app_emit E e) (\<lambda>ok.
       if \<not> ok then fail AppHostError
       else reading (\<lambda>l. if al_disposed l then give () else finishRecord E r))))"

text \<open>A turn of a worker ends the loop, goes on, or fails.\<close>

datatype worker_turn = WorkerStops | WorkerGoesOn | WorkerFails

definition workerTurn :: "'w app_env \<Rightarrow> string \<Rightarrow> ('w, worker_turn) app" where
  "workerTurn E name = reading (\<lambda>l.
     if al_disposed l then give WorkerStops
     else case orderedRecords name l of
       [] \<Rightarrow> give WorkerStops
     | r # _ \<Rightarrow>
        if map_of (ae_protocols E) (fr_protocol (pf_frame r)) = None \<or> blockedByEarlierSealed r l then give WorkerStops
        else catching (and_then (deliverRecord E r) (\<lambda>_. give WorkerGoesOn)) (\<lambda>_. give WorkerFails))"

definition new_worker :: app_worker where
  "new_worker = \<lparr> wk_running = False, wk_requested = False, wk_retryNow = False, wk_backoff = 1000, wk_timer = None \<rparr>"

definition set_worker :: "string \<Rightarrow> app_worker \<Rightarrow> 'w app_lane \<Rightarrow> 'w app_lane" where
  "set_worker name k l = l \<lparr> al_workers := AList.update name k (al_workers l) \<rparr>"

definition scheduleWorker :: "'w app_env \<Rightarrow> string \<Rightarrow> nat \<Rightarrow> 'w app_lane \<Rightarrow> 'w app_lane" where
  "scheduleWorker E name delay l =
     (if al_disposed l \<or> \<not> ae_durable E then l
      else let k = (or_else (map_of (al_workers l) name) new_worker) \<lparr> wk_requested := True \<rparr> in
        set_worker name (if wk_running k \<or> wk_timer k \<noteq> None then k else k \<lparr> wk_timer := Some delay \<rparr>) l)"

definition workerFires :: "string \<Rightarrow> 'w app_lane \<Rightarrow> 'w app_lane" where
  "workerFires name l = (case map_of (al_workers l) name of
       None \<Rightarrow> l
     | Some k \<Rightarrow> if al_disposed l then l
         else set_worker name (k \<lparr> wk_timer := None, wk_running := True, wk_requested := False \<rparr>) l)"

definition workerDelivered :: "string \<Rightarrow> 'w app_lane \<Rightarrow> 'w app_lane" where
  "workerDelivered name l = (case map_of (al_workers l) name of
       None \<Rightarrow> l
     | Some k \<Rightarrow> set_worker name (k \<lparr> wk_backoff := 1000 \<rparr>) l)"

definition workerEnds :: "'w app_env \<Rightarrow> string \<Rightarrow> bool \<Rightarrow> 'w app_lane \<Rightarrow> 'w app_lane" where
  "workerEnds E name failed l = (case map_of (al_workers l) name of
       None \<Rightarrow> l
     | Some k \<Rightarrow> (let k = k \<lparr> wk_running := False \<rparr> in
         if wk_retryNow k then scheduleWorker E name 0 (set_worker name (k \<lparr> wk_retryNow := False \<rparr>) l)
         else if failed then
           scheduleWorker E name (wk_backoff k) (set_worker name (k \<lparr> wk_backoff := min (wk_backoff k * 2) 60000 \<rparr>) l)
         else if wk_requested k then scheduleWorker E name 0 (set_worker name k l)
         else set_worker name k l))"

definition retryOne :: "'w app_env \<Rightarrow> topic_id option \<Rightarrow> string \<Rightarrow> 'w app_lane \<Rightarrow> 'w app_lane" where
  "retryOne E topicID name l =
     (if (case topicID of None \<Rightarrow> False | Some t \<Rightarrow>
            map_option ac_topicID (map_of (al_cursors l) name) \<noteq> Some t \<and>
            \<not> (\<exists>r \<in> set (al_pending l). fr_protocol (pf_frame r) = name \<and> fr_topicID (pf_frame r) = t))
      then l
      else scheduleWorker E name 0 (case map_of (al_workers l) name of
          None \<Rightarrow> l
        | Some k \<Rightarrow> set_worker name (k \<lparr> wk_backoff := 1000, wk_retryNow := wk_running k, wk_timer := None \<rparr>) l))"

definition retryDelivery :: "'w app_env \<Rightarrow> topic_id option \<Rightarrow> 'w app_lane \<Rightarrow> 'w app_lane" where
  "retryDelivery E topicID l = (if al_disposed l then l
     else fold (retryOne E topicID)
       (remdups (map fst (al_workers l) @ map (\<lambda>r. fr_protocol (pf_frame r)) (al_pending l))) l)"

section \<open>The operations of the lane\<close>

definition deliver_records :: "'w app_env \<Rightarrow> ('w, unit) app" where
  "deliver_records E = reading (\<lambda>l. if \<not> ae_durable E \<or> al_disposed l then give ()
     else and_then (each_in_turn (reportUnknown E) (al_pending l)) (\<lambda>_.
       change (fold (\<lambda>name. scheduleWorker E name 0) (remdups (map (\<lambda>r. fr_protocol (pf_frame r)) (al_pending l))))))"

text \<open>The \<^verbatim>\<open>finally\<close> of a delivery runs whether the drain failed or not.\<close>

definition deliverLane :: "nat \<Rightarrow> 'w app_env \<Rightarrow> ('w, unit) app" where
  "deliverLane n E = and_then (catching (and_then (drainLane n E) (\<lambda>_. give None)) (\<lambda>e. give (Some e))) (\<lambda>failure.
     and_then (deliver_records E) (\<lambda>_. case failure of None \<Rightarrow> give () | Some e \<Rightarrow> fail e))"

definition unknown_record :: "'w app_env \<Rightarrow> topic_id \<Rightarrow> sequence_id \<Rightarrow> 'w app_lane \<Rightarrow> PendingAppFrame option" where
  "unknown_record E topicID position l = find (\<lambda>r. map_of (ae_protocols E) (fr_protocol (pf_frame r)) = None \<and>
     fr_topicID (pf_frame r) = topicID \<and> fr_position (pf_frame r) = position) (al_pending l)"

definition drop_buffered :: "'w app_env \<Rightarrow> topic_id \<Rightarrow> sequence_id \<Rightarrow> ('w, unit) app" where
  "drop_buffered E topicID position = reading (\<lambda>l. case find (\<lambda>(_, c). ac_topicID c = topicID) (al_cursors l) of
       None \<Rightarrow> fail AppFrameNotBuffered
     | Some (name, _) \<Rightarrow> (case frame_at name position l of
         None \<Rightarrow> fail AppFrameNotBuffered
       | Some f \<Rightarrow> (case fa_sealed f of
           PendingID _ \<Rightarrow> fail AppFrameIsPending
         | DoneFrame \<Rightarrow> fail AppFrameAlreadyDone
         | SealedBytes _ \<Rightarrow>
            if \<exists>x \<in> set (frames_of name l). fa_position x < position \<and> \<not> is_done x then fail EarlierFrameBlocks
            else and_then (frame_done name topicID position) (\<lambda>_. advanceCursor E name))))"

definition dropFrame :: "'w app_env \<Rightarrow> topic_id \<Rightarrow> sequence_id \<Rightarrow> ('w, unit) app" where
  "dropFrame E topicID position = reading (\<lambda>l.
     if \<not> ae_durable E then fail DurableDeliveryDisabled
     else case unknown_record E topicID position l of
       Some r \<Rightarrow> and_then (outside (ae_complete E (fr_id (pf_frame r)))) (\<lambda>ok.
         if \<not> ok then fail AppHostError
         else and_then (change (\<lambda>l. l \<lparr> al_pending := remove1 r (al_pending l) \<rparr>)) (\<lambda>_. resumeUnknown r))
     | None \<Rightarrow> drop_buffered E topicID position)"

definition restore_one :: "'w app_env \<Rightarrow> PendingAppFrame \<Rightarrow> ('w, unit) app" where
  "restore_one E r = and_then (reportUnknown E r) (\<lambda>_.
     change (\<lambda>l. if \<exists>x \<in> set (al_pending l). fr_id (pf_frame x) = fr_id (pf_frame r) then l
                 else l \<lparr> al_pending := al_pending l @ [r] \<rparr>))"

definition restore :: "'w app_env \<Rightarrow> PendingAppFrame list \<Rightarrow> ('w, unit) app" where
  "restore E records = and_then (each_in_turn (restore_one E) records) (\<lambda>_.
     change (\<lambda>l. l \<lparr> al_pending := sort_records (al_pending l) \<rparr>))"

definition disposeLane :: "'w app_lane \<Rightarrow> 'w app_lane" where
  "disposeLane l = l \<lparr> al_disposed := True, al_workers := map (\<lambda>(name, k). (name, k \<lparr> wk_timer := None \<rparr>)) (al_workers l) \<rparr>"

definition resetLane :: "'w app_lane \<Rightarrow> 'w app_lane" where
  "resetLane l = l \<lparr> al_blocking := [], al_segment := [], al_cursors := [], al_staged := [], al_retained := [],
     al_notices := (if al_disposed l then al_notices l else al_notices l @ map (Resumed \<circ> snd) (al_blocking l)) \<rparr>"

end
