(* ===== verification/App_Inv.thy ===== *)
theory App_Inv
  imports App_Drain
begin

text \<open>
  The buffer of the lane: whatever the two deliverers bring, in whatever order, it holds one frame per position
  and in the order of the log. \<open>steady\<close> collects the actions that keep that.
\<close>

named_theorems steady \<open>actions that keep the buffers of the lane in order\<close>

section \<open>Taking a frame in\<close>

definition positions :: "AppFrame list \<Rightarrow> sequence_id list" where
  "positions fs = map fa_position fs"

definition log_order :: "AppFrame list \<Rightarrow> bool" where
  "log_order fs \<longleftrightarrow> sorted_wrt (<) (positions fs)"

lemma log_order_Nil [simp]: "log_order []"
  by (simp add: log_order_def positions_def)

lemma log_order_Cons [simp]: "log_order (f # fs) \<longleftrightarrow> (\<forall>x \<in> set fs. fa_position f < fa_position x) \<and> log_order fs"
  by (auto simp: log_order_def positions_def)

lemma log_order_append:
  "log_order (fs @ gs) \<longleftrightarrow> log_order fs \<and> log_order gs \<and> (\<forall>x \<in> set fs. \<forall>y \<in> set gs. fa_position x < fa_position y)"
  by (auto simp: log_order_def positions_def sorted_wrt_append)

lemma log_order_map: "(\<And>f. f \<in> set fs \<Longrightarrow> fa_position (g f) = fa_position f) \<Longrightarrow> log_order (map g fs) = log_order fs"
  by (simp add: log_order_def positions_def comp_def cong: map_cong)

lemma log_order_drop: "log_order fs \<Longrightarrow> log_order (dropWhile P fs)"
  using takeWhile_dropWhile_id [of P fs] log_order_append by metis

lemma log_order_last: "log_order fs \<Longrightarrow> f \<in> set fs \<Longrightarrow> fa_position f \<le> fa_position (last fs)"
  by (induction fs) (auto intro: less_imp_le)

lemma split_later:
  assumes "log_order fs"
  obtains front past where "fs = front @ past" "\<forall>f \<in> set past. p < fa_position f"
    "\<forall>f \<in> set front. fa_position f \<le> p"
    "rev (dropWhile (\<lambda>f. p < fa_position f) (rev fs)) = front"
    "rev (takeWhile (\<lambda>f. p < fa_position f) (rev fs)) = past"
proof -
  let ?later = "\<lambda>f. p < fa_position f"
  let ?front = "rev (dropWhile ?later (rev fs))" and ?past = "rev (takeWhile ?later (rev fs))"
  have eq: "fs = ?front @ ?past"
    by (metis rev_append rev_rev_ident takeWhile_dropWhile_id)
  have "fa_position f \<le> p" if "f \<in> set ?front" for f
  proof (cases "?front = []")
    case False
    then have "\<not> ?later (last ?front)"
      by (metis hd_dropWhile hd_rev last_rev rev_is_Nil_conv)
    moreover have "fa_position f \<le> fa_position (last ?front)"
      using assms eq that False log_order_append by (intro log_order_last) (metis, simp_all)
    ultimately show ?thesis by simp
  next
    case True
    with that show ?thesis by (metis empty_iff empty_set)
  qed
  then show ?thesis
    using that [of ?front ?past] eq by (auto dest: set_takeWhileD)
qed

lemma takeAppFrame_order:
  assumes "log_order fs"
  shows "log_order (takeAppFrame durable fs f)"
    and "set (positions (takeAppFrame durable fs f)) = insert (fa_position f) (set (positions fs))"
proof -
  obtain front past where fs: "fs = front @ past" and later: "\<forall>x \<in> set past. fa_position f < fa_position x"
    and front: "\<forall>x \<in> set front. fa_position x \<le> fa_position f"
    and e: "rev (dropWhile (\<lambda>x. fa_position f < fa_position x) (rev fs)) = front"
      "rev (takeWhile (\<lambda>x. fa_position f < fa_position x) (rev fs)) = past"
    using split_later [OF assms] by blast
  let ?merged = "(last front) \<lparr> fa_sealed := merged_state durable (fa_sealed (last front)) (fa_sealed f) \<rparr>"
  have o: "log_order front" "log_order past" using assms fs log_order_append by auto
  have take: "takeAppFrame durable fs f = (if front \<noteq> [] \<and> fa_position (last front) = fa_position f
      then butlast front @ ?merged # past else front @ f # past)"
    unfolding takeAppFrame_def Let_def e ..
  show "log_order (takeAppFrame durable fs f)"
  proof (cases "front \<noteq> [] \<and> fa_position (last front) = fa_position f")
    case True
    then have "log_order (butlast front @ last front # past)"
      using assms fs by (metis append.assoc append_Cons append_Nil append_butlast_last_id)
    with True show ?thesis unfolding take by (simp add: log_order_append)
  next
    case False
    have "fa_position x < fa_position f" if "x \<in> set front" for x
    proof (rule ccontr)
      assume "\<not> fa_position x < fa_position f"
      moreover have "fa_position x \<le> fa_position f" using front that by blast
      ultimately have x: "fa_position x = fa_position f" by simp
      have ne: "front \<noteq> []" using that by auto
      then have "log_order (butlast front @ [last front])" "x \<in> set (butlast front @ [last front])"
        using o(1) that by simp_all
      then have "x = last front \<or> fa_position x < fa_position (last front)"
        by (auto simp: log_order_append)
      moreover have "fa_position (last front) \<le> fa_position f" using front ne by simp
      ultimately show False using x False ne by auto
    qed
    moreover have "\<forall>x \<in> set front. \<forall>y \<in> set past. fa_position x < fa_position y"
      using assms unfolding fs log_order_append by blast
    ultimately show ?thesis
      using o later unfolding take if_not_P [OF False] by (auto simp: log_order_append)
  qed
  show "set (positions (takeAppFrame durable fs f)) = insert (fa_position f) (set (positions fs))"
  proof (cases "front \<noteq> [] \<and> fa_position (last front) = fa_position f")
    case True
    then have "set front = insert (last front) (set (butlast front))"
      by (metis append_butlast_last_id list.simps(15) rotate1.simps(2) set_rotate1)
    with True fs show ?thesis unfolding take if_P [OF True] by (auto simp: positions_def)
  next
    case False
    with fs show ?thesis unfolding take if_not_P [OF False] by (auto simp: positions_def)
  qed
qed

section \<open>The invariant of the buffers\<close>

definition lane_ok :: "'w app_lane \<Rightarrow> bool" where
  "lane_ok l \<longleftrightarrow> distinct (map fst (al_segment l)) \<and> distinct (map fst (al_cursors l)) \<and>
     (\<forall>fs \<in> snd ` set (al_segment l). log_order fs)"

definition keeping :: "('w, 'a) app \<Rightarrow> bool" where
  "keeping m \<longleftrightarrow> (\<forall>l. lane_ok l \<longrightarrow> lane_ok (snd (m l)))"

lemma frames_of_order: "lane_ok l \<Longrightarrow> log_order (frames_of name l)"
  by (cases "map_of (al_segment l) name") (force simp: frames_of_def lane_ok_def dest: map_of_SomeD)+

lemma update_entries: "x \<in> set (AList.update k v xs) \<Longrightarrow> x = (k, v) \<or> x \<in> set xs"
  by (induction xs) (auto split: if_splits)

lemma set_frames_ok: "lane_ok l \<Longrightarrow> log_order fs \<Longrightarrow> lane_ok (set_frames name fs l)"
  by (auto simp: lane_ok_def set_frames_def distinct_update dest: update_entries)

lemma keeping_give [steady]: "keeping (give x)"
  by (simp add: keeping_def give_def)

lemma keeping_fail [steady]: "keeping (fail e)"
  by (simp add: keeping_def fail_def)

lemma keeping_and_then [steady]: "keeping m \<Longrightarrow> (\<And>x. keeping (f x)) \<Longrightarrow> keeping (and_then m f)"
  by (auto simp: keeping_def and_then_def split: prod.splits sum.splits)

lemma keeping_catching [steady]: "keeping m \<Longrightarrow> (\<And>e. keeping (h e)) \<Longrightarrow> keeping (catching m h)"
  by (auto simp: keeping_def catching_def split: prod.splits sum.splits)

lemma keeping_reading [steady]: "(\<And>l. lane_ok l \<Longrightarrow> keeping (f l)) \<Longrightarrow> keeping (reading f)"
  by (simp add: keeping_def reading_def)

lemma keeping_change: "(\<And>l. lane_ok l \<Longrightarrow> lane_ok (g l)) \<Longrightarrow> keeping (change g)"
  by (simp add: keeping_def change_def)

lemma keeping_if [steady]: "(b \<Longrightarrow> keeping m) \<Longrightarrow> (\<not> b \<Longrightarrow> keeping m') \<Longrightarrow> keeping (if b then m else m')"
  by simp

lemma keeping_option [steady]:
  "(x = None \<Longrightarrow> keeping m) \<Longrightarrow> (\<And>y. x = Some y \<Longrightarrow> keeping (f y)) \<Longrightarrow> keeping (case x of None \<Rightarrow> m | Some y \<Rightarrow> f y)"
  by (cases x) simp_all

lemma keeping_sum [steady]:
  "(\<And>a. keeping (f a)) \<Longrightarrow> (\<And>b. keeping (g b)) \<Longrightarrow> keeping (case x of Inl a \<Rightarrow> f a | Inr b \<Rightarrow> g b)"
  by (cases x) simp_all

lemma keeping_pair [steady]: "(\<And>a b. keeping (f a b)) \<Longrightarrow> keeping (case x of (a, b) \<Rightarrow> f a b)"
  by (cases x) simp

lemma keeping_outside [steady]: "keeping (outside call)"
  by (simp add: keeping_def outside_def lane_ok_def split: prod.splits)

text \<open>A change of what is neither buffer nor cursor.\<close>

lemma keeping_elsewhere:
  "(\<And>l. al_segment (g l) = al_segment l \<and> al_cursors (g l) = al_cursors l) \<Longrightarrow> keeping (change g)"
  by (rule keeping_change) (simp add: lane_ok_def)


section \<open>Every operation keeps it\<close>

lemma lane_ok_cursor: "lane_ok l \<Longrightarrow> lane_ok (set_cursor name c l)"
  by (simp add: lane_ok_def set_cursor_def distinct_update)

lemma set_sealed_ok: "lane_ok l \<Longrightarrow> lane_ok (set_sealed name position s l)"
  unfolding set_sealed_def by (intro set_frames_ok, assumption) (simp add: log_order_map frames_of_order)

lemma take_message_ok: "lane_ok l \<Longrightarrow> lane_ok (take_message E name topicID m l)"
  unfolding take_message_def by (intro set_frames_ok, assumption) (rule takeAppFrame_order(1) [OF frames_of_order])

lemma take_messages_ok: "lane_ok l \<Longrightarrow> lane_ok (fold (take_message E name topicID) ms l)"
  by (induction ms arbitrary: l) (simp_all add: take_message_ok)

lemma fold_take_order: "log_order fs \<Longrightarrow> log_order (fold (\<lambda>f fs. takeAppFrame durable fs f) gs fs)"
  by (induction gs arbitrary: fs) (simp_all add: takeAppFrame_order)

lemma lane_ok_elsewhere:
  "lane_ok l \<Longrightarrow> al_segment l' = al_segment l \<Longrightarrow> al_cursors l' = al_cursors l \<Longrightarrow> lane_ok l'"
  by (simp add: lane_ok_def)

lemma merge_staged_ok: "lane_ok l \<Longrightarrow> lane_ok (merge_staged E name topicID l)"
  unfolding merge_staged_def Let_def
  by (rule lane_ok_elsewhere [OF set_frames_ok]) (simp_all add: fold_take_order frames_of_order)

lemma keeping_set_cursor [steady]: "keeping (change (set_cursor name c))"
  by (rule keeping_change) (rule lane_ok_cursor)

lemma keeping_outcome [steady]:
  "keeping m \<Longrightarrow> keeping m' \<Longrightarrow> keeping m'' \<Longrightarrow>
     keeping (case r of Done \<Rightarrow> m | Rejected \<Rightarrow> m' | RejectedLate \<Rightarrow> m'')"
  by (cases r) simp_all

lemma keeping_load_cursor [steady]: "keeping (load_cursor E topicID)"
  unfolding load_cursor_def by (intro steady)

lemma keeping_save_cursor [steady]: "keeping (save_cursor E topicID position)"
  unfolding save_cursor_def Let_def by (intro steady; rule keeping_elsewhere; simp)

lemma keeping_app_notify [steady]: "keeping (app_notify n)"
  unfolding app_notify_def by (rule keeping_elsewhere) simp

lemma keeping_resumeBlocked [steady]: "keeping (resumeBlocked topicID position)"
  unfolding resumeBlocked_def by (intro steady; rule keeping_elsewhere; simp)

lemma keeping_resumeUnknown [steady]: "keeping (resumeUnknown r)"
  unfolding resumeUnknown_def by (intro steady; rule keeping_elsewhere; simp)

lemma keeping_reportBlocked [steady]: "keeping (reportBlocked E name topicID position reason)"
  unfolding reportBlocked_def Let_def by (intro steady; rule keeping_elsewhere; simp)

lemma keeping_reportUnknown [steady]: "keeping (reportUnknown E r)"
  unfolding reportUnknown_def Let_def by (intro steady; rule keeping_elsewhere; simp)

lemma keeping_reportPrunedWindow [steady]: "keeping (reportPrunedWindow E name topicID cursor oldest)"
  unfolding reportPrunedWindow_def by (intro steady; rule keeping_elsewhere; simp)

lemma keeping_laneFor [steady]: "keeping (laneFor E name)"
  unfolding laneFor_def Let_def
  by (intro steady; rule keeping_change; simp add: set_frames_ok)

lemma set_fetched_ok: "lane_ok l \<Longrightarrow> lane_ok (set_fetched name after l)"
  by (simp add: set_fetched_def lane_ok_cursor split: option.splits)

lemma keeping_pull_pages [steady]: "keeping (pull_pages n E name topicID after)"
proof (induction n arbitrary: after)
  case (Suc n)
  show ?case
    unfolding pull_pages.simps Let_def
    by (intro steady Suc.IH; rule keeping_change; simp add: set_fetched_ok take_messages_ok)
qed (simp add: steady)

lemma keeping_loadOne [steady]: "keeping (loadOne n E name)"
  unfolding loadOne_def
  by (intro steady; rule keeping_change; simp add: merge_staged_ok lane_ok_elsewhere)

lemma keeping_all_settled [steady]: "(\<And>x. keeping (task x)) \<Longrightarrow> keeping (all_settled task xs failure)"
  by (induction xs arbitrary: failure) (simp_all add: steady)

lemma keeping_loadSegment [steady]: "keeping (loadSegment n E)"
  unfolding loadSegment_def by (intro steady)

lemma keeping_advanceCursor [steady]: "keeping (advanceCursor E name)"
proof -
  have "keeping (advanceCursor E name :: ('w, unit) app)" for E :: "'w app_env"
    unfolding keeping_def
  proof (intro allI impI)
    fix l :: "'w app_lane" assume ok: "lane_ok l"
    then have o: "log_order (dropWhile is_done (frames_of name l))"
      by (intro log_order_drop frames_of_order)
    have k: "keeping (and_then (change (set_frames name (dropWhile is_done (frames_of name l)))) f)"
      if "\<And>x. keeping (f x)" for f :: "unit \<Rightarrow> ('w, unit) app"
      using that o by (intro steady keeping_change set_frames_ok)
    show "lane_ok (snd (advanceCursor E name l))"
      unfolding advanceCursor_def reading_def Let_def
      by (rule keeping_def [THEN iffD1, rule_format, OF _ ok])
         (intro steady k)
  qed
  then show ?thesis .
qed

lemma keeping_each [steady]: "(\<And>x. keeping (task x)) \<Longrightarrow> keeping (each_in_turn task xs)"
  by (induction xs) (simp_all add: steady)

lemma keeping_set_sealed [steady]: "keeping (change (set_sealed name position s))"
  by (rule keeping_change) (rule set_sealed_ok)

lemma keeping_frame_done [steady]: "keeping (frame_done name topicID position)"
  unfolding frame_done_def by (intro steady)

lemma keeping_app_emit [steady]: "keeping (app_emit E e)"
  unfolding app_emit_def by (intro steady; rule keeping_elsewhere; simp)

lemma keeping_opened_frame [steady]: "keeping (opened_frame E name topicID position ref payload sender)"
  unfolding opened_frame_def
  by (intro steady; rule keeping_change; rule lane_ok_elsewhere [OF set_sealed_ok]; simp)

lemma keeping_answer [steady]:
  "(\<And>p s. keeping (f p s)) \<Longrightarrow> (\<And>n. keeping (g n)) \<Longrightarrow> keeping a \<Longrightarrow> keeping b \<Longrightarrow>
   keeping (case x of Opened p s \<Rightarrow> f p s | FrameAhead n \<Rightarrow> g n | AppStorageFailed \<Rightarrow> a | OpenRefused \<Rightarrow> b)"
  by (cases x) simp_all

lemma keeping_sealed_state [steady]:
  "(\<And>b. keeping (f b)) \<Longrightarrow> (\<And>i. keeping (g i)) \<Longrightarrow> keeping a \<Longrightarrow>
   keeping (case x of SealedBytes b \<Rightarrow> f b | PendingID i \<Rightarrow> g i | DoneFrame \<Rightarrow> a)"
  by (cases x) simp_all

lemma keeping_drain_sealed [steady]: "keeping (drain_sealed E name c position sealed)"
  unfolding drain_sealed_def Let_def by (intro steady)

lemma keeping_drain_frame [steady]: "keeping (drain_frame E name c position)"
  unfolding drain_frame_def by (intro steady)

lemma keeping_drain [steady]: "keeping (drain_one E name)" "keeping (drainLane n E)"
proof -
  show one: "keeping (drain_one E name)" for name
    unfolding drain_one_def by (intro steady)
  show "keeping (drainLane n E)"
    unfolding drainLane_def by (intro steady one)
qed

lemma keeping_sync [steady]: "keeping (sync n E)"
  unfolding sync_def by (intro steady; rule keeping_elsewhere; simp)

lemma keeping_settle_record [steady]: "keeping (settle_record E r)"
  unfolding settle_record_def Let_def
  by (intro steady; (rule keeping_elsewhere, simp; fail)?; rule keeping_change; simp add: set_sealed_ok)

lemma keeping_finishRecord [steady]: "keeping (finishRecord E r)"
  unfolding finishRecord_def by (intro steady)

lemma keeping_deliverRecord [steady]: "keeping (deliverRecord E r)"
  unfolding deliverRecord_def Let_def by (intro steady)

lemma keeping_list [steady]:
  "keeping m \<Longrightarrow> (\<And>y ys. keeping (f y ys)) \<Longrightarrow> keeping (case xs of [] \<Rightarrow> m | y # ys \<Rightarrow> f y ys)"
  by (cases xs) simp_all

lemma keeping_workerTurn [steady]: "keeping (workerTurn E name)"
  unfolding workerTurn_def by (intro steady)

lemma scheduleWorker_fields [simp]:
  "al_segment (scheduleWorker E name delay l) = al_segment l"
  "al_cursors (scheduleWorker E name delay l) = al_cursors l"
  "al_saved (scheduleWorker E name delay l) = al_saved l"
  "al_staged (scheduleWorker E name delay l) = al_staged l"
  "al_pending (scheduleWorker E name delay l) = al_pending l"
  by (simp_all add: scheduleWorker_def set_worker_def Let_def)

lemma fold_scheduleWorker [simp]:
  "al_segment (fold (\<lambda>name. scheduleWorker E name 0) names l) = al_segment l"
  "al_cursors (fold (\<lambda>name. scheduleWorker E name 0) names l) = al_cursors l"
  "al_saved (fold (\<lambda>name. scheduleWorker E name 0) names l) = al_saved l"
  "al_staged (fold (\<lambda>name. scheduleWorker E name 0) names l) = al_staged l"
  by (induction names arbitrary: l) simp_all

lemma keeping_deliver [steady]: "keeping (deliver_records E)" "keeping (deliverLane n E)"
proof -
  show records: "keeping (deliver_records E)"
    unfolding deliver_records_def by (intro steady; rule keeping_elsewhere; simp)
  show "keeping (deliverLane n E)"
    unfolding deliverLane_def by (intro steady records)
qed

lemma keeping_drop_buffered [steady]: "keeping (drop_buffered E topicID position)"
  unfolding drop_buffered_def by (intro steady)

lemma keeping_dropFrame [steady]: "keeping (dropFrame E topicID position)"
  unfolding dropFrame_def by (intro steady; rule keeping_elsewhere; simp)

lemma keeping_restore [steady]: "keeping (restore E records)"
  unfolding restore_def restore_one_def by (intro steady; rule keeping_elsewhere; simp)

lemma lane_ok_plain:
  assumes "lane_ok l"
  shows "lane_ok (note_push E name topicID m ahead l)" "lane_ok (scheduleWorker E name delay l)"
    "lane_ok (workerFires name l)" "lane_ok (workerDelivered name l)" "lane_ok (workerEnds E name failed l)"
    "lane_ok (retryDelivery E t l)" "lane_ok (disposeLane l)" "lane_ok (resetLane l)"
proof -
  show "lane_ok (note_push E name topicID m ahead l)"
    using assms by (simp add: note_push_def lane_ok_def split: option.splits)
  show "lane_ok (scheduleWorker E name delay l)"
    using assms by (simp add: lane_ok_def)
  show "lane_ok (workerFires name l)" "lane_ok (workerDelivered name l)" "lane_ok (workerEnds E name failed l)"
    using assms by (simp_all add: workerFires_def workerDelivered_def workerEnds_def set_worker_def Let_def lane_ok_def split: option.splits)
  have "lane_ok (retryOne E t name l')" if "lane_ok l'" for name l'
    using that by (simp add: retryOne_def set_worker_def lane_ok_def split: option.splits)
  then have "lane_ok (fold (retryOne E t) names l')" if "lane_ok l'" for names l'
    using that by (induction names arbitrary: l') simp_all
  with assms show "lane_ok (retryDelivery E t l)" by (simp add: retryDelivery_def)
  show "lane_ok (disposeLane l)" "lane_ok (resetLane l)"
    using assms by (simp_all add: disposeLane_def resetLane_def lane_ok_def)
qed

end
