(* ===== verification/App_Runs.thy ===== *)
theory App_Runs
  imports App_Inv
begin

text \<open>
  Runs of the application lane: any sequence of its operations, each under the lane's mutex, with the moves of
  the anchor, after each of which the peer resets the lane. Over such runs the buffers stay in order, and in the
  durable mode, where only pulls fill them, the host's durable read positions only move forward.
\<close>

section \<open>Runs\<close>

datatype app_op =
    DeliverOp nat
  | SyncOp nat
  | PushOp string topic_id StoredMessage bool
  | DropOp topic_id sequence_id
  | TurnOp string
  | RestoreOp "PendingAppFrame list"
  | RetryOp "topic_id option"
  | MoveAnchorOp Anchor
  | DisposeOp

fun apply_op :: "'w app_env \<Rightarrow> app_op \<Rightarrow> 'w app_lane \<Rightarrow> 'w app_lane" where
  "apply_op E (DeliverOp n) l = snd (deliverLane n E l)"
| "apply_op E (SyncOp n) l = snd (sync n E l)"
| "apply_op E (PushOp name topicID m ahead) l = note_push E name topicID m ahead l"
| "apply_op E (DropOp topicID position) l = snd (dropFrame E topicID position l)"
| "apply_op E (TurnOp name) l = snd (workerTurn E name l)"
| "apply_op E (RestoreOp records) l = snd (restore E records l)"
| "apply_op E (RetryOp t) l = retryDelivery E t l"
| "apply_op E (MoveAnchorOp a) l = resetLane (l \<lparr> al_anchor := a \<rparr>)"
| "apply_op E DisposeOp l = disposeLane l"

definition lane_run :: "'w app_env \<Rightarrow> app_op list \<Rightarrow> 'w app_lane \<Rightarrow> 'w app_lane" where
  "lane_run E ops l = fold (apply_op E) ops l"

lemma keepingD: "keeping m \<Longrightarrow> lane_ok l \<Longrightarrow> lane_ok (snd (m l))"
  by (simp add: keeping_def)

lemma apply_op_ok: "lane_ok l \<Longrightarrow> lane_ok (apply_op E op l)"
proof (cases op)
  case (MoveAnchorOp a)
  moreover assume "lane_ok l"
  ultimately show ?thesis using lane_ok_plain(8) [OF lane_ok_elsewhere [of l "l \<lparr> al_anchor := a \<rparr>"]] by simp
qed (auto intro: keepingD steady lane_ok_plain)

lemma lane_run_ok: "lane_ok l \<Longrightarrow> lane_ok (lane_run E ops l)"
  unfolding lane_run_def by (induction ops arbitrary: l) (simp_all add: apply_op_ok)

lemma createAppLane_ok: "lane_ok (createAppLane anchor saved w)"
  by (simp add: lane_ok_def createAppLane_def)

section \<open>The read positions in the durable mode\<close>

definition not_before :: "sequence_id option \<Rightarrow> sequence_id option \<Rightarrow> bool" where
  "not_before a b \<longleftrightarrow> (case a of None \<Rightarrow> True | Some p \<Rightarrow> (case b of None \<Rightarrow> False | Some q \<Rightarrow> p \<le> q))"

lemma not_before_refl [simp]: "not_before a a"
  by (simp add: not_before_def split: option.splits)

lemma not_before_trans: "not_before a b \<Longrightarrow> not_before b c \<Longrightarrow> not_before a c"
  by (auto simp: not_before_def split: option.splits)

lemma not_before_None [simp]: "not_before None a"
  by (simp add: not_before_def)

lemma not_before_Some [simp]: "not_before (Some p) (Some q) \<longleftrightarrow> p \<le> q"
  by (simp add: not_before_def)

definition cursor_end :: "AppCursor \<Rightarrow> sequence_id option" where
  "cursor_end c = (case ac_fetched c of None \<Rightarrow> ac_position c | Some f \<Rightarrow> Some f)"

definition past :: "sequence_id option \<Rightarrow> sequence_id \<Rightarrow> bool" where
  "past a p \<longleftrightarrow> (case a of None \<Rightarrow> True | Some x \<Rightarrow> x < p)"

lemma past_simps [simp]: "past None p" "past (Some x) p \<longleftrightarrow> x < p"
  by (simp_all add: past_def)

lemma past_mono: "not_before a b \<Longrightarrow> past b p \<Longrightarrow> past a p"
  by (auto simp: past_def not_before_def split: option.splits)

text \<open>The topics of the served protocols at an anchor differ: no two of their derivations collide.\<close>

definition lane_topic :: "'w app_env \<Rightarrow> Anchor \<Rightarrow> string \<Rightarrow> topic_error + topic_id" where
  "lane_topic E a name = protocolTopic (ae_derive E) (an_secret a) (an_epoch a) name []"

definition topics_apart :: "'w app_env \<Rightarrow> Anchor \<Rightarrow> bool" where
  "topics_apart E a \<longleftrightarrow> (\<forall>n \<in> set (map fst (ae_protocols E)). \<forall>n' \<in> set (map fst (ae_protocols E)).
     lane_topic E a n = lane_topic E a n' \<and> \<not> isl (lane_topic E a n) \<longrightarrow> n = n')"

text \<open>A buffer lies between the durable position and the last one fetched.\<close>

definition cursor_ok :: "'w app_env \<Rightarrow> 'w app_lane \<Rightarrow> string \<Rightarrow> AppCursor \<Rightarrow> bool" where
  "cursor_ok E l name c \<longleftrightarrow>
     name \<in> set (map fst (ae_protocols E)) \<and> lane_topic E (al_anchor l) name = Inr (ac_topicID c) \<and>
     not_before (ac_position c) (cursor_end c) \<and>
     (\<forall>f \<in> set (frames_of name l). past (ac_position c) (fa_position f) \<and> not_before (Some (fa_position f)) (ac_fetched c)) \<and>
     (ae_cursorStore E \<longrightarrow> not_before (al_saved l (ac_topicID c)) (ac_position c))"

definition onward_ok :: "'w app_env \<Rightarrow> 'w app_lane \<Rightarrow> bool" where
  "onward_ok E l \<longleftrightarrow> lane_ok l \<and> al_staged l = [] \<and> topics_apart E (al_anchor l) \<and>
     (\<forall>name c. map_of (al_cursors l) name = Some c \<longrightarrow> cursor_ok E l name c) \<and>
     (\<forall>name. map_of (al_cursors l) name = None \<longrightarrow> frames_of name l = [])"

definition saved_forward :: "'w app_lane \<Rightarrow> 'w app_lane \<Rightarrow> bool" where
  "saved_forward l l' \<longleftrightarrow> (\<forall>t. not_before (al_saved l t) (al_saved l' t))"

lemma saved_forward_refl [simp]: "saved_forward l l"
  by (simp add: saved_forward_def)

lemma saved_forward_trans: "saved_forward l l' \<Longrightarrow> saved_forward l' l'' \<Longrightarrow> saved_forward l l''"
  unfolding saved_forward_def using not_before_trans by blast

definition onward :: "'w app_env \<Rightarrow> ('w, 'a) app \<Rightarrow> bool" where
  "onward E m \<longleftrightarrow> (\<forall>l. onward_ok E l \<longrightarrow> onward_ok E (snd (m l)) \<and> saved_forward l (snd (m l)))"

named_theorems forward \<open>actions that move no durable read position back\<close>

lemma onwardD: "onward E m \<Longrightarrow> onward_ok E l \<Longrightarrow> onward_ok E (snd (m l)) \<and> saved_forward l (snd (m l))"
  by (simp add: onward_def)

lemma onward_give [forward]: "onward E (give x)"
  by (simp add: onward_def give_def)

lemma onward_fail [forward]: "onward E (fail e)"
  by (simp add: onward_def fail_def)

lemma onward_and_then [forward]:
  assumes "onward E m" "\<And>x. onward E (f x)"
  shows "onward E (and_then m f)"
  unfolding onward_def
proof (intro allI impI)
  fix l assume ok: "onward_ok E l"
  note m = onwardD [OF assms(1) ok]
  show "onward_ok E (snd (and_then m f l)) \<and> saved_forward l (snd (and_then m f l))"
  proof (cases "m l")
    case (Pair r l')
    with m onwardD [OF assms(2), of l'] show ?thesis
      by (cases r) (auto simp: and_then_def intro: saved_forward_trans)
  qed
qed

lemma onward_catching [forward]:
  assumes "onward E m" "\<And>e. onward E (h e)"
  shows "onward E (catching m h)"
  unfolding onward_def
proof (intro allI impI)
  fix l assume ok: "onward_ok E l"
  note m = onwardD [OF assms(1) ok]
  show "onward_ok E (snd (catching m h l)) \<and> saved_forward l (snd (catching m h l))"
  proof (cases "m l")
    case (Pair r l')
    with m onwardD [OF assms(2), of l'] show ?thesis
      by (cases r) (auto simp: catching_def intro: saved_forward_trans)
  qed
qed

lemma onward_reading [forward]: "(\<And>l. onward_ok E l \<Longrightarrow> onward E (f l)) \<Longrightarrow> onward E (reading f)"
  by (simp add: onward_def reading_def)

lemma onward_if [forward]: "(b \<Longrightarrow> onward E m) \<Longrightarrow> (\<not> b \<Longrightarrow> onward E m') \<Longrightarrow> onward E (if b then m else m')"
  by simp

lemma onward_option [forward]:
  "(x = None \<Longrightarrow> onward E m) \<Longrightarrow> (\<And>y. x = Some y \<Longrightarrow> onward E (f y)) \<Longrightarrow> onward E (case x of None \<Rightarrow> m | Some y \<Rightarrow> f y)"
  by (cases x) simp_all

lemma onward_cases [forward]:
  "(\<And>a. onward E (f1 a)) \<Longrightarrow> (\<And>b. onward E (g1 b)) \<Longrightarrow> onward E (case s of Inl a \<Rightarrow> f1 a | Inr b \<Rightarrow> g1 b)"
  "(\<And>a b. onward E (f2 a b)) \<Longrightarrow> onward E (case p of (a, b) \<Rightarrow> f2 a b)"
  "onward E m1 \<Longrightarrow> onward E m2 \<Longrightarrow> onward E m3 \<Longrightarrow>
     onward E (case r of Done \<Rightarrow> m1 | Rejected \<Rightarrow> m2 | RejectedLate \<Rightarrow> m3)"
  "(\<And>b s. onward E (f4 b s)) \<Longrightarrow> (\<And>n. onward E (g4 n)) \<Longrightarrow> onward E a4 \<Longrightarrow> onward E b4 \<Longrightarrow>
     onward E (case u of Opened b s \<Rightarrow> f4 b s | FrameAhead n \<Rightarrow> g4 n | AppStorageFailed \<Rightarrow> a4 | OpenRefused \<Rightarrow> b4)"
  "(\<And>b. onward E (f5 b)) \<Longrightarrow> (\<And>i. onward E (g5 i)) \<Longrightarrow> onward E a5 \<Longrightarrow>
     onward E (case z of SealedBytes b \<Rightarrow> f5 b | PendingID i \<Rightarrow> g5 i | DoneFrame \<Rightarrow> a5)"
  "onward E m6 \<Longrightarrow> (\<And>y ys. onward E (f6 y ys)) \<Longrightarrow> onward E (case xs of [] \<Rightarrow> m6 | y # ys \<Rightarrow> f6 y ys)"
  subgoal by (cases s) simp_all
  subgoal by (cases p) simp_all
  subgoal by (cases r) simp_all
  subgoal by (cases u) simp_all
  subgoal by (cases z) simp_all
  subgoal by (cases xs) simp_all
  done


text \<open>A change that leaves the buffers, the cursors, the anchor and the saved positions alone.\<close>

lemma onward_ok_elsewhere:
  assumes "onward_ok E l" "al_segment l' = al_segment l" "al_cursors l' = al_cursors l" "al_anchor l' = al_anchor l"
    "al_saved l' = al_saved l" "al_staged l' = al_staged l"
  shows "onward_ok E l' \<and> saved_forward l l'"
  using assms lane_ok_elsewhere [of l l']
  by (simp add: onward_ok_def cursor_ok_def frames_of_def saved_forward_def)

lemma onward_elsewhere:
  assumes "\<And>l. al_segment (g l) = al_segment l \<and> al_cursors (g l) = al_cursors l \<and> al_anchor (g l) = al_anchor l \<and>
     al_saved (g l) = al_saved l \<and> al_staged (g l) = al_staged l"
  shows "onward E (change g)"
  unfolding onward_def using onward_ok_elsewhere assms by (simp add: change_def) blast

lemma onward_outside [forward]: "onward E (outside call)"
  unfolding onward_def
proof (intro allI impI)
  fix l assume "onward_ok E l"
  from onward_ok_elsewhere [OF this, of "snd (outside call l)"]
  show "onward_ok E (snd (outside call l)) \<and> saved_forward l (snd (outside call l))"
    by (simp add: outside_def split: prod.splits)
qed

lemma frames_of_set_frames: "frames_of n (set_frames name fs l) = (if n = name then fs else frames_of n l)"
  by (simp add: frames_of_def set_frames_def update_conv')

lemma set_frames_fields [simp]:
  "al_cursors (set_frames name fs l) = al_cursors l" "al_anchor (set_frames name fs l) = al_anchor l"
  "al_saved (set_frames name fs l) = al_saved l" "al_staged (set_frames name fs l) = al_staged l"
  "al_pending (set_frames name fs l) = al_pending l" "al_disposed (set_frames name fs l) = al_disposed l"
  "al_blocking (set_frames name fs l) = al_blocking l" "al_emits (set_frames name fs l) = al_emits l"
  "al_world (set_frames name fs l) = al_world l" "al_notices (set_frames name fs l) = al_notices l"
  by (simp_all add: set_frames_def)

text \<open>A change of one buffer that keeps its places.\<close>

lemma onward_ok_set_frames:
  assumes "onward_ok E l" "log_order fs" "set (positions fs) \<subseteq> set (positions (frames_of name l))"
  shows "onward_ok E (set_frames name fs l)"
proof -
  have sub: "\<exists>g \<in> set (frames_of name l). fa_position g = fa_position f" if "f \<in> set fs" for f
  proof -
    from assms(3) that have "fa_position f \<in> fa_position ` set (frames_of name l)"
      by (auto simp: positions_def)
    then show ?thesis by (metis imageE)
  qed
  have "cursor_ok E (set_frames name fs l) n c" if "cursor_ok E l n c" for n c
    using that sub unfolding cursor_ok_def frames_of_set_frames by auto metis+
  moreover have "fs = []" if "frames_of name l = []"
    using sub that by (cases fs) auto
  ultimately show ?thesis
    using assms(1) set_frames_ok [OF _ assms(2), of l name] by (auto simp: onward_ok_def frames_of_set_frames)
qed

lemma positions_set_sealed: "positions (map (\<lambda>f. if fa_position f = p then f \<lparr> fa_sealed := s \<rparr> else f) fs) = positions fs"
  by (simp add: positions_def comp_def)

lemma onward_ok_set_sealed: "onward_ok E l \<Longrightarrow> onward_ok E (set_sealed name p s l)"
  unfolding set_sealed_def
  by (rule onward_ok_set_frames)
     (simp_all add: positions_set_sealed log_order_map frames_of_order onward_ok_def)

lemma saved_forward_set_sealed [simp]: "saved_forward l (set_sealed name p s l)"
  by (simp add: saved_forward_def set_sealed_def)

lemma onward_set_sealed [forward]: "onward E (change (set_sealed name p s))"
  by (simp add: onward_def change_def onward_ok_set_sealed)

lemma onward_notices [forward]:
  "onward E (app_notify n)"
  "onward E (resumeBlocked t p)"
  "onward E (resumeUnknown r)"
  "onward E (reportBlocked F name t p reason)"
  "onward E (reportUnknown F r)"
  "onward E (reportPrunedWindow F name t a oldest)"
  subgoal unfolding app_notify_def by (rule onward_elsewhere) simp
  subgoal unfolding resumeBlocked_def app_notify_def by (intro forward; rule onward_elsewhere; simp)
  subgoal unfolding resumeUnknown_def app_notify_def by (intro forward; rule onward_elsewhere; simp)
  subgoal unfolding reportBlocked_def app_notify_def Let_def by (intro forward; rule onward_elsewhere; simp)
  subgoal unfolding reportUnknown_def app_notify_def Let_def by (intro forward; rule onward_elsewhere; simp)
  subgoal unfolding reportPrunedWindow_def by (intro forward; rule onward_elsewhere; simp)
  done

section \<open>The pull\<close>

lemma load_cursor_result:
  "fst (load_cursor E t l) = Inr stored \<Longrightarrow> ae_cursorStore E \<Longrightarrow> stored = al_saved l t"
  by (auto simp: load_cursor_def and_then_def outside_def reading_def give_def fail_def split: prod.splits if_splits)

lemma load_cursor_fields [simp]:
  "al_segment (snd (load_cursor E t l)) = al_segment l" "al_cursors (snd (load_cursor E t l)) = al_cursors l"
  "al_anchor (snd (load_cursor E t l)) = al_anchor l" "al_saved (snd (load_cursor E t l)) = al_saved l"
  "al_staged (snd (load_cursor E t l)) = al_staged l"
  by (simp_all add: load_cursor_def and_then_def outside_def reading_def give_def fail_def split: prod.splits)

lemma onward_ok_new_cursor:
  assumes "onward_ok E l" "map_of (al_cursors l) name = None"
    and "name \<in> set (map fst (ae_protocols E))" "lane_topic E (al_anchor l) name = Inr t"
    and "ae_cursorStore E \<Longrightarrow> stored = al_saved l t"
  shows "onward_ok E (set_cursor name \<lparr> ac_topicID = t, ac_position = stored, ac_fetched = None \<rparr> l)"
  using assms lane_ok_cursor [of l name]
  by (auto simp: onward_ok_def cursor_ok_def set_cursor_def update_conv' frames_of_def cursor_end_def)

lemma onward_laneFor [forward]:
  assumes name: "name \<in> set (map fst (ae_protocols E))"
  shows "onward E (laneFor E name)"
  unfolding laneFor_def
proof (rule onward_and_then)
  show "onward E (change (\<lambda>l. if map_of (al_segment l) name = None then set_frames name [] l else l))"
    using onward_ok_set_frames [of E _ "[]" name]
    by (auto simp: onward_def change_def positions_def saved_forward_def)
  show "onward E (reading (\<lambda>l. case map_of (al_cursors l) name of Some c \<Rightarrow> give c
       | None \<Rightarrow> (case protocolTopic (ae_derive E) (an_secret (al_anchor l)) (an_epoch (al_anchor l)) name [] of
             Inl e \<Rightarrow> fail (TopicError e)
           | Inr topicID \<Rightarrow> and_then (load_cursor E topicID) (\<lambda>stored.
               let c = \<lparr> ac_topicID = topicID, ac_position = stored, ac_fetched = None \<rparr>
               in and_then (change (set_cursor name c)) (\<lambda>_. give c)))))" for u
    unfolding onward_def reading_def
  proof (intro allI impI)
    fix l assume ok: "onward_ok E l"
    let ?m = "(case map_of (al_cursors l) name of Some c \<Rightarrow> give c
       | None \<Rightarrow> (case protocolTopic (ae_derive E) (an_secret (al_anchor l)) (an_epoch (al_anchor l)) name [] of
             Inl e \<Rightarrow> fail (TopicError e)
           | Inr topicID \<Rightarrow> and_then (load_cursor E topicID) (\<lambda>stored.
               let c = \<lparr> ac_topicID = topicID, ac_position = stored, ac_fetched = None \<rparr>
               in and_then (change (set_cursor name c)) (\<lambda>_. give c)))) l"
    show "onward_ok E (snd ?m) \<and> saved_forward l (snd ?m)"
    proof (cases "map_of (al_cursors l) name")
      case None
      show ?thesis
      proof (cases "protocolTopic (ae_derive E) (an_secret (al_anchor l)) (an_epoch (al_anchor l)) name []")
        case (Inr t)
        let ?l = "snd (load_cursor E t l)"
        have ok': "onward_ok E ?l" "saved_forward l ?l"
          using onward_ok_elsewhere [OF ok, of ?l] by simp_all
        show ?thesis
        proof (cases "fst (load_cursor E t l)")
          case (Inl e)
          then show ?thesis using None Inr ok' by (cases "load_cursor E t l") (simp add: and_then_def)
        next
          case (Inr stored)
          have "onward_ok E (set_cursor name \<lparr> ac_topicID = t, ac_position = stored, ac_fetched = None \<rparr> ?l)"
            by (rule onward_ok_new_cursor [OF ok'(1)])
               (use name None \<open>protocolTopic _ _ _ _ _ = Inr t\<close> load_cursor_result [OF Inr] in \<open>simp_all add: lane_topic_def\<close>)
          moreover have "saved_forward l (set_cursor name c ?l)" for c
            by (simp add: saved_forward_def set_cursor_def)
          ultimately show ?thesis
            using None \<open>protocolTopic _ _ _ _ _ = Inr t\<close> Inr
            by (cases "load_cursor E t l") (simp add: and_then_def change_def give_def Let_def)
        qed
      qed (use ok None in \<open>simp add: fail_def\<close>)
    qed (use ok in \<open>simp add: give_def\<close>)
  qed
qed


lemma reportPrunedWindow_result:
  "\<exists>l'. reportPrunedWindow E name t a oldest l = (Inr (), l') \<and> al_segment l' = al_segment l \<and>
     al_cursors l' = al_cursors l \<and> al_anchor l' = al_anchor l \<and> al_saved l' = al_saved l \<and> al_staged l' = al_staged l"
  by (simp add: reportPrunedWindow_def reading_def give_def change_def split: option.splits)

lemma positions_takeAppFrame:
  "log_order fs \<Longrightarrow> set (positions (takeAppFrame durable fs f)) = insert (fa_position f) (set (positions fs))"
  by (rule takeAppFrame_order(2))

lemma fold_take_positions:
  assumes "log_order (frames_of name l)"
  shows "log_order (frames_of name (fold (take_message E name t) ms l)) \<and>
    set (positions (frames_of name (fold (take_message E name t) ms l))) =
      set (positions (frames_of name l)) \<union> sm_sequenceID ` set ms"
  using assms
proof (induction ms arbitrary: l)
  case (Cons m ms)
  have "log_order (frames_of name (take_message E name t m l))"
    "set (positions (frames_of name (take_message E name t m l))) = insert (sm_sequenceID m) (set (positions (frames_of name l)))"
    using Cons.prems by (simp_all add: take_message_def frames_of_set_frames takeAppFrame_order)
  with Cons.IH [of "take_message E name t m l"] show ?case by auto
qed simp

lemma fold_take_fields [simp]:
  "al_cursors (fold (take_message E name t) ms l) = al_cursors l"
  "al_anchor (fold (take_message E name t) ms l) = al_anchor l"
  "al_saved (fold (take_message E name t) ms l) = al_saved l"
  "al_staged (fold (take_message E name t) ms l) = al_staged l"
  by (induction ms arbitrary: l) (simp_all add: take_message_def)

lemma fold_take_others: "n \<noteq> name \<Longrightarrow> frames_of n (fold (take_message E name t) ms l) = frames_of n l"
  by (induction ms arbitrary: l) (simp_all add: take_message_def frames_of_set_frames)

lemma page_end_bounds:
  assumes "forward_page after (map sm_sequenceID ms)"
  shows "not_before after (page_end after ms)"
    and "m \<in> set ms \<Longrightarrow> past after (sm_sequenceID m) \<and> not_before (Some (sm_sequenceID m)) (page_end after ms)"
proof -
  have le: "x \<in> set xs \<Longrightarrow> x \<le> last xs" if "sorted xs" for x and xs :: "sequence_id list"
    using that by (induction xs) auto
  have "past after (sm_sequenceID m) \<and> sm_sequenceID m \<le> sm_sequenceID (last ms)" if m: "m \<in> set ms" for m
  proof
    show "past after (sm_sequenceID m)"
      using assms m by (cases after) (auto dest: forward_page_above)
    from m have "map sm_sequenceID ms \<noteq> []" by auto
    with le [of "map sm_sequenceID ms" "sm_sequenceID m"] forward_page_sorted [OF assms] m
    show "sm_sequenceID m \<le> sm_sequenceID (last ms)" by (auto simp: last_map)
  qed
  then show "m \<in> set ms \<Longrightarrow> past after (sm_sequenceID m) \<and> not_before (Some (sm_sequenceID m)) (page_end after ms)"
    and "not_before after (page_end after ms)"
    by (fastforce simp: page_end_def past_def not_before_def split: option.splits intro: less_imp_le dest: last_in_set)+
qed


lemma onward_ok_page:
  fixes t :: topic_id
  assumes ok: "onward_ok E l" and c: "map_of (al_cursors l) name = Some c"
    and page: "forward_page (cursor_end c) (map sm_sequenceID ms)"
  defines "l' \<equiv> set_fetched name (page_end (cursor_end c) ms) (fold (take_message E name t) ms l)"
  shows "onward_ok E l'" "saved_forward l l'"
    "map_of (al_cursors l') name = Some (c \<lparr> ac_fetched := page_end (cursor_end c) ms \<rparr>)"
proof -
  let ?m = "fold (take_message E name t) ms l" and ?c = "c \<lparr> ac_fetched := page_end (cursor_end c) ms \<rparr>"
  have l': "l' = set_cursor name ?c ?m"
    using c by (simp add: l'_def set_fetched_def)
  have lane: "lane_ok l" and cok: "cursor_ok E l name c"
    using ok c by (simp_all add: onward_ok_def)
  note fold_pos = fold_take_positions [OF frames_of_order [OF lane], of name E t ms]
  note ends = page_end_bounds [OF page]
  have pos: "not_before (ac_position c) (cursor_end c)"
    using cok by (simp add: cursor_ok_def)
  then have fetched: "not_before (ac_position c) (ac_fetched ?c)"
    using not_before_trans [OF _ ends(1)] by simp
  have frames: "past (ac_position c) (fa_position f) \<and> not_before (Some (fa_position f)) (ac_fetched ?c)"
    if "f \<in> set (frames_of name ?m)" for f
  proof -
    from that fold_pos have "fa_position f \<in> set (positions (frames_of name l)) \<union> sm_sequenceID ` set ms"
      by (metis image_eqI list.set_map positions_def)
    then show ?thesis
    proof
      assume "fa_position f \<in> set (positions (frames_of name l))"
      then obtain g where g: "g \<in> set (frames_of name l)" "fa_position g = fa_position f"
        by (auto simp: positions_def)
      then have old: "past (ac_position c) (fa_position f)" "not_before (Some (fa_position f)) (ac_fetched c)"
        using cok by (auto simp: cursor_ok_def)
      then have "not_before (Some (fa_position f)) (cursor_end c)"
        by (auto simp: cursor_end_def not_before_def split: option.splits)
      with old(1) ends(1) show ?thesis using not_before_trans by auto
    next
      assume "fa_position f \<in> sm_sequenceID ` set ms"
      with ends(2) pos show ?thesis using past_mono by fastforce
    qed
  qed
  have "cursor_ok E l' name ?c"
    using cok frames fetched
    by (auto simp: l' cursor_ok_def set_cursor_def frames_of_def cursor_end_def split: option.splits)
  moreover have "cursor_ok E l' n d" if "n \<noteq> name" "map_of (al_cursors l) n = Some d" for n d
    using ok that fold_take_others [OF that(1), of E t ms l]
    by (auto simp: l' onward_ok_def cursor_ok_def set_cursor_def frames_of_def)
  moreover have "frames_of n l' = []" if "n \<noteq> name" "map_of (al_cursors l) n = None" for n
    using ok that fold_take_others [OF that(1), of E t ms l]
    by (simp add: l' onward_ok_def set_cursor_def frames_of_def)
  moreover have "lane_ok l'"
    unfolding l' by (intro lane_ok_cursor take_messages_ok lane)
  ultimately show "onward_ok E l'"
    using ok by (auto simp: onward_ok_def l' set_cursor_def update_conv' split: if_splits)
  show "saved_forward l l'" "map_of (al_cursors l') name = Some ?c"
    by (simp_all add: l' saved_forward_def set_cursor_def update_conv')
qed


lemma onward_pull_pages:
  assumes "onward_ok E l" "map_of (al_cursors l) name = Some c"
  shows "onward_ok E (snd (pull_pages n E name t (cursor_end c) l)) \<and> saved_forward l (snd (pull_pages n E name t (cursor_end c) l))"
  using assms
proof (induction n arbitrary: l c)
  case 0
  then show ?case by (simp add: fail_def)
next
  case (Suc n)
  obtain r w where call: "ae_fetch E t (cursor_end c) APP_FETCH_LIMIT (al_world l) = (r, w)"
    by (cases "ae_fetch E t (cursor_end c) APP_FETCH_LIMIT (al_world l)")
  let ?l = "l \<lparr> al_world := w \<rparr>"
  have l1: "onward_ok E ?l \<and> saved_forward l ?l"
    by (rule onward_ok_elsewhere [OF Suc.prems(1)]) simp_all
  show ?case
  proof (cases r)
    case (Inl e)
    then show ?thesis using l1 call by (simp add: and_then_def outside_def fail_def)
  next
    case (Inr result)
    let ?ms = "fr_messages result"
    let ?report = "case cursor_end c of None \<Rightarrow> give ()
      | Some a \<Rightarrow> if fr_gap result then reportPrunedWindow E name t a (fr_oldest result) else give ()"
    show ?thesis
    proof (cases "forward_page (cursor_end c) (map sm_sequenceID ?ms)")
      case False
      then show ?thesis using l1 call Inr by (simp add: and_then_def outside_def fail_def)
    next
      case True
      obtain l2 where l2: "?report ?l = (Inr (), l2)" "al_segment l2 = al_segment ?l" "al_cursors l2 = al_cursors ?l"
        "al_anchor l2 = al_anchor ?l" "al_saved l2 = al_saved ?l" "al_staged l2 = al_staged ?l"
        using reportPrunedWindow_result [of E name t _ "fr_oldest result" ?l]
        by (cases "cursor_end c"; cases "fr_gap result"; fastforce simp: give_def)
      have ok2: "onward_ok E l2 \<and> saved_forward ?l l2"
        using l1 by (intro onward_ok_elsewhere) (simp_all add: l2)
      have c2: "map_of (al_cursors l2) name = Some c" using Suc.prems(2) l2(3) by simp
      let ?c = "c \<lparr> ac_fetched := page_end (cursor_end c) ?ms \<rparr>"
      let ?l3 = "set_fetched name (page_end (cursor_end c) ?ms) (fold (take_message E name t) ?ms l2)"
      note page = onward_ok_page [OF conjunct1 [OF ok2] c2 True, of t]
      have fwd: "saved_forward l ?l3"
        using l1 ok2 page(2) saved_forward_trans by blast
      have end3: "page_end (cursor_end c) ?ms = cursor_end ?c"
      proof (cases "page_end (cursor_end c) ?ms")
        case None
        then have "cursor_end c = None" "?ms = []"
          by (simp_all add: page_end_def split: if_splits)
        then show ?thesis using None
          by (simp add: cursor_end_def split: option.splits)
      qed (simp add: cursor_end_def)
      have "pull_pages (Suc n) E name t (cursor_end c) l =
          (if length ?ms < APP_FETCH_LIMIT then (Inr (), ?l3) else pull_pages n E name t (cursor_end ?c) ?l3)"
        using call Inr True l2(1) end3
        by (simp add: and_then_def outside_def change_def give_def Let_def)
      then show ?thesis
        using page fwd Suc.IH [OF page(1,3)] saved_forward_trans by (auto split: if_splits)
    qed
  qed
qed


lemma ends_always: "(\<And>x l'. Q x l') \<Longrightarrow> (\<And>e l'. R e l') \<Longrightarrow> ends m Q R l"
  by (simp add: ends_def split: prod.splits sum.splits)

lemma laneFor_cursor: "ends (laneFor E name) (\<lambda>c l'. map_of (al_cursors l') name = Some c) (\<lambda>e l'. True) l"
  unfolding laneFor_def Let_def
  by (simp split: option.splits sum.splits, intro conjI allI impI; rule ends_always; simp add: set_cursor_def update_conv')

lemma merge_nothing: "al_staged l = [] \<Longrightarrow> onward_ok E l \<Longrightarrow>
    onward_ok E (merge_staged E name t l) \<and> saved_forward l (merge_staged E name t l) \<and>
    al_cursors (merge_staged E name t l) = al_cursors l"
proof -
  assume none: "al_staged l = []" and ok: "onward_ok E l"
  have eq: "merge_staged E name t l = set_frames name (frames_of name l) l"
    by (simp add: merge_staged_def none set_frames_def)
  have "onward_ok E (set_frames name (frames_of name l) l)"
    using ok by (intro onward_ok_set_frames) (simp_all add: onward_ok_def frames_of_order)
  then show ?thesis unfolding eq by (simp add: saved_forward_def)
qed

lemma onward_loadOne:
  assumes "name \<in> set (map fst (ae_protocols E))"
  shows "onward E (loadOne n E name)"
  unfolding onward_def
proof (intro allI impI)
  fix l assume ok: "onward_ok E l"
  obtain r l1 where run: "laneFor E name l = (r, l1)" by (cases "laneFor E name l")
  have ok1: "onward_ok E l1" "saved_forward l l1"
    using onwardD [OF onward_laneFor [OF assms] ok] run by simp_all
  show "onward_ok E (snd (loadOne n E name l)) \<and> saved_forward l (snd (loadOne n E name l))"
  proof (cases r)
    case (Inl e)
    then show ?thesis using run ok1 by (simp add: loadOne_def and_then_def)
  next
    case (Inr c)
    have c1: "map_of (al_cursors l1) name = Some c" using ends_result [OF laneFor_cursor] run Inr by metis
    let ?l2 = "if ac_topicID c \<in> set (al_retained l1) then l1 else l1 \<lparr> al_retained := al_retained l1 @ [ac_topicID c] \<rparr>"
    have ok2: "onward_ok E ?l2 \<and> saved_forward l1 ?l2"
      by (rule onward_ok_elsewhere [OF ok1(1)]) simp_all
    let ?l3 = "merge_staged E name (ac_topicID c) ?l2"
    have "al_staged ?l2 = []" using ok2 by (simp add: onward_ok_def)
    note ok3 = merge_nothing [OF this conjunct1 [OF ok2], of name "ac_topicID c"]
    have "al_cursors ?l2 = al_cursors l1" by simp
    then have c3: "map_of (al_cursors ?l3) name = Some c" using ok3 c1 by simp
    have "loadOne n E name l = pull_pages n E name (ac_topicID c) (cursor_end c) ?l3"
      using run Inr by (simp add: loadOne_def and_then_def change_def cursor_end_def)
    moreover have "saved_forward l ?l3"
      using ok1(2) ok2 ok3 saved_forward_trans by blast
    ultimately show ?thesis
      using onward_pull_pages [OF conjunct1 [OF ok3] c3, of n "ac_topicID c"] saved_forward_trans [of l ?l3] by simp
  qed
qed

lemma onward_all_settled:
  "(\<And>x. x \<in> set xs \<Longrightarrow> onward E (task x)) \<Longrightarrow> onward E (all_settled task xs failure)"
proof (induction xs arbitrary: failure)
  case Nil
  show ?case unfolding all_settled.simps by (intro forward)
next
  case (Cons x xs)
  show ?case unfolding all_settled.simps
    by (intro forward Cons) simp_all
qed

lemma onward_loadSegment [forward]: "onward E (loadSegment n E)"
  unfolding loadSegment_def by (intro onward_all_settled onward_loadOne)

lemma onward_each: "(\<And>x. x \<in> set xs \<Longrightarrow> onward E (task x)) \<Longrightarrow> onward E (each_in_turn task xs)"
  by (induction xs) (simp_all add: onward_give onward_and_then)

section \<open>The advance\<close>

lemma save_cursor_state:
  "\<exists>w s. snd (save_cursor E t p l) = l \<lparr> al_world := w, al_saved := s \<rparr> \<and>
     (s = al_saved l \<or> s = (al_saved l)(t \<mapsto> p))"
proof (cases "ae_cursorStore E")
  case True
  obtain r w where call: "ae_saveCursor E (al_world l) = (r, w)" by (cases "ae_saveCursor E (al_world l)")
  have "snd (save_cursor E t p l) = l \<lparr> al_world := w,
      al_saved := (if r = Rejected then al_saved l else (al_saved l)(t \<mapsto> p)) \<rparr>"
    using True call by (cases r) (simp_all add: save_cursor_def and_then_def outside_def change_def fail_def Let_def)
  then show ?thesis
    by (intro exI [where x = w] exI [where x = "if r = Rejected then al_saved l else (al_saved l)(t \<mapsto> p)"]) simp
next
  case False
  then have "snd (save_cursor E t p l) = l \<lparr> al_world := al_world l, al_saved := al_saved l \<rparr>"
    by (simp add: save_cursor_def give_def Let_def)
  then show ?thesis by blast
qed

lemma onward_ok_saved:
  assumes ok: "onward_ok E l" and c: "map_of (al_cursors l) name = Some c" "ac_position c = Some p"
    and saved: "not_before (al_saved l (ac_topicID c)) (Some p)"
    and l': "l' = l \<lparr> al_world := w, al_saved := s \<rparr>" and s: "s = al_saved l \<or> s = (al_saved l)(ac_topicID c \<mapsto> p)"
  shows "onward_ok E l' \<and> saved_forward l l'"
proof
  have "cursor_ok E l' n d" if d: "map_of (al_cursors l) n = Some d" for n d
  proof (cases "s = al_saved l \<or> ac_topicID d \<noteq> ac_topicID c")
    case True
    then have "s (ac_topicID d) = al_saved l (ac_topicID d)" using s by auto
    with ok d show ?thesis by (simp add: onward_ok_def cursor_ok_def l' frames_of_def)
  next
    case False
    with s have s': "s = (al_saved l)(ac_topicID c \<mapsto> p)" "ac_topicID d = ac_topicID c" by auto
    have "cursor_ok E l n d" "cursor_ok E l name c" "topics_apart E (al_anchor l)"
      using ok d c by (simp_all add: onward_ok_def)
    then have names: "n \<in> set (map fst (ae_protocols E))" "name \<in> set (map fst (ae_protocols E))"
      and topics: "lane_topic E (al_anchor l) n = Inr (ac_topicID c)" "lane_topic E (al_anchor l) name = Inr (ac_topicID c)"
      using s'(2) by (simp_all add: cursor_ok_def)
    have "n = name"
      by (rule topics_apart_def [THEN iffD1, OF \<open>topics_apart E (al_anchor l)\<close>, rule_format, OF names]) (simp add: topics)
    with c d have "d = c" by simp
    with \<open>cursor_ok E l n d\<close> c(2) s' show ?thesis by (simp add: cursor_ok_def l' frames_of_def)
  qed
  moreover have "lane_ok l'" using ok lane_ok_elsewhere [of l l'] by (simp add: onward_ok_def l')
  ultimately show "onward_ok E l'" using ok by (simp add: onward_ok_def l' frames_of_def)
  show "saved_forward l l'" using s saved by (auto simp: saved_forward_def l')
qed

end
