(* ===== verification/App_Durable.thy ===== *)
theory App_Durable
  imports App_Runs
begin

text \<open>
  The durable mode of the application lane, over whole runs: the advance of a cursor, the drain, the worker and the
  rotation of the segment move no read position of the host back.
\<close>

section \<open>The advance\<close>

lemma set_cursor_fields [simp]:
  "frames_of n (set_cursor name c l) = frames_of n l" "al_anchor (set_cursor name c l) = al_anchor l"
  "al_saved (set_cursor name c l) = al_saved l" "al_staged (set_cursor name c l) = al_staged l"
  "map_of (al_cursors (set_cursor name c l)) n = (if n = name then Some c else map_of (al_cursors l) n)"
  by (simp_all add: set_cursor_def frames_of_def update_conv')

lemma in_order_passed:
  assumes "log_order fs" "f \<in> set (dropWhile is_done fs)" "takeWhile is_done fs \<noteq> []"
  shows "fa_position (last (takeWhile is_done fs)) < fa_position f"
  using assms takeWhile_dropWhile_id [of is_done fs] log_order_append last_in_set by metis

lemma onward_ok_passed: "onward_ok E l \<Longrightarrow> onward_ok E (set_frames name (dropWhile is_done (frames_of name l)) l)"
proof (rule onward_ok_set_frames)
  assume ok: "onward_ok E l"
  then show "log_order (dropWhile is_done (frames_of name l))"
    by (intro log_order_drop frames_of_order) (simp add: onward_ok_def)
  show "set (positions (dropWhile is_done (frames_of name l))) \<subseteq> set (positions (frames_of name l))"
    by (auto simp: positions_def dest: set_dropWhileD)
qed

lemma onward_ok_advance:
  assumes ok: "onward_ok E l" and c: "map_of (al_cursors l) name = Some c"
    and passed: "takeWhile is_done (frames_of name l) \<noteq> []"
  defines "p \<equiv> fa_position (last (takeWhile is_done (frames_of name l)))"
  defines "l' \<equiv> set_cursor name (c \<lparr> ac_position := Some p \<rparr>) (set_frames name (dropWhile is_done (frames_of name l)) l)"
  shows "onward_ok E l'" "not_before (al_saved l' (ac_topicID c)) (Some p) \<or> \<not> ae_cursorStore E"
proof -
  let ?fs = "frames_of name l" and ?rest = "dropWhile is_done (frames_of name l)"
  have cok: "cursor_ok E l name c" and order: "log_order ?fs" and lane: "lane_ok l"
    using ok c frames_of_order by (auto simp: onward_ok_def)
  have last: "last (takeWhile is_done ?fs) \<in> set ?fs"
    using passed last_in_set set_takeWhileD by metis
  then have p: "past (ac_position c) p" "not_before (Some p) (ac_fetched c)"
    using cok by (simp_all add: cursor_ok_def p_def)
  then have up: "not_before (ac_position c) (Some p)"
    by (auto simp: past_def not_before_def split: option.splits intro: less_imp_le)
  have rest: "p < fa_position f \<and> not_before (Some (fa_position f)) (ac_fetched c)" if "f \<in> set ?rest" for f
    using in_order_passed [OF order that passed] cok set_dropWhileD [OF that] by (simp add: p_def cursor_ok_def)
  have fetched: "not_before (Some p) (cursor_end (c \<lparr> ac_position := Some p \<rparr>))"
    using p(2) by (auto simp: cursor_end_def not_before_def split: option.splits)
  have saved: "ae_cursorStore E \<Longrightarrow> not_before (al_saved l (ac_topicID c)) (Some p)"
    using cok not_before_trans [OF _ up] by (simp add: cursor_ok_def)
  have own: "cursor_ok E l' name (c \<lparr> ac_position := Some p \<rparr>)"
    using cok rest fetched saved by (simp add: cursor_ok_def l'_def frames_of_set_frames)
  have other: "cursor_ok E l' n d" if "n \<noteq> name" "map_of (al_cursors l) n = Some d" for n d
    using ok that by (simp add: onward_ok_def cursor_ok_def l'_def frames_of_set_frames)
  have nothing: "frames_of n l' = []" if "n \<noteq> name" "map_of (al_cursors l) n = None" for n
    using ok that by (simp add: onward_ok_def l'_def frames_of_set_frames)
  have "lane_ok l'"
    unfolding l'_def by (intro lane_ok_cursor set_frames_ok lane log_order_drop order)
  with ok own other nothing show "onward_ok E l'"
    by (auto simp: onward_ok_def l'_def frames_of_set_frames split: if_splits)
  show "not_before (al_saved l' (ac_topicID c)) (Some p) \<or> \<not> ae_cursorStore E"
    using saved by (auto simp: l'_def)
qed


lemma onward_save_cursor:
  assumes ok: "onward_ok E l" and c: "map_of (al_cursors l) name = Some c" "ac_position c = Some p"
    and saved: "not_before (al_saved l (ac_topicID c)) (Some p) \<or> \<not> ae_cursorStore E"
  shows "onward_ok E (snd (save_cursor E (ac_topicID c) p l)) \<and> saved_forward l (snd (save_cursor E (ac_topicID c) p l))"
proof (cases "ae_cursorStore E")
  case True
  obtain w s where eq: "snd (save_cursor E (ac_topicID c) p l) = l \<lparr> al_world := w, al_saved := s \<rparr>"
    and s: "s = al_saved l \<or> s = (al_saved l)(ac_topicID c \<mapsto> p)"
    using save_cursor_state [of E "ac_topicID c" p l] by (elim exE conjE) (rule that)
  show ?thesis
    unfolding eq using saved True by (intro onward_ok_saved [OF ok c _ refl s]) simp
next
  case False
  with ok show ?thesis by (simp add: save_cursor_def give_def Let_def)
qed

lemma onward_advanceCursor [forward]: "onward E (advanceCursor E name)"
  unfolding onward_def
proof (intro allI impI)
  fix l assume ok: "onward_ok E l"
  let ?fs = "frames_of name l"
  let ?l1 = "set_frames name (dropWhile is_done ?fs) l"
  have ok1: "onward_ok E ?l1 \<and> saved_forward l ?l1"
    using onward_ok_passed [OF ok] by (simp add: saved_forward_def)
  show "onward_ok E (snd (advanceCursor E name l)) \<and> saved_forward l (snd (advanceCursor E name l))"
  proof (cases "map_of (al_cursors l) name")
    case None
    then show ?thesis using ok by (simp add: advanceCursor_def reading_def give_def)
  next
    case (Some c)
    let ?p = "fa_position (last (takeWhile is_done ?fs))"
    let ?c = "c \<lparr> ac_position := Some ?p \<rparr>"
    show ?thesis
    proof (cases "takeWhile is_done ?fs = [] \<or> ac_position c = Some ?p")
      case True
      with Some have "advanceCursor E name l = (Inr (), ?l1)"
        by (auto simp: advanceCursor_def reading_def and_then_def change_def give_def Let_def)
      then show ?thesis using ok1 by simp
    next
      case False
      let ?l2 = "set_cursor name ?c ?l1"
      have eq: "advanceCursor E name l = save_cursor E (ac_topicID c) ?p ?l2"
        using Some False by (simp add: advanceCursor_def reading_def and_then_def change_def Let_def)
      have pass: "takeWhile is_done ?fs \<noteq> []" using False by simp
      note adv = onward_ok_advance [OF ok Some pass]
      have "onward_ok E (snd (save_cursor E (ac_topicID ?c) ?p ?l2)) \<and>
          saved_forward ?l2 (snd (save_cursor E (ac_topicID ?c) ?p ?l2))"
        using adv by (intro onward_save_cursor [where name = name]) simp_all
      moreover have "saved_forward l ?l2" by (simp add: saved_forward_def)
      ultimately show ?thesis unfolding eq using saved_forward_trans by auto
    qed
  qed
qed

section \<open>The operations\<close>

lemma onward_frame_done [forward]: "onward E (frame_done name t p)"
  unfolding frame_done_def by (intro forward)

lemma onward_app_emit [forward]: "onward E (app_emit E e)"
  unfolding app_emit_def by (intro forward; rule onward_elsewhere; simp)

lemma onward_opened_frame [forward]: "onward E (opened_frame E name t p ref payload sender)"
proof -
  have "onward E (change (\<lambda>l. (set_sealed name p (PendingID (fr_id frame)) l)
      \<lparr> al_pending := al_pending l @ [r] \<rparr>))" for frame r
    unfolding onward_def change_def
  proof (intro allI impI)
    fix l assume "onward_ok E l"
    note ok = onward_ok_set_sealed [OF this, of name p "PendingID (fr_id frame)"]
    let ?l = "(set_sealed name p (PendingID (fr_id frame)) l) \<lparr> al_pending := al_pending l @ [r] \<rparr>"
    have "onward_ok E ?l \<and> saved_forward (set_sealed name p (PendingID (fr_id frame)) l) ?l"
      by (rule onward_ok_elsewhere [OF ok]) simp_all
    moreover have "saved_forward l ?l" by (simp add: saved_forward_def set_sealed_def)
    ultimately show "onward_ok E (snd (Inr (), ?l)) \<and> saved_forward l (snd (Inr (), ?l))" by simp
  qed
  note this [forward]
  show ?thesis unfolding opened_frame_def by (intro forward)
qed

lemma onward_drain [forward]: "onward E (drain_one E name)" "onward E (drainLane n E)"
proof -
  have "onward E (drain_sealed E name c p sealed)" for name c p sealed
    unfolding drain_sealed_def Let_def by (intro forward)
  then have frame: "onward E (drain_frame E name c p)" for name c p
    unfolding drain_frame_def by (intro forward)
  have one: "onward E (drain_one E name)" for name
    unfolding drain_one_def by (intro forward onward_each frame)
  then show "onward E (drain_one E name)" .
  show "onward E (drainLane n E)"
    unfolding drainLane_def by (intro forward onward_each one)
qed


lemma onward_sync [forward]: "onward E (sync n E)"
  unfolding sync_def by (intro forward onward_each; rule onward_elsewhere; simp)

lemma onward_settle_record [forward]: "onward E (settle_record E r)"
proof -
  have "onward E (change (\<lambda>l. if P l then set_sealed name p s l else l))" for P name p s
    by (simp add: onward_def change_def onward_ok_set_sealed)
  note this [forward]
  show ?thesis
    unfolding settle_record_def Let_def by (intro forward; rule onward_elsewhere; simp)
qed

lemma onward_records [forward]:
  "onward E (finishRecord E r)" "onward E (deliverRecord E r)" "onward E (workerTurn E name)"
proof -
  show finish: "onward E (finishRecord E r)" for r
    unfolding finishRecord_def by (intro forward)
  show deliver: "onward E (deliverRecord E r)" for r
    unfolding deliverRecord_def Let_def by (intro forward finish)
  show "onward E (workerTurn E name)"
    unfolding workerTurn_def by (intro forward deliver)
qed

lemma scheduleWorker_anchor [simp]:
  "al_anchor (scheduleWorker E name delay l) = al_anchor l"
  "al_anchor (fold (\<lambda>name. scheduleWorker E name 0) names l) = al_anchor l"
proof -
  show one: "al_anchor (scheduleWorker E name delay l) = al_anchor l" for name delay l
    by (simp add: scheduleWorker_def set_worker_def Let_def)
  show "al_anchor (fold (\<lambda>name. scheduleWorker E name 0) names l) = al_anchor l"
    by (induction names arbitrary: l) (simp_all add: one)
qed

lemma onward_deliver [forward]: "onward E (deliver_records E)" "onward E (deliverLane n E)"
proof -
  show records: "onward E (deliver_records E)"
    unfolding deliver_records_def by (intro forward onward_each; rule onward_elsewhere; simp)
  show "onward E (deliverLane n E)"
    unfolding deliverLane_def by (intro forward records)
qed

lemma onward_drop [forward]: "onward E (drop_buffered E t p)" "onward E (dropFrame E t p)"
proof -
  show buffered: "onward E (drop_buffered E t p)"
    unfolding drop_buffered_def by (intro forward)
  show "onward E (dropFrame E t p)"
    unfolding dropFrame_def by (intro forward buffered; rule onward_elsewhere; simp)
qed

lemma onward_restore [forward]: "onward E (restore E records)"
  unfolding restore_def restore_one_def by (intro forward onward_each; rule onward_elsewhere; simp)

section \<open>Runs\<close>

fun anchors_of :: "app_op list \<Rightarrow> Anchor list" where
  "anchors_of [] = []"
| "anchors_of (MoveAnchorOp a # ops) = a # anchors_of ops"
| "anchors_of (op # ops) = anchors_of ops"

lemma onward_retry: "onward_ok E l \<Longrightarrow> onward_ok E (retryDelivery E t l) \<and> saved_forward l (retryDelivery E t l)"
proof -
  assume ok: "onward_ok E l"
  have one: "onward_ok E (retryOne E t name l') \<and> saved_forward l' (retryOne E t name l')" if "onward_ok E l'" for name l'
    using that by (rule onward_ok_elsewhere) (simp_all add: retryOne_def set_worker_def split: option.splits)
  have "onward_ok E (fold (retryOne E t) names l') \<and> saved_forward l' (fold (retryOne E t) names l')"
    if "onward_ok E l'" for names l'
    using that
  proof (induction names arbitrary: l')
    case (Cons name names)
    note first = one [OF Cons.prems, of name]
    with Cons.IH [OF conjunct1 [OF first]] saved_forward_trans [OF conjunct2 [OF first]] show ?case by simp
  qed simp
  with ok show ?thesis by (simp add: retryDelivery_def)
qed

lemma onward_op:
  assumes ok: "onward_ok E l" and durable: "ae_durable E" and apart: "\<forall>a \<in> set (anchors_of [op]). topics_apart E a"
  shows "onward_ok E (apply_op E op l) \<and> saved_forward l (apply_op E op l)"
proof (cases op)
  case (PushOp name t m ahead)
  then show ?thesis
    using onward_ok_elsewhere [OF ok, of "apply_op E op l"] durable by (simp add: note_push_def split: option.splits)
next
  case (MoveAnchorOp a)
  then show ?thesis
    using ok apart lane_ok_plain(8) [OF lane_ok_elsewhere [of l "l \<lparr> al_anchor := a \<rparr>"]]
    by (simp add: onward_ok_def resetLane_def frames_of_def saved_forward_def)
next
  case DisposeOp
  then show ?thesis
    using onward_ok_elsewhere [OF ok, of "apply_op E op l"] by (simp add: disposeLane_def)
qed (use onward_retry [OF ok] onwardD [OF onward_deliver(2) ok] onwardD [OF onward_sync ok] onwardD [OF onward_drop(2) ok]
      onwardD [OF onward_records(3) ok] onwardD [OF onward_restore ok] in simp_all)

lemma onward_run:
  assumes "onward_ok E l" "ae_durable E" "\<forall>a \<in> set (anchors_of ops). topics_apart E a"
  shows "onward_ok E (lane_run E ops l) \<and> saved_forward l (lane_run E ops l)"
  using assms
proof (induction ops arbitrary: l)
  case (Cons op ops)
  have anchors: "set (anchors_of (op # ops)) = set (anchors_of [op]) \<union> set (anchors_of ops)"
    by (cases op) simp_all
  have one: "onward_ok E (apply_op E op l) \<and> saved_forward l (apply_op E op l)"
    using Cons.prems(3) anchors by (intro onward_op [OF Cons.prems(1,2)]) simp
  have rest: "onward_ok E (lane_run E ops (apply_op E op l)) \<and> saved_forward (apply_op E op l) (lane_run E ops (apply_op E op l))"
    using Cons.prems(3) anchors by (intro Cons.IH conjunct1 [OF one] Cons.prems(2)) simp
  have "lane_run E (op # ops) l = lane_run E ops (apply_op E op l)" by (simp add: lane_run_def)
  then show ?case using one rest saved_forward_trans [of l] by metis
qed (simp add: lane_run_def)

lemma onward_ok_start: "topics_apart E anchor \<Longrightarrow> onward_ok E (createAppLane anchor saved w)"
  by (simp add: onward_ok_def createAppLane_def lane_ok_def frames_of_def)

lemma lane_run_append: "lane_run E (ops @ ops') l = lane_run E ops' (lane_run E ops l)"
  by (simp add: lane_run_def)

lemma anchors_append: "set (anchors_of (ops @ ops')) = set (anchors_of ops) \<union> set (anchors_of ops')"
  by (induction ops rule: anchors_of.induct) auto


lemma onward_ok_beyond:
  assumes "onward_ok E l" "ae_cursorStore E" "map_of (al_cursors l) name = Some c" "f \<in> set (frames_of name l)"
  shows "past (al_saved l (ac_topicID c)) (fa_position f)"
proof -
  have "cursor_ok E l name c" using assms(1,3) by (simp add: onward_ok_def)
  with assms(2,4) past_mono [of "al_saved l (ac_topicID c)" "ac_position c"] show ?thesis
    by (simp add: cursor_ok_def)
qed

end
