(* ===== verification/App_Props.thy ===== *)
theory App_Props
  imports App_Durable
begin

text \<open>
  The properties of the application lane: the order of its buffers, its topics, the read positions of the
  durable mode, and how the live mode differs from them.
\<close>

section \<open>The buffers\<close>

text \<open>
  Claim C25. Whatever sequence of deliveries, pulls, pushes, drops, worker turns, restores, rotations and disposals
  the lane goes through, each buffer holds its frames in the order of the log with one frame to a position.
\<close>

theorem lane_keeps_log_order: "log_order (frames_of name (lane_run E ops (createAppLane anchor saved w)))"
  by (rule frames_of_order [OF lane_run_ok [OF createAppLane_ok]])

section \<open>The topics\<close>

text \<open>
  Claim C28. Two derivations that give the same topic were made with the same secret, epoch, label and scope, or the
  key derivation itself gave one value for two different inputs, which are these.
\<close>

theorem topics_bind_their_inputs:
  assumes "deriveTopicID derive secret epoch label scope = Inr t"
    and "deriveTopicID derive secret' epoch' label' scope' = Inr t"
  shows "(secret, epoch, label, scope) = (secret', epoch', label', scope') \<or>
    (derive secret (encodeEpoch epoch) (topic_info label scope) =
       derive secret' (encodeEpoch epoch') (topic_info label' scope') \<and>
     (secret, encodeEpoch epoch, topic_info label scope) \<noteq> (secret', encodeEpoch epoch', topic_info label' scope'))"
proof -
  have same: "derive secret (encodeEpoch epoch) (topic_info label scope) =
      derive secret' (encodeEpoch epoch') (topic_info label' scope')"
    using assms by (auto simp: deriveTopicID_def split: if_splits)
  show ?thesis
  proof (cases "(secret, encodeEpoch epoch, topic_info label scope) = (secret', encodeEpoch epoch', topic_info label' scope')")
    case True
    moreover have "epoch = epoch'"
      using assms True by (intro encodeEpoch_inj) (auto simp: deriveTopicID_def split: if_splits)
    moreover have "label = label' \<and> scope = scope'"
      using assms True by (intro topic_info_inj) (auto simp: deriveTopicID_def split: if_splits)
    ultimately show ?thesis by simp
  next
    case False
    with same show ?thesis by simp
  qed
qed

theorem topics_bind_their_inputs_witness:
  "deriveTopicID (\<lambda>_ _ _. ''topic'') [7] 2 ''chat'' [] = Inr ''topic'' \<and>
   deriveTopicID (\<lambda>_ _ _. ''topic'') [7] 3 ''chat'' [] = Inr ''topic'' \<and>
   ([7] :: bytes, encodeEpoch 2, topic_info ''chat'' []) \<noteq> ([7], encodeEpoch 3, topic_info ''chat'' [])"
proof -
  have t: "deriveTopicID (\<lambda>_ _ _. ''topic'') [7] n ''chat'' [] = Inr ''topic''" if "n < 9" for n
    using that by (simp add: deriveTopicID_def SEP_def MAX_SAFE_INTEGER_def)
  from topics_bind_their_inputs [OF t t, of 2 3] show ?thesis by (simp add: t)
qed

section \<open>The live mode\<close>

text \<open>
  A group whose log holds two frames. The delivery opens them all and stores the position of the last; then the
  push of the first one, which the host was handed meanwhile, is noted.
\<close>

lemma deriveTopicID_code [code]:
  "deriveTopicID derive secret epoch label scope =
     (if 9007199254740991 < int epoch then Inl UnsafeEpoch
      else if SEP \<in> set label \<or> SEP \<in> set scope then Inl NulByte
      else Inr (derive secret (encodeEpoch epoch) (topic_info label scope)))"
  by (simp add: deriveTopicID_def MAX_SAFE_INTEGER_def)

definition demo_frame :: "sequence_id \<Rightarrow> StoredMessage" where
  "demo_frame p = \<lparr> sm_sequenceID = p, sm_senderDID = ''bob'', sm_topicID = ''topic'', sm_payload = [5], sm_logPosition = Some p \<rparr>"

definition serve :: "sequence_id list \<Rightarrow> sequence_id option \<Rightarrow> FetchTopicResult" where
  "serve ps after = (let rest = filter (\<lambda>p. case after of None \<Rightarrow> True | Some a \<Rightarrow> a < p) ps in
     \<lparr> fr_messages = map demo_frame rest, fr_head = None, fr_oldest = None, fr_gap = False \<rparr>)"

definition demo_app :: "bool \<Rightarrow> unit app_env" where
  "demo_app durable = \<lparr> ae_durable = durable, ae_protocols = [(''chat'', [])], ae_handled = (\<lambda>_. True),
     ae_normalizeDID = (\<lambda>d. d), ae_localDID = ''alice'', ae_derive = (\<lambda>_ _ _. ''topic''), ae_digest = (\<lambda>_. ''id''),
     ae_parse = (\<lambda>_. None), ae_frameEpoch = (\<lambda>_. Some 2), ae_frameAAD = (\<lambda>_. None),
     ae_unwrap = (\<lambda>_ _ _ w. (Opened [] ''bob'', w)),
     ae_fetch = (\<lambda>_ after _ w. (Inr (serve [''1'', ''2''] after), w)),
     ae_emit = (\<lambda>_ w. (True, w)), ae_complete = (\<lambda>_ w. (True, w)), ae_groupID = (\<lambda>_. Some ''group''),
     ae_cursorStore = True, ae_readCursor = (\<lambda>w. (True, w)), ae_saveCursor = (\<lambda>w. (Done, w)),
     ae_hearsStalls = True, ae_hearsPruned = True \<rparr>"

definition demo_lane :: "unit app_lane" where
  "demo_lane = createAppLane \<lparr> an_secret = [7], an_epoch = 2 \<rparr> Map.empty ()"

definition read_by :: "app_op list \<Rightarrow> sequence_id option" where
  "read_by ops = al_saved (lane_run (demo_app False) ops demo_lane) ''topic''"

definition noted_late :: app_op where
  "noted_late = PushOp ''chat'' ''topic'' (demo_frame ''1'') False"

text \<open>
  The part of a sync that concerns one lane: the push is merged in front of a buffer that lies past it, the pull
  brings nothing, and the advance takes the position of the push.
\<close>

lemma merge_late_push:
  assumes "\<not> ae_durable E" "\<forall>f \<in> set (frames_of name l). q < fa_position f"
    and "map_of (al_staged l) name = Some [(t, \<lparr> fa_position = q, fa_sealed = DoneFrame \<rparr>)]"
  shows "merge_staged E name t l = (set_frames name (\<lparr> fa_position = q, fa_sealed = DoneFrame \<rparr> # frames_of name l) l)
    \<lparr> al_staged := AList.delete name (al_staged l) \<rparr>"
proof -
  have all: "takeWhile (\<lambda>f. q < fa_position f) (rev (frames_of name l)) = rev (frames_of name l)"
    using assms(2) by (simp add: takeWhile_eq_all_conv)
  have none: "dropWhile (\<lambda>f. q < fa_position f) (rev (frames_of name l)) = []"
    using assms(2) by (simp add: dropWhile_eq_Nil_conv)
  have "takeAppFrame (ae_durable E) (frames_of name l) \<lparr> fa_position = q, fa_sealed = DoneFrame \<rparr>
      = \<lparr> fa_position = q, fa_sealed = DoneFrame \<rparr> # frames_of name l"
    unfolding takeAppFrame_def Let_def AppFrame.select_convs all none by simp
  then show ?thesis using assms(3) by (simp add: merge_staged_def Let_def)
qed

lemma load_late_push:
  assumes "\<not> ae_durable E" "\<forall>f \<in> set (frames_of name l). q < fa_position f" "map fst (al_segment l) = [name]"
    and "map_of (al_staged l) name = Some [(ac_topicID c, \<lparr> fa_position = q, fa_sealed = DoneFrame \<rparr>)]"
    and cursor: "map_of (al_cursors l) name = Some c" "ac_position c = Some p"
    and fetch: "\<forall>w. \<exists>w'. ae_fetch E (ac_topicID c) (Some (or_else (ac_fetched c) p)) APP_FETCH_LIMIT w =
           (Inr \<lparr> fr_messages = [], fr_head = h, fr_oldest = od, fr_gap = False \<rparr>, w')"
  shows "ends (loadOne (Suc n) E name)
    (\<lambda>_ l'. frames_of name l' = \<lparr> fa_position = q, fa_sealed = DoneFrame \<rparr> # frames_of name l \<and> map fst (al_segment l') = [name]
       \<and> (\<exists>c'. map_of (al_cursors l') name = Some c' \<and> ac_topicID c' = ac_topicID c \<and> ac_position c' = Some p))
    (\<lambda>_ _. False) l"
proof -
  obtain fs where seg: "al_segment l = [(name, fs)]" using assms(3) by (cases "al_segment l") auto
  have start: "(case ac_fetched c of None \<Rightarrow> ac_position c | Some f \<Rightarrow> Some f) = Some (or_else (ac_fetched c) p)"
    using cursor(2) by (cases "ac_fetched c") (simp_all add: or_else_def)
  define l1 where "l1 = (if ac_topicID c \<in> set (al_retained l) then l else l \<lparr> al_retained := al_retained l @ [ac_topicID c] \<rparr>)"
  have l1: "al_segment l1 = al_segment l" "al_staged l1 = al_staged l" "al_cursors l1 = al_cursors l" "frames_of name l1 = frames_of name l"
    by (simp_all add: l1_def frames_of_def)
  note merged = merge_late_push [of E name l1 q "ac_topicID c", unfolded l1, OF assms(1,2,4)]
  have page: "ends (outside (ae_fetch E (ac_topicID c) (Some (or_else (ac_fetched c) p)) APP_FETCH_LIMIT))
      (\<lambda>r s'. r = Inr \<lparr> fr_messages = [], fr_head = h, fr_oldest = od, fr_gap = False \<rparr> \<and> (\<exists>w. s' = s \<lparr> al_world := w \<rparr>)) (\<lambda>_ _. False) s" for s
    using fetch [rule_format, of "al_world s"] by (elim exE) (simp only: ends_def outside_def prod.case sum.case, blast)
  show ?thesis
    unfolding loadOne_def laneFor_def ends_and_then ends_change ends_reading
    by (simp add: seg cursor(1) start l1_def [symmetric] merged)
      (rule ends_weaken [OF page], auto simp: start l1 set_frames_def frames_of_def seg set_fetched_def cursor page_end_def update_conv
        set_cursor_def APP_FETCH_LIMIT_def)
qed

lemma advance_to_push:
  assumes "ae_cursorStore E" "\<forall>w. fst (ae_saveCursor E w) = Done"
    and "frames_of name l = \<lparr> fa_position = q, fa_sealed = DoneFrame \<rparr> # fs" "\<forall>f \<in> set fs. \<not> is_done f"
    and "map_of (al_cursors l) name = Some c" "ac_position c \<noteq> Some q"
  shows "ends (advanceCursor E name)
    (\<lambda>_ l'. map_option ac_position (map_of (al_cursors l') name) = Some (Some q) \<and> al_saved l' (ac_topicID c) = Some q)
    (\<lambda>_ _. False) l"
proof -
  have "takeWhile is_done (frames_of name l) = [\<lparr> fa_position = q, fa_sealed = DoneFrame \<rparr>]"
    using assms(3,4) by (cases fs) (auto simp: is_done_def)
  moreover have save: "ends (outside (ae_saveCursor E)) (\<lambda>r s'. r = Done \<and> (\<exists>w. s' = s \<lparr> al_world := w \<rparr>)) (\<lambda>_ _. False) s" for s :: "'a app_lane"
    using assms(2) [rule_format, of "al_world s"] by (auto simp: ends_def outside_def split: prod.splits)
  ultimately show ?thesis
    using assms(1,5,6) unfolding advanceCursor_def save_cursor_def ends_reading Let_def
    by (simp add: set_frames_def set_cursor_def) (rule ends_weaken [OF save], auto simp: update_conv')
qed

text \<open>
  Claim C27. The live mode lets a read position move back. Take any lane of a group with one protocol whose cursor, and
  the position the host stores, is \<open>p\<close>, with nothing buffered but later frames that are not done, and a log that
  has nothing further to read. When the push of a frame at an earlier position \<open>q\<close> is noted then, which is what
  happens when the hub hands it over after the pull that read it, the sync it schedules returns and leaves both
  the cursor and the stored position at \<open>q\<close>, so a restart reads the frames in between again.
\<close>

theorem late_push_moves_cursor_back:
  assumes "\<not> ae_durable E" and "ae_cursorStore E" and "\<forall>w. fst (ae_saveCursor E w) = Done"
    and "map fst (ae_protocols E) = [name]" and "map fst (al_segment l) = [name]" and "al_staged l = []"
    and "map_of (al_cursors l) name = Some c" and "ac_position c = Some p" and "al_saved l (ac_topicID c) = Some p"
    and "\<forall>f \<in> set (frames_of name l). q < fa_position f \<and> \<not> is_done f"
    and "\<forall>w. \<exists>w'. ae_fetch E (ac_topicID c) (Some (or_else (ac_fetched c) p)) APP_FETCH_LIMIT w =
           (Inr \<lparr> fr_messages = [], fr_head = h, fr_oldest = od, fr_gap = False \<rparr>, w')"
    and "sm_logPosition m = Some q" and "q < p"
  shows "ends (sync (Suc n) E)
    (\<lambda>_ l'. map_option ac_position (map_of (al_cursors l') name) = Some (Some q) \<and> al_saved l' (ac_topicID c) = Some q)
    (\<lambda>_ _. False) (note_push E name (ac_topicID c) m False l)"
proof -
  define l1 where "l1 = note_push E name (ac_topicID c) m False l \<lparr> al_syncScheduled := False \<rparr>"
  have l1: "frames_of name l1 = frames_of name l" "al_segment l1 = al_segment l" "al_cursors l1 = al_cursors l"
    "map_of (al_staged l1) name = Some [(ac_topicID c, \<lparr> fa_position = q, fa_sealed = DoneFrame \<rparr>)]"
    using assms(1,6,12) by (simp_all add: l1_def note_push_def frames_of_def or_else_def)
  have load: "ends (loadOne (Suc n) E name)
    (\<lambda>_ l'. frames_of name l' = \<lparr> fa_position = q, fa_sealed = DoneFrame \<rparr> # frames_of name l \<and> map fst (al_segment l') = [name]
       \<and> (\<exists>c'. map_of (al_cursors l') name = Some c' \<and> ac_topicID c' = ac_topicID c \<and> ac_position c' = Some p))
    (\<lambda>_ _. False) l1"
    using load_late_push [of E name l1 q c p h od n, unfolded l1, OF assms(1) _ assms(5) refl assms(7,8,11)] assms(10) by blast
  have advance: "ends (advanceCursor E name)
    (\<lambda>_ l'. map_option ac_position (map_of (al_cursors l') name) = Some (Some q) \<and> al_saved l' (ac_topicID c) = Some q)
    (\<lambda>_ _. False) s" if "frames_of name s = \<lparr> fa_position = q, fa_sealed = DoneFrame \<rparr> # frames_of name l"
      "map_of (al_cursors s) name = Some c'" "ac_topicID c' = ac_topicID c" "ac_position c' = Some p" for s c'
    using advance_to_push [OF assms(2,3) that(1) _ that(2)] assms(10,13) that(3,4) by auto
  show ?thesis
    unfolding sync_def loadSegment_def assms(4) all_settled.simps ends_and_then [of "change _"] ends_change
      ends_catching ends_and_then l1_def [symmetric]
    by (rule ends_weaken [OF load]) (auto intro!: ends_weaken [OF advance])
qed

definition delivered_lane :: "unit app_lane" where
  "delivered_lane = lane_run (demo_app False) [DeliverOp 1] demo_lane"

lemma delivered_lane_state:
  "map fst (al_segment delivered_lane) = [''chat'']" "al_staged delivered_lane = []" "frames_of ''chat'' delivered_lane = []"
  "map_of (al_cursors delivered_lane) ''chat'' = Some \<lparr> ac_topicID = ''topic'', ac_position = Some ''2'', ac_fetched = Some ''2'' \<rparr>"
  "al_saved delivered_lane ''topic'' = Some ''2''"
  by code_simp+

theorem late_push_moves_cursor_back_witness:
  "read_by [DeliverOp 1] = Some ''2'' \<and> read_by ([DeliverOp 1] @ [noted_late, SyncOp 1]) = Some ''1''"
proof
  show "read_by [DeliverOp 1] = Some ''2''"
    using delivered_lane_state(5) by (simp add: read_by_def delivered_lane_def)
  let ?c = "\<lparr> ac_topicID = ''topic'', ac_position = Some ''2'', ac_fetched = Some ''2'' \<rparr>"
  have env: "\<not> ae_durable (demo_app False)" "ae_cursorStore (demo_app False)" "\<forall>w. fst (ae_saveCursor (demo_app False) w) = Done"
    "map fst (ae_protocols (demo_app False)) = [''chat'']"
    and fetch: "\<forall>w. \<exists>w'. ae_fetch (demo_app False) (ac_topicID ?c) (Some (or_else (ac_fetched ?c) ''2'')) APP_FETCH_LIMIT w =
      (Inr \<lparr> fr_messages = [], fr_head = None, fr_oldest = None, fr_gap = False \<rparr>, w')"
    and push: "sm_logPosition (demo_frame ''1'') = Some ''1''" "''1'' < ''2''"
    by (simp_all add: demo_app_def serve_def demo_frame_def or_else_def)
  have "\<forall>f \<in> set (frames_of ''chat'' delivered_lane). ''1'' < fa_position f \<and> \<not> is_done f"
    by (simp add: delivered_lane_state)
  note late_push_moves_cursor_back [OF env delivered_lane_state(1,2,4) _ _ this fetch push, of 0]
  then have "al_saved (snd (sync 1 (demo_app False) (note_push (demo_app False) ''chat'' ''topic'' (demo_frame ''1'') False delivered_lane)))
      ''topic'' = Some ''1''"
    by (simp add: delivered_lane_state ends_def split: prod.splits sum.splits)
  then show "read_by ([DeliverOp 1] @ [noted_late, SyncOp 1]) = Some ''1''"
    by (simp add: read_by_def lane_run_def delivered_lane_def noted_late_def)
qed

section \<open>The durable mode\<close>

text \<open>
  Claim C26. With durable delivery no read position the host holds moves back, whatever the lane goes through, failed
  saves included; and a frame still buffered, sealed or waiting in the queue of records, lies past the position
  held for its topic. The topics of the served protocols at the anchors of the run have to differ.
\<close>

theorem durable_positions_move_forward:
  fixes saved :: "topic_id \<rightharpoonup> sequence_id" and w :: 'w
  assumes "ae_durable E" "ae_cursorStore E"
    and "\<forall>a \<in> set (anchor # anchors_of (ops @ ops')). topics_apart E a"
  defines "before \<equiv> lane_run E ops (createAppLane anchor saved w)"
    and "after \<equiv> lane_run E (ops @ ops') (createAppLane anchor saved w)"
  shows "not_before (al_saved before t) (al_saved after t) \<and>
    (\<forall>name c f. map_of (al_cursors after) name = Some c \<and> f \<in> set (frames_of name after) \<longrightarrow>
       past (al_saved after (ac_topicID c)) (fa_position f))"
proof -
  have apart: "topics_apart E anchor" "\<forall>a \<in> set (anchors_of ops). topics_apart E a"
    "\<forall>a \<in> set (anchors_of ops'). topics_apart E a"
    using assms(3) by (simp_all add: anchors_append)
  have ok: "onward_ok E before"
    unfolding before_def by (intro conjunct1 [OF onward_run] onward_ok_start apart assms(1))
  have rest: "onward_ok E after \<and> saved_forward before after"
    unfolding after_def lane_run_append before_def [symmetric] by (intro onward_run ok apart assms(1))
  then show ?thesis
    using onward_ok_beyond [OF conjunct1 [OF rest] assms(2)] unfolding saved_forward_def by blast
qed

definition durable_read_by :: "app_op list \<Rightarrow> sequence_id option" where
  "durable_read_by ops = al_saved (lane_run (demo_app True) ops demo_lane) ''topic''"

lemma durable_after_delivery: "durable_read_by [DeliverOp 1] = Some ''2''"
  by code_simp

theorem durable_positions_move_forward_witness:
  "durable_read_by [DeliverOp 1] = Some ''2'' \<and>
   not_before (Some ''2'') (durable_read_by ([DeliverOp 1] @ [noted_late, SyncOp 1]))"
proof -
  have env: "ae_durable (demo_app True)" "ae_cursorStore (demo_app True)" by (simp_all add: demo_app_def)
  have "topics_apart (demo_app True) a" for a by (simp add: topics_apart_def demo_app_def)
  then have "\<forall>a \<in> set (\<lparr> an_secret = [7], an_epoch = 2 \<rparr> # anchors_of ([DeliverOp 1] @ [noted_late, SyncOp 1])).
      topics_apart (demo_app True) a" by blast
  from durable_positions_move_forward [OF env this, of Map.empty "()" "''topic''"]
  have "not_before (durable_read_by [DeliverOp 1]) (durable_read_by ([DeliverOp 1] @ [noted_late, SyncOp 1]))"
    unfolding durable_read_by_def demo_lane_def by (rule conjunct1)
  with durable_after_delivery show ?thesis by simp
qed

end
