(* ===== verification/Spec2Isabelle.thy ===== *)
theory Spec2Isabelle
  imports Memory_Delivery SQL_Props Hub_Props Receive_Channel Policy_Props Peer_Props Delivery_Props App_Props
begin

text \<open>
  Kumiai: the hub and the group-state core, modelled and verified.

  Kumiai is a TypeScript stack for end-to-end encrypted groups. Peers publish sealed frames to topics on
  a hub that cannot read them. A hub is a store behind request handlers; a frame is \<^verbatim>\<open>log\<close> class (the
  group's commit log, kept until trimmed and ordered by a compare-and-set on the topic's head) or
  \<^verbatim>\<open>mailbox\<close> class (freed by the last ack). A group's authority lives in a ledger of signed entries: every
  member folds it to the same roster and device registry, a commit enacts further entries, and a policy
  over the folded state decides whether a member accepts the commit. All paths below are under
  \<^verbatim>\<open>src/packages\<close>.

  The hub.
  \<^item> \<open>Prelude\<close>: types all components use, lists, and decimal positions.
  \<^item> \<open>Hub_Protocol\<close>: \<^verbatim>\<open>hub-protocol/src/types.ts\<close> and \<^verbatim>\<open>errors.ts\<close>.
  \<^item> \<open>Hub_Contract\<close>: the contract of a topic log, as the locale \<open>hub_log_store\<close> over any store, with the
    ghost history of accepted frames. Its lemmas are proved once for both stores.
  \<^item> \<open>Memory_Store\<close>, \<open>Memory_Inv\<close>, \<open>Memory_Ops\<close>, \<open>Memory_Spec\<close>: \<^verbatim>\<open>hub-server/src/memoryStore.ts\<close>, its
    invariant, the effect of each operation, and the interpretation of the contract.
  \<^item> \<open>Memory_Props\<close>, \<open>Memory_Delivery\<close>: the properties of the memory store.
  \<^item> \<open>SQL_Store\<close>, \<open>SQL_Inv\<close>, \<open>SQL_Spec\<close>, \<open>SQL_Props\<close>: the same for \<^verbatim>\<open>hub-store/src/store.ts\<close>.
  \<^item> \<open>Rate_Limit\<close>, \<open>Client_Registry\<close>, \<open>Wake_Dispatcher\<close>: \<^verbatim>\<open>rateLimit.ts\<close>, \<^verbatim>\<open>registry.ts\<close> and \<^verbatim>\<open>wake.ts\<close> of
    \<^verbatim>\<open>hub-server/src\<close>, each with its laws.
  \<^item> \<open>Hub_Handlers\<close>: the procedures of \<^verbatim>\<open>hub-server/src/handlers.ts\<close> over any store (a record of its
    operations), with authorization, rate limits, the fan-out of a publish to the registry and to wakes.
    \<open>Hub_Props\<close> states their properties, and those of the handlers over the memory store, through the
    locale \<open>key_package_pool\<close>.
  \<^item> \<open>Receive_Channel\<close>: \<^verbatim>\<open>hub/v1/receive\<close> as a state machine whose steps are the wake-ups of its loop. Its bounds and
    its authorization hold for any events; the order of its writes for events that keep \<open>promised\<close>, which a
    push of a frame the drain has already read breaks.

  The group state, \<^verbatim>\<open>mls/src\<close>.
  \<^item> \<open>Ledger_Types\<close>, \<open>Ledger_Fold\<close>, \<open>Ledger_Head\<close>: entries and the reading of a verified token
    (\<^verbatim>\<open>ledger.ts\<close>), the fold to a projection and the roster (\<^verbatim>\<open>fold.ts\<close>, \<^verbatim>\<open>roster.ts\<close>), and the hash chain
    over enacted ids (\<^verbatim>\<open>head.ts\<close>).
  \<^item> \<open>Group_Anchor\<close>: the genesis anchor and the identity a leaf carries (\<^verbatim>\<open>anchor.ts\<close>, \<^verbatim>\<open>credential.ts\<close>).
  \<^item> \<open>Controller_Log\<close>, \<open>Member_Root\<close>, \<open>Member_Authority\<close>: what a controller log proves and who speaks for
    a controller (\<^verbatim>\<open>controller-log.ts\<close>, \<^verbatim>\<open>controller-ingest.ts\<close>, \<^verbatim>\<open>member-root.ts\<close>, \<^verbatim>\<open>capability.ts\<close>).
  \<^item> \<open>Device_Value\<close>, \<open>Device_Registry\<close>: the guard on the value of a device entry, the authentication of its
    proof, and the registry's fold step (\<^verbatim>\<open>registry.ts\<close>, \<^verbatim>\<open>lifecycle-proof.ts\<close>).
  \<^item> \<open>Control_Fold\<close>: the replay of a ledger (\<^verbatim>\<open>foldControl\<close>) and the judgement of the entries of a commit
    (\<^verbatim>\<open>envelope-fold.ts\<close>). \<open>Registry_Laws\<close> holds what a replay never loses, over the locale \<open>replay_law\<close>.
  \<^item> \<open>Commit_Policy\<close>: \<^verbatim>\<open>policy.ts\<close>, what a member accepts from a commit.
  \<^item> \<open>Mls_Props\<close>, \<open>Policy_Props\<close>: the properties of this half.

  The commit lane of a peer, under \<^verbatim>\<open>rpc/src\<close>. A peer reads the group's commit log from a hub, applies what it
  accepts through its MLS port, and publishes its own commits against the head it read. It calls a hub of the
  first half, and what the port answers is judged by the second.
  \<^item> \<open>Peer_Frames\<close>, \<open>Commit_Classify\<close>, \<open>Recovery_Cache\<close>: the codecs (\<^verbatim>\<open>handshake.ts\<close>, \<^verbatim>\<open>commit-frame.ts\<close>,
    \<^verbatim>\<open>ledger-entries.ts\<close>, \<^verbatim>\<open>frame-size.ts\<close>), the table a frame is judged by (\<^verbatim>\<open>classify.ts\<close>) and the cache of
    \<^verbatim>\<open>recovery-confirmation.ts\<close>.
  \<^item> \<open>Actions\<close>: actions over a state that may throw, which the lanes are written in; \<open>ends\<close> says in what an action
    ends, with a value or with an error.
  \<^item> \<open>Peer_State\<close>: the closure of \<^verbatim>\<open>createGroupPeer\<close> as a record beside the handle, the slots of the host and
    the world, and the actions over it.
  \<^item> \<open>Anchor_Seam\<close>: \<^verbatim>\<open>advanceHandle\<close> and the anchor of the app lane (\<^verbatim>\<open>anchor.ts\<close>, \<^verbatim>\<open>roster.ts\<close>).
  \<^item> \<open>Commit_Walk\<close>: \<^verbatim>\<open>walkCommits\<close>, \<^verbatim>\<open>pullCommits\<close>. \<open>Commit_Journal\<close>: the journal, \<^verbatim>\<open>commit\<close> and \<^verbatim>\<open>replay\<close>
    (\<^verbatim>\<open>commit.ts\<close>). \<open>Peer_Restart\<close>: \<^verbatim>\<open>ready\<close>, with the laws of an interrupted advance, to another epoch number or
    to the one it left.
  \<^item> \<open>Walk_Laws\<close>, \<open>Walk_Spec\<close>, \<open>Walk_Complete\<close>, \<open>Walk_Fuel\<close>, \<open>Walk_Calm\<close>: \<open>enact_log\<close> is the meaning of a log
    for a handle; the walk refines it over any hub that serves the log, and ends; \<open>Walk_Calm\<close> tells what frames
    without an authenticated committer can change. \<open>Peer_Hub\<close> shows in the
    contract of a store that both stores are such hubs.
  \<^item> \<open>Journal_Laws\<close>, \<open>Calm_Host\<close>, \<open>Journal_Hub\<close>: the locale \<open>publish_log\<close> is what the journal asks of a hub,
    \<open>calm_host\<close> a host that fails at nothing; both are interpreted over the memory store. \<open>Restart_Laws\<close>: the
    journal across a restart, from the restoring of the anchor on.
  \<^item> \<open>Peer_Props\<close>: the properties of the lane.

  Application frames, under \<^verbatim>\<open>rpc/src\<close>.
  \<^item> \<open>App_Outbox\<close>, \<open>Log_Delivery\<close>: accepting a frame into the outbox of the host (\<^verbatim>\<open>app-outbox.ts\<close>), and the pass that
    seals, publishes and proves what is queued (\<^verbatim>\<open>log-delivery.ts\<close>), cut at every await. \<open>Delivery_Steps\<close> joins
    them: an event is an answer or a call, \<open>delivery_run\<close> a sequence of them.
  \<^item> \<open>Outbox_Inv\<close>, \<open>Delivery_Inv\<close>, \<open>Delivery_Trail\<close>, \<open>Delivery_Calm\<close>: the invariants of queue and pass, what a run
    tells of a proven entry, and the pass that nothing disturbs. \<open>Delivery_Props\<close>: their properties.
  \<^item> \<open>App_Frames\<close>: topics and their derivation (\<^verbatim>\<open>topic.ts\<close>, \<^verbatim>\<open>broadcast/src/topic.ts\<close>), the data an application seal
    is bound to (\<^verbatim>\<open>app-aad.ts\<close>).
  \<^item> \<open>App_Lane\<close>, \<open>App_Drain\<close>: the application lane (\<^verbatim>\<open>app-lane.ts\<close>), its state and its operations.
  \<^item> \<open>App_Inv\<close>, \<open>App_Runs\<close>, \<open>App_Durable\<close>: the order of its buffers over every run, and its read positions in the
    durable mode, through the predicate \<open>onward\<close> on actions. \<open>App_Props\<close>: their properties.

  Correspondence. A store is a record with a field per \<^verbatim>\<open>Map\<close> of the closure (memory) or per table
  (SQL); an operation is a function to a result and the next state, a throw is \<open>Inl\<close> of the error. The
  clock is an argument in milliseconds. Maps whose iteration order the code observes are association
  lists, the others are partial functions. A callback or an awaited answer of a host, a store or a
  transport is carried by the event that resumes the code; a channel is a number where the code compares
  closures, and a symbol a fresh number. Strings stand for their UTF-8 bytes. A token bucket holds a
  rational where the code has a floating point number.
  A peer runs one lane operation at a time, as the mutex of the code has it. A durable write of its host is
  done, rejects, or rejects after it took effect; that a process dies is an operation cut off at any write,
  followed by \<open>boot_peer\<close>. The MLS port, the builders of the host and the app lane are functions of the record
  \<open>peer_env\<close>: a port call acts on the handle, the others on the world.
  Code of other packages is an argument: \<open>nd\<close> (\<^verbatim>\<open>normalizeDID\<close>), the record \<open>kokuin\<close> (log
  folding and digests of \<^verbatim>\<open>@kokuin/controller\<close>), \<open>sha\<close> (the digest), \<open>parse\<close> (\<^verbatim>\<open>JSON.parse\<close>, \<open>None\<close> when it
  throws) and the verification of a token by its outcome. What a statement needs of them, say that
  normalizing twice changes nothing, is a named hypothesis, and its witness has a concrete instance.

  Bounds. Positions are twelve decimal digits, so order statements carry the hypothesis that the counter
  is below \<open>10 ^ 12\<close>. Recursion is structural or has a measure, but for two loops of the walk the code does
  not bound: over pages, and over one frame when the port answers for another epoch. They take fuel. A page
  holds a hundred frames, so more pages than a hundredth of the log are enough, and one turn is enough for a
  frame when the port answers for the handle it was called on (\<open>answers_own_epoch\<close>); beyond that the fuel does
  not change the result. The pull of the application lane takes fuel for its pages too. A delivery pass hands at
  most 64 entries to the hub, and an entry has at most \<open>MAX_APP_ENTRY_BYTES\<close>.

  Not modelled. The SQL engine is the meaning of the statements the code issues, executed one transaction
  at a time (that a transaction which throws leaves the tables is the contract of the wrapper of
  \<^verbatim>\<open>@hozon/db\<close>, not a result), with the first head read of a publish left arbitrary to cover a racing writer; statements outside a
  transaction are not interleaved. Row orders that SQL leaves unspecified are insertion order. Two
  handlers awaiting at the same time, event emission, adapters' binary codecs, logging, an injected waker
  that throws, the cipher of a wake envelope, the memos of the folds, minting and signing of tokens, and
  the effect of a lifecycle entry on the live tree of a group handle are left out. Of the peer, so are its
  disposal, the timers that retry, the recovery attempt with its exchanges over the rendezvous topic (the
  gathering of a ledger is the call \<open>ge_gather\<close>), and the reservation hooks around a build (part of
  \<open>ge_build\<close>). The commit lane calls the application lane and the delivery as functions of its world; their models
  are not composed with it. Of these two, a durable write takes effect when it settles, what runs between two
  awaits is one step, the protocols of a lane are pulled one after another, a notice to the host is recorded when
  it is queued, and \<^verbatim>\<open>localeCompare\<close> is the order of the positions. Also left out are the packages
  that only carry bytes between these parts, listed with their reasons in the manifest of the
  development.
\<close>

end
